(* ===== verification/Prelude.thy ===== *)
theory Prelude
  imports Main "HOL-Library.Word" "HOL-Library.Signed_Division"
begin

text \<open>
  Shared vocabulary of the development: the outcome type of kernel code (a value, or one of the
  ways in which a kernel thread stops), the sequencing operator and its total-correctness reading
  \<open>wp\<close>, loops over lists, C integer conversions, and the exclusive-or algebra of disk blocks that
  the parity levels of \<^verbatim>\<open>kernel/raid.c\<close> rest on.
\<close>

unbundle bit_operations_syntax

named_theorems wp_rules "total-correctness rules of the operations"
named_theorems pc_rules "partial-correctness rules of the operations"
named_theorems res_simps "equations that run the sequencing operator"

section \<open>Machine types\<close>

type_synonym uchar = "8 word"
type_synonym ushort = "16 word"
type_synonym uint32 = "32 word"
type_synonym uint64 = "64 word"
type_synonym block = "uchar list"

text \<open>\<^verbatim>\<open>BSIZE\<close> of \<^verbatim>\<open>kernel/fs.h\<close>.\<close>

definition BSIZE :: nat where
  "BSIZE = 1024"

text \<open>Storing an arithmetic result in a C \<^verbatim>\<open>int\<close>: two's complement wrap-around at 32 bits.\<close>

definition i32 :: "int \<Rightarrow> int" where
  "i32 x = (x + 2 ^ 31) mod 2 ^ 32 - 2 ^ 31"

lemma i32_id [simp]: "- (2 ^ 31) \<le> x \<Longrightarrow> x < 2 ^ 31 \<Longrightarrow> i32 x = x"
  by (simp add: i32_def)

lemma i32_range: "- (2 ^ 31) \<le> i32 x \<and> i32 x < 2 ^ 31"
  by (simp add: i32_def)

text \<open>
  C division truncates towards zero; on non-negative operands it is the mathematical one.
\<close>

lemma sdiv_nonneg [simp]: "0 \<le> (a::int) \<Longrightarrow> 0 < b \<Longrightarrow> a sdiv b = a div b"
  by (cases "a = 0") (simp_all add: signed_divide_int_def)

lemma smod_nonneg [simp]: "0 \<le> (a::int) \<Longrightarrow> 0 < b \<Longrightarrow> a smod b = a mod b"
  by (cases "a = 0") (simp_all add: signed_modulo_int_def)

section \<open>Outcomes of kernel code\<close>

text \<open>
  \<open>Panic\<close>: a call of \<^verbatim>\<open>panic\<close> with its message. \<open>BadAccess\<close>: a null or out-of-range memory access,
  undefined in C and a page fault in the running kernel. \<open>Blocked\<close>: the thread sleeps and nothing
  in the model wakes it.
\<close>

datatype halt = Panic string | BadAccess | Blocked

type_synonym 'a res = "halt + 'a"

definition kbind :: "'a res \<Rightarrow> ('a \<Rightarrow> 'b res) \<Rightarrow> 'b res" where
  "kbind m f = (case m of Inl e \<Rightarrow> Inl e | Inr x \<Rightarrow> f x)"

lemma kbind_Inr [simp, res_simps]: "kbind (Inr x) f = f x"
  by (simp add: kbind_def)

lemma kbind_Inl [simp, res_simps]: "kbind (Inl e) f = Inl e"
  by (simp add: kbind_def)

lemma kbind_assoc: "kbind (kbind m f) g = kbind m (\<lambda>x. kbind (f x) g)"
  by (cases m) simp_all

lemma kbind_eq_Inr: "kbind m f = Inr y \<longleftrightarrow> (\<exists>x. m = Inr x \<and> f x = Inr y)"
  by (cases m) simp_all

lemma kbind_cong [fundef_cong]:
  "m = m' \<Longrightarrow> (\<And>x. m' = Inr x \<Longrightarrow> f x = f' x) \<Longrightarrow> kbind m f = kbind m' f'"
  by (cases m') simp_all

text \<open>Total correctness: the code returns, and its result satisfies \<open>Q\<close>.\<close>

definition wp :: "'a res \<Rightarrow> ('a \<Rightarrow> bool) \<Rightarrow> bool" where
  "wp m Q = (case m of Inl _ \<Rightarrow> False | Inr x \<Rightarrow> Q x)"

lemma wp_Inr [simp]: "wp (Inr x) Q = Q x"
  by (simp add: wp_def)

lemma wp_Inl [simp]: "\<not> wp (Inl e) Q"
  by (simp add: wp_def)

lemma wp_kbind [simp]: "wp (kbind m f) Q = wp m (\<lambda>x. wp (f x) Q)"
  by (cases m) simp_all

lemma wp_iff: "wp m Q \<longleftrightarrow> (\<exists>x. m = Inr x \<and> Q x)"
  by (cases m) simp_all

lemma wp_mono: "wp m P \<Longrightarrow> (\<And>x. P x \<Longrightarrow> Q x) \<Longrightarrow> wp m Q"
  by (cases m) simp_all

lemma wp_conj: "wp m P \<Longrightarrow> wp m Q \<Longrightarrow> wp m (\<lambda>x. P x \<and> Q x)"
  by (cases m) simp_all

lemma wp_if [wp_rules]:
  "(b \<Longrightarrow> wp m Q) \<Longrightarrow> (\<not> b \<Longrightarrow> wp n Q) \<Longrightarrow> wp (if b then m else n) Q"
  by simp

text \<open>Partial correctness: if the code returns, its result satisfies \<open>P\<close>. It carries frame conditions.\<close>

definition pc :: "'a res \<Rightarrow> ('a \<Rightarrow> bool) \<Rightarrow> bool" where
  "pc m P = (case m of Inl _ \<Rightarrow> True | Inr x \<Rightarrow> P x)"

lemma pc_simps [simp]: "pc (Inr x) P = P x" "pc (Inl e) P" "pc (kbind m f) P = pc m (\<lambda>x. pc (f x) P)"
  by (simp_all add: pc_def) (cases m; simp add: pc_def)

lemma pc_mono: "pc m P \<Longrightarrow> (\<And>x. P x \<Longrightarrow> Q x) \<Longrightarrow> pc m Q"
  by (cases m) simp_all

lemma wp_pc: "wp m P \<Longrightarrow> pc m Q \<Longrightarrow> (\<And>x. P x \<Longrightarrow> Q x \<Longrightarrow> R x) \<Longrightarrow> wp m R"
  by (cases m) simp_all

section \<open>Loops over a list\<close>

text \<open>A \<^verbatim>\<open>for\<close> loop whose body may stop the thread.\<close>

fun kfold :: "('x \<Rightarrow> 's \<Rightarrow> 's res) \<Rightarrow> 'x list \<Rightarrow> 's \<Rightarrow> 's res" where
  "kfold f [] s = Inr s"
| "kfold f (x # xs) s = kbind (f x s) (kfold f xs)"

lemma kfold_append: "kfold f (xs @ ys) s = kbind (kfold f xs s) (kfold f ys)"
  by (induction xs arbitrary: s) (auto simp: kbind_assoc intro!: arg_cong2 [where f = kbind])

text \<open>Loop rule: an invariant indexed by the part of the list already done.\<close>

lemma wp_kfold:
  assumes init: "P [] s"
    and step: "\<And>pre x rest s. xs = pre @ x # rest \<Longrightarrow> P pre s \<Longrightarrow> wp (f x s) (P (pre @ [x]))"
  shows "wp (kfold f xs s) (P xs)"
proof -
  have "xs = pre @ rest \<Longrightarrow> P pre s \<Longrightarrow> wp (kfold f rest s) (P xs)" for pre rest s
  proof (induction rest arbitrary: pre s)
    case Nil
    then show ?case by simp
  next
    case (Cons x rest)
    have "wp (f x s) (P (pre @ [x]))"
      by (rule step [OF Cons.prems])
    then show ?case
      using Cons.IH [of "pre @ [x]"] Cons.prems(1) by (auto elim: wp_mono)
  qed
  from this [of "[]" xs s] init show ?thesis by simp
qed

lemma pc_kfold:
  assumes "P s" and "\<And>x s. P s \<Longrightarrow> pc (f x s) P"
  shows "pc (kfold f xs s) P"
  using assms(1) by (induction xs arbitrary: s) (auto intro: pc_mono [OF assms(2)])

lemma upt_split:
  assumes "[0..<n] = pre @ i # rest"
  shows "i = length pre" "i < n"
proof -
  have n: "length pre < n" using arg_cong [OF assms, of length] by simp
  then have "[0..<n] ! length pre = length pre" by simp
  then show "i = length pre" by (simp add: assms)
  with n show "i < n" by simp
qed

section \<open>Lists of optional values\<close>

lemma those_append: "those (xs @ ys) = (case those xs of None \<Rightarrow> None | Some x \<Rightarrow> map_option ((@) x) (those ys))"
  by (cases "those ys"; induction xs) (auto split: option.splits)

lemma those_length: "those xs = Some ys \<Longrightarrow> length ys = length xs"
  by (induction xs arbitrary: ys) (auto split: option.splits)

lemma those_map_Some: "those (map (\<lambda>i. Some (f i)) xs) = Some (map f xs)"
  by (induction xs) auto

section \<open>Words in a byte array\<close>

text \<open>A C \<^verbatim>\<open>uint\<close> in memory is four bytes, the lowest first; \<open>k\<close> counts in words.\<close>

definition le32 :: "uint32 \<Rightarrow> uchar list" where
  "le32 w = [ucast w, ucast (drop_bit 8 w), ucast (drop_bit 16 w), ucast (drop_bit 24 w)]"

definition of_le32 :: "uchar list \<Rightarrow> uint32" where
  "of_le32 bs = ucast (bs ! 0) OR push_bit 8 (ucast (bs ! 1)) OR push_bit 16 (ucast (bs ! 2)) OR
                push_bit 24 (ucast (bs ! 3))"

definition get32 :: "nat \<Rightarrow> uchar list \<Rightarrow> uint32" where
  "get32 k bs = of_le32 (drop (4 * k) bs)"

definition put32 :: "nat \<Rightarrow> uint32 \<Rightarrow> uchar list \<Rightarrow> uchar list" where
  "put32 k w bs = take (4 * k) bs @ le32 w @ drop (4 * k + 4) bs"

lemma of_le32_le32: "of_le32 (le32 w @ bs) = w"
proof (rule bit_word_eqI)
  fix n :: nat
  assume "n < LENGTH(32)"
  then consider "n < 8" | "8 \<le> n" "n < 16" | "16 \<le> n" "n < 24" | "24 \<le> n" "n < 32" by fastforce
  then show "bit (of_le32 (le32 w @ bs)) n = bit w n"
    by cases (auto simp: of_le32_def le32_def nth_append bit_simps)
qed

lemma length_put32 [simp]: "4 * k + 4 \<le> length bs \<Longrightarrow> length (put32 k w bs) = length bs"
  by (simp add: put32_def le32_def)

lemma get32_put32:
  assumes "4 * k + 4 \<le> length bs" "4 * j + 4 \<le> length bs"
  shows "get32 j (put32 k w bs) = (if j = k then w else get32 j bs)"
proof (cases "j = k")
  case True
  with assms show ?thesis by (simp add: get32_def put32_def of_le32_le32)
next
  case False
  have "drop (4 * j) (put32 k w bs) ! i = drop (4 * j) bs ! i" if "i < 4" for i
  proof (cases "j < k")
    case True
    with that have "i < 4 * k - 4 * j" by linarith
    with that assms True show ?thesis by (simp add: put32_def nth_append)
  next
    case False
    with \<open>j \<noteq> k\<close> that assms show ?thesis by (simp add: put32_def nth_append le32_def)
  qed
  with False show ?thesis by (simp add: get32_def of_le32_def)
qed

section \<open>Exclusive or of bytes and blocks\<close>

text \<open>The exclusive or of a list of words, and how it changes when one word changes.\<close>

fun xorl :: "'a::len word list \<Rightarrow> 'a word" where
  "xorl [] = 0"
| "xorl (x # xs) = x XOR xorl xs"

lemma xor_self_left [simp]: "(x::'a::len word) XOR (x XOR y) = y"
  by (simp add: xor.assoc [symmetric])

lemmas xor_ac = xor.assoc xor.commute xor.left_commute

lemma xorl_append [simp]: "xorl (xs @ ys) = xorl xs XOR xorl ys"
  by (induction xs) (simp_all add: xor.assoc)

lemma xorl_map_upd:
  assumes "distinct ks" and "k \<in> set ks"
  shows "xorl (map (f(k := v)) ks) = xorl (map f ks) XOR f k XOR v"
  using assms
proof (induction ks)
  case Nil
  then show ?case by simp
next
  case (Cons a ks)
  show ?case
  proof (cases "a = k")
    case True
    with Cons.prems have "map (f(k := v)) ks = map f ks" by (simp del: fun_upd_apply)
    with True show ?thesis by (simp add: xor_ac fun_upd_same del: fun_upd_apply map_eq_conv)
  next
    case False
    with Cons show ?thesis by (auto simp: xor_ac)
  qed
qed

text \<open>Leaving one position out of a list whose exclusive or is zero yields the word left out.\<close>

lemma xorl_filter_out:
  assumes "distinct ks" and "k \<in> set ks"
  shows "xorl (map f (filter (\<lambda>j. j \<noteq> k) ks)) = xorl (map f ks) XOR f k"
  using assms
proof (induction ks)
  case Nil
  then show ?case by simp
next
  case (Cons a ks)
  show ?case
  proof (cases "a = k")
    case True
    with Cons.prems have "filter (\<lambda>j. j \<noteq> k) ks = ks" by (auto simp: filter_id_conv)
    with True show ?thesis by (simp add: xor_ac)
  next
    case False
    with Cons show ?thesis by (auto simp: xor_ac)
  qed
qed

end
