(* ===== verification/Locks.thy ===== *)
theory Locks
  imports Prelude
begin

text \<open>
  \<^verbatim>\<open>kernel/spinlock.c\<close> and \<^verbatim>\<open>kernel/sleeplock.c\<close>: interrupt nesting, spin locks and sleep locks,
  as functions of the lock word and of the calling hart's \<^verbatim>\<open>struct cpu\<close>. The interleavings of several
  harts on one lock are the subject of \<open>Lock_Steps\<close>.
\<close>

section \<open>Interrupt nesting\<close>

text \<open>
  The fields of \<^verbatim>\<open>struct cpu\<close> that locking uses. \<open>intr\<close> is the SIE bit of \<^verbatim>\<open>sstatus\<close> on that hart,
  which \<^verbatim>\<open>intr_get\<close>, \<^verbatim>\<open>intr_on\<close> and \<^verbatim>\<open>intr_off\<close> read and set.
\<close>

record cpu =
  noff :: int
  intena :: bool
  intr :: bool

definition push_off :: "cpu \<Rightarrow> cpu" where
  "push_off c =
     (let old = intr c;
          c = c\<lparr>intr := False\<rparr>;
          c = (if noff c = 0 then c\<lparr>intena := old\<rparr> else c)
      in c\<lparr>noff := noff c + 1\<rparr>)"

definition pop_off :: "cpu \<Rightarrow> cpu res" where
  "pop_off c =
     (if intr c then Inl (Panic ''pop_off - interruptible'')
      else if noff c < 1 then Inl (Panic ''pop_off'')
      else let c = c\<lparr>noff := noff c - 1\<rparr>
           in Inr (if noff c = 0 \<and> intena c then c\<lparr>intr := True\<rparr> else c))"

text \<open>Interrupts are off whenever a hart is inside a \<^verbatim>\<open>push_off\<close>.\<close>

definition cpu_ok :: "cpu \<Rightarrow> bool" where
  "cpu_ok c \<longleftrightarrow> 0 \<le> noff c \<and> (0 < noff c \<longrightarrow> \<not> intr c)"

lemma push_off_ok [simp]: "cpu_ok c \<Longrightarrow> cpu_ok (push_off c)"
  by (auto simp: push_off_def cpu_ok_def Let_def)

lemma push_off_noff [simp]: "noff (push_off c) = noff c + 1"
  by (simp add: push_off_def Let_def)

lemma push_off_intr [simp]: "\<not> intr (push_off c)"
  by (simp add: push_off_def Let_def)

lemma pop_push:
  "cpu_ok c \<Longrightarrow> pop_off (push_off c) = Inr (if noff c = 0 then c\<lparr>intena := intr c\<rparr> else c)"
  by (cases c) (auto simp: push_off_def pop_off_def cpu_ok_def Let_def)

lemma pop_push_ok: "cpu_ok c \<Longrightarrow> \<exists>c'. pop_off (push_off c) = Inr c' \<and> cpu_ok c' \<and> noff c' = noff c \<and> intr c' = intr c"
  by (auto simp: pop_push cpu_ok_def)

section \<open>Spin locks\<close>

record spinlock =
  locked :: uint32
  lkname :: string
  lkcpu :: "nat option"

definition initlock :: "string \<Rightarrow> spinlock" where
  "initlock nm = \<lparr>locked = 0, lkname = nm, lkcpu = None\<rparr>"

text \<open>\<open>me\<close> is the hart number, the \<^verbatim>\<open>mycpu()\<close> of the caller.\<close>

definition holding :: "nat \<Rightarrow> spinlock \<Rightarrow> bool" where
  "holding me lk \<longleftrightarrow> locked lk \<noteq> 0 \<and> lkcpu lk = Some me"

text \<open>
  The test-and-set loop of \<^verbatim>\<open>acquire\<close> ends only when it finds the lock word 0: while another hart
  holds the lock the caller spins, \<open>Blocked\<close>.
\<close>

definition acquire :: "nat \<Rightarrow> cpu \<times> spinlock \<Rightarrow> (cpu \<times> spinlock) res" where
  "acquire me = (\<lambda>(c, lk).
     let c = push_off c in
     if holding me lk then Inl (Panic ''acquire'')
     else if locked lk \<noteq> 0 then Inl Blocked
     else Inr (c, lk\<lparr>locked := 1, lkcpu := Some me\<rparr>))"

definition release :: "nat \<Rightarrow> cpu \<times> spinlock \<Rightarrow> (cpu \<times> spinlock) res" where
  "release me = (\<lambda>(c, lk).
     if \<not> holding me lk then Inl (Panic ''release'')
     else let lk = lk\<lparr>lkcpu := None, locked := 0\<rparr>
          in kbind (pop_off c) (\<lambda>c. Inr (c, lk)))"

definition lk_free :: "spinlock \<Rightarrow> bool" where
  "lk_free lk \<longleftrightarrow> locked lk = 0 \<and> lkcpu lk = None"

lemma lk_free_initlock [simp]: "lk_free (initlock nm)"
  by (simp add: lk_free_def initlock_def)

lemma acquire_free:
  "lk_free lk \<Longrightarrow> acquire me (c, lk) = Inr (push_off c, lk\<lparr>locked := 1, lkcpu := Some me\<rparr>)"
  by (simp add: acquire_def lk_free_def holding_def Let_def)

lemma acquire_self:
  "holding me lk \<Longrightarrow> acquire me (c, lk) = Inl (Panic ''acquire'')"
  by (simp add: acquire_def Let_def)

lemma release_held:
  "\<not> intr c \<Longrightarrow> 1 \<le> noff c \<Longrightarrow>
   release me (c, lk\<lparr>locked := 1, lkcpu := Some me\<rparr>) =
     Inr (c\<lparr>noff := noff c - 1, intr := (noff c = 1 \<and> intena c)\<rparr>, lk\<lparr>locked := 0, lkcpu := None\<rparr>)"
  by (cases c) (auto simp: release_def holding_def pop_off_def Let_def)

text \<open>A critical section leaves the lock free and the interrupt state as it was.\<close>

lemma acquire_release:
  assumes "lk_free lk" and "cpu_ok c"
  shows "\<exists>c'. kbind (acquire me (c, lk)) (release me) = Inr (c', lk) \<and>
           cpu_ok c' \<and> noff c' = noff c \<and> intr c' = intr c"
proof -
  have lk: "lk\<lparr>locked := 0, lkcpu := None\<rparr> = lk"
    using assms(1) by (cases lk) (simp add: lk_free_def)
  have "release me (push_off c, lk\<lparr>locked := 1, lkcpu := Some me\<rparr>) =
          kbind (pop_off (push_off c)) (\<lambda>c. Inr (c, lk\<lparr>locked := 0, lkcpu := None\<rparr>))"
    by (cases lk) (simp add: release_def holding_def Let_def)
  with pop_push_ok [OF assms(2)] show ?thesis
    by (auto simp: acquire_free [OF assms(1)] lk)
qed

text \<open>On a hart whose saved interrupt state is the current one a critical section restores it exactly.\<close>

definition cpu_calm :: "cpu \<Rightarrow> bool" where
  "cpu_calm c \<longleftrightarrow> cpu_ok c \<and> (noff c = 0 \<longrightarrow> intena c = intr c)"

lemma calm_release:
  assumes "cpu_calm c" "lk_free lk"
  shows "release me (push_off c, lk\<lparr>locked := 1, lkcpu := Some me\<rparr>) = Inr (c, lk)"
  using assms by (cases c; cases lk) (auto simp: release_def holding_def cpu_calm_def pop_push lk_free_def)

lemma calm_push [simp]: "cpu_calm c \<Longrightarrow> cpu_calm (push_off c)"
  by (auto simp: cpu_calm_def cpu_ok_def push_off_def Let_def)

section \<open>Sleep locks\<close>

record sleeplock =
  sl_locked :: uint32
  sl_lk :: spinlock
  sl_name :: string
  sl_pid :: int

definition initsleeplock :: "string \<Rightarrow> sleeplock" where
  "initsleeplock nm =
     \<lparr>sl_locked = 0, sl_lk = initlock ''sleep lock'', sl_name = nm, sl_pid = 0\<rparr>"

text \<open>
  \<open>p\<close> is the pid of the caller. A caller that finds the lock taken sleeps on it: it goes on only
  after a \<^verbatim>\<open>wakeup\<close> by \<^verbatim>\<open>releasesleep\<close>, \<open>Blocked\<close> here. The call of \<^verbatim>\<open>wakeup\<close> in \<^verbatim>\<open>releasesleep\<close> changes the process table, which
  these definitions do not have, and is left out.
\<close>

definition acquiresleep :: "nat \<Rightarrow> int \<Rightarrow> cpu \<times> sleeplock \<Rightarrow> (cpu \<times> sleeplock) res" where
  "acquiresleep me p = (\<lambda>(c, sl).
     kbind (acquire me (c, sl_lk sl)) (\<lambda>(c, lk).
     if sl_locked sl \<noteq> 0 then Inl Blocked
     else let sl = sl\<lparr>sl_locked := 1, sl_pid := p\<rparr>
          in kbind (release me (c, lk)) (\<lambda>(c, lk). Inr (c, sl\<lparr>sl_lk := lk\<rparr>))))"

definition releasesleep :: "nat \<Rightarrow> cpu \<times> sleeplock \<Rightarrow> (cpu \<times> sleeplock) res" where
  "releasesleep me = (\<lambda>(c, sl).
     kbind (acquire me (c, sl_lk sl)) (\<lambda>(c, lk).
     let sl = sl\<lparr>sl_locked := 0, sl_pid := 0\<rparr>
     in kbind (release me (c, lk)) (\<lambda>(c, lk). Inr (c, sl\<lparr>sl_lk := lk\<rparr>))))"

definition holdingsleep :: "nat \<Rightarrow> int \<Rightarrow> cpu \<times> sleeplock \<Rightarrow> (bool \<times> cpu \<times> sleeplock) res" where
  "holdingsleep me p = (\<lambda>(c, sl).
     kbind (acquire me (c, sl_lk sl)) (\<lambda>(c, lk).
     let r = (sl_locked sl \<noteq> 0 \<and> sl_pid sl = p)
     in kbind (release me (c, lk)) (\<lambda>(c, lk). Inr (r, c, sl\<lparr>sl_lk := lk\<rparr>))))"

definition sl_ok :: "sleeplock \<Rightarrow> bool" where
  "sl_ok sl \<longleftrightarrow> lk_free (sl_lk sl)"

lemma critical:
  assumes "lk_free lk" and "cpu_ok c"
  obtains c' where "acquire me (c, lk) = Inr (push_off c, lk\<lparr>locked := 1, lkcpu := Some me\<rparr>)"
    and "release me (push_off c, lk\<lparr>locked := 1, lkcpu := Some me\<rparr>) = Inr (c', lk)"
    and "cpu_ok c'" and "noff c' = noff c" and "intr c' = intr c"
  using acquire_release [OF assms, of me] acquire_free [OF assms(1), of me c]
  by (auto simp: kbind_eq_Inr)

lemma acquiresleep_free:
  assumes "sl_ok sl" and "cpu_ok c" and "sl_locked sl = 0"
  shows "\<exists>c'. acquiresleep me p (c, sl) = Inr (c', sl\<lparr>sl_locked := 1, sl_pid := p\<rparr>) \<and>
           cpu_ok c' \<and> noff c' = noff c \<and> intr c' = intr c"
proof -
  obtain c' where "acquire me (c, sl_lk sl) = Inr (push_off c, (sl_lk sl)\<lparr>locked := 1, lkcpu := Some me\<rparr>)"
    "release me (push_off c, (sl_lk sl)\<lparr>locked := 1, lkcpu := Some me\<rparr>) = Inr (c', sl_lk sl)"
    "cpu_ok c'" "noff c' = noff c" "intr c' = intr c"
    using critical [of "sl_lk sl" c me] assms(1,2) unfolding sl_ok_def by blast
  with assms(3) show ?thesis
    by (cases sl) (auto simp: acquiresleep_def Let_def)
qed

lemma acquiresleep_taken:
  assumes "sl_ok sl" and "sl_locked sl \<noteq> 0"
  shows "acquiresleep me p (c, sl) = Inl Blocked"
  using assms by (simp add: acquiresleep_def acquire_free sl_ok_def)

lemma releasesleep_ok:
  assumes "sl_ok sl" and "cpu_ok c"
  shows "\<exists>c'. releasesleep me (c, sl) = Inr (c', sl\<lparr>sl_locked := 0, sl_pid := 0\<rparr>) \<and>
           cpu_ok c' \<and> noff c' = noff c \<and> intr c' = intr c"
proof -
  obtain c' where "acquire me (c, sl_lk sl) = Inr (push_off c, (sl_lk sl)\<lparr>locked := 1, lkcpu := Some me\<rparr>)"
    "release me (push_off c, (sl_lk sl)\<lparr>locked := 1, lkcpu := Some me\<rparr>) = Inr (c', sl_lk sl)"
    "cpu_ok c'" "noff c' = noff c" "intr c' = intr c"
    using critical [of "sl_lk sl" c me] assms unfolding sl_ok_def by blast
  then show ?thesis
    by (cases sl) (auto simp: releasesleep_def Let_def)
qed

end
