(* ===== verification/Virtio.thy ===== *)
theory Virtio
  imports Locks
begin

text \<open>
  \<^verbatim>\<open>kernel/virtio_disk.c\<close>: the driver of the program disk (id 0) and of the RAID disks (ids 1 to
  \<^verbatim>\<open>DISKS\<close>), with the data layouts of \<^verbatim>\<open>kernel/virtio.h\<close> and \<^verbatim>\<open>kernel/buf.h\<close>. The disk device
  itself is not part of the sources: it is the parameter \<open>device\<close> of the hardware record, and the
  virtio behaviour the driver relies on is the predicate \<open>virtio_blk_device\<close>.
\<close>

section \<open>Data layout\<close>

definition NUM :: nat where
  "NUM = 16"

definition VRING_DESC_F_NEXT :: ushort where
  "VRING_DESC_F_NEXT = 1"

definition VRING_DESC_F_WRITE :: ushort where
  "VRING_DESC_F_WRITE = 2"

definition VIRTIO_BLK_T_IN :: uint32 where
  "VIRTIO_BLK_T_IN = 0"

definition VIRTIO_BLK_T_OUT :: uint32 where
  "VIRTIO_BLK_T_OUT = 1"

text \<open>
  The addresses the driver hands to the device: the header \<^verbatim>\<open>ops[i]\<close>, the data of a buffer, and
  the status byte of \<^verbatim>\<open>info[i]\<close>. A buffer pointer is an index of the buffer store.
\<close>

datatype dma = Null | OpsAt nat | DataOf nat | StatusAt nat

record virtq_desc =
  desc_addr :: dma
  desc_len :: uint32
  desc_flags :: ushort
  desc_next :: ushort

record virtio_blk_req =
  req_type :: uint32
  req_reserved :: uint32
  req_sector :: uint64

record vinfo =
  info_b :: "nat option"
  info_status :: uchar

record buf =
  b_valid :: int
  b_disk :: int
  b_dev :: uint32
  b_blockno :: uint32
  b_lock :: sleeplock
  b_refcnt :: uint32
  b_data :: block

text \<open>
  \<^verbatim>\<open>struct disk\<close>. \<open>avail_idx\<close>, \<open>avail_ring\<close> and \<open>uring_idx\<close>, \<open>uring\<close> are the shared rings
  \<^verbatim>\<open>*avail\<close> and \<^verbatim>\<open>*used\<close> (of a used element, the \<^verbatim>\<open>id\<close>); \<open>used_idx\<close> is the driver's own count.
\<close>

record vdisk =
  vname :: string
  desc :: "virtq_desc list"
  avail_idx :: ushort
  avail_ring :: "ushort list"
  uring_idx :: ushort
  uring :: "uint32 list"
  free :: "bool list"
  used_idx :: ushort
  info :: "vinfo list"
  ops :: "virtio_blk_req list"
  vdisk_lock :: spinlock

text \<open>
  The driver state: the array \<^verbatim>\<open>disk[]\<close>, the buffers, \<^verbatim>\<open>transfer_buffer[]\<close> (\<open>None\<close> is the null
  pointer), the hart the code runs on, and the state of the media behind the devices.
\<close>

record 'm vstate =
  disk :: "vdisk list"
  bufs :: "nat \<Rightarrow> buf"
  transfer_buffer :: "nat option list"
  hart :: nat
  vcpu :: cpu
  media :: 'm

text \<open>
  What the build and the machine fix: the \<^verbatim>\<open>-DDISKS\<close> and \<^verbatim>\<open>-DDISK_SIZE\<close> of the Makefile, the size
  of the program disk, the content of uninitialised stack buffers, the linker's \<^verbatim>\<open>end\<close>, and the
  device, which serves the requests pending on a disk.
\<close>

record 'm hw =
  DISKS :: nat
  DISK_SIZE :: nat
  FS_BLOCKS :: nat
  stack_junk :: block
  kend :: nat
  device :: "nat \<Rightarrow> 'm vstate \<Rightarrow> 'm vstate"

definition NUMBER_OF_BLOCKS :: "'m hw \<Rightarrow> nat" where
  "NUMBER_OF_BLOCKS h = DISK_SIZE h div BSIZE"

definition capacity :: "'m hw \<Rightarrow> nat \<Rightarrow> nat" where
  "capacity h did = (if did = 0 then FS_BLOCKS h else NUMBER_OF_BLOCKS h)"

section \<open>Descriptors\<close>

definition upd_disk :: "nat \<Rightarrow> (vdisk \<Rightarrow> vdisk) \<Rightarrow> 'm vstate \<Rightarrow> 'm vstate" where
  "upd_disk did f vs = vs\<lparr>disk := (disk vs)[did := f (disk vs ! did)]\<rparr>"

definition alloc_desc :: "vdisk \<Rightarrow> int \<times> vdisk" where
  "alloc_desc d =
     (case find (\<lambda>i. free d ! i) [0..<NUM] of
        Some i \<Rightarrow> (int i, d\<lparr>free := (free d)[i := False]\<rparr>)
      | None \<Rightarrow> (-1, d))"

definition zero_desc :: virtq_desc where
  "zero_desc = \<lparr>desc_addr = Null, desc_len = 0, desc_flags = 0, desc_next = 0\<rparr>"

text \<open>
  The call of \<^verbatim>\<open>wakeup\<close> for processes that wait for a descriptor is left out: a caller that finds too few descriptors is \<open>Blocked\<close>.
\<close>

definition free_desc :: "nat \<Rightarrow> vdisk \<Rightarrow> vdisk res" where
  "free_desc i d =
     (if i \<ge> NUM then Inl (Panic (vname d @ '': free_desc 1''))
      else if free d ! i then Inl (Panic (vname d @ '': free_desc 2''))
      else Inr (d\<lparr>desc := (desc d)[i := zero_desc], free := (free d)[i := True]\<rparr>))"

lemma free_desc_decreases:
  assumes "free_desc i d = Inr d'" and "i < length (free d)"
  shows "length (filter Not (free d')) < length (filter Not (free d))"
proof -
  from assms have d': "free d' = (free d)[i := True]" and used: "\<not> free d ! i"
    by (auto simp: free_desc_def split: if_splits)
  from assms(2) have split: "free d = take i (free d) @ free d ! i # drop (Suc i) (free d)"
    by (simp add: id_take_nth_drop)
  from assms(2) have upd: "(free d)[i := True] = take i (free d) @ True # drop (Suc i) (free d)"
    by (simp add: upd_conv_take_nth_drop)
  have "length (filter Not (free d)) =
          length (filter Not (take i (free d))) + 1 + length (filter Not (drop (Suc i) (free d)))"
    by (subst split) (use used in simp)
  moreover have "length (filter Not (free d')) =
          length (filter Not (take i (free d))) + length (filter Not (drop (Suc i) (free d)))"
    by (simp add: d' upd)
  ultimately show ?thesis by linarith
qed

text \<open>
  The loop of \<^verbatim>\<open>free_chain\<close> ends because every round frees a descriptor that was in use, or panics.
\<close>

function free_chain :: "nat \<Rightarrow> vdisk \<Rightarrow> vdisk res" where
  "free_chain i d =
     (if i \<ge> length (free d) then free_desc i d
      else let flag = desc_flags (desc d ! i); nxt = desc_next (desc d ! i)
      in kbind (free_desc i d) (\<lambda>d'.
         if flag AND VRING_DESC_F_NEXT \<noteq> 0 then free_chain (unat nxt) d' else Inr d'))"
  by pat_completeness auto
termination
  by (relation "measure (\<lambda>(i, d). length (filter Not (free d)))") (auto simp: free_desc_decreases)

declare free_chain.simps [simp del]

text \<open>\<open>idx\<close> is filled in order; on a failure the descriptors already taken are freed again.\<close>

definition alloc3_desc :: "vdisk \<Rightarrow> (int \<times> nat list \<times> vdisk) res" where
  "alloc3_desc d =
     (let (i0, d0) = alloc_desc d in
      if i0 < 0 then Inr (-1, [], d0)
      else let (i1, d1) = alloc_desc d0 in
      if i1 < 0 then kbind (free_desc (nat i0) d1) (\<lambda>d. Inr (-1, [], d))
      else let (i2, d2) = alloc_desc d1 in
      if i2 < 0 then kbind (free_desc (nat i0) d2) (\<lambda>d. kbind (free_desc (nat i1) d) (\<lambda>d. Inr (-1, [], d)))
      else Inr (0, [nat i0, nat i1, nat i2], d2))"

section \<open>Submitting a request\<close>

definition vd_acquire :: "nat \<Rightarrow> 'm vstate \<Rightarrow> 'm vstate res" where
  "vd_acquire did vs =
     kbind (acquire (hart vs) (vcpu vs, vdisk_lock (disk vs ! did))) (\<lambda>(c, lk).
       Inr (upd_disk did (\<lambda>d. d\<lparr>vdisk_lock := lk\<rparr>) (vs\<lparr>vcpu := c\<rparr>)))"

definition vd_release :: "nat \<Rightarrow> 'm vstate \<Rightarrow> 'm vstate res" where
  "vd_release did vs =
     kbind (release (hart vs) (vcpu vs, vdisk_lock (disk vs ! did))) (\<lambda>(c, lk).
       Inr (upd_disk did (\<lambda>d. d\<lparr>vdisk_lock := lk\<rparr>) (vs\<lparr>vcpu := c\<rparr>)))"

text \<open>Formatting the three descriptors and the header, and queueing the chain.\<close>

definition format_request :: "nat list \<Rightarrow> nat \<Rightarrow> bool \<Rightarrow> uint64 \<Rightarrow> vdisk \<Rightarrow> vdisk" where
  "format_request idx bp write sector d =
     (let i0 = idx ! 0; i1 = idx ! 1; i2 = idx ! 2;
          d = d\<lparr>ops := (ops d)[i0 :=
                \<lparr>req_type = (if write then VIRTIO_BLK_T_OUT else VIRTIO_BLK_T_IN),
                 req_reserved = 0, req_sector = sector\<rparr>]\<rparr>;
          d = d\<lparr>desc := (desc d)[i0 :=
                \<lparr>desc_addr = OpsAt i0, desc_len = 16, desc_flags = VRING_DESC_F_NEXT,
                 desc_next = of_nat i1\<rparr>]\<rparr>;
          d = d\<lparr>desc := (desc d)[i1 :=
                \<lparr>desc_addr = DataOf bp, desc_len = of_nat BSIZE,
                 desc_flags = (if write then 0 else VRING_DESC_F_WRITE) OR VRING_DESC_F_NEXT,
                 desc_next = of_nat i2\<rparr>]\<rparr>;
          d = d\<lparr>info := (info d)[i0 := (info d ! i0)\<lparr>info_status := 0xff\<rparr>]\<rparr>;
          d = d\<lparr>desc := (desc d)[i2 :=
                \<lparr>desc_addr = StatusAt i0, desc_len = 1, desc_flags = VRING_DESC_F_WRITE,
                 desc_next = 0\<rparr>]\<rparr>;
          d = d\<lparr>info := (info d)[i0 := (info d ! i0)\<lparr>info_b := Some bp\<rparr>]\<rparr>;
          d = d\<lparr>avail_ring := (avail_ring d)[unat (avail_idx d) mod NUM := of_nat i0]\<rparr>
      in d\<lparr>avail_idx := avail_idx d + 1\<rparr>)"

text \<open>
  \<^verbatim>\<open>virtio_disk_rw\<close> up to the notification of the device. With no three free descriptors the caller
  sleeps until another request frees some. The sector is computed in 32 bits.
\<close>

definition submit_rw :: "nat \<Rightarrow> nat \<Rightarrow> bool \<Rightarrow> 'm vstate \<Rightarrow> (nat list \<times> 'm vstate) res" where
  "submit_rw did bp write vs =
     (let sector = ucast (b_blockno (bufs vs bp) * 2) in
      kbind (vd_acquire did vs) (\<lambda>vs.
      kbind (alloc3_desc (disk vs ! did)) (\<lambda>(r, idx, d).
      if r \<noteq> 0 then Inl Blocked
      else let vs = upd_disk did (\<lambda>_. format_request idx bp write sector d) vs
           in Inr (idx, vs\<lparr>bufs := (bufs vs)(bp := (bufs vs bp)\<lparr>b_disk := 1\<rparr>)\<rparr>))))"

text \<open>The rest of \<^verbatim>\<open>virtio_disk_rw\<close>, after the sleep.\<close>

definition finish_rw :: "nat \<Rightarrow> nat list \<Rightarrow> 'm vstate \<Rightarrow> 'm vstate res" where
  "finish_rw did idx vs =
     (let d = disk vs ! did;
          d = d\<lparr>info := (info d)[idx ! 0 := (info d ! (idx ! 0))\<lparr>info_b := None\<rparr>]\<rparr>
      in kbind (free_chain (idx ! 0) d) (\<lambda>d.
         vd_release did (upd_disk did (\<lambda>_. d) vs)))"

section \<open>The interrupt handler\<close>

text \<open>The completion loop; it returns the channels (buffers) it woke, last one first.\<close>

function intr_loop :: "nat \<Rightarrow> nat list \<Rightarrow> 'm vstate \<Rightarrow> (nat list \<times> 'm vstate) res" where
  "intr_loop did woken vs =
     (if did \<ge> length (disk vs) then Inl BadAccess
      else let d = disk vs ! did in
      if used_idx d = uring_idx d then Inr (woken, vs)
      else let idx = unat (uring d ! (unat (used_idx d) mod NUM)) in
      if idx \<ge> NUM then Inl BadAccess
      else if info_status (info d ! idx) \<noteq> 0 then Inl (Panic (vname d @ '': virtio_disk_intr status''))
      else case info_b (info d ! idx) of
        None \<Rightarrow> Inl BadAccess
      | Some bp \<Rightarrow>
          intr_loop did (bp # woken)
            (upd_disk did (\<lambda>d. d\<lparr>used_idx := used_idx d + 1\<rparr>)
              (vs\<lparr>bufs := (bufs vs)(bp := (bufs vs bp)\<lparr>b_disk := 0\<rparr>)\<rparr>)))"
  by pat_completeness auto
termination
proof (relation "measure (\<lambda>(did, woken, vs). unat (uring_idx (disk vs ! did) - used_idx (disk vs ! did)))", goal_cases)
  case 1
  then show ?case by simp
next
  case (2 did woken vs d idx bp)
  have "unat (uring_idx d - (used_idx d + 1)) < unat (uring_idx d - used_idx d)"
  proof -
    have "uring_idx d - used_idx d \<noteq> 0" using 2 by simp
    then have "unat (uring_idx d - used_idx d - 1) = unat (uring_idx d - used_idx d) - 1"
      by (simp add: unat_minus_one)
    moreover have "0 < unat (uring_idx d - used_idx d)"
      using \<open>uring_idx d - used_idx d \<noteq> 0\<close> by (simp add: unat_gt_0)
    ultimately show ?thesis by (simp add: algebra_simps)
  qed
  with 2 show ?case by (simp add: upd_disk_def)
qed

declare intr_loop.simps [simp del]

definition virtio_disk_intr :: "nat \<Rightarrow> 'm vstate \<Rightarrow> (nat list \<times> 'm vstate) res" where
  "virtio_disk_intr did vs =
     (if did \<ge> length (disk vs) then Inl BadAccess
      else kbind (vd_acquire did vs) (\<lambda>vs.
           kbind (intr_loop did [] vs) (\<lambda>(woken, vs).
           kbind (vd_release did vs) (\<lambda>vs. Inr (woken, vs)))))"

section \<open>Transfers\<close>

text \<open>
  \<^verbatim>\<open>virtio_disk_rw\<close>: submit, sleep on the buffer (which releases the disk's lock, lets the device
  serve the queue and its interrupt run, and takes the lock again), and finish. If the handler does
  not wake this buffer the caller sleeps on. The writes to the notify register of the queue and to the acknowledge register of
  the interrupt have no definition: the device serves the queue, and the handler runs, where the sleep says.
\<close>

definition virtio_disk_rw :: "'m hw \<Rightarrow> int \<Rightarrow> nat \<Rightarrow> bool \<Rightarrow> 'm vstate \<Rightarrow> 'm vstate res" where
  "virtio_disk_rw h n bp write vs =
     (if n < 0 \<or> int (length (disk vs)) \<le> n then Inl BadAccess
      else let did = nat n in
      kbind (submit_rw did bp write vs) (\<lambda>(idx, vs).
      kbind (vd_release did vs) (\<lambda>vs.
      kbind (virtio_disk_intr did (device h did vs)) (\<lambda>(woken, vs).
      if bp \<notin> set woken then Inl Blocked
      else kbind (vd_acquire did vs) (\<lambda>vs.
           finish_rw did idx vs)))))"

text \<open>\<^verbatim>\<open>transfer_buffer[diskn]\<close>, undefined outside the array and for the null pointer.\<close>

definition xfer_buf :: "int \<Rightarrow> 'm vstate \<Rightarrow> nat res" where
  "xfer_buf diskn vs =
     (if diskn < 0 \<or> int (length (transfer_buffer vs)) \<le> diskn then Inl BadAccess
      else case transfer_buffer vs ! nat diskn of None \<Rightarrow> Inl BadAccess | Some bp \<Rightarrow> Inr bp)"

definition write_block :: "'m hw \<Rightarrow> int \<Rightarrow> int \<Rightarrow> block \<Rightarrow> 'm vstate \<Rightarrow> 'm vstate res" where
  "write_block h diskn blockno src vs =
     kbind (xfer_buf diskn vs) (\<lambda>bp.
     let b = (bufs vs bp)\<lparr>b_blockno := word_of_int blockno\<rparr>;
         b = b\<lparr>b_data := take BSIZE src\<rparr>
     in virtio_disk_rw h diskn bp True (vs\<lparr>bufs := (bufs vs)(bp := b)\<rparr>))"

definition read_block :: "'m hw \<Rightarrow> int \<Rightarrow> int \<Rightarrow> 'm vstate \<Rightarrow> (block \<times> 'm vstate) res" where
  "read_block h diskn blockno vs =
     kbind (xfer_buf diskn vs) (\<lambda>bp.
     let b = (bufs vs bp)\<lparr>b_blockno := word_of_int blockno\<rparr>
     in kbind (virtio_disk_rw h diskn bp False (vs\<lparr>bufs := (bufs vs)(bp := b)\<rparr>)) (\<lambda>vs.
        Inr (b_data (bufs vs bp), vs)))"

section \<open>What the driver relies on\<close>

text \<open>
  A chain of three descriptors for a request, as the virtio specification (and the comments of the
  driver) describe it: the header, the data, one status byte.
\<close>

definition request_at :: "vdisk \<Rightarrow> nat \<Rightarrow> uint32 \<Rightarrow> uint64 \<Rightarrow> nat \<Rightarrow> bool" where
  "request_at d i0 ty sec bp \<longleftrightarrow>
     (let h0 = desc d ! i0; i1 = unat (desc_next h0);
          h1 = desc d ! i1; i2 = unat (desc_next h1); h2 = desc d ! i2
      in i0 < NUM \<and> i1 < NUM \<and> i2 < NUM \<and> distinct [i0, i1, i2] \<and>
         desc_addr h0 = OpsAt i0 \<and> desc_len h0 = 16 \<and> desc_flags h0 = VRING_DESC_F_NEXT \<and>
         desc_addr h1 = DataOf bp \<and> desc_len h1 = of_nat BSIZE \<and>
         desc_flags h1 = (if ty = VIRTIO_BLK_T_OUT then 0 else VRING_DESC_F_WRITE) OR VRING_DESC_F_NEXT \<and>
         desc_addr h2 = StatusAt i0 \<and> desc_len h2 = 1 \<and> desc_flags h2 = VRING_DESC_F_WRITE \<and>
         req_type (ops d ! i0) = ty \<and> req_sector (ops d ! i0) = sec)"

text \<open>One request is waiting on the available ring, with the head descriptor \<open>i0\<close>.\<close>

definition pending :: "vdisk \<Rightarrow> nat \<Rightarrow> bool" where
  "pending d i0 \<longleftrightarrow>
     avail_idx d = uring_idx d + 1 \<and>
     unat (avail_ring d ! (unat (uring_idx d) mod NUM)) = i0"

text \<open>Serving it: a status byte, an entry of the used ring, and the device's writes.\<close>

definition completed :: "nat \<Rightarrow> nat \<Rightarrow> uchar \<Rightarrow> (nat \<Rightarrow> buf) \<Rightarrow> 'm \<Rightarrow> 'm vstate \<Rightarrow> 'm vstate" where
  "completed did i0 e bs m vs =
     upd_disk did (\<lambda>d. d\<lparr>uring := (uring d)[unat (uring_idx d) mod NUM := of_nat i0],
                        uring_idx := uring_idx d + 1,
                        info := (info d)[i0 := (info d ! i0)\<lparr>info_status := e\<rparr>]\<rparr>)
       (vs\<lparr>bufs := bs, media := m\<rparr>)"

text \<open>Writing block \<open>b\<close> of disk \<open>k\<close> in a view of the media.\<close>

definition blk_upd :: "(int \<Rightarrow> int \<Rightarrow> block) \<Rightarrow> int \<Rightarrow> int \<Rightarrow> block \<Rightarrow> int \<Rightarrow> int \<Rightarrow> block" where
  "blk_upd f k b x = f(k := (f k)(b := x))"

lemma blk_upd_apply [simp]: "blk_upd f k b x k' b' = (if k' = k \<and> b' = b then x else f k' b')"
  by (simp add: blk_upd_def)

text \<open>
  The behaviour of a virtio block device, in terms of the content \<open>st m k b\<close> of block \<open>b\<close> of disk
  \<open>k\<close>: a pending read or write of a block inside the disk completes with status 0 and transfers the
  block; a request outside the disk completes with an error status and leaves the media alone.
\<close>

definition virtio_blk_device :: "'m hw \<Rightarrow> ('m \<Rightarrow> int \<Rightarrow> int \<Rightarrow> block) \<Rightarrow> bool" where
  "virtio_blk_device h st \<longleftrightarrow>
     (\<forall>vs did i0 ty sec bp. did \<le> DISKS h \<longrightarrow> did < length (disk vs) \<longrightarrow>
        pending (disk vs ! did) i0 \<longrightarrow> request_at (disk vs ! did) i0 ty sec bp \<longrightarrow>
        (\<forall>b < capacity h did. unat sec = 2 * b \<longrightarrow> ty = VIRTIO_BLK_T_IN \<longrightarrow>
           (\<exists>m. device h did vs = completed did i0 0
                   ((bufs vs)(bp := (bufs vs bp)\<lparr>b_data := st (media vs) (int did) (int b)\<rparr>)) m vs \<and>
                st m = st (media vs))) \<and>
        (\<forall>b < capacity h did. unat sec = 2 * b \<longrightarrow> ty = VIRTIO_BLK_T_OUT \<longrightarrow>
           (\<exists>m. device h did vs = completed did i0 0 (bufs vs) m vs \<and>
                st m = blk_upd (st (media vs)) (int did) (int b) (b_data (bufs vs bp)))) \<and>
        (2 * capacity h did < unat sec + 2 \<longrightarrow>
           (\<exists>e m. e \<noteq> 0 \<and> device h did vs = completed did i0 e (bufs vs) m vs \<and> st m = st (media vs))))"

text \<open>The build: at least one disk, a disk size that is a C \<^verbatim>\<open>int\<close>, block-sized stack buffers.\<close>

definition hw_ok :: "'m hw \<Rightarrow> bool" where
  "hw_ok h \<longleftrightarrow> 1 \<le> DISKS h \<and> DISKS h < 2 ^ 15 \<and> DISK_SIZE h < 2 ^ 31 \<and> FS_BLOCKS h < 2 ^ 31 \<and>
     length (stack_junk h) = BSIZE"

section \<open>The driver's invariant\<close>

text \<open>Between requests every descriptor is free and every completion has been handled.\<close>

definition disk_idle :: "vdisk \<Rightarrow> bool" where
  "disk_idle d \<longleftrightarrow>
     length (desc d) = NUM \<and> length (avail_ring d) = NUM \<and> length (uring d) = NUM \<and>
     length (info d) = NUM \<and> length (ops d) = NUM \<and> free d = replicate NUM True \<and>
     used_idx d = uring_idx d \<and> avail_idx d = uring_idx d \<and> lk_free (vdisk_lock d)"

definition vok :: "'m hw \<Rightarrow> ('m \<Rightarrow> int \<Rightarrow> int \<Rightarrow> block) \<Rightarrow> 'm vstate \<Rightarrow> bool" where
  "vok h st vs \<longleftrightarrow>
     length (disk vs) = Suc (DISKS h) \<and> (\<forall>d \<in> set (disk vs). disk_idle d) \<and>
     length (transfer_buffer vs) = Suc (DISKS h) \<and>
     (\<forall>k. 1 \<le> k \<longrightarrow> k \<le> DISKS h \<longrightarrow> transfer_buffer vs ! k \<noteq> None) \<and> cpu_ok (vcpu vs) \<and>
     (\<forall>k b. k \<le> DISKS h \<longrightarrow> b < capacity h k \<longrightarrow> length (st (media vs) (int k) (int b)) = BSIZE)"

section \<open>A request from start to end\<close>


definition taken :: "vdisk \<Rightarrow> vdisk" where
  "taken d = d\<lparr>free := [False, False, False] @ replicate 13 True\<rparr>"

lemma alloc3_idle:
  "free d = replicate NUM True \<Longrightarrow> alloc3_desc d = Inr (0, [0, 1, 2], taken d)"
  by (simp add: alloc3_desc_def alloc_desc_def taken_def NUM_def upt_rec_numeral Let_def
      eval_nat_numeral)


text \<open>A driver state in normal form: the entry of one disk, the hart, the buffers and the media.\<close>

definition with_disk :: "nat \<Rightarrow> 'm vstate \<Rightarrow> vdisk \<Rightarrow> cpu \<Rightarrow> (nat \<Rightarrow> buf) \<Rightarrow> 'm \<Rightarrow> 'm vstate" where
  "with_disk did v d c bs m = v\<lparr>disk := (disk v)[did := d], vcpu := c, bufs := bs, media := m\<rparr>"

lemma with_disk_start: "did < length (disk v) \<Longrightarrow> v = with_disk did v (disk v ! did) (vcpu v) (bufs v) (media v)"
  by (simp add: with_disk_def)

lemma with_disk_fields [simp]:
  "disk (with_disk did v d c bs m) = (disk v)[did := d]" "vcpu (with_disk did v d c bs m) = c"
  "bufs (with_disk did v d c bs m) = bs" "media (with_disk did v d c bs m) = m" "hart (with_disk did v d c bs m) = hart v"
  "transfer_buffer (with_disk did v d c bs m) = transfer_buffer v"
  by (simp_all add: with_disk_def)

lemma with_disk_upd [simp]:
  "did < length (disk v) \<Longrightarrow> upd_disk did f (with_disk did v d c bs m) = with_disk did v (f d) c bs m"
  "(with_disk did v d c bs m)\<lparr>bufs := bs'\<rparr> = with_disk did v d c bs' m"
  "(with_disk did v d c bs m)\<lparr>vcpu := c'\<rparr> = with_disk did v d c' bs m"
  "(with_disk did v d c bs m)\<lparr>media := m'\<rparr> = with_disk did v d c bs m'"
  by (simp_all add: with_disk_def upd_disk_def)

definition popped :: "cpu \<Rightarrow> cpu" where
  "popped c = c\<lparr>noff := noff c - 1, intr := (noff c = 1 \<and> intena c)\<rparr>"

lemma cpu_ok_popped [simp]: "cpu_ok c \<Longrightarrow> cpu_ok (popped (push_off c))"
  by (auto simp: cpu_ok_def popped_def)

lemma cpu_ok_noff [simp]: "cpu_ok c \<Longrightarrow> 0 \<le> noff c"
  by (simp add: cpu_ok_def)

lemma pop_off_push: "cpu_ok c \<Longrightarrow> pop_off (push_off c) = Inr (popped (push_off c))"
  by (cases c) (auto simp: pop_off_def push_off_def popped_def cpu_ok_def Let_def)

definition lock_d :: "nat \<Rightarrow> vdisk \<Rightarrow> vdisk" where
  "lock_d me d = d\<lparr>vdisk_lock := (vdisk_lock d)\<lparr>locked := 1, lkcpu := Some me\<rparr>\<rparr>"

definition unlock_d :: "vdisk \<Rightarrow> vdisk" where
  "unlock_d d = d\<lparr>vdisk_lock := (vdisk_lock d)\<lparr>locked := 0, lkcpu := None\<rparr>\<rparr>"

lemma vd_acquire_at:
  assumes "did < length (disk v)" "lk_free (vdisk_lock d)"
  shows "vd_acquire did (with_disk did v d c bs m) = Inr (with_disk did v (lock_d (hart v) d) (push_off c) bs m)"
  using assms by (simp add: vd_acquire_def acquire_free lock_d_def)

lemma vd_release_at:
  assumes "did < length (disk v)" "holding (hart v) (vdisk_lock d)" "cpu_ok c"
  shows "vd_release did (with_disk did v d (push_off c) bs m) = Inr (with_disk did v (unlock_d d) (popped (push_off c)) bs m)"
proof -
  have "release (hart v) (push_off c, vdisk_lock d) =
          Inr (popped (push_off c), (vdisk_lock d)\<lparr>locked := 0, lkcpu := None\<rparr>)"
    using assms(2,3)
    by (cases "vdisk_lock d") (simp add: release_def pop_off_push)
  with assms(1) show ?thesis by (simp add: vd_release_def unlock_d_def)
qed

lemma free_chain_3:
  assumes "length (desc d) = NUM" "free d = [False, False, False] @ replicate 13 True"
    "desc_flags (desc d ! 0) AND VRING_DESC_F_NEXT \<noteq> 0" "desc_next (desc d ! 0) = 1"
    "desc_flags (desc d ! 1) AND VRING_DESC_F_NEXT \<noteq> 0" "desc_next (desc d ! 1) = 2"
    "desc_flags (desc d ! 2) AND VRING_DESC_F_NEXT = 0"
  shows "free_chain 0 d = Inr (d\<lparr>desc := (desc d)[0 := zero_desc, 1 := zero_desc, 2 := zero_desc],
                                 free := replicate NUM True\<rparr>)"
proof -
  note s = free_desc_def NUM_def Let_def assms
  have "free_chain 0 d = free_chain 1 (d\<lparr>desc := (desc d)[0 := zero_desc], free := [True, False, False] @ replicate 13 True\<rparr>)"
    using assms by (subst free_chain.simps) (simp add: free_desc_def NUM_def Let_def)
  also have "\<dots> = free_chain 2 (d\<lparr>desc := (desc d)[0 := zero_desc, 1 := zero_desc], free := [True, True, False] @ replicate 13 True\<rparr>)"
    using assms by (subst free_chain.simps) (simp add: free_desc_def NUM_def Let_def)
  also have "\<dots> = Inr (d\<lparr>desc := (desc d)[0 := zero_desc, 1 := zero_desc, 2 := zero_desc], free := [True, True, True] @ replicate 13 True\<rparr>)"
    using assms by (subst free_chain.simps) (simp add: free_desc_def NUM_def Let_def)
  also have "[True, True, True] @ replicate 13 True = replicate NUM True"
    by (simp add: NUM_def eval_nat_numeral)
  finally show ?thesis .
qed

lemma format_request_at:
  assumes "length (desc d) = NUM" "length (ops d) = NUM"
  shows "request_at (format_request [0, 1, 2] bp w sec d) 0
           (if w then VIRTIO_BLK_T_OUT else VIRTIO_BLK_T_IN) sec bp"
  using assms
  by (simp add: request_at_def format_request_def Let_def NUM_def VIRTIO_BLK_T_OUT_def VIRTIO_BLK_T_IN_def)

lemma format_request_pending:
  assumes "length (avail_ring d) = NUM" "avail_idx d = uring_idx d"
  shows "pending (format_request [0, 1, 2] bp w sec d) 0"
  using assms by (simp add: pending_def format_request_def Let_def NUM_def)


lemma format_request_fields [simp]:
  "vdisk_lock (format_request idx bp w sec d) = vdisk_lock d"
  "free (format_request idx bp w sec d) = free d"
  "uring (format_request idx bp w sec d) = uring d"
  "uring_idx (format_request idx bp w sec d) = uring_idx d"
  "used_idx (format_request idx bp w sec d) = used_idx d"
  "avail_idx (format_request idx bp w sec d) = avail_idx d + 1"
  "vname (format_request idx bp w sec d) = vname d"
  "length (desc (format_request idx bp w sec d)) = length (desc d)"
  "length (ops (format_request idx bp w sec d)) = length (ops d)"
  "length (info (format_request idx bp w sec d)) = length (info d)"
  "length (avail_ring (format_request idx bp w sec d)) = length (avail_ring d)"
  by (simp_all add: format_request_def Let_def)

lemma taken_fields [simp]:
  "vdisk_lock (taken d) = vdisk_lock d" "uring (taken d) = uring d" "uring_idx (taken d) = uring_idx d"
  "used_idx (taken d) = used_idx d" "avail_idx (taken d) = avail_idx d" "vname (taken d) = vname d"
  "desc (taken d) = desc d" "ops (taken d) = ops d" "info (taken d) = info d"
  "avail_ring (taken d) = avail_ring d" "free (taken d) = [False, False, False] @ replicate 13 True"
  by (simp_all add: taken_def)


lemma lock_d_fields [simp]:
  "uring (lock_d n d) = uring d" "uring_idx (lock_d n d) = uring_idx d"
  "used_idx (lock_d n d) = used_idx d" "avail_idx (lock_d n d) = avail_idx d" "vname (lock_d n d) = vname d"
  "desc (lock_d n d) = desc d" "ops (lock_d n d) = ops d" "info (lock_d n d) = info d"
  "avail_ring (lock_d n d) = avail_ring d" "free (lock_d n d) = free d" "holding n (vdisk_lock (lock_d n d))"
  by (simp_all add: lock_d_def holding_def)

lemma unlock_d_fields [simp]:
  "uring (unlock_d d) = uring d" "uring_idx (unlock_d d) = uring_idx d"
  "used_idx (unlock_d d) = used_idx d" "avail_idx (unlock_d d) = avail_idx d" "vname (unlock_d d) = vname d"
  "desc (unlock_d d) = desc d" "ops (unlock_d d) = ops d" "info (unlock_d d) = info d"
  "avail_ring (unlock_d d) = avail_ring d" "free (unlock_d d) = free d" "lk_free (vdisk_lock (unlock_d d))"
  by (simp_all add: unlock_d_def lk_free_def)

definition sector_of :: "'m vstate \<Rightarrow> nat \<Rightarrow> uint64" where
  "sector_of v bp = ucast (b_blockno (bufs v bp) * 2)"

text \<open>The disk as the device finds it, the lock released by \<^verbatim>\<open>sleep\<close>.\<close>

definition queued_d :: "nat \<Rightarrow> nat \<Rightarrow> bool \<Rightarrow> uint64 \<Rightarrow> vdisk \<Rightarrow> vdisk" where
  "queued_d me bp w sec d = unlock_d (format_request [0, 1, 2] bp w sec (taken (lock_d me d)))"

definition queued :: "nat \<Rightarrow> nat \<Rightarrow> bool \<Rightarrow> 'm vstate \<Rightarrow> 'm vstate" where
  "queued did bp w v =
     with_disk did v (queued_d (hart v) bp w (sector_of v bp) (disk v ! did)) (popped (push_off (vcpu v)))
       ((bufs v)(bp := (bufs v bp)\<lparr>b_disk := 1\<rparr>)) (media v)"

lemma submit_idle:
  assumes "did < length (disk v)" "disk_idle (disk v ! did)" "cpu_ok (vcpu v)"
  shows "\<exists>v'. submit_rw did bp w v = Inr ([0, 1, 2], v') \<and> vd_release did v' = Inr (queued did bp w v)"
proof -
  let ?d = "lock_d (hart v) (disk v ! did)"
  have acq: "vd_acquire did v = Inr (with_disk did v ?d (push_off (vcpu v)) (bufs v) (media v))"
    using assms vd_acquire_at [of did v "disk v ! did" "vcpu v" "bufs v" "media v"]
    by (simp add: with_disk_start [symmetric] disk_idle_def)
  have "alloc3_desc ?d = Inr (0, [0, 1, 2], taken ?d)"
    by (rule alloc3_idle) (use assms in \<open>simp add: disk_idle_def\<close>)
  then have "submit_rw did bp w v = Inr ([0, 1, 2],
      with_disk did v (format_request [0, 1, 2] bp w (sector_of v bp) (taken ?d)) (push_off (vcpu v))
       ((bufs v)(bp := (bufs v bp)\<lparr>b_disk := 1\<rparr>)) (media v))"
    using assms by (simp add: submit_rw_def acq Let_def sector_of_def)
  with assms show ?thesis
    by (simp add: vd_release_at queued_def queued_d_def)
qed


definition served_d :: "nat \<Rightarrow> uchar \<Rightarrow> vdisk \<Rightarrow> vdisk" where
  "served_d i0 e d = d\<lparr>uring := (uring d)[unat (uring_idx d) mod NUM := of_nat i0],
                        uring_idx := uring_idx d + 1,
                        info := (info d)[i0 := (info d ! i0)\<lparr>info_status := e\<rparr>]\<rparr>"

lemma completed_at:
  "did < length (disk v) \<Longrightarrow> completed did i0 e bs' m' (with_disk did v d c bs m) = with_disk did v (served_d i0 e d) c bs' m'"
  by (simp add: completed_def served_d_def)

lemma intr_loop_one:
  assumes "did < length (disk v)" "uring_idx d = used_idx d + 1"
    "unat (uring d ! (unat (used_idx d) mod NUM)) = i" "i < NUM"
    "info_status (info d ! i) = 0" "info_b (info d ! i) = Some bp"
  shows "intr_loop did [] (with_disk did v d c bs m) =
    Inr ([bp], with_disk did v (d\<lparr>used_idx := used_idx d + 1\<rparr>) c (bs(bp := (bs bp)\<lparr>b_disk := 0\<rparr>)) m)"
  using assms
  by (subst intr_loop.simps, simp add: Let_def) (subst intr_loop.simps, simp add: Let_def)

lemma intr_loop_error:
  assumes "did < length (disk v)" "uring_idx d = used_idx d + 1"
    "unat (uring d ! (unat (used_idx d) mod NUM)) = i" "i < NUM"
    "info_status (info d ! i) \<noteq> 0"
  shows "intr_loop did [] (with_disk did v d c bs m) = Inl (Panic (vname d @ '': virtio_disk_intr status''))"
  using assms by (subst intr_loop.simps, simp add: Let_def)

lemma served_queued:
  assumes "disk_idle d" and q_def: "q = served_d 0 e (queued_d me bp w sec d)"
  shows "uring_idx q = used_idx q + 1" "unat (uring q ! (unat (used_idx q) mod NUM)) = 0"
    "info_status (info q ! 0) = e" "info_b (info q ! 0) = Some bp" "lk_free (vdisk_lock q)"
    "vname q = vname d" "length (desc q) = NUM" "free q = [False, False, False] @ replicate 13 True"
    "desc_flags (desc q ! 0) AND VRING_DESC_F_NEXT \<noteq> 0" "desc_next (desc q ! 0) = 1"
    "desc_flags (desc q ! 1) AND VRING_DESC_F_NEXT \<noteq> 0" "desc_next (desc q ! 1) = 2"
    "desc_flags (desc q ! 2) AND VRING_DESC_F_NEXT = 0"
    "length (avail_ring q) = NUM" "length (uring q) = NUM" "length (info q) = NUM" "length (ops q) = NUM"
    "avail_idx q = uring_idx q"
proof -
  have ring: "unat (uring_idx d) mod NUM < length (uring d)"
    using assms(1) by (simp add: disk_idle_def NUM_def)
  note defs = q_def served_d_def queued_d_def disk_idle_def format_request_def Let_def
    NUM_def VRING_DESC_F_NEXT_def VRING_DESC_F_WRITE_def
  show "uring_idx q = used_idx q + 1" "unat (uring q ! (unat (used_idx q) mod NUM)) = 0"
    "info_status (info q ! 0) = e" "info_b (info q ! 0) = Some bp" "lk_free (vdisk_lock q)"
    "vname q = vname d" "length (desc q) = NUM" "free q = [False, False, False] @ replicate 13 True"
    "desc_flags (desc q ! 0) AND VRING_DESC_F_NEXT \<noteq> 0" "desc_next (desc q ! 0) = 1"
    "desc_flags (desc q ! 1) AND VRING_DESC_F_NEXT \<noteq> 0" "desc_next (desc q ! 1) = 2"
    "desc_flags (desc q ! 2) AND VRING_DESC_F_NEXT = 0"
    "length (avail_ring q) = NUM" "length (uring q) = NUM" "length (info q) = NUM" "length (ops q) = NUM"
    "avail_idx q = uring_idx q"
    using assms(1) ring by (simp_all add: defs)
qed


text \<open>What the requester gets back: the buffers and the media as the device left them.\<close>

lemma complete_rw:
  assumes did: "did < length (disk v)" and idle: "disk_idle (disk v ! did)" and cpu: "cpu_ok (vcpu v)"
  shows "\<exists>v1 d' c'. virtio_disk_intr did (completed did 0 0 bs m (queued did bp w v)) = Inr ([bp], v1) \<and>
           kbind (vd_acquire did v1) (finish_rw did [0, 1, 2]) =
             Inr (with_disk did v d' c' (bs(bp := (bs bp)\<lparr>b_disk := 0\<rparr>)) m) \<and> cpu_ok c' \<and> disk_idle d'"
proof -
  define q where "q = served_d 0 0 (queued_d (hart v) bp w (sector_of v bp) (disk v ! did))"
  note q = served_queued [OF idle q_def]
  define c where "c = popped (push_off (vcpu v))"
  have c: "cpu_ok c" using cpu by (simp add: c_def)
  let ?bs = "bs(bp := (bs bp)\<lparr>b_disk := 0\<rparr>)"
  define q1 where "q1 = unlock_d ((lock_d (hart v) q)\<lparr>used_idx := used_idx q + 1\<rparr>)"
  define c1 where "c1 = popped (push_off c)"
  have c1: "cpu_ok c1" using c by (simp add: c1_def)
  have st: "completed did 0 0 bs m (queued did bp w v) = with_disk did v q c bs m"
    using did by (simp add: queued_def completed_at q_def c_def)
  have hold: "holding (hart v) (vdisk_lock ((lock_d (hart v) q)\<lparr>used_idx := used_idx q + 1\<rparr>))"
    by (simp add: lock_d_def holding_def)
  have intr: "virtio_disk_intr did (with_disk did v q c bs m) = Inr ([bp], with_disk did v q1 c1 ?bs m)"
    using did c q hold
    by (simp add: virtio_disk_intr_def vd_acquire_at intr_loop_one [where i = 0 and bp = bp] vd_release_at
        q1_def c1_def NUM_def)
  define q2 where "q2 = (lock_d (hart v) q1)\<lparr>info := (info q1)[0 := (info q1 ! 0)\<lparr>info_b := None\<rparr>]\<rparr>"
  define q3 where "q3 = q2\<lparr>desc := (desc q2)[0 := zero_desc, 1 := zero_desc, 2 := zero_desc],
                                 free := replicate NUM True\<rparr>"
  have ch: "free_chain 0 q2 = Inr q3"
    unfolding q3_def by (rule free_chain_3) (use q in \<open>simp_all add: q2_def q1_def\<close>)
  have hold3: "holding (hart v) (vdisk_lock q3)"
    by (simp add: q3_def q2_def lock_d_def holding_def)
  have acq: "vd_acquire did (with_disk did v q1 c1 ?bs m) = Inr (with_disk did v (lock_d (hart v) q1) (push_off c1) ?bs m)"
    using did by (intro vd_acquire_at) (simp_all add: q1_def)
  have fin: "kbind (vd_acquire did (with_disk did v q1 c1 ?bs m)) (finish_rw did [0, 1, 2]) =
             Inr (with_disk did v (unlock_d q3) (popped (push_off c1)) ?bs m)"
    using did c1 hold3 ch by (simp add: acq finish_rw_def Let_def vd_release_at q2_def)
  have "disk_idle (unlock_d q3)"
    using q by (simp add: disk_idle_def q3_def q2_def q1_def)
  with c1 intr fin show ?thesis
    unfolding st by (intro exI [of _ "with_disk did v q1 c1 ?bs m"] exI [of _ "unlock_d q3"] exI [of _ "popped (push_off c1)"]) simp
qed


lemma sector_of_block:
  assumes "b_blockno (bufs v bp) = of_nat b" "b < 2 ^ 31"
  shows "unat (sector_of v bp) = 2 * b"
proof -
  have "unat (of_nat b * 2 :: uint32) = 2 * b"
    using assms(2) by (simp add: unat_word_ariths unat_of_nat)
  with assms(2) show ?thesis
    by (simp add: sector_of_def assms(1) unsigned_ucast_eq take_bit_nat_eq_self)
qed

lemma capacity_bound: "hw_ok h \<Longrightarrow> b < capacity h did \<Longrightarrow> b < 2 ^ 31"
  by (auto simp: hw_ok_def capacity_def NUMBER_OF_BLOCKS_def BSIZE_def split: if_splits)

lemma vok_idle: "vok h st v \<Longrightarrow> did \<le> DISKS h \<Longrightarrow> did < length (disk v) \<and> disk_idle (disk v ! did)"
  by (auto simp: vok_def)

lemma vok_at:
  assumes "vok h st v" "disk_idle d" "cpu_ok c"
    "\<forall>k b. k \<le> DISKS h \<longrightarrow> b < capacity h k \<longrightarrow> length (st m (int k) (int b)) = BSIZE"
  shows "vok h st (with_disk did v d c bs m)"
  using assms by (auto simp: vok_def dest!: set_update_subset_insert [THEN subsetD])

lemma queued_request:
  assumes "vok h st v" "did \<le> DISKS h"
  shows "pending (disk (queued did bp w v) ! did) 0"
    and "request_at (disk (queued did bp w v) ! did) 0 (if w then VIRTIO_BLK_T_OUT else VIRTIO_BLK_T_IN) (sector_of v bp) bp"
proof -
  note i = vok_idle [OF assms]
  have un: "pending (unlock_d d) i0 = pending d i0" "request_at (unlock_d d) i0 ty sec bp = request_at d i0 ty sec bp" for d i0 ty sec
    by (simp_all add: pending_def request_at_def)
  show "pending (disk (queued did bp w v) ! did) 0"
    using i format_request_pending [of "taken (lock_d (hart v) (disk v ! did))" bp w "sector_of v bp"]
    by (simp add: queued_def queued_d_def un disk_idle_def)
  show "request_at (disk (queued did bp w v) ! did) 0 (if w then VIRTIO_BLK_T_OUT else VIRTIO_BLK_T_IN) (sector_of v bp) bp"
    using i format_request_at [of "taken (lock_d (hart v) (disk v ! did))" bp w "sector_of v bp"]
    by (simp add: queued_def queued_d_def un disk_idle_def)
qed

lemma virtio_disk_rw_run:
  assumes "vok h st v" "did \<le> DISKS h"
    and dev: "device h did (queued did bp w v) = completed did 0 0 bs m (queued did bp w v)"
    and len: "\<forall>k b. k \<le> DISKS h \<longrightarrow> b < capacity h k \<longrightarrow> length (st m (int k) (int b)) = BSIZE"
  shows "\<exists>v'. virtio_disk_rw h (int did) bp w v = Inr v' \<and> vok h st v' \<and> media v' = m \<and>
           bufs v' = bs(bp := (bs bp)\<lparr>b_disk := 0\<rparr>) \<and> transfer_buffer v' = transfer_buffer v"
proof -
  from assms(1) have cpu: "cpu_ok (vcpu v)" by (simp add: vok_def)
  note i = vok_idle [OF assms(1,2)]
  obtain v' where s: "submit_rw did bp w v = Inr ([0, 1, 2], v')" "vd_release did v' = Inr (queued did bp w v)"
    using submit_idle i cpu by blast
  obtain v1 d' c' where c: "virtio_disk_intr did (completed did 0 0 bs m (queued did bp w v)) = Inr ([bp], v1)"
    "kbind (vd_acquire did v1) (finish_rw did [0, 1, 2]) = Inr (with_disk did v d' c' (bs(bp := (bs bp)\<lparr>b_disk := 0\<rparr>)) m)"
    "cpu_ok c'" "disk_idle d'"
    using complete_rw [OF conjunct1 [OF i] conjunct2 [OF i] cpu, of bs m bp w] by blast
  have "virtio_disk_rw h (int did) bp w v = Inr (with_disk did v d' c' (bs(bp := (bs bp)\<lparr>b_disk := 0\<rparr>)) m)"
    using i s c(1,2) by (simp add: virtio_disk_rw_def Let_def dev)
  with vok_at [OF assms(1) c(4,3) len] show ?thesis by simp
qed

theorem virtio_disk_rw_read:
  assumes "hw_ok h" "virtio_blk_device h st" "vok h st v" "did \<le> DISKS h" "b < capacity h did"
    "b_blockno (bufs v bp) = of_nat b"
  shows "\<exists>v'. virtio_disk_rw h (int did) bp False v = Inr v' \<and> vok h st v' \<and> st (media v') = st (media v) \<and>
           bufs v' = (bufs v)(bp := (bufs v bp)\<lparr>b_disk := 0, b_data := st (media v) (int did) (int b)\<rparr>) \<and>
           transfer_buffer v' = transfer_buffer v"
proof -
  let ?q = "queued did bp False v"
  have sec: "unat (sector_of v bp) = 2 * b"
    by (rule sector_of_block [OF assms(6) capacity_bound [OF assms(1,5)]])
  have len: "did < length (disk ?q)" using vok_idle [OF assms(3,4)] by (simp add: queued_def)
  from assms(2) [unfolded virtio_blk_device_def, rule_format, OF assms(4) len queued_request [OF assms(3,4)]]
    assms(5) sec obtain m where
    m: "device h did ?q = completed did 0 0
          ((bufs ?q)(bp := (bufs ?q bp)\<lparr>b_data := st (media ?q) (int did) (int b)\<rparr>)) m ?q"
    "st m = st (media ?q)"
    by auto
  have "\<forall>k b. k \<le> DISKS h \<longrightarrow> b < capacity h k \<longrightarrow> length (st m (int k) (int b)) = BSIZE"
    using assms(3) m(2) by (simp add: queued_def vok_def)
  from virtio_disk_rw_run [OF assms(3,4) m(1) this] m(2) show ?thesis
    by (fastforce simp: queued_def)
qed

theorem virtio_disk_rw_write:
  assumes "hw_ok h" "virtio_blk_device h st" "vok h st v" "did \<le> DISKS h" "b < capacity h did"
    "b_blockno (bufs v bp) = of_nat b" "length (b_data (bufs v bp)) = BSIZE"
  shows "\<exists>v'. virtio_disk_rw h (int did) bp True v = Inr v' \<and> vok h st v' \<and>
           st (media v') = blk_upd (st (media v)) (int did) (int b) (b_data (bufs v bp)) \<and>
           bufs v' = (bufs v)(bp := (bufs v bp)\<lparr>b_disk := 0\<rparr>) \<and>
           transfer_buffer v' = transfer_buffer v"
proof -
  let ?q = "queued did bp True v"
  have sec: "unat (sector_of v bp) = 2 * b"
    by (rule sector_of_block [OF assms(6) capacity_bound [OF assms(1,5)]])
  have len: "did < length (disk ?q)" using vok_idle [OF assms(3,4)] by (simp add: queued_def)
  from assms(2) [unfolded virtio_blk_device_def, rule_format, OF assms(4) len queued_request [OF assms(3,4)]]
    assms(5) sec obtain m where
    m: "device h did ?q = completed did 0 0 (bufs ?q) m ?q"
    "st m = blk_upd (st (media ?q)) (int did) (int b) (b_data (bufs ?q bp))"
    by auto
  have "\<forall>k b. k \<le> DISKS h \<longrightarrow> b < capacity h k \<longrightarrow> length (st m (int k) (int b)) = BSIZE"
    using assms(3,7) m(2) by (simp add: queued_def vok_def)
  from virtio_disk_rw_run [OF assms(3,4) m(1) this] m(2) show ?thesis
    by (fastforce simp: queued_def)
qed


text \<open>A request the device refuses stops the kernel in the interrupt handler.\<close>

theorem virtio_disk_rw_outside:
  assumes "virtio_blk_device h st" "vok h st v" "did \<le> DISKS h"
    "2 * capacity h did < unat (sector_of v bp) + 2"
  shows "virtio_disk_rw h (int did) bp w v =
           Inl (Panic (vname (disk v ! did) @ '': virtio_disk_intr status''))"
proof -
  from assms(2) have cpu: "cpu_ok (vcpu v)" by (simp add: vok_def)
  note i = vok_idle [OF assms(2,3)]
  let ?q = "queued did bp w v"
  have len: "did < length (disk ?q)" using i by (simp add: queued_def)
  obtain v' where s: "submit_rw did bp w v = Inr ([0, 1, 2], v')" "vd_release did v' = Inr ?q"
    using submit_idle i cpu by blast
  from assms(1) [unfolded virtio_blk_device_def, rule_format, OF assms(3) len queued_request [OF assms(2,3)]]
    assms(4) obtain e m where e: "e \<noteq> 0" "device h did ?q = completed did 0 e (bufs ?q) m ?q" by blast
  define d where "d = served_d 0 e (queued_d (hart v) bp w (sector_of v bp) (disk v ! did))"
  note d = served_queued [OF conjunct2 [OF i] d_def]
  have "virtio_disk_intr did (device h did ?q) = Inl (Panic (vname (disk v ! did) @ '': virtio_disk_intr status''))"
    using i d e
    by (simp add: queued_def completed_at d_def [symmetric] virtio_disk_intr_def vd_acquire_at
        intr_loop_error [where i = 0] NUM_def)
  with i s show ?thesis by (simp add: virtio_disk_rw_def Let_def)
qed

text \<open>
  \<^verbatim>\<open>virtio_disk_rw\<close> sleeps once, with no test of \<^verbatim>\<open>b->disk\<close>. A sleeper that another event wakes (\<^verbatim>\<open>kill\<close>
  makes any sleeping process runnable) frees its descriptors while the request is in flight, and
  the interrupt of that request then dereferences the null pointer in \<^verbatim>\<open>info[0].b\<close>.
\<close>

theorem early_wakeup_crashes:
  assumes "did < length (disk v)" "disk_idle (disk v ! did)" "cpu_ok (vcpu v)"
  shows "\<exists>idx v1 v2 v3. submit_rw did bp w v = Inr (idx, v1) \<and> vd_release did v1 = Inr v2 \<and>
           kbind (vd_acquire did v2) (finish_rw did idx) = Inr v3 \<and>
           (\<forall>bs m. virtio_disk_intr did (completed did (idx ! 0) 0 bs m v3) = Inl BadAccess)"
proof -
  obtain v1 where s: "submit_rw did bp w v = Inr ([0, 1, 2], v1)" "vd_release did v1 = Inr (queued did bp w v)"
    using submit_idle assms by blast
  define q where "q = queued_d (hart v) bp w (sector_of v bp) (disk v ! did)"
  define c where "c = popped (push_off (vcpu v))"
  have c: "cpu_ok c" using assms(3) by (simp add: c_def)
  define q2 where "q2 = (lock_d (hart v) q)\<lparr>info := (info q)[0 := (info q ! 0)\<lparr>info_b := None\<rparr>]\<rparr>"
  define q3 where "q3 = q2\<lparr>desc := (desc q2)[0 := zero_desc, 1 := zero_desc, 2 := zero_desc],
                                 free := replicate NUM True\<rparr>"
  let ?bs = "(bufs v)(bp := (bufs v bp)\<lparr>b_disk := 1\<rparr>)"
  define v3 where "v3 = with_disk did v (unlock_d q3) (popped (push_off c)) ?bs (media v)"
  note q = served_queued [OF assms(2) refl, of 0 "hart v" bp w "sector_of v bp", folded q_def]
  have ch: "free_chain 0 q2 = Inr q3"
    unfolding q3_def by (rule free_chain_3) (use q in \<open>simp_all add: q2_def served_d_def\<close>)
  have acq: "vd_acquire did (queued did bp w v) = Inr (with_disk did v (lock_d (hart v) q) (push_off c) ?bs (media v))"
    unfolding queued_def q_def [symmetric] c_def [symmetric]
    using assms(1) by (intro vd_acquire_at) (simp_all add: q_def queued_d_def)
  have hold3: "holding (hart v) (vdisk_lock q3)"
    by (simp add: q3_def q2_def lock_d_def holding_def)
  have fin: "kbind (vd_acquire did (queued did bp w v)) (finish_rw did [0, 1, 2]) = Inr v3"
    using assms(1) c hold3 ch by (simp add: acq finish_rw_def Let_def vd_release_at q2_def v3_def)
  have "virtio_disk_intr did (completed did 0 0 bs m v3) = Inl BadAccess" for bs m
  proof -
    define d where "d = lock_d (hart v) (served_d 0 0 (unlock_d q3))"
    have d: "uring_idx d = used_idx d + 1" "unat (uring d ! (unat (used_idx d) mod NUM)) = 0"
      "info_status (info d ! 0) = 0" "info_b (info d ! 0) = None"
      using q by (simp_all add: d_def q3_def q2_def served_d_def NUM_def)
    have "intr_loop did [] (with_disk did v d c' bs m) = Inl BadAccess" for c'
      using assms(1) d by (subst intr_loop.simps) (simp add: Let_def NUM_def)
    moreover have "lk_free (vdisk_lock (served_d 0 0 (unlock_d q3)))"
      by (simp add: served_d_def)
    ultimately show ?thesis
      using assms(1) by (simp add: v3_def completed_at virtio_disk_intr_def vd_acquire_at d_def)
  qed
  with s fin show ?thesis
    by (intro exI [of _ "[0, 1, 2]"] exI [of _ v1] exI [of _ "queued did bp w v"] exI [of _ v3]) simp
qed

section \<open>The interface to the RAID code\<close>

text \<open>
  A store of blocks: what \<^verbatim>\<open>raid.c\<close> needs of \<^verbatim>\<open>read_block\<close> and \<^verbatim>\<open>write_block\<close>. \<open>content s k b\<close> is the
  block \<open>b\<close> of disk \<open>k\<close>.
\<close>

locale block_store =
  fixes rd :: "int \<Rightarrow> int \<Rightarrow> 's \<Rightarrow> (block \<times> 's) res"
    and wr :: "int \<Rightarrow> int \<Rightarrow> block \<Rightarrow> 's \<Rightarrow> 's res"
    and content :: "'s \<Rightarrow> int \<Rightarrow> int \<Rightarrow> block"
    and inv :: "'s \<Rightarrow> bool"
    and valid :: "int \<Rightarrow> int \<Rightarrow> bool"
  assumes rd_law: "inv s \<Longrightarrow> valid k b \<Longrightarrow>
      \<exists>s'. rd k b s = Inr (content s k b, s') \<and> inv s' \<and> content s' = content s"
    and wr_law: "inv s \<Longrightarrow> valid k b \<Longrightarrow> length x = BSIZE \<Longrightarrow>
      \<exists>s'. wr k b x s = Inr s' \<and> inv s' \<and> content s' = blk_upd (content s) k b x"
    and length_law: "inv s \<Longrightarrow> valid k b \<Longrightarrow> length (content s k b) = BSIZE"
begin

lemma wp_rd:
  assumes "inv s" "valid k b"
    and "\<And>s'. inv s' \<Longrightarrow> content s' = content s \<Longrightarrow> Q (content s k b, s')"
  shows "wp (rd k b s) Q"
  using rd_law [OF assms(1,2)] assms(3) by (auto simp: wp_iff)

lemma wp_wr:
  assumes "inv s" "valid k b" "length x = BSIZE"
    and "\<And>s'. inv s' \<Longrightarrow> content s' = blk_upd (content s) k b x \<Longrightarrow> Q s'"
  shows "wp (wr k b x s) Q"
  using wr_law [OF assms(1-3)] assms(4) by (auto simp: wp_iff)

text \<open>Reading back what was written, and reading elsewhere.\<close>

lemma wr_then_rd:
  assumes "inv s" "valid k b" "valid k' b'" "length x = BSIZE"
  shows "wp (kbind (wr k b x s) (rd k' b')) (\<lambda>(y, s'). y = (if k' = k \<and> b' = b then x else content s k' b'))"
  using assms by (auto intro!: wp_wr wp_rd)

end

definition raid_block :: "'m hw \<Rightarrow> int \<Rightarrow> int \<Rightarrow> bool" where
  "raid_block h k b \<longleftrightarrow> 1 \<le> k \<and> k \<le> int (DISKS h) \<and> 0 \<le> b \<and> b < int (NUMBER_OF_BLOCKS h)"

definition drv_ok :: "'m hw \<Rightarrow> ('m \<Rightarrow> int \<Rightarrow> int \<Rightarrow> block) \<Rightarrow> 'm vstate \<Rightarrow> bool" where
  "drv_ok h st v \<longleftrightarrow> hw_ok h \<and> virtio_blk_device h st \<and> vok h st v"

lemma xfer_buf_ok:
  assumes "vok h st v" "1 \<le> k" "k \<le> int (DISKS h)"
  obtains bp where "xfer_buf k v = Inr bp"
proof -
  from assms have "transfer_buffer v ! nat k \<noteq> None" by (auto simp: vok_def)
  then obtain bp where "transfer_buffer v ! nat k = Some bp" by blast
  with assms have "xfer_buf k v = Inr bp" by (simp add: xfer_buf_def vok_def)
  with that show thesis by blast
qed

lemma vok_bufs [simp]: "vok h st (v\<lparr>bufs := bs\<rparr>) = vok h st v"
  by (simp add: vok_def)

interpretation vd: block_store "read_block h" "write_block h" "\<lambda>v. st (media v)" "drv_ok h st" "raid_block h"
  for h :: "'m hw" and st
proof
  fix v k b
  assume inv: "drv_ok h st v" and val: "raid_block h k b"
  from inv have ok: "hw_ok h" "virtio_blk_device h st" "vok h st v" by (simp_all add: drv_ok_def)
  have k: "nat k \<le> DISKS h" "int (nat k) = k" "nat b < capacity h (nat k)" "int (nat b) = b"
    using val by (auto simp: raid_block_def capacity_def)
  obtain bp where bp: "xfer_buf k v = Inr bp"
    using xfer_buf_ok [OF ok(3)] val by (auto simp: raid_block_def)
  have no: "(word_of_int b :: uint32) = of_nat (nat b)"
    using val by (simp add: raid_block_def)
  let ?v = "v\<lparr>bufs := (bufs v)(bp := (bufs v bp)\<lparr>b_blockno := word_of_int b\<rparr>)\<rparr>"
  have v: "vok h st ?v" "b_blockno (bufs ?v bp) = of_nat (nat b)"
    using ok(3) no by simp_all
  show "\<exists>v'. read_block h k b v = Inr (st (media v) k b, v') \<and> drv_ok h st v' \<and> st (media v') = st (media v)"
    using virtio_disk_rw_read [OF ok(1,2) v(1) k(1,3) v(2), unfolded k(2,4)] ok(1,2)
    by (auto simp: read_block_def bp Let_def drv_ok_def)
  show "length (st (media v) k b) = BSIZE"
    using ok(3) k unfolding vok_def by metis
next
  fix v k b and x :: block
  assume inv: "drv_ok h st v" and val: "raid_block h k b" and x: "length x = BSIZE"
  from inv have ok: "hw_ok h" "virtio_blk_device h st" "vok h st v" by (simp_all add: drv_ok_def)
  have k: "nat k \<le> DISKS h" "int (nat k) = k" "nat b < capacity h (nat k)" "int (nat b) = b"
    using val by (auto simp: raid_block_def capacity_def)
  obtain bp where bp: "xfer_buf k v = Inr bp"
    using xfer_buf_ok [OF ok(3)] val by (auto simp: raid_block_def)
  have no: "(word_of_int b :: uint32) = of_nat (nat b)"
    using val by (simp add: raid_block_def)
  let ?w = "v\<lparr>bufs := (bufs v)(bp := (bufs v bp)\<lparr>b_blockno := word_of_int b, b_data := x\<rparr>)\<rparr>"
  have w: "vok h st ?w" "b_blockno (bufs ?w bp) = of_nat (nat b)" "length (b_data (bufs ?w bp)) = BSIZE"
    using ok(3) no x by simp_all
  show "\<exists>v'. write_block h k b x v = Inr v' \<and> drv_ok h st v' \<and> st (media v') = blk_upd (st (media v)) k b x"
    using virtio_disk_rw_write [OF ok(1,2) w(1) k(1,3) w(2,3), unfolded k(2,4)] ok(1,2) x
    by (auto simp: write_block_def bp Let_def drv_ok_def)
qed


end
