(* ===== verification/Kalloc.thy ===== *)
theory Kalloc
  imports Prelude
begin

text \<open>
  \<^verbatim>\<open>kernel/kalloc.c\<close>: the physical page allocator. A free page holds in its first word the address
  of the next free page; \<open>next_of\<close> is the content of those words. Addresses are natural numbers
  (the kernel's are below \<^verbatim>\<open>PHYSTOP\<close>, far from the end of the 64-bit range), 0 is the null
  pointer. Each function is one critical section of \<^verbatim>\<open>kmem.lock\<close>.
\<close>

definition PGSIZE :: nat where
  "PGSIZE = 4096"

definition PHYSTOP :: nat where
  "PHYSTOP = 0x80000000 + 16 * 1024 * 1024"

definition PGROUNDUP :: "nat \<Rightarrow> nat" where
  "PGROUNDUP sz = (sz + PGSIZE - 1) div PGSIZE * PGSIZE"

record kmem =
  freelist :: nat
  next_of :: "nat \<Rightarrow> nat"

text \<open>A word of a page filled with the byte \<open>b\<close> by \<^verbatim>\<open>memset\<close>.\<close>

definition junk_word :: "nat \<Rightarrow> nat" where
  "junk_word b = b * 0x0101010101010101"

text \<open>\<open>kend\<close> is the linker's symbol \<^verbatim>\<open>end\<close>.\<close>

definition kfree :: "nat \<Rightarrow> nat \<Rightarrow> kmem \<Rightarrow> kmem res" where
  "kfree kend pa km =
     (if pa mod PGSIZE \<noteq> 0 \<or> pa < kend \<or> pa \<ge> PHYSTOP then Inl (Panic ''kfree'')
      else let km = km\<lparr>next_of := (next_of km)(pa := junk_word 1)\<rparr>;
               km = km\<lparr>next_of := (next_of km)(pa := freelist km)\<rparr>
           in Inr (km\<lparr>freelist := pa\<rparr>))"

definition kalloc :: "kmem \<Rightarrow> nat \<times> kmem" where
  "kalloc km =
     (let r = freelist km;
          km = (if r \<noteq> 0 then km\<lparr>freelist := next_of km r\<rparr> else km);
          km = (if r \<noteq> 0 then km\<lparr>next_of := (next_of km)(r := junk_word 5)\<rparr> else km)
      in (r, km))"

function freerange_loop :: "nat \<Rightarrow> nat \<Rightarrow> nat \<Rightarrow> kmem \<Rightarrow> kmem res" where
  "freerange_loop kend p pa_end km =
     (if p + PGSIZE \<le> pa_end
      then kbind (kfree kend p km) (freerange_loop kend (p + PGSIZE) pa_end)
      else Inr km)"
  by pat_completeness auto
termination
  by (relation "measure (\<lambda>(kend, p, pa_end, km). pa_end - p)") (auto simp: PGSIZE_def)

declare freerange_loop.simps [simp del]

definition freerange :: "nat \<Rightarrow> nat \<Rightarrow> nat \<Rightarrow> kmem \<Rightarrow> kmem res" where
  "freerange kend pa_start pa_end km = freerange_loop kend (PGROUNDUP pa_start) pa_end km"

definition kinit :: "nat \<Rightarrow> kmem \<Rightarrow> kmem res" where
  "kinit kend km = freerange kend kend PHYSTOP km"

section \<open>The free list\<close>

text \<open>The pages linked from an address, ended by the null pointer.\<close>

fun linked :: "(nat \<Rightarrow> nat) \<Rightarrow> nat \<Rightarrow> nat list \<Rightarrow> bool" where
  "linked nx a [] = (a = 0)"
| "linked nx a (p # ps) = (a = p \<and> p \<noteq> 0 \<and> linked nx (nx p) ps)"

definition page_ok :: "nat \<Rightarrow> nat \<Rightarrow> bool" where
  "page_ok kend pa \<longleftrightarrow> pa mod PGSIZE = 0 \<and> kend \<le> pa \<and> pa < PHYSTOP \<and> pa \<noteq> 0"

definition free_pages :: "nat \<Rightarrow> kmem \<Rightarrow> nat list \<Rightarrow> bool" where
  "free_pages kend km ps \<longleftrightarrow>
     linked (next_of km) (freelist km) ps \<and> distinct ps \<and> (\<forall>p \<in> set ps. page_ok kend p)"

lemma linked_upd [simp]: "p \<notin> set ps \<Longrightarrow> linked (nx(p := v)) a ps = linked nx a ps"
  by (induction ps arbitrary: a) auto

lemma kalloc_empty: "free_pages kend km [] \<Longrightarrow> kalloc km = (0, km)"
  by (simp add: free_pages_def kalloc_def)

lemma kalloc_page:
  assumes "free_pages kend km (p # ps)"
  shows "fst (kalloc km) = p" and "free_pages kend (snd (kalloc km)) ps"
    and "page_ok kend p" and "p \<notin> set ps"
  using assms by (auto simp: free_pages_def kalloc_def Let_def)

lemma kfree_page:
  assumes "free_pages kend km ps" and "page_ok kend p" and "p \<notin> set ps"
  shows "\<exists>km'. kfree kend p km = Inr km' \<and> free_pages kend km' (p # ps)"
  using assms by (auto simp: free_pages_def kfree_def page_ok_def Let_def)

lemma kfree_after_kalloc:
  assumes "free_pages kend km (p # ps)"
  shows "kfree kend p (snd (kalloc km)) = Inr km"
  using assms
  by (cases km) (auto simp: free_pages_def page_ok_def kalloc_def kfree_def Let_def)

end
