(* ===== verification/Raid_Base.thy ===== *)
theory Raid_Base
  imports Virtio Kalloc
begin

text \<open>
  The common part of \<^verbatim>\<open>kernel/raid.c\<close>: the metadata record and its byte image, the metadata cache,
  block access through the driver, parity, and the reconstruction of a block. The state \<open>kstate\<close>
  collects the file's global variables with the driver and the page allocator they sit on.
\<close>

section \<open>State\<close>

text \<open>\<^verbatim>\<open>enum RAID_TYPE\<close> of \<^verbatim>\<open>raid.h\<close>, an unsigned 32-bit value that may come from a disk.\<close>

abbreviation RAID_NONE :: uint32 where "RAID_NONE \<equiv> 0"
abbreviation RAID0 :: uint32 where "RAID0 \<equiv> 1"
abbreviation RAID1 :: uint32 where "RAID1 \<equiv> 2"
abbreviation RAID0_1 :: uint32 where "RAID0_1 \<equiv> 3"
abbreviation RAID4 :: uint32 where "RAID4 \<equiv> 4"
abbreviation RAID5 :: uint32 where "RAID5 \<equiv> 5"

record raid_data =
  raid_type :: uint32
  working :: uchar

record 'm kstate =
  vs :: "'m vstate"
  raid_data_cache :: "raid_data list"
  raid_data_cache_loaded :: uchar
  raid :: raid_data
  raid_lock :: sleeplock
  kmem :: kmem

text \<open>Updates of different fields in the order of the record.\<close>

lemma kstate_upd_order [simp]:
  fixes s :: "'m kstate"
  shows "s\<lparr>raid_data_cache := y1, vs := y0\<rparr> = s\<lparr>vs := y0, raid_data_cache := y1\<rparr>"
    and "s\<lparr>raid_data_cache_loaded := y2, vs := y0\<rparr> = s\<lparr>vs := y0, raid_data_cache_loaded := y2\<rparr>"
    and "s\<lparr>raid := y3, vs := y0\<rparr> = s\<lparr>vs := y0, raid := y3\<rparr>"
    and "s\<lparr>raid_lock := y4, vs := y0\<rparr> = s\<lparr>vs := y0, raid_lock := y4\<rparr>"
    and "s\<lparr>kmem := y5, vs := y0\<rparr> = s\<lparr>vs := y0, kmem := y5\<rparr>"
    and "s\<lparr>raid_data_cache_loaded := y2, raid_data_cache := y1\<rparr> = s\<lparr>raid_data_cache := y1, raid_data_cache_loaded := y2\<rparr>"
    and "s\<lparr>raid := y3, raid_data_cache := y1\<rparr> = s\<lparr>raid_data_cache := y1, raid := y3\<rparr>"
    and "s\<lparr>raid_lock := y4, raid_data_cache := y1\<rparr> = s\<lparr>raid_data_cache := y1, raid_lock := y4\<rparr>"
    and "s\<lparr>kmem := y5, raid_data_cache := y1\<rparr> = s\<lparr>raid_data_cache := y1, kmem := y5\<rparr>"
    and "s\<lparr>raid := y3, raid_data_cache_loaded := y2\<rparr> = s\<lparr>raid_data_cache_loaded := y2, raid := y3\<rparr>"
    and "s\<lparr>raid_lock := y4, raid_data_cache_loaded := y2\<rparr> = s\<lparr>raid_data_cache_loaded := y2, raid_lock := y4\<rparr>"
    and "s\<lparr>kmem := y5, raid_data_cache_loaded := y2\<rparr> = s\<lparr>raid_data_cache_loaded := y2, kmem := y5\<rparr>"
    and "s\<lparr>raid_lock := y4, raid := y3\<rparr> = s\<lparr>raid := y3, raid_lock := y4\<rparr>"
    and "s\<lparr>kmem := y5, raid := y3\<rparr> = s\<lparr>raid := y3, kmem := y5\<rparr>"
    and "s\<lparr>kmem := y5, raid_lock := y4\<rparr> = s\<lparr>raid_lock := y4, kmem := y5\<rparr>"
  by (cases s; simp)+

text \<open>Block access, page allocation and the checked array \<^verbatim>\<open>raid_data_cache[]\<close> on that state.\<close>

definition read_blk :: "'m hw \<Rightarrow> int \<Rightarrow> int \<Rightarrow> 'm kstate \<Rightarrow> (block \<times> 'm kstate) res" where
  "read_blk h k b s = kbind (read_block h k b (vs s)) (\<lambda>(x, v). Inr (x, s\<lparr>vs := v\<rparr>))"

definition write_blk :: "'m hw \<Rightarrow> int \<Rightarrow> int \<Rightarrow> block \<Rightarrow> 'm kstate \<Rightarrow> 'm kstate res" where
  "write_blk h k b x s = kbind (write_block h k b x (vs s)) (\<lambda>v. Inr (s\<lparr>vs := v\<rparr>))"

definition kalloc_s :: "'m kstate \<Rightarrow> nat \<times> 'm kstate" where
  "kalloc_s s = (let (p, km) = kalloc (kmem s) in (p, s\<lparr>kmem := km\<rparr>))"

definition kfree_s :: "'m hw \<Rightarrow> nat \<Rightarrow> 'm kstate \<Rightarrow> 'm kstate res" where
  "kfree_s h p s = kbind (kfree (kend h) p (kmem s)) (\<lambda>km. Inr (s\<lparr>kmem := km\<rparr>))"

definition cache_get :: "int \<Rightarrow> 'm kstate \<Rightarrow> raid_data res" where
  "cache_get i s =
     (if 0 \<le> i \<and> i < int (length (raid_data_cache s)) then Inr (raid_data_cache s ! nat i)
      else Inl BadAccess)"

definition cache_set :: "int \<Rightarrow> raid_data \<Rightarrow> 'm kstate \<Rightarrow> 'm kstate res" where
  "cache_set i rd s =
     (if 0 \<le> i \<and> i < int (length (raid_data_cache s))
      then Inr (s\<lparr>raid_data_cache := (raid_data_cache s)[nat i := rd]\<rparr>)
      else Inl BadAccess)"

section \<open>Metadata as bytes\<close>

text \<open>
  \<^verbatim>\<open>struct raid_data\<close> in memory: the 4-byte little-endian type, the flag, 3 bytes of padding whose
  value C leaves open (here those of the uninitialised stack).
\<close>

definition raid_data_size :: nat where
  "raid_data_size = 8"

definition raid_bytes :: "'m hw \<Rightarrow> raid_data \<Rightarrow> uchar list" where
  "raid_bytes h rd = le32 (raid_type rd) @ [working rd] @ take 3 (stack_junk h)"

definition raid_of_bytes :: "uchar list \<Rightarrow> raid_data" where
  "raid_of_bytes bs = \<lparr>raid_type = of_le32 bs, working = bs ! 4\<rparr>"

definition serialize :: "uchar list \<Rightarrow> nat \<Rightarrow> uchar list \<Rightarrow> uchar list" where
  "serialize dat sz buffer = fold (\<lambda>i buf. buf[i := dat ! i]) [0..<sz] buffer"

definition deserialize :: "uchar list \<Rightarrow> nat \<Rightarrow> uchar list \<Rightarrow> uchar list" where
  "deserialize dat sz buffer = fold (\<lambda>i d. d[i := buffer ! i]) [0..<sz] dat"

text \<open>The buffer of \<^verbatim>\<open>BSIZE\<close> bytes that holds a serialized record, its tail uninitialised.\<close>

definition meta_block :: "'m hw \<Rightarrow> raid_data \<Rightarrow> block" where
  "meta_block h rd = serialize (raid_bytes h rd) raid_data_size (stack_junk h)"

text \<open>A local \<^verbatim>\<open>metadata\<close> filled from the first block of a disk.\<close>

definition load_meta :: "'m hw \<Rightarrow> block \<Rightarrow> raid_data" where
  "load_meta h buffer = raid_of_bytes (deserialize (take raid_data_size (stack_junk h)) raid_data_size buffer)"

lemma fold_copy:
  "n \<le> length src \<Longrightarrow> n \<le> length dst \<Longrightarrow>
   fold (\<lambda>i d. d[i := src ! i]) [0..<n] dst = take n src @ drop n dst"
proof (induction n)
  case 0
  then show ?case by simp
next
  case (Suc n)
  then have "fold (\<lambda>i d. d[i := src ! i]) [0..<Suc n] dst = (take n src @ drop n dst)[n := src ! n]"
    by simp
  also have "\<dots> = take (Suc n) src @ drop (Suc n) dst"
    using Suc.prems Cons_nth_drop_Suc [of n dst, symmetric]
    by (simp add: list_update_append take_Suc_conv_app_nth)
  finally show ?case .
qed

lemma serialize_eq:
  "sz \<le> length dat \<Longrightarrow> sz \<le> length buffer \<Longrightarrow>
   serialize dat sz buffer = take sz dat @ drop sz buffer"
  by (simp add: serialize_def fold_copy)

lemma deserialize_eq:
  "sz \<le> length dat \<Longrightarrow> sz \<le> length buffer \<Longrightarrow>
   deserialize dat sz buffer = take sz buffer @ drop sz dat"
  by (simp add: deserialize_def fold_copy)

lemma junk_length: "hw_ok h \<Longrightarrow> length (stack_junk h) = 1024"
  by (simp add: hw_ok_def BSIZE_def)

lemma meta_block_eq:
  assumes "hw_ok h"
  shows "meta_block h rd = raid_bytes h rd @ drop 8 (stack_junk h)"
  using junk_length [OF assms]
  by (simp add: meta_block_def serialize_eq raid_bytes_def le32_def raid_data_size_def)

lemma length_meta_block [simp]: "hw_ok h \<Longrightarrow> length (meta_block h rd) = BSIZE"
  using junk_length [of h] by (simp add: meta_block_eq raid_bytes_def le32_def BSIZE_def)

lemma raid_of_bytes_prefix:
  assumes "hw_ok h"
  shows "raid_of_bytes (raid_bytes h rd @ bs) = rd"
  by (cases rd) (simp add: raid_of_bytes_def raid_bytes_def of_le32_le32 nth_append le32_def
      of_le32_le32 [unfolded le32_def, simplified])

lemma load_meta_eq:
  assumes "hw_ok h" and "length buffer = BSIZE"
  shows "load_meta h buffer = raid_of_bytes buffer"
  using assms junk_length [of h]
  by (simp add: load_meta_def deserialize_eq raid_data_size_def BSIZE_def raid_of_bytes_def of_le32_def)

lemma load_meta_block [simp]:
  assumes "hw_ok h"
  shows "load_meta h (meta_block h rd) = rd"
  using load_meta_eq [OF assms length_meta_block [OF assms]]
  by (simp only: meta_block_eq [OF assms] raid_of_bytes_prefix [OF assms])

section \<open>The metadata cache\<close>

text \<open>The loops run over the disks \<^verbatim>\<open>VIRTIO_RAID_DISK_START\<close> to \<^verbatim>\<open>VIRTIO_RAID_DISK_END\<close>.\<close>

definition raid_disks :: "'m hw \<Rightarrow> int list" where
  "raid_disks h = [1..int (DISKS h)]"

definition load_raid_data_cache :: "'m hw \<Rightarrow> 'm kstate \<Rightarrow> 'm kstate res" where
  "load_raid_data_cache h s =
     (if raid_data_cache_loaded s \<noteq> 0 then Inr s
      else kfold (\<lambda>i s. kbind (read_blk h i 0 s) (\<lambda>(buffer, s). cache_set (i - 1) (load_meta h buffer) s))
             (raid_disks h) s)"

section \<open>Parity\<close>

definition calculate_parity :: "block \<Rightarrow> block \<Rightarrow> block" where
  "calculate_parity dat parity = fold (\<lambda>i p. p[i := p ! i XOR dat ! i]) [0..<BSIZE] parity"

text \<open>The loop of \<^verbatim>\<open>recover_missing_block\<close> over the disks still to be read.\<close>

fun recover_loop :: "'m hw \<Rightarrow> int \<Rightarrow> int \<Rightarrow> int list \<Rightarrow> block \<Rightarrow> 'm kstate \<Rightarrow> (int \<times> block \<times> 'm kstate) res" where
  "recover_loop h blockn skip [] dat s = Inr (0, dat, s)"
| "recover_loop h blockn skip (diskn # ks) dat s =
     (if diskn = skip then recover_loop h blockn skip ks dat s
      else kbind (cache_get (diskn - 1) s) (\<lambda>rd.
           if working rd = 0 then Inr (-1, dat, s)
           else kbind (read_blk h diskn blockn s) (\<lambda>(buffer, s).
                recover_loop h blockn skip ks (calculate_parity buffer dat) s)))"

definition recover_missing_block :: "'m hw \<Rightarrow> int \<Rightarrow> int \<Rightarrow> block \<Rightarrow> 'm kstate \<Rightarrow> (int \<times> block \<times> 'm kstate) res" where
  "recover_missing_block h blockn disk_to_skip dat s =
     kbind (load_raid_data_cache h s) (recover_loop h blockn disk_to_skip (raid_disks h) dat)"

text \<open>\<^verbatim>\<open>memset(data, 0, BSIZE)\<close>.\<close>

definition zero_block :: block where
  "zero_block = replicate BSIZE 0"

section \<open>Rules\<close>

text \<open>
  The state invariant shared by every level: the driver is idle and its device behaves, the cache
  array has its size, a disk has room for the metadata block. \<open>blk st s k b\<close> is the content of
  block \<open>b\<close> of disk \<open>k\<close>.
\<close>

abbreviation blk :: "('m \<Rightarrow> int \<Rightarrow> int \<Rightarrow> block) \<Rightarrow> 'm kstate \<Rightarrow> int \<Rightarrow> int \<Rightarrow> block" where
  "blk st s \<equiv> st (media (vs s))"

definition kst_ok :: "'m hw \<Rightarrow> ('m \<Rightarrow> int \<Rightarrow> int \<Rightarrow> block) \<Rightarrow> 'm kstate \<Rightarrow> bool" where
  "kst_ok h st s \<longleftrightarrow> drv_ok h st (vs s) \<and> length (raid_data_cache s) = DISKS h \<and> 0 < NUMBER_OF_BLOCKS h"

lemma kst_okD:
  assumes "kst_ok h st s"
  shows "drv_ok h st (vs s)" "hw_ok h" "length (raid_data_cache s) = DISKS h" "0 < NUMBER_OF_BLOCKS h"
  using assms by (simp_all add: kst_ok_def drv_ok_def)

lemma kst_ok_upd [intro]:
  "kst_ok h st s \<Longrightarrow> drv_ok h st v \<Longrightarrow> length c = DISKS h \<Longrightarrow>
   kst_ok h st (s\<lparr>vs := v, raid_data_cache := c\<rparr>)"
  by (simp add: kst_ok_def)

lemma kst_ok_vs [intro]: "kst_ok h st s \<Longrightarrow> drv_ok h st v \<Longrightarrow> kst_ok h st (s\<lparr>vs := v\<rparr>)"
  by (simp add: kst_ok_def)

lemma kst_ok_frame [simp]:
  "kst_ok h st (s\<lparr>kmem := km\<rparr>) = kst_ok h st s" "kst_ok h st (s\<lparr>raid_lock := l\<rparr>) = kst_ok h st s"
  "kst_ok h st (s\<lparr>raid := rd\<rparr>) = kst_ok h st s" "kst_ok h st (s\<lparr>raid_data_cache_loaded := c\<rparr>) = kst_ok h st s"
  by (simp_all add: kst_ok_def)

declare kst_okD [simp] kst_ok_upd [simp] kst_ok_vs [simp]

lemma wp_read_blk [wp_rules]:
  assumes "drv_ok h st (vs s)" "raid_block h k b"
    and "\<And>v. drv_ok h st v \<Longrightarrow> st (media v) = blk st s \<Longrightarrow> Q (blk st s k b, s\<lparr>vs := v\<rparr>)"
  shows "wp (read_blk h k b s) Q"
  using assms unfolding read_blk_def by (auto intro!: vd.wp_rd [where st = st])

lemma wp_write_blk [wp_rules]:
  assumes "drv_ok h st (vs s)" "raid_block h k b" "length x = BSIZE"
    and "\<And>v. drv_ok h st v \<Longrightarrow> st (media v) = blk_upd (blk st s) k b x \<Longrightarrow> Q (s\<lparr>vs := v\<rparr>)"
  shows "wp (write_blk h k b x s) Q"
  using assms unfolding write_blk_def by (auto intro!: vd.wp_wr [where st = st])

lemma length_blk [simp]: "drv_ok h st v \<Longrightarrow> raid_block h k b \<Longrightarrow> length (st (media v) k b) = BSIZE"
  by (rule vd.length_law)

lemma raid_disks_set [simp]: "set (raid_disks h) = {1..int (DISKS h)}"
  by (simp add: raid_disks_def)

lemma raid_disks_distinct [simp]: "distinct (raid_disks h)"
  by (simp add: raid_disks_def)

lemma length_raid_disks [simp]: "length (raid_disks h) = DISKS h"
  by (simp add: raid_disks_def)

lemma nth_raid_disks [simp]: "i < DISKS h \<Longrightarrow> raid_disks h ! i = 1 + int i"
  by (simp add: raid_disks_def)

lemma nth_raid_disks_nat [simp]: "1 \<le> k \<Longrightarrow> k \<le> int (DISKS h) \<Longrightarrow> raid_disks h ! nat (k - 1) = k"
  using nth_raid_disks [of "nat (k - 1)" h] by (simp add: nat_less_iff)

text \<open>
  The cache as \<^verbatim>\<open>load_raid_data_cache\<close> leaves it: unchanged once the loaded flag is set, read from
  the disks otherwise (the function never sets the flag).
\<close>

definition loaded_cache :: "'m hw \<Rightarrow> ('m \<Rightarrow> int \<Rightarrow> int \<Rightarrow> block) \<Rightarrow> 'm kstate \<Rightarrow> raid_data list" where
  "loaded_cache h st s =
     (if raid_data_cache_loaded s \<noteq> 0 then raid_data_cache s
      else map (\<lambda>k. load_meta h (blk st s k 0)) (raid_disks h))"

lemma length_loaded_cache [simp]: "kst_ok h st s \<Longrightarrow> length (loaded_cache h st s) = DISKS h"
  by (simp add: loaded_cache_def)

lemma wp_load_raid_data_cache [wp_rules]:
  assumes ok: "kst_ok h st s"
    and Q: "\<And>v. drv_ok h st v \<Longrightarrow> st (media v) = blk st s \<Longrightarrow>
             Q (s\<lparr>vs := v, raid_data_cache := loaded_cache h st s\<rparr>)"
  shows "wp (load_raid_data_cache h s) Q"
proof (cases "raid_data_cache_loaded s \<noteq> 0")
  case True
  have "Q (s\<lparr>vs := vs s, raid_data_cache := loaded_cache h st s\<rparr>)"
    using ok by (intro Q) simp_all
  with True show ?thesis by (simp add: load_raid_data_cache_def loaded_cache_def)
next
  case False
  let ?ld = "\<lambda>k. load_meta h (blk st s k 0)"
  let ?P = "\<lambda>pre t. \<exists>v. drv_ok h st v \<and> st (media v) = blk st s \<and>
              t = s\<lparr>vs := v, raid_data_cache := map ?ld pre @ drop (length pre) (raid_data_cache s)\<rparr>"
  have "wp (kfold (\<lambda>i s. kbind (read_blk h i 0 s) (\<lambda>(buffer, s). cache_set (i - 1) (load_meta h buffer) s))
             (raid_disks h) s) (?P (raid_disks h))"
  proof (rule wp_kfold [where P = ?P])
    show "?P [] s" using ok by (intro exI [of _ "vs s"]) simp
  next
    fix pre x rest t
    assume split: "raid_disks h = pre @ x # rest" and "?P pre t"
    then obtain v where v: "drv_ok h st v" "st (media v) = blk st s"
      and t: "t = s\<lparr>vs := v, raid_data_cache := map ?ld pre @ drop (length pre) (raid_data_cache s)\<rparr>" by blast
    have len: "length pre < DISKS h" using arg_cong [OF split, of length] by simp
    have x: "x = 1 + int (length pre)"
      using nth_raid_disks [OF len] split by (metis nth_append_length)
    have val: "raid_block h x 0" using len x ok by (simp add: raid_block_def)
    have upd: "(map ?ld pre @ drop (length pre) (raid_data_cache s))[length pre := ?ld x] =
                 map ?ld (pre @ [x]) @ drop (length (pre @ [x])) (raid_data_cache s)"
      using len ok Cons_nth_drop_Suc [of "length pre" "raid_data_cache s", symmetric]
      by (simp add: list_update_append)
    show "wp (kbind (read_blk h x 0 t) (\<lambda>(buffer, s). cache_set (x - 1) (load_meta h buffer) s)) (?P (pre @ [x]))"
    proof (unfold wp_kbind, rule wp_read_blk [OF _ val])
      show "drv_ok h st (vs t)" using v(1) t by simp
      fix v'
      assume v': "drv_ok h st v'" "st (media v') = blk st t"
      have "x - 1 = int (length pre)" using x by simp
      then have "cache_set (x - 1) (?ld x) (t\<lparr>vs := v'\<rparr>) =
          Inr (s\<lparr>vs := v', raid_data_cache := map ?ld (pre @ [x]) @ drop (length (pre @ [x])) (raid_data_cache s)\<rparr>)"
        using len ok unfolding upd [symmetric] by (simp add: cache_set_def t)
      moreover have "blk st t = blk st s" using v(2) t by simp
      ultimately show "wp (case (blk st t x 0, t\<lparr>vs := v'\<rparr>) of
             (buffer, s) \<Rightarrow> cache_set (x - 1) (load_meta h buffer) s) (?P (pre @ [x]))"
        using v' by (simp del: map_append) blast
    qed
  qed
  moreover have "loaded_cache h st s = map ?ld (raid_disks h)"
    using False by (simp add: loaded_cache_def)
  ultimately show ?thesis
    using False ok unfolding load_raid_data_cache_def
    by (simp del: kfold.simps, elim wp_mono) (use Q in force)
qed

lemma length_calculate_parity [simp]: "length (calculate_parity dat p) = length p"
proof -
  have "length (fold (\<lambda>i p. p[i := p ! i XOR dat ! i]) ks p) = length p" for ks and p :: block
    by (induction ks arbitrary: p) simp_all
  then show ?thesis by (simp add: calculate_parity_def)
qed

lemma nth_calculate_parity:
  assumes "length p = BSIZE" and "i < BSIZE"
  shows "calculate_parity dat p ! i = p ! i XOR dat ! i"
proof -
  have "n \<le> length p \<Longrightarrow>
     fold (\<lambda>i p. p[i := p ! i XOR dat ! i]) [0..<n] p =
     map (\<lambda>i. p ! i XOR dat ! i) [0..<n] @ drop n p" for n
  proof (induction n)
    case 0
    then show ?case by simp
  next
    case (Suc n)
    then show ?case
      using Cons_nth_drop_Suc [of n p, symmetric] by (simp add: list_update_append nth_append)
  qed
  from this [of BSIZE] assms show ?thesis by (simp add: calculate_parity_def nth_append)
qed

text \<open>Facts about states that differ from \<open>s\<close> in the driver and the cache only.\<close>

lemma loaded_cache_keep:
  assumes "raid_data_cache_loaded s' = raid_data_cache_loaded s"
    and "raid_data_cache_loaded s \<noteq> 0 \<Longrightarrow> raid_data_cache s' = loaded_cache h st s"
    and "\<And>k. 1 \<le> k \<Longrightarrow> k \<le> int (DISKS h) \<Longrightarrow> blk st s' k 0 = blk st s k 0"
  shows "loaded_cache h st s' = loaded_cache h st s"
  using assms by (auto simp: loaded_cache_def)

lemma loaded_cache_same:
  "st (media v) = blk st s \<Longrightarrow> loaded_cache h st (s\<lparr>vs := v, raid_data_cache := loaded_cache h st s\<rparr>) = loaded_cache h st s"
  by (rule loaded_cache_keep) simp_all

lemma ex_vs: "P v \<Longrightarrow> \<exists>v'. s\<lparr>vs := v, raid_data_cache := c\<rparr> = s\<lparr>vs := v', raid_data_cache := c\<rparr> \<and> P v'"
  by blast

text \<open>The block that \<^verbatim>\<open>recover_missing_block\<close> reconstructs: the exclusive or of the other disks.\<close>

definition xor_others :: "'m hw \<Rightarrow> (int \<Rightarrow> int \<Rightarrow> block) \<Rightarrow> int \<Rightarrow> int \<Rightarrow> block" where
  "xor_others h c k b =
     map (\<lambda>i. xorl (map (\<lambda>j. c j b ! i) (filter (\<lambda>j. j \<noteq> k) (raid_disks h)))) [0..<BSIZE]"

lemma length_xor_others [simp]: "length (xor_others h c k b) = BSIZE"
  by (simp add: xor_others_def)

lemma length_zero_block [simp]: "length zero_block = BSIZE"
  by (simp add: zero_block_def)

lemma wp_recover_loop:
  assumes "set ks \<subseteq> {1..int (DISKS h)}" "drv_ok h st (vs s)" "length (raid_data_cache s) = DISKS h"
    and "0 \<le> b" "b < int (NUMBER_OF_BLOCKS h)" "length dat = BSIZE"
    and "\<forall>k \<in> set ks. k \<noteq> skip \<longrightarrow> working (raid_data_cache s ! nat (k - 1)) \<noteq> 0"
    and "\<And>v. drv_ok h st v \<Longrightarrow> st (media v) = blk st s \<Longrightarrow>
          Q (0, map (\<lambda>i. dat ! i XOR xorl (map (\<lambda>k. blk st s k b ! i) (filter (\<lambda>k. k \<noteq> skip) ks))) [0..<BSIZE],
             s\<lparr>vs := v\<rparr>)"
  shows "wp (recover_loop h b skip ks dat s) Q"
  using assms
proof (induction ks arbitrary: dat s)
  case Nil
  have "map ((!) dat) [0..<BSIZE] = dat" using map_nth [of dat] Nil.prems(6) by simp
  with Nil.prems(2) Nil.prems(8) [of "vs s"] show ?case by simp
next
  case (Cons k ks)
  show ?case
  proof (cases "k = skip")
    case True
    with Cons.prems show ?thesis by (auto intro!: Cons.IH)
  next
    case False
    have get: "cache_get (k - 1) s = Inr (raid_data_cache s ! nat (k - 1))"
      using Cons.prems by (simp add: cache_get_def)
    have w: "working (raid_data_cache s ! nat (k - 1)) \<noteq> 0" using Cons.prems False by simp
    have val: "raid_block h k b" using Cons.prems by (simp add: raid_block_def)
    have len: "length (blk st s k b) = BSIZE" using length_blk [OF Cons.prems(2) val] .
    have "wp (read_blk h k b s) (\<lambda>(buffer, s). wp (recover_loop h b skip ks (calculate_parity buffer dat) s) Q)"
    proof (rule wp_read_blk [OF Cons.prems(2) val], unfold prod.case, rule Cons.IH)
      fix v v'
      assume v: "st (media v) = blk st s"
        and v': "drv_ok h st v'" "st (media v') = blk st (s\<lparr>vs := v\<rparr>)"
      have eq: "map (\<lambda>i. calculate_parity (blk st s k b) dat ! i XOR
              xorl (map (\<lambda>k. blk st (s\<lparr>vs := v\<rparr>) k b ! i) (filter (\<lambda>k. k \<noteq> skip) ks))) [0..<BSIZE] =
            map (\<lambda>i. dat ! i XOR xorl (map (\<lambda>k. blk st s k b ! i) (filter (\<lambda>k. k \<noteq> skip) (k # ks)))) [0..<BSIZE]"
        using False Cons.prems(6) v by (simp add: nth_calculate_parity xor.assoc)
      show "Q (0, map (\<lambda>i. calculate_parity (blk st s k b) dat ! i XOR
              xorl (map (\<lambda>k. blk st (s\<lparr>vs := v\<rparr>) k b ! i) (filter (\<lambda>k. k \<noteq> skip) ks))) [0..<BSIZE],
              s\<lparr>vs := v\<rparr>\<lparr>vs := v'\<rparr>)"
        unfolding eq using Cons.prems(8) [OF v'(1)] v v' by (simp del: filter.simps)
    qed (use Cons.prems in auto)
    then show ?thesis using False w get by (simp add: case_prod_beta')
  qed
qed

lemma wp_recover_loop_fail:
  assumes "set ks \<subseteq> {1..int (DISKS h)}" "drv_ok h st (vs s)" "length (raid_data_cache s) = DISKS h"
    and "0 \<le> b" "b < int (NUMBER_OF_BLOCKS h)" "length dat = BSIZE"
    and "\<exists>k \<in> set ks. k \<noteq> skip \<and> working (raid_data_cache s ! nat (k - 1)) = 0"
    and "\<And>v dat'. drv_ok h st v \<Longrightarrow> st (media v) = blk st s \<Longrightarrow> length dat' = BSIZE \<Longrightarrow>
          Q (-1, dat', s\<lparr>vs := v\<rparr>)"
  shows "wp (recover_loop h b skip ks dat s) Q"
  using assms
proof (induction ks arbitrary: dat s)
  case Nil
  then show ?case by simp
next
  case (Cons k ks)
  have get: "cache_get (k - 1) s = Inr (raid_data_cache s ! nat (k - 1))"
    using Cons.prems by (simp add: cache_get_def)
  have val: "raid_block h k b" using Cons.prems by (simp add: raid_block_def)
  consider "k = skip" | "k \<noteq> skip" "working (raid_data_cache s ! nat (k - 1)) = 0"
    | "k \<noteq> skip" "working (raid_data_cache s ! nat (k - 1)) \<noteq> 0" by blast
  then show ?case
  proof cases
    case 1
    with Cons.prems show ?thesis by (auto intro!: Cons.IH)
  next
    case 2
    with get Cons.prems(2,6) Cons.prems(8) [of "vs s"] show ?thesis by simp
  next
    case 3
    have "wp (read_blk h k b s) (\<lambda>(buffer, s). wp (recover_loop h b skip ks (calculate_parity buffer dat) s) Q)"
    proof (rule wp_read_blk [OF Cons.prems(2) val], unfold prod.case, rule Cons.IH)
      fix v v' and dat' :: block
      assume "st (media v) = blk st s" "drv_ok h st v'" "st (media v') = blk st (s\<lparr>vs := v\<rparr>)" "length dat' = BSIZE"
      then show "Q (-1, dat', s\<lparr>vs := v\<rparr>\<lparr>vs := v'\<rparr>)" using Cons.prems(8) [of v'] by simp
    qed (use Cons.prems 3 in auto)
    then show ?thesis using 3 get by (simp add: case_prod_beta')
  qed
qed

text \<open>\<^verbatim>\<open>recover_missing_block\<close> with enough working disks, and without.\<close>

lemma wp_recover_missing_block:
  assumes ok: "kst_ok h st s" and b: "0 \<le> b" "b < int (NUMBER_OF_BLOCKS h)"
    and w: "\<forall>k \<in> {1..int (DISKS h)}. k \<noteq> skip \<longrightarrow> working (loaded_cache h st s ! nat (k - 1)) \<noteq> 0"
    and Q: "\<And>v. drv_ok h st v \<Longrightarrow> st (media v) = blk st s \<Longrightarrow>
          Q (0, xor_others h (blk st s) skip b, s\<lparr>vs := v, raid_data_cache := loaded_cache h st s\<rparr>)"
  shows "wp (recover_missing_block h b skip zero_block s) Q"
  unfolding recover_missing_block_def wp_kbind
proof (rule wp_load_raid_data_cache [OF ok], rule wp_recover_loop)
  fix v v'
  assume v: "st (media v) = blk st s" and v': "drv_ok h st v'"
    "st (media v') = blk st (s\<lparr>vs := v, raid_data_cache := loaded_cache h st s\<rparr>)"
  have z: "map (\<lambda>i. zero_block ! i XOR f i) [0..<BSIZE] = map f [0..<BSIZE]" for f
    by (simp add: zero_block_def)
  show "Q (0, map (\<lambda>i. zero_block ! i XOR xorl (map (\<lambda>k. blk st (s\<lparr>vs := v, raid_data_cache :=
      loaded_cache h st s\<rparr>) k b ! i) (filter (\<lambda>k. k \<noteq> skip) (raid_disks h)))) [0..<BSIZE],
      s\<lparr>vs := v, raid_data_cache := loaded_cache h st s\<rparr>\<lparr>vs := v'\<rparr>)"
    unfolding z using Q [OF v'(1)] v v' by (simp add: xor_others_def)
qed (use ok b w in auto)

lemma wp_recover_missing_block_fail:
  assumes ok: "kst_ok h st s" and b: "0 \<le> b" "b < int (NUMBER_OF_BLOCKS h)" "length dat = BSIZE"
    and w: "\<exists>k \<in> {1..int (DISKS h)}. k \<noteq> skip \<and> working (loaded_cache h st s ! nat (k - 1)) = 0"
    and Q: "\<And>v dat'. drv_ok h st v \<Longrightarrow> st (media v) = blk st s \<Longrightarrow> length dat' = BSIZE \<Longrightarrow>
          Q (-1, dat', s\<lparr>vs := v, raid_data_cache := loaded_cache h st s\<rparr>)"
  shows "wp (recover_missing_block h b skip dat s) Q"
  unfolding recover_missing_block_def wp_kbind
proof (rule wp_load_raid_data_cache [OF ok], rule wp_recover_loop_fail)
  fix v v' and dat' :: block
  assume "st (media v) = blk st s" "drv_ok h st v'" "length dat' = BSIZE"
    "st (media v') = blk st (s\<lparr>vs := v, raid_data_cache := loaded_cache h st s\<rparr>)"
  then show "Q (-1, dat', s\<lparr>vs := v, raid_data_cache := loaded_cache h st s\<rparr>\<lparr>vs := v'\<rparr>)"
    using Q [of v' dat'] by simp
qed (use ok b w in auto)

section \<open>The parity algebra of a stripe\<close>

definition parity_ok :: "'m hw \<Rightarrow> (int \<Rightarrow> int \<Rightarrow> block) \<Rightarrow> int \<Rightarrow> bool" where
  "parity_ok h c b \<longleftrightarrow> (\<forall>i < BSIZE. xorl (map (\<lambda>j. c j b ! i) (raid_disks h)) = 0)"

lemma xor_total_upd:
  assumes "k \<in> set (raid_disks h)"
  shows "xorl (map (\<lambda>j. blk_upd c k b x j b ! i) (raid_disks h)) =
         xorl (map (\<lambda>j. c j b ! i) (raid_disks h)) XOR c k b ! i XOR x ! i"
proof -
  have "(\<lambda>j. blk_upd c k b x j b ! i) = (\<lambda>j. c j b ! i)(k := x ! i)"
    by (auto simp: fun_eq_iff)
  then show ?thesis using xorl_map_upd [OF raid_disks_distinct assms, of "\<lambda>j. c j b ! i" "x ! i"] by simp
qed

lemma nth_xor_others:
  assumes "k \<in> set (raid_disks h)" and "i < BSIZE"
  shows "xor_others h c k b ! i = xorl (map (\<lambda>j. c j b ! i) (raid_disks h)) XOR c k b ! i"
  using assms xorl_filter_out [OF raid_disks_distinct assms(1)] by (simp add: xor_others_def)

lemma xor_others_cong:
  assumes "\<And>j. j \<in> set (raid_disks h) \<Longrightarrow> j \<noteq> k \<Longrightarrow> c' j b = c j b"
  shows "xor_others h c' k b = xor_others h c k b"
  unfolding xor_others_def using assms
  by (intro map_cong refl arg_cong [where f = xorl]) auto

lemma parity_ok_cong:
  assumes "\<And>j. j \<in> set (raid_disks h) \<Longrightarrow> c' j b = c j b"
  shows "parity_ok h c' b = parity_ok h c b"
proof -
  have "map (\<lambda>j. c' j b ! i) (raid_disks h) = map (\<lambda>j. c j b ! i) (raid_disks h)" for i
    using assms by simp
  then show ?thesis by (simp only: parity_ok_def)
qed

text \<open>With a consistent stripe the reconstruction is the block; writing it makes the stripe consistent.\<close>

lemma xor_others_eq:
  assumes "parity_ok h c b" "k \<in> set (raid_disks h)" "length (c k b) = BSIZE"
  shows "xor_others h c k b = c k b"
  using assms by (intro nth_equalityI) (simp_all add: nth_xor_others parity_ok_def del: raid_disks_set)

lemma parity_ok_recovered:
  assumes "k \<in> set (raid_disks h)"
  shows "parity_ok h (blk_upd c k b (xor_others h c k b)) b"
  unfolding parity_ok_def using assms
  by (simp add: xor_total_upd nth_xor_others xor_ac del: raid_disks_set blk_upd_apply)

text \<open>
  Read-modify-write: the stripe's exclusive or does not change, nor does the reconstruction of any
  third disk.
\<close>

definition rmw :: "(int \<Rightarrow> int \<Rightarrow> block) \<Rightarrow> int \<Rightarrow> int \<Rightarrow> int \<Rightarrow> block \<Rightarrow> int \<Rightarrow> int \<Rightarrow> block" where
  "rmw c d p b x = blk_upd (blk_upd c d b x) p b (calculate_parity x (calculate_parity (c d b) (c p b)))"

lemma rmw_total:
  assumes "d \<in> set (raid_disks h)" "p \<in> set (raid_disks h)" "d \<noteq> p" "length (c p b) = BSIZE" "i < BSIZE"
  shows "xorl (map (\<lambda>j. rmw c d p b x j b ! i) (raid_disks h)) = xorl (map (\<lambda>j. c j b ! i) (raid_disks h))"
proof -
  have "blk_upd c d b x p b = c p b" using assms(3) by simp
  then show ?thesis
    using assms by (simp add: rmw_def xor_total_upd nth_calculate_parity xor_ac del: raid_disks_set blk_upd_apply)
qed

lemma rmw_apply:
  "rmw c d p b x k b' = (if k = p \<and> b' = b then calculate_parity x (calculate_parity (c d b) (c p b))
                         else if k = d \<and> b' = b then x else c k b')"
  by (simp add: rmw_def)

lemma rmw_parity:
  assumes "d \<in> set (raid_disks h)" "p \<in> set (raid_disks h)" "d \<noteq> p" "length (c p b) = BSIZE"
  shows "parity_ok h (rmw c d p b x) b' = parity_ok h c b'"
proof (cases "b' = b")
  case True
  then show ?thesis using rmw_total [of d h p c b, OF assms] by (simp add: parity_ok_def)
next
  case False
  then show ?thesis by (intro parity_ok_cong) (simp add: rmw_apply)
qed

lemma rmw_xor_others:
  assumes "d \<in> set (raid_disks h)" "p \<in> set (raid_disks h)" "d \<noteq> p" "length (c p b) = BSIZE"
    and "k \<in> set (raid_disks h)" "k \<noteq> d" "k \<noteq> p"
  shows "xor_others h (rmw c d p b x) k b' = xor_others h c k b'"
proof (cases "b' = b")
  case True
  then show ?thesis
    using assms rmw_total [of d h p c b, OF assms(1-4)]
    by (intro nth_equalityI) (simp_all add: nth_xor_others rmw_apply del: raid_disks_set)
next
  case False
  then show ?thesis by (intro xor_others_cong) (simp add: rmw_apply)
qed

section \<open>Steps shared by the levels\<close>

text \<open>\<^verbatim>\<open>for (...) if (raid_data_cache[i-1].working == 1) { disk = i; break; }\<close> with -1 for none.\<close>

fun find_working :: "int list \<Rightarrow> 'm kstate \<Rightarrow> int res" where
  "find_working [] s = Inr (-1)"
| "find_working (i # ks) s =
     kbind (cache_get (i - 1) s) (\<lambda>rd. if working rd = 1 then Inr i else find_working ks s)"

text \<open>
  Setting \<^verbatim>\<open>raid_data_cache[diskn-1].working\<close>, serializing the entry over \<open>buffer\<close> and writing it to
  block 0 of the disk.
\<close>

definition store_working :: "'m hw \<Rightarrow> int \<Rightarrow> uchar \<Rightarrow> block \<Rightarrow> 'm kstate \<Rightarrow> 'm kstate res" where
  "store_working h diskn w buffer s =
     kbind (cache_get (diskn - 1) s) (\<lambda>rd.
     kbind (cache_set (diskn - 1) (rd\<lparr>working := w\<rparr>) s) (\<lambda>s.
     write_blk h diskn 0 (serialize (raid_bytes h (rd\<lparr>working := w\<rparr>)) raid_data_size buffer) s))"

text \<open>Writing the metadata to block 0 of every disk and to every cache entry.\<close>

definition init_disks :: "'m hw \<Rightarrow> raid_data \<Rightarrow> 'm kstate \<Rightarrow> 'm kstate res" where
  "init_disks h metadata s =
     kfold (\<lambda>i s. kbind (write_blk h i 0 (meta_block h metadata) s) (cache_set (i - 1) metadata))
       (raid_disks h) s"

lemma cache_get_ok [simp]:
  "1 \<le> k \<Longrightarrow> k \<le> int (length (raid_data_cache s)) \<Longrightarrow> cache_get (k - 1) s = Inr (raid_data_cache s ! nat (k - 1))"
  by (simp add: cache_get_def)

lemma cache_set_ok [simp]:
  "1 \<le> k \<Longrightarrow> k \<le> int (length (raid_data_cache s)) \<Longrightarrow>
   cache_set (k - 1) rd s = Inr (s\<lparr>raid_data_cache := (raid_data_cache s)[nat (k - 1) := rd]\<rparr>)"
  by (simp add: cache_set_def)

lemma find_working_eq:
  assumes "set ks \<subseteq> {1..int (length (raid_data_cache s))}"
  shows "find_working ks s =
    Inr (case find (\<lambda>i. working (raid_data_cache s ! nat (i - 1)) = 1) ks of None \<Rightarrow> -1 | Some i \<Rightarrow> i)"
  using assms by (induction ks) simp_all

lemma find_working_some:
  assumes "length (raid_data_cache s) = DISKS h" "k \<in> set (raid_disks h)" "working (raid_data_cache s ! nat (k - 1)) = 1"
  obtains i where "find_working (raid_disks h) s = Inr i" "i \<in> set (raid_disks h)"
    "working (raid_data_cache s ! nat (i - 1)) = 1"
proof -
  have "find (\<lambda>i. working (raid_data_cache s ! nat (i - 1)) = 1) (raid_disks h) \<noteq> None"
    using assms by (auto simp: find_None_iff)
  then obtain i where i: "find (\<lambda>i. working (raid_data_cache s ! nat (i - 1)) = 1) (raid_disks h) = Some i" by blast
  then have "i \<in> set (raid_disks h)" "working (raid_data_cache s ! nat (i - 1)) = 1"
    by (auto simp: find_Some_iff)
  with i assms(1) that show thesis by (simp add: find_working_eq)
qed

lemma find_working_none:
  assumes "length (raid_data_cache s) = DISKS h"
    and "\<forall>k \<in> set (raid_disks h). working (raid_data_cache s ! nat (k - 1)) \<noteq> 1"
  shows "find_working (raid_disks h) s = Inr (-1)"
proof -
  have "find (\<lambda>i. working (raid_data_cache s ! nat (i - 1)) = 1) (raid_disks h) = None"
    using assms(2) by (simp add: find_None_iff)
  then show ?thesis using assms(1) by (simp add: find_working_eq)
qed

lemma serialized_eq:
  "hw_ok h \<Longrightarrow> length buffer = BSIZE \<Longrightarrow>
   serialize (raid_bytes h rd) raid_data_size buffer = raid_bytes h rd @ drop 8 buffer"
  using junk_length [of h] by (simp add: serialize_eq raid_bytes_def le32_def raid_data_size_def BSIZE_def)

lemma length_serialized [simp]:
  "hw_ok h \<Longrightarrow> length buffer = BSIZE \<Longrightarrow> length (serialize (raid_bytes h rd) raid_data_size buffer) = BSIZE"
  using junk_length [of h] by (subst serialized_eq) (simp_all add: raid_bytes_def le32_def BSIZE_def)

lemma load_meta_serialized [simp]:
  assumes "hw_ok h" "length buffer = BSIZE"
  shows "load_meta h (serialize (raid_bytes h rd) raid_data_size buffer) = rd"
  using load_meta_eq [OF assms(1) length_serialized [OF assms]]
  by (simp only: serialized_eq [OF assms] raid_of_bytes_prefix [OF assms(1)])

lemma length_stack_junk [simp]: "hw_ok h \<Longrightarrow> length (stack_junk h) = BSIZE"
  by (simp add: hw_ok_def)

lemma wp_store_working [wp_rules]:
  assumes "kst_ok h st s" "1 \<le> k" "k \<le> int (DISKS h)" "length buffer = BSIZE"
    and "\<And>v. drv_ok h st v \<Longrightarrow>
      st (media v) = blk_upd (blk st s) k 0
        (serialize (raid_bytes h ((raid_data_cache s ! nat (k - 1))\<lparr>working := w\<rparr>)) raid_data_size buffer) \<Longrightarrow>
      Q (s\<lparr>vs := v, raid_data_cache := (raid_data_cache s)
              [nat (k - 1) := (raid_data_cache s ! nat (k - 1))\<lparr>working := w\<rparr>]\<rparr>)"
  shows "wp (store_working h k w buffer s) Q"
  using assms by (auto simp: store_working_def raid_block_def intro!: wp_write_blk [of h st])

lemma loaded_cache_store:
  assumes "raid_data_cache_loaded s' = raid_data_cache_loaded s" "kst_ok h st s" "1 \<le> k" "k \<le> int (DISKS h)"
    and "raid_data_cache s' = (loaded_cache h st s)[nat (k - 1) := rd]"
    and "\<And>j. blk st s' j 0 = (if j = k then x else blk st s j 0)" and "load_meta h x = rd"
  shows "loaded_cache h st s' = (loaded_cache h st s)[nat (k - 1) := rd]"
proof (cases "raid_data_cache_loaded s \<noteq> 0")
  case True
  with assms show ?thesis by (simp add: loaded_cache_def)
next
  case False
  then have "loaded_cache h st s' = map (\<lambda>j. load_meta h (blk st s' j 0)) (raid_disks h)"
    using assms(1) by (simp add: loaded_cache_def)
  also have "\<dots> = (loaded_cache h st s)[nat (k - 1) := rd]"
    using False assms(2-4,6,7) by (intro nth_equalityI) (auto simp: loaded_cache_def nth_list_update)
  finally show ?thesis .
qed

lemma wp_init_disks [wp_rules]:
  assumes ok: "kst_ok h st s"
    and Q: "\<And>v. drv_ok h st v \<Longrightarrow>
      st (media v) = (\<lambda>k b. if 1 \<le> k \<and> k \<le> int (DISKS h) \<and> b = 0 then meta_block h rd else blk st s k b) \<Longrightarrow>
      Q (s\<lparr>vs := v, raid_data_cache := replicate (DISKS h) rd\<rparr>)"
  shows "wp (init_disks h rd s) Q"
proof -
  let ?f = "\<lambda>i s. kbind (write_blk h i 0 (meta_block h rd) s) (cache_set (i - 1) rd)"
  let ?c = "\<lambda>pre k b. if k \<in> set pre \<and> b = 0 then meta_block h rd else blk st s k b"
  let ?P = "\<lambda>pre t. \<exists>v. drv_ok h st v \<and> st (media v) = ?c pre \<and>
              t = s\<lparr>vs := v, raid_data_cache := replicate (length pre) rd @ drop (length pre) (raid_data_cache s)\<rparr>"
  have "wp (kfold ?f (raid_disks h) s) (?P (raid_disks h))"
  proof (rule wp_kfold [where P = ?P])
    show "?P [] s" using ok by (intro exI [of _ "vs s"]) simp
  next
    fix pre x rest t
    assume split: "raid_disks h = pre @ x # rest" and "?P pre t"
    then obtain v where v: "drv_ok h st v" "st (media v) = ?c pre"
      and t: "t = s\<lparr>vs := v, raid_data_cache := replicate (length pre) rd @ drop (length pre) (raid_data_cache s)\<rparr>" by blast
    have len: "length pre < DISKS h" using arg_cong [OF split, of length] by simp
    have x: "x = 1 + int (length pre)" using nth_raid_disks [OF len] split by (metis nth_append_length)
    have val: "raid_block h x 0" using len x ok by (simp add: raid_block_def)
    have upd: "(replicate (length pre) rd @ drop (length pre) (raid_data_cache s))[length pre := rd] =
                 replicate (length (pre @ [x])) rd @ drop (length (pre @ [x])) (raid_data_cache s)"
      using len ok Cons_nth_drop_Suc [of "length pre" "raid_data_cache s", symmetric]
      by (simp add: list_update_append replicate_append_same)
    show "wp (?f x t) (?P (pre @ [x]))"
    proof (unfold wp_kbind, rule wp_write_blk [OF _ val])
      fix v'
      assume v': "drv_ok h st v'" "st (media v') = blk_upd (blk st t) x 0 (meta_block h rd)"
      have "cache_set (x - 1) rd (t\<lparr>vs := v'\<rparr>) = Inr (s\<lparr>vs := v', raid_data_cache :=
          replicate (length (pre @ [x])) rd @ drop (length (pre @ [x])) (raid_data_cache s)\<rparr>)"
        using len ok unfolding upd [symmetric] by (simp add: cache_set_def t x)
      moreover have "st (media v') = ?c (pre @ [x])" using v'(2) v(2) t by (auto simp: fun_eq_iff)
      ultimately show "wp (cache_set (x - 1) rd (t\<lparr>vs := v'\<rparr>)) (?P (pre @ [x]))"
        using v'(1) by auto
    qed (use v t ok in simp_all)
  qed
  moreover have "?c (raid_disks h) = (\<lambda>k b. if 1 \<le> k \<and> k \<le> int (DISKS h) \<and> b = 0 then meta_block h rd else blk st s k b)"
    by (auto simp: fun_eq_iff)
  ultimately show ?thesis
    using ok Q unfolding init_disks_def by (elim wp_mono) auto
qed

lemma disks_pos: "hw_ok h \<Longrightarrow> 0 < int (DISKS h)"
  by (simp add: hw_ok_def)

lemma blocks_bound: "hw_ok h \<Longrightarrow> int (NUMBER_OF_BLOCKS h) < 2 ^ 31"
  using le_less_trans [OF div_le_dividend [of "DISK_SIZE h" BSIZE], of "2 ^ 31"]
  by (simp add: hw_ok_def NUMBER_OF_BLOCKS_def)

lemma cache_get_0 [simp]:
  "raid_data_cache s \<noteq> [] \<Longrightarrow> cache_get 0 s = Inr (raid_data_cache s ! 0)"
  by (simp add: cache_get_def)

lemma loaded_cache_ne [simp]: "kst_ok h st s \<Longrightarrow> loaded_cache h st s \<noteq> []"
  using length_loaded_cache [of h st s] disks_pos [of h] by (auto simp del: length_loaded_cache)

end
