(* ===== verification/Raid_Volume.thy ===== *)
theory Raid_Volume
  imports Raid_Base
begin

text \<open>
  What a RAID level promises to its users, as two interfaces. \<open>block_volume\<close>: an array of logical
  blocks that can be read and written. \<open>redundant_volume\<close>: in addition the loss of the content of
  one disk is survived, and a repaired disk brings the array back to full redundancy. The levels of
  \<^verbatim>\<open>kernel/raid.c\<close> interpret them; their clients' properties are proved here once.
\<close>

section \<open>An array of blocks\<close>

lemma fold_fun_upd_cong:
  "f a = g a \<Longrightarrow> fold (\<lambda>(b, x) f. f(b := x)) ws f a = fold (\<lambda>(b, x) f. f(b := x)) ws g a"
proof (induction ws arbitrary: f g)
  case (Cons w ws)
  obtain b x where w: "w = (b, x)" by force
  have "(f(b := x)) a = (g(b := x)) a" using Cons.prems by simp
  from Cons.IH [of "f(b := x)" "g(b := x)", OF this] w show ?case by simp
qed simp

locale block_volume =
  fixes rd :: "int \<Rightarrow> block \<Rightarrow> 's \<Rightarrow> (int \<times> block \<times> 's) res"
    and wr :: "int \<Rightarrow> block \<Rightarrow> 's \<Rightarrow> (int \<times> 's) res"
    and vol :: "'s \<Rightarrow> int \<Rightarrow> block"
    and inv :: "'s \<Rightarrow> bool"
    and addr :: "int \<Rightarrow> bool"
  assumes rd_law: "inv s \<Longrightarrow> addr b \<Longrightarrow> length buf = BSIZE \<Longrightarrow>
      wp (rd b buf s) (\<lambda>(r, x, s'). r = 0 \<and> x = vol s b \<and> inv s' \<and> (\<forall>a. addr a \<longrightarrow> vol s' a = vol s a))"
    and wr_law: "inv s \<Longrightarrow> addr b \<Longrightarrow> length x = BSIZE \<Longrightarrow>
      wp (wr b x s) (\<lambda>(r, s'). r = 0 \<and> inv s' \<and> (\<forall>a. addr a \<longrightarrow> vol s' a = (if a = b then x else vol s a)))"
begin

text \<open>A block written is read back, and no other block changes.\<close>

lemma write_then_read:
  assumes "inv s" "addr a" "addr b" "length x = BSIZE" "length buf = BSIZE"
  shows "wp (kbind (wr b x s) (\<lambda>(r, s'). rd a buf s')) (\<lambda>(r, y, s'). r = 0 \<and> y = (if a = b then x else vol s a))"
proof -
  have "wp (wr b x s) (\<lambda>(r, s'). wp (rd a buf s') (\<lambda>(r, y, s'). r = 0 \<and> y = (if a = b then x else vol s a)))"
    using wr_law [OF assms(1,3,4)]
  proof (rule wp_mono, clarify)
    fix s'
    assume "inv s'" and v: "\<forall>a. addr a \<longrightarrow> vol s' a = (if a = b then x else vol s a)"
    show "wp (rd a buf s') (\<lambda>(r, y, s'). r = 0 \<and> y = (if a = b then x else vol s a))"
      using rd_law [OF \<open>inv s'\<close> assms(2,5)] v assms(2) by (auto elim!: wp_mono)
  qed
  then show ?thesis by (simp add: case_prod_beta')
qed

text \<open>Any sequence of writes: every block holds the last value written to it.\<close>

lemma write_sequence:
  assumes "inv s" "\<forall>(b, x) \<in> set ws. addr b \<and> length x = BSIZE"
  shows "wp (kfold (\<lambda>(b, x) s. kbind (wr b x s) (\<lambda>(r, s'). Inr s')) ws s)
    (\<lambda>s'. inv s' \<and> (\<forall>a. addr a \<longrightarrow> vol s' a = fold (\<lambda>(b, x) f. f(b := x)) ws (vol s) a))"
  using assms
proof (induction ws arbitrary: s)
  case Nil
  then show ?case by simp
next
  case (Cons w ws)
  obtain b x where w: "w = (b, x)" by force
  have bx: "addr b" "length x = BSIZE" using Cons.prems w by auto
  have "wp (wr b x s) (\<lambda>(r, s'). wp (kfold (\<lambda>(b, x) s. kbind (wr b x s) (\<lambda>(r, s'). Inr s')) ws s')
    (\<lambda>s'. inv s' \<and> (\<forall>a. addr a \<longrightarrow> vol s' a = fold (\<lambda>(b, x) f. f(b := x)) (w # ws) (vol s) a)))"
    using wr_law [OF Cons.prems(1) bx]
  proof (rule wp_mono, clarify)
    fix s'
    assume i: "inv s'" and v: "\<forall>a. addr a \<longrightarrow> vol s' a = (if a = b then x else vol s a)"
    have eq: "fold (\<lambda>(b, x) f. f(b := x)) ws (vol s') a = fold (\<lambda>(b, x) f. f(b := x)) (w # ws) (vol s) a"
      if "addr a" for a
      using fold_fun_upd_cong [of "vol s'" a "(vol s)(b := x)" ws] v that w by simp
    have "\<forall>(b, x) \<in> set ws. addr b \<and> length x = BSIZE" using Cons.prems(2) by simp
    from Cons.IH [OF i this]
    show "wp (kfold (\<lambda>(b, x) s. kbind (wr b x s) (\<lambda>(r, s'). Inr s')) ws s')
      (\<lambda>s'. inv s' \<and> (\<forall>a. addr a \<longrightarrow> vol s' a = fold (\<lambda>(b, x) f. f(b := x)) (w # ws) (vol s) a))"
      by (rule wp_mono) (simp only: eq simp_thms imp_conjL cong: imp_cong)
  qed
  then show ?case
    unfolding w kfold.simps prod.case wp_kbind
    by (rule wp_mono) (simp only: split_paired_all prod.case wp_Inr)
qed

lemma write_sequence_read:
  assumes "inv s" "\<forall>(b, x) \<in> set ws. addr b \<and> length x = BSIZE" "addr a" "length buf = BSIZE"
  shows "wp (kbind (kfold (\<lambda>(b, x) s. kbind (wr b x s) (\<lambda>(r, s'). Inr s')) ws s) (rd a buf))
    (\<lambda>(r, y, s'). r = 0 \<and> y = fold (\<lambda>(b, x) f. f(b := x)) ws (vol s) a \<and> inv s')"
  unfolding wp_kbind using write_sequence [OF assms(1,2)]
proof (rule wp_mono, clarify)
  fix s'
  assume "inv s'" and v: "\<forall>a. addr a \<longrightarrow> vol s' a = fold (\<lambda>(b, x) f. f(b := x)) ws (vol s) a"
  show "wp (rd a buf s') (\<lambda>(r, y, s'). r = 0 \<and> y = fold (\<lambda>(b, x) f. f(b := x)) ws (vol s) a \<and> inv s')"
    using rd_law [OF \<open>inv s'\<close> assms(3,4)] v assms(3) by (auto elim!: wp_mono)
qed

end

section \<open>Surviving the loss of a disk\<close>

text \<open>
  \<open>dinv d s\<close>: disk \<open>d\<close> is marked as failed, the others work. \<open>loss d s s'\<close>: between two operations
  the content of disk \<open>d\<close> turns into anything. \<open>healed\<close> is what holds after a repair: \<open>inv\<close> again, up
  to the memory a repair uses up.
\<close>

locale redundant_volume = block_volume rd wr vol inv addr
  for rd :: "int \<Rightarrow> block \<Rightarrow> 's \<Rightarrow> (int \<times> block \<times> 's) res"
    and wr :: "int \<Rightarrow> block \<Rightarrow> 's \<Rightarrow> (int \<times> 's) res"
    and vol :: "'s \<Rightarrow> int \<Rightarrow> block"
    and inv :: "'s \<Rightarrow> bool"
    and addr :: "int \<Rightarrow> bool" +
  fixes fail :: "int \<Rightarrow> 's \<Rightarrow> (int \<times> 's) res"
    and repair :: "int \<Rightarrow> 's \<Rightarrow> (int \<times> 's) res"
    and dinv :: "int \<Rightarrow> 's \<Rightarrow> bool"
    and member :: "int \<Rightarrow> bool"
    and loss :: "int \<Rightarrow> 's \<Rightarrow> 's \<Rightarrow> bool"
    and healed :: "'s \<Rightarrow> bool"
  assumes fail_law: "inv s \<Longrightarrow> member d \<Longrightarrow>
      wp (fail d s) (\<lambda>(r, s'). r = 0 \<and> dinv d s' \<and> (\<forall>a. addr a \<longrightarrow> vol s' a = vol s a))"
    and loss_law: "dinv d s \<Longrightarrow> member d \<Longrightarrow> loss d s s' \<Longrightarrow> dinv d s' \<and> (\<forall>a. addr a \<longrightarrow> vol s' a = vol s a)"
    and drd_law: "dinv d s \<Longrightarrow> member d \<Longrightarrow> addr b \<Longrightarrow> length buf = BSIZE \<Longrightarrow>
      wp (rd b buf s) (\<lambda>(r, x, s'). r = 0 \<and> x = vol s b \<and> dinv d s' \<and> (\<forall>a. addr a \<longrightarrow> vol s' a = vol s a))"
    and repair_law: "dinv d s \<Longrightarrow> member d \<Longrightarrow>
      wp (repair d s) (\<lambda>(r, s'). r = 0 \<and> healed s' \<and> (\<forall>a. addr a \<longrightarrow> vol s' a = vol s a))"
begin

text \<open>After the failure and the loss of any one disk every block can still be read.\<close>

lemma read_after_loss:
  assumes "inv s" "member d" "addr b" "length buf = BSIZE"
  shows "wp (fail d s) (\<lambda>(r, s1). r = 0 \<and>
    (\<forall>s2. loss d s1 s2 \<longrightarrow> wp (rd b buf s2) (\<lambda>(r, x, s3). r = 0 \<and> x = vol s b)))"
  using fail_law [OF assms(1,2)]
proof (rule wp_mono, clarify, intro conjI allI impI refl)
  fix s1 s2
  assume s1: "dinv d s1" "\<forall>a. addr a \<longrightarrow> vol s1 a = vol s a" and "loss d s1 s2"
  then have s2: "dinv d s2" "\<forall>a. addr a \<longrightarrow> vol s2 a = vol s1 a"
    using loss_law assms(2) by blast+
  show "wp (rd b buf s2) (\<lambda>(r, x, s3). r = 0 \<and> x = vol s b)"
    using drd_law [OF s2(1) assms(2-4)] s1(2) s2(2) assms(3) by (auto elim!: wp_mono)
qed

text \<open>Repairing the disk restores the array: it is redundant again and no block has changed.\<close>

lemma repair_after_loss:
  assumes "inv s" "member d"
  shows "wp (fail d s) (\<lambda>(r, s1). r = 0 \<and>
    (\<forall>s2. loss d s1 s2 \<longrightarrow> wp (repair d s2) (\<lambda>(r, s3). r = 0 \<and> healed s3 \<and> (\<forall>a. addr a \<longrightarrow> vol s3 a = vol s a))))"
  using fail_law [OF assms(1,2)]
proof (rule wp_mono, clarify, intro conjI allI impI refl)
  fix s1 s2
  assume s1: "dinv d s1" "\<forall>a. addr a \<longrightarrow> vol s1 a = vol s a" and "loss d s1 s2"
  then have s2: "dinv d s2" "\<forall>a. addr a \<longrightarrow> vol s2 a = vol s1 a"
    using loss_law assms(2) by blast+
  have "\<forall>a. addr a \<longrightarrow> vol s2 a = vol s a" using s1(2) s2(2) by simp
  then show "wp (repair d s2) (\<lambda>(r, s3). r = 0 \<and> healed s3 \<and> (\<forall>a. addr a \<longrightarrow> vol s3 a = vol s a))"
    using repair_law [OF s2(1) assms(2)] by (simp only: wp_iff) fastforce
qed

end

section \<open>Loss of a disk's content\<close>

text \<open>
  The instance of \<open>loss\<close> that the levels share: any change of the blocks of one disk that leaves
  (a blank disk does) a metadata block whose flag is 0.
\<close>

definition disk_loss :: "'m hw \<Rightarrow> ('m \<Rightarrow> int \<Rightarrow> int \<Rightarrow> block) \<Rightarrow> int \<Rightarrow> 'm kstate \<Rightarrow> 'm kstate \<Rightarrow> bool" where
  "disk_loss h st d s s' \<longleftrightarrow>
     (\<exists>v. s' = s\<lparr>vs := v\<rparr> \<and> drv_ok h st v \<and> (\<forall>k. k \<noteq> d \<longrightarrow> st (media v) k = blk st s k) \<and>
          working (load_meta h (st (media v) d 0)) = 0)"

definition is_disk :: "'m hw \<Rightarrow> int \<Rightarrow> bool" where
  "is_disk h d \<longleftrightarrow> 1 \<le> d \<and> d \<le> int (DISKS h)"

lemma disk_loss_cache:
  assumes "disk_loss h st d s s'" "k \<in> set (raid_disks h)" "k \<noteq> d"
  shows "loaded_cache h st s' ! nat (k - 1) = loaded_cache h st s ! nat (k - 1)"
  using assms by (auto simp: disk_loss_def loaded_cache_def nat_less_iff)

lemma disk_loss_failed:
  assumes "disk_loss h st d s s'" "d \<in> set (raid_disks h)" "working (loaded_cache h st s ! nat (d - 1)) = 0"
  shows "working (loaded_cache h st s' ! nat (d - 1)) = 0"
  using assms by (auto simp: disk_loss_def loaded_cache_def nat_less_iff)

lemma disk_loss_ok: "disk_loss h st d s s' \<Longrightarrow> kst_ok h st s \<Longrightarrow> kst_ok h st s'"
  unfolding disk_loss_def by (elim exE conjE) (simp only: kst_ok_vs)

end
