(* ===== verification/Ram_Disk.thy ===== *)
theory Ram_Disk
  imports Raid_Base
begin

text \<open>
  A concrete machine for the examples of the other theories: four disks of 128 blocks (the
  Makefile's default size) behind a device that follows the descriptor chain of a request and moves
  the block to or from a function from disk and block number to content. It satisfies the virtio
  hypothesis of the driver's properties.
\<close>

type_synonym ram = "int \<Rightarrow> int \<Rightarrow> block"

definition ram_capacity :: "nat \<Rightarrow> nat" where
  "ram_capacity did = (if did = 0 then 2000 else 128)"

definition ram_device :: "nat \<Rightarrow> ram vstate \<Rightarrow> ram vstate" where
  "ram_device did s =
     (let d = disk s ! did;
          i0 = unat (avail_ring d ! (unat (uring_idx d) mod NUM));
          h1 = desc d ! unat (desc_next (desc d ! i0));
          sec = unat (req_sector (ops d ! i0)); k = int did; b = int (sec div 2)
      in case desc_addr h1 of
           DataOf bp \<Rightarrow>
             if 2 * ram_capacity did < sec + 2 then completed did i0 1 (bufs s) (media s) s
             else if req_type (ops d ! i0) = VIRTIO_BLK_T_IN
             then completed did i0 0 ((bufs s)(bp := (bufs s bp)\<lparr>b_data := media s k b\<rparr>)) (media s) s
             else completed did i0 0 (bufs s) (blk_upd (media s) k b (b_data (bufs s bp))) s
         | _ \<Rightarrow> s)"

definition ram_hw :: "ram hw" where
  "ram_hw = \<lparr>DISKS = 4, DISK_SIZE = 131072, FS_BLOCKS = 2000, stack_junk = replicate BSIZE 0x5a,
             kend = 0x80021000, device = ram_device\<rparr>"

lemma ram_hw_sel [simp]:
  "DISKS ram_hw = 4" "NUMBER_OF_BLOCKS ram_hw = 128" "capacity ram_hw did = ram_capacity did"
  "kend ram_hw = 0x80021000" "device ram_hw = ram_device" "length (stack_junk ram_hw) = BSIZE"
  by (simp_all add: ram_hw_def NUMBER_OF_BLOCKS_def BSIZE_def capacity_def ram_capacity_def)

lemma ram_hw_ok [simp]: "hw_ok ram_hw"
  by (simp add: hw_ok_def ram_hw_def)

lemma ram_virtio [simp]: "virtio_blk_device ram_hw (\<lambda>m. m)"
  unfolding virtio_blk_device_def
proof (intro allI impI, goal_cases)
  case (1 s did i0 ty sec bp)
  let ?d = "disk s ! did"
  have i0: "unat (avail_ring ?d ! (unat (uring_idx ?d) mod NUM)) = i0"
    using 1(3) by (simp add: pending_def)
  have req: "desc_addr (desc ?d ! unat (desc_next (desc ?d ! i0))) = DataOf bp"
    "req_type (ops ?d ! i0) = ty" "req_sector (ops ?d ! i0) = sec"
    using 1(4) by (simp_all add: request_at_def Let_def)
  have dev: "ram_device did s =
      (if 2 * ram_capacity did < unat sec + 2 then completed did i0 1 (bufs s) (media s) s
       else if ty = VIRTIO_BLK_T_IN
       then completed did i0 0 ((bufs s)(bp := (bufs s bp)\<lparr>b_data := media s (int did) (int (unat sec div 2))\<rparr>)) (media s) s
       else completed did i0 0 (bufs s) (blk_upd (media s) (int did) (int (unat sec div 2)) (b_data (bufs s bp))) s)"
    by (subst ram_device_def) (unfold Let_def i0 req dma.case, rule refl)
  show ?case
    unfolding ram_hw_sel
  proof (intro conjI allI impI)
    fix b
    assume b: "b < ram_capacity did" "unat sec = 2 * b"
    then have "\<not> 2 * ram_capacity did < unat sec + 2" "unat sec div 2 = b" by simp_all
    then show "\<exists>m. ram_device did s = completed did i0 0
          ((bufs s)(bp := (bufs s bp)\<lparr>b_data := media s (int did) (int b)\<rparr>)) m s \<and> m = media s"
      if "ty = VIRTIO_BLK_T_IN"
      using that dev by (intro exI [of _ "media s"]) (simp only: if_False if_True simp_thms)
    show "\<exists>m. ram_device did s = completed did i0 0 (bufs s) m s \<and>
          m = blk_upd (media s) (int did) (int b) (b_data (bufs s bp))" if "ty = VIRTIO_BLK_T_OUT"
    proof -
      have "ty \<noteq> VIRTIO_BLK_T_IN" using that by (simp add: VIRTIO_BLK_T_IN_def VIRTIO_BLK_T_OUT_def)
      with \<open>\<not> 2 * _ < _\<close> \<open>_ div 2 = b\<close> dev show ?thesis by (simp only: if_False simp_thms ex_simps) blast
    qed
  next
    assume "2 * ram_capacity did < unat sec + 2"
    with dev show "\<exists>e m. e \<noteq> 0 \<and> ram_device did s = completed did i0 e (bufs s) m s \<and> m = media s"
      by (intro exI [of _ 1] exI [of _ "media s"]) (simp only: if_True, simp)
  qed
qed

section \<open>A machine state\<close>

definition idle_disk :: vdisk where
  "idle_disk = \<lparr>vname = ''raid_disk'', desc = replicate NUM zero_desc, avail_idx = 0,
     avail_ring = replicate NUM 0, uring_idx = 0, uring = replicate NUM 0, free = replicate NUM True,
     used_idx = 0, info = replicate NUM \<lparr>info_b = None, info_status = 0\<rparr>,
     ops = replicate NUM \<lparr>req_type = 0, req_reserved = 0, req_sector = 0\<rparr>,
     vdisk_lock = initlock ''virtio_disk''\<rparr>"

definition ram_driver :: "ram \<Rightarrow> ram vstate" where
  "ram_driver m = \<lparr>disk = replicate 5 idle_disk,
     bufs = (\<lambda>_. \<lparr>b_valid = 0, b_disk = 0, b_dev = 0, b_blockno = 0, b_lock = initsleeplock ''buffer'',
                   b_refcnt = 0, b_data = zero_block\<rparr>),
     transfer_buffer = [None, Some 1, Some 2, Some 3, Some 4], hart = 0,
     vcpu = \<lparr>noff = 0, intena = True, intr = True\<rparr>, media = m\<rparr>"

text \<open>A kernel on that machine with the given media and cache; one page is free.\<close>

definition ram_kernel :: "ram \<Rightarrow> raid_data list \<Rightarrow> uchar \<Rightarrow> raid_data \<Rightarrow> ram kstate" where
  "ram_kernel m c loaded rd =
     \<lparr>vs = ram_driver m, raid_data_cache = c, raid_data_cache_loaded = loaded,
      raid = rd, raid_lock = initsleeplock ''raid_lock'',
      kmem = \<lparr>freelist = 0x80030000, next_of = (\<lambda>_. 0)\<rparr>\<rparr>"

definition blank :: ram where
  "blank = (\<lambda>k b. zero_block)"

lemma idle_disk_ok [simp]: "disk_idle idle_disk"
  by (simp add: disk_idle_def idle_disk_def)

lemma ram_driver_ok [simp]:
  assumes "\<And>k b. length (m k b) = BSIZE"
  shows "drv_ok ram_hw (\<lambda>m. m) (ram_driver m)"
proof -
  have "transfer_buffer (ram_driver m) ! k \<noteq> None" if "1 \<le> k" "k \<le> 4" for k
  proof -
    from that have "k = 1 \<or> k = 2 \<or> k = 3 \<or> k = 4" by linarith
    then show ?thesis by (auto simp: ram_driver_def)
  qed
  with assms show ?thesis
    by (simp add: drv_ok_def vok_def) (simp add: ram_driver_def cpu_ok_def)
qed

lemma ram_kernel_sel [simp]:
  "vs (ram_kernel m c l rd) = ram_driver m" "raid_data_cache (ram_kernel m c l rd) = c"
  "raid_data_cache_loaded (ram_kernel m c l rd) = l" "raid (ram_kernel m c l rd) = rd" "media (ram_driver m) = m"
  "raid_lock (ram_kernel m c l rd) = initsleeplock ''raid_lock''" "vcpu (ram_driver m) = \<lparr>noff = 0, intena = True, intr = True\<rparr>"
  by (simp_all add: ram_kernel_def ram_driver_def)

lemma ram_kernel_ok [simp]:
  assumes "\<And>k b. length (m k b) = BSIZE" "length c = 4"
  shows "kst_ok ram_hw (\<lambda>m. m) (ram_kernel m c l rd)"
  unfolding kst_ok_def using assms by simp

lemma ram_kernel_page: "free_pages (kend ram_hw) (kmem (ram_kernel m c l rd)) [0x80030000]"
  by (simp add: free_pages_def page_ok_def ram_kernel_def PGSIZE_def PHYSTOP_def)

lemma blank_length [simp]: "length (blank k b) = BSIZE"
  by (simp add: blank_def)

lemma blank_parity [simp]: "parity_ok ram_hw blank b"
proof -
  have "xorl (map (\<lambda>j. 0) ks) = (0 :: uchar)" for ks :: "int list"
    by (induction ks) simp_all
  then show ?thesis by (simp add: parity_ok_def blank_def zero_block_def)
qed

end
