(* ===== verification/Raid0.thy ===== *)
theory Raid0
  imports Raid_Volume Ram_Disk
begin

text \<open>
  RAID level 0 of \<^verbatim>\<open>kernel/raid.c\<close>: striping without redundancy. Logical block \<open>n\<close> lives on disk
  \<^verbatim>\<open>n % DISKS + 1\<close>; only disk 1 gives up its block 0, to the metadata. The operations return their C
  result with the new state; a read also returns the caller's buffer.
\<close>

section \<open>Operations\<close>

definition init_raid0 :: "'m hw \<Rightarrow> 'm kstate \<Rightarrow> (int \<times> 'm kstate) res" where
  "init_raid0 h s =
     kbind (cache_set 0 \<lparr>raid_type = RAID0, working = 1\<rparr> s) (\<lambda>s.
     kbind (write_blk h 1 0 (meta_block h \<lparr>raid_type = RAID0, working = 1\<rparr>) s) (\<lambda>s.
     Inr (0, s\<lparr>raid_data_cache_loaded := 1\<rparr>)))"

definition raid0_place :: "'m hw \<Rightarrow> int \<Rightarrow> int \<times> int" where
  "raid0_place h blkn =
     (let num_of_disks = int (DISKS h);
          diskn = blkn smod num_of_disks + 1;
          blockn = blkn sdiv num_of_disks;
          blockn = (if diskn = 1 then i32 (blockn + 1) else blockn)
      in (diskn, blockn))"

definition read_raid0 :: "'m hw \<Rightarrow> int \<Rightarrow> block \<Rightarrow> 'm kstate \<Rightarrow> (int \<times> block \<times> 'm kstate) res" where
  "read_raid0 h blkn dat s =
     kbind (load_raid_data_cache h s) (\<lambda>s.
     kbind (cache_get 0 s) (\<lambda>rd.
     if working rd = 0 then Inr (-1, dat, s)
     else let (diskn, blockn) = raid0_place h blkn in
          if blockn > int (NUMBER_OF_BLOCKS h) - 1 then Inr (-1, dat, s)
          else kbind (read_blk h diskn blockn s) (\<lambda>(dat, s). Inr (0, dat, s))))"

definition write_raid0 :: "'m hw \<Rightarrow> int \<Rightarrow> block \<Rightarrow> 'm kstate \<Rightarrow> (int \<times> 'm kstate) res" where
  "write_raid0 h blkn dat s =
     kbind (load_raid_data_cache h s) (\<lambda>s.
     kbind (cache_get 0 s) (\<lambda>rd.
     if working rd = 0 then Inr (-1, s)
     else let (diskn, blockn) = raid0_place h blkn in
          if blockn > int (NUMBER_OF_BLOCKS h) - 1 then Inr (-1, s)
          else kbind (write_blk h diskn blockn dat s) (\<lambda>s. Inr (0, s))))"

definition disk_fail_raid0 :: "'m hw \<Rightarrow> int \<Rightarrow> 'm kstate \<Rightarrow> (int \<times> 'm kstate) res" where
  "disk_fail_raid0 h diskn s =
     (if diskn < 1 \<or> diskn > int (DISKS h) then Inr (-1, s)
      else kbind (store_working h 1 0 (stack_junk h) s) (\<lambda>s. Inr (0, s)))"

definition disk_repaired_raid0 :: "'m hw \<Rightarrow> int \<Rightarrow> 'm kstate \<Rightarrow> (int \<times> 'm kstate) res" where
  "disk_repaired_raid0 h diskn s = Inr (-1, s)"

text \<open>The result and the values stored through \<^verbatim>\<open>blkn\<close>, \<^verbatim>\<open>blks\<close> and \<^verbatim>\<open>diskn\<close>.\<close>

definition info_raid0 :: "'m hw \<Rightarrow> int \<times> uint32 \<times> uint32 \<times> uint32" where
  "info_raid0 h = (0, word_of_int (int (DISKS h) * int (NUMBER_OF_BLOCKS h) - 1), of_nat BSIZE, of_nat (DISKS h))"

definition destroy_raid0 :: "'m hw \<Rightarrow> 'm kstate \<Rightarrow> (int \<times> 'm kstate) res" where
  "destroy_raid0 h s = kbind (write_blk h 1 0 zero_block s) (\<lambda>s. Inr (0, s))"

section \<open>The volume\<close>

definition raid0_addr :: "'m hw \<Rightarrow> int \<Rightarrow> bool" where
  "raid0_addr h a \<longleftrightarrow> 0 \<le> a \<and> a div int (DISKS h) + (if a mod int (DISKS h) = 0 then 1 else 0) < int (NUMBER_OF_BLOCKS h)"

definition raid0_vol :: "'m hw \<Rightarrow> ('m \<Rightarrow> int \<Rightarrow> int \<Rightarrow> block) \<Rightarrow> 'm kstate \<Rightarrow> int \<Rightarrow> block" where
  "raid0_vol h st s a = (let (k, b) = raid0_place h a in blk st s k b)"

definition raid0_ok :: "'m hw \<Rightarrow> ('m \<Rightarrow> int \<Rightarrow> int \<Rightarrow> block) \<Rightarrow> 'm kstate \<Rightarrow> bool" where
  "raid0_ok h st s \<longleftrightarrow> kst_ok h st s \<and> working (loaded_cache h st s ! 0) \<noteq> 0"

lemma raid0_place_eq:
  assumes "hw_ok h" "raid0_addr h a"
  shows "raid0_place h a = (a mod int (DISKS h) + 1, a div int (DISKS h) + (if a mod int (DISKS h) = 0 then 1 else 0))"
  using assms disks_pos [of h] blocks_bound [of h]
  by (auto simp: raid0_place_def raid0_addr_def Let_def pos_imp_zdiv_nonneg_iff)

lemma raid0_place_valid:
  assumes "hw_ok h" "raid0_addr h a" "raid0_place h a = (k, b)"
  shows "raid_block h k b" "k = 1 \<Longrightarrow> 1 \<le> b" "b < int (NUMBER_OF_BLOCKS h)"
  using assms disks_pos [of h] raid0_place_eq [OF assms(1,2)] pos_mod_bound [of "int (DISKS h)" a]
  by (auto simp: raid_block_def raid0_addr_def pos_imp_zdiv_nonneg_iff simp del: pos_mod_bound split: if_splits)

text \<open>Two logical blocks never share a physical block.\<close>

lemma raid0_place_inj:
  assumes "hw_ok h" "raid0_addr h a" "raid0_addr h a'" "raid0_place h a = raid0_place h a'"
  shows "a = a'"
proof -
  have "a mod int (DISKS h) = a' mod int (DISKS h)" "a div int (DISKS h) = a' div int (DISKS h)"
    using assms raid0_place_eq [OF assms(1,2)] raid0_place_eq [OF assms(1,3)] by (auto split: if_splits)
  then show ?thesis by (metis div_mult_mod_eq)
qed

text \<open>The block numbers, and that every block but the metadata block of disk 1 is the place of one of them.\<close>

lemma raid0_addr_iff:
  assumes "hw_ok h"
  shows "raid0_addr h a \<longleftrightarrow> a \<in> {0..<int (DISKS h) * int (NUMBER_OF_BLOCKS h)} - {int (DISKS h) * (int (NUMBER_OF_BLOCKS h) - 1)}"
proof -
  let ?D = "int (DISKS h)" and ?N = "int (NUMBER_OF_BLOCKS h)"
  have D: "0 < ?D" using disks_pos assms by blast
  have "(a + ?D * (- ?N)) div ?D = - ?N + a div ?D" by (rule div_mult_self2) (use D in simp)
  then have lt: "a div ?D < ?N \<longleftrightarrow> a < ?D * ?N" using pos_imp_zdiv_neg_iff [OF D, of "a + ?D * (- ?N)"] by simp
  have "a = ?D * (?N - 1) \<longleftrightarrow> a mod ?D = 0 \<and> a div ?D = ?N - 1" using D by (metis add.right_neutral mod_mult_self1_is_0 mult_div_mod_eq nonzero_mult_div_cancel_left less_irrefl)
  then show ?thesis using lt by (auto simp: raid0_addr_def)
qed

lemma raid0_place_onto:
  assumes "hw_ok h" "raid_block h k b" "(k, b) \<noteq> (1, 0)"
  shows "\<exists>a. raid0_addr h a \<and> raid0_place h a = (k, b)"
proof -
  let ?D = "int (DISKS h)" and ?b = "if k = 1 then b - 1 else b"
  let ?a = "?b * ?D + (k - 1)"
  have D: "0 < ?D" using disks_pos assms by blast
  have k: "0 \<le> k - 1" "k - 1 < ?D" "0 \<le> ?b" "b < int (NUMBER_OF_BLOCKS h)" using assms by (auto simp: raid_block_def)
  then have e: "?a mod ?D = k - 1" "?a div ?D = ?b" by simp_all
  moreover have "0 \<le> ?a" using k D by simp
  ultimately have "raid0_addr h ?a" using k by (simp only: raid0_addr_def) auto
  then show ?thesis using raid0_place_eq [OF assms(1), of ?a] e by auto
qed

section \<open>Functional correctness\<close>

lemma read_raid0_exact:
  assumes "raid0_ok h st s" "raid0_addr h a"
  shows "wp (read_raid0 h a dat s) (\<lambda>(r, x, s'). r = 0 \<and> x = raid0_vol h st s a \<and>
    (\<exists>v. s' = s\<lparr>vs := v, raid_data_cache := loaded_cache h st s\<rparr> \<and> drv_ok h st v \<and> st (media v) = blk st s))"
proof -
  obtain k b where kb: "raid0_place h a = (k, b)" by force
  have ok: "kst_ok h st s" "working (loaded_cache h st s ! 0) \<noteq> 0" using assms(1) by (auto simp: raid0_ok_def)
  note val = raid0_place_valid [OF kst_okD(2) [OF ok(1)] assms(2) kb]
  show ?thesis
    unfolding read_raid0_def wp_kbind
    by (rule wp_load_raid_data_cache [OF ok(1)])
      (use ok val in \<open>auto simp: kb raid0_vol_def intro!: wp_read_blk [of h st]\<close>)
qed

lemma write_raid0_exact:
  assumes "raid0_ok h st s" "raid0_addr h a" "length x = BSIZE"
  shows "wp (write_raid0 h a x s) (\<lambda>(r, s'). r = 0 \<and>
    (\<exists>v. s' = s\<lparr>vs := v, raid_data_cache := loaded_cache h st s\<rparr> \<and> drv_ok h st v \<and>
         st (media v) = (case raid0_place h a of (k, b) \<Rightarrow> blk_upd (blk st s) k b x)))"
proof -
  obtain k b where kb: "raid0_place h a = (k, b)" by force
  have ok: "kst_ok h st s" "working (loaded_cache h st s ! 0) \<noteq> 0" using assms(1) by (auto simp: raid0_ok_def)
  note val = raid0_place_valid [OF kst_okD(2) [OF ok(1)] assms(2) kb]
  show ?thesis
    unfolding write_raid0_def wp_kbind
    by (rule wp_load_raid_data_cache [OF ok(1)])
      (use ok val assms(3) in \<open>auto simp: kb intro!: wp_write_blk [of h st]\<close>)
qed

text \<open>Entry 0 of the cache depends on block 0 of disk 1 only.\<close>

lemma loaded_cache_0_keep:
  assumes "kst_ok h st s" "drv_ok h st v" "st (media v) 1 0 = blk st s 1 0"
  shows "loaded_cache h st (s\<lparr>vs := v, raid_data_cache := loaded_cache h st s\<rparr>) ! 0 = loaded_cache h st s ! 0"
  using assms disks_pos [of h] kst_okD(2) [OF assms(1)] by (auto simp: loaded_cache_def)

lemma raid0_ok_keep:
  assumes "raid0_ok h st s" "drv_ok h st v" "st (media v) 1 0 = blk st s 1 0"
  shows "raid0_ok h st (s\<lparr>vs := v, raid_data_cache := loaded_cache h st s\<rparr>)"
  using assms loaded_cache_0_keep [of h st s v] by (auto simp: raid0_ok_def)

interpretation r0: block_volume "read_raid0 h" "write_raid0 h" "raid0_vol h st" "raid0_ok h st" "raid0_addr h"
  for h :: "'m hw" and st
proof
  fix s b and buf :: block
  assume s: "raid0_ok h st s" and b: "raid0_addr h b"
  from read_raid0_exact [OF this]
  show "wp (read_raid0 h b buf s) (\<lambda>(r, x, s'). r = 0 \<and> x = raid0_vol h st s b \<and> raid0_ok h st s' \<and>
      (\<forall>a. raid0_addr h a \<longrightarrow> raid0_vol h st s' a = raid0_vol h st s a))"
    by (rule wp_mono) (use s in \<open>auto simp: raid0_vol_def intro!: raid0_ok_keep\<close>)
next
  fix s b and x :: block
  assume s: "raid0_ok h st s" and b: "raid0_addr h b" and x: "length x = BSIZE"
  obtain k n where kn: "raid0_place h b = (k, n)" by force
  have hw: "hw_ok h" using s by (auto simp: raid0_ok_def)
  note val = raid0_place_valid [OF hw b kn]
  have place: "raid0_addr h a \<Longrightarrow> raid0_place h a = (k, n) \<longleftrightarrow> a = b" for a
    using raid0_place_inj [OF hw _ b, of a] kn by auto
  from write_raid0_exact [OF s b x]
  show "wp (write_raid0 h b x s) (\<lambda>(r, s'). r = 0 \<and> raid0_ok h st s' \<and>
      (\<forall>a. raid0_addr h a \<longrightarrow> raid0_vol h st s' a = (if a = b then x else raid0_vol h st s a)))"
  proof (rule wp_mono, clarify, intro conjI allI impI refl)
    fix v
    assume v: "drv_ok h st v" "st (media v) = (case raid0_place h b of (k, b) \<Rightarrow> blk_upd (blk st s) k b x)"
    show "raid0_ok h st (s\<lparr>vs := v, raid_data_cache := loaded_cache h st s\<rparr>)"
      using val(2) by (intro raid0_ok_keep s v(1)) (auto simp: v(2) kn)
    fix a
    assume "raid0_addr h a"
    then show "raid0_vol h st (s\<lparr>vs := v, raid_data_cache := loaded_cache h st s\<rparr>) a =
        (if a = b then x else raid0_vol h st s a)"
      using place [of a] v(2) kn by (auto simp: raid0_vol_def split: prod.splits)
  qed
qed

section \<open>Life cycle\<close>

text \<open>After initialisation the array is usable and its content is what the disks held.\<close>

lemma wp_init_raid0:
  assumes "kst_ok h st s"
  shows "wp (init_raid0 h s) (\<lambda>(r, s'). r = 0 \<and> raid0_ok h st s' \<and>
    (\<forall>k b. (k, b) \<noteq> (1, 0) \<longrightarrow> blk st s' k b = blk st s k b) \<and> load_meta h (blk st s' 1 0) = \<lparr>raid_type = RAID0, working = 1\<rparr>)"
proof -
  have hw: "hw_ok h" using assms by simp
  have D: "0 < DISKS h" using disks_pos [OF hw] by simp
  have c: "cache_set 0 rd s = Inr (s\<lparr>raid_data_cache := (raid_data_cache s)[0 := rd]\<rparr>)" for rd
    using assms D by (simp add: cache_set_def)
  have "kst_ok h st (s\<lparr>vs := v, raid_data_cache := (raid_data_cache s)[0 := rd], raid_data_cache_loaded := 1\<rparr>)"
    if "drv_ok h st v" for v rd
    unfolding kst_ok_def using that assms by simp
  then show ?thesis
    unfolding init_raid0_def using assms D
    by (auto simp: c raid_block_def raid0_ok_def loaded_cache_def intro!: wp_write_blk [of h st])
qed

text \<open>A failed disk stops the whole array: every later access is refused.\<close>

lemma wp_disk_fail_raid0:
  assumes "kst_ok h st s" "1 \<le> d" "d \<le> int (DISKS h)"
    and "raid_data_cache_loaded s \<noteq> 0"
  shows "wp (disk_fail_raid0 h d s) (\<lambda>(r, s'). r = 0 \<and> kst_ok h st s' \<and>
    working (loaded_cache h st s' ! 0) = 0 \<and> load_meta h (blk st s' 1 0) = (raid_data_cache s ! 0)\<lparr>working := 0\<rparr>)"
proof -
  have D: "0 < DISKS h" using assms(2,3) by simp
  then show ?thesis
    unfolding disk_fail_raid0_def using assms
    by (auto simp: loaded_cache_def intro!: wp_store_working [of h st])
qed

lemma raid0_failed:
  assumes "kst_ok h st s" "working (loaded_cache h st s ! 0) = 0"
  shows "wp (read_raid0 h a dat s) (\<lambda>(r, x, s'). r = -1 \<and> x = dat \<and> blk st s' = blk st s)"
    and "wp (write_raid0 h a x s) (\<lambda>(r, s'). r = -1 \<and> blk st s' = blk st s)"
  unfolding read_raid0_def write_raid0_def wp_kbind
  by (rule wp_load_raid_data_cache [OF assms(1)], use assms in simp)+

lemma raid0_outside:
  assumes "raid0_ok h st s" "0 \<le> a" "a < 2 ^ 31 - 1" "\<not> raid0_addr h a"
  shows "wp (read_raid0 h a dat s) (\<lambda>(r, x, s'). r = -1 \<and> x = dat \<and> blk st s' = blk st s)"
    and "wp (write_raid0 h a x s) (\<lambda>(r, s'). r = -1 \<and> blk st s' = blk st s)"
proof -
  have ok: "kst_ok h st s" "working (loaded_cache h st s ! 0) \<noteq> 0" using assms(1) by (auto simp: raid0_ok_def)
  have D: "0 < int (DISKS h)" using disks_pos kst_okD(2) [OF ok(1)] by blast
  have q: "0 \<le> a div int (DISKS h)" "a div int (DISKS h) \<le> a"
    using assms(2) D zdiv_mono2 [of a 1 "int (DISKS h)"] by (auto simp: pos_imp_zdiv_nonneg_iff)
  then have place: "snd (raid0_place h a) > int (NUMBER_OF_BLOCKS h) - 1"
    using assms(2-4) D by (auto simp: raid0_place_def raid0_addr_def Let_def split: if_splits)
  show "wp (read_raid0 h a dat s) (\<lambda>(r, x, s'). r = -1 \<and> x = dat \<and> blk st s' = blk st s)"
    "wp (write_raid0 h a x s) (\<lambda>(r, s'). r = -1 \<and> blk st s' = blk st s)"
    unfolding read_raid0_def write_raid0_def wp_kbind
    by (rule wp_load_raid_data_cache [OF ok(1)], use ok place in \<open>auto split: prod.splits\<close>)+
qed

section \<open>Block numbers that are not checked\<close>

text \<open>
  Only the upper bound of the block number is tested. The first negative stripe lands on block 0 of
  disk 1: writing \<^verbatim>\<open>-DISKS\<close> replaces the metadata.
\<close>

lemma raid0_negative:
  assumes "raid0_ok h st s" "length x = BSIZE"
  shows "wp (write_raid0 h (- int (DISKS h)) x s) (\<lambda>(r, s'). r = 0 \<and> blk st s' = blk_upd (blk st s) 1 0 x)"
proof -
  have ok: "kst_ok h st s" "working (loaded_cache h st s ! 0) \<noteq> 0" using assms(1) by (auto simp: raid0_ok_def)
  have D: "0 < int (DISKS h)" using disks_pos kst_okD(2) [OF ok(1)] by blast
  have "raid0_place h (- int (DISKS h)) = (1, 0)"
    using D by (simp add: raid0_place_def Let_def signed_divide_int_def signed_modulo_int_def)
  moreover have "raid_block h 1 0" using D ok(1) by (simp add: raid_block_def)
  ultimately show ?thesis
    unfolding write_raid0_def wp_kbind
    by (intro wp_load_raid_data_cache [OF ok(1)])
      (use ok D assms(2) in \<open>auto intro!: wp_write_blk [of h st]\<close>)
qed

text \<open>
  The block count of \<^verbatim>\<open>info_raid0\<close> is \<^verbatim>\<open>DISKS * NUMBER_OF_BLOCKS - 1\<close>, but with at least two disks the
  accepted block numbers are not the numbers below it.
\<close>

lemma raid0_hole:
  assumes "hw_ok h" "2 \<le> DISKS h" "2 \<le> NUMBER_OF_BLOCKS h"
  shows "\<not> raid0_addr h (int (DISKS h) * (int (NUMBER_OF_BLOCKS h) - 1))"
    and "raid0_addr h (int (DISKS h) * int (NUMBER_OF_BLOCKS h) - 1)"
proof -
  let ?D = "int (DISKS h)" and ?N = "int (NUMBER_OF_BLOCKS h)"
  have D: "2 \<le> ?D" using assms(2) by simp
  show "\<not> raid0_addr h (?D * (?N - 1))" using D by (simp add: raid0_addr_def)
  have e: "?D * ?N - 1 = (?D - 1) + (?N - 1) * ?D" by (simp add: algebra_simps)
  have "(?D * ?N - 1) div ?D = ?N - 1" "(?D * ?N - 1) mod ?D = ?D - 1"
    unfolding e using D by (simp_all add: zmod_minus1)
  moreover have "0 \<le> ?D * ?N - 1" using D assms(3) by (simp add: e)
  ultimately show "raid0_addr h (?D * ?N - 1)" using D by (simp add: raid0_addr_def)
qed

end
