(* ===== verification/Raid1.thy ===== *)
theory Raid1
  imports Raid_Volume Ram_Disk
begin

text \<open>
  RAID level 1 of \<^verbatim>\<open>kernel/raid.c\<close>: every disk is a full copy. Block 0 of each disk is its metadata;
  logical block \<open>n\<close> is block \<open>n + 1\<close>.
\<close>

section \<open>Operations\<close>

definition init_raid1 :: "'m hw \<Rightarrow> 'm kstate \<Rightarrow> (int \<times> 'm kstate) res" where
  "init_raid1 h s =
     (if DISKS h \<le> 1 then Inr (-1, s)
      else kbind (init_disks h \<lparr>raid_type = RAID1, working = 1\<rparr> s) (\<lambda>s.
           Inr (0, s\<lparr>raid_data_cache_loaded := 1\<rparr>)))"

definition read_raid1 :: "'m hw \<Rightarrow> int \<Rightarrow> block \<Rightarrow> 'm kstate \<Rightarrow> (int \<times> block \<times> 'm kstate) res" where
  "read_raid1 h blkn dat s =
     (let blkn = i32 (blkn + 1) in
      kbind (load_raid_data_cache h s) (\<lambda>s.
      kbind (find_working (raid_disks h) s) (\<lambda>disk_number.
      if disk_number = -1 then Inr (-1, dat, s)
      else if blkn < 1 \<or> blkn > int (NUMBER_OF_BLOCKS h) - 1 then Inr (-1, dat, s)
      else kbind (read_blk h disk_number blkn s) (\<lambda>(dat, s). Inr (0, dat, s)))))"

text \<open>The loop of \<^verbatim>\<open>write_raid1\<close>, with \<^verbatim>\<open>ret\<close>.\<close>

definition write_mirrors :: "'m hw \<Rightarrow> int \<Rightarrow> block \<Rightarrow> int list \<Rightarrow> 'm kstate \<Rightarrow> (int \<times> 'm kstate) res" where
  "write_mirrors h blkn dat ks s =
     kfold (\<lambda>disk_num (ret, s). kbind (cache_get (disk_num - 1) s) (\<lambda>rd.
              if working rd = 1 then kbind (write_blk h disk_num blkn dat s) (\<lambda>s. Inr (0, s))
              else Inr (ret, s)))
       ks (-1, s)"

definition write_raid1 :: "'m hw \<Rightarrow> int \<Rightarrow> block \<Rightarrow> 'm kstate \<Rightarrow> (int \<times> 'm kstate) res" where
  "write_raid1 h blkn dat s =
     (let blkn = i32 (blkn + 1) in
      kbind (load_raid_data_cache h s) (\<lambda>s.
      if blkn < 1 \<or> blkn > int (NUMBER_OF_BLOCKS h) - 1 then Inr (-1, s)
      else write_mirrors h blkn dat (raid_disks h) s))"

definition disk_fail_raid1 :: "'m hw \<Rightarrow> int \<Rightarrow> 'm kstate \<Rightarrow> (int \<times> 'm kstate) res" where
  "disk_fail_raid1 h diskn s =
     (if diskn < 1 \<or> diskn > int (DISKS h) then Inr (-1, s)
      else kbind (load_raid_data_cache h s) (\<lambda>s.
           kbind (cache_get (diskn - 1) s) (\<lambda>rd.
           if working rd = 0 then Inr (-1, s)
           else kbind (store_working h diskn 0 (stack_junk h) s) (\<lambda>s. Inr (0, s)))))"

text \<open>Copying the blocks \<open>bs\<close> of one disk to another.\<close>

definition copy_blocks :: "'m hw \<Rightarrow> int \<Rightarrow> int \<Rightarrow> int list \<Rightarrow> 'm kstate \<Rightarrow> 'm kstate res" where
  "copy_blocks h src dst bs s =
     kfold (\<lambda>b s. kbind (read_blk h src b s) (\<lambda>(buffer, s). write_blk h dst b buffer s)) bs s"

text \<open>
  The final \<^verbatim>\<open>write_block(diskn, 0, metadata_ptr)\<close> of \<^verbatim>\<open>disk_repaired_raid1\<close> takes \<^verbatim>\<open>BSIZE\<close> bytes from
  the address of the cache entry: the entry, the entries after it, and whatever follows the array.
\<close>

definition cache_image :: "'m hw \<Rightarrow> int \<Rightarrow> 'm kstate \<Rightarrow> block" where
  "cache_image h diskn s =
     take BSIZE (concat (map (raid_bytes h) (drop (nat (diskn - 1)) (raid_data_cache s))) @ stack_junk h)"

definition disk_repaired_raid1 :: "'m hw \<Rightarrow> int \<Rightarrow> 'm kstate \<Rightarrow> (int \<times> 'm kstate) res" where
  "disk_repaired_raid1 h diskn s =
     (if diskn < 1 \<or> diskn > int (DISKS h) then Inr (-1, s)
      else kbind (load_raid_data_cache h s) (\<lambda>s.
           kbind (cache_get (diskn - 1) s) (\<lambda>rd.
           if working rd = 1 then Inr (-1, s)
           else kbind (find_working (raid_disks h) s) (\<lambda>disk_to_copy.
           if disk_to_copy = -1 then Inr (-1, s)
           else kbind (copy_blocks h disk_to_copy diskn [1..int (NUMBER_OF_BLOCKS h) - 1] s) (\<lambda>s.
                kbind (cache_get (diskn - 1) s) (\<lambda>rd.
                kbind (cache_set (diskn - 1) (rd\<lparr>working := 1\<rparr>) s) (\<lambda>s.
                kbind (write_blk h diskn 0 (cache_image h diskn s) s) (\<lambda>s. Inr (0, s)))))))))"

definition info_raid1 :: "'m hw \<Rightarrow> int \<times> uint32 \<times> uint32 \<times> uint32" where
  "info_raid1 h = (0, word_of_int (int (NUMBER_OF_BLOCKS h) - 1), of_nat BSIZE, of_nat (DISKS h))"

definition destroy_raid1 :: "'m hw \<Rightarrow> 'm kstate \<Rightarrow> (int \<times> 'm kstate) res" where
  "destroy_raid1 h s =
     kbind (load_raid_data_cache h s) (\<lambda>s.
     kbind (kfold (\<lambda>i s. kbind (cache_get (i - 1) s) (\<lambda>rd.
              if working rd = 0 then Inr s else write_blk h i 0 zero_block s)) (raid_disks h) s) (\<lambda>s.
     Inr (0, s)))"

section \<open>Loop rules\<close>

lemma wp_write_mirrors:
  assumes ok: "kst_ok h st s" and b: "0 \<le> b" "b < int (NUMBER_OF_BLOCKS h)" and x: "length x = BSIZE"
    and Q: "\<And>v. drv_ok h st v \<Longrightarrow>
      st (media v) = (\<lambda>k c. if c = b \<and> 1 \<le> k \<and> k \<le> int (DISKS h) \<and> working (raid_data_cache s ! nat (k - 1)) = 1
                            then x else blk st s k c) \<Longrightarrow>
      Q (if \<exists>k \<in> {1..int (DISKS h)}. working (raid_data_cache s ! nat (k - 1)) = 1 then 0 else -1, s\<lparr>vs := v\<rparr>)"
  shows "wp (write_mirrors h b x (raid_disks h) s) Q"
proof -
  let ?w = "\<lambda>k. working (raid_data_cache s ! nat (k - 1)) = 1"
  let ?f = "\<lambda>disk_num (ret, s). kbind (cache_get (disk_num - 1) s) (\<lambda>rd.
              if working rd = 1 then kbind (write_blk h disk_num b x s) (\<lambda>s. Inr (0, s)) else Inr (ret, s))"
  let ?P = "\<lambda>pre (ret, t). \<exists>v. drv_ok h st v \<and> st (media v) = (\<lambda>k c. if c = b \<and> k \<in> set pre \<and> ?w k then x else blk st s k c) \<and>
              t = s\<lparr>vs := v\<rparr> \<and> ret = (if \<exists>k \<in> set pre. ?w k then 0 else -1 :: int)"
  have "wp (kfold ?f (raid_disks h) (-1, s)) (?P (raid_disks h))"
  proof (rule wp_kfold [where P = ?P])
    show "?P [] (-1, s)" using ok by (auto intro!: exI [of _ "vs s"])
  next
    fix pre k rest rt
    assume split: "raid_disks h = pre @ k # rest" and "?P pre rt"
    then obtain v ret where v: "drv_ok h st v"
      "st (media v) = (\<lambda>k c. if c = b \<and> k \<in> set pre \<and> ?w k then x else blk st s k c)"
      and ret: "ret = (if \<exists>k \<in> set pre. ?w k then 0 else -1)" and rt: "rt = (ret, s\<lparr>vs := v\<rparr>)"
      by (cases rt) auto
    have k: "1 \<le> k" "k \<le> int (DISKS h)" using arg_cong [OF split, of set] by auto
    have val: "raid_block h k b" using k b by (simp add: raid_block_def)
    show "wp (?f k rt) (?P (pre @ [k]))"
    proof (cases "?w k")
      case True
      have "wp (write_blk h k b x (s\<lparr>vs := v\<rparr>)) (\<lambda>t. ?P (pre @ [k]) (0, t))"
        by (rule wp_write_blk [of h st]) (use v val x True in \<open>auto simp: fun_eq_iff\<close>)
      then show ?thesis using True k ok by (simp add: rt)
    next
      case False
      then show ?thesis using k ok v ret by (auto simp: rt fun_eq_iff intro!: exI [of _ v])
    qed
  qed
  then show ?thesis
    unfolding write_mirrors_def by (rule wp_mono) (use Q in \<open>auto simp: conj_assoc\<close>)
qed

lemma wp_copy_blocks [wp_rules]:
  assumes ok: "drv_ok h st (vs s)" and src: "1 \<le> src" "src \<le> int (DISKS h)" and dst: "1 \<le> dst" "dst \<le> int (DISKS h)"
    and ne: "src \<noteq> dst" and bs: "set bs \<subseteq> {0..<int (NUMBER_OF_BLOCKS h)}"
    and Q: "\<And>v. drv_ok h st v \<Longrightarrow>
      st (media v) = (\<lambda>k b. if k = dst \<and> b \<in> set bs then blk st s src b else blk st s k b) \<Longrightarrow> Q (s\<lparr>vs := v\<rparr>)"
  shows "wp (copy_blocks h src dst bs s) Q"
proof -
  let ?f = "\<lambda>b s. kbind (read_blk h src b s) (\<lambda>(buffer, s). write_blk h dst b buffer s)"
  let ?P = "\<lambda>pre t. \<exists>v. drv_ok h st v \<and>
              st (media v) = (\<lambda>k b. if k = dst \<and> b \<in> set pre then blk st s src b else blk st s k b) \<and> t = s\<lparr>vs := v\<rparr>"
  have "wp (kfold ?f bs s) (?P bs)"
  proof (rule wp_kfold [where P = ?P])
    show "?P [] s" using ok by (auto intro!: exI [of _ "vs s"])
  next
    fix pre b rest t
    assume split: "bs = pre @ b # rest" and "?P pre t"
    then obtain v where v: "drv_ok h st v"
      "st (media v) = (\<lambda>k b. if k = dst \<and> b \<in> set pre then blk st s src b else blk st s k b)"
      and t: "t = s\<lparr>vs := v\<rparr>" by blast
    have b: "0 \<le> b" "b < int (NUMBER_OF_BLOCKS h)" using bs split by auto
    have val: "raid_block h src b" "raid_block h dst b" using b src dst by (simp_all add: raid_block_def)
    have "length (blk st s src b) = BSIZE" using length_blk [OF ok val(1)] .
    then show "wp (?f b t) (?P (pre @ [b]))"
      using v val ne by (auto simp: t fun_eq_iff intro!: wp_read_blk [of h st] wp_write_blk [of h st])
  qed
  then show ?thesis
    unfolding copy_blocks_def by (rule wp_mono) (use Q in auto)
qed

section \<open>The mirrored volume\<close>

definition raid1_addr :: "'m hw \<Rightarrow> int \<Rightarrow> bool" where
  "raid1_addr h a \<longleftrightarrow> 0 \<le> a \<and> a + 1 < int (NUMBER_OF_BLOCKS h)"

definition raid1_vol :: "'m hw \<Rightarrow> ('m \<Rightarrow> int \<Rightarrow> int \<Rightarrow> block) \<Rightarrow> 'm kstate \<Rightarrow> int \<Rightarrow> block" where
  "raid1_vol h st s a =
     (case find (\<lambda>k. working (loaded_cache h st s ! nat (k - 1)) = 1) (raid_disks h) of
        Some k \<Rightarrow> blk st s k (a + 1) | None \<Rightarrow> [])"

text \<open>The disks in \<open>F\<close> have failed, the others work, there are some, and they are copies.\<close>

definition raid1_inv :: "'m hw \<Rightarrow> ('m \<Rightarrow> int \<Rightarrow> int \<Rightarrow> block) \<Rightarrow> int set \<Rightarrow> 'm kstate \<Rightarrow> bool" where
  "raid1_inv h st F s \<longleftrightarrow>
     kst_ok h st s \<and>
     (\<forall>k \<in> set (raid_disks h). working (loaded_cache h st s ! nat (k - 1)) = (if k \<in> F then 0 else 1)) \<and>
     (\<exists>k \<in> set (raid_disks h). k \<notin> F) \<and>
     (\<forall>j \<in> set (raid_disks h) - F. \<forall>k \<in> set (raid_disks h) - F. \<forall>a. raid1_addr h a \<longrightarrow> blk st s j (a + 1) = blk st s k (a + 1))"

lemma raid1_invD:
  assumes "raid1_inv h st F s"
  shows "kst_ok h st s"
    and "\<And>k. 1 \<le> k \<Longrightarrow> k \<le> int (DISKS h) \<Longrightarrow> working (loaded_cache h st s ! nat (k - 1)) = (if k \<in> F then 0 else 1)"
  using assms by (auto simp: raid1_inv_def)

lemma raid1_vol_eq:
  assumes inv: "raid1_inv h st F s" and k: "1 \<le> k" "k \<le> int (DISKS h)" "k \<notin> F" and a: "raid1_addr h a"
  shows "raid1_vol h st s a = blk st s k (a + 1)"
proof -
  have w: "working (loaded_cache h st s ! nat (j - 1)) = (if j \<in> F then 0 else 1)" if "j \<in> set (raid_disks h)" for j
    using inv that by (simp add: raid1_inv_def)
  have "find (\<lambda>k. working (loaded_cache h st s ! nat (k - 1)) = 1) (raid_disks h) \<noteq> None"
    using w [of k] k by (auto simp: find_None_iff)
  then obtain j where j: "find (\<lambda>k. working (loaded_cache h st s ! nat (k - 1)) = 1) (raid_disks h) = Some j" by blast
  then have mem: "j \<in> set (raid_disks h)" "working (loaded_cache h st s ! nat (j - 1)) = 1"
    by (auto simp: find_Some_iff)
  have "j \<notin> F" using w [OF mem(1)] mem(2) by (auto split: if_splits)
  moreover have "k \<in> set (raid_disks h) - F" using k by simp
  ultimately have "blk st s j (a + 1) = blk st s k (a + 1)" using inv a mem(1) unfolding raid1_inv_def by blast
  then show ?thesis using j by (simp add: raid1_vol_def)
qed

text \<open>Establishing the invariant after an operation, with the content of the volume.\<close>

lemma raid1_step:
  assumes inv: "raid1_inv h st F s" and ok: "kst_ok h st s'"
    and cache: "\<And>k. 1 \<le> k \<Longrightarrow> k \<le> int (DISKS h) \<Longrightarrow> working (loaded_cache h st s' ! nat (k - 1)) = (if k \<in> F' then 0 else 1)"
    and surv: "1 \<le> w" "w \<le> int (DISKS h)" "w \<notin> F'"
    and data: "\<And>k a. 1 \<le> k \<Longrightarrow> k \<le> int (DISKS h) \<Longrightarrow> k \<notin> F' \<Longrightarrow> raid1_addr h a \<Longrightarrow> blk st s' k (a + 1) = f a"
  shows "raid1_inv h st F' s'" and "raid1_addr h a \<Longrightarrow> raid1_vol h st s' a = f a"
proof -
  show *: "raid1_inv h st F' s'"
    unfolding raid1_inv_def
  proof (intro conjI ballI)
    show "\<exists>k \<in> set (raid_disks h). k \<notin> F'" using surv by auto
  qed (use ok cache data in auto)
  show "raid1_vol h st s' a = f a" if "raid1_addr h a"
    using raid1_vol_eq [OF * surv that] data [OF surv that] by simp
qed

lemma raid1_i32: "kst_ok h st s \<Longrightarrow> raid1_addr h a \<Longrightarrow> i32 (a + 1) = a + 1"
  using blocks_bound [of h] by (simp add: raid1_addr_def)

lemma raid1_survivor:
  assumes "raid1_inv h st F s"
  obtains w where "1 \<le> w" "w \<le> int (DISKS h)" "w \<notin> F"
  using assms by (auto simp: raid1_inv_def)

lemma wp_read_raid1:
  assumes inv: "raid1_inv h st F s" and a: "raid1_addr h a"
  shows "wp (read_raid1 h a dat s) (\<lambda>(r, x, s'). r = 0 \<and> x = raid1_vol h st s a \<and>
    raid1_inv h st F s' \<and> (\<forall>b. raid1_addr h b \<longrightarrow> raid1_vol h st s' b = raid1_vol h st s b))"
proof -
  note ok = raid1_invD(1) [OF inv] and fl = raid1_invD(2) [OF inv]
  obtain w where w: "1 \<le> w" "w \<le> int (DISKS h)" "w \<notin> F" using raid1_survivor [OF inv] by blast
  note vol = raid1_vol_eq [OF inv]
  have body: "wp (kbind (find_working (raid_disks h) (s\<lparr>vs := v, raid_data_cache := loaded_cache h st s\<rparr>)) (\<lambda>d.
      if d = -1 then Inr (-1, dat, s\<lparr>vs := v, raid_data_cache := loaded_cache h st s\<rparr>)
      else if a + 1 < 1 \<or> a + 1 > int (NUMBER_OF_BLOCKS h) - 1 then Inr (-1, dat, s\<lparr>vs := v, raid_data_cache := loaded_cache h st s\<rparr>)
      else kbind (read_blk h d (a + 1) (s\<lparr>vs := v, raid_data_cache := loaded_cache h st s\<rparr>)) (\<lambda>(dat, s). Inr (0, dat, s))))
    (\<lambda>(r, x, s'). r = 0 \<and> x = raid1_vol h st s a \<and>
       (\<exists>v. s' = s\<lparr>vs := v, raid_data_cache := loaded_cache h st s\<rparr> \<and> drv_ok h st v \<and> st (media v) = blk st s))"
    if v: "drv_ok h st v" "st (media v) = blk st s" for v
  proof -
    obtain i where i: "find_working (raid_disks h) (s\<lparr>vs := v, raid_data_cache := loaded_cache h st s\<rparr>) = Inr i"
      "i \<in> set (raid_disks h)" "working (loaded_cache h st s ! nat (i - 1)) = 1"
      using find_working_some [of "s\<lparr>vs := v, raid_data_cache := loaded_cache h st s\<rparr>" h w] ok w fl [OF w(1,2)] by auto
    have iF: "i \<notin> F" using fl [of i] i(2,3) by (auto split: if_splits)
    have "raid_block h i (a + 1)" using a i(2) by (simp add: raid_block_def raid1_addr_def)
    then show ?thesis
      using i v a iF vol [of i a] by (auto simp: raid1_addr_def intro!: wp_read_blk [of h st])
  qed
  have "wp (read_raid1 h a dat s) (\<lambda>(r, x, s'). r = 0 \<and> x = raid1_vol h st s a \<and>
       (\<exists>v. s' = s\<lparr>vs := v, raid_data_cache := loaded_cache h st s\<rparr> \<and> drv_ok h st v \<and> st (media v) = blk st s))"
    unfolding read_raid1_def raid1_i32 [OF ok a] Let_def wp_kbind [of "load_raid_data_cache h s"]
    by (rule wp_load_raid_data_cache [OF ok]) (rule body)
  then show ?thesis
  proof (rule wp_mono, clarify, intro conjI allI impI refl)
    fix v
    assume v: "drv_ok h st v" "st (media v) = blk st s"
    let ?s = "s\<lparr>vs := v, raid_data_cache := loaded_cache h st s\<rparr>"
    have step: "1 \<le> k \<Longrightarrow> k \<le> int (DISKS h) \<Longrightarrow> k \<notin> F \<Longrightarrow> raid1_addr h b \<Longrightarrow> blk st ?s k (b + 1) = raid1_vol h st s b" for k b
      using vol [of k b] v(2) by simp
    show "raid1_inv h st F ?s"
      by (rule raid1_step(1) [OF inv _ _ w step]) (use ok v fl loaded_cache_same [OF v(2)] in auto)
    show "raid1_vol h st ?s b = raid1_vol h st s b" if "raid1_addr h b" for b
      by (rule raid1_step(2) [OF inv _ _ w step that]) (use ok v fl loaded_cache_same [OF v(2)] in auto)
  qed
qed

lemma wp_write_raid1:
  assumes inv: "raid1_inv h st F s" and a: "raid1_addr h a" and x: "length x = BSIZE"
  shows "wp (write_raid1 h a x s) (\<lambda>(r, s'). r = 0 \<and> raid1_inv h st F s' \<and>
    (\<forall>b. raid1_addr h b \<longrightarrow> raid1_vol h st s' b = (if b = a then x else raid1_vol h st s b)))"
proof -
  note ok = raid1_invD(1) [OF inv] and fl = raid1_invD(2) [OF inv]
  obtain w where w: "1 \<le> w" "w \<le> int (DISKS h)" "w \<notin> F" using raid1_survivor [OF inv] by blast
  note vol = raid1_vol_eq [OF inv]
  have b: "0 \<le> a + 1" "a + 1 < int (NUMBER_OF_BLOCKS h)" "\<not> a + 1 < 1" "\<not> a + 1 > int (NUMBER_OF_BLOCKS h) - 1"
    using a by (auto simp: raid1_addr_def)
  show ?thesis
    unfolding write_raid1_def raid1_i32 [OF ok a] Let_def wp_kbind
  proof (rule wp_load_raid_data_cache [OF ok], simp only: b simp_thms if_False, rule wp_write_mirrors [OF _ b(1,2) x])
    fix v v'
    let ?s = "s\<lparr>vs := v, raid_data_cache := loaded_cache h st s\<rparr>"
    let ?s' = "?s\<lparr>vs := v'\<rparr>"
    assume v: "drv_ok h st v" "st (media v) = blk st s"
    show "kst_ok h st ?s" using ok v(1) by auto
    assume v': "drv_ok h st v'" "st (media v') = (\<lambda>k c. if c = a + 1 \<and> 1 \<le> k \<and> k \<le> int (DISKS h) \<and>
        working (raid_data_cache ?s ! nat (k - 1)) = 1 then x else blk st ?s k c)"
    have ok': "kst_ok h st ?s'" using ok v'(1) by auto
    have cache: "loaded_cache h st ?s' = loaded_cache h st s"
      by (rule loaded_cache_keep) (use v v' b in auto)
    have data: "1 \<le> k \<Longrightarrow> k \<le> int (DISKS h) \<Longrightarrow> k \<notin> F \<Longrightarrow> raid1_addr h c \<Longrightarrow>
        blk st ?s' k (c + 1) = (if c = a then x else raid1_vol h st s c)" for k c
      using vol [of k c] v v' fl [of k] by simp
    have ret: "\<exists>k \<in> {1..int (DISKS h)}. working (raid_data_cache ?s ! nat (k - 1)) = 1"
      using w fl [OF w(1,2)] by auto
    have "raid1_inv h st F ?s'"
      by (rule raid1_step(1) [OF inv ok' _ w data]) (use fl cache in auto)
    moreover have "raid1_vol h st ?s' c = (if c = a then x else raid1_vol h st s c)" if "raid1_addr h c" for c
      by (rule raid1_step(2) [OF inv ok' _ w data that]) (use fl cache in auto)
    ultimately show "case (if \<exists>k \<in> {1..int (DISKS h)}. working (raid_data_cache ?s ! nat (k - 1)) = 1 then 0 else -1, ?s') of
        (r, s') \<Rightarrow> r = 0 \<and> raid1_inv h st F s' \<and>
          (\<forall>b. raid1_addr h b \<longrightarrow> raid1_vol h st s' b = (if b = a then x else raid1_vol h st s b))"
      by (simp only: ret if_True prod.case simp_thms) simp
  qed
qed

lemma wp_disk_fail_raid1:
  assumes inv: "raid1_inv h st F s" and d: "1 \<le> d" "d \<le> int (DISKS h)" "d \<notin> F"
    and w: "1 \<le> w" "w \<le> int (DISKS h)" "w \<notin> insert d F"
  shows "wp (disk_fail_raid1 h d s) (\<lambda>(r, s'). r = 0 \<and> raid1_inv h st (insert d F) s' \<and>
    (\<forall>b. raid1_addr h b \<longrightarrow> raid1_vol h st s' b = raid1_vol h st s b))"
proof -
  note ok = raid1_invD(1) [OF inv] and fl = raid1_invD(2) [OF inv]
  let ?rd = "(loaded_cache h st s ! nat (d - 1))\<lparr>working := 0\<rparr>"
  have "wp (disk_fail_raid1 h d s) (\<lambda>(r, s'). r = 0 \<and> (\<exists>v. drv_ok h st v \<and>
      st (media v) = blk_upd (blk st s) d 0 (serialize (raid_bytes h ?rd) raid_data_size (stack_junk h)) \<and>
      s' = s\<lparr>vs := v, raid_data_cache := (loaded_cache h st s)[nat (d - 1) := ?rd]\<rparr>))"
    unfolding disk_fail_raid1_def using ok d fl [OF d(1,2)]
    by (auto intro!: wp_load_raid_data_cache [OF ok] wp_store_working [of h st] exI)
  then show ?thesis
  proof (rule wp_mono, clarify, intro conjI allI impI refl)
    fix v
    let ?s = "s\<lparr>vs := v, raid_data_cache := (loaded_cache h st s)[nat (d - 1) := ?rd]\<rparr>"
    assume v: "drv_ok h st v"
      "st (media v) = blk_upd (blk st s) d 0 (serialize (raid_bytes h ?rd) raid_data_size (stack_junk h))"
    have ok': "kst_ok h st ?s" using ok v(1) by auto
    have "loaded_cache h st ?s = (loaded_cache h st s)[nat (d - 1) := ?rd]"
      by (rule loaded_cache_store [OF _ ok d(1,2)]) (use v ok in auto)
    then have cache: "1 \<le> k \<Longrightarrow> k \<le> int (DISKS h) \<Longrightarrow> working (loaded_cache h st ?s ! nat (k - 1)) =
        (if k \<in> insert d F then 0 else 1)" for k
      using fl [of k] d ok by (auto simp: nth_list_update nat_less_iff)
    have data: "1 \<le> k \<Longrightarrow> k \<le> int (DISKS h) \<Longrightarrow> k \<notin> insert d F \<Longrightarrow> raid1_addr h c \<Longrightarrow>
        blk st ?s k (c + 1) = raid1_vol h st s c" for k c
      using raid1_vol_eq [OF inv, of k c] v by simp
    show "raid1_inv h st (insert d F) ?s" by (rule raid1_step(1) [OF inv ok' cache w data])
    show "raid1_vol h st ?s b = raid1_vol h st s b" if "raid1_addr h b" for b
      by (rule raid1_step(2) [OF inv ok' cache w data that])
  qed
qed

lemma raid1_loss:
  assumes inv: "raid1_inv h st F s" and d: "1 \<le> d" "d \<le> int (DISKS h)" "d \<in> F" and loss: "disk_loss h st d s s'"
  shows "raid1_inv h st F s'" and "raid1_addr h b \<Longrightarrow> raid1_vol h st s' b = raid1_vol h st s b"
proof -
  note ok = raid1_invD(1) [OF inv] and fl = raid1_invD(2) [OF inv]
  obtain w where w: "1 \<le> w" "w \<le> int (DISKS h)" "w \<notin> F" using raid1_survivor [OF inv] by blast
  have ok': "kst_ok h st s'" by (rule disk_loss_ok [OF loss ok])
  have cache: "1 \<le> k \<Longrightarrow> k \<le> int (DISKS h) \<Longrightarrow> working (loaded_cache h st s' ! nat (k - 1)) = (if k \<in> F then 0 else 1)" for k
    using disk_loss_cache [OF loss, of k] disk_loss_failed [OF loss] fl [of k] fl [OF d(1,2)] d by (cases "k = d") auto
  have data: "1 \<le> k \<Longrightarrow> k \<le> int (DISKS h) \<Longrightarrow> k \<notin> F \<Longrightarrow> raid1_addr h c \<Longrightarrow>
      blk st s' k (c + 1) = raid1_vol h st s c" for k c
    using raid1_vol_eq [OF inv, of k c] loss d(3) by (auto simp: disk_loss_def)
  show "raid1_inv h st F s'" by (rule raid1_step(1) [OF inv ok' cache w data])
  show "raid1_vol h st s' b = raid1_vol h st s b" if "raid1_addr h b"
    by (rule raid1_step(2) [OF inv ok' cache w data that])
qed

lemma cache_image_eq:
  assumes "hw_ok h" "1 \<le> d" "nat (d - 1) < length (raid_data_cache s)"
  shows "length (cache_image h d s) = BSIZE" and "load_meta h (cache_image h d s) = raid_data_cache s ! nat (d - 1)"
proof -
  let ?rest = "concat (map (raid_bytes h) (drop (Suc (nat (d - 1))) (raid_data_cache s))) @ stack_junk h"
  have len: "length (raid_bytes h rd) = 8" for rd
    using junk_length [OF assms(1)] by (simp add: raid_bytes_def le32_def)
  have eq: "cache_image h d s = raid_bytes h (raid_data_cache s ! nat (d - 1)) @ take (BSIZE - 8) ?rest"
    using Cons_nth_drop_Suc [OF assms(3), symmetric] by (simp add: cache_image_def len BSIZE_def)
  then show l: "length (cache_image h d s) = BSIZE"
    using junk_length [OF assms(1)] by (simp add: len BSIZE_def)
  show "load_meta h (cache_image h d s) = raid_data_cache s ! nat (d - 1)"
    using load_meta_eq [OF assms(1) l] raid_of_bytes_prefix [OF assms(1)] by (simp only: eq)
qed

text \<open>The steps of a repair, from the state whose cache is loaded.\<close>

lemma wp_disk_repaired_raid1_run:
  assumes ok: "kst_ok h st s" and d: "1 \<le> d" "d \<le> int (DISKS h)" "working (loaded_cache h st s ! nat (d - 1)) = 0"
    and w: "1 \<le> w" "w \<le> int (DISKS h)" "working (loaded_cache h st s ! nat (w - 1)) = 1"
  shows "wp (disk_repaired_raid1 h d s) (\<lambda>(r, s'). r = 0 \<and> (\<exists>v i img. drv_ok h st v \<and> i \<noteq> d \<and>
      1 \<le> i \<and> i \<le> int (DISKS h) \<and> working (loaded_cache h st s ! nat (i - 1)) = 1 \<and>
      load_meta h img = (loaded_cache h st s ! nat (d - 1))\<lparr>working := 1\<rparr> \<and>
      st (media v) = blk_upd (\<lambda>k b. if k = d \<and> 1 \<le> b \<and> b < int (NUMBER_OF_BLOCKS h) then blk st s i b else blk st s k b) d 0 img \<and>
      s' = s\<lparr>vs := v, raid_data_cache := (loaded_cache h st s)
              [nat (d - 1) := (loaded_cache h st s ! nat (d - 1))\<lparr>working := 1\<rparr>]\<rparr>))"
    (is "wp _ ?Q")
proof -
  let ?rd = "(loaded_cache h st s ! nat (d - 1))\<lparr>working := 1\<rparr>"
  have "wp (kbind (find_working (raid_disks h) t) (\<lambda>i. if i = -1 then Inr (-1, t) else
      kbind (copy_blocks h i d [1..int (NUMBER_OF_BLOCKS h) - 1] t) (\<lambda>s. kbind (cache_get (d - 1) s) (\<lambda>rd.
      kbind (cache_set (d - 1) (rd\<lparr>working := 1\<rparr>) s) (\<lambda>s.
      kbind (write_blk h d 0 (cache_image h d s) s) (\<lambda>s. Inr (0, s))))))) ?Q"
    if v: "drv_ok h st v" "st (media v) = blk st s" and t: "t = s\<lparr>vs := v, raid_data_cache := loaded_cache h st s\<rparr>" for v t
  proof -
    obtain i where i: "find_working (raid_disks h) t = Inr i" "i \<in> set (raid_disks h)" "working (loaded_cache h st s ! nat (i - 1)) = 1"
      using find_working_some [of t h w] ok w t by auto
    have ne: "i \<noteq> d" using i(3) d(3) by auto
    have "wp (copy_blocks h i d [1..int (NUMBER_OF_BLOCKS h) - 1] t) (\<lambda>s. wp (kbind (cache_get (d - 1) s) (\<lambda>rd.
      kbind (cache_set (d - 1) (rd\<lparr>working := 1\<rparr>) s) (\<lambda>s. kbind (write_blk h d 0 (cache_image h d s) s) (\<lambda>s. Inr (0, s))))) ?Q)"
    proof (rule wp_copy_blocks [of h st])
      fix v'
      assume v': "drv_ok h st v'" "st (media v') = (\<lambda>k b. if k = d \<and> b \<in> set [1..int (NUMBER_OF_BLOCKS h) - 1] then blk st t i b else blk st t k b)"
      let ?u = "s\<lparr>vs := v', raid_data_cache := (loaded_cache h st s)[nat (d - 1) := ?rd]\<rparr>"
      have img: "length (cache_image h d ?u) = BSIZE" "load_meta h (cache_image h d ?u) = ?rd"
        using cache_image_eq [of h d ?u] ok d by (simp_all add: nat_less_iff)
      have "wp (write_blk h d 0 (cache_image h d ?u) ?u) (\<lambda>s. ?Q (0, s))"
      proof (rule wp_write_blk [of h st])
        fix v''
        assume "drv_ok h st v''" "st (media v'') = blk_upd (blk st ?u) d 0 (cache_image h d ?u)"
        then show "?Q (0, ?u\<lparr>vs := v''\<rparr>)"
          using v v' i(2,3) ne img t unfolding prod.case
          by (intro conjI refl exI [of _ v''] exI [of _ i] exI [of _ "cache_image h d ?u"]) (auto simp: fun_eq_iff)
      qed (use v' d ok img in \<open>auto simp: raid_block_def\<close>)
      then show "wp (kbind (cache_get (d - 1) (t\<lparr>vs := v'\<rparr>)) (\<lambda>rd. kbind (cache_set (d - 1) (rd\<lparr>working := 1\<rparr>) (t\<lparr>vs := v'\<rparr>)) (\<lambda>s.
          kbind (write_blk h d 0 (cache_image h d s) s) (\<lambda>s. Inr (0, s))))) ?Q"
        using d ok by (simp add: t)
    qed (use v t i ne d ok in auto)
    then show ?thesis using i by simp
  qed
  then show ?thesis
    unfolding disk_repaired_raid1_def using d ok
    by (simp del: wp_kbind add: wp_kbind [of "load_raid_data_cache h s"])
      (rule wp_load_raid_data_cache [OF ok], simp del: wp_kbind)
qed

lemma wp_disk_repaired_raid1:
  assumes inv: "raid1_inv h st F s" and d: "1 \<le> d" "d \<le> int (DISKS h)" "d \<in> F"
  shows "wp (disk_repaired_raid1 h d s) (\<lambda>(r, s'). r = 0 \<and> raid1_inv h st (F - {d}) s' \<and>
    (\<forall>b. raid1_addr h b \<longrightarrow> raid1_vol h st s' b = raid1_vol h st s b))"
proof -
  note ok = raid1_invD(1) [OF inv] and fl = raid1_invD(2) [OF inv]
  obtain w where w: "1 \<le> w" "w \<le> int (DISKS h)" "w \<notin> F" using raid1_survivor [OF inv] by blast
  let ?rd = "(loaded_cache h st s ! nat (d - 1))\<lparr>working := 1\<rparr>"
  have fd: "working (loaded_cache h st s ! nat (d - 1)) = 0" "working (loaded_cache h st s ! nat (w - 1)) = 1"
    using fl [OF d(1,2)] fl [OF w(1,2)] d w by auto
  from wp_disk_repaired_raid1_run [OF ok d(1,2) fd(1) w(1,2) fd(2)]
  show ?thesis
  proof (rule wp_mono, clarify, intro conjI allI impI refl)
    fix v i img
    let ?s = "s\<lparr>vs := v, raid_data_cache := (loaded_cache h st s)[nat (d - 1) := ?rd]\<rparr>"
    assume v: "drv_ok h st v" "st (media v) = blk_upd (\<lambda>k b. if k = d \<and> 1 \<le> b \<and> b < int (NUMBER_OF_BLOCKS h)
        then blk st s i b else blk st s k b) d 0 img"
      and i: "i \<noteq> d" "1 \<le> i" "i \<le> int (DISKS h)" "working (loaded_cache h st s ! nat (i - 1)) = 1"
      and img: "load_meta h img = ?rd"
    have iF: "i \<notin> F" using fl [OF i(2,3)] i(4) by (auto split: if_splits)
    have ok': "kst_ok h st ?s" using ok v(1) by simp
    have "loaded_cache h st ?s = (loaded_cache h st s)[nat (d - 1) := ?rd]"
      by (rule loaded_cache_store [OF _ ok d(1,2)]) (use v img in auto)
    then have cache: "1 \<le> k \<Longrightarrow> k \<le> int (DISKS h) \<Longrightarrow> working (loaded_cache h st ?s ! nat (k - 1)) =
        (if k \<in> F - {d} then 0 else 1)" for k
      using fl [of k] d ok by (auto simp: nth_list_update nat_less_iff)
    have data: "1 \<le> k \<Longrightarrow> k \<le> int (DISKS h) \<Longrightarrow> k \<notin> F - {d} \<Longrightarrow> raid1_addr h c \<Longrightarrow>
        blk st ?s k (c + 1) = raid1_vol h st s c" for k c
      using raid1_vol_eq [OF inv, of k c] raid1_vol_eq [OF inv i(2,3) iF, of c] v by (auto simp: raid1_addr_def)
    have w': "w \<notin> F - {d}" using w by simp
    show "raid1_inv h st (F - {d}) ?s" by (rule raid1_step(1) [OF inv ok' cache w(1,2) w' data])
    show "raid1_vol h st ?s b = raid1_vol h st s b" if "raid1_addr h b" for b
      by (rule raid1_step(2) [OF inv ok' cache w(1,2) w' data that])
  qed
qed

text \<open>
  Initialisation marks every disk as working and touches no data block: the array is a mirror when
  the disks agreed before.
\<close>

lemma wp_init_raid1:
  assumes ok: "kst_ok h st s" and D: "2 \<le> DISKS h"
  shows "wp (init_raid1 h s) (\<lambda>(r, s'). r = 0 \<and> kst_ok h st s' \<and> raid_data_cache_loaded s' = 1 \<and>
    loaded_cache h st s' = replicate (DISKS h) \<lparr>raid_type = RAID1, working = 1\<rparr> \<and>
    (\<forall>k b. b \<noteq> 0 \<longrightarrow> blk st s' k b = blk st s k b))"
proof -
  have "kst_ok h st (s\<lparr>vs := v, raid_data_cache := replicate (DISKS h) rd, raid_data_cache_loaded := 1\<rparr>)"
    if "drv_ok h st v" for v rd
    using that kst_okD(4) [OF ok] unfolding kst_ok_def by simp
  then show ?thesis
    unfolding init_raid1_def using D by (auto simp: loaded_cache_def intro!: wp_init_disks [OF ok])
qed

text \<open>Destroying the array clears the metadata of the working disks, and of those only.\<close>

lemma wp_destroy_raid1:
  assumes ok: "kst_ok h st s"
  shows "wp (destroy_raid1 h s) (\<lambda>(r, s'). r = 0 \<and> kst_ok h st s' \<and> blk st s' = (\<lambda>k b.
    if b = 0 \<and> 1 \<le> k \<and> k \<le> int (DISKS h) \<and> working (loaded_cache h st s ! nat (k - 1)) \<noteq> 0
    then zero_block else blk st s k b))"
proof -
  let ?w = "\<lambda>k. working (loaded_cache h st s ! nat (k - 1)) \<noteq> 0"
  let ?f = "\<lambda>i s. kbind (cache_get (i - 1) s) (\<lambda>rd. if working rd = 0 then Inr s else write_blk h i 0 zero_block s)"
  let ?P = "\<lambda>pre t. \<exists>v. drv_ok h st v \<and> t = s\<lparr>vs := v, raid_data_cache := loaded_cache h st s\<rparr> \<and>
    st (media v) = (\<lambda>k b. if b = 0 \<and> k \<in> set pre \<and> ?w k then zero_block else blk st s k b)"
  have loop: "wp (kfold ?f (raid_disks h) t) (?P (raid_disks h))" if "?P [] t" for t
  proof (rule wp_kfold [where P = ?P], rule that)
    fix pre k rest t
    assume split: "raid_disks h = pre @ k # rest" and "?P pre t"
    then obtain v where v: "drv_ok h st v" "t = s\<lparr>vs := v, raid_data_cache := loaded_cache h st s\<rparr>"
      "st (media v) = (\<lambda>k b. if b = 0 \<and> k \<in> set pre \<and> ?w k then zero_block else blk st s k b)" by blast
    have k: "1 \<le> k" "k \<le> int (DISKS h)" using arg_cong [OF split, of set] by auto
    have val: "raid_block h k 0" using k ok by (simp add: raid_block_def)
    show "wp (?f k t) (?P (pre @ [k]))"
    proof (cases "?w k")
      case True
      have "wp (write_blk h k 0 zero_block t) (?P (pre @ [k]))"
        by (rule wp_write_blk [of h st]) (use v val True in \<open>auto simp: fun_eq_iff\<close>)
      then show ?thesis using True k ok v(2) by simp
    next
      case False
      then show ?thesis using k ok v by (auto simp: fun_eq_iff)
    qed
  qed
  have post: "kst_ok h st (s\<lparr>vs := v, raid_data_cache := loaded_cache h st s\<rparr>)" if "drv_ok h st v" for v
    using ok that by simp
  show ?thesis
    unfolding destroy_raid1_def wp_kbind
    by (rule wp_load_raid_data_cache [OF ok], rule wp_mono [OF loop]) (use post in auto)
qed

section \<open>The interfaces\<close>

definition raid1_ok :: "'m hw \<Rightarrow> ('m \<Rightarrow> int \<Rightarrow> int \<Rightarrow> block) \<Rightarrow> 'm kstate \<Rightarrow> bool" where
  "raid1_ok h st s \<longleftrightarrow> raid1_inv h st {} s \<and> 2 \<le> DISKS h"

definition raid1_degraded :: "'m hw \<Rightarrow> ('m \<Rightarrow> int \<Rightarrow> int \<Rightarrow> block) \<Rightarrow> int \<Rightarrow> 'm kstate \<Rightarrow> bool" where
  "raid1_degraded h st d s \<longleftrightarrow> raid1_inv h st {d} s \<and> 2 \<le> DISKS h"

interpretation r1: redundant_volume "read_raid1 h" "write_raid1 h" "raid1_vol h st" "raid1_ok h st" "raid1_addr h"
  "disk_fail_raid1 h" "disk_repaired_raid1 h" "raid1_degraded h st" "is_disk h" "disk_loss h st"
  "raid1_ok h st"
  for h :: "'m hw" and st
proof
  fix s b d s' and buf x :: block
  show "wp (read_raid1 h b buf s) (\<lambda>(r, x, s'). r = 0 \<and> x = raid1_vol h st s b \<and> raid1_ok h st s' \<and>
      (\<forall>a. raid1_addr h a \<longrightarrow> raid1_vol h st s' a = raid1_vol h st s a))" if "raid1_ok h st s" "raid1_addr h b"
    using that wp_read_raid1 [of h st "{}" s b buf] by (auto simp: raid1_ok_def elim!: wp_mono)
  show "wp (write_raid1 h b x s) (\<lambda>(r, s'). r = 0 \<and> raid1_ok h st s' \<and>
      (\<forall>a. raid1_addr h a \<longrightarrow> raid1_vol h st s' a = (if a = b then x else raid1_vol h st s a)))"
    if "raid1_ok h st s" "raid1_addr h b" "length x = BSIZE"
    using that wp_write_raid1 [of h st "{}" s b x] by (auto simp: raid1_ok_def elim!: wp_mono)
  show "wp (read_raid1 h b buf s) (\<lambda>(r, x, s'). r = 0 \<and> x = raid1_vol h st s b \<and> raid1_degraded h st d s' \<and>
      (\<forall>a. raid1_addr h a \<longrightarrow> raid1_vol h st s' a = raid1_vol h st s a))" if "raid1_degraded h st d s" "raid1_addr h b"
    using that wp_read_raid1 [of h st "{d}" s b buf] by (auto simp: raid1_degraded_def elim!: wp_mono)
  show "wp (disk_fail_raid1 h d s) (\<lambda>(r, s'). r = 0 \<and> raid1_degraded h st d s' \<and>
      (\<forall>a. raid1_addr h a \<longrightarrow> raid1_vol h st s' a = raid1_vol h st s a))" if "raid1_ok h st s" "is_disk h d"
    using that wp_disk_fail_raid1 [of h st "{}" s d "if d = 1 then 2 else 1"]
    by (auto simp: raid1_ok_def raid1_degraded_def is_disk_def elim!: wp_mono split: if_splits)
  show "raid1_degraded h st d s' \<and> (\<forall>a. raid1_addr h a \<longrightarrow> raid1_vol h st s' a = raid1_vol h st s a)"
    if "raid1_degraded h st d s" "is_disk h d" "disk_loss h st d s s'"
    using that raid1_loss [of h st "{d}" s d s'] by (simp add: raid1_degraded_def is_disk_def)
  show "wp (disk_repaired_raid1 h d s) (\<lambda>(r, s'). r = 0 \<and> raid1_ok h st s' \<and>
      (\<forall>a. raid1_addr h a \<longrightarrow> raid1_vol h st s' a = raid1_vol h st s a))" if "raid1_degraded h st d s" "is_disk h d"
    using that wp_disk_repaired_raid1 [of h st "{d}" s d]
    by (auto simp: raid1_ok_def raid1_degraded_def is_disk_def elim!: wp_mono)
qed

end
