(* ===== verification/Raid01.thy ===== *)
theory Raid01
  imports Raid_Volume Ram_Disk
begin

text \<open>
  RAID level 0+1 of \<^verbatim>\<open>kernel/raid.c\<close>: the blocks are striped over pairs of disks \<open>2g + 1\<close>, \<open>2g + 2\<close>
  that mirror each other. Block 0 of each disk is its metadata.
\<close>

section \<open>Operations\<close>

definition init_raid01 :: "'m hw \<Rightarrow> 'm kstate \<Rightarrow> (int \<times> 'm kstate) res" where
  "init_raid01 h s =
     (if DISKS h mod 2 \<noteq> 0 \<or> DISKS h < 4 then Inr (-1, s)
      else kbind (init_disks h \<lparr>raid_type = RAID0_1, working = 1\<rparr> s) (\<lambda>s.
           Inr (0, s\<lparr>raid_data_cache_loaded := 1\<rparr>)))"

text \<open>Disk and block of a logical block; with a single disk the division by zero is undefined.\<close>

definition raid01_place :: "'m hw \<Rightarrow> int \<Rightarrow> (int \<times> int) res" where
  "raid01_place h blkn =
     (let logical_disks = int (DISKS h) sdiv 2 in
      if logical_disks = 0 then Inl BadAccess
      else let group_number = blkn smod logical_disks in
           Inr (group_number * 2 + 1, i32 (blkn sdiv logical_disks + 1)))"

definition read_raid01 :: "'m hw \<Rightarrow> int \<Rightarrow> block \<Rightarrow> 'm kstate \<Rightarrow> (int \<times> block \<times> 'm kstate) res" where
  "read_raid01 h blkn dat s =
     kbind (load_raid_data_cache h s) (\<lambda>s.
     kbind (raid01_place h blkn) (\<lambda>(diskn, blockn).
     if blockn > int (NUMBER_OF_BLOCKS h) - 1 then Inr (-1, dat, s)
     else kbind (cache_get (diskn - 1) s) (\<lambda>rd.
          if working rd = 1
          then kbind (read_blk h diskn blockn s) (\<lambda>(dat, s). Inr (0, dat, s))
          else kbind (cache_get diskn s) (\<lambda>rd'.
               if working rd' = 1
               then kbind (read_blk h (diskn + 1) blockn s) (\<lambda>(dat, s). Inr (0, dat, s))
               else Inr (-2, dat, s)))))"

definition write_raid01 :: "'m hw \<Rightarrow> int \<Rightarrow> block \<Rightarrow> 'm kstate \<Rightarrow> (int \<times> 'm kstate) res" where
  "write_raid01 h blkn dat s =
     kbind (load_raid_data_cache h s) (\<lambda>s.
     kbind (raid01_place h blkn) (\<lambda>(diskn, blockn).
     if blockn > int (NUMBER_OF_BLOCKS h) - 1 then Inr (-1, s)
     else kbind (cache_get (diskn - 1) s) (\<lambda>rd.
          kbind (if working rd = 1 then kbind (write_blk h diskn blockn dat s) (\<lambda>s. Inr (True, s)) else Inr (False, s)) (\<lambda>(write, s).
          kbind (cache_get diskn s) (\<lambda>rd'.
          kbind (if working rd' = 1 then kbind (write_blk h (diskn + 1) blockn dat s) (\<lambda>s. Inr (True, s)) else Inr (write, s)) (\<lambda>(write, s).
          Inr (if write then 0 else -2, s)))))))"

definition disk_fail_raid01 :: "'m hw \<Rightarrow> int \<Rightarrow> 'm kstate \<Rightarrow> (int \<times> 'm kstate) res" where
  "disk_fail_raid01 h diskn s =
     (if diskn < 1 \<or> diskn > int (DISKS h) then Inr (-1, s)
      else kbind (load_raid_data_cache h s) (\<lambda>s.
           kbind (cache_get (diskn - 1) s) (\<lambda>rd.
           if working rd = 0 then Inr (-1, s)
           else kbind (store_working h diskn 0 (stack_junk h) s) (\<lambda>s. Inr (0, s)))))"

text \<open>The copy loop, with the last block read left in \<^verbatim>\<open>buffer\<close>.\<close>

definition copy_disk :: "'m hw \<Rightarrow> int \<Rightarrow> int \<Rightarrow> int list \<Rightarrow> block \<Rightarrow> 'm kstate \<Rightarrow> (block \<times> 'm kstate) res" where
  "copy_disk h src dst bs buffer s =
     kfold (\<lambda>b (buffer, s). kbind (read_blk h src b s) (\<lambda>(buffer, s).
                             kbind (write_blk h dst b buffer s) (\<lambda>s. Inr (buffer, s)))) bs (buffer, s)"

definition disk_repaired_raid01 :: "'m hw \<Rightarrow> int \<Rightarrow> 'm kstate \<Rightarrow> (int \<times> 'm kstate) res" where
  "disk_repaired_raid01 h diskn s =
     kbind (load_raid_data_cache h s) (\<lambda>s.
     let disk_to_copy_from = (if diskn smod 2 \<noteq> 0 then i32 (diskn + 1) else i32 (diskn - 1)) in
     kbind (cache_get (disk_to_copy_from - 1) s) (\<lambda>rd.
     if working rd = 0 then Inr (-1, s)
     else kbind (copy_disk h disk_to_copy_from diskn [0..int (NUMBER_OF_BLOCKS h) - 1] (stack_junk h) s) (\<lambda>(buffer, s).
          kbind (store_working h diskn 1 buffer s) (\<lambda>s. Inr (0, s)))))"

definition info_raid01 :: "'m hw \<Rightarrow> int \<times> uint32 \<times> uint32 \<times> uint32" where
  "info_raid01 h = (0, word_of_int (int (DISKS h) div 2 * (int (NUMBER_OF_BLOCKS h) - 1)), of_nat BSIZE, of_nat (DISKS h))"

definition destroy_raid01 :: "'m hw \<Rightarrow> 'm kstate \<Rightarrow> (int \<times> 'm kstate) res" where
  "destroy_raid01 h s =
     kbind (write_blk h 1 0 zero_block s) (\<lambda>s.
     kbind (write_blk h 2 0 zero_block s) (\<lambda>s. Inr (0, s)))"

lemma wp_copy_disk [wp_rules]:
  assumes ok: "drv_ok h st (vs s)" and src: "1 \<le> src" "src \<le> int (DISKS h)" and dst: "1 \<le> dst" "dst \<le> int (DISKS h)"
    and ne: "src \<noteq> dst" and bs: "set bs \<subseteq> {0..<int (NUMBER_OF_BLOCKS h)}" and buf: "length buffer = BSIZE"
    and Q: "\<And>v buffer. drv_ok h st v \<Longrightarrow> length buffer = BSIZE \<Longrightarrow>
      st (media v) = (\<lambda>k b. if k = dst \<and> b \<in> set bs then blk st s src b else blk st s k b) \<Longrightarrow> Q (buffer, s\<lparr>vs := v\<rparr>)"
  shows "wp (copy_disk h src dst bs buffer s) Q"
proof -
  let ?f = "\<lambda>b (buffer, s). kbind (read_blk h src b s) (\<lambda>(buffer, s).
                             kbind (write_blk h dst b buffer s) (\<lambda>s. Inr (buffer, s)))"
  let ?P = "\<lambda>pre (buffer, t). length buffer = BSIZE \<and> (\<exists>v. drv_ok h st v \<and>
              st (media v) = (\<lambda>k b. if k = dst \<and> b \<in> set pre then blk st s src b else blk st s k b) \<and> t = s\<lparr>vs := v\<rparr>)"
  have "wp (kfold ?f bs (buffer, s)) (?P bs)"
  proof (rule wp_kfold [where P = ?P])
    show "?P [] (buffer, s)" using ok buf by (auto intro!: exI [of _ "vs s"])
  next
    fix pre b rest t
    assume split: "bs = pre @ b # rest" and "?P pre t"
    then obtain v buffer' where v: "drv_ok h st v"
      "st (media v) = (\<lambda>k b. if k = dst \<and> b \<in> set pre then blk st s src b else blk st s k b)"
      and t: "t = (buffer', s\<lparr>vs := v\<rparr>)" by (cases t) auto
    have b: "0 \<le> b" "b < int (NUMBER_OF_BLOCKS h)" using bs split by auto
    have val: "raid_block h src b" "raid_block h dst b" using b src dst by (simp_all add: raid_block_def)
    have "length (blk st s src b) = BSIZE" using length_blk [OF ok val(1)] .
    then show "wp (?f b t) (?P (pre @ [b]))"
      using v val ne by (auto simp: t fun_eq_iff intro!: wp_read_blk [of h st] wp_write_blk [of h st] exI)
  qed
  then show ?thesis
    unfolding copy_disk_def by (rule wp_mono) (use Q in auto)
qed

section \<open>The striped mirror\<close>

definition raid01_slot :: "'m hw \<Rightarrow> int \<Rightarrow> int \<times> int" where
  "raid01_slot h a = (let l = int (DISKS h) div 2 in (a mod l * 2 + 1, a div l + 1))"

definition raid01_addr :: "'m hw \<Rightarrow> int \<Rightarrow> bool" where
  "raid01_addr h a \<longleftrightarrow> 0 \<le> a \<and> snd (raid01_slot h a) < int (NUMBER_OF_BLOCKS h)"

text \<open>The first disk of the pair of disk \<open>k\<close>, and the other disk of the pair.\<close>

definition pair_of :: "int \<Rightarrow> int" where
  "pair_of k = (if odd k then k else k - 1)"

definition mate :: "int \<Rightarrow> int" where
  "mate k = (if odd k then k + 1 else k - 1)"

definition pair_blk :: "'m hw \<Rightarrow> ('m \<Rightarrow> int \<Rightarrow> int \<Rightarrow> block) \<Rightarrow> 'm kstate \<Rightarrow> int \<Rightarrow> int \<Rightarrow> block" where
  "pair_blk h st s d b = blk st s (if working (loaded_cache h st s ! nat (d - 1)) = 1 then d else d + 1) b"

definition raid01_vol :: "'m hw \<Rightarrow> ('m \<Rightarrow> int \<Rightarrow> int \<Rightarrow> block) \<Rightarrow> 'm kstate \<Rightarrow> int \<Rightarrow> block" where
  "raid01_vol h st s a = (case raid01_slot h a of (d, b) \<Rightarrow> pair_blk h st s d b)"

text \<open>The disks in \<open>F\<close> have failed, the others work, each pair has one, and pairs agree.\<close>

definition raid01_inv :: "'m hw \<Rightarrow> ('m \<Rightarrow> int \<Rightarrow> int \<Rightarrow> block) \<Rightarrow> int set \<Rightarrow> 'm kstate \<Rightarrow> bool" where
  "raid01_inv h st F s \<longleftrightarrow>
     kst_ok h st s \<and> even (DISKS h) \<and>
     (\<forall>k \<in> set (raid_disks h). working (loaded_cache h st s ! nat (k - 1)) = (if k \<in> F then 0 else 1)) \<and>
     (\<forall>k \<in> set (raid_disks h). k \<in> F \<longrightarrow> mate k \<notin> F) \<and>
     (\<forall>k \<in> set (raid_disks h) - F. \<forall>b. 1 \<le> b \<longrightarrow> b < int (NUMBER_OF_BLOCKS h) \<longrightarrow>
        mate k \<notin> F \<longrightarrow> blk st s (mate k) b = blk st s k b)"

lemma raid01_invD:
  assumes "raid01_inv h st F s"
  shows "kst_ok h st s" and "even (DISKS h)"
    and "\<And>k. 1 \<le> k \<Longrightarrow> k \<le> int (DISKS h) \<Longrightarrow> working (loaded_cache h st s ! nat (k - 1)) = (if k \<in> F then 0 else 1)"
    and "\<And>k. 1 \<le> k \<Longrightarrow> k \<le> int (DISKS h) \<Longrightarrow> k \<in> F \<Longrightarrow> mate k \<notin> F"
    and "\<And>k b. 1 \<le> k \<Longrightarrow> k \<le> int (DISKS h) \<Longrightarrow> k \<notin> F \<Longrightarrow> mate k \<notin> F \<Longrightarrow> 1 \<le> b \<Longrightarrow> b < int (NUMBER_OF_BLOCKS h) \<Longrightarrow>
          blk st s (mate k) b = blk st s k b"
  using assms by (auto simp: raid01_inv_def)

lemma mate_mate [simp]: "mate (mate k) = k"
  by (simp add: mate_def)

lemma mate_range:
  assumes "even (DISKS h)" "1 \<le> k" "k \<le> int (DISKS h)"
  shows "1 \<le> mate k" "mate k \<le> int (DISKS h)"
proof -
  have "even (int (DISKS h))" using assms(1) by simp
  then have "odd k \<Longrightarrow> k \<noteq> int (DISKS h)" by auto
  moreover have "even k \<Longrightarrow> k \<noteq> 1" by auto
  ultimately show "1 \<le> mate k" "mate k \<le> int (DISKS h)" using assms(2,3) by (auto simp: mate_def)
qed

lemma mate_ne [simp]: "mate k \<noteq> k" "k \<noteq> mate k"
  by (simp_all add: mate_def)

lemma pair_cases: "odd d \<Longrightarrow> pair_of k = d \<longleftrightarrow> k = d \<or> k = d + 1"
  by (auto simp: pair_of_def)

lemma pair_of_mate [simp]: "pair_of (mate k) = pair_of k"
  by (simp add: pair_of_def mate_def)

lemma pair_blk_eq:
  assumes inv: "raid01_inv h st F s" and k: "1 \<le> k" "k \<le> int (DISKS h)" "k \<notin> F"
    and b: "1 \<le> b" "b < int (NUMBER_OF_BLOCKS h)"
  shows "pair_blk h st s (pair_of k) b = blk st s k b"
proof (cases "odd k")
  case True
  then have p: "pair_of k = k" by (simp add: pair_of_def)
  show ?thesis using raid01_invD(3) [OF inv k(1,2)] k(3) unfolding p by (simp add: pair_blk_def)
next
  case False
  then have p: "pair_of k = mate k" "mate k + 1 = k" by (simp_all add: pair_of_def mate_def)
  note r = mate_range [OF raid01_invD(2) [OF inv] k(1,2)]
  show ?thesis
    using raid01_invD(3) [OF inv r] raid01_invD(5) [OF inv k _ b] unfolding p(1) by (simp add: pair_blk_def p(2))
qed

lemma raid01_step:
  assumes inv: "raid01_inv h st F s" and ok: "kst_ok h st s'"
    and cache: "\<And>k. 1 \<le> k \<Longrightarrow> k \<le> int (DISKS h) \<Longrightarrow> working (loaded_cache h st s' ! nat (k - 1)) = (if k \<in> F' then 0 else 1)"
    and surv: "\<And>k. 1 \<le> k \<Longrightarrow> k \<le> int (DISKS h) \<Longrightarrow> k \<in> F' \<Longrightarrow> mate k \<notin> F'"
    and data: "\<And>k b. 1 \<le> k \<Longrightarrow> k \<le> int (DISKS h) \<Longrightarrow> k \<notin> F' \<Longrightarrow> 1 \<le> b \<Longrightarrow> b < int (NUMBER_OF_BLOCKS h) \<Longrightarrow>
      blk st s' k b = f (pair_of k) b"
  shows "raid01_inv h st F' s'"
    and "odd d \<Longrightarrow> 1 \<le> d \<Longrightarrow> d < int (DISKS h) \<Longrightarrow> 1 \<le> b \<Longrightarrow> b < int (NUMBER_OF_BLOCKS h) \<Longrightarrow> pair_blk h st s' d b = f d b"
proof -
  note ev = raid01_invD(2) [OF inv]
  have agree: "blk st s' (mate k) b = blk st s' k b"
    if "1 \<le> k" "k \<le> int (DISKS h)" "k \<notin> F'" "mate k \<notin> F'" "1 \<le> b" "b < int (NUMBER_OF_BLOCKS h)" for k b
    using data [OF that(1-3,5,6)] data [OF mate_range [OF ev that(1,2)] that(4-6)] by simp
  show *: "raid01_inv h st F' s'"
    unfolding raid01_inv_def using ok ev cache surv agree by auto
  show "pair_blk h st s' d b = f d b"
    if d: "odd d" "1 \<le> d" "d < int (DISKS h)" and b: "1 \<le> b" "b < int (NUMBER_OF_BLOCKS h)"
  proof -
    obtain k where k: "k = d \<or> k = mate d" "k \<notin> F'" using surv [of d] d by auto
    have "pair_of k = d" "1 \<le> k" "k \<le> int (DISKS h)"
      using k(1) d mate_range [OF ev, of d] by (auto simp: pair_of_def mate_def)
    then show ?thesis using pair_blk_eq [OF * _ _ k(2) b] data [OF _ _ k(2) b] by simp
  qed
qed

lemma raid01_half:
  assumes "hw_ok h" "even (DISKS h)"
  shows "0 < int (DISKS h) div 2" "int (DISKS h) div 2 * 2 = int (DISKS h)"
  using assms disks_pos [of h] by (auto elim!: evenE)

lemma raid01_slot_valid:
  assumes "hw_ok h" "even (DISKS h)" "raid01_addr h a" "raid01_slot h a = (d, b)"
  shows "raid01_place h a = Inr (d, b)" "odd d" "1 \<le> d" "d < int (DISKS h)" "1 \<le> b" "b < int (NUMBER_OF_BLOCKS h)"
proof -
  let ?l = "int (DISKS h) div 2"
  note l = raid01_half [OF assms(1,2)]
  have db: "d = a mod ?l * 2 + 1" "b = a div ?l + 1" using assms(4) by (auto simp: raid01_slot_def Let_def)
  have a: "0 \<le> a" "b < int (NUMBER_OF_BLOCKS h)" using assms(3,4) by (auto simp: raid01_addr_def)
  have q: "0 \<le> a div ?l" "0 \<le> a mod ?l" "a mod ?l < ?l" using a(1) l(1) by (simp_all add: pos_imp_zdiv_nonneg_iff)
  show "odd d" "1 \<le> d" "1 \<le> b" "b < int (NUMBER_OF_BLOCKS h)" using db q a by simp_all
  show "d < int (DISKS h)" using db(1) q(3) l(2) by linarith
  show "raid01_place h a = Inr (d, b)"
    using a l(1) q(1) blocks_bound [OF assms(1)] db by (simp add: raid01_place_def Let_def)
qed

lemma raid01_slot_inj: "raid01_slot h a = raid01_slot h a' \<Longrightarrow> a = a'"
proof -
  assume "raid01_slot h a = raid01_slot h a'"
  then have "a mod (int (DISKS h) div 2) = a' mod (int (DISKS h) div 2)" "a div (int (DISKS h) div 2) = a' div (int (DISKS h) div 2)"
    by (simp_all add: raid01_slot_def Let_def)
  then show ?thesis by (metis div_mult_mod_eq)
qed

lemma wp_read_raid01:
  assumes inv: "raid01_inv h st F s" and a: "raid01_addr h a"
  shows "wp (read_raid01 h a dat s) (\<lambda>(r, x, s'). r = 0 \<and> x = raid01_vol h st s a \<and>
    (\<exists>v. s' = s\<lparr>vs := v, raid_data_cache := loaded_cache h st s\<rparr> \<and> drv_ok h st v \<and> st (media v) = blk st s))"
proof -
  note ok = raid01_invD(1) [OF inv] and fl = raid01_invD(3) [OF inv]
  obtain d b where db: "raid01_slot h a = (d, b)" by force
  note sl = raid01_slot_valid [OF kst_okD(2) [OF ok] raid01_invD(2) [OF inv] a db]
  have m: "mate d = d + 1" using sl(2) by (simp add: mate_def)
  have val: "raid_block h d b" "raid_block h (d + 1) b" using sl by (simp_all add: raid_block_def)
  have get: "cache_get d (s\<lparr>vs := v, raid_data_cache := loaded_cache h st s\<rparr>) = Inr (loaded_cache h st s ! nat d)" for v
    using cache_get_ok [of "d + 1" "s\<lparr>vs := v, raid_data_cache := loaded_cache h st s\<rparr>"] sl ok by simp
  have w: "working (loaded_cache h st s ! nat (d - 1)) = (if d \<in> F then 0 else 1)"
    "working (loaded_cache h st s ! nat d) = (if d + 1 \<in> F then 0 else 1)" "d \<in> F \<Longrightarrow> d + 1 \<notin> F"
    using fl [of d] fl [of "d + 1"] raid01_invD(4) [OF inv, of d] sl m by simp_all
  show ?thesis
    unfolding read_raid01_def wp_kbind [of "load_raid_data_cache h s"]
    by (rule wp_load_raid_data_cache [OF ok])
      (use sl ok val w in \<open>auto simp: get raid01_vol_def db pair_blk_def intro!: wp_read_blk [of h st]\<close>)
qed

lemma raid01_keep:
  assumes inv: "raid01_inv h st F s" and v: "drv_ok h st v" "st (media v) = blk st s"
  shows "raid01_inv h st F (s\<lparr>vs := v, raid_data_cache := loaded_cache h st s\<rparr>)"
    and "raid01_vol h st (s\<lparr>vs := v, raid_data_cache := loaded_cache h st s\<rparr>) b = raid01_vol h st s b"
  using raid01_invD [OF inv] v(1)
  by (auto simp: raid01_inv_def raid01_vol_def pair_blk_def loaded_cache_same [where st = st, OF v(2)] v(2) split: prod.splits)

text \<open>The content of the volume after an operation, from the content of the pairs.\<close>

lemma raid01_vol_step:
  assumes "hw_ok h" "even (DISKS h)" "raid01_addr h a"
    and "\<And>d b. odd d \<Longrightarrow> 1 \<le> d \<Longrightarrow> d < int (DISKS h) \<Longrightarrow> 1 \<le> b \<Longrightarrow> b < int (NUMBER_OF_BLOCKS h) \<Longrightarrow> pair_blk h st s' d b = f d b"
  shows "raid01_vol h st s' a = (case raid01_slot h a of (d, b) \<Rightarrow> f d b)"
proof -
  obtain d b where db: "raid01_slot h a = (d, b)" by force
  show ?thesis using raid01_slot_valid [OF assms(1-3) db] assms(4) [of d b] by (simp add: raid01_vol_def db)
qed

lemma wp_write_raid01_run:
  assumes inv: "raid01_inv h st F s" and a: "raid01_addr h a" and x: "length x = BSIZE" and db: "raid01_slot h a = (d, b)"
  shows "wp (write_raid01 h a x s) (\<lambda>(r, s'). r = 0 \<and>
    (\<exists>v. s' = s\<lparr>vs := v, raid_data_cache := loaded_cache h st s\<rparr> \<and> drv_ok h st v \<and>
         st (media v) = (\<lambda>k c. if c = b \<and> (k = d \<or> k = d + 1) \<and> k \<notin> F then x else blk st s k c)))"
proof -
  note ok = raid01_invD(1) [OF inv] and fl = raid01_invD(3) [OF inv]
  note sl = raid01_slot_valid [OF kst_okD(2) [OF ok] raid01_invD(2) [OF inv] a db]
  have m: "mate d = d + 1" using sl(2) by (simp add: mate_def)
  have val: "raid_block h d b" "raid_block h (d + 1) b" using sl by (simp_all add: raid_block_def)
  have get: "cache_get d (s\<lparr>vs := v, raid_data_cache := loaded_cache h st s\<rparr>) = Inr (loaded_cache h st s ! nat d)" for v
    using cache_get_ok [of "d + 1" "s\<lparr>vs := v, raid_data_cache := loaded_cache h st s\<rparr>"] sl ok by simp
  have w: "working (loaded_cache h st s ! nat (d - 1)) = (if d \<in> F then 0 else 1)"
    "working (loaded_cache h st s ! nat d) = (if d + 1 \<in> F then 0 else 1)" "d \<in> F \<Longrightarrow> d + 1 \<notin> F"
    using fl [of d] fl [of "d + 1"] raid01_invD(4) [OF inv, of d] sl m by simp_all
  consider "d \<notin> F" "d + 1 \<notin> F" | "d \<notin> F" "d + 1 \<in> F" | "d \<in> F" "d + 1 \<notin> F" using w(3) by blast
  then show ?thesis
    unfolding write_raid01_def wp_kbind [of "load_raid_data_cache h s"]
    by cases (rule wp_load_raid_data_cache [OF ok],
      use sl ok val w x in \<open>auto simp: get fun_eq_iff intro!: wp_write_blk [of h st] ex_vs\<close>)+
qed

lemma wp_write_raid01:
  assumes inv: "raid01_inv h st F s" and a: "raid01_addr h a" and x: "length x = BSIZE"
  shows "wp (write_raid01 h a x s) (\<lambda>(r, s'). r = 0 \<and> raid01_inv h st F s' \<and>
    (\<forall>c. raid01_addr h c \<longrightarrow> raid01_vol h st s' c = (if c = a then x else raid01_vol h st s c)))"
proof -
  note ok = raid01_invD(1) [OF inv] and fl = raid01_invD(3) [OF inv]
  note hw = kst_okD(2) [OF ok] and ev = raid01_invD(2) [OF inv]
  obtain d b where db: "raid01_slot h a = (d, b)" by force
  note sl = raid01_slot_valid [OF hw ev a db]
  from wp_write_raid01_run [OF inv a x db] show ?thesis
  proof (rule wp_mono, clarify, intro conjI allI impI refl)
    fix v
    let ?s = "s\<lparr>vs := v, raid_data_cache := loaded_cache h st s\<rparr>"
    assume v: "drv_ok h st v" "st (media v) = (\<lambda>k c. if c = b \<and> (k = d \<or> k = d + 1) \<and> k \<notin> F then x else blk st s k c)"
    have ok': "kst_ok h st ?s" using ok v(1) by simp
    have cache: "loaded_cache h st ?s = loaded_cache h st s"
      by (rule loaded_cache_keep) (use v sl in auto)
    have data: "1 \<le> k \<Longrightarrow> k \<le> int (DISKS h) \<Longrightarrow> k \<notin> F \<Longrightarrow> 1 \<le> c \<Longrightarrow> c < int (NUMBER_OF_BLOCKS h) \<Longrightarrow>
        blk st ?s k c = (if c = b \<and> pair_of k = d then x else pair_blk h st s (pair_of k) c)" for k c
      using pair_blk_eq [OF inv, of k c] v pair_cases [OF sl(2), of k] by auto
    note step = raid01_step [where F' = F and f = "\<lambda>p c. if c = b \<and> p = d then x else pair_blk h st s p c", OF inv ok' _ _ data]
    show "raid01_inv h st F ?s"
      by (rule step(1)) (use fl cache raid01_invD(4) [OF inv] in auto)
    have pair: "odd p \<Longrightarrow> 1 \<le> p \<Longrightarrow> p < int (DISKS h) \<Longrightarrow> 1 \<le> c \<Longrightarrow> c < int (NUMBER_OF_BLOCKS h) \<Longrightarrow>
        pair_blk h st ?s p c = (if c = b \<and> p = d then x else pair_blk h st s p c)" for p c
      by (rule step(2)) (use fl cache raid01_invD(4) [OF inv] in auto)
    fix c
    assume c: "raid01_addr h c"
    have "raid01_slot h c = (d, b) \<longleftrightarrow> c = a" using raid01_slot_inj [of h c a] db by auto
    then show "raid01_vol h st ?s c = (if c = a then x else raid01_vol h st s c)"
      using raid01_vol_step [OF hw ev c pair] by (auto simp: raid01_vol_def split: prod.splits)
  qed
qed

lemma wp_disk_fail_raid01:
  assumes inv: "raid01_inv h st F s" and d: "1 \<le> d" "d \<le> int (DISKS h)" "d \<notin> F" "mate d \<notin> F"
  shows "wp (disk_fail_raid01 h d s) (\<lambda>(r, s'). r = 0 \<and> raid01_inv h st (insert d F) s' \<and>
    (\<forall>c. raid01_addr h c \<longrightarrow> raid01_vol h st s' c = raid01_vol h st s c))"
proof -
  note ok = raid01_invD(1) [OF inv] and fl = raid01_invD(3) [OF inv]
  note hw = kst_okD(2) [OF ok] and ev = raid01_invD(2) [OF inv]
  let ?rd = "(loaded_cache h st s ! nat (d - 1))\<lparr>working := 0\<rparr>"
  have "wp (disk_fail_raid01 h d s) (\<lambda>(r, s'). r = 0 \<and> (\<exists>v. drv_ok h st v \<and>
      st (media v) = blk_upd (blk st s) d 0 (serialize (raid_bytes h ?rd) raid_data_size (stack_junk h)) \<and>
      s' = s\<lparr>vs := v, raid_data_cache := (loaded_cache h st s)[nat (d - 1) := ?rd]\<rparr>))"
    unfolding disk_fail_raid01_def using ok d fl [OF d(1,2)]
    by (auto intro!: wp_load_raid_data_cache [OF ok] wp_store_working [of h st] exI)
  then show ?thesis
  proof (rule wp_mono, clarify, intro conjI allI impI refl)
    fix v
    let ?s = "s\<lparr>vs := v, raid_data_cache := (loaded_cache h st s)[nat (d - 1) := ?rd]\<rparr>"
    assume v: "drv_ok h st v"
      "st (media v) = blk_upd (blk st s) d 0 (serialize (raid_bytes h ?rd) raid_data_size (stack_junk h))"
    have ok': "kst_ok h st ?s" using ok v(1) by simp
    have "loaded_cache h st ?s = (loaded_cache h st s)[nat (d - 1) := ?rd]"
      by (rule loaded_cache_store [OF _ ok d(1,2)]) (use v ok in auto)
    then have cache: "1 \<le> k \<Longrightarrow> k \<le> int (DISKS h) \<Longrightarrow> working (loaded_cache h st ?s ! nat (k - 1)) =
        (if k \<in> insert d F then 0 else 1)" for k
      using fl [of k] d ok by (auto simp: nth_list_update nat_less_iff)
    have surv: "1 \<le> k \<Longrightarrow> k \<le> int (DISKS h) \<Longrightarrow> k \<in> insert d F \<Longrightarrow> mate k \<notin> insert d F" for k
      using raid01_invD(4) [OF inv, of k] d by (metis insert_iff mate_mate mate_ne(1))
    have data: "1 \<le> k \<Longrightarrow> k \<le> int (DISKS h) \<Longrightarrow> k \<notin> insert d F \<Longrightarrow> 1 \<le> c \<Longrightarrow> c < int (NUMBER_OF_BLOCKS h) \<Longrightarrow>
        blk st ?s k c = pair_blk h st s (pair_of k) c" for k c
      using pair_blk_eq [OF inv, of k c] v by simp
    note step = raid01_step [where f = "pair_blk h st s", OF inv ok' cache surv data]
    show "raid01_inv h st (insert d F) ?s" by (rule step(1))
    show "raid01_vol h st ?s c = raid01_vol h st s c" if "raid01_addr h c" for c
      using raid01_vol_step [OF hw ev that step(2)] by (simp add: raid01_vol_def)
  qed
qed

lemma raid01_loss:
  assumes inv: "raid01_inv h st F s" and d: "1 \<le> d" "d \<le> int (DISKS h)" "d \<in> F" and loss: "disk_loss h st d s s'"
  shows "raid01_inv h st F s'" and "raid01_addr h b \<Longrightarrow> raid01_vol h st s' b = raid01_vol h st s b"
proof -
  note ok = raid01_invD(1) [OF inv] and fl = raid01_invD(3) [OF inv]
  have ok': "kst_ok h st s'" by (rule disk_loss_ok [OF loss ok])
  have cache: "1 \<le> k \<Longrightarrow> k \<le> int (DISKS h) \<Longrightarrow> working (loaded_cache h st s' ! nat (k - 1)) = (if k \<in> F then 0 else 1)" for k
    using disk_loss_cache [OF loss, of k] disk_loss_failed [OF loss] fl [of k] fl [OF d(1,2)] d by (cases "k = d") auto
  have data: "1 \<le> k \<Longrightarrow> k \<le> int (DISKS h) \<Longrightarrow> k \<notin> F \<Longrightarrow> 1 \<le> c \<Longrightarrow> c < int (NUMBER_OF_BLOCKS h) \<Longrightarrow>
      blk st s' k c = pair_blk h st s (pair_of k) c" for k c
    using pair_blk_eq [OF inv, of k c] loss d(3) by (auto simp: disk_loss_def)
  note step = raid01_step [where f = "pair_blk h st s", OF inv ok' cache raid01_invD(4) [OF inv] data]
  show "raid01_inv h st F s'" by (rule step(1))
  show "raid01_vol h st s' b = raid01_vol h st s b" if "raid01_addr h b"
    using raid01_vol_step [OF kst_okD(2) [OF ok] raid01_invD(2) [OF inv] that step(2)] by (simp add: raid01_vol_def)
qed

lemma wp_disk_repaired_raid01_run:
  assumes ok: "kst_ok h st s" and ev: "even (DISKS h)" and d: "1 \<le> d" "d \<le> int (DISKS h)"
    and w: "working (loaded_cache h st s ! nat (mate d - 1)) \<noteq> 0"
  shows "wp (disk_repaired_raid01 h d s) (\<lambda>(r, s'). r = 0 \<and> (\<exists>v img. drv_ok h st v \<and>
      load_meta h img = (loaded_cache h st s ! nat (d - 1))\<lparr>working := 1\<rparr> \<and>
      st (media v) = blk_upd (\<lambda>k b. if k = d \<and> 0 \<le> b \<and> b < int (NUMBER_OF_BLOCKS h) then blk st s (mate d) b else blk st s k b) d 0 img \<and>
      s' = s\<lparr>vs := v, raid_data_cache := (loaded_cache h st s)
              [nat (d - 1) := (loaded_cache h st s ! nat (d - 1))\<lparr>working := 1\<rparr>]\<rparr>))"
    (is "wp _ ?Q")
proof -
  have from_eq: "(if d smod 2 \<noteq> 0 then i32 (d + 1) else i32 (d - 1)) = mate d"
    using d kst_okD(2) [OF ok] by (auto simp: mate_def hw_ok_def odd_iff_mod_2_eq_one)
  note r = mate_range [OF ev d]
  have "wp (copy_disk h (mate d) d [0..int (NUMBER_OF_BLOCKS h) - 1] (stack_junk h) t)
      (\<lambda>(buffer, s). wp (kbind (store_working h d 1 buffer s) (\<lambda>s. Inr (0, s))) ?Q)"
    if v: "drv_ok h st v" "st (media v) = blk st s" and t: "t = s\<lparr>vs := v, raid_data_cache := loaded_cache h st s\<rparr>" for v t
  proof (rule wp_copy_disk [of h st], unfold prod.case wp_kbind)
    fix v' and buffer :: block
    let ?rd = "(loaded_cache h st s ! nat (d - 1))\<lparr>working := 1\<rparr>"
    assume v': "drv_ok h st v'" and buf: "length buffer = BSIZE"
      and m: "st (media v') = (\<lambda>k b. if k = d \<and> b \<in> set [0..int (NUMBER_OF_BLOCKS h) - 1] then blk st t (mate d) b else blk st t k b)"
    show "wp (store_working h d 1 buffer (t\<lparr>vs := v'\<rparr>)) (\<lambda>x. wp (Inr (0, x)) ?Q)"
    proof (rule wp_store_working [of h st])
      fix u
      assume u: "drv_ok h st u" "st (media u) = blk_upd (blk st (t\<lparr>vs := v'\<rparr>)) d 0
          (serialize (raid_bytes h ((raid_data_cache (t\<lparr>vs := v'\<rparr>) ! nat (d - 1))\<lparr>working := 1\<rparr>)) raid_data_size buffer)"
      show "wp (Inr (0, t\<lparr>vs := v'\<rparr>\<lparr>vs := u, raid_data_cache := (raid_data_cache (t\<lparr>vs := v'\<rparr>))
          [nat (d - 1) := (raid_data_cache (t\<lparr>vs := v'\<rparr>) ! nat (d - 1))\<lparr>working := 1\<rparr>]\<rparr>)) ?Q"
        unfolding wp_Inr prod.case using u v m buf ok t
        by (intro conjI refl exI [of _ u] exI [of _ "serialize (raid_bytes h ?rd) raid_data_size buffer"]) (auto simp: fun_eq_iff)
    qed (use v' d ok t buf in auto)
  qed (use v t r d ok in auto)
  then show ?thesis
    unfolding disk_repaired_raid01_def from_eq Let_def wp_kbind [of "load_raid_data_cache h s"] using r w ok
    by (intro wp_load_raid_data_cache [OF ok]) (auto simp: case_prod_beta' simp del: wp_kbind, simp)
qed

lemma wp_disk_repaired_raid01:
  assumes inv: "raid01_inv h st F s" and d: "1 \<le> d" "d \<le> int (DISKS h)" "d \<in> F"
  shows "wp (disk_repaired_raid01 h d s) (\<lambda>(r, s'). r = 0 \<and> raid01_inv h st (F - {d}) s' \<and>
    (\<forall>b. raid01_addr h b \<longrightarrow> raid01_vol h st s' b = raid01_vol h st s b))"
proof -
  note ok = raid01_invD(1) [OF inv] and fl = raid01_invD(3) [OF inv]
  note hw = kst_okD(2) [OF ok] and ev = raid01_invD(2) [OF inv]
  note r = mate_range [OF ev d(1,2)]
  let ?rd = "(loaded_cache h st s ! nat (d - 1))\<lparr>working := 1\<rparr>"
  have mF: "mate d \<notin> F" using raid01_invD(4) [OF inv d] .
  then have "working (loaded_cache h st s ! nat (mate d - 1)) \<noteq> 0" using fl [OF r] by simp
  from wp_disk_repaired_raid01_run [OF ok ev d(1,2) this]
  show ?thesis
  proof (rule wp_mono, clarify, intro conjI allI impI refl)
    fix v img
    let ?s = "s\<lparr>vs := v, raid_data_cache := (loaded_cache h st s)[nat (d - 1) := ?rd]\<rparr>"
    assume v: "drv_ok h st v" "st (media v) = blk_upd (\<lambda>k b. if k = d \<and> 0 \<le> b \<and> b < int (NUMBER_OF_BLOCKS h)
        then blk st s (mate d) b else blk st s k b) d 0 img" and img: "load_meta h img = ?rd"
    have ok': "kst_ok h st ?s" using ok v(1) by simp
    have "loaded_cache h st ?s = (loaded_cache h st s)[nat (d - 1) := ?rd]"
      by (rule loaded_cache_store [OF _ ok d(1,2)]) (use v img in auto)
    then have cache: "1 \<le> k \<Longrightarrow> k \<le> int (DISKS h) \<Longrightarrow> working (loaded_cache h st ?s ! nat (k - 1)) =
        (if k \<in> F - {d} then 0 else 1)" for k
      using fl [of k] d ok by (auto simp: nth_list_update nat_less_iff)
    have surv: "1 \<le> k \<Longrightarrow> k \<le> int (DISKS h) \<Longrightarrow> k \<in> F - {d} \<Longrightarrow> mate k \<notin> F - {d}" for k
      using raid01_invD(4) [OF inv, of k] by auto
    have data: "1 \<le> k \<Longrightarrow> k \<le> int (DISKS h) \<Longrightarrow> k \<notin> F - {d} \<Longrightarrow> 1 \<le> c \<Longrightarrow> c < int (NUMBER_OF_BLOCKS h) \<Longrightarrow>
        blk st ?s k c = pair_blk h st s (pair_of k) c" for k c
      using pair_blk_eq [OF inv, of k c] pair_blk_eq [OF inv r mF, of c] v by auto
    note step = raid01_step [where f = "pair_blk h st s", OF inv ok' cache surv data]
    show "raid01_inv h st (F - {d}) ?s" by (rule step(1))
    show "raid01_vol h st ?s c = raid01_vol h st s c" if "raid01_addr h c" for c
      using raid01_vol_step [OF hw ev that step(2)] by (simp add: raid01_vol_def)
  qed
qed

text \<open>Both disks of a pair failed: reads and writes of its blocks are refused with -2.\<close>

lemma raid01_pair_failed:
  assumes ok: "kst_ok h st s" and ev: "even (DISKS h)" and a: "raid01_addr h a" and db: "raid01_slot h a = (d, b)"
    and w: "working (loaded_cache h st s ! nat (d - 1)) = 0" "working (loaded_cache h st s ! nat d) = 0"
  shows "wp (read_raid01 h a dat s) (\<lambda>(r, x, s'). r = -2 \<and> x = dat \<and> blk st s' = blk st s)"
    and "wp (write_raid01 h a y s) (\<lambda>(r, s'). r = -2 \<and> blk st s' = blk st s)"
proof -
  note sl = raid01_slot_valid [OF kst_okD(2) [OF ok] ev a db]
  have get: "cache_get d (s\<lparr>vs := v, raid_data_cache := loaded_cache h st s\<rparr>) = Inr (loaded_cache h st s ! nat d)" for v
    using cache_get_ok [of "d + 1" "s\<lparr>vs := v, raid_data_cache := loaded_cache h st s\<rparr>"] sl ok by simp
  show "wp (read_raid01 h a dat s) (\<lambda>(r, x, s'). r = -2 \<and> x = dat \<and> blk st s' = blk st s)"
    "wp (write_raid01 h a y s) (\<lambda>(r, s'). r = -2 \<and> blk st s' = blk st s)"
    unfolding read_raid01_def write_raid01_def wp_kbind [of "load_raid_data_cache h s"]
    by (rule wp_load_raid_data_cache [OF ok], use sl ok w in \<open>auto simp: get\<close>)+
qed

lemma wp_init_raid01:
  assumes ok: "kst_ok h st s" and D: "even (DISKS h)" "4 \<le> DISKS h"
  shows "wp (init_raid01 h s) (\<lambda>(r, s'). r = 0 \<and> kst_ok h st s' \<and> raid_data_cache_loaded s' = 1 \<and>
    loaded_cache h st s' = replicate (DISKS h) \<lparr>raid_type = RAID0_1, working = 1\<rparr> \<and>
    (\<forall>k b. b \<noteq> 0 \<longrightarrow> blk st s' k b = blk st s k b))"
proof -
  have "kst_ok h st (s\<lparr>vs := v, raid_data_cache := replicate (DISKS h) rd, raid_data_cache_loaded := 1\<rparr>)"
    if "drv_ok h st v" for v rd
    using that kst_okD(4) [OF ok] unfolding kst_ok_def by simp
  then show ?thesis
    unfolding init_raid01_def using D by (auto simp: loaded_cache_def intro!: wp_init_disks [OF ok])
qed

section \<open>The interfaces\<close>

interpretation r01: redundant_volume "read_raid01 h" "write_raid01 h" "raid01_vol h st" "raid01_inv h st {}" "raid01_addr h"
  "disk_fail_raid01 h" "disk_repaired_raid01 h" "\<lambda>d. raid01_inv h st {d}" "is_disk h" "disk_loss h st"
  "raid01_inv h st {}"
  for h :: "'m hw" and st
proof
  fix s b d s' and buf x :: block
  show "wp (read_raid01 h b buf s) (\<lambda>(r, x, s'). r = 0 \<and> x = raid01_vol h st s b \<and> raid01_inv h st {} s' \<and>
      (\<forall>a. raid01_addr h a \<longrightarrow> raid01_vol h st s' a = raid01_vol h st s a))" if "raid01_inv h st {} s" "raid01_addr h b"
    using wp_read_raid01 [OF that, of buf] by (rule wp_mono) (use raid01_keep [OF that(1)] in auto)
  show "wp (write_raid01 h b x s) (\<lambda>(r, s'). r = 0 \<and> raid01_inv h st {} s' \<and>
      (\<forall>a. raid01_addr h a \<longrightarrow> raid01_vol h st s' a = (if a = b then x else raid01_vol h st s a)))"
    if "raid01_inv h st {} s" "raid01_addr h b" "length x = BSIZE"
    by (rule wp_write_raid01 [OF that])
  show "wp (read_raid01 h b buf s) (\<lambda>(r, x, s'). r = 0 \<and> x = raid01_vol h st s b \<and> raid01_inv h st {d} s' \<and>
      (\<forall>a. raid01_addr h a \<longrightarrow> raid01_vol h st s' a = raid01_vol h st s a))" if "raid01_inv h st {d} s" "raid01_addr h b"
    using wp_read_raid01 [OF that, of buf] by (rule wp_mono) (use raid01_keep [OF that(1)] in auto)
  show "wp (disk_fail_raid01 h d s) (\<lambda>(r, s'). r = 0 \<and> raid01_inv h st {d} s' \<and>
      (\<forall>a. raid01_addr h a \<longrightarrow> raid01_vol h st s' a = raid01_vol h st s a))" if "raid01_inv h st {} s" "is_disk h d"
    using that wp_disk_fail_raid01 [of h st "{}" s d] by (simp add: is_disk_def)
  show "raid01_inv h st {d} s' \<and> (\<forall>a. raid01_addr h a \<longrightarrow> raid01_vol h st s' a = raid01_vol h st s a)"
    if "raid01_inv h st {d} s" "is_disk h d" "disk_loss h st d s s'"
    using that raid01_loss [of h st "{d}" s d s'] by (simp add: is_disk_def)
  show "wp (disk_repaired_raid01 h d s) (\<lambda>(r, s'). r = 0 \<and> raid01_inv h st {} s' \<and>
      (\<forall>a. raid01_addr h a \<longrightarrow> raid01_vol h st s' a = raid01_vol h st s a))" if "raid01_inv h st {d} s" "is_disk h d"
    using that wp_disk_repaired_raid01 [of h st "{d}" s d] by (simp add: is_disk_def)
qed

end
