(* ===== verification/Raid_Parity.thy ===== *)
theory Raid_Parity
  imports Raid_Volume Ram_Disk
begin

text \<open>
  What RAID 4 and RAID 5 of \<^verbatim>\<open>kernel/raid.c\<close> share: stripes whose blocks have exclusive or zero, the
  block of a failed disk as the exclusive or of the others, the rebuilding loop of the two repair
  functions, and the page that holds a parity block.
\<close>

section \<open>The rebuilding loop\<close>

text \<open>
  The loop of \<^verbatim>\<open>disk_repaired_raid4\<close> and \<^verbatim>\<open>disk_repaired_raid5\<close>: the parity buffer is zero at the start
  of each round.
\<close>

fun rebuild_loop :: "'m hw \<Rightarrow> int \<Rightarrow> int list \<Rightarrow> 'm kstate \<Rightarrow> (int \<times> 'm kstate) res" where
  "rebuild_loop h diskn [] s = Inr (0, s)"
| "rebuild_loop h diskn (blockn # bs) s =
     kbind (recover_missing_block h blockn diskn zero_block s) (\<lambda>(status, parity, s).
     if status \<noteq> 0 then Inr (-3, s)
     else kbind (write_blk h diskn blockn parity s) (rebuild_loop h diskn bs))"

section \<open>Consistent stripes\<close>

text \<open>The content of a disk's block: read from the disk, or reconstructed when the disk has failed.\<close>

definition stripe_blk :: "'m hw \<Rightarrow> ('m \<Rightarrow> int \<Rightarrow> int \<Rightarrow> block) \<Rightarrow> 'm kstate \<Rightarrow> int \<Rightarrow> int \<Rightarrow> block" where
  "stripe_blk h st s k b =
     (if working (loaded_cache h st s ! nat (k - 1)) = 1 then blk st s k b
      else xor_others h (blk st s) k b)"

text \<open>Disk \<open>f\<close> has failed (no disk for \<open>f = 0\<close>); without a failed disk every stripe is consistent.\<close>

definition parity_inv :: "'m hw \<Rightarrow> ('m \<Rightarrow> int \<Rightarrow> int \<Rightarrow> block) \<Rightarrow> int \<Rightarrow> 'm kstate \<Rightarrow> bool" where
  "parity_inv h st f s \<longleftrightarrow>
     kst_ok h st s \<and> 2 \<le> DISKS h \<and>
     (\<forall>k \<in> set (raid_disks h). working (loaded_cache h st s ! nat (k - 1)) = (if k = f then 0 else 1)) \<and>
     (f = 0 \<longrightarrow> (\<forall>b \<in> {1..<int (NUMBER_OF_BLOCKS h)}. parity_ok h (blk st s) b))"

lemma parity_invD:
  assumes "parity_inv h st f s"
  shows "kst_ok h st s" and "2 \<le> DISKS h"
    and "\<And>k. 1 \<le> k \<Longrightarrow> k \<le> int (DISKS h) \<Longrightarrow> working (loaded_cache h st s ! nat (k - 1)) = (if k = f then 0 else 1)"
    and "\<And>b. f = 0 \<Longrightarrow> 1 \<le> b \<Longrightarrow> b < int (NUMBER_OF_BLOCKS h) \<Longrightarrow> parity_ok h (blk st s) b"
  using assms by (auto simp: parity_inv_def)

lemma parity_invI:
  assumes "kst_ok h st s" "2 \<le> DISKS h"
    and "\<And>k. 1 \<le> k \<Longrightarrow> k \<le> int (DISKS h) \<Longrightarrow> working (loaded_cache h st s ! nat (k - 1)) = (if k = f then 0 else 1)"
    and "\<And>b. f = 0 \<Longrightarrow> 1 \<le> b \<Longrightarrow> b < int (NUMBER_OF_BLOCKS h) \<Longrightarrow> parity_ok h (blk st s) b"
  shows "parity_inv h st f s"
  using assms by (auto simp: parity_inv_def)

lemma stripe_blk_eq:
  assumes "parity_inv h st f s" "1 \<le> k" "k \<le> int (DISKS h)"
  shows "stripe_blk h st s k b = (if k = f then xor_others h (blk st s) k b else blk st s k b)"
  using parity_invD(3) [OF assms] by (simp add: stripe_blk_def)

text \<open>A state that agrees in cache and content has the same invariant and stripes.\<close>

lemma parity_same:
  assumes "parity_inv h st f s" "kst_ok h st s'" "loaded_cache h st s' = loaded_cache h st s" "blk st s' = blk st s"
  shows "parity_inv h st f s'" and "stripe_blk h st s' k b = stripe_blk h st s k b"
  using assms by (auto simp: parity_inv_def stripe_blk_def)

text \<open>A disk of a consistent array fails.\<close>

lemma parity_fail:
  assumes inv: "parity_inv h st 0 s" and d: "1 \<le> d" "d \<le> int (DISKS h)" and ok: "kst_ok h st s'"
    and cache: "loaded_cache h st s' = (loaded_cache h st s)[nat (d - 1) := rd]" "working rd = 0"
    and data: "\<And>k b. b \<noteq> 0 \<Longrightarrow> blk st s' k b = blk st s k b"
  shows "parity_inv h st d s'"
    and "1 \<le> k \<Longrightarrow> k \<le> int (DISKS h) \<Longrightarrow> 1 \<le> b \<Longrightarrow> b < int (NUMBER_OF_BLOCKS h) \<Longrightarrow> stripe_blk h st s' k b = stripe_blk h st s k b"
proof -
  note okD = parity_invD(1) [OF inv] and fl = parity_invD(3) [OF inv]
  show *: "parity_inv h st d s'"
  proof (rule parity_invI [OF ok parity_invD(2) [OF inv]])
    show "working (loaded_cache h st s' ! nat (k - 1)) = (if k = d then 0 else 1)" if "1 \<le> k" "k \<le> int (DISKS h)" for k
      using fl [OF that] that d okD cache by (auto simp: nth_list_update nat_less_iff)
  qed (use d in simp)
  show "stripe_blk h st s' k b = stripe_blk h st s k b"
    if k: "1 \<le> k" "k \<le> int (DISKS h)" and b: "1 \<le> b" "b < int (NUMBER_OF_BLOCKS h)"
  proof -
    have "raid_block h k b" using k b by (simp add: raid_block_def)
    then have "length (blk st s k b) = BSIZE" by (rule length_blk [OF kst_okD(1) [OF okD]])
    moreover have "xor_others h (blk st s') d b = xor_others h (blk st s) d b"
      by (rule xor_others_cong) (use data b in simp)
    ultimately show ?thesis
      using stripe_blk_eq [OF * k] stripe_blk_eq [OF inv k] data [of b k] b k
        xor_others_eq [OF parity_invD(4) [OF inv refl b], of k] by auto
  qed
qed

text \<open>The content of the failed disk does not matter.\<close>

lemma parity_loss:
  assumes inv: "parity_inv h st d s" and d: "1 \<le> d" "d \<le> int (DISKS h)" and loss: "disk_loss h st d s s'"
  shows "parity_inv h st d s'"
    and "1 \<le> k \<Longrightarrow> k \<le> int (DISKS h) \<Longrightarrow> stripe_blk h st s' k b = stripe_blk h st s k b"
proof -
  note ok = parity_invD(1) [OF inv] and fl = parity_invD(3) [OF inv]
  show *: "parity_inv h st d s'"
  proof (rule parity_invI [OF disk_loss_ok [OF loss ok] parity_invD(2) [OF inv]])
    show "working (loaded_cache h st s' ! nat (k - 1)) = (if k = d then 0 else 1)" if "1 \<le> k" "k \<le> int (DISKS h)" for k
      using disk_loss_cache [OF loss, of k] disk_loss_failed [OF loss] fl [OF that] fl [OF d] that d by (cases "k = d") auto
  qed (use d in simp)
  have same: "k \<noteq> d \<Longrightarrow> blk st s' k = blk st s k" for k using loss by (auto simp: disk_loss_def)
  show "stripe_blk h st s' k b = stripe_blk h st s k b" if k: "1 \<le> k" "k \<le> int (DISKS h)"
    unfolding stripe_blk_eq [OF * k] stripe_blk_eq [OF inv k]
    using same [of k] xor_others_cong [of h k "blk st s'" b "blk st s"] same by auto
qed

text \<open>Writing the reconstruction to the failed disk and marking it as working.\<close>

lemma parity_rebuilt:
  assumes inv: "parity_inv h st d s" and d: "1 \<le> d" "d \<le> int (DISKS h)" and ok: "kst_ok h st s'"
    and cache: "loaded_cache h st s' = (loaded_cache h st s)[nat (d - 1) := rd]" "working rd = 1"
    and data: "\<And>k b. 1 \<le> b \<Longrightarrow> b < int (NUMBER_OF_BLOCKS h) \<Longrightarrow>
      blk st s' k b = (if k = d then xor_others h (blk st s) d b else blk st s k b)"
  shows "parity_inv h st 0 s'"
    and "1 \<le> k \<Longrightarrow> k \<le> int (DISKS h) \<Longrightarrow> 1 \<le> b \<Longrightarrow> b < int (NUMBER_OF_BLOCKS h) \<Longrightarrow> stripe_blk h st s' k b = stripe_blk h st s k b"
proof -
  note okD = parity_invD(1) [OF inv] and fl = parity_invD(3) [OF inv]
  show *: "parity_inv h st 0 s'"
  proof (rule parity_invI [OF ok parity_invD(2) [OF inv]])
    show "working (loaded_cache h st s' ! nat (k - 1)) = (if k = 0 then 0 else 1)" if "1 \<le> k" "k \<le> int (DISKS h)" for k
      using fl [OF that] that d okD cache by (auto simp: nth_list_update nat_less_iff)
    show "parity_ok h (blk st s') b" if "1 \<le> b" "b < int (NUMBER_OF_BLOCKS h)" for b
      using parity_ok_recovered [of d h "blk st s" b] d data [OF that]
        parity_ok_cong [of h "blk st s'" b "blk_upd (blk st s) d b (xor_others h (blk st s) d b)"] by simp
  qed
  show "stripe_blk h st s' k b = stripe_blk h st s k b"
    if k: "1 \<le> k" "k \<le> int (DISKS h)" and b: "1 \<le> b" "b < int (NUMBER_OF_BLOCKS h)"
    unfolding stripe_blk_eq [OF * k] stripe_blk_eq [OF inv k] using data [OF b, of k] k by auto
qed

text \<open>A read-modify-write of a data disk and a parity disk that both work.\<close>

lemma parity_rmw:
  assumes inv: "parity_inv h st f s" and d: "1 \<le> d" "d \<le> int (DISKS h)" "d \<noteq> f" and p: "1 \<le> p" "p \<le> int (DISKS h)" "p \<noteq> f"
    and ne: "d \<noteq> p" and b: "1 \<le> b" "b < int (NUMBER_OF_BLOCKS h)" and ok: "kst_ok h st s'"
    and cache: "loaded_cache h st s' = loaded_cache h st s" and data: "blk st s' = rmw (blk st s) d p b x"
  shows "parity_inv h st f s'"
    and "1 \<le> k \<Longrightarrow> k \<le> int (DISKS h) \<Longrightarrow> (k, c) \<noteq> (p, b) \<Longrightarrow>
      stripe_blk h st s' k c = (if k = d \<and> c = b then x else stripe_blk h st s k c)"
proof -
  note okD = parity_invD(1) [OF inv] and fl = parity_invD(3) [OF inv]
  have mem: "d \<in> set (raid_disks h)" "p \<in> set (raid_disks h)" using d p by simp_all
  have "raid_block h p b" using p b by (simp add: raid_block_def)
  then have len: "length (blk st s p b) = BSIZE" by (rule length_blk [OF kst_okD(1) [OF okD]])
  show *: "parity_inv h st f s'"
  proof (rule parity_invI [OF ok parity_invD(2) [OF inv]])
    show "parity_ok h (blk st s') c" if "f = 0" "1 \<le> c" "c < int (NUMBER_OF_BLOCKS h)" for c
      using rmw_parity [of d h p "blk st s" b, OF mem ne len] parity_invD(4) [OF inv that] data by simp
  qed (use fl cache in simp)
  show "stripe_blk h st s' k c = (if k = d \<and> c = b then x else stripe_blk h st s k c)"
    if k: "1 \<le> k" "k \<le> int (DISKS h)" and kc: "(k, c) \<noteq> (p, b)"
  proof (cases "k = f")
    case True
    then have "xor_others h (blk st s') k c = xor_others h (blk st s) k c"
      unfolding data using rmw_xor_others [of d h p "blk st s" b, OF mem ne len] k d(3) p(3) by simp
    then show ?thesis using stripe_blk_eq [OF * k] stripe_blk_eq [OF inv k] True d(3) by simp
  next
    case False
    then show ?thesis
      using stripe_blk_eq [OF * k] stripe_blk_eq [OF inv k] kc by (auto simp: data rmw_apply)
  qed
qed

text \<open>The same when the parity disk of the stripe is the failed one.\<close>

lemma parity_rmw_no_parity:
  assumes inv: "parity_inv h st p s" and d: "d \<noteq> p" and p: "1 \<le> p" and ok: "kst_ok h st s'"
    and cache: "loaded_cache h st s' = loaded_cache h st s" and data: "blk st s' = rmw (blk st s) d p b x"
  shows "parity_inv h st p s'"
    and "1 \<le> k \<Longrightarrow> k \<le> int (DISKS h) \<Longrightarrow> k \<noteq> p \<or> c \<noteq> b \<Longrightarrow>
      stripe_blk h st s' k c = (if k = d \<and> c = b then x else stripe_blk h st s k c)"
proof -
  show *: "parity_inv h st p s'"
    by (rule parity_invI [OF ok parity_invD(2) [OF inv]]) (use parity_invD(3) [OF inv] cache p in auto)
  have "xor_others h (blk st s') p c = xor_others h (blk st s) p c" if "c \<noteq> b"
    by (rule xor_others_cong) (simp add: data rmw_apply that)
  then show "stripe_blk h st s' k c = (if k = d \<and> c = b then x else stripe_blk h st s k c)"
    if k: "1 \<le> k" "k \<le> int (DISKS h)" and kc: "k \<noteq> p \<or> c \<noteq> b"
    using stripe_blk_eq [OF * k] stripe_blk_eq [OF inv k] kc d by (auto simp: data rmw_apply)
qed

section \<open>Rules of the rebuilding loop\<close>

lemma wp_rebuild_loop [wp_rules]:
  assumes "kst_ok h st s" "1 \<le> d" "d \<le> int (DISKS h)" "set bs \<subseteq> {1..<int (NUMBER_OF_BLOCKS h)}" "distinct bs"
    and "\<forall>k \<in> {1..int (DISKS h)}. k \<noteq> d \<longrightarrow> working (loaded_cache h st s ! nat (k - 1)) \<noteq> 0"
    and "raid_data_cache s = loaded_cache h st s"
    and "\<And>v. drv_ok h st v \<Longrightarrow>
      st (media v) = (\<lambda>k b. if k = d \<and> b \<in> set bs then xor_others h (blk st s) d b else blk st s k b) \<Longrightarrow>
      Q (0, s\<lparr>vs := v\<rparr>)"
  shows "wp (rebuild_loop h d bs s) Q"
  using assms
proof (induction bs arbitrary: s)
  case Nil
  then show ?case using Nil.prems(8) [of "vs s"] by simp
next
  case (Cons b bs)
  have b: "1 \<le> b" "0 \<le> b" "b < int (NUMBER_OF_BLOCKS h)" using Cons.prems(4) by auto
  have id: "s\<lparr>vs := v, raid_data_cache := loaded_cache h st s\<rparr> = s\<lparr>vs := v\<rparr>" for v
    using Cons.prems(7) by (cases s) simp
  have "wp (recover_missing_block h b d zero_block s) (\<lambda>(status, parity, s).
      wp (if status \<noteq> 0 then Inr (-3, s) else kbind (write_blk h d b parity s) (rebuild_loop h d bs)) Q)"
  proof (rule wp_recover_missing_block [OF Cons.prems(1) b(2,3) Cons.prems(6)], unfold id prod.case)
    fix v
    assume v: "drv_ok h st v" "st (media v) = blk st s"
    have "wp (write_blk h d b (xor_others h (blk st s) d b) (s\<lparr>vs := v\<rparr>)) (\<lambda>s. wp (rebuild_loop h d bs s) Q)"
    proof (rule wp_write_blk [of h st])
      fix u
      let ?u = "s\<lparr>vs := u\<rparr>"
      assume u: "drv_ok h st u" "st (media u) = blk_upd (blk st (s\<lparr>vs := v\<rparr>)) d b (xor_others h (blk st s) d b)"
      have m: "blk st ?u = blk_upd (blk st s) d b (xor_others h (blk st s) d b)" using u v by simp
      have lc: "loaded_cache h st ?u = loaded_cache h st s"
        by (rule loaded_cache_keep) (use m b Cons.prems(7) in auto)
      have xo: "xor_others h (blk st ?u) d c = xor_others h (blk st s) d c" for c
        by (rule xor_others_cong) (use m in simp)
      have "wp (rebuild_loop h d bs ?u) Q"
      proof (rule Cons.IH)
        fix v'
        assume v': "drv_ok h st v'"
          "st (media v') = (\<lambda>k c. if k = d \<and> c \<in> set bs then xor_others h (blk st ?u) d c else blk st ?u k c)"
        then have "st (media v') = (\<lambda>k c. if k = d \<and> c \<in> set (b # bs) then xor_others h (blk st s) d c else blk st s k c)"
          unfolding xo unfolding m by (auto simp: fun_eq_iff)
        then show "Q (0, ?u\<lparr>vs := v'\<rparr>)" using Cons.prems(8) [OF v'(1)] by simp
      qed (use Cons.prems u lc in auto)
      then show "wp (rebuild_loop h d bs (s\<lparr>vs := v\<rparr>\<lparr>vs := u\<rparr>)) Q" by simp
    qed (use v Cons.prems b in \<open>auto simp: raid_block_def\<close>)
    then show "wp (if (0 :: int) \<noteq> 0 then Inr (-3, s\<lparr>vs := v\<rparr>)
        else kbind (write_blk h d b (xor_others h (blk st s) d b) (s\<lparr>vs := v\<rparr>)) (rebuild_loop h d bs)) Q" by simp
  qed
  then show ?case by (simp add: case_prod_beta')
qed

text \<open>With a second failed disk the first round gives up and nothing has been written.\<close>

lemma wp_rebuild_loop_fail:
  assumes ok: "kst_ok h st s" and d: "1 \<le> d" "d \<le> int (DISKS h)" and b: "1 \<le> b" "b < int (NUMBER_OF_BLOCKS h)"
    and w: "\<exists>k \<in> {1..int (DISKS h)}. k \<noteq> d \<and> working (loaded_cache h st s ! nat (k - 1)) = 0"
    and Q: "\<And>v. drv_ok h st v \<Longrightarrow> st (media v) = blk st s \<Longrightarrow> Q (-3, s\<lparr>vs := v, raid_data_cache := loaded_cache h st s\<rparr>)"
  shows "wp (rebuild_loop h d (b # bs) s) Q"
  unfolding rebuild_loop.simps wp_kbind
  by (rule wp_recover_missing_block_fail [OF ok _ b(2) _ w]) (use b Q in auto)

section \<open>Pages\<close>

definition pages :: "'m hw \<Rightarrow> nat \<Rightarrow> 'm kstate \<Rightarrow> bool" where
  "pages h n s \<longleftrightarrow> (\<exists>ps. free_pages (kend h) (kmem s) ps \<and> n \<le> length ps)"

lemma pages_kalloc:
  assumes "pages h (Suc n) s"
  obtains p km where "kalloc (kmem s) = (p, km)" "p \<noteq> 0" "kfree (kend h) p km = Inr (kmem s)"
    "pages h n (s\<lparr>kmem := km\<rparr>)"
proof -
  obtain ps where ps: "free_pages (kend h) (kmem s) ps" "Suc n \<le> length ps" using assms by (auto simp: pages_def)
  then obtain p qs where pq: "ps = p # qs" by (cases ps) auto
  note fp = ps(1) [unfolded pq]
  let ?km = "snd (kalloc (kmem s))"
  show thesis
  proof (rule that [of p ?km])
    show "kalloc (kmem s) = (p, ?km)" using kalloc_page(1) [OF fp] by (simp add: prod_eq_iff)
    show "p \<noteq> 0" using kalloc_page(3) [OF fp] by (simp add: page_ok_def)
    show "kfree (kend h) p ?km = Inr (kmem s)" by (rule kfree_after_kalloc [OF fp])
    show "pages h n (s\<lparr>kmem := ?km\<rparr>)"
      using kalloc_page(2) [OF fp] ps(2) pq by (auto simp: pages_def)
  qed
qed

section \<open>Failing and rebuilding a disk\<close>

text \<open>The new state has the same logical stripes, flag and memory.\<close>

definition same_stripes :: "'m hw \<Rightarrow> ('m \<Rightarrow> int \<Rightarrow> int \<Rightarrow> block) \<Rightarrow> 'm kstate \<Rightarrow> 'm kstate \<Rightarrow> bool" where
  "same_stripes h st s s' \<longleftrightarrow> raid_data_cache_loaded s' = raid_data_cache_loaded s \<and>
     (\<forall>k b. 1 \<le> k \<longrightarrow> k \<le> int (DISKS h) \<longrightarrow> 1 \<le> b \<longrightarrow> b < int (NUMBER_OF_BLOCKS h) \<longrightarrow>
        stripe_blk h st s' k b = stripe_blk h st s k b)"

lemma wp_fail_parity:
  assumes inv: "parity_inv h st 0 s" and d: "1 \<le> d" "d \<le> int (DISKS h)"
  shows "wp (kbind (load_raid_data_cache h s) (\<lambda>s. kbind (store_working h d 0 (stack_junk h) s) (\<lambda>s. Inr (0 :: int, s))))
    (\<lambda>(r, s'). r = 0 \<and> parity_inv h st d s' \<and> same_stripes h st s s' \<and> kmem s' = kmem s)"
proof -
  note ok = parity_invD(1) [OF inv]
  let ?rd = "(loaded_cache h st s ! nat (d - 1))\<lparr>working := 0\<rparr>"
  have "wp (kbind (load_raid_data_cache h s) (\<lambda>s. kbind (store_working h d 0 (stack_junk h) s) (\<lambda>s. Inr (0 :: int, s))))
    (\<lambda>(r, s'). r = 0 \<and> (\<exists>v. s' = s\<lparr>vs := v, raid_data_cache := (loaded_cache h st s)[nat (d - 1) := ?rd]\<rparr> \<and>
      drv_ok h st v \<and> st (media v) = blk_upd (blk st s) d 0 (serialize (raid_bytes h ?rd) raid_data_size (stack_junk h))))"
    using ok d by (auto intro!: wp_load_raid_data_cache [OF ok] wp_store_working [of h st] ex_vs)
  then show ?thesis
  proof (rule wp_mono, clarify, intro conjI refl)
    fix v
    let ?s = "s\<lparr>vs := v, raid_data_cache := (loaded_cache h st s)[nat (d - 1) := ?rd]\<rparr>"
    assume v: "drv_ok h st v" "st (media v) = blk_upd (blk st s) d 0 (serialize (raid_bytes h ?rd) raid_data_size (stack_junk h))"
    have ok': "kst_ok h st ?s" using ok v(1) by simp
    have lc: "loaded_cache h st ?s = (loaded_cache h st s)[nat (d - 1) := ?rd]"
      by (rule loaded_cache_store [OF _ ok d]) (use v ok in auto)
    have data: "b \<noteq> 0 \<Longrightarrow> blk st ?s k b = blk st s k b" for k b using v by simp
    note fail = parity_fail [OF inv d ok' lc _ data, simplified]
    show "parity_inv h st d ?s" by (rule fail(1))
    show "same_stripes h st s ?s" using fail(2) by (simp add: same_stripes_def)
  qed simp
qed

text \<open>The tail of the two repair functions, from a state whose cache is loaded.\<close>

lemma wp_rebuild_parity:
  assumes inv: "parity_inv h st d s" and d: "1 \<le> d" "d \<le> int (DISKS h)" and c: "raid_data_cache s = loaded_cache h st s"
  shows "wp (rebuild_loop h d [1..int (NUMBER_OF_BLOCKS h) - 1] s) (\<lambda>(status, t). status = 0 \<and>
    wp (store_working h d 1 (stack_junk h) t) (\<lambda>s'. parity_inv h st 0 s' \<and> same_stripes h st s s' \<and> kmem s' = kmem s))"
proof -
  note ok = parity_invD(1) [OF inv] and fl = parity_invD(3) [OF inv]
  let ?rd = "(loaded_cache h st s ! nat (d - 1))\<lparr>working := 1\<rparr>"
  show ?thesis
  proof (rule wp_rebuild_loop [OF ok d _ _ _ c])
    fix v
    let ?c = "\<lambda>k b. if k = d \<and> b \<in> set [1..int (NUMBER_OF_BLOCKS h) - 1] then xor_others h (blk st s) d b else blk st s k b"
    assume v: "drv_ok h st v" "st (media v) = ?c"
    have "wp (store_working h d 1 (stack_junk h) (s\<lparr>vs := v\<rparr>))
        (\<lambda>s'. parity_inv h st 0 s' \<and> same_stripes h st s s' \<and> kmem s' = kmem s)"
    proof (rule wp_store_working [of h st])
      fix u
      let ?s = "s\<lparr>vs := u, raid_data_cache := (loaded_cache h st s)[nat (d - 1) := ?rd]\<rparr>"
      assume "drv_ok h st u" "st (media u) = blk_upd (blk st (s\<lparr>vs := v\<rparr>)) d 0 (serialize (raid_bytes h
          ((raid_data_cache (s\<lparr>vs := v\<rparr>) ! nat (d - 1))\<lparr>working := 1\<rparr>)) raid_data_size (stack_junk h))"
      then have u: "drv_ok h st u" "st (media u) = blk_upd ?c d 0 (serialize (raid_bytes h ?rd) raid_data_size (stack_junk h))"
        using v c by simp_all
      have ok': "kst_ok h st ?s" using ok u(1) by simp
      have lc: "loaded_cache h st ?s = (loaded_cache h st s)[nat (d - 1) := ?rd]"
        by (rule loaded_cache_store [OF _ ok d]) (use u ok in auto)
      have data: "1 \<le> b \<Longrightarrow> b < int (NUMBER_OF_BLOCKS h) \<Longrightarrow>
          blk st ?s k b = (if k = d then xor_others h (blk st s) d b else blk st s k b)" for k b using u by simp
      note reb = parity_rebuilt [OF inv d ok' lc _ data, simplified]
      have "parity_inv h st 0 ?s" by (rule reb(1))
      moreover have "same_stripes h st s ?s" using reb(2) by (simp add: same_stripes_def)
      ultimately show "parity_inv h st 0 (s\<lparr>vs := v\<rparr>\<lparr>vs := u, raid_data_cache := (raid_data_cache (s\<lparr>vs := v\<rparr>))
            [nat (d - 1) := (raid_data_cache (s\<lparr>vs := v\<rparr>) ! nat (d - 1))\<lparr>working := 1\<rparr>]\<rparr>) \<and>
          same_stripes h st s (s\<lparr>vs := v\<rparr>\<lparr>vs := u, raid_data_cache := (raid_data_cache (s\<lparr>vs := v\<rparr>))
            [nat (d - 1) := (raid_data_cache (s\<lparr>vs := v\<rparr>) ! nat (d - 1))\<lparr>working := 1\<rparr>]\<rparr>) \<and>
          kmem (s\<lparr>vs := v\<rparr>\<lparr>vs := u, raid_data_cache := (raid_data_cache (s\<lparr>vs := v\<rparr>))
            [nat (d - 1) := (raid_data_cache (s\<lparr>vs := v\<rparr>) ! nat (d - 1))\<lparr>working := 1\<rparr>]\<rparr>) = kmem s"
        using c by simp
    qed (use v d ok in auto)
    then show "case (0, s\<lparr>vs := v\<rparr>) of (status, t) \<Rightarrow> status = 0 \<and> wp (store_working h d 1 (stack_junk h) t)
        (\<lambda>s'. parity_inv h st 0 s' \<and> same_stripes h st s s' \<and> kmem s' = kmem s)" by simp
  qed (use fl in auto)
qed

end
