(* ===== verification/Raid4.thy ===== *)
theory Raid4
  imports Raid_Parity
begin

text \<open>
  RAID level 4 of \<^verbatim>\<open>kernel/raid.c\<close>: the blocks are striped over the disks 1 to \<^verbatim>\<open>DISKS - 1\<close>, the last
  disk holds the parity of each stripe, block 0 of each disk its metadata.
\<close>

section \<open>Operations\<close>

definition init_raid4 :: "'m hw \<Rightarrow> 'm kstate \<Rightarrow> (int \<times> 'm kstate) res" where
  "init_raid4 h s =
     (if DISKS h < 2 then Inr (-1, s)
      else kbind (init_disks h \<lparr>raid_type = RAID4, working = 1\<rparr> s) (\<lambda>s.
           Inr (0, s\<lparr>raid_data_cache_loaded := 1\<rparr>)))"

text \<open>With a single disk the division by zero is undefined.\<close>

definition raid4_place :: "'m hw \<Rightarrow> int \<Rightarrow> (int \<times> int) res" where
  "raid4_place h blkn =
     (let data_disks = int (DISKS h) - 1 in
      if data_disks = 0 then Inl BadAccess
      else Inr (blkn smod data_disks + 1, i32 (blkn sdiv data_disks + 1)))"

definition read_raid4 :: "'m hw \<Rightarrow> int \<Rightarrow> block \<Rightarrow> 'm kstate \<Rightarrow> (int \<times> block \<times> 'm kstate) res" where
  "read_raid4 h blkn dat s =
     kbind (load_raid_data_cache h s) (\<lambda>s.
     kbind (raid4_place h blkn) (\<lambda>(diskn, blockn).
     if blockn > int (NUMBER_OF_BLOCKS h) - 1 then Inr (-1, dat, s)
     else kbind (cache_get (diskn - 1) s) (\<lambda>rd.
          if working rd = 1 then kbind (read_blk h diskn blockn s) (\<lambda>(dat, s). Inr (0, dat, s))
          else kbind (cache_get (int (DISKS h) - 1) s) (\<lambda>rd.
               if working rd = 0 then Inr (-2, dat, s)
               else kbind (recover_missing_block h blockn diskn zero_block s) (\<lambda>(status, dat, s).
                    if status \<noteq> 0 then Inr (-2, dat, s) else Inr (0, dat, s))))))"

text \<open>\<^verbatim>\<open>kalloc\<close> is not checked: with no page the second \<^verbatim>\<open>read_block\<close> writes through the null pointer.\<close>

definition write_raid4 :: "'m hw \<Rightarrow> int \<Rightarrow> block \<Rightarrow> 'm kstate \<Rightarrow> (int \<times> 'm kstate) res" where
  "write_raid4 h blkn dat s =
     kbind (load_raid_data_cache h s) (\<lambda>s.
     kbind (raid4_place h blkn) (\<lambda>(diskn, blockn).
     if blockn > int (NUMBER_OF_BLOCKS h) - 1 then Inr (-1, s)
     else kbind (cache_get (diskn - 1) s) (\<lambda>rd.
     if working rd = 0 then Inr (-2, s)
     else if blockn < 1 \<or> blockn > int (NUMBER_OF_BLOCKS h) - 1 then Inr (-1, s)
     else kbind (cache_get (int (DISKS h) - 1) s) (\<lambda>rd.
     if working rd = 0 then Inr (0, s)
     else let (page, s) = kalloc_s s in
     kbind (read_blk h diskn blockn s) (\<lambda>(buffer, s).
     kbind (read_blk h (int (DISKS h)) blockn s) (\<lambda>(parity, s).
     if page = 0 then Inl BadAccess
     else let parity = calculate_parity buffer parity;
              parity = calculate_parity dat parity in
     kbind (write_blk h diskn blockn dat s) (\<lambda>s.
     kbind (write_blk h (int (DISKS h)) blockn parity s) (\<lambda>s.
     kbind (kfree_s h page s) (\<lambda>s. Inr (0, s))))))))))"

definition disk_fail_raid4 :: "'m hw \<Rightarrow> int \<Rightarrow> 'm kstate \<Rightarrow> (int \<times> 'm kstate) res" where
  "disk_fail_raid4 h diskn s =
     (if diskn < 1 \<or> diskn > int (DISKS h) then Inr (-1, s)
      else kbind (load_raid_data_cache h s) (\<lambda>s.
           kbind (store_working h diskn 0 (stack_junk h) s) (\<lambda>s. Inr (0, s))))"

text \<open>The test of the parity disk reads the cache as it is; the parity page is never freed.\<close>

definition disk_repaired_raid4 :: "'m hw \<Rightarrow> int \<Rightarrow> 'm kstate \<Rightarrow> (int \<times> 'm kstate) res" where
  "disk_repaired_raid4 h diskn s =
     (if diskn < 1 \<or> diskn > int (DISKS h) then Inr (-1, s)
      else kbind (cache_get (int (DISKS h) - 1) s) (\<lambda>rd.
           if diskn \<noteq> int (DISKS h) \<and> working rd = 0 then Inr (-2, s)
           else let (page, s) = kalloc_s s in
           if page = 0 then Inl BadAccess
           else kbind (rebuild_loop h diskn [1..int (NUMBER_OF_BLOCKS h) - 1] s) (\<lambda>(status, s).
                if status \<noteq> 0 then Inr (status, s)
                else kbind (store_working h diskn 1 (stack_junk h) s) (\<lambda>s. Inr (0, s)))))"

definition info_raid4 :: "'m hw \<Rightarrow> int \<times> uint32 \<times> uint32 \<times> uint32" where
  "info_raid4 h = (0, word_of_int ((int (DISKS h) - 1) * (int (NUMBER_OF_BLOCKS h) - 1)), of_nat BSIZE, of_nat (DISKS h))"

text \<open>The loop of \<^verbatim>\<open>destroy_raid4\<close> and \<^verbatim>\<open>destroy_raid5\<close>.\<close>

definition wipe_disks :: "'m hw \<Rightarrow> 'm kstate \<Rightarrow> 'm kstate res" where
  "wipe_disks h s =
     kfold (\<lambda>diskn s. kbind (write_blk h diskn 0 zero_block s) (\<lambda>s.
              kbind (cache_get (diskn - 1) s) (\<lambda>rd. cache_set (diskn - 1) (rd\<lparr>working := 0\<rparr>) s)))
       (raid_disks h) s"

definition destroy_raid4 :: "'m hw \<Rightarrow> 'm kstate \<Rightarrow> (int \<times> 'm kstate) res" where
  "destroy_raid4 h s = kbind (wipe_disks h s) (\<lambda>s. Inr (0, s))"

section \<open>The volume\<close>

definition raid4_slot :: "'m hw \<Rightarrow> int \<Rightarrow> int \<times> int" where
  "raid4_slot h a = (let l = int (DISKS h) - 1 in (a mod l + 1, a div l + 1))"

definition raid4_addr :: "'m hw \<Rightarrow> int \<Rightarrow> bool" where
  "raid4_addr h a \<longleftrightarrow> 0 \<le> a \<and> snd (raid4_slot h a) < int (NUMBER_OF_BLOCKS h)"

definition raid4_vol :: "'m hw \<Rightarrow> ('m \<Rightarrow> int \<Rightarrow> int \<Rightarrow> block) \<Rightarrow> 'm kstate \<Rightarrow> int \<Rightarrow> block" where
  "raid4_vol h st s a = (case raid4_slot h a of (d, b) \<Rightarrow> stripe_blk h st s d b)"

lemma raid4_slot_valid:
  assumes "hw_ok h" "2 \<le> DISKS h" "raid4_addr h a" "raid4_slot h a = (d, b)"
  shows "raid4_place h a = Inr (d, b)" "1 \<le> d" "d < int (DISKS h)" "1 \<le> b" "b < int (NUMBER_OF_BLOCKS h)"
proof -
  let ?l = "int (DISKS h) - 1"
  have l: "0 < ?l" using assms(2) by simp
  have db: "d = a mod ?l + 1" "b = a div ?l + 1" using assms(4) by (auto simp: raid4_slot_def Let_def)
  have a: "0 \<le> a" "b < int (NUMBER_OF_BLOCKS h)" using assms(3,4) by (auto simp: raid4_addr_def)
  have q: "0 \<le> a div ?l" "0 \<le> a mod ?l" "a mod ?l < ?l" using a(1) l by (simp_all add: pos_imp_zdiv_nonneg_iff)
  show "1 \<le> d" "d < int (DISKS h)" "1 \<le> b" "b < int (NUMBER_OF_BLOCKS h)" using db q a by linarith+
  show "raid4_place h a = Inr (d, b)"
    using a l q(1) blocks_bound [OF assms(1)] db by (simp add: raid4_place_def Let_def)
qed

lemma raid4_slot_inj: "raid4_slot h a = raid4_slot h a' \<Longrightarrow> a = a'"
  unfolding raid4_slot_def Let_def by (metis add_right_cancel div_mult_mod_eq prod.inject)

section \<open>Functional correctness\<close>

text \<open>Reading, with all disks or with any one disk failed.\<close>

lemma wp_read_raid4:
  assumes inv: "parity_inv h st f s" and a: "raid4_addr h a"
  shows "wp (read_raid4 h a dat s) (\<lambda>(r, x, s'). r = 0 \<and> x = raid4_vol h st s a \<and>
    (\<exists>v. s' = s\<lparr>vs := v, raid_data_cache := loaded_cache h st s\<rparr> \<and> drv_ok h st v \<and> st (media v) = blk st s))"
proof -
  note ok = parity_invD(1) [OF inv] and D = parity_invD(2) [OF inv] and fl = parity_invD(3) [OF inv]
  obtain d b where db: "raid4_slot h a = (d, b)" by force
  note sl = raid4_slot_valid [OF kst_okD(2) [OF ok] D a db]
  have val: "raid_block h d b" using sl by (simp add: raid_block_def)
  have w: "working (loaded_cache h st s ! nat (d - 1)) = (if d = f then 0 else 1)"
    "working (loaded_cache h st s ! nat (int (DISKS h) - 1)) = (if int (DISKS h) = f then 0 else 1)"
    using fl [of d] fl [of "int (DISKS h)"] sl D by simp_all
  have others: "\<forall>k \<in> {1..int (DISKS h)}. k \<noteq> f \<longrightarrow> working (loaded_cache h st s ! nat (k - 1)) \<noteq> 0"
    using fl by auto
  have x: "raid4_vol h st s a = (if d = f then xor_others h (blk st s) f b else blk st s d b)"
    using stripe_blk_eq [OF inv sl(2), of b] sl(3) by (simp add: raid4_vol_def db)
  show ?thesis
    unfolding read_raid4_def wp_kbind [of "load_raid_data_cache h s"]
  proof (rule wp_load_raid_data_cache [OF ok])
    fix v
    let ?s = "s\<lparr>vs := v, raid_data_cache := loaded_cache h st s\<rparr>"
    assume v: "drv_ok h st v" "st (media v) = blk st s"
    have ok': "kst_ok h st ?s" using ok v by simp
    note lc = loaded_cache_same [where st = st, OF v(2), of h]
    have "wp (recover_missing_block h b f zero_block ?s) (\<lambda>(status, dat, s'). status = 0 \<and> dat = xor_others h (blk st s) f b \<and>
        (\<exists>v. s' = s\<lparr>vs := v, raid_data_cache := loaded_cache h st s\<rparr> \<and> drv_ok h st v \<and> st (media v) = blk st s))"
      by (rule wp_recover_missing_block [OF ok']) (use sl others lc v in auto)
    moreover have "d = f \<Longrightarrow> int (DISKS h) \<noteq> f" using sl by auto
    ultimately show "wp (kbind (raid4_place h a) (\<lambda>(diskn, blockn).
      if blockn > int (NUMBER_OF_BLOCKS h) - 1 then Inr (-1, dat, ?s)
      else kbind (cache_get (diskn - 1) ?s) (\<lambda>rd.
          if working rd = 1 then kbind (read_blk h diskn blockn ?s) (\<lambda>(dat, s). Inr (0, dat, s))
          else kbind (cache_get (int (DISKS h) - 1) ?s) (\<lambda>rd.
               if working rd = 0 then Inr (-2, dat, ?s)
               else kbind (recover_missing_block h blockn diskn zero_block ?s) (\<lambda>(status, dat, s).
                    if status \<noteq> 0 then Inr (-2, dat, s) else Inr (0, dat, s))))))
      (\<lambda>(r, x, s'). r = 0 \<and> x = raid4_vol h st s a \<and>
        (\<exists>v. s' = s\<lparr>vs := v, raid_data_cache := loaded_cache h st s\<rparr> \<and> drv_ok h st v \<and> st (media v) = blk st s))"
      using sl ok D val w v x by (auto intro!: wp_read_blk [of h st] exI elim!: wp_mono)
  qed
qed

text \<open>Writing with working data and parity disks.\<close>

lemma wp_write_raid4_run:
  assumes inv: "parity_inv h st f s" and a: "raid4_addr h a" and x: "length x = BSIZE" and pg: "pages h 1 s"
    and db: "raid4_slot h a = (d, b)" and f: "d \<noteq> f" "int (DISKS h) \<noteq> f"
  shows "wp (write_raid4 h a x s) (\<lambda>(r, s'). r = 0 \<and>
    (\<exists>v. s' = s\<lparr>vs := v, raid_data_cache := loaded_cache h st s\<rparr> \<and> drv_ok h st v \<and>
         st (media v) = rmw (blk st s) d (int (DISKS h)) b x))"
proof -
  note ok = parity_invD(1) [OF inv] and D = parity_invD(2) [OF inv] and fl = parity_invD(3) [OF inv]
  note sl = raid4_slot_valid [OF kst_okD(2) [OF ok] D a db]
  have val: "raid_block h d b" "raid_block h (int (DISKS h)) b" using sl by (simp_all add: raid_block_def)
  have len: "length (blk st s (int (DISKS h)) b) = BSIZE" by (rule length_blk [OF kst_okD(1) [OF ok] val(2)])
  have w: "working (loaded_cache h st s ! nat (d - 1)) = 1"
    "working (loaded_cache h st s ! nat (int (DISKS h) - 1)) = 1"
    using fl [of d] fl [of "int (DISKS h)"] sl D f by simp_all
  obtain p km where p: "kalloc (kmem s) = (p, km)" "p \<noteq> 0" "kfree (kend h) p km = Inr (kmem s)"
    by (rule pages_kalloc [OF pg [unfolded One_nat_def]])
  have al: "kalloc_s (s\<lparr>vs := v, raid_data_cache := c\<rparr>) = (p, s\<lparr>vs := v, raid_data_cache := c, kmem := km\<rparr>)" for v c
    using p(1) by (simp add: kalloc_s_def)
  have fr: "kfree_s h p (s\<lparr>vs := v, raid_data_cache := c, kmem := km\<rparr>) = Inr (s\<lparr>vs := v, raid_data_cache := c\<rparr>)" for v c
    using p(3) by (cases s) (simp add: kfree_s_def)
  show ?thesis
    unfolding write_raid4_def wp_kbind [of "load_raid_data_cache h s"]
    by (rule wp_load_raid_data_cache [OF ok])
      (use sl ok val w x len p(2) D in \<open>auto simp: al fr rmw_def intro!: wp_read_blk [of h st] wp_write_blk [of h st] ex_vs\<close>)
qed

lemma wp_write_raid4:
  assumes inv: "parity_inv h st f s" and a: "raid4_addr h a" and x: "length x = BSIZE" and pg: "pages h 1 s"
    and f: "fst (raid4_slot h a) \<noteq> f" "int (DISKS h) \<noteq> f"
  shows "wp (write_raid4 h a x s) (\<lambda>(r, s'). r = 0 \<and> parity_inv h st f s' \<and> kmem s' = kmem s \<and>
    raid_data_cache_loaded s' = raid_data_cache_loaded s \<and>
    (\<forall>c. raid4_addr h c \<longrightarrow> raid4_vol h st s' c = (if c = a then x else raid4_vol h st s c)))"
proof -
  note ok = parity_invD(1) [OF inv] and D = parity_invD(2) [OF inv]
  obtain d b where db: "raid4_slot h a = (d, b)" by force
  note sl = raid4_slot_valid [OF kst_okD(2) [OF ok] D a db]
  have df: "d \<noteq> f" using f(1) db by simp
  from wp_write_raid4_run [OF inv a x pg db df f(2)] show ?thesis
  proof (rule wp_mono, clarify, intro conjI allI impI refl)
    fix v
    let ?s = "s\<lparr>vs := v, raid_data_cache := loaded_cache h st s\<rparr>"
    assume v: "drv_ok h st v" "st (media v) = rmw (blk st s) d (int (DISKS h)) b x"
    have m: "blk st ?s = rmw (blk st s) d (int (DISKS h)) b x" using v(2) by simp
    have ok': "kst_ok h st ?s" using ok v(1) by simp
    have lc: "loaded_cache h st ?s = loaded_cache h st s"
      by (rule loaded_cache_keep) (use v sl in \<open>auto simp: rmw_apply\<close>)
    have p: "1 \<le> int (DISKS h)" "d \<le> int (DISKS h)" "d \<noteq> int (DISKS h)" using sl D by auto
    note rmw = parity_rmw [OF inv sl(2) p(2) df p(1) order.refl f(2) p(3) sl(4,5) ok' lc m]
    show "parity_inv h st f ?s" by (rule rmw(1))
    fix c
    assume c: "raid4_addr h c"
    obtain e g where eg: "raid4_slot h c = (e, g)" by force
    note sc = raid4_slot_valid [OF kst_okD(2) [OF ok] D c eg]
    have "raid4_slot h c = (d, b) \<longleftrightarrow> c = a" using raid4_slot_inj [of h c a] db by auto
    then show "raid4_vol h st ?s c = (if c = a then x else raid4_vol h st s c)"
      using rmw(2) [of e g] sc eg by (simp add: raid4_vol_def)
  qed (simp_all add: kstate.defs)
qed

text \<open>A failed data disk refuses the write; a failed parity disk swallows it.\<close>

lemma write_raid4_degraded:
  assumes inv: "parity_inv h st f s" and a: "raid4_addr h a" and db: "raid4_slot h a = (d, b)"
    and f: "d = f \<or> int (DISKS h) = f"
  shows "wp (write_raid4 h a x s) (\<lambda>(r, s'). r = (if d = f then -2 else 0) \<and> blk st s' = blk st s)"
proof -
  note ok = parity_invD(1) [OF inv] and D = parity_invD(2) [OF inv] and fl = parity_invD(3) [OF inv]
  note sl = raid4_slot_valid [OF kst_okD(2) [OF ok] D a db]
  have w: "working (loaded_cache h st s ! nat (d - 1)) = (if d = f then 0 else 1)"
    "working (loaded_cache h st s ! nat (int (DISKS h) - 1)) = (if int (DISKS h) = f then 0 else 1)"
    using fl [of d] fl [of "int (DISKS h)"] sl D by simp_all
  show ?thesis
    unfolding write_raid4_def wp_kbind [of "load_raid_data_cache h s"]
    by (rule wp_load_raid_data_cache [OF ok]) (use sl ok w D f in auto)
qed

section \<open>The interfaces\<close>

text \<open>All disks work, the cache has been filled, and \<open>n\<close> pages are free; or disk \<open>d\<close> has failed.\<close>

definition raid4_ok :: "'m hw \<Rightarrow> ('m \<Rightarrow> int \<Rightarrow> int \<Rightarrow> block) \<Rightarrow> nat \<Rightarrow> 'm kstate \<Rightarrow> bool" where
  "raid4_ok h st n s \<longleftrightarrow> parity_inv h st 0 s \<and> raid_data_cache_loaded s \<noteq> 0 \<and> pages h n s"

definition raid4_degraded :: "'m hw \<Rightarrow> ('m \<Rightarrow> int \<Rightarrow> int \<Rightarrow> block) \<Rightarrow> nat \<Rightarrow> int \<Rightarrow> 'm kstate \<Rightarrow> bool" where
  "raid4_degraded h st n d s \<longleftrightarrow> parity_inv h st d s \<and> raid_data_cache_loaded s \<noteq> 0 \<and> pages h n s"

lemma pages_cong: "kmem s' = kmem s \<Longrightarrow> pages h n s' = pages h n s"
  by (simp add: pages_def)

lemma pages_mono: "pages h n s \<Longrightarrow> m \<le> n \<Longrightarrow> pages h m s"
  by (auto simp: pages_def)

lemma raid4_vol_same:
  assumes "parity_inv h st f s" "same_stripes h st s s'" "raid4_addr h a"
  shows "raid4_vol h st s' a = raid4_vol h st s a"
proof -
  obtain d b where db: "raid4_slot h a = (d, b)" by force
  show ?thesis
    using raid4_slot_valid [OF kst_okD(2) [OF parity_invD(1) [OF assms(1)]] parity_invD(2) [OF assms(1)] assms(3) db] assms(2)
    by (simp add: raid4_vol_def db same_stripes_def)
qed

lemma wp_disk_repaired_raid4:
  assumes s: "raid4_degraded h st (Suc n) d s" and d: "1 \<le> d" "d \<le> int (DISKS h)"
  shows "wp (disk_repaired_raid4 h d s) (\<lambda>(r, s'). r = 0 \<and> raid4_ok h st n s' \<and>
    (\<forall>a. raid4_addr h a \<longrightarrow> raid4_vol h st s' a = raid4_vol h st s a))"
proof -
  have inv: "parity_inv h st d s" and ld: "raid_data_cache_loaded s \<noteq> 0" and pg: "pages h (Suc n) s"
    using s by (auto simp: raid4_degraded_def)
  note ok = parity_invD(1) [OF inv] and D = parity_invD(2) [OF inv] and fl = parity_invD(3) [OF inv]
  have c: "loaded_cache h st s = raid_data_cache s" using ld by (simp add: loaded_cache_def)
  obtain p km where p: "kalloc (kmem s) = (p, km)" "p \<noteq> 0" "kfree (kend h) p km = Inr (kmem s)" "pages h n (s\<lparr>kmem := km\<rparr>)"
    by (rule pages_kalloc [OF pg])
  let ?s = "s\<lparr>kmem := km\<rparr>"
  have lc: "loaded_cache h st ?s = loaded_cache h st s" by (simp add: loaded_cache_def)
  have ok': "kst_ok h st ?s" using ok unfolding kst_ok_def by simp
  have inv': "parity_inv h st d ?s" by (rule parity_same(1) [OF inv ok' lc]) simp
  have stripes: "same_stripes h st ?s s' \<Longrightarrow> same_stripes h st s s'" for s'
    using parity_same(2) [OF inv ok' lc] by (simp add: same_stripes_def)
  have w: "cache_get (int (DISKS h) - 1) s = Inr (raid_data_cache s ! nat (int (DISKS h) - 1))"
    "d = int (DISKS h) \<or> working (raid_data_cache s ! nat (int (DISKS h) - 1)) \<noteq> 0"
    using ok D fl [of "int (DISKS h)"] c by auto
  have post: "raid4_ok h st n s' \<and> (\<forall>a. raid4_addr h a \<longrightarrow> raid4_vol h st s' a = raid4_vol h st s a)"
    if "parity_inv h st 0 s'" "same_stripes h st ?s s'" "kmem s' = kmem ?s" for s'
    using that p(4) pages_cong [OF that(3), of h n] ld raid4_vol_same [OF inv stripes [OF that(2)]]
    by (auto simp: raid4_ok_def same_stripes_def)
  have al: "kalloc_s s = (p, ?s)" using p(1) by (simp add: kalloc_s_def)
  have "wp (kbind (rebuild_loop h d [1..int (NUMBER_OF_BLOCKS h) - 1] ?s) (\<lambda>(status, s).
      if status \<noteq> 0 then Inr (status, s) else kbind (store_working h d 1 (stack_junk h) s) (\<lambda>s. Inr (0, s))))
    (\<lambda>(r, s'). r = 0 \<and> raid4_ok h st n s' \<and> (\<forall>a. raid4_addr h a \<longrightarrow> raid4_vol h st s' a = raid4_vol h st s a))"
    unfolding wp_kbind [of "rebuild_loop h d _ ?s"]
    using wp_rebuild_parity [OF inv' d]
    by (rule wp_mono) (use c lc post in \<open>auto elim!: wp_mono\<close>)
  then show ?thesis
    unfolding disk_repaired_raid4_def using d w p(2) by (simp add: al del: wp_kbind)
qed

lemma raid4_keep:
  assumes "parity_inv h st f s" "drv_ok h st v" "st (media v) = blk st s"
  shows "parity_inv h st f (s\<lparr>vs := v, raid_data_cache := loaded_cache h st s\<rparr>)"
    and "raid4_vol h st (s\<lparr>vs := v, raid_data_cache := loaded_cache h st s\<rparr>) a = raid4_vol h st s a"
proof -
  let ?s = "s\<lparr>vs := v, raid_data_cache := loaded_cache h st s\<rparr>"
  have "kst_ok h st ?s" using parity_invD(1) [OF assms(1)] assms(2) by simp
  note same = parity_same [OF assms(1) this loaded_cache_same [where st = st, OF assms(3)]]
  show "parity_inv h st f ?s" by (rule same(1)) (use assms in simp)
  have "stripe_blk h st ?s k b = stripe_blk h st s k b" for k b by (rule same(2)) (use assms in simp)
  then show "raid4_vol h st ?s a = raid4_vol h st s a" by (simp add: raid4_vol_def)
qed

lemma raid4_loss:
  assumes inv: "parity_inv h st d s" and d: "1 \<le> d" "d \<le> int (DISKS h)" and loss: "disk_loss h st d s s'"
  shows "parity_inv h st d s'" "same_stripes h st s s'" "kmem s' = kmem s"
proof -
  show "kmem s' = kmem s" using loss by (auto simp: disk_loss_def)
  have "raid_data_cache_loaded s' = raid_data_cache_loaded s" using loss by (auto simp: disk_loss_def)
  then show "same_stripes h st s s'" using parity_loss(2) [OF inv d loss] by (simp add: same_stripes_def)
  show "parity_inv h st d s'" by (rule parity_loss(1) [OF inv d loss])
qed

interpretation r4: redundant_volume "read_raid4 h" "write_raid4 h" "raid4_vol h st" "raid4_ok h st (Suc n)" "raid4_addr h"
  "disk_fail_raid4 h" "disk_repaired_raid4 h" "raid4_degraded h st (Suc n)" "is_disk h" "disk_loss h st" "raid4_ok h st n"
  for h :: "'m hw" and st n
proof
  fix s b d s' and buf x :: block
  show "wp (read_raid4 h b buf s) (\<lambda>(r, x, s'). r = 0 \<and> x = raid4_vol h st s b \<and> raid4_ok h st (Suc n) s' \<and>
      (\<forall>a. raid4_addr h a \<longrightarrow> raid4_vol h st s' a = raid4_vol h st s a))" if s: "raid4_ok h st (Suc n) s" and b: "raid4_addr h b"
  proof -
    have inv: "parity_inv h st 0 s" using s by (simp add: raid4_ok_def)
    from wp_read_raid4 [OF inv b, of buf] show ?thesis
      by (rule wp_mono) (use s raid4_keep [OF inv] in \<open>auto simp: raid4_ok_def pages_def\<close>)
  qed
  show "wp (write_raid4 h b x s) (\<lambda>(r, s'). r = 0 \<and> raid4_ok h st (Suc n) s' \<and>
      (\<forall>a. raid4_addr h a \<longrightarrow> raid4_vol h st s' a = (if a = b then x else raid4_vol h st s a)))"
    if s: "raid4_ok h st (Suc n) s" and b: "raid4_addr h b" and x: "length x = BSIZE"
  proof -
    have inv: "parity_inv h st 0 s" and pg: "pages h 1 s" using s pages_mono [of h "Suc n" s 1] by (auto simp: raid4_ok_def)
    obtain e g where eg: "raid4_slot h b = (e, g)" by force
    have "fst (raid4_slot h b) \<noteq> 0" "int (DISKS h) \<noteq> 0"
      using raid4_slot_valid [OF kst_okD(2) [OF parity_invD(1) [OF inv]] parity_invD(2) [OF inv] b eg] eg by auto
    from wp_write_raid4 [OF inv b x pg this] show ?thesis
      by (rule wp_mono) (use s in \<open>auto simp: raid4_ok_def pages_def\<close>)
  qed
  show "wp (read_raid4 h b buf s) (\<lambda>(r, x, s'). r = 0 \<and> x = raid4_vol h st s b \<and> raid4_degraded h st (Suc n) d s' \<and>
      (\<forall>a. raid4_addr h a \<longrightarrow> raid4_vol h st s' a = raid4_vol h st s a))" if s: "raid4_degraded h st (Suc n) d s" and b: "raid4_addr h b"
  proof -
    have inv: "parity_inv h st d s" using s by (simp add: raid4_degraded_def)
    from wp_read_raid4 [OF inv b, of buf] show ?thesis
      by (rule wp_mono) (use s raid4_keep [OF inv] in \<open>auto simp: raid4_degraded_def pages_def\<close>)
  qed
  show "wp (disk_fail_raid4 h d s) (\<lambda>(r, s'). r = 0 \<and> raid4_degraded h st (Suc n) d s' \<and>
      (\<forall>a. raid4_addr h a \<longrightarrow> raid4_vol h st s' a = raid4_vol h st s a))" if s: "raid4_ok h st (Suc n) s" and d: "is_disk h d"
  proof -
    have inv: "parity_inv h st 0 s" and d': "1 \<le> d" "d \<le> int (DISKS h)" using s d by (auto simp: raid4_ok_def is_disk_def)
    have eq: "disk_fail_raid4 h d s = kbind (load_raid_data_cache h s) (\<lambda>s. kbind (store_working h d 0 (stack_junk h) s) (\<lambda>s. Inr (0, s)))"
      using d' by (simp add: disk_fail_raid4_def)
    from wp_fail_parity [OF inv d'] show ?thesis
      unfolding eq
    proof (rule wp_mono, clarify, intro conjI allI impI refl)
      fix t a
      assume t: "parity_inv h st d t" "same_stripes h st s t" "kmem t = kmem s"
      show "raid4_degraded h st (Suc n) d t"
        using s t by (auto simp: raid4_ok_def raid4_degraded_def same_stripes_def pages_def)
      show "raid4_vol h st t a = raid4_vol h st s a" if "raid4_addr h a"
        by (rule raid4_vol_same [OF inv t(2) that])
    qed
  qed
  show "raid4_degraded h st (Suc n) d s' \<and> (\<forall>a. raid4_addr h a \<longrightarrow> raid4_vol h st s' a = raid4_vol h st s a)"
    if s: "raid4_degraded h st (Suc n) d s" and d: "is_disk h d" and loss: "disk_loss h st d s s'"
  proof -
    have inv: "parity_inv h st d s" and d': "1 \<le> d" "d \<le> int (DISKS h)" using s d by (auto simp: raid4_degraded_def is_disk_def)
    note l = raid4_loss [OF inv d' loss]
    have "raid4_degraded h st (Suc n) d s'"
      using s l by (auto simp: raid4_degraded_def same_stripes_def pages_def)
    then show ?thesis using raid4_vol_same [OF inv l(2)] by blast
  qed
  show "wp (disk_repaired_raid4 h d s) (\<lambda>(r, s'). r = 0 \<and> raid4_ok h st n s' \<and>
      (\<forall>a. raid4_addr h a \<longrightarrow> raid4_vol h st s' a = raid4_vol h st s a))" if "raid4_degraded h st (Suc n) d s" "is_disk h d"
    using that by (intro wp_disk_repaired_raid4) (auto simp: is_disk_def)
qed

end
