(* ===== verification/Raid5.thy ===== *)
theory Raid5
  imports Raid4
begin

text \<open>
  RAID level 5 of \<^verbatim>\<open>kernel/raid.c\<close>: the parity block of a stripe moves from disk to disk with the
  stripe's number, block 0 of each disk is its metadata.
\<close>

section \<open>Operations\<close>

definition init_raid5 :: "'m hw \<Rightarrow> 'm kstate \<Rightarrow> (int \<times> 'm kstate) res" where
  "init_raid5 h s =
     (if DISKS h < 1 then Inr (-1, s)
      else kbind (init_disks h \<lparr>raid_type = RAID5, working = 1\<rparr> s) (\<lambda>s.
           Inr (0, s\<lparr>raid_data_cache_loaded := 1\<rparr>)))"

text \<open>Data disk, parity disk and block; with a single disk the division by zero is undefined.\<close>

definition raid5_place :: "'m hw \<Rightarrow> int \<Rightarrow> (int \<times> int \<times> int) res" where
  "raid5_place h blkn =
     (let number_of_disks = int (DISKS h) in
      if number_of_disks - 1 = 0 then Inl BadAccess
      else let stripe = blkn sdiv (number_of_disks - 1);
               parity_location = stripe smod number_of_disks + 1;
               diskn = blkn smod (number_of_disks - 1) + 1;
               diskn = (if diskn \<ge> parity_location then diskn + 1 else diskn);
               blockn = i32 (stripe + 1)
           in Inr (diskn, parity_location, blockn))"

definition read_raid5 :: "'m hw \<Rightarrow> int \<Rightarrow> block \<Rightarrow> 'm kstate \<Rightarrow> (int \<times> block \<times> 'm kstate) res" where
  "read_raid5 h blkn dat s =
     kbind (raid5_place h blkn) (\<lambda>(diskn, parity_location, blockn).
     if blockn > int (NUMBER_OF_BLOCKS h) - 1 then Inr (-1, dat, s)
     else kbind (load_raid_data_cache h s) (\<lambda>s.
          kbind (cache_get (diskn - 1) s) (\<lambda>rd.
          if working rd = 1 then kbind (read_blk h diskn blockn s) (\<lambda>(dat, s). Inr (0, dat, s))
          else kbind (recover_missing_block h blockn diskn zero_block s) (\<lambda>(status, dat, s).
               if status \<noteq> 0 then Inr (-2, dat, s) else Inr (0, dat, s)))))"

text \<open>The working flags are not looked at.\<close>

definition write_raid5 :: "'m hw \<Rightarrow> int \<Rightarrow> block \<Rightarrow> 'm kstate \<Rightarrow> (int \<times> 'm kstate) res" where
  "write_raid5 h blkn dat s =
     kbind (raid5_place h blkn) (\<lambda>(diskn, parity_location, blockn).
     if blockn > int (NUMBER_OF_BLOCKS h) - 1 then Inr (-1, s)
     else let (page, s) = kalloc_s s in
     if page = 0 then Inr (-2, s)
     else kbind (read_blk h parity_location blockn s) (\<lambda>(parity, s).
          kbind (read_blk h diskn blockn s) (\<lambda>(buffer, s).
          let parity = calculate_parity buffer parity;
              parity = calculate_parity dat parity in
          kbind (write_blk h diskn blockn dat s) (\<lambda>s.
          kbind (write_blk h parity_location blockn parity s) (\<lambda>s.
          kbind (kfree_s h page s) (\<lambda>s. Inr (0, s)))))))"

definition disk_fail_raid5 :: "'m hw \<Rightarrow> int \<Rightarrow> 'm kstate \<Rightarrow> (int \<times> 'm kstate) res" where
  "disk_fail_raid5 h diskn s =
     (if diskn < 1 \<or> diskn > int (DISKS h) then Inr (-1, s)
      else kbind (load_raid_data_cache h s) (\<lambda>s.
           kbind (store_working h diskn 0 (stack_junk h) s) (\<lambda>s. Inr (0, s))))"

text \<open>The page is freed at the end only, not when the rebuilding gives up.\<close>

definition disk_repaired_raid5 :: "'m hw \<Rightarrow> int \<Rightarrow> 'm kstate \<Rightarrow> (int \<times> 'm kstate) res" where
  "disk_repaired_raid5 h diskn s =
     (if diskn < 1 \<or> diskn > int (DISKS h) then Inr (-1, s)
      else kbind (load_raid_data_cache h s) (\<lambda>s.
           kbind (cache_get (diskn - 1) s) (\<lambda>rd.
           if working rd = 1 then Inr (0, s)
           else let (page, s) = kalloc_s s in
           if page = 0 then Inr (-2, s)
           else kbind (rebuild_loop h diskn [1..int (NUMBER_OF_BLOCKS h) - 1] s) (\<lambda>(status, s).
                if status \<noteq> 0 then Inr (status, s)
                else kbind (store_working h diskn 1 (stack_junk h) s) (\<lambda>s.
                     kbind (kfree_s h page s) (\<lambda>s. Inr (0, s)))))))"

definition info_raid5 :: "'m hw \<Rightarrow> int \<times> uint32 \<times> uint32 \<times> uint32" where
  "info_raid5 h = (0, word_of_int ((int (DISKS h) - 1) * (int (NUMBER_OF_BLOCKS h) - 1)), of_nat BSIZE, of_nat (DISKS h))"

definition destroy_raid5 :: "'m hw \<Rightarrow> 'm kstate \<Rightarrow> (int \<times> 'm kstate) res" where
  "destroy_raid5 h s = kbind (wipe_disks h s) (\<lambda>s. Inr (0, s))"

section \<open>The volume\<close>

definition raid5_slot :: "'m hw \<Rightarrow> int \<Rightarrow> int \<times> int \<times> int" where
  "raid5_slot h a =
     (let n = int (DISKS h); p = a div (n - 1) mod n + 1; k = a mod (n - 1) + 1
      in (if p \<le> k then k + 1 else k, p, a div (n - 1) + 1))"

definition raid5_addr :: "'m hw \<Rightarrow> int \<Rightarrow> bool" where
  "raid5_addr h a \<longleftrightarrow> 0 \<le> a \<and> snd (snd (raid5_slot h a)) < int (NUMBER_OF_BLOCKS h)"

definition raid5_vol :: "'m hw \<Rightarrow> ('m \<Rightarrow> int \<Rightarrow> int \<Rightarrow> block) \<Rightarrow> 'm kstate \<Rightarrow> int \<Rightarrow> block" where
  "raid5_vol h st s a = (case raid5_slot h a of (d, p, b) \<Rightarrow> stripe_blk h st s d b)"

lemma raid5_slot_valid:
  assumes "hw_ok h" "2 \<le> DISKS h" "raid5_addr h a" "raid5_slot h a = (d, p, b)"
  shows "raid5_place h a = Inr (d, p, b)" "1 \<le> d" "d \<le> int (DISKS h)" "1 \<le> p" "p \<le> int (DISKS h)" "d \<noteq> p"
    "1 \<le> b" "b < int (NUMBER_OF_BLOCKS h)"
proof -
  let ?n = "int (DISKS h)"
  have n: "0 < ?n - 1" "0 < ?n" using assms(2) by simp_all
  define q where "q = a div (?n - 1)"
  define k where "k = a mod (?n - 1) + 1"
  have db: "p = q mod ?n + 1" "d = (if p \<le> k then k + 1 else k)" "b = q + 1"
    using assms(4) by (auto simp: raid5_slot_def Let_def q_def k_def)
  have a: "0 \<le> a" "b < int (NUMBER_OF_BLOCKS h)" using assms(3,4) by (auto simp: raid5_addr_def)
  have k: "1 \<le> k" "k \<le> ?n - 1"
    using pos_mod_bound [OF n(1), of a] pos_mod_sign [OF n(1), of a] unfolding k_def by linarith+
  have q: "0 \<le> q" using a(1) n(1) by (simp add: q_def pos_imp_zdiv_nonneg_iff)
  have p: "1 \<le> p" "p \<le> ?n"
    using pos_mod_bound [OF n(2), of q] pos_mod_sign [OF n(2), of q] unfolding db(1) by linarith+
  then show "1 \<le> p" "p \<le> ?n" by simp_all
  show "1 \<le> d" "d \<le> ?n" "d \<noteq> p" "1 \<le> b" "b < int (NUMBER_OF_BLOCKS h)" using k p q a(2) by (auto simp: db(2,3))
  have "q = a sdiv (?n - 1)" "a smod (?n - 1) + 1 = k" "q smod ?n + 1 = p" using a n q by (simp_all add: q_def k_def db(1))
  then show "raid5_place h a = Inr (d, p, b)"
    using n q blocks_bound [OF assms(1)] a(2) db unfolding raid5_place_def Let_def by simp
qed

lemma raid5_slot_inj:
  assumes "raid5_slot h a = (d, p, b)" "raid5_slot h a' = (d, p', b)"
  shows "a = a'"
proof -
  let ?n = "int (DISKS h)"
  have q: "a div (?n - 1) = a' div (?n - 1)" and p: "p = p'"
    using assms by (auto simp: raid5_slot_def Let_def)
  have "(if p \<le> k then k + 1 else k) = (if p \<le> k' then k' + 1 else k') \<Longrightarrow> k = k'" for k k' :: int
    by (simp split: if_splits)
  from this [of "a mod (?n - 1) + 1" "a' mod (?n - 1) + 1"] have "a mod (?n - 1) = a' mod (?n - 1)"
    using assms p by (auto simp: raid5_slot_def Let_def)
  with q show ?thesis by (metis div_mult_mod_eq)
qed

section \<open>Functional correctness\<close>

lemma wp_read_raid5:
  assumes inv: "parity_inv h st f s" and a: "raid5_addr h a"
  shows "wp (read_raid5 h a dat s) (\<lambda>(r, x, s'). r = 0 \<and> x = raid5_vol h st s a \<and>
    (\<exists>v. s' = s\<lparr>vs := v, raid_data_cache := loaded_cache h st s\<rparr> \<and> drv_ok h st v \<and> st (media v) = blk st s))"
proof -
  note ok = parity_invD(1) [OF inv] and D = parity_invD(2) [OF inv] and fl = parity_invD(3) [OF inv]
  obtain d p b where db: "raid5_slot h a = (d, p, b)" by (metis prod_cases3)
  note sl = raid5_slot_valid [OF kst_okD(2) [OF ok] D a db]
  have val: "raid_block h d b" using sl by (simp add: raid_block_def)
  have w: "working (loaded_cache h st s ! nat (d - 1)) = (if d = f then 0 else 1)" using fl [of d] sl by simp
  have others: "\<forall>k \<in> {1..int (DISKS h)}. k \<noteq> f \<longrightarrow> working (loaded_cache h st s ! nat (k - 1)) \<noteq> 0"
    using fl by auto
  have x: "raid5_vol h st s a = (if d = f then xor_others h (blk st s) f b else blk st s d b)"
    using stripe_blk_eq [OF inv sl(2,3), of b] by (simp add: raid5_vol_def db)
  have rec: "wp (recover_missing_block h b f zero_block (s\<lparr>vs := v, raid_data_cache := loaded_cache h st s\<rparr>))
      (\<lambda>(status, dat, s'). status = 0 \<and> dat = xor_others h (blk st s) f b \<and>
        (\<exists>v. s' = s\<lparr>vs := v, raid_data_cache := loaded_cache h st s\<rparr> \<and> drv_ok h st v \<and> st (media v) = blk st s))"
    if v: "drv_ok h st v" "st (media v) = blk st s" for v
  proof (rule wp_recover_missing_block)
    show "kst_ok h st (s\<lparr>vs := v, raid_data_cache := loaded_cache h st s\<rparr>)" using ok v by simp
  qed (use sl others loaded_cache_same [where st = st, OF v(2), of h] v in auto)
  have "wp (load_raid_data_cache h s) (\<lambda>s'. wp (kbind (cache_get (d - 1) s') (\<lambda>rd.
      if working rd = 1 then kbind (read_blk h d b s') (\<lambda>(dat, s). Inr (0, dat, s))
      else kbind (recover_missing_block h b d zero_block s') (\<lambda>(status, dat, s).
           if status \<noteq> 0 then Inr (-2, dat, s) else Inr (0, dat, s))))
    (\<lambda>(r, x, s'). r = 0 \<and> x = raid5_vol h st s a \<and>
      (\<exists>v. s' = s\<lparr>vs := v, raid_data_cache := loaded_cache h st s\<rparr> \<and> drv_ok h st v \<and> st (media v) = blk st s)))"
  proof (rule wp_load_raid_data_cache [OF ok], goal_cases)
    case (1 v)
    show ?case
      using rec [OF 1] 1 sl ok val w x by (auto intro!: wp_read_blk [of h st] ex_vs elim!: wp_mono)
  qed
  then show ?thesis using sl by (simp add: read_raid5_def del: wp_kbind, simp)
qed

text \<open>Every write succeeds with a free page; the media change as a read-modify-write.\<close>

lemma wp_write_raid5_run:
  assumes ok: "kst_ok h st s" and D: "2 \<le> DISKS h" and a: "raid5_addr h a" and x: "length x = BSIZE" and pg: "pages h 1 s"
    and db: "raid5_slot h a = (d, p, b)"
  shows "wp (write_raid5 h a x s) (\<lambda>(r, s'). r = 0 \<and>
    (\<exists>v. s' = s\<lparr>vs := v\<rparr> \<and> drv_ok h st v \<and> st (media v) = rmw (blk st s) d p b x))"
proof -
  note sl = raid5_slot_valid [OF kst_okD(2) [OF ok] D a db]
  have val: "raid_block h d b" "raid_block h p b" using sl by (simp_all add: raid_block_def)
  have len: "length (blk st s p b) = BSIZE" by (rule length_blk [OF kst_okD(1) [OF ok] val(2)])
  obtain q km where q: "kalloc (kmem s) = (q, km)" "q \<noteq> 0" "kfree (kend h) q km = Inr (kmem s)"
    by (rule pages_kalloc [OF pg [unfolded One_nat_def]])
  have al: "kalloc_s s = (q, s\<lparr>kmem := km\<rparr>)" using q(1) by (simp add: kalloc_s_def)
  have fr: "kfree_s h q (s\<lparr>vs := v, kmem := km\<rparr>) = Inr (s\<lparr>vs := v\<rparr>)" for v
    using q(3) by (cases s) (simp add: kfree_s_def)
  have pick: "P v \<Longrightarrow> \<exists>v'. s\<lparr>vs := v\<rparr> = s\<lparr>vs := v'\<rparr> \<and> P v'" for P v by blast
  show ?thesis
    unfolding write_raid5_def using sl val len ok x q(2)
    by (auto simp: al fr rmw_def intro!: wp_read_blk [of h st] wp_write_blk [of h st] pick)
qed

lemma raid5_cache_keep:
  assumes "st (media v) = rmw (blk st s) d p b x" "1 \<le> b"
  shows "loaded_cache h st (s\<lparr>vs := v\<rparr>) = loaded_cache h st s"
  using assms by (auto simp: loaded_cache_def rmw_apply)

lemma wp_write_raid5:
  assumes inv: "parity_inv h st f s" and a: "raid5_addr h a" and x: "length x = BSIZE" and pg: "pages h 1 s"
    and f: "fst (raid5_slot h a) \<noteq> f"
  shows "wp (write_raid5 h a x s) (\<lambda>(r, s'). r = 0 \<and> parity_inv h st f s' \<and> kmem s' = kmem s \<and>
    (\<forall>c. raid5_addr h c \<longrightarrow> raid5_vol h st s' c = (if c = a then x else raid5_vol h st s c)))"
proof -
  note ok = parity_invD(1) [OF inv] and D = parity_invD(2) [OF inv]
  obtain d p b where db: "raid5_slot h a = (d, p, b)" by (metis prod_cases3)
  note sl = raid5_slot_valid [OF kst_okD(2) [OF ok] D a db]
  have df: "d \<noteq> f" using f db by simp
  from wp_write_raid5_run [OF ok D a x pg db] show ?thesis
  proof (rule wp_mono, clarify, intro conjI allI impI refl)
    fix v
    let ?s = "s\<lparr>vs := v\<rparr>"
    assume v: "drv_ok h st v" "st (media v) = rmw (blk st s) d p b x"
    have m: "blk st ?s = rmw (blk st s) d p b x" using v(2) by simp
    have ok': "kst_ok h st ?s" using ok v(1) by simp
    note lc = raid5_cache_keep [where st = st, OF v(2) sl(7), of h]
    have "parity_inv h st f ?s \<and> (\<forall>k c. 1 \<le> k \<longrightarrow> k \<le> int (DISKS h) \<longrightarrow> (k, c) \<noteq> (p, b) \<longrightarrow>
        stripe_blk h st ?s k c = (if k = d \<and> c = b then x else stripe_blk h st s k c))"
    proof (cases "p = f")
      case True
      note rmw = parity_rmw_no_parity [OF inv [folded True] sl(6,4) ok' lc m]
      show ?thesis using rmw True by auto
    next
      case False
      show ?thesis using parity_rmw [OF inv sl(2,3) df sl(4,5) False sl(6-8) ok' lc m] by auto
    qed
    then have inv': "parity_inv h st f ?s" and data: "\<And>k c. 1 \<le> k \<Longrightarrow> k \<le> int (DISKS h) \<Longrightarrow> (k, c) \<noteq> (p, b) \<Longrightarrow>
        stripe_blk h st ?s k c = (if k = d \<and> c = b then x else stripe_blk h st s k c)" by auto
    show "parity_inv h st f ?s" by (rule inv')
    fix c
    assume c: "raid5_addr h c"
    obtain e q g where eg: "raid5_slot h c = (e, q, g)" by (metis prod_cases3)
    note sc = raid5_slot_valid [OF kst_okD(2) [OF ok] D c eg]
    have "g = b \<Longrightarrow> q = p" using db eg by (auto simp: raid5_slot_def Let_def)
    then have "(e, g) \<noteq> (p, b)" using sc(6) by auto
    moreover have "e = d \<and> g = b \<longleftrightarrow> c = a" using raid5_slot_inj [of h c d q b a p] eg db by auto
    ultimately show "raid5_vol h st ?s c = (if c = a then x else raid5_vol h st s c)"
      using data [OF sc(2,3)] eg by (simp add: raid5_vol_def)
  qed simp
qed

text \<open>
  A write to a failed disk takes the old content of that disk, whatever it is, out of the parity:
  what is read afterwards differs from the data by exactly the damage of the disk.
\<close>

lemma write_raid5_failed_disk:
  assumes inv: "parity_inv h st d s" and a: "raid5_addr h a" and x: "length x = BSIZE" and pg: "pages h 1 s"
    and db: "raid5_slot h a = (d, p, b)"
  shows "wp (write_raid5 h a x s) (\<lambda>(r, s'). r = 0 \<and>
    (\<forall>i < BSIZE. raid5_vol h st s' a ! i = x ! i XOR (raid5_vol h st s a ! i XOR blk st s d b ! i)))"
proof -
  note ok = parity_invD(1) [OF inv] and D = parity_invD(2) [OF inv]
  note sl = raid5_slot_valid [OF kst_okD(2) [OF ok] D a db]
  have mem: "d \<in> set (raid_disks h)" "p \<in> set (raid_disks h)" using sl by simp_all
  have "raid_block h p b" using sl by (simp add: raid_block_def)
  then have len: "length (blk st s p b) = BSIZE" by (rule length_blk [OF kst_okD(1) [OF ok]])
  from wp_write_raid5_run [OF ok D a x pg db] show ?thesis
  proof (rule wp_mono, clarify, intro conjI allI impI refl)
    fix v i
    let ?s = "s\<lparr>vs := v\<rparr>"
    assume v: "drv_ok h st v" "st (media v) = rmw (blk st s) d p b x" and i: "i < BSIZE"
    note lc = raid5_cache_keep [where st = st, OF v(2) sl(7), of h]
    have w: "working (loaded_cache h st s ! nat (d - 1)) = 0" using parity_invD(3) [OF inv sl(2,3)] by simp
    have new: "raid5_vol h st ?s a = xor_others h (rmw (blk st s) d p b x) d b"
      using w lc v(2) by (simp add: raid5_vol_def db stripe_blk_def)
    have old: "raid5_vol h st s a = xor_others h (blk st s) d b"
      using w by (simp add: raid5_vol_def db stripe_blk_def)
    show "raid5_vol h st ?s a ! i = x ! i XOR (raid5_vol h st s a ! i XOR blk st s d b ! i)"
      unfolding new old nth_xor_others [OF mem(1) i]
      using rmw_total [of d h p "blk st s" b, OF mem sl(6) len i] sl(6) by (simp add: rmw_apply xor_ac)
  qed
qed

section \<open>The interfaces\<close>

definition raid5_ok :: "'m hw \<Rightarrow> ('m \<Rightarrow> int \<Rightarrow> int \<Rightarrow> block) \<Rightarrow> 'm kstate \<Rightarrow> bool" where
  "raid5_ok h st s \<longleftrightarrow> parity_inv h st 0 s \<and> pages h 1 s"

definition raid5_degraded :: "'m hw \<Rightarrow> ('m \<Rightarrow> int \<Rightarrow> int \<Rightarrow> block) \<Rightarrow> int \<Rightarrow> 'm kstate \<Rightarrow> bool" where
  "raid5_degraded h st d s \<longleftrightarrow> parity_inv h st d s \<and> pages h 1 s"

lemma raid5_vol_same:
  assumes "parity_inv h st f s" "same_stripes h st s s'" "raid5_addr h a"
  shows "raid5_vol h st s' a = raid5_vol h st s a"
proof -
  obtain d p b where db: "raid5_slot h a = (d, p, b)" by (metis prod_cases3)
  show ?thesis
    using raid5_slot_valid [OF kst_okD(2) [OF parity_invD(1) [OF assms(1)]] parity_invD(2) [OF assms(1)] assms(3) db] assms(2)
    by (simp add: raid5_vol_def db same_stripes_def)
qed

lemma raid5_keep:
  assumes "parity_inv h st f s" "drv_ok h st v" "st (media v) = blk st s"
  shows "parity_inv h st f (s\<lparr>vs := v, raid_data_cache := loaded_cache h st s\<rparr>)"
    and "raid5_vol h st (s\<lparr>vs := v, raid_data_cache := loaded_cache h st s\<rparr>) a = raid5_vol h st s a"
proof -
  let ?s = "s\<lparr>vs := v, raid_data_cache := loaded_cache h st s\<rparr>"
  have "kst_ok h st ?s" using parity_invD(1) [OF assms(1)] assms(2) by simp
  note same = parity_same [OF assms(1) this loaded_cache_same [where st = st, OF assms(3)]]
  show "parity_inv h st f ?s" by (rule same(1)) (use assms in simp)
  have "stripe_blk h st ?s k b = stripe_blk h st s k b" for k b by (rule same(2)) (use assms in simp)
  then show "raid5_vol h st ?s a = raid5_vol h st s a" by (simp add: raid5_vol_def)
qed

lemma wp_disk_repaired_raid5:
  assumes inv: "parity_inv h st d s" and pg: "pages h 1 s" and d: "1 \<le> d" "d \<le> int (DISKS h)"
  shows "wp (disk_repaired_raid5 h d s) (\<lambda>(r, s'). r = 0 \<and> parity_inv h st 0 s' \<and> same_stripes h st s s' \<and> kmem s' = kmem s)"
proof -
  note ok = parity_invD(1) [OF inv] and fl = parity_invD(3) [OF inv d]
  obtain p km where p: "kalloc (kmem s) = (p, km)" "p \<noteq> 0" "kfree (kend h) p km = Inr (kmem s)"
    by (rule pages_kalloc [OF pg [unfolded One_nat_def]])
  have tail: "wp (kbind (rebuild_loop h d [1..int (NUMBER_OF_BLOCKS h) - 1] t) (\<lambda>(status, s).
      if status \<noteq> 0 then Inr (status, s) else kbind (store_working h d 1 (stack_junk h) s) (\<lambda>s. kbind (kfree_s h p s) (\<lambda>s. Inr (0, s)))))
    (\<lambda>(r, s'). r = 0 \<and> parity_inv h st 0 s' \<and> same_stripes h st s s' \<and> kmem s' = kmem s)"
    if v: "drv_ok h st v" "st (media v) = blk st s" and t: "t = s\<lparr>vs := v, raid_data_cache := loaded_cache h st s, kmem := km\<rparr>" for v t
  proof -
    have ok': "kst_ok h st t" using ok v(1) by (simp add: t)
    have lc: "loaded_cache h st t = loaded_cache h st s" by (rule loaded_cache_keep) (use v t in auto)
    have b: "blk st t = blk st s" using v(2) t by simp
    have inv': "parity_inv h st d t" by (rule parity_same(1) [OF inv ok' lc b])
    have c: "raid_data_cache t = loaded_cache h st t" using lc t by simp
    have fin: "wp (kfree_s h p u) (\<lambda>s'. parity_inv h st 0 s' \<and> same_stripes h st s s' \<and> kmem s' = kmem s)"
      if u: "parity_inv h st 0 u" "same_stripes h st t u" "kmem u = kmem t" for u
    proof -
      have "kfree_s h p u = Inr (u\<lparr>kmem := kmem s\<rparr>)" using p(3) u(3) t by (simp add: kfree_s_def)
      moreover have oku: "kst_ok h st (u\<lparr>kmem := kmem s\<rparr>)" using parity_invD(1) [OF u(1)] by simp
      moreover have lcu: "loaded_cache h st (u\<lparr>kmem := kmem s\<rparr>) = loaded_cache h st u" by (simp add: loaded_cache_def)
      moreover have bu: "blk st (u\<lparr>kmem := kmem s\<rparr>) = blk st u" by simp
      moreover note pu = parity_same [OF u(1) oku lcu bu]
      moreover have "same_stripes h st s (u\<lparr>kmem := kmem s\<rparr>)"
        using u(2) pu(2) parity_same(2) [OF inv ok' lc b] t by (simp add: same_stripes_def)
      ultimately show ?thesis by simp
    qed
    show ?thesis
      unfolding wp_kbind [of "rebuild_loop h d _ t"]
      using wp_rebuild_parity [OF inv' d c]
    proof (rule wp_mono, clarify)
      fix w
      assume "wp (store_working h d 1 (stack_junk h) w) (\<lambda>s'. parity_inv h st 0 s' \<and> same_stripes h st t s' \<and> kmem s' = kmem t)"
      then have "wp (store_working h d 1 (stack_junk h) w) (\<lambda>u. wp (kfree_s h p u) (\<lambda>s'. parity_inv h st 0 s' \<and> same_stripes h st s s' \<and> kmem s' = kmem s))"
        by (rule wp_mono) (use fin in blast)
      then show "wp (if (0 :: int) \<noteq> 0 then Inr (0, w) else kbind (store_working h d 1 (stack_junk h) w) (\<lambda>s. kbind (kfree_s h p s) (\<lambda>s. Inr (0, s))))
          (\<lambda>(r, s'). r = 0 \<and> parity_inv h st 0 s' \<and> same_stripes h st s s' \<and> kmem s' = kmem s)" by simp
    qed
  qed
  have al: "kalloc_s (s\<lparr>vs := v, raid_data_cache := c\<rparr>) = (p, s\<lparr>vs := v, raid_data_cache := c, kmem := km\<rparr>)" for v c
    using p(1) by (simp add: kalloc_s_def)
  show ?thesis
    unfolding disk_repaired_raid5_def using d
    by (simp add: wp_kbind [of "load_raid_data_cache h s"] del: wp_kbind)
      (rule wp_load_raid_data_cache [OF ok], use d fl ok p(2) tail in \<open>simp add: al del: wp_kbind\<close>)
qed

interpretation r5: redundant_volume "read_raid5 h" "write_raid5 h" "raid5_vol h st" "raid5_ok h st" "raid5_addr h"
  "disk_fail_raid5 h" "disk_repaired_raid5 h" "raid5_degraded h st" "is_disk h" "disk_loss h st" "raid5_ok h st"
  for h :: "'m hw" and st
proof
  fix s b d s' and buf x :: block
  have post: "raid5_degraded h st f t \<and> (\<forall>a. raid5_addr h a \<longrightarrow> raid5_vol h st t a = raid5_vol h st s a)"
    if "parity_inv h st g s" "pages h 1 s" "parity_inv h st f t" "same_stripes h st s t" "kmem t = kmem s" for f g t
    using that(2,3) pages_cong [OF that(5), of h 1] raid5_vol_same [OF that(1,4)] by (simp add: raid5_degraded_def)
  show "wp (read_raid5 h b buf s) (\<lambda>(r, x, s'). r = 0 \<and> x = raid5_vol h st s b \<and> raid5_ok h st s' \<and>
      (\<forall>a. raid5_addr h a \<longrightarrow> raid5_vol h st s' a = raid5_vol h st s a))" if s: "raid5_ok h st s" and b: "raid5_addr h b"
  proof -
    have inv: "parity_inv h st 0 s" using s by (simp add: raid5_ok_def)
    from wp_read_raid5 [OF inv b, of buf] show ?thesis
      by (rule wp_mono) (use s raid5_keep [OF inv] in \<open>auto simp: raid5_ok_def pages_def\<close>)
  qed
  show "wp (write_raid5 h b x s) (\<lambda>(r, s'). r = 0 \<and> raid5_ok h st s' \<and>
      (\<forall>a. raid5_addr h a \<longrightarrow> raid5_vol h st s' a = (if a = b then x else raid5_vol h st s a)))"
    if s: "raid5_ok h st s" and b: "raid5_addr h b" and x: "length x = BSIZE"
  proof -
    have inv: "parity_inv h st 0 s" and pg: "pages h 1 s" using s by (auto simp: raid5_ok_def)
    obtain e q g where eg: "raid5_slot h b = (e, q, g)" by (metis prod_cases3)
    have "fst (raid5_slot h b) \<noteq> 0"
      using raid5_slot_valid [OF kst_okD(2) [OF parity_invD(1) [OF inv]] parity_invD(2) [OF inv] b eg] eg by auto
    from wp_write_raid5 [OF inv b x pg this] show ?thesis
      by (rule wp_mono) (use s in \<open>auto simp: raid5_ok_def pages_def\<close>)
  qed
  show "wp (read_raid5 h b buf s) (\<lambda>(r, x, s'). r = 0 \<and> x = raid5_vol h st s b \<and> raid5_degraded h st d s' \<and>
      (\<forall>a. raid5_addr h a \<longrightarrow> raid5_vol h st s' a = raid5_vol h st s a))" if s: "raid5_degraded h st d s" and b: "raid5_addr h b"
  proof -
    have inv: "parity_inv h st d s" using s by (simp add: raid5_degraded_def)
    from wp_read_raid5 [OF inv b, of buf] show ?thesis
      by (rule wp_mono) (use s raid5_keep [OF inv] in \<open>auto simp: raid5_degraded_def pages_def\<close>)
  qed
  show "wp (disk_fail_raid5 h d s) (\<lambda>(r, s'). r = 0 \<and> raid5_degraded h st d s' \<and>
      (\<forall>a. raid5_addr h a \<longrightarrow> raid5_vol h st s' a = raid5_vol h st s a))" if s: "raid5_ok h st s" and d: "is_disk h d"
  proof -
    have inv: "parity_inv h st 0 s" "pages h 1 s" and d': "1 \<le> d" "d \<le> int (DISKS h)" using s d by (auto simp: raid5_ok_def is_disk_def)
    have eq: "disk_fail_raid5 h d s = kbind (load_raid_data_cache h s) (\<lambda>s. kbind (store_working h d 0 (stack_junk h) s) (\<lambda>s. Inr (0, s)))"
      using d' by (simp add: disk_fail_raid5_def)
    from wp_fail_parity [OF inv(1) d'] show ?thesis
      unfolding eq by (rule wp_mono) (use post [OF inv] in blast)
  qed
  show "raid5_degraded h st d s' \<and> (\<forall>a. raid5_addr h a \<longrightarrow> raid5_vol h st s' a = raid5_vol h st s a)"
    if s: "raid5_degraded h st d s" and d: "is_disk h d" and loss: "disk_loss h st d s s'"
  proof -
    have inv: "parity_inv h st d s" "pages h 1 s" and d': "1 \<le> d" "d \<le> int (DISKS h)" using s d by (auto simp: raid5_degraded_def is_disk_def)
    show ?thesis by (rule post [OF inv raid4_loss [OF inv(1) d' loss]])
  qed
  show "wp (disk_repaired_raid5 h d s) (\<lambda>(r, s'). r = 0 \<and> raid5_ok h st s' \<and>
      (\<forall>a. raid5_addr h a \<longrightarrow> raid5_vol h st s' a = raid5_vol h st s a))" if s: "raid5_degraded h st d s" and d: "is_disk h d"
  proof -
    have inv: "parity_inv h st d s" "pages h 1 s" and d': "1 \<le> d" "d \<le> int (DISKS h)" using s d by (auto simp: raid5_degraded_def is_disk_def)
    from wp_disk_repaired_raid5 [OF inv d'] show ?thesis
      by (rule wp_mono) (use post [OF inv] in \<open>auto simp: raid5_degraded_def raid5_ok_def\<close>)
  qed
qed

end
