(* ===== verification/Raid_Api.thy ===== *)
theory Raid_Api
  imports Raid0 Raid1 Raid01 Raid5
begin

text \<open>
  The entry points of \<^verbatim>\<open>kernel/raid.c\<close> that the system calls use: one sleep lock around each call,
  the type of the array from the global \<^verbatim>\<open>raid\<close> or, when that is not known, from block 0 of disk 1,
  and the dispatch to the level. \<open>p\<close> is the pid of the caller.
\<close>

section \<open>The lock\<close>

definition init_raidlock :: "'m kstate \<Rightarrow> 'm kstate" where
  "init_raidlock s = s\<lparr>raid_lock := initsleeplock ''raid_lock''\<rparr>"

text \<open>The calling hart's interrupt state and the lock, as the lock operations leave them.\<close>

definition relock :: "cpu \<Rightarrow> sleeplock \<Rightarrow> 'm kstate \<Rightarrow> 'm kstate" where
  "relock c sl s = s\<lparr>vs := (vs s)\<lparr>vcpu := c\<rparr>, raid_lock := sl\<rparr>"

definition lock :: "int \<Rightarrow> 'm kstate \<Rightarrow> 'm kstate res" where
  "lock p s = kbind (acquiresleep (hart (vs s)) p (vcpu (vs s), raid_lock s)) (\<lambda>(c, sl). Inr (relock c sl s))"

definition unlock :: "'m kstate \<Rightarrow> 'm kstate res" where
  "unlock s = kbind (releasesleep (hart (vs s)) (vcpu (vs s), raid_lock s)) (\<lambda>(c, sl). Inr (relock c sl s))"

section \<open>The type of the array\<close>

text \<open>
  \<^verbatim>\<open>raid.working\<close> is an unsigned char: the value stored as -1 is 255, and the comparison with -1 is
  made after its promotion to \<^verbatim>\<open>int\<close>.
\<close>

definition check_raid :: "'m hw \<Rightarrow> 'm kstate \<Rightarrow> (uint32 \<times> 'm kstate) res" where
  "check_raid h s =
     (if working (raid s) = 1 \<or> uint (working (raid s)) = -1 then Inr (raid_type (raid s), s)
      else kbind (read_blk h 1 0 s) (\<lambda>(buffer, s).
           let rd = raid_of_bytes (deserialize (raid_bytes h (raid s)) raid_data_size buffer);
               rd = (if raid_type rd = RAID0 \<or> raid_type rd = RAID1 \<or> raid_type rd = RAID0_1 \<or>
                        raid_type rd = RAID4 \<or> raid_type rd = RAID5
                     then rd\<lparr>working := 1\<rparr>
                     else rd\<lparr>raid_type := RAID_NONE, working := 255\<rparr>)
           in Inr (raid_type rd, s\<lparr>raid := rd\<rparr>)))"

section \<open>The entry points\<close>

definition init_raid :: "'m hw \<Rightarrow> int \<Rightarrow> uint32 \<Rightarrow> 'm kstate \<Rightarrow> (int \<times> 'm kstate) res" where
  "init_raid h p ty s =
     kbind (lock p s) (\<lambda>s.
     kbind (if ty = RAID0 then init_raid0 h s
            else if ty = RAID1 then init_raid1 h s
            else if ty = RAID0_1 then init_raid01 h s
            else if ty = RAID4 then init_raid4 h s
            else if ty = RAID5 then init_raid5 h s
            else Inr (-1, s)) (\<lambda>(ret, s).
     let s = (if ret = 0 then s\<lparr>raid := \<lparr>raid_type = ty, working = 1\<rparr>\<rparr>
              else s\<lparr>raid := \<lparr>raid_type = RAID_NONE, working = 255\<rparr>\<rparr>) in
     kbind (unlock s) (\<lambda>s. Inr (ret, s))))"

text \<open>With no array the functions below return without releasing the lock.\<close>

definition read_raid :: "'m hw \<Rightarrow> int \<Rightarrow> int \<Rightarrow> block \<Rightarrow> 'm kstate \<Rightarrow> (int \<times> block \<times> 'm kstate) res" where
  "read_raid h p blkn dat s =
     kbind (lock p s) (\<lambda>s.
     kbind (check_raid h s) (\<lambda>(ty, s).
     if ty = RAID_NONE then Inr (-1, dat, s)
     else kbind (if ty = RAID0 then read_raid0 h blkn dat s
                 else if ty = RAID1 then read_raid1 h blkn dat s
                 else if ty = RAID0_1 then read_raid01 h blkn dat s
                 else if ty = RAID4 then read_raid4 h blkn dat s
                 else if ty = RAID5 then read_raid5 h blkn dat s
                 else Inr (-1, dat, s)) (\<lambda>(ret, dat, s).
          kbind (unlock s) (\<lambda>s. Inr (ret, dat, s)))))"

definition write_raid :: "'m hw \<Rightarrow> int \<Rightarrow> int \<Rightarrow> block \<Rightarrow> 'm kstate \<Rightarrow> (int \<times> 'm kstate) res" where
  "write_raid h p blkn dat s =
     kbind (lock p s) (\<lambda>s.
     kbind (check_raid h s) (\<lambda>(ty, s).
     if ty = RAID_NONE then Inr (-1, s)
     else kbind (if ty = RAID0 then write_raid0 h blkn dat s
                 else if ty = RAID1 then write_raid1 h blkn dat s
                 else if ty = RAID0_1 then write_raid01 h blkn dat s
                 else if ty = RAID4 then write_raid4 h blkn dat s
                 else if ty = RAID5 then write_raid5 h blkn dat s
                 else Inr (-1, s)) (\<lambda>(ret, s).
          kbind (unlock s) (\<lambda>s. Inr (ret, s)))))"

definition disk_fail_raid :: "'m hw \<Rightarrow> int \<Rightarrow> int \<Rightarrow> 'm kstate \<Rightarrow> (int \<times> 'm kstate) res" where
  "disk_fail_raid h p diskn s =
     kbind (lock p s) (\<lambda>s.
     kbind (check_raid h s) (\<lambda>(ty, s).
     if ty = RAID_NONE then Inr (-1, s)
     else kbind (if ty = RAID0 then disk_fail_raid0 h diskn s
                 else if ty = RAID1 then disk_fail_raid1 h diskn s
                 else if ty = RAID0_1 then disk_fail_raid01 h diskn s
                 else if ty = RAID4 then disk_fail_raid4 h diskn s
                 else if ty = RAID5 then disk_fail_raid5 h diskn s
                 else Inr (-1, s)) (\<lambda>(ret, s).
          kbind (unlock s) (\<lambda>s. Inr (ret, s)))))"

definition disk_repaired_raid :: "'m hw \<Rightarrow> int \<Rightarrow> int \<Rightarrow> 'm kstate \<Rightarrow> (int \<times> 'm kstate) res" where
  "disk_repaired_raid h p diskn s =
     kbind (lock p s) (\<lambda>s.
     kbind (check_raid h s) (\<lambda>(ty, s).
     if ty = RAID_NONE then Inr (-1, s)
     else kbind (if ty = RAID0 then disk_repaired_raid0 h diskn s
                 else if ty = RAID1 then disk_repaired_raid1 h diskn s
                 else if ty = RAID0_1 then disk_repaired_raid01 h diskn s
                 else if ty = RAID4 then disk_repaired_raid4 h diskn s
                 else if ty = RAID5 then disk_repaired_raid5 h diskn s
                 else Inr (-1, s)) (\<lambda>(ret, s).
          kbind (unlock s) (\<lambda>s. Inr (ret, s)))))"

text \<open>The three output words keep the caller's values \<open>out\<close> when nothing is stored.\<close>

definition info_raid :: "'m hw \<Rightarrow> int \<Rightarrow> uint32 \<times> uint32 \<times> uint32 \<Rightarrow> 'm kstate \<Rightarrow> (int \<times> (uint32 \<times> uint32 \<times> uint32) \<times> 'm kstate) res" where
  "info_raid h p out s =
     kbind (lock p s) (\<lambda>s.
     kbind (check_raid h s) (\<lambda>(ty, s).
     if ty = RAID_NONE then Inr (-1, out, s)
     else let (ret, out) = (if ty = RAID0 then info_raid0 h
                 else if ty = RAID1 then info_raid1 h
                 else if ty = RAID0_1 then info_raid01 h
                 else if ty = RAID4 then info_raid4 h
                 else if ty = RAID5 then info_raid5 h
                 else (-1, out)) in
          kbind (unlock s) (\<lambda>s. Inr (ret, out, s))))"

definition destroy_raid :: "'m hw \<Rightarrow> int \<Rightarrow> 'm kstate \<Rightarrow> (int \<times> 'm kstate) res" where
  "destroy_raid h p s =
     kbind (lock p s) (\<lambda>s.
     kbind (check_raid h s) (\<lambda>(ty, s).
     if ty = RAID_NONE then Inr (-1, s)
     else kbind (if ty = RAID0 then destroy_raid0 h s
                 else if ty = RAID1 then destroy_raid1 h s
                 else if ty = RAID0_1 then destroy_raid01 h s
                 else if ty = RAID4 then destroy_raid4 h s
                 else if ty = RAID5 then destroy_raid5 h s
                 else Inr (-1, s)) (\<lambda>(ret, s).
          let s = s\<lparr>raid := \<lparr>raid_type = RAID_NONE, working = 255\<rparr>\<rparr> in
          kbind (unlock s) (\<lambda>s. Inr (ret, s)))))"

section \<open>Locking\<close>

lemma relock_sel [simp]:
  "raid_data_cache (relock c sl s) = raid_data_cache s" "raid_data_cache_loaded (relock c sl s) = raid_data_cache_loaded s"
  "raid (relock c sl s) = raid s" "raid_lock (relock c sl s) = sl" "kmem (relock c sl s) = kmem s"
  "media (vs (relock c sl s)) = media (vs s)" "vcpu (vs (relock c sl s)) = c" "hart (vs (relock c sl s)) = hart (vs s)"
  by (simp_all add: relock_def)

lemma loaded_cache_relock [simp]: "loaded_cache h st (relock c sl s) = loaded_cache h st s"
  by (simp add: loaded_cache_def)

lemma drv_ok_vcpu: "drv_ok h st v \<Longrightarrow> cpu_ok c \<Longrightarrow> drv_ok h st (v\<lparr>vcpu := c\<rparr>)"
  by (simp add: drv_ok_def vok_def del: kst_okD length_blk)

lemma kst_ok_relock:
  assumes "kst_ok h st s" "cpu_ok c"
  shows "kst_ok h st (relock c sl s)"
proof -
  have "drv_ok h st ((vs s)\<lparr>vcpu := c\<rparr>)" by (rule drv_ok_vcpu [OF kst_okD(1) [OF assms(1)] assms(2)])
  then have "kst_ok h st (s\<lparr>vs := (vs s)\<lparr>vcpu := c\<rparr>\<rparr>)" by (rule kst_ok_vs [OF assms(1)])
  then show ?thesis by (simp add: relock_def)
qed

lemma cpu_of_kst: "kst_ok h st s \<Longrightarrow> cpu_ok (vcpu (vs s))"
  using kst_okD(1) [of h st s] unfolding drv_ok_def vok_def by blast

definition lock_free :: "'m kstate \<Rightarrow> bool" where
  "lock_free s \<longleftrightarrow> sl_ok (raid_lock s) \<and> sl_locked (raid_lock s) = 0"

definition lock_held :: "'m kstate \<Rightarrow> bool" where
  "lock_held s \<longleftrightarrow> sl_ok (raid_lock s) \<and> sl_locked (raid_lock s) \<noteq> 0"

lemma lock_free_taken:
  assumes "lock_free s" "cpu_ok (vcpu (vs s))"
  shows "\<exists>c sl. lock p s = Inr (relock c sl s) \<and> cpu_ok c \<and> lock_held (relock c sl s)"
proof -
  obtain c where "acquiresleep (hart (vs s)) p (vcpu (vs s), raid_lock s) = Inr (c, (raid_lock s)\<lparr>sl_locked := 1, sl_pid := p\<rparr>)" "cpu_ok c"
    using acquiresleep_free [of "raid_lock s" "vcpu (vs s)" "hart (vs s)" p] assms by (auto simp: lock_free_def)
  then show ?thesis
    using assms(1) by (intro exI [of _ c] exI [of _ "(raid_lock s)\<lparr>sl_locked := 1, sl_pid := p\<rparr>"])
      (simp add: lock_def lock_held_def lock_free_def sl_ok_def)
qed

lemma lock_held_blocks: "lock_held s \<Longrightarrow> lock p s = Inl Blocked"
  by (simp add: lock_def lock_held_def acquiresleep_taken)

lemma unlock_held:
  assumes "lock_held s" "cpu_ok (vcpu (vs s))"
  shows "\<exists>c sl. unlock s = Inr (relock c sl s) \<and> cpu_ok c \<and> lock_free (relock c sl s)"
proof -
  obtain c where "releasesleep (hart (vs s)) (vcpu (vs s), raid_lock s) = Inr (c, (raid_lock s)\<lparr>sl_locked := 0, sl_pid := 0\<rparr>)" "cpu_ok c"
    using releasesleep_ok [of "raid_lock s" "vcpu (vs s)" "hart (vs s)"] assms by (auto simp: lock_held_def)
  then show ?thesis
    using assms(1) by (intro exI [of _ c] exI [of _ "(raid_lock s)\<lparr>sl_locked := 0, sl_pid := 0\<rparr>"])
      (simp add: unlock_def lock_held_def lock_free_def sl_ok_def)
qed

section \<open>The levels leave the lock and the global record alone\<close>

definition keeps :: "'m kstate \<Rightarrow> 'm kstate \<Rightarrow> bool" where
  "keeps s s' \<longleftrightarrow> raid s' = raid s \<and> raid_lock s' = raid_lock s"

lemma keeps_refl [simp]: "keeps s s"
  by (simp add: keeps_def)

lemma keeps_trans: "keeps s s' \<Longrightarrow> keeps s' s'' \<Longrightarrow> keeps s s''"
  by (simp add: keeps_def)

lemma keeps_upd [simp]:
  "keeps s (s'\<lparr>vs := v\<rparr>) = keeps s s'" "keeps s (s'\<lparr>raid_data_cache := c\<rparr>) = keeps s s'"
  "keeps s (s'\<lparr>raid_data_cache_loaded := l\<rparr>) = keeps s s'" "keeps s (s'\<lparr>kmem := km\<rparr>) = keeps s s'"
  by (simp_all add: keeps_def)

text \<open>Every rule speaks of a state \<open>s0\<close> from which the current one is reached.\<close>

lemma pc_prim [pc_rules]:
  assumes "keeps s0 s"
  shows "(\<And>x s'. keeps s0 s' \<Longrightarrow> P (x, s')) \<Longrightarrow> pc (read_blk h k b s) P"
    and "(\<And>s'. keeps s0 s' \<Longrightarrow> R s') \<Longrightarrow> pc (write_blk h k b dat s) R"
    and "(\<And>s'. keeps s0 s' \<Longrightarrow> R s') \<Longrightarrow> pc (cache_set i rd s) R"
    and "(\<And>s'. keeps s0 s' \<Longrightarrow> R s') \<Longrightarrow> pc (kfree_s h p s) R"
    and "(\<And>rd. S rd) \<Longrightarrow> pc (cache_get i s) S"
  using assms
  by (auto simp: read_blk_def write_blk_def cache_set_def kfree_s_def cache_get_def pc_def kbind_def split: sum.splits)

lemma pc_loops [pc_rules]:
  assumes "keeps s0 s"
  shows "(\<And>s'. keeps s0 s' \<Longrightarrow> R s') \<Longrightarrow> pc (load_raid_data_cache h s) R"
    and "(\<And>s'. keeps s0 s' \<Longrightarrow> R s') \<Longrightarrow> pc (init_disks h rd s) R"
    and "(\<And>s'. keeps s0 s' \<Longrightarrow> R s') \<Longrightarrow> pc (copy_blocks h src dst bs s) R"
    and "(\<And>s'. keeps s0 s' \<Longrightarrow> R s') \<Longrightarrow> pc (wipe_disks h s) R"
    and "(\<And>r s'. keeps s0 s' \<Longrightarrow> P (r, s')) \<Longrightarrow> pc (write_mirrors h b dat ks s) P"
    and "(\<And>x s'. keeps s0 s' \<Longrightarrow> P' (x, s')) \<Longrightarrow> pc (copy_disk h src dst bs buf s) P'"
proof -
  have fold: "pc (kfold f xs s) R" if "\<And>x s. keeps s0 s \<Longrightarrow> pc (f x s) (keeps s0)" "\<And>s'. keeps s0 s' \<Longrightarrow> R s'" for f :: "'x \<Rightarrow> _" and xs R
    using pc_kfold [of "keeps s0" s f xs] assms that by (auto elim: pc_mono)
  have fold2: "pc (kfold f xs (y, s)) R" if "\<And>x t. keeps s0 (snd t) \<Longrightarrow> pc (f x t) (\<lambda>t. keeps s0 (snd t))" "\<And>r s'. keeps s0 s' \<Longrightarrow> R (r, s')"
    for f :: "'x \<Rightarrow> 'r \<times> _ \<Rightarrow> _" and xs y R
    using pc_kfold [of "\<lambda>t. keeps s0 (snd t)" "(y, s)" f xs] assms that by (auto elim!: pc_mono)
  show "pc (load_raid_data_cache h s) R" if "\<And>s'. keeps s0 s' \<Longrightarrow> R s'"
    unfolding load_raid_data_cache_def using that assms by (auto intro!: fold pc_prim)
  show "pc (init_disks h rd s) R" if "\<And>s'. keeps s0 s' \<Longrightarrow> R s'"
    unfolding init_disks_def using that by (auto intro!: fold pc_prim)
  show "pc (copy_blocks h src dst bs s) R" if "\<And>s'. keeps s0 s' \<Longrightarrow> R s'"
    unfolding copy_blocks_def using that by (auto intro!: fold pc_prim)
  show "pc (wipe_disks h s) R" if "\<And>s'. keeps s0 s' \<Longrightarrow> R s'"
    unfolding wipe_disks_def using that by (auto intro!: fold pc_prim)
  show "pc (write_mirrors h b dat ks s) P" if "\<And>r s'. keeps s0 s' \<Longrightarrow> P (r, s')"
    unfolding write_mirrors_def using that by (auto intro!: fold2 pc_prim split: prod.splits)
  show "pc (copy_disk h src dst bs buf s) P'" if "\<And>x s'. keeps s0 s' \<Longrightarrow> P' (x, s')"
    unfolding copy_disk_def using that by (auto intro!: fold2 pc_prim split: prod.splits)
qed

lemma keeps_kalloc: "keeps s0 s \<Longrightarrow> kalloc_s s = (p, s') \<Longrightarrow> keeps s0 s'"
  by (auto simp: kalloc_s_def split: prod.splits)

lemma pc_recover_loop:
  assumes "keeps s0 s" "\<And>r x s'. keeps s0 s' \<Longrightarrow> P (r, x, s')"
  shows "pc (recover_loop h b skip ks dat s) P"
  using assms by (induction ks arbitrary: dat s) (auto intro!: pc_prim)

lemma pc_find_working: "(\<And>i. S i) \<Longrightarrow> pc (find_working ks s) S"
  by (induction ks) (auto intro!: pc_prim(5) [OF keeps_refl])

lemma pc_steps [pc_rules]:
  assumes "keeps s0 s"
  shows "(\<And>s'. keeps s0 s' \<Longrightarrow> R s') \<Longrightarrow> pc (store_working h k w buf s) R"
    and "(\<And>r x s'. keeps s0 s' \<Longrightarrow> P (r, x, s')) \<Longrightarrow> pc (recover_missing_block h b skip dat s) P"
  using assms by (auto simp: store_working_def recover_missing_block_def intro!: pc_prim pc_loops pc_recover_loop)

lemma pc_rebuild_loop [pc_rules]:
  assumes "keeps s0 s" "\<And>r s'. keeps s0 s' \<Longrightarrow> P (r, s')"
  shows "pc (rebuild_loop h d bs s) P"
  using assms by (induction bs arbitrary: s) (auto intro!: pc_prim pc_steps)

lemmas pc_all = pc_prim pc_loops pc_steps pc_rebuild_loop

lemma keeps_level0:
  "pc (init_raid0 h s) (\<lambda>(r, s'). keeps s s')" "pc (read_raid0 h a x s) (\<lambda>(r, y, s'). keeps s s')"
  "pc (write_raid0 h a x s) (\<lambda>(r, s'). keeps s s')" "pc (disk_fail_raid0 h d s) (\<lambda>(r, s'). keeps s s')"
  "pc (disk_repaired_raid0 h d s) (\<lambda>(r, s'). keeps s s')" "pc (destroy_raid0 h s) (\<lambda>(r, s'). keeps s s')"
  by (auto simp: init_raid0_def read_raid0_def write_raid0_def disk_fail_raid0_def disk_repaired_raid0_def
      destroy_raid0_def intro!: pc_all [of s] split: prod.splits)

lemma keeps_level1:
  "pc (init_raid1 h s) (\<lambda>(r, s'). keeps s s')" "pc (read_raid1 h a x s) (\<lambda>(r, y, s'). keeps s s')"
  "pc (write_raid1 h a x s) (\<lambda>(r, s'). keeps s s')" "pc (disk_fail_raid1 h d s) (\<lambda>(r, s'). keeps s s')"
  "pc (disk_repaired_raid1 h d s) (\<lambda>(r, s'). keeps s s')"
  by (auto simp: init_raid1_def read_raid1_def write_raid1_def disk_fail_raid1_def disk_repaired_raid1_def
      Let_def intro!: pc_all [of s] pc_find_working)

lemma keeps_destroy_raid1: "pc (destroy_raid1 h s) (\<lambda>(r, s'). keeps s s')"
  unfolding destroy_raid1_def pc_simps
proof (rule pc_loops(1) [OF keeps_refl])
  fix t
  assume "keeps s t"
  then show "pc (kfold (\<lambda>i s. kbind (cache_get (i - 1) s) (\<lambda>rd. if working rd = 0 then Inr s else write_blk h i 0 zero_block s))
      (raid_disks h) t) (\<lambda>x. case (0, x) of (r, s') \<Rightarrow> keeps s s')"
    by (auto intro!: pc_kfold pc_prim [of s])
qed

lemma keeps_level01:
  "pc (init_raid01 h s) (\<lambda>(r, s'). keeps s s')" "pc (read_raid01 h a x s) (\<lambda>(r, y, s'). keeps s s')"
  "pc (write_raid01 h a x s) (\<lambda>(r, s'). keeps s s')" "pc (disk_fail_raid01 h d s) (\<lambda>(r, s'). keeps s s')"
  "pc (disk_repaired_raid01 h d s) (\<lambda>(r, s'). keeps s s')" "pc (destroy_raid01 h s) (\<lambda>(r, s'). keeps s s')"
  by (auto simp: init_raid01_def read_raid01_def write_raid01_def disk_fail_raid01_def disk_repaired_raid01_def
      destroy_raid01_def raid01_place_def Let_def intro!: pc_all [of s] split: prod.splits)

lemma keeps_level4:
  "pc (init_raid4 h s) (\<lambda>(r, s'). keeps s s')" "pc (read_raid4 h a x s) (\<lambda>(r, y, s'). keeps s s')"
  "pc (write_raid4 h a x s) (\<lambda>(r, s'). keeps s s')" "pc (disk_fail_raid4 h d s) (\<lambda>(r, s'). keeps s s')"
  "pc (disk_repaired_raid4 h d s) (\<lambda>(r, s'). keeps s s')" "pc (destroy_raid4 h s) (\<lambda>(r, s'). keeps s s')"
  by (auto simp: init_raid4_def read_raid4_def write_raid4_def disk_fail_raid4_def disk_repaired_raid4_def
      destroy_raid4_def raid4_place_def Let_def intro!: pc_all [of s] split: prod.splits dest: keeps_kalloc [of s] keeps_kalloc [OF keeps_refl])

lemma keeps_level5:
  "pc (init_raid5 h s) (\<lambda>(r, s'). keeps s s')" "pc (read_raid5 h a x s) (\<lambda>(r, y, s'). keeps s s')"
  "pc (write_raid5 h a x s) (\<lambda>(r, s'). keeps s s')" "pc (disk_fail_raid5 h d s) (\<lambda>(r, s'). keeps s s')"
  "pc (disk_repaired_raid5 h d s) (\<lambda>(r, s'). keeps s s')" "pc (destroy_raid5 h s) (\<lambda>(r, s'). keeps s s')"
  by (auto simp: init_raid5_def read_raid5_def write_raid5_def disk_fail_raid5_def disk_repaired_raid5_def
      destroy_raid5_def raid5_place_def Let_def intro!: pc_all [of s] split: prod.splits dest: keeps_kalloc [of s] keeps_kalloc [OF keeps_refl])

section \<open>A call under the lock\<close>

lemma wp_locked:
  assumes "lock_free s" "cpu_ok (vcpu (vs s))"
    and body: "\<And>c sl. cpu_ok c \<Longrightarrow> wp (f (relock c sl s)) (\<lambda>(r, s'). cpu_ok (vcpu (vs s')) \<and> (\<forall>c sl. cpu_ok c \<longrightarrow> Q (r, relock c sl s')))"
    and frame: "\<And>s. pc (f s) (\<lambda>(r, s'). keeps s s')"
  shows "wp (kbind (lock p s) (\<lambda>s. kbind (f s) (\<lambda>(r, s). kbind (unlock s) (\<lambda>s. Inr (r, s)))))
    (\<lambda>(r, s'). lock_free s' \<and> raid s' = raid s \<and> Q (r, s'))"
proof -
  obtain c sl where l: "lock p s = Inr (relock c sl s)" "cpu_ok c" "lock_held (relock c sl s)"
    using lock_free_taken [OF assms(1,2), of p] by blast
  have "wp (f (relock c sl s)) (\<lambda>(r, s'). wp (unlock s') (\<lambda>u. lock_free u \<and> raid u = raid s \<and> Q (r, u)))"
  proof (rule wp_pc [OF body [OF l(2)] frame], clarify)
    fix r t
    assume t: "cpu_ok (vcpu (vs t))" "\<forall>c sl. cpu_ok c \<longrightarrow> Q (r, relock c sl t)" "keeps (relock c sl s) t"
    have "lock_held t" using l(3) t(3) by (simp add: keeps_def lock_held_def)
    then obtain d sm where "unlock t = Inr (relock d sm t)" "cpu_ok d" "lock_free (relock d sm t)"
      using unlock_held [OF _ t(1)] by blast
    then show "wp (unlock t) (\<lambda>u. lock_free u \<and> raid u = raid s \<and> Q (r, u))"
      using t by (simp add: keeps_def)
  qed
  then show ?thesis using l(1) by (simp add: case_prod_beta')
qed

lemma wp_locked_read:
  assumes "lock_free s" "cpu_ok (vcpu (vs s))"
    and body: "\<And>c sl. cpu_ok c \<Longrightarrow> wp (f (relock c sl s)) (\<lambda>(r, x, s'). cpu_ok (vcpu (vs s')) \<and> (\<forall>c sl. cpu_ok c \<longrightarrow> Q (r, x, relock c sl s')))"
    and frame: "\<And>s. pc (f s) (\<lambda>(r, x, s'). keeps s s')"
  shows "wp (kbind (lock p s) (\<lambda>s. kbind (f s) (\<lambda>(r, x, s). kbind (unlock s) (\<lambda>s. Inr (r, x, s)))))
    (\<lambda>(r, x, s'). lock_free s' \<and> raid s' = raid s \<and> Q (r, x, s'))"
proof -
  obtain c sl where l: "lock p s = Inr (relock c sl s)" "cpu_ok c" "lock_held (relock c sl s)"
    using lock_free_taken [OF assms(1,2), of p] by blast
  have "wp (f (relock c sl s)) (\<lambda>(r, x, s'). wp (unlock s') (\<lambda>u. lock_free u \<and> raid u = raid s \<and> Q (r, x, u)))"
  proof (rule wp_pc [OF body [OF l(2)] frame], clarify)
    fix r x t
    assume t: "cpu_ok (vcpu (vs t))" "\<forall>c sl. cpu_ok c \<longrightarrow> Q (r, x, relock c sl t)" "keeps (relock c sl s) t"
    have "lock_held t" using l(3) t(3) by (simp add: keeps_def lock_held_def)
    then obtain d sm where "unlock t = Inr (relock d sm t)" "cpu_ok d" "lock_free (relock d sm t)"
      using unlock_held [OF _ t(1)] by blast
    then show "wp (unlock t) (\<lambda>u. lock_free u \<and> raid u = raid s \<and> Q (r, x, u))"
      using t by (simp add: keeps_def)
  qed
  then show ?thesis using l(1) by (simp add: case_prod_beta')
qed

text \<open>With the type of the array known the entry points are the level's operations under the lock.\<close>

lemma check_raid_known: "working (raid s) = 1 \<Longrightarrow> check_raid h s = Inr (raid_type (raid s), s)"
  by (simp add: check_raid_def)

lemma lock_raid: "lock p s = Inr s' \<Longrightarrow> raid s' = raid s"
  by (auto simp: lock_def kbind_eq_Inr)

lemma kbind_lock_cong:
  assumes "\<And>s'. raid s' = raid s \<Longrightarrow> f s' = g s'"
  shows "kbind (lock p s) f = kbind (lock p s) g"
  by (cases "lock p s") (auto dest: lock_raid intro: assms)

lemma entry_points:
  assumes "raid s = \<lparr>raid_type = ty, working = 1\<rparr>"
  shows "ty = RAID0 \<Longrightarrow> read_raid h p b x s = kbind (lock p s) (\<lambda>s. kbind (read_raid0 h b x s) (\<lambda>(r, x, s). kbind (unlock s) (\<lambda>s. Inr (r, x, s))))"
    and "ty = RAID1 \<Longrightarrow> read_raid h p b x s = kbind (lock p s) (\<lambda>s. kbind (read_raid1 h b x s) (\<lambda>(r, x, s). kbind (unlock s) (\<lambda>s. Inr (r, x, s))))"
    and "ty = RAID0_1 \<Longrightarrow> read_raid h p b x s = kbind (lock p s) (\<lambda>s. kbind (read_raid01 h b x s) (\<lambda>(r, x, s). kbind (unlock s) (\<lambda>s. Inr (r, x, s))))"
    and "ty = RAID4 \<Longrightarrow> read_raid h p b x s = kbind (lock p s) (\<lambda>s. kbind (read_raid4 h b x s) (\<lambda>(r, x, s). kbind (unlock s) (\<lambda>s. Inr (r, x, s))))"
    and "ty = RAID5 \<Longrightarrow> read_raid h p b x s = kbind (lock p s) (\<lambda>s. kbind (read_raid5 h b x s) (\<lambda>(r, x, s). kbind (unlock s) (\<lambda>s. Inr (r, x, s))))"
    and "ty = RAID0 \<Longrightarrow> write_raid h p b x s = kbind (lock p s) (\<lambda>s. kbind (write_raid0 h b x s) (\<lambda>(r, s). kbind (unlock s) (\<lambda>s. Inr (r, s))))"
    and "ty = RAID1 \<Longrightarrow> write_raid h p b x s = kbind (lock p s) (\<lambda>s. kbind (write_raid1 h b x s) (\<lambda>(r, s). kbind (unlock s) (\<lambda>s. Inr (r, s))))"
    and "ty = RAID0_1 \<Longrightarrow> write_raid h p b x s = kbind (lock p s) (\<lambda>s. kbind (write_raid01 h b x s) (\<lambda>(r, s). kbind (unlock s) (\<lambda>s. Inr (r, s))))"
    and "ty = RAID4 \<Longrightarrow> write_raid h p b x s = kbind (lock p s) (\<lambda>s. kbind (write_raid4 h b x s) (\<lambda>(r, s). kbind (unlock s) (\<lambda>s. Inr (r, s))))"
    and "ty = RAID5 \<Longrightarrow> write_raid h p b x s = kbind (lock p s) (\<lambda>s. kbind (write_raid5 h b x s) (\<lambda>(r, s). kbind (unlock s) (\<lambda>s. Inr (r, s))))"
  unfolding read_raid_def write_raid_def using assms by (auto intro!: kbind_lock_cong simp: check_raid_known)

section \<open>The entry points as a volume\<close>

text \<open>
  A level behind the entry points: its operations are what a call runs under the lock, they leave
  lock and type alone, and its invariant and content do not depend on them.
\<close>

locale raid_entry = block_volume rd wr vol inv addr
  for rd :: "int \<Rightarrow> block \<Rightarrow> 'm kstate \<Rightarrow> (int \<times> block \<times> 'm kstate) res"
    and wr :: "int \<Rightarrow> block \<Rightarrow> 'm kstate \<Rightarrow> (int \<times> 'm kstate) res"
    and vol :: "'m kstate \<Rightarrow> int \<Rightarrow> block"
    and inv :: "'m kstate \<Rightarrow> bool"
    and addr :: "int \<Rightarrow> bool" +
  fixes ty :: uint32
    and api_rd :: "int \<Rightarrow> int \<Rightarrow> block \<Rightarrow> 'm kstate \<Rightarrow> (int \<times> block \<times> 'm kstate) res"
    and api_wr :: "int \<Rightarrow> int \<Rightarrow> block \<Rightarrow> 'm kstate \<Rightarrow> (int \<times> 'm kstate) res"
  assumes rd_entry: "raid s = \<lparr>raid_type = ty, working = 1\<rparr> \<Longrightarrow>
      api_rd p b x s = kbind (lock p s) (\<lambda>s. kbind (rd b x s) (\<lambda>(r, x, s). kbind (unlock s) (\<lambda>s. Inr (r, x, s))))"
    and wr_entry: "raid s = \<lparr>raid_type = ty, working = 1\<rparr> \<Longrightarrow>
      api_wr p b x s = kbind (lock p s) (\<lambda>s. kbind (wr b x s) (\<lambda>(r, s). kbind (unlock s) (\<lambda>s. Inr (r, s))))"
    and rd_frame: "pc (rd b x s) (\<lambda>(r, y, s'). keeps s s')"
    and wr_frame: "pc (wr b x s) (\<lambda>(r, s'). keeps s s')"
    and inv_cpu: "inv s \<Longrightarrow> cpu_ok (vcpu (vs s))"
    and inv_relock: "inv s \<Longrightarrow> cpu_ok c \<Longrightarrow> inv (relock c sl s)"
    and vol_relock: "vol (relock c sl s) = vol s"
begin

lemma entry_read:
  assumes s: "inv s" "lock_free s" "raid s = \<lparr>raid_type = ty, working = 1\<rparr>" and b: "addr b" "length buf = BSIZE"
  shows "wp (api_rd p b buf s) (\<lambda>(r, x, s'). r = 0 \<and> x = vol s b \<and> (inv s' \<and> lock_free s' \<and>
    raid s' = \<lparr>raid_type = ty, working = 1\<rparr>) \<and> (\<forall>a. addr a \<longrightarrow> vol s' a = vol s a))"
proof -
  have body: "wp (rd b buf (relock c sl s)) (\<lambda>(r, x, s'). cpu_ok (vcpu (vs s')) \<and> (\<forall>c sl. cpu_ok c \<longrightarrow>
      (case (r, x, relock c sl s') of (r, x, s') \<Rightarrow> r = 0 \<and> x = vol s b \<and> inv s' \<and> (\<forall>a. addr a \<longrightarrow> vol s' a = vol s a))))"
    if "cpu_ok c" for c sl
    using rd_law [OF inv_relock [OF s(1) that] b]
    by (rule wp_mono) (use inv_cpu inv_relock in \<open>auto simp: vol_relock\<close>)
  have "wp (api_rd p b buf s) (\<lambda>(r, x, s'). lock_free s' \<and> raid s' = raid s \<and>
      (case (r, x, s') of (r, x, s') \<Rightarrow> r = 0 \<and> x = vol s b \<and> inv s' \<and> (\<forall>a. addr a \<longrightarrow> vol s' a = vol s a)))"
    unfolding rd_entry [OF s(3)] using wp_locked_read [OF s(2) inv_cpu [OF s(1)] body rd_frame] .
  then show ?thesis by (rule wp_mono) (use s(3) in auto)
qed

lemma entry_write:
  assumes s: "inv s" "lock_free s" "raid s = \<lparr>raid_type = ty, working = 1\<rparr>" and b: "addr b" "length x = BSIZE"
  shows "wp (api_wr p b x s) (\<lambda>(r, s'). r = 0 \<and> (inv s' \<and> lock_free s' \<and>
    raid s' = \<lparr>raid_type = ty, working = 1\<rparr>) \<and> (\<forall>a. addr a \<longrightarrow> vol s' a = (if a = b then x else vol s a)))"
proof -
  have body: "wp (wr b x (relock c sl s)) (\<lambda>(r, s'). cpu_ok (vcpu (vs s')) \<and> (\<forall>c sl. cpu_ok c \<longrightarrow>
      (case (r, relock c sl s') of (r, s') \<Rightarrow> r = 0 \<and> inv s' \<and> (\<forall>a. addr a \<longrightarrow> vol s' a = (if a = b then x else vol s a)))))"
    if "cpu_ok c" for c sl
    using wr_law [OF inv_relock [OF s(1) that] b]
    by (rule wp_mono) (use inv_cpu inv_relock in \<open>auto simp: vol_relock\<close>)
  have "wp (api_wr p b x s) (\<lambda>(r, s'). lock_free s' \<and> raid s' = raid s \<and>
      (case (r, s') of (r, s') \<Rightarrow> r = 0 \<and> inv s' \<and> (\<forall>a. addr a \<longrightarrow> vol s' a = (if a = b then x else vol s a))))"
    unfolding wr_entry [OF s(3)] using wp_locked [OF s(2) inv_cpu [OF s(1)] body wr_frame] .
  then show ?thesis by (rule wp_mono) (use s(3) in auto)
qed

end

sublocale raid_entry \<subseteq> entry: block_volume "api_rd p" "api_wr p" vol
  "\<lambda>s. inv s \<and> lock_free s \<and> raid s = \<lparr>raid_type = ty, working = 1\<rparr>" addr for p
  by unfold_locales (use entry_read entry_write in blast)+

text \<open>The levels' invariants under a change of lock and interrupt state.\<close>

lemma pages_relock [simp]: "pages h n (relock c sl s) = pages h n s"
  by (rule pages_cong) simp

lemma stripe_blk_relock [simp]: "stripe_blk h st (relock c sl s) = stripe_blk h st s"
  by (simp add: stripe_blk_def fun_eq_iff)

lemma parity_inv_relock: "parity_inv h st f s \<Longrightarrow> cpu_ok c \<Longrightarrow> parity_inv h st f (relock c sl s)"
  using parity_same(1) [of h st f s "relock c sl s"] kst_ok_relock [of h st s c sl] parity_invD(1) [of h st f s] by auto

lemma raid1_inv_relock: "raid1_inv h st F s \<Longrightarrow> cpu_ok c \<Longrightarrow> raid1_inv h st F (relock c sl s)"
  unfolding raid1_inv_def loaded_cache_relock relock_sel using kst_ok_relock by blast

lemma raid01_inv_relock: "raid01_inv h st F s \<Longrightarrow> cpu_ok c \<Longrightarrow> raid01_inv h st F (relock c sl s)"
  unfolding raid01_inv_def loaded_cache_relock relock_sel using kst_ok_relock by blast

interpretation e0: raid_entry "read_raid0 h" "write_raid0 h" "raid0_vol h st" "raid0_ok h st" "raid0_addr h" RAID0 "read_raid h" "write_raid h"
  for h :: "'m hw" and st
  by unfold_locales (auto simp: entry_points raid0_ok_def raid0_vol_def fun_eq_iff Let_def keeps_level0 cpu_of_kst kst_ok_relock split: prod.splits)

interpretation e1: raid_entry "read_raid1 h" "write_raid1 h" "raid1_vol h st" "raid1_ok h st" "raid1_addr h" RAID1 "read_raid h" "write_raid h"
  for h :: "'m hw" and st
  by unfold_locales (auto simp: entry_points raid1_ok_def raid1_inv_relock raid1_vol_def fun_eq_iff keeps_level1
      intro: cpu_of_kst raid1_invD(1) split: option.splits)

interpretation e01: raid_entry "read_raid01 h" "write_raid01 h" "raid01_vol h st" "raid01_inv h st {}" "raid01_addr h" RAID0_1 "read_raid h" "write_raid h"
  for h :: "'m hw" and st
  by unfold_locales (auto simp: entry_points raid01_inv_relock raid01_vol_def pair_blk_def fun_eq_iff keeps_level01
      intro: cpu_of_kst raid01_invD(1))

interpretation e4: raid_entry "read_raid4 h" "write_raid4 h" "raid4_vol h st" "raid4_ok h st (Suc n)" "raid4_addr h" RAID4 "read_raid h" "write_raid h"
  for h :: "'m hw" and st n
  by unfold_locales (auto simp: entry_points raid4_ok_def raid4_vol_def fun_eq_iff keeps_level4 parity_inv_relock
      intro: cpu_of_kst parity_invD(1))

interpretation e5: raid_entry "read_raid5 h" "write_raid5 h" "raid5_vol h st" "raid5_ok h st" "raid5_addr h" RAID5 "read_raid h" "write_raid h"
  for h :: "'m hw" and st
  by unfold_locales (auto simp: entry_points raid5_ok_def raid5_vol_def fun_eq_iff keeps_level5 parity_inv_relock
      intro: cpu_of_kst parity_invD(1))

section \<open>An array of any level\<close>

text \<open>A consistent array of the level named by \<open>ty\<close>, its logical blocks and their content.\<close>

definition array_addr :: "'m hw \<Rightarrow> uint32 \<Rightarrow> int \<Rightarrow> bool" where
  "array_addr h ty =
     (if ty = RAID0 then raid0_addr h else if ty = RAID1 then raid1_addr h else if ty = RAID0_1 then raid01_addr h
      else if ty = RAID4 then raid4_addr h else raid5_addr h)"

definition array_vol :: "'m hw \<Rightarrow> ('m \<Rightarrow> int \<Rightarrow> int \<Rightarrow> block) \<Rightarrow> uint32 \<Rightarrow> 'm kstate \<Rightarrow> int \<Rightarrow> block" where
  "array_vol h st ty =
     (if ty = RAID0 then raid0_vol h st else if ty = RAID1 then raid1_vol h st else if ty = RAID0_1 then raid01_vol h st
      else if ty = RAID4 then raid4_vol h st else raid5_vol h st)"

definition array_ok :: "'m hw \<Rightarrow> ('m \<Rightarrow> int \<Rightarrow> int \<Rightarrow> block) \<Rightarrow> uint32 \<Rightarrow> 'm kstate \<Rightarrow> bool" where
  "array_ok h st ty s \<longleftrightarrow>
     ty \<in> {RAID0, RAID1, RAID0_1, RAID4, RAID5} \<and>
     (if ty = RAID0 then raid0_ok h st s else if ty = RAID1 then raid1_ok h st s else if ty = RAID0_1 then raid01_inv h st {} s
      else if ty = RAID4 then raid4_ok h st 1 s else raid5_ok h st s) \<and>
     lock_free s \<and> raid s = \<lparr>raid_type = ty, working = 1\<rparr>"

interpretation arr: block_volume "read_raid h p" "write_raid h p" "array_vol h st ty" "array_ok h st ty" "array_addr h ty"
proof unfold_locales
  fix s b and buf :: block
  assume "array_ok h st ty s" "array_addr h ty b" "length buf = BSIZE"
  then show "wp (read_raid h p b buf s) (\<lambda>(r, x, s'). r = 0 \<and> x = array_vol h st ty s b \<and> array_ok h st ty s' \<and>
      (\<forall>a. array_addr h ty a \<longrightarrow> array_vol h st ty s' a = array_vol h st ty s a))"
    using e0.entry.rd_law [of h st s b buf p] e1.entry.rd_law [of h st s b buf p] e01.entry.rd_law [of h st s b buf p]
      e4.entry.rd_law [of h st 0 s b buf p] e5.entry.rd_law [of h st s b buf p]
    by (auto simp: array_ok_def array_addr_def array_vol_def)
next
  fix s b and x :: block
  assume "array_ok h st ty s" "array_addr h ty b" "length x = BSIZE"
  then show "wp (write_raid h p b x s) (\<lambda>(r, s'). r = 0 \<and> array_ok h st ty s' \<and>
      (\<forall>a. array_addr h ty a \<longrightarrow> array_vol h st ty s' a = (if a = b then x else array_vol h st ty s a)))"
    using e0.entry.wr_law [of h st s b x p] e1.entry.wr_law [of h st s b x p] e01.entry.wr_law [of h st s b x p]
      e4.entry.wr_law [of h st 0 s b x p] e5.entry.wr_law [of h st s b x p]
    by (auto simp: array_ok_def array_addr_def array_vol_def elim!: wp_mono)
qed

section \<open>No array\<close>

text \<open>Block 0 of disk 1 names no level, and the type is not known from an earlier call.\<close>

definition no_array :: "'m hw \<Rightarrow> ('m \<Rightarrow> int \<Rightarrow> int \<Rightarrow> block) \<Rightarrow> 'm kstate \<Rightarrow> bool" where
  "no_array h st s \<longleftrightarrow> kst_ok h st s \<and> working (raid s) \<noteq> 1 \<and>
     raid_type (load_meta h (blk st s 1 0)) \<notin> {RAID0, RAID1, RAID0_1, RAID4, RAID5}"

lemma deserialized_raid:
  assumes "hw_ok h" "length buffer = BSIZE"
  shows "raid_of_bytes (deserialize (raid_bytes h rd) raid_data_size buffer) = load_meta h buffer"
proof -
  have "length (raid_bytes h rd) = 8" using junk_length [OF assms(1)] by (simp add: raid_bytes_def le32_def)
  then show ?thesis
    using assms junk_length [OF assms(1)]
    by (simp add: load_meta_eq deserialize_eq raid_data_size_def BSIZE_def raid_of_bytes_def of_le32_def)
qed

lemma wp_check_raid_none:
  assumes "no_array h st s"
  shows "wp (check_raid h s) (\<lambda>(ty, s'). ty = RAID_NONE \<and> raid_lock s' = raid_lock s)"
proof -
  have ok: "kst_ok h st s" using assms by (simp add: no_array_def)
  have D: "raid_block h 1 0" using ok disks_pos [of h] by (simp add: raid_block_def)
  have l: "length (blk st s 1 0) = BSIZE" by (rule length_blk [OF kst_okD(1) [OF ok] D])
  have rd: "raid_of_bytes (deserialize (raid_bytes h (raid s)) raid_data_size (blk st s 1 0)) = load_meta h (blk st s 1 0)"
    by (rule deserialized_raid [OF kst_okD(2) [OF ok] l])
  have m: "uint (working (raid s)) \<noteq> -1" using uint_ge_0 [of "working (raid s)"] by linarith
  have "wp (read_blk h 1 0 s) (\<lambda>(x, s'). x = blk st s 1 0 \<and> raid s' = raid s \<and> raid_lock s' = raid_lock s)"
    by (rule wp_read_blk [OF kst_okD(1) [OF ok] D]) simp
  then show ?thesis
    using assms m unfolding check_raid_def no_array_def
    by (auto simp: Let_def rd elim!: wp_mono)
qed

lemma no_array_relock: "no_array h st s \<Longrightarrow> cpu_ok c \<Longrightarrow> no_array h st (relock c sl s)"
  unfolding no_array_def relock_sel using kst_ok_relock by blast

lemma wp_no_array:
  assumes s: "no_array h st s" "lock_free s"
  shows "wp (kbind (lock p s) (check_raid h)) (\<lambda>(ty, s'). ty = RAID_NONE \<and> lock_held s')"
proof -
  have ok: "cpu_ok (vcpu (vs s))" using s(1) by (auto simp: no_array_def intro: cpu_of_kst)
  obtain c sl where l: "lock p s = Inr (relock c sl s)" "cpu_ok c" "lock_held (relock c sl s)"
    using lock_free_taken [OF s(2) ok, of p] by blast
  from wp_check_raid_none [OF no_array_relock [OF s(1) l(2), of sl]] show ?thesis
    using l by (auto simp: lock_held_def elim!: wp_mono)
qed

text \<open>Every entry point but \<^verbatim>\<open>init_raid\<close> then fails with -1 and keeps the lock.\<close>

lemma no_array_calls:
  assumes s: "no_array h st s" "lock_free s"
  shows "wp (read_raid h p b x s) (\<lambda>(r, y, s'). r = -1 \<and> lock_held s')"
    and "wp (write_raid h p b x s) (\<lambda>(r, s'). r = -1 \<and> lock_held s')"
    and "wp (disk_fail_raid h p d s) (\<lambda>(r, s'). r = -1 \<and> lock_held s')"
    and "wp (disk_repaired_raid h p d s) (\<lambda>(r, s'). r = -1 \<and> lock_held s')"
    and "wp (info_raid h p out s) (\<lambda>(r, y, s'). r = -1 \<and> lock_held s')"
    and "wp (destroy_raid h p s) (\<lambda>(r, s'). r = -1 \<and> lock_held s')"
proof -
  obtain s' where l: "lock p s = Inr s'"
    using wp_no_array [OF s, of p] by (cases "lock p s") (auto simp del: wp_kbind)
  obtain t where c: "check_raid h s' = Inr (RAID_NONE, t)" "lock_held t"
    using wp_no_array [OF s, of p] l by (auto simp: wp_iff)
  show "wp (read_raid h p b x s) (\<lambda>(r, y, s'). r = -1 \<and> lock_held s')" "wp (write_raid h p b x s) (\<lambda>(r, s'). r = -1 \<and> lock_held s')"
    "wp (disk_fail_raid h p d s) (\<lambda>(r, s'). r = -1 \<and> lock_held s')" "wp (disk_repaired_raid h p d s) (\<lambda>(r, s'). r = -1 \<and> lock_held s')"
    "wp (info_raid h p out s) (\<lambda>(r, y, s'). r = -1 \<and> lock_held s')" "wp (destroy_raid h p s) (\<lambda>(r, s'). r = -1 \<and> lock_held s')"
    using l c by (simp_all add: read_raid_def write_raid_def disk_fail_raid_def disk_repaired_raid_def info_raid_def destroy_raid_def)
qed

lemma lock_held_calls:
  assumes "lock_held s"
  shows "init_raid h p ty s = Inl Blocked" "read_raid h p b x s = Inl Blocked" "write_raid h p b x s = Inl Blocked"
    "disk_fail_raid h p d s = Inl Blocked" "disk_repaired_raid h p d s = Inl Blocked"
    "info_raid h p out s = Inl Blocked" "destroy_raid h p s = Inl Blocked"
  using lock_held_blocks [OF assms]
  by (simp_all add: init_raid_def read_raid_def write_raid_def disk_fail_raid_def disk_repaired_raid_def info_raid_def destroy_raid_def)

end
