(* ===== verification/Raid_Theorems.thy ===== *)
theory Raid_Theorems
  imports Raid_Api
begin

text \<open>
  The properties of the RAID levels and of their entry points, each from the facts of the level's
  interpretation, with an instance on the four-disk machine of \<open>Ram_Disk\<close>.
\<close>

section \<open>States for the instances\<close>

abbreviation fresh :: "uint32 \<Rightarrow> ram kstate" where
  "fresh ty \<equiv> ram_kernel blank (replicate 4 \<lparr>raid_type = ty, working = 1\<rparr>) 1 \<lparr>raid_type = ty, working = 1\<rparr>"

lemma fresh_cache [simp]: "loaded_cache ram_hw st (fresh ty) = replicate 4 \<lparr>raid_type = ty, working = 1\<rparr>"
  by (simp add: loaded_cache_def)

lemma fresh_ok [simp]: "kst_ok ram_hw (\<lambda>m. m) (fresh ty)"
  by (rule ram_kernel_ok) simp_all

lemma fresh_flags: "1 \<le> k \<Longrightarrow> k \<le> 4 \<Longrightarrow> working (replicate 4 \<lparr>raid_type = ty, working = 1\<rparr> ! nat (k - 1)) = 1"
  by (simp add: nat_less_iff)

lemma fresh_parity [simp]: "parity_inv ram_hw (\<lambda>m. m) 0 (fresh ty)"
  by (rule parity_invI) (auto simp: fresh_flags)

lemma fresh_pages [simp]: "pages ram_hw (Suc 0) (fresh ty)"
  unfolding pages_def using ram_kernel_page by fastforce

lemma blank_same: "blank j b = blank k b"
  by (simp add: blank_def)

lemma fresh_raid0 [simp]: "raid0_ok ram_hw (\<lambda>m. m) (fresh ty)"
  by (simp add: raid0_ok_def)

lemma fresh_raid1 [simp]: "raid1_ok ram_hw (\<lambda>m. m) (fresh ty)"
  by (auto simp: raid1_ok_def raid1_inv_def fresh_flags intro: blank_same intro!: bexI [of _ 1])

lemma fresh_raid01 [simp]: "raid01_inv ram_hw (\<lambda>m. m) {} (fresh ty)"
  by (auto simp: raid01_inv_def fresh_flags intro: blank_same)

lemma fresh_raid4 [simp]: "raid4_ok ram_hw (\<lambda>m. m) (Suc 0) (fresh ty)"
  by (simp add: raid4_ok_def)

lemma fresh_raid5 [simp]: "raid5_ok ram_hw (\<lambda>m. m) (fresh ty)"
  by (simp add: raid5_ok_def)

lemma fresh_lock [simp]: "lock_free (fresh ty)"
  by (simp add: lock_free_def initsleeplock_def sl_ok_def initlock_def lk_free_def)

lemma fresh_addr [simp]:
  "is_disk ram_hw 2" "raid0_addr ram_hw 9" "raid1_addr ram_hw 9" "raid01_addr ram_hw 9" "raid4_addr ram_hw 9" "raid5_addr ram_hw 9"
  by (simp_all add: is_disk_def raid0_addr_def raid1_addr_def raid01_addr_def raid01_slot_def raid4_addr_def raid4_slot_def
      raid5_addr_def raid5_slot_def Let_def)

text \<open>The same machine with disk 2 marked as failed.\<close>

abbreviation failed2 :: "uint32 \<Rightarrow> ram kstate" where
  "failed2 ty \<equiv> ram_kernel blank 
    [\<lparr>raid_type = ty, working = 1\<rparr>, \<lparr>raid_type = ty, working = 0\<rparr>, \<lparr>raid_type = ty, working = 1\<rparr>, \<lparr>raid_type = ty, working = 1\<rparr>] 1
    \<lparr>raid_type = ty, working = 1\<rparr>"

lemma failed2_cache [simp]:
  "loaded_cache ram_hw st (failed2 ty) = 
    [\<lparr>raid_type = ty, working = 1\<rparr>, \<lparr>raid_type = ty, working = 0\<rparr>, \<lparr>raid_type = ty, working = 1\<rparr>, \<lparr>raid_type = ty, working = 1\<rparr>]"
  by (simp add: loaded_cache_def)

lemma failed2_flags:
  "1 \<le> k \<Longrightarrow> k \<le> 4 \<Longrightarrow> working ([\<lparr>raid_type = ty, working = 1\<rparr>, \<lparr>raid_type = ty, working = 0\<rparr>, \<lparr>raid_type = ty, working = 1\<rparr>, \<lparr>raid_type = ty, working = 1\<rparr>]
     ! nat (k - 1)) = (if k = 2 then 0 else 1)"
proof -
  assume "1 \<le> k" "k \<le> 4"
  then have "k = 1 \<or> k = 2 \<or> k = 3 \<or> k = 4" by linarith
  then show ?thesis by auto
qed

lemma failed2_ok [simp]: "kst_ok ram_hw (\<lambda>m. m) (failed2 ty)"
  by (rule ram_kernel_ok) simp_all

lemma failed2_parity [simp]: "parity_inv ram_hw (\<lambda>m. m) 2 (failed2 ty)"
  unfolding parity_inv_def failed2_cache by (auto simp: failed2_flags)

lemma failed2_pages [simp]: "pages ram_hw (Suc 0) (failed2 ty)"
  unfolding pages_def using ram_kernel_page by fastforce

lemma failed2_raid1 [simp]: "raid1_inv ram_hw (\<lambda>m. m) {2} (failed2 ty)"
  unfolding raid1_inv_def failed2_cache
  by (auto simp: failed2_flags intro: blank_same intro!: bexI [of _ 1])

text \<open>And with disk 4, the parity disk of RAID 4, marked as failed.\<close>

abbreviation failed4 :: "ram kstate" where
  "failed4 \<equiv> ram_kernel blank (replicate 3 \<lparr>raid_type = RAID4, working = 1\<rparr> @ [\<lparr>raid_type = RAID4, working = 0\<rparr>]) 1 \<lparr>raid_type = RAID4, working = 1\<rparr>"

lemma failed4_parity: "parity_inv ram_hw (\<lambda>m. m) 4 failed4"
proof -
  have c: "loaded_cache ram_hw (\<lambda>m. m) failed4 = replicate 3 \<lparr>raid_type = RAID4, working = 1\<rparr> @ [\<lparr>raid_type = RAID4, working = 0\<rparr>]"
    by (simp add: loaded_cache_def)
  have w: "working ((replicate 3 \<lparr>raid_type = RAID4, working = 1\<rparr> @ [\<lparr>raid_type = RAID4, working = 0\<rparr>]) ! nat (k - 1)) = (if k = 4 then 0 else 1)"
    if "1 \<le> k" "k \<le> 4" for k :: int using that by (auto simp: nth_append)
  have "kst_ok ram_hw (\<lambda>m. m) failed4" by (rule ram_kernel_ok) simp_all
  then show ?thesis unfolding parity_inv_def c using w by auto
qed

section \<open>Redundancy\<close>

text \<open>
  C1: RAID 4. Any one disk of a consistent array may be reported as failed and lose its whole
  content: every logical block is still read with the value it had.
\<close>

theorem raid4_survives_loss:
  assumes "raid4_ok h st (Suc n) s" "is_disk h d" "raid4_addr h b" "length buf = BSIZE"
  shows "wp (disk_fail_raid4 h d s) (\<lambda>(r, s1). r = 0 \<and>
    (\<forall>s2. disk_loss h st d s1 s2 \<longrightarrow> wp (read_raid4 h b buf s2) (\<lambda>(r, x, s3). r = 0 \<and> x = raid4_vol h st s b)))"
  by (rule r4.read_after_loss [OF assms])

theorem raid4_survives_loss_witness:
  "raid4_ok ram_hw (\<lambda>m. m) (Suc 0) (fresh RAID4) \<and>
   wp (disk_fail_raid4 ram_hw 2 (fresh RAID4)) (\<lambda>(r, s1). r = 0 \<and>
    (\<forall>s2. disk_loss ram_hw (\<lambda>m. m) 2 s1 s2 \<longrightarrow> wp (read_raid4 ram_hw 9 zero_block s2)
       (\<lambda>(r, x, s3). r = 0 \<and> x = raid4_vol ram_hw (\<lambda>m. m) (fresh RAID4) 9)))"
  using raid4_survives_loss [of ram_hw "\<lambda>m. m" 0 "fresh RAID4" 2 9 zero_block] by simp

text \<open>
  C4: RAID 4. Repairing the lost disk returns 0, makes every stripe consistent again with all disks
  working, and changes no logical block.
\<close>

theorem raid4_rebuilds:
  assumes "raid4_ok h st (Suc n) s" "is_disk h d"
  shows "wp (disk_fail_raid4 h d s) (\<lambda>(r, s1). r = 0 \<and>
    (\<forall>s2. disk_loss h st d s1 s2 \<longrightarrow> wp (disk_repaired_raid4 h d s2) (\<lambda>(r, s3). r = 0 \<and> raid4_ok h st n s3 \<and>
       (\<forall>a. raid4_addr h a \<longrightarrow> raid4_vol h st s3 a = raid4_vol h st s a))))"
  by (rule r4.repair_after_loss [OF assms])

theorem raid4_rebuilds_witness:
  "is_disk ram_hw 2 \<and>
   wp (disk_fail_raid4 ram_hw 2 (fresh RAID4)) (\<lambda>(r, s1). r = 0 \<and>
    (\<forall>s2. disk_loss ram_hw (\<lambda>m. m) 2 s1 s2 \<longrightarrow> wp (disk_repaired_raid4 ram_hw 2 s2) (\<lambda>(r, s3). r = 0 \<and>
       raid4_ok ram_hw (\<lambda>m. m) 0 s3 \<and>
       (\<forall>a. raid4_addr ram_hw a \<longrightarrow> raid4_vol ram_hw (\<lambda>m. m) s3 a = raid4_vol ram_hw (\<lambda>m. m) (fresh RAID4) a))))"
  using raid4_rebuilds [of ram_hw "\<lambda>m. m" 0 "fresh RAID4" 2] by simp

text \<open>
  C5: RAID 5. As for RAID 4: whichever disk is lost, data or parity rotating over it, every logical
  block is still read with the value it had.
\<close>

theorem raid5_survives_loss:
  assumes "raid5_ok h st s" "is_disk h d" "raid5_addr h b" "length buf = BSIZE"
  shows "wp (disk_fail_raid5 h d s) (\<lambda>(r, s1). r = 0 \<and>
    (\<forall>s2. disk_loss h st d s1 s2 \<longrightarrow> wp (read_raid5 h b buf s2) (\<lambda>(r, x, s3). r = 0 \<and> x = raid5_vol h st s b)))"
  by (rule r5.read_after_loss [OF assms])

theorem raid5_survives_loss_witness:
  "raid5_ok ram_hw (\<lambda>m. m) (fresh RAID5) \<and>
   wp (disk_fail_raid5 ram_hw 2 (fresh RAID5)) (\<lambda>(r, s1). r = 0 \<and>
    (\<forall>s2. disk_loss ram_hw (\<lambda>m. m) 2 s1 s2 \<longrightarrow> wp (read_raid5 ram_hw 9 zero_block s2)
       (\<lambda>(r, x, s3). r = 0 \<and> x = raid5_vol ram_hw (\<lambda>m. m) (fresh RAID5) 9)))"
  using raid5_survives_loss [of ram_hw "\<lambda>m. m" "fresh RAID5" 2 9 zero_block] by simp

text \<open>
  C6: RAID 5. Repairing the lost disk rebuilds it from the others: the call returns 0, the array is
  consistent with all disks working, and no logical block has changed.
\<close>

theorem raid5_rebuilds:
  assumes "raid5_ok h st s" "is_disk h d"
  shows "wp (disk_fail_raid5 h d s) (\<lambda>(r, s1). r = 0 \<and>
    (\<forall>s2. disk_loss h st d s1 s2 \<longrightarrow> wp (disk_repaired_raid5 h d s2) (\<lambda>(r, s3). r = 0 \<and> raid5_ok h st s3 \<and>
       (\<forall>a. raid5_addr h a \<longrightarrow> raid5_vol h st s3 a = raid5_vol h st s a))))"
  by (rule r5.repair_after_loss [OF assms])

theorem raid5_rebuilds_witness:
  "is_disk ram_hw 2 \<and>
   wp (disk_fail_raid5 ram_hw 2 (fresh RAID5)) (\<lambda>(r, s1). r = 0 \<and>
    (\<forall>s2. disk_loss ram_hw (\<lambda>m. m) 2 s1 s2 \<longrightarrow> wp (disk_repaired_raid5 ram_hw 2 s2) (\<lambda>(r, s3). r = 0 \<and>
       raid5_ok ram_hw (\<lambda>m. m) s3 \<and>
       (\<forall>a. raid5_addr ram_hw a \<longrightarrow> raid5_vol ram_hw (\<lambda>m. m) s3 a = raid5_vol ram_hw (\<lambda>m. m) (fresh RAID5) a))))"
  using raid5_rebuilds [of ram_hw "\<lambda>m. m" "fresh RAID5" 2] by simp

text \<open>
  C7: RAID 1 with any set of failed disks, as long as one works: a write reaches every working disk,
  and repairing any of the failed ones then makes it a copy again, with the value written.
\<close>

theorem raid1_degraded_write_and_repair:
  assumes "raid1_inv h st F s" "raid1_addr h a" "length x = BSIZE" "1 \<le> d" "d \<le> int (DISKS h)" "d \<in> F"
  shows "wp (kbind (write_raid1 h a x s) (\<lambda>(r, s). disk_repaired_raid1 h d s)) (\<lambda>(r, s'). r = 0 \<and>
    raid1_inv h st (F - {d}) s' \<and> blk st s' d (a + 1) = x \<and>
    (\<forall>b. raid1_addr h b \<longrightarrow> raid1_vol h st s' b = (if b = a then x else raid1_vol h st s b)))"
  unfolding wp_kbind using wp_write_raid1 [OF assms(1-3)]
proof (rule wp_mono, clarify)
  fix s'
  assume s': "raid1_inv h st F s'"
    "\<forall>b. raid1_addr h b \<longrightarrow> raid1_vol h st s' b = (if b = a then x else raid1_vol h st s b)"
  from wp_disk_repaired_raid1 [OF s'(1) assms(4-6)]
  show "wp (disk_repaired_raid1 h d s') (\<lambda>(r, s'). r = 0 \<and> raid1_inv h st (F - {d}) s' \<and> blk st s' d (a + 1) = x \<and>
    (\<forall>b. raid1_addr h b \<longrightarrow> raid1_vol h st s' b = (if b = a then x else raid1_vol h st s b)))"
  proof (rule wp_mono, clarify, intro conjI allI impI refl)
    fix t b
    assume t: "raid1_inv h st (F - {d}) t" "\<forall>b. raid1_addr h b \<longrightarrow> raid1_vol h st t b = raid1_vol h st s' b"
    show "raid1_inv h st (F - {d}) t" by (rule t(1))
    show vol: "raid1_vol h st t b = (if b = a then x else raid1_vol h st s b)" if "raid1_addr h b" for b
      using t(2) s'(2) that by metis
    show "blk st t d (a + 1) = x"
      using raid1_vol_eq [OF t(1) assms(4,5) _ assms(2)] vol [OF assms(2)] by simp
  qed
qed

theorem raid1_degraded_write_and_repair_witness:
  "wp (kbind (write_raid1 ram_hw 9 (replicate BSIZE 7) (failed2 RAID1)) (\<lambda>(r, s). disk_repaired_raid1 ram_hw 2 s))
     (\<lambda>(r, s'). r = 0 \<and> blk (\<lambda>m. m) s' 2 10 = replicate BSIZE 7)"
  by (rule wp_mono [OF raid1_degraded_write_and_repair [of ram_hw "\<lambda>m. m" "{2}" "failed2 RAID1" 9 "replicate BSIZE 7" 2]])
    auto

text \<open>
  C9: RAID 0+1. Any one disk may fail and lose its content; every logical block is still read from
  its mate, and repairing the disk restores the mirror with no logical block changed.
\<close>

theorem raid01_survives_and_rebuilds:
  assumes "raid01_inv h st {} s" "is_disk h d" "raid01_addr h b" "length buf = BSIZE"
  shows "wp (disk_fail_raid01 h d s) (\<lambda>(r, s1). r = 0 \<and>
    (\<forall>s2. disk_loss h st d s1 s2 \<longrightarrow>
       wp (read_raid01 h b buf s2) (\<lambda>(r, x, s3). r = 0 \<and> x = raid01_vol h st s b) \<and>
       wp (disk_repaired_raid01 h d s2) (\<lambda>(r, s3). r = 0 \<and> raid01_inv h st {} s3 \<and>
         (\<forall>a. raid01_addr h a \<longrightarrow> raid01_vol h st s3 a = raid01_vol h st s a))))"
  using r01.read_after_loss [OF assms] r01.repair_after_loss [OF assms(1,2)] by (auto simp: wp_iff)

theorem raid01_survives_and_rebuilds_witness:
  "wp (disk_fail_raid01 ram_hw 2 (fresh RAID0_1)) (\<lambda>(r, s1). r = 0 \<and>
    (\<forall>s2. disk_loss ram_hw (\<lambda>m. m) 2 s1 s2 \<longrightarrow>
       wp (read_raid01 ram_hw 9 zero_block s2) (\<lambda>(r, x, s3). r = 0 \<and> x = raid01_vol ram_hw (\<lambda>m. m) (fresh RAID0_1) 9)))"
  by (rule wp_mono [OF raid01_survives_and_rebuilds [of ram_hw "\<lambda>m. m" "fresh RAID0_1" 2 9 zero_block]]) auto

section \<open>The entry points\<close>

text \<open>
  C11: Behind \<^verbatim>\<open>read_raid\<close> and \<^verbatim>\<open>write_raid\<close> every level is a block device: after any sequence of writes a
  read returns the last value written to the block, or the old value when there was none, and the
  array is consistent with the lock released.
\<close>

theorem raid_is_a_block_device:
  assumes "array_ok h st ty s"
    and "\<forall>(b, x) \<in> set ws. array_addr h ty b \<and> length x = BSIZE" "array_addr h ty a" "length buf = BSIZE"
  shows "wp (kbind (kfold (\<lambda>(b, x) s. kbind (write_raid h p b x s) (\<lambda>(r, s'). Inr s')) ws s) (read_raid h p a buf))
    (\<lambda>(r, y, s'). r = 0 \<and> y = fold (\<lambda>(b, x) f. f(b := x)) ws (array_vol h st ty s) a \<and> array_ok h st ty s')"
  by (rule arr.write_sequence_read [OF assms])

theorem raid_is_a_block_device_witness:
  "wp (kbind (kfold (\<lambda>(b, x) s. kbind (write_raid ram_hw 3 b x s) (\<lambda>(r, s'). Inr s'))
       [(9, replicate BSIZE 7), (4, replicate BSIZE 8)] (fresh RAID5))
       (read_raid ram_hw 3 9 zero_block)) (\<lambda>(r, y, s'). r = 0 \<and> y = replicate BSIZE 7)"
  by (rule wp_mono [OF raid_is_a_block_device [of ram_hw "\<lambda>m. m" RAID5 "fresh RAID5"]])
    (auto simp: array_ok_def array_addr_def raid5_addr_def raid5_slot_def)

text \<open>Every entry point of \<^verbatim>\<open>raid.c\<close>, whoever calls it and with whatever arguments, waits forever.\<close>

definition all_blocked :: "'m hw \<Rightarrow> 'm kstate \<Rightarrow> bool" where
  "all_blocked h s \<longleftrightarrow> (\<forall>q ty b x d out. init_raid h q ty s = Inl Blocked \<and> read_raid h q b x s = Inl Blocked \<and> write_raid h q b x s = Inl Blocked \<and>
     disk_fail_raid h q d s = Inl Blocked \<and> disk_repaired_raid h q d s = Inl Blocked \<and> info_raid h q out s = Inl Blocked \<and> destroy_raid h q s = Inl Blocked)"

lemma lock_held_all_blocked: "lock_held s \<Longrightarrow> all_blocked h s"
  by (simp add: all_blocked_def lock_held_calls)

text \<open>
  C12: With no array, a call of \<^verbatim>\<open>read_raid\<close>, \<^verbatim>\<open>write_raid\<close>, \<^verbatim>\<open>disk_fail_raid\<close>, \<^verbatim>\<open>disk_repaired_raid\<close>, \<^verbatim>\<open>info_raid\<close> or \<^verbatim>\<open>destroy_raid\<close>
  returns -1 without releasing the lock: after it every entry point, \<^verbatim>\<open>init_raid\<close> included, waits for the lock forever.
\<close>

theorem missing_array_leaks_lock:
  assumes "no_array h st s" "lock_free s"
  shows "wp (read_raid h p b x s) (\<lambda>(r, y, s'). r = -1 \<and> all_blocked h s') \<and>
    wp (write_raid h p b x s) (\<lambda>(r, s'). r = -1 \<and> all_blocked h s') \<and>
    wp (disk_fail_raid h p d s) (\<lambda>(r, s'). r = -1 \<and> all_blocked h s') \<and>
    wp (disk_repaired_raid h p d s) (\<lambda>(r, s'). r = -1 \<and> all_blocked h s') \<and>
    wp (info_raid h p out s) (\<lambda>(r, y, s'). r = -1 \<and> all_blocked h s') \<and>
    wp (destroy_raid h p s) (\<lambda>(r, s'). r = -1 \<and> all_blocked h s')"
  by (intro conjI no_array_calls [OF assms, THEN wp_mono]) (auto intro: lock_held_all_blocked)

theorem missing_array_leaks_lock_witness:
  "wp (write_raid ram_hw 3 0 zero_block (ram_kernel blank (replicate 4 \<lparr>raid_type = 0, working = 0\<rparr>) 0 \<lparr>raid_type = 0, working = 0\<rparr>))
     (\<lambda>(r, s'). r = -1 \<and> init_raid ram_hw 4 RAID1 s' = Inl Blocked)"
proof -
  let ?s = "ram_kernel blank (replicate 4 \<lparr>raid_type = 0, working = 0\<rparr>) 0 \<lparr>raid_type = 0, working = 0\<rparr>"
  have "raid_type (load_meta ram_hw zero_block) = 0"
    by (simp add: load_meta_eq raid_of_bytes_def of_le32_def zero_block_def BSIZE_def)
  then have "no_array ram_hw (\<lambda>m. m) ?s" "lock_free ?s"
    by (auto simp: no_array_def blank_def lock_free_def initsleeplock_def sl_ok_def initlock_def lk_free_def)
  then show ?thesis
    by (intro wp_mono [OF conjunct1 [OF conjunct2 [OF missing_array_leaks_lock [where st = "\<lambda>m. m"]]]]) (auto simp: all_blocked_def)
qed

section \<open>What is written is not always kept\<close>

text \<open>
  C14: RAID 4 with a failed parity disk: \<^verbatim>\<open>write_raid4\<close> returns 0 and writes nothing; with a failed data disk
  it returns -2 and writes nothing.
\<close>

theorem raid4_degraded_write_is_dropped:
  assumes "parity_inv h st f s" "raid4_addr h a" "raid4_slot h a = (d, b)" "d = f \<or> int (DISKS h) = f"
  shows "wp (write_raid4 h a x s) (\<lambda>(r, s'). r = (if d = f then -2 else 0) \<and> blk st s' = blk st s)"
  by (rule write_raid4_degraded [OF assms])

theorem raid4_degraded_write_is_dropped_witness:
  "wp (write_raid4 ram_hw 10 (replicate BSIZE 7) (failed2 RAID4)) (\<lambda>(r, s'). r = -2 \<and> blk (\<lambda>m. m) s' = blank) \<and>
   wp (write_raid4 ram_hw 10 (replicate BSIZE 7) failed4) (\<lambda>(r, s'). r = 0 \<and> blk (\<lambda>m. m) s' = blank)"
  using raid4_degraded_write_is_dropped [of ram_hw "\<lambda>m. m" 2 "failed2 RAID4" 10 2 4 "replicate BSIZE 7"]
    raid4_degraded_write_is_dropped [OF failed4_parity, of 10 2 4 "replicate BSIZE 7"]
  by (simp add: raid4_addr_def raid4_slot_def)

text \<open>
  C15: RAID 5 with a failed data disk: a write returns 0, and what is read back is the data changed by
  the exclusive or of the lost value and the present content of the failed disk. It is the data
  only when that disk still holds its old content.
\<close>

theorem raid5_degraded_write_damage:
  assumes "parity_inv h st d s" "raid5_addr h a" "length x = BSIZE" "pages h 1 s" "raid5_slot h a = (d, p, b)"
  shows "wp (write_raid5 h a x s) (\<lambda>(r, s'). r = 0 \<and>
    (\<forall>i < BSIZE. raid5_vol h st s' a ! i = x ! i XOR (raid5_vol h st s a ! i XOR blk st s d b ! i)))"
  by (rule write_raid5_failed_disk [OF assms])

theorem raid5_degraded_write_damage_witness:
  "wp (write_raid5 ram_hw 10 (replicate BSIZE 7) (failed2 RAID5)) (\<lambda>(r, s'). r = 0 \<and>
     (\<forall>i < BSIZE. raid5_vol ram_hw (\<lambda>m. m) s' 10 ! i =
        7 XOR (raid5_vol ram_hw (\<lambda>m. m) (failed2 RAID5) 10 ! i XOR blank 2 4 ! i)))"
  by (rule wp_mono [OF raid5_degraded_write_damage [of ram_hw "\<lambda>m. m" 2 "failed2 RAID5" 10 "replicate BSIZE 7" 4 4]])
    (auto simp: raid5_addr_def raid5_slot_def)

text \<open>
  RAID 1. \<^verbatim>\<open>destroy_raid1\<close> clears the metadata of the working disks only: when disk 1 has failed it
  keeps its block 0, the block \<^verbatim>\<open>check_raid\<close> looks at after a restart.
\<close>

lemma raid1_destroy_keeps_failed_disk:
  assumes "raid1_inv h st F s"
  shows "wp (destroy_raid1 h s) (\<lambda>(r, s'). r = 0 \<and> (\<forall>k. 1 \<le> k \<and> k \<le> int (DISKS h) \<longrightarrow>
    blk st s' k 0 = (if k \<in> F then blk st s k 0 else zero_block)))"
  using wp_destroy_raid1 [OF raid1_invD(1) [OF assms]] raid1_invD(2) [OF assms] by (auto elim!: wp_mono)

section \<open>Addresses\<close>

text \<open>
  C16: RAID 0 on \<open>D\<close> disks of \<open>N\<close> blocks. Of the block numbers from 0 up to the largest but one of an \<^verbatim>\<open>int\<close>, those below \<open>D * N\<close> except \<open>D * (N - 1)\<close> are
  written, each to its own block, and the others are refused with -1. The numbers accepted are mapped one to one onto all blocks of the
  disks but the metadata block of disk 1.
\<close>

theorem raid0_uses_every_block:
  assumes "raid0_ok h st s" "length x = BSIZE"
  shows "let A = {0..<int (DISKS h) * int (NUMBER_OF_BLOCKS h)} - {int (DISKS h) * (int (NUMBER_OF_BLOCKS h) - 1)} in
    bij_betw (raid0_place h) A {(k, b). raid_block h k b \<and> (k, b) \<noteq> (1, 0)} \<and>
    (\<forall>a. 0 \<le> a \<and> a < 2 ^ 31 - 1 \<longrightarrow> wp (write_raid0 h a x s) (\<lambda>(r, s').
       if a \<in> A then r = 0 \<and> blk st s' = (case raid0_place h a of (k, b) \<Rightarrow> blk_upd (blk st s) k b x)
       else r = -1 \<and> blk st s' = blk st s))"
proof -
  have hw: "hw_ok h" using assms(1) kst_okD(2) by (auto simp: raid0_ok_def)
  have "inj_on (raid0_place h) {a. raid0_addr h a}" by (auto intro: inj_onI raid0_place_inj [OF hw])
  moreover have "raid0_place h ` {a. raid0_addr h a} = {(k, b). raid_block h k b \<and> (k, b) \<noteq> (1, 0)}"
  proof
    show "raid0_place h ` {a. raid0_addr h a} \<subseteq> {(k, b). raid_block h k b \<and> (k, b) \<noteq> (1, 0)}"
      using raid0_place_valid(1) [OF hw] raid0_place_valid(2) [OF hw _ _ refl, of _ 0] by (auto dest!: sym [of "(1, 0)"])
    show "{(k, b). raid_block h k b \<and> (k, b) \<noteq> (1, 0)} \<subseteq> raid0_place h ` {a. raid0_addr h a}"
      using raid0_place_onto [OF hw] by (clarsimp simp: image_iff) metis
  qed
  moreover have "wp (write_raid0 h a x s) (\<lambda>(r, s').
       if raid0_addr h a then r = 0 \<and> blk st s' = (case raid0_place h a of (k, b) \<Rightarrow> blk_upd (blk st s) k b x)
       else r = -1 \<and> blk st s' = blk st s)" if "0 \<le> a" "a < 2 ^ 31 - 1" for a
    using that raid0_outside(2) [OF assms(1), of a x] write_raid0_exact [OF assms(1) _ assms(2), of a]
    by (cases "raid0_addr h a") (auto elim!: wp_mono)
  ultimately show ?thesis unfolding Let_def bij_betw_def raid0_addr_iff [OF hw] Collect_mem_eq by blast
qed

theorem raid0_uses_every_block_witness:
  "wp (write_raid0 ram_hw 9 zero_block (fresh RAID0)) (\<lambda>(r, s'). r = 0) \<and> wp (write_raid0 ram_hw 508 zero_block (fresh RAID0)) (\<lambda>(r, s'). r = -1)"
proof -
  have "raid0_ok ram_hw (\<lambda>m. m) (fresh RAID0)" "length zero_block = BSIZE" by simp_all
  note w = raid0_uses_every_block [OF this, unfolded Let_def, THEN conjunct2, rule_format]
  show ?thesis using w [of 9] w [of 508] by (auto elim!: wp_mono)
qed

text \<open>
  C17: RAID 0. Only the upper bound of a block number is tested: writing block \<^verbatim>\<open>-DISKS\<close> returns 0 and
  replaces the metadata of disk 1.
\<close>

theorem raid0_negative_block_hits_metadata:
  assumes "raid0_ok h st s" "length x = BSIZE"
  shows "wp (write_raid0 h (- int (DISKS h)) x s) (\<lambda>(r, s'). r = 0 \<and> blk st s' = blk_upd (blk st s) 1 0 x)"
  by (rule raid0_negative [OF assms])

theorem raid0_negative_block_hits_metadata_witness:
  "wp (write_raid0 ram_hw (-4) (replicate BSIZE 7) (fresh RAID0)) (\<lambda>(r, s'). r = 0 \<and> blk (\<lambda>m. m) s' 1 0 = replicate BSIZE 7)"
  using raid0_negative_block_hits_metadata [of ram_hw "\<lambda>m. m" "fresh RAID0" "replicate BSIZE 7"] by (auto elim!: wp_mono)

section \<open>Metadata\<close>

text \<open>C18: The metadata of a disk survives the way through the byte image of its block 0.\<close>

theorem metadata_round_trip:
  assumes "hw_ok h"
  shows "load_meta h (meta_block h rd) = rd"
  using assms by (rule load_meta_block)

theorem metadata_round_trip_witness:
  "load_meta ram_hw (meta_block ram_hw \<lparr>raid_type = RAID5, working = 1\<rparr>) = \<lparr>raid_type = RAID5, working = 1\<rparr>"
  using metadata_round_trip [of ram_hw] by simp

section \<open>The disk driver and the page allocator\<close>

text \<open>
  C19: Through descriptors, rings, the device and the interrupt handler, a block read is what was
  last written there, and a write changes no other block of any disk.
\<close>

theorem driver_write_then_read:
  assumes "drv_ok h st v" "raid_block h k b" "raid_block h k' b'" "length x = BSIZE"
  shows "wp (kbind (write_block h k b x v) (read_block h k' b'))
    (\<lambda>(y, v'). y = (if k' = k \<and> b' = b then x else st (media v) k' b'))"
  by (rule vd.wr_then_rd [OF assms])

theorem driver_write_then_read_witness:
  "wp (kbind (write_block ram_hw 2 5 (replicate BSIZE 7) (ram_driver blank)) (read_block ram_hw 2 5))
     (\<lambda>(y, v'). y = replicate BSIZE 7)"
  using driver_write_then_read [of ram_hw "\<lambda>m. m" "ram_driver blank" 2 5 2 5 "replicate BSIZE 7"]
  by (simp add: raid_block_def del: wp_kbind)

end
