(* ===== verification/Vm.thy ===== *)
theory Vm
  imports Kalloc
begin

text \<open>
  Page tables and user memory (\<^verbatim>\<open>kernel/vm.c\<close>): the Sv39 walk, mappings, growing, copying and freeing
  an address space, and the copies between kernel and user memory.

  A page of memory is a link of the free list, a page table or data, one at a time; the model keeps
  a store for each use: \<open>next_of\<close> of the allocator, \<open>ptes p i\<close> for the entry \<open>i\<close> of the table at \<open>p\<close>, and
  \<open>ram\<close> for bytes. Filling a page with \<^verbatim>\<open>memset\<close> changes all of them. Virtual addresses are 64-bit words
  and wrap around; physical ones are numbers.
\<close>

section \<open>Page table entries\<close>

definition PTE_V :: uint64 where "PTE_V = 1"
definition PTE_R :: uint64 where "PTE_R = 2"
definition PTE_W :: uint64 where "PTE_W = 4"
definition PTE_X :: uint64 where "PTE_X = 8"
definition PTE_U :: uint64 where "PTE_U = 16"

definition PA2PTE :: "nat \<Rightarrow> uint64" where
  "PA2PTE pa = push_bit 10 (drop_bit 12 (of_nat pa))"

definition PTE2PA :: "uint64 \<Rightarrow> nat" where
  "PTE2PA pte = unat (push_bit 12 (drop_bit 10 pte))"

definition PTE_FLAGS :: "uint64 \<Rightarrow> uint64" where
  "PTE_FLAGS pte = pte AND 0x3FF"

definition PX :: "nat \<Rightarrow> uint64 \<Rightarrow> nat" where
  "PX level va = unat (drop_bit (12 + 9 * level) va AND 0x1FF)"

definition MAXVA :: uint64 where
  "MAXVA = push_bit (9 + 9 + 9 + 12 - 1) 1"

definition PGROUNDDOWN :: "uint64 \<Rightarrow> uint64" where
  "PGROUNDDOWN a = a AND NOT (of_nat PGSIZE - 1)"

text \<open>\<^verbatim>\<open>PGROUNDUP\<close> of a 64-bit size, which wraps around.\<close>

definition PGROUNDUP64 :: "uint64 \<Rightarrow> uint64" where
  "PGROUNDUP64 sz = (sz + of_nat PGSIZE - 1) AND NOT (of_nat PGSIZE - 1)"

section \<open>Memory\<close>

record pmem =
  ptes :: "nat \<Rightarrow> nat \<Rightarrow> uint64"
  ram :: "nat \<Rightarrow> uchar"

record mach =
  km :: kmem
  pm :: pmem

text \<open>\<^verbatim>\<open>memset(pa, b, PGSIZE)\<close>.\<close>

definition fill_page :: "uchar \<Rightarrow> nat \<Rightarrow> pmem \<Rightarrow> pmem" where
  "fill_page b pa p =
     p\<lparr>ptes := (ptes p)(pa := (\<lambda>_. ucast b * 0x0101010101010101)),
       ram := (\<lambda>a. if pa \<le> a \<and> a < pa + PGSIZE then b else ram p a)\<rparr>"

definition set_pte :: "nat \<Rightarrow> nat \<Rightarrow> uint64 \<Rightarrow> pmem \<Rightarrow> pmem" where
  "set_pte pt i pte p = p\<lparr>ptes := (ptes p)(pt := (ptes p pt)(i := pte))\<rparr>"

definition write_bytes :: "nat \<Rightarrow> uchar list \<Rightarrow> pmem \<Rightarrow> pmem" where
  "write_bytes pa bs p = p\<lparr>ram := (\<lambda>a. if pa \<le> a \<and> a < pa + length bs then bs ! (a - pa) else ram p a)\<rparr>"

definition read_bytes :: "nat \<Rightarrow> nat \<Rightarrow> pmem \<Rightarrow> uchar list" where
  "read_bytes pa n p = map (\<lambda>i. ram p (pa + i)) [0..<n]"

text \<open>The allocator, with the junk it leaves in the page.\<close>

definition kalloc_m :: "mach \<Rightarrow> nat \<times> mach" where
  "kalloc_m m =
     (let (pa, k) = kalloc (km m)
      in (pa, m\<lparr>km := k, pm := (if pa = 0 then pm m else fill_page 5 pa (pm m))\<rparr>))"

definition kfree_m :: "nat \<Rightarrow> nat \<Rightarrow> mach \<Rightarrow> mach res" where
  "kfree_m e pa m = kbind (kfree e pa (km m)) (\<lambda>k. Inr (m\<lparr>km := k, pm := fill_page 1 pa (pm m)\<rparr>))"

definition memset0 :: "nat \<Rightarrow> mach \<Rightarrow> mach" where
  "memset0 pa m = m\<lparr>pm := fill_page 0 pa (pm m)\<rparr>"

section \<open>The walk\<close>

text \<open>The loop of \<^verbatim>\<open>walk\<close>; a result is the table page and the index of the entry.\<close>

fun walk_from :: "nat \<Rightarrow> nat \<Rightarrow> uint64 \<Rightarrow> bool \<Rightarrow> mach \<Rightarrow> (nat \<times> nat) option \<times> mach" where
  "walk_from 0 pagetable va alloc m = (Some (pagetable, PX 0 va), m)"
| "walk_from (Suc l) pagetable va alloc m =
     (let pte = ptes (pm m) pagetable (PX (Suc l) va) in
      if pte AND PTE_V \<noteq> 0 then walk_from l (PTE2PA pte) va alloc m
      else if \<not> alloc then (None, m)
      else let (pa, m) = kalloc_m m in
           if pa = 0 then (None, m)
           else let m = memset0 pa m;
                    m = m\<lparr>pm := set_pte pagetable (PX (Suc l) va) (PA2PTE pa OR PTE_V) (pm m)\<rparr>
                in walk_from l pa va alloc m)"

definition walk :: "nat \<Rightarrow> uint64 \<Rightarrow> bool \<Rightarrow> mach \<Rightarrow> (nat \<times> nat) option \<times> mach" where
  "walk pagetable va alloc m =
     (if va \<ge> MAXVA then (None, m) else walk_from 2 pagetable va alloc m)"

text \<open>The walk without allocation reads page tables only.\<close>

fun find_from :: "nat \<Rightarrow> nat \<Rightarrow> uint64 \<Rightarrow> pmem \<Rightarrow> (nat \<times> nat) option" where
  "find_from 0 pagetable va p = Some (pagetable, PX 0 va)"
| "find_from (Suc l) pagetable va p =
     (let pte = ptes p pagetable (PX (Suc l) va) in
      if pte AND PTE_V \<noteq> 0 then find_from l (PTE2PA pte) va p else None)"

definition find_pte :: "nat \<Rightarrow> uint64 \<Rightarrow> pmem \<Rightarrow> (nat \<times> nat) option" where
  "find_pte pagetable va p = (if va \<ge> MAXVA then None else find_from 2 pagetable va p)"

lemma walk_from_find: "walk_from l pt va False m = (find_from l pt va (pm m), m)"
  by (induction l arbitrary: pt) (simp_all add: Let_def)

lemma walk_find: "walk pt va False m = (find_pte pt va (pm m), m)"
  by (simp add: walk_def find_pte_def walk_from_find)

definition walkaddr :: "nat \<Rightarrow> uint64 \<Rightarrow> pmem \<Rightarrow> nat" where
  "walkaddr pagetable va p =
     (if va \<ge> MAXVA then 0
      else case find_pte pagetable va p of
        None \<Rightarrow> 0
      | Some (pt, i) \<Rightarrow>
          let pte = ptes p pt i in
          if pte AND PTE_V = 0 then 0 else if pte AND PTE_U = 0 then 0 else PTE2PA pte)"

section \<open>Mappings\<close>

lemma walk_below: "walk pt va alloc m = (Some x, m') \<Longrightarrow> va < MAXVA"
  by (auto simp: walk_def split: if_splits)

lemma MAXVA_unat: "unat MAXVA = 2 ^ 38"
  by (simp add: MAXVA_def push_bit_eq_mult unat_word_ariths)

text \<open>The number of addresses below the end of the address space bounds the loops over pages.\<close>

definition room :: "uint64 \<Rightarrow> nat" where
  "room a = 2 ^ 38 + 4096 - unat a"

lemma page_step: "(a :: uint64) < MAXVA \<Longrightarrow> unat (a + of_nat PGSIZE) = unat a + 4096"
  by (subst unat_add_lem [THEN iffD1]) (simp_all add: word_less_nat_alt MAXVA_unat PGSIZE_def)

lemma room_step: "a < MAXVA \<Longrightarrow> room (a + of_nat PGSIZE) < room a"
  by (simp add: room_def page_step) (simp add: word_less_nat_alt MAXVA_unat)

lemma room_walk: "(Some x, m') = walk pt a alloc m \<Longrightarrow> room (a + of_nat PGSIZE) < room a"
  by (rule room_step [OF walk_below]) (rule sym)

function mappages_loop :: "nat \<Rightarrow> uint64 \<Rightarrow> uint64 \<Rightarrow> nat \<Rightarrow> uint64 \<Rightarrow> mach \<Rightarrow> (int \<times> mach) res" where
  "mappages_loop pagetable a stop pa perm m =
     (case walk pagetable a True m of
        (None, m) \<Rightarrow> Inr (-1, m)
      | (Some (pt, i), m) \<Rightarrow>
          if ptes (pm m) pt i AND PTE_V \<noteq> 0 then Inl (Panic ''mappages: remap'')
          else let m = m\<lparr>pm := set_pte pt i (PA2PTE pa OR perm OR PTE_V) (pm m)\<rparr> in
               if a = stop then Inr (0, m)
               else mappages_loop pagetable (a + of_nat PGSIZE) stop (pa + PGSIZE) perm m)"
  by pat_completeness auto
termination
  by (relation "measure (\<lambda>(pt, a, stop, pa, perm, m). room a)") (auto dest: room_walk)

declare mappages_loop.simps [simp del]

definition mappages :: "nat \<Rightarrow> uint64 \<Rightarrow> uint64 \<Rightarrow> nat \<Rightarrow> uint64 \<Rightarrow> mach \<Rightarrow> (int \<times> mach) res" where
  "mappages pagetable va sz pa perm m =
     (if sz = 0 then Inl (Panic ''mappages: size'')
      else mappages_loop pagetable (PGROUNDDOWN va) (PGROUNDDOWN (va + sz - 1)) pa perm m)"

definition kvmmap :: "nat \<Rightarrow> uint64 \<Rightarrow> nat \<Rightarrow> uint64 \<Rightarrow> uint64 \<Rightarrow> mach \<Rightarrow> mach res" where
  "kvmmap kpgtbl va pa sz perm m =
     kbind (mappages kpgtbl va sz pa perm m) (\<lambda>(r, m). if r \<noteq> 0 then Inl (Panic ''kvmmap'') else Inr m)"

section \<open>Address spaces\<close>

function uvmunmap_loop :: "nat \<Rightarrow> nat \<Rightarrow> uint64 \<Rightarrow> uint64 \<Rightarrow> bool \<Rightarrow> mach \<Rightarrow> mach res" where
  "uvmunmap_loop e pagetable a stop do_free m =
     (if a < stop
      then case walk pagetable a False m of
             (None, m) \<Rightarrow> Inl (Panic ''uvmunmap: walk'')
           | (Some (pt, i), m) \<Rightarrow>
               let pte = ptes (pm m) pt i in
               if pte AND PTE_V = 0 then Inl (Panic ''uvmunmap: not mapped'')
               else if PTE_FLAGS pte = PTE_V then Inl (Panic ''uvmunmap: not a leaf'')
               else kbind (if do_free then kfree_m e (PTE2PA pte) m else Inr m) (\<lambda>m.
                    uvmunmap_loop e pagetable (a + of_nat PGSIZE) stop do_free (m\<lparr>pm := set_pte pt i 0 (pm m)\<rparr>))
      else Inr m)"
  by pat_completeness auto
termination
  by (relation "measure (\<lambda>(e, pt, a, stop, do_free, m). room a)") (auto dest: room_walk)

declare uvmunmap_loop.simps [simp del]

definition uvmunmap :: "nat \<Rightarrow> nat \<Rightarrow> uint64 \<Rightarrow> uint64 \<Rightarrow> bool \<Rightarrow> mach \<Rightarrow> mach res" where
  "uvmunmap e pagetable va npages do_free m =
     (if va mod of_nat PGSIZE \<noteq> 0 then Inl (Panic ''uvmunmap: not aligned'')
      else uvmunmap_loop e pagetable va (va + npages * of_nat PGSIZE) do_free m)"

definition uvmcreate :: "mach \<Rightarrow> nat \<times> mach" where
  "uvmcreate m =
     (let (pagetable, m) = kalloc_m m in
      if pagetable = 0 then (0, m) else (pagetable, memset0 pagetable m))"

text \<open>Neither \<^verbatim>\<open>kalloc\<close> nor \<^verbatim>\<open>mappages\<close> is checked.\<close>

definition uvmfirst :: "nat \<Rightarrow> uchar list \<Rightarrow> mach \<Rightarrow> mach res" where
  "uvmfirst pagetable src m =
     (if length src \<ge> PGSIZE then Inl (Panic ''uvmfirst: more than a page'')
      else let (pa, m) = kalloc_m m in
           if pa = 0 then Inl BadAccess
           else kbind (mappages pagetable 0 (of_nat PGSIZE) pa (PTE_W OR PTE_R OR PTE_X OR PTE_U) (memset0 pa m)) (\<lambda>(r, m).
                Inr (m\<lparr>pm := write_bytes pa src (pm m)\<rparr>)))"

text \<open>The number of pages goes through an \<^verbatim>\<open>int\<close>.\<close>

definition uvmdealloc :: "nat \<Rightarrow> nat \<Rightarrow> uint64 \<Rightarrow> uint64 \<Rightarrow> mach \<Rightarrow> (uint64 \<times> mach) res" where
  "uvmdealloc e pagetable oldsz newsz m =
     (if newsz \<ge> oldsz then Inr (oldsz, m)
      else kbind (if PGROUNDUP64 newsz < PGROUNDUP64 oldsz
                  then let npages = scast (ucast ((PGROUNDUP64 oldsz - PGROUNDUP64 newsz) div of_nat PGSIZE) :: uint32)
                       in uvmunmap e pagetable (PGROUNDUP64 newsz) npages True m
                  else Inr m) (\<lambda>m. Inr (newsz, m)))"

lemma page_mask: "of_nat PGSIZE - 1 = (mask 12 :: uint64)"
  by (simp add: PGSIZE_def mask_eq_exp_minus_1)

lemma unat_round_down: "unat (PGROUNDDOWN a) = unat a div 4096 * 4096"
proof -
  have "PGROUNDDOWN a = push_bit 12 (drop_bit 12 a)"
    unfolding PGROUNDDOWN_def page_mask by (rule bit_word_eqI) (auto simp: bit_simps)
  moreover have "unat a div 4096 * 4096 < 2 ^ 64"
    using unsigned_less [of a] by (intro le_less_trans [OF div_times_less_eq_dividend]) simp
  ultimately show ?thesis
    by (simp add: push_bit_eq_mult drop_bit_eq_div unat_word_ariths unat_div)
qed

lemma mappages_below:
  assumes "mappages pt a (of_nat PGSIZE) pa perm m = Inr (0, m')"
  shows "a < MAXVA"
proof -
  have "PGROUNDDOWN a < MAXVA"
    using assms by (auto simp: mappages_def mappages_loop.simps [of _ "PGROUNDDOWN a"] walk_def split: if_splits)
  then show ?thesis by (simp add: word_less_nat_alt unat_round_down MAXVA_unat)
qed

function uvmalloc_loop :: "nat \<Rightarrow> nat \<Rightarrow> uint64 \<Rightarrow> uint64 \<Rightarrow> uint64 \<Rightarrow> uint64 \<Rightarrow> mach \<Rightarrow> (uint64 \<times> mach) res" where
  "uvmalloc_loop e pagetable oldsz newsz xperm a m =
     (if a < newsz
      then let (pa, m) = kalloc_m m in
           if pa = 0 then kbind (uvmdealloc e pagetable a oldsz m) (\<lambda>(_, m). Inr (0, m))
           else kbind (mappages pagetable a (of_nat PGSIZE) pa (PTE_R OR PTE_U OR xperm) (memset0 pa m)) (\<lambda>(r, m).
                if r \<noteq> 0
                then kbind (kfree_m e pa m) (\<lambda>m.
                     kbind (uvmdealloc e pagetable a oldsz m) (\<lambda>(_, m). Inr (0, m)))
                else uvmalloc_loop e pagetable oldsz newsz xperm (a + of_nat PGSIZE) m)
      else Inr (newsz, m))"
  by pat_completeness auto
termination
  by (relation "measure (\<lambda>(e, pt, oldsz, newsz, xperm, a, m). room a)") (auto intro: room_step dest: mappages_below)

declare uvmalloc_loop.simps [simp del]

definition uvmalloc :: "nat \<Rightarrow> nat \<Rightarrow> uint64 \<Rightarrow> uint64 \<Rightarrow> uint64 \<Rightarrow> mach \<Rightarrow> (uint64 \<times> mach) res" where
  "uvmalloc e pagetable oldsz newsz xperm m =
     (if newsz < oldsz then Inr (oldsz, m)
      else uvmalloc_loop e pagetable (PGROUNDUP64 oldsz) newsz xperm (PGROUNDUP64 oldsz) m)"

text \<open>
  \<^verbatim>\<open>freewalk\<close> recurses along the entries that are valid without permissions. A Sv39 table has three
  levels; on a deeper chain, which no table of the kernel has, the model stops with \<open>BadAccess\<close>.
\<close>

fun freewalk_from :: "nat \<Rightarrow> nat \<Rightarrow> nat \<Rightarrow> mach \<Rightarrow> mach res" where
  "freewalk_from 0 e pagetable m = Inl BadAccess"
| "freewalk_from (Suc l) e pagetable m =
     kbind (kfold (\<lambda>i m.
        let pte = ptes (pm m) pagetable i in
        if pte AND PTE_V \<noteq> 0 \<and> pte AND (PTE_R OR PTE_W OR PTE_X) = 0
        then kbind (freewalk_from l e (PTE2PA pte) m) (\<lambda>m. Inr (m\<lparr>pm := set_pte pagetable i 0 (pm m)\<rparr>))
        else if pte AND PTE_V \<noteq> 0 then Inl (Panic ''freewalk: leaf'')
        else Inr m) [0..<512] m) (kfree_m e pagetable)"

definition freewalk :: "nat \<Rightarrow> nat \<Rightarrow> mach \<Rightarrow> mach res" where
  "freewalk e pagetable m = freewalk_from 3 e pagetable m"

definition uvmfree :: "nat \<Rightarrow> nat \<Rightarrow> uint64 \<Rightarrow> mach \<Rightarrow> mach res" where
  "uvmfree e pagetable sz m =
     kbind (if sz > 0 then uvmunmap e pagetable 0 (PGROUNDUP64 sz div of_nat PGSIZE) True m else Inr m)
       (freewalk e pagetable)"

function uvmcopy_loop :: "nat \<Rightarrow> nat \<Rightarrow> nat \<Rightarrow> uint64 \<Rightarrow> uint64 \<Rightarrow> mach \<Rightarrow> (int \<times> mach) res" where
  "uvmcopy_loop e old new sz i m =
     (if i < sz
      then case walk old i False m of
             (None, m) \<Rightarrow> Inl (Panic ''uvmcopy: pte should exist'')
           | (Some (pt, k), m) \<Rightarrow>
               let pte = ptes (pm m) pt k in
               if pte AND PTE_V = 0 then Inl (Panic ''uvmcopy: page not present'')
               else let pa = PTE2PA pte; flags = PTE_FLAGS pte; (mem, m) = kalloc_m m in
               if mem = 0 then kbind (uvmunmap e new 0 (i div of_nat PGSIZE) True m) (\<lambda>m. Inr (-1, m))
               else let m = m\<lparr>pm := write_bytes mem (read_bytes pa PGSIZE (pm m)) (pm m)\<rparr> in
               kbind (mappages new i (of_nat PGSIZE) mem flags m) (\<lambda>(r, m).
               if r \<noteq> 0
               then kbind (kfree_m e mem m) (\<lambda>m.
                    kbind (uvmunmap e new 0 (i div of_nat PGSIZE) True m) (\<lambda>m. Inr (-1, m)))
               else uvmcopy_loop e old new sz (i + of_nat PGSIZE) m)
      else Inr (0, m))"
  by pat_completeness auto
termination
  by (relation "measure (\<lambda>(e, old, new, sz, i, m). room i)") (auto dest: room_walk)

declare uvmcopy_loop.simps [simp del]

definition uvmcopy :: "nat \<Rightarrow> nat \<Rightarrow> nat \<Rightarrow> uint64 \<Rightarrow> mach \<Rightarrow> (int \<times> mach) res" where
  "uvmcopy e old new sz m = uvmcopy_loop e old new sz 0 m"

definition uvmclear :: "nat \<Rightarrow> uint64 \<Rightarrow> pmem \<Rightarrow> pmem res" where
  "uvmclear pagetable va p =
     (case find_pte pagetable va p of
        None \<Rightarrow> Inl (Panic ''uvmclear'')
      | Some (pt, i) \<Rightarrow> Inr (set_pte pt i (ptes p pt i AND NOT PTE_U) p))"

section \<open>Copies between kernel and user memory\<close>

text \<open>
  The kernel buffers are byte lists: \<open>src\<close> holds the \<^verbatim>\<open>len\<close> bytes to copy out; \<^verbatim>\<open>copyin\<close> and
  \<^verbatim>\<open>copyinstr\<close> return what they have stored in \<^verbatim>\<open>dst\<close>. \<open>chunk va n\<close> is the number of bytes to copy on the
  page of \<open>va\<close>.
\<close>

definition chunk :: "uint64 \<Rightarrow> nat \<Rightarrow> nat" where
  "chunk va n = (let k = PGSIZE - unat (va - PGROUNDDOWN va) in if k > n then n else k)"

lemma page_offset: "unat (va - PGROUNDDOWN va) = unat va mod 4096"
proof -
  have "PGROUNDDOWN va \<le> va" by (simp add: word_le_nat_alt unat_round_down)
  then have "unat (va - PGROUNDDOWN va) = unat va - unat (PGROUNDDOWN va)" by (rule unat_sub)
  then show ?thesis by (simp add: unat_round_down minus_div_mult_eq_mod)
qed

lemma chunk_pos: "0 < n \<Longrightarrow> 0 < chunk va n"
  by (simp add: chunk_def Let_def page_offset PGSIZE_def)

lemma chunk_le: "chunk va n \<le> n"
  by (simp add: chunk_def Let_def)

function copyout :: "nat \<Rightarrow> uint64 \<Rightarrow> uchar list \<Rightarrow> pmem \<Rightarrow> int \<times> pmem" where
  "copyout pagetable dstva src p =
     (if src = [] then (0, p)
      else let va0 = PGROUNDDOWN dstva; pa0 = walkaddr pagetable va0 p in
           if pa0 = 0 then (-1, p)
           else let n = chunk dstva (length src)
                in copyout pagetable (va0 + of_nat PGSIZE) (drop n src)
                     (write_bytes (pa0 + unat (dstva - va0)) (take n src) p))"
  by pat_completeness auto
termination
  by (relation "measure (\<lambda>(pt, va, src, p). length src)") (auto simp: chunk_pos)

declare copyout.simps [simp del]

function copyin :: "nat \<Rightarrow> uint64 \<Rightarrow> nat \<Rightarrow> pmem \<Rightarrow> int \<times> uchar list" where
  "copyin pagetable srcva len p =
     (if len = 0 then (0, [])
      else let va0 = PGROUNDDOWN srcva; pa0 = walkaddr pagetable va0 p in
           if pa0 = 0 then (-1, [])
           else let n = chunk srcva len;
                    (r, bs) = copyin pagetable (va0 + of_nat PGSIZE) (len - n) p
                in (r, read_bytes (pa0 + unat (srcva - va0)) n p @ bs))"
  by pat_completeness auto
termination
  by (relation "measure (\<lambda>(pt, va, len, p). len)") (auto simp: chunk_pos)

declare copyin.simps [simp del]

text \<open>The inner loop of \<^verbatim>\<open>copyinstr\<close>: the bytes up to a null, if there is one.\<close>

fun copy_str :: "uchar list \<Rightarrow> bool \<times> uchar list" where
  "copy_str [] = (False, [])"
| "copy_str (c # cs) = (if c = 0 then (True, [0]) else let (got_null, ds) = copy_str cs in (got_null, c # ds))"

function copyinstr :: "nat \<Rightarrow> uint64 \<Rightarrow> nat \<Rightarrow> pmem \<Rightarrow> int \<times> uchar list" where
  "copyinstr pagetable srcva mx p =
     (if mx = 0 then (-1, [])
      else let va0 = PGROUNDDOWN srcva; pa0 = walkaddr pagetable va0 p in
           if pa0 = 0 then (-1, [])
           else let n = chunk srcva mx;
                    (got_null, ds) = copy_str (read_bytes (pa0 + unat (srcva - va0)) n p)
                in if got_null then (0, ds)
                   else let (r, bs) = copyinstr pagetable (va0 + of_nat PGSIZE) (mx - n) p in (r, ds @ bs))"
  by pat_completeness auto
termination
  by (relation "measure (\<lambda>(pt, va, mx, p). mx)") (auto simp: chunk_pos)

declare copyinstr.simps [simp del]

section \<open>The kernel's page table\<close>

definition UART0 :: nat where "UART0 = 0x10000000"
definition VIRTIO0 :: nat where "VIRTIO0 = 0x10001000"
definition PLIC :: nat where "PLIC = 0x0c000000"
definition KERNBASE :: nat where "KERNBASE = 0x80000000"

definition VIRTIOX :: "nat \<Rightarrow> nat" where
  "VIRTIOX x = VIRTIO0 + x * 0x1000"

definition TRAMPOLINE :: uint64 where
  "TRAMPOLINE = MAXVA - of_nat PGSIZE"

definition KSTACK :: "nat \<Rightarrow> uint64" where
  "KSTACK p = TRAMPOLINE - of_nat (p + 1) * 2 * of_nat PGSIZE"

definition NPROC :: nat where "NPROC = 64"

definition proc_mapstacks :: "nat \<Rightarrow> mach \<Rightarrow> mach res" where
  "proc_mapstacks kpgtbl m =
     kfold (\<lambda>p m. let (pa, m) = kalloc_m m in
              if pa = 0 then Inl (Panic ''kalloc'')
              else kvmmap kpgtbl (KSTACK p) pa (of_nat PGSIZE) (PTE_R OR PTE_W) m) [0..<NPROC] m"

text \<open>
  \<open>disks\<close> is \<^verbatim>\<open>VIRTIO_RAID_DISK_END\<close>; \<open>etext\<close> and \<open>trampoline\<close> are symbols of the linker and of
  \<^verbatim>\<open>trampoline.S\<close>. The first \<^verbatim>\<open>kalloc\<close> is not checked.
\<close>

definition kvmmake :: "nat \<Rightarrow> nat \<Rightarrow> nat \<Rightarrow> mach \<Rightarrow> (nat \<times> mach) res" where
  "kvmmake disks etext trampoline m =
     (let (kpgtbl, m) = kalloc_m m; rw = PTE_R OR PTE_W in
      if kpgtbl = 0 then Inl BadAccess
      else
      kbind (kvmmap kpgtbl (of_nat UART0) UART0 (of_nat PGSIZE) rw (memset0 kpgtbl m)) (\<lambda>m.
      kbind (kvmmap kpgtbl (of_nat VIRTIO0) VIRTIO0 (of_nat PGSIZE) rw m) (\<lambda>m.
      kbind (kfold (\<lambda>i m. kvmmap kpgtbl (of_nat (VIRTIOX i)) (VIRTIOX i) (of_nat PGSIZE) rw m) [1..<Suc disks] m) (\<lambda>m.
      kbind (kvmmap kpgtbl (of_nat PLIC) PLIC 0x400000 rw m) (\<lambda>m.
      kbind (kvmmap kpgtbl (of_nat KERNBASE) KERNBASE (of_nat etext - of_nat KERNBASE) (PTE_R OR PTE_X) m) (\<lambda>m.
      kbind (kvmmap kpgtbl (of_nat etext) etext (of_nat PHYSTOP - of_nat etext) rw m) (\<lambda>m.
      kbind (kvmmap kpgtbl TRAMPOLINE trampoline (of_nat PGSIZE) (PTE_R OR PTE_X) m) (\<lambda>m.
      kbind (proc_mapstacks kpgtbl m) (\<lambda>m. Inr (kpgtbl, m))))))))))"

end
