(* ===== verification/Vm_Copy.thy ===== *)
theory Vm_Copy
  imports Vm
begin

text \<open>
  The copies between kernel and user memory: a user address is translated page by page, and
  \<^verbatim>\<open>copyin\<close>, \<^verbatim>\<open>copyout\<close>, \<^verbatim>\<open>copyinstr\<close> move exactly the bytes of the translated range.
\<close>

section \<open>Translation\<close>

definition uaddr :: "nat \<Rightarrow> pmem \<Rightarrow> uint64 \<Rightarrow> nat option" where
  "uaddr pt p va =
     (let pa0 = walkaddr pt (PGROUNDDOWN va) p in if pa0 = 0 then None else Some (pa0 + unat va mod 4096))"

text \<open>The physical addresses of the \<open>n\<close> bytes from \<open>va\<close>; \<open>None\<close> when one of them is not mapped.\<close>

definition urange :: "nat \<Rightarrow> pmem \<Rightarrow> uint64 \<Rightarrow> nat \<Rightarrow> nat list option" where
  "urange pt p va n = those (map (\<lambda>i. uaddr pt p (va + of_nat i)) [0..<n])"

lemma find_from_cong: "ptes p' = ptes p \<Longrightarrow> find_from l pt va p' = find_from l pt va p"
  by (induction l arbitrary: pt) (simp_all add: Let_def)

lemma walkaddr_cong: "ptes p' = ptes p \<Longrightarrow> walkaddr pt va p' = walkaddr pt va p"
  by (simp add: walkaddr_def find_pte_def find_from_cong [of p' p] split: option.splits prod.splits)

lemma urange_length: "urange pt p va n = Some as \<Longrightarrow> length as = n"
  by (auto simp: urange_def dest: those_length)

lemma urange_cong: "ptes p' = ptes p \<Longrightarrow> urange pt p' va n = urange pt p va n"
  by (simp add: urange_def uaddr_def walkaddr_cong [of p' p])

lemma ptes_write_bytes [simp]: "ptes (write_bytes a bs p) = ptes p"
  by (simp add: write_bytes_def)

text \<open>Inside the chunk of one page.\<close>

lemma chunk_page:
  assumes "i < chunk va n"
  shows "unat va mod 4096 + i < 4096" and "unat (va + of_nat i) = unat va + i"
proof -
  have i: "i < 4096 - unat va mod 4096"
    using assms by (simp add: chunk_def Let_def page_offset PGSIZE_def split: if_splits)
  then show "unat va mod 4096 + i < 4096" by linarith
  have "unat va + i < unat va div 4096 * 4096 + 4096"
    using i div_mult_mod_eq [of "unat va" 4096] by linarith
  moreover have "unat va div 4096 * 4096 + 4096 \<le> 2 ^ 64"
  proof -
    have "unat va < 2 ^ 64" by (rule order_less_le_trans [OF unsigned_less]) simp
    then have "unat va div 4096 < 2 ^ 52" by (simp add: less_mult_imp_div_less)
    then show ?thesis by simp
  qed
  ultimately have lt: "unat va + i < 2 ^ 64" by linarith
  then have "unat (of_nat i :: uint64) = i" by (simp add: unat_of_nat)
  then show "unat (va + of_nat i) = unat va + i" using lt by (simp add: unat_word_ariths)
qed

lemma mod_add_small: "a mod k + i < k \<Longrightarrow> (a + i) mod k = a mod k + (i :: nat)"
  by (metis mod_add_left_eq mod_less)

lemma div_add_small: "a mod k + i < k \<Longrightarrow> (a + i) div k = a div (k :: nat)"
  by (simp add: div_add1_eq [of a i])

lemma uaddr_chunk:
  assumes "i < chunk va n"
  shows "uaddr pt p (va + of_nat i) =
    (let pa0 = walkaddr pt (PGROUNDDOWN va) p in if pa0 = 0 then None else Some (pa0 + unat (va - PGROUNDDOWN va) + i))"
proof -
  note c = chunk_page [OF assms]
  have "unat (PGROUNDDOWN (va + of_nat i)) = unat (PGROUNDDOWN va)"
    using div_add_small [OF c(1)] by (simp add: unat_round_down c(2))
  then have "PGROUNDDOWN (va + of_nat i) = PGROUNDDOWN va" by (simp add: word_unat_eq_iff)
  then show ?thesis
    using mod_add_small [OF c(1)] by (simp add: uaddr_def Let_def c(2) page_offset)
qed

lemma next_page:
  assumes "chunk va n < n"
  shows "PGROUNDDOWN va + of_nat PGSIZE = va + of_nat (chunk va n)"
proof -
  have "chunk va n = PGSIZE - unat (va - PGROUNDDOWN va)" using assms by (simp add: chunk_def Let_def split: if_splits)
  moreover have "unat (va - PGROUNDDOWN va) \<le> PGSIZE" by (simp add: page_offset PGSIZE_def)
  ultimately show ?thesis by (simp add: of_nat_diff)
qed

text \<open>The range of a transfer: the chunk of the first page, then the rest.\<close>

lemma urange_step:
  assumes "0 < n"
  shows "urange pt p va n =
    (let pa0 = walkaddr pt (PGROUNDDOWN va) p; k = chunk va n in
     if pa0 = 0 then None
     else map_option ((@) (map (\<lambda>i. pa0 + unat (va - PGROUNDDOWN va) + i) [0..<k]))
            (urange pt p (PGROUNDDOWN va + of_nat PGSIZE) (n - k)))"
proof -
  let ?k = "chunk va n"
  have split: "[0..<n] = [0..<?k] @ map (\<lambda>i. ?k + i) [0..<n - ?k]"
    using chunk_le [of va n] upt_add_eq_append [of 0 ?k "n - ?k"]
    by (simp add: map_add_upt [of ?k "n - ?k"] add.commute)
  have rest: "map (\<lambda>i. uaddr pt p (va + of_nat (?k + i))) [0..<n - ?k] =
      map (\<lambda>i. uaddr pt p (PGROUNDDOWN va + of_nat PGSIZE + of_nat i)) [0..<n - ?k]"
  proof (cases "?k = n")
    case False
    then have "PGROUNDDOWN va + of_nat PGSIZE = va + of_nat ?k" using chunk_le [of va n] by (intro next_page) simp
    then show ?thesis by (simp add: add.assoc)
  qed simp
  have first: "map (\<lambda>i. uaddr pt p (va + of_nat i)) [0..<?k] =
      map (\<lambda>i. if walkaddr pt (PGROUNDDOWN va) p = 0 then None
                else Some (walkaddr pt (PGROUNDDOWN va) p + unat (va - PGROUNDDOWN va) + i)) [0..<?k]"
    by (rule map_cong [OF refl]) (simp add: uaddr_chunk Let_def)
  show ?thesis
  proof (cases "walkaddr pt (PGROUNDDOWN va) p = 0")
    case True
    obtain j where "?k = Suc j" using chunk_pos [OF assms, of va] gr0_implies_Suc by blast
    then have "[0..<?k] = 0 # [Suc 0..<?k]" by (simp add: upt_conv_Cons)
    then show ?thesis
      using True by (simp only: urange_def split map_append those_append) (simp add: uaddr_def [of pt p va])
  next
    case False
    then show ?thesis
      unfolding urange_def split map_append first those_append list.map_comp comp_def rest
      by (simp add: those_map_Some Let_def)
  qed
qed

section \<open>Copying in\<close>

text \<open>\<^verbatim>\<open>copyin\<close> returns the bytes of the range, or fails when one of them is not mapped.\<close>

lemma copyin_range:
  "case urange pt p va len of
     Some as \<Rightarrow> copyin pt va len p = (0, map (ram p) as)
   | None \<Rightarrow> fst (copyin pt va len p) = -1"
proof (induction pt va len p rule: copyin.induct)
  case (1 pt va len p)
  show ?case
  proof (cases "len = 0")
    case True
    then show ?thesis by (simp add: urange_def copyin.simps [of _ _ 0])
  next
    case False
    then show ?thesis
      using 1 [OF False refl refl _ refl]
      by (auto simp: copyin.simps [of pt va len] urange_step Let_def read_bytes_def comp_def
          split: option.splits prod.splits)
  qed
qed

section \<open>Copying out\<close>

text \<open>Storing bytes at a list of addresses, in order.\<close>

definition store_at :: "nat list \<Rightarrow> uchar list \<Rightarrow> (nat \<Rightarrow> uchar) \<Rightarrow> nat \<Rightarrow> uchar" where
  "store_at as bs r = fold (\<lambda>(a, b) r. r(a := b)) (zip as bs) r"

lemma store_at_append: "length as = length bs \<Longrightarrow> store_at (as @ as') (bs @ bs') r = store_at as' bs' (store_at as bs r)"
  by (simp add: store_at_def)

lemma store_at_other: "a \<notin> set as \<Longrightarrow> store_at as bs r a = r a"
  unfolding store_at_def
proof (induction as arbitrary: bs r)
  case (Cons a' as)
  then show ?case by (cases bs) auto
qed simp

lemma store_at_nth:
  assumes "distinct as" "length as = length bs" "i < length as"
  shows "store_at as bs r (as ! i) = bs ! i"
  using assms
proof (induction as arbitrary: bs r i)
  case (Cons a as)
  then obtain b bs' where bs: "bs = b # bs'" by (cases bs) auto
  show ?case
  proof (cases i)
    case 0
    then show ?thesis using Cons.prems store_at_other [of a as bs'] by (simp add: bs store_at_def)
  next
    case (Suc j)
    then show ?thesis using Cons.IH [of bs' j] Cons.prems by (simp add: bs store_at_def)
  qed
qed simp

lemma store_at_run:
  "store_at (map (\<lambda>i. a + i) [0..<length bs]) bs r = (\<lambda>x. if a \<le> x \<and> x < a + length bs then bs ! (x - a) else r x)"
proof
  fix x
  let ?as = "map (\<lambda>i. a + i) [0..<length bs]"
  show "store_at ?as bs r x = (if a \<le> x \<and> x < a + length bs then bs ! (x - a) else r x)"
  proof (cases "a \<le> x \<and> x < a + length bs")
    case True
    then have "?as ! (x - a) = x" "x - a < length ?as" by auto
    then show ?thesis using store_at_nth [of ?as bs "x - a" r] True by (simp add: distinct_map)
  next
    case False
    then have "x \<notin> set ?as" by auto
    then show ?thesis using False store_at_other [of x ?as bs r] by auto
  qed
qed

text \<open>
  \<^verbatim>\<open>copyout\<close> stores the bytes at the addresses of the range and changes nothing else; when a page is
  not mapped it fails, with the bytes before that page stored.
\<close>

lemma copyout_range:
  "case urange pt p va (length src) of
     Some as \<Rightarrow> copyout pt va src p = (0, p\<lparr>ram := store_at as src (ram p)\<rparr>)
   | None \<Rightarrow> fst (copyout pt va src p) = -1"
proof (induction pt va src p rule: copyout.induct)
  case (1 pt va src p)
  show ?case
  proof (cases "src = []")
    case True
    then show ?thesis by (simp add: urange_def copyout.simps [of _ _ "[]"] store_at_def)
  next
    case False
    let ?pa = "walkaddr pt (PGROUNDDOWN va) p" and ?k = "chunk va (length src)"
    let ?a = "?pa + unat (va - PGROUNDDOWN va)"
    let ?p = "write_bytes ?a (take ?k src) p"
    have k: "length (take ?k src) = ?k" using chunk_le [of va "length src"] by simp
    have st: "?p = p\<lparr>ram := store_at (map (\<lambda>i. ?a + i) [0..<?k]) (take ?k src) (ram p)\<rparr>"
      using store_at_run [of ?a "take ?k src" "ram p"] k by (simp add: write_bytes_def)
    have app: "store_at (map (\<lambda>i. ?a + i) [0..<?k] @ as) src r = store_at as (drop ?k src) (store_at (map (\<lambda>i. ?a + i) [0..<?k]) (take ?k src) r)"
      for as r using store_at_append [of "map (\<lambda>i. ?a + i) [0..<?k]" "take ?k src" as "drop ?k src" r] k by simp
    have same: "urange pt ?p v n = urange pt p v n" for v n by (rule urange_cong) simp
    show ?thesis
      using 1 [OF False refl refl _ refl] False unfolding same
      by (auto simp: copyout.simps [of pt va src] urange_step Let_def st app split: option.splits)
  qed
qed

section \<open>Strings\<close>

lemma copy_str_null: "0 \<notin> set s \<Longrightarrow> copy_str (s @ 0 # cs) = (True, s @ [0])"
  by (induction s) auto

lemma copy_str_no_null: "0 \<notin> set s \<Longrightarrow> copy_str s = (False, s)"
  by (induction s) auto

lemma chunk_min: "chunk va n = min (4096 - unat va mod 4096) n"
  by (simp add: chunk_def Let_def page_offset PGSIZE_def)

lemma read_bytes_add: "read_bytes a (i + j) p = read_bytes a i p @ read_bytes (a + i) j p"
  by (rule nth_equalityI) (auto simp: read_bytes_def nth_append)

text \<open>A string that lies in mapped memory and fits, with its null, in the buffer is copied whole.\<close>

lemma copyinstr_found:
  assumes "urange pt p va (Suc (length s)) = Some as" "map (ram p) as = s @ [0]" "0 \<notin> set s" "length s < mx"
  shows "copyinstr pt va mx p = (0, s @ [0])"
  using assms
proof (induction pt va mx p arbitrary: s as rule: copyinstr.induct)
  case (1 pt va mx p)
  let ?pa = "walkaddr pt (PGROUNDDOWN va) p" and ?k = "4096 - unat va mod 4096"
  let ?a = "?pa + unat (va - PGROUNDDOWN va)" and ?n = "chunk va (Suc (length s))"
  have mx: "mx \<noteq> 0" and k: "0 < ?k" using 1(5) by simp_all
  from 1(2) obtain bs where pa: "?pa \<noteq> 0" and as: "as = map (\<lambda>i. ?a + i) [0..<?n] @ bs"
    and bs: "urange pt p (PGROUNDDOWN va + of_nat PGSIZE) (Suc (length s) - ?n) = Some bs"
    by (auto simp: urange_step Let_def split: if_splits)
  have rd: "read_bytes ?a ?n p @ map (ram p) bs = s @ [0]" using 1(3) by (simp add: as read_bytes_def comp_def)
  show ?case
  proof (cases "Suc (length s) \<le> ?k")
    case True
    then have n: "?n = Suc (length s)" by (simp add: chunk_min)
    have b: "bs = []" using bs by (simp add: n urange_def)
    obtain j where j: "chunk va mx = Suc (length s) + j"
      using True 1(5) by (intro that [of "chunk va mx - Suc (length s)"]) (simp add: chunk_min)
    have "read_bytes ?a (chunk va mx) p = s @ 0 # read_bytes (?a + Suc (length s)) j p"
      unfolding j read_bytes_add using rd by (simp add: n b)
    then show ?thesis using mx pa 1(4) by (simp add: copyinstr.simps [of pt va mx] Let_def copy_str_null)
  next
    case False
    then have n: "?n = ?k" "chunk va mx = ?k" using 1(5) by (simp_all add: chunk_min)
    have len: "length (read_bytes ?a ?k p) = ?k" by (simp add: read_bytes_def)
    have s1: "read_bytes ?a ?k p = take ?k s" and s2: "map (ram p) bs = drop ?k s @ [0]"
      using rd False len unfolding n by (auto simp: append_eq_append_conv_if)
    have cs: "copy_str (read_bytes ?a (chunk va mx) p) = (False, take ?k s)"
      unfolding n s1 using 1(4) by (intro copy_str_no_null) (blast dest: in_set_takeD)
    have "Suc (length s) - ?k = Suc (length (drop ?k s))" using False by simp
    with bs have bs': "urange pt p (PGROUNDDOWN va + of_nat PGSIZE) (Suc (length (drop ?k s))) = Some bs"
      by (simp only: n)
    have "copyinstr pt (PGROUNDDOWN va + of_nat PGSIZE) (mx - chunk va mx) p = (0, drop ?k s @ [0])"
      by (rule 1(1) [OF mx refl refl pa refl cs [symmetric] refl _ bs' s2])
        (use False 1(4,5) k in \<open>auto simp: n dest: in_set_dropD\<close>)
    then show ?thesis
      using mx pa cs by (simp add: copyinstr.simps [of pt va mx] Let_def)
  qed
qed

end
