(* ===== verification/Vm_Map.thy ===== *)
theory Vm_Map
  imports Vm_Copy
begin

text \<open>
  The tree of page tables and the mapping it stands for: walking with allocation changes no mapping,
  \<^verbatim>\<open>mappages\<close> adds exactly the pages asked for, and \<^verbatim>\<open>uvmalloc\<close> extends an address space with zeroed
  memory.
\<close>

section \<open>Entries\<close>

lemma pte_fields:
  assumes "pa mod PGSIZE = 0" "pa < 2 ^ 54" "drop_bit 10 f = (0 :: uint64)"
  shows "PTE2PA (PA2PTE pa OR f) = pa" and "drop_bit 10 g = 0 \<Longrightarrow> (PA2PTE pa OR f) AND g = f AND g"
proof -
  let ?w = "of_nat pa :: uint64"
  have u: "unat ?w = pa" using assms(2) by (simp add: unat_of_nat)
  have f0: "\<not> bit h n" if "drop_bit 10 h = (0 :: uint64)" "10 \<le> n" for h n
  proof -
    have "bit (drop_bit 10 h) (n - 10) = bit h n" using that(2) by (simp add: bit_drop_bit_eq)
    with that(1) show ?thesis by simp
  qed
  have low: "\<not> bit ?w n" if "n < 12" for n
  proof -
    have "4096 dvd pa" using assms(1) by (simp add: PGSIZE_def dvd_eq_mod_eq_0)
    then obtain k where "pa = 2 ^ 12 * k" by auto
    then have "?w = push_bit 12 (of_nat k)" by (simp add: push_bit_eq_mult mult.commute)
    with that show ?thesis by (simp add: bit_simps)
  qed
  have high: "\<not> bit ?w n" if "54 \<le> n" for n
  proof -
    have "take_bit 54 ?w = ?w" using assms(2) u by (simp add: word_unat_eq_iff unsigned_take_bit_eq take_bit_nat_eq_self)
    then show ?thesis using that by (metis bit_take_bit_iff not_less)
  qed
  have "push_bit 12 (drop_bit 10 (PA2PTE pa OR f)) = ?w"
    unfolding PA2PTE_def
  proof (rule bit_word_eqI)
    fix n
    assume "n < LENGTH(64)"
    then show "bit (push_bit 12 (drop_bit 10 (push_bit 10 (drop_bit 12 ?w) OR f))) n = bit ?w n"
      using low [of n] high [of n] f0 [OF assms(3), of "n - 2"] by (cases "n < 12") (auto simp: bit_simps not_less)
  qed
  then show "PTE2PA (PA2PTE pa OR f) = pa" by (simp add: PTE2PA_def u)
  show "(PA2PTE pa OR f) AND g = f AND g" if "drop_bit 10 g = 0"
    unfolding PA2PTE_def
    by (rule bit_word_eqI) (use f0 [OF that] in \<open>auto simp: bit_simps not_less\<close>)
qed

lemma PX_nat: "PX l va = unat va div 2 ^ (12 + 9 * l) mod 512"
proof -
  have "(0x1FF :: uint64) = mask 9" by (simp add: mask_eq_exp_minus_1)
  then have "PX l va = unat (take_bit 9 (drop_bit (12 + 9 * l) va))" by (simp only: PX_def take_bit_eq_mask)
  also have "\<dots> = take_bit 9 (drop_bit (12 + 9 * l) (unat va))"
  proof -
    have "unat va < 2 ^ 64" by (rule order_less_le_trans [OF unsigned_less]) simp
    then have "take_bit 64 (unat va) = unat va" by (rule take_bit_nat_eq_self)
    then show ?thesis by (simp only: unsigned_take_bit_eq unsigned_drop_bit_eq) simp
  qed
  also have "\<dots> = unat va div 2 ^ (12 + 9 * l) mod 512" by (simp add: take_bit_eq_mod drop_bit_eq_div)
  finally show ?thesis .
qed

lemma same_page:
  assumes "va < MAXVA" "va' < MAXVA"
  shows "PX 2 va = PX 2 va' \<and> PX 1 va = PX 1 va' \<and> PX 0 va = PX 0 va' \<longleftrightarrow> PGROUNDDOWN va = PGROUNDDOWN va'"
proof -
  have split: "P = (P div 262144 mod 512) * 262144 + (P div 512 mod 512) * 512 + P mod 512" if "P < 2 ^ 26" for P :: nat
  proof -
    define q where "q = P div 512"
    have q: "P div 262144 = q div 512" "q div 512 < 512" using that by (simp_all add: q_def div_mult2_eq [symmetric] less_mult_imp_div_less)
    have "P = q * 512 + P mod 512" "q = q div 512 * 512 + q mod 512" "q div 512 mod 512 = q div 512"
      using q(2) by (simp_all add: q_def)
    then show ?thesis unfolding q(1) q_def [symmetric] by linarith
  qed
  have P: "PX 2 v = unat v div 4096 div 262144 mod 512" "PX 1 v = unat v div 4096 div 512 mod 512"
    "PX 0 v = unat v div 4096 mod 512" for v
    by (simp_all add: PX_nat div_mult2_eq [symmetric])
  have lt: "unat va div 4096 < 2 ^ 26" "unat va' div 4096 < 2 ^ 26"
    using assms by (simp_all add: word_less_nat_alt MAXVA_unat less_mult_imp_div_less)
  have "PGROUNDDOWN va = PGROUNDDOWN va' \<longleftrightarrow> unat va div 4096 = unat va' div 4096"
    by (simp add: word_unat_eq_iff unat_round_down)
  then show ?thesis using split [OF lt(1)] split [OF lt(2)] P by metis
qed

section \<open>The tree of tables\<close>

definition child :: "pmem \<Rightarrow> nat \<Rightarrow> nat \<Rightarrow> nat option" where
  "child p t i = (if ptes p t i AND PTE_V \<noteq> 0 then Some (PTE2PA (ptes p t i)) else None)"

fun tab :: "pmem \<Rightarrow> nat \<Rightarrow> nat list \<Rightarrow> nat option" where
  "tab p t [] = Some t"
| "tab p t (i # is) = Option.bind (child p t i) (\<lambda>t. tab p t is)"

lemma tab_append: "tab p t (is @ js) = Option.bind (tab p t is) (\<lambda>t. tab p t js)"
  by (induction "is" arbitrary: t) (auto split: bind_split)

lemma find_pte_tab:
  "find_pte root va p = (if va \<ge> MAXVA then None else map_option (\<lambda>t. (t, PX 0 va)) (tab p root [PX 2 va, PX 1 va]))"
  by (simp add: find_pte_def numeral_2_eq_2 child_def Let_def)

text \<open>The entry that maps an address; 0 when a table on the way is missing.\<close>

definition leaf :: "pmem \<Rightarrow> nat \<Rightarrow> uint64 \<Rightarrow> uint64" where
  "leaf p root va = (case find_pte root va p of None \<Rightarrow> 0 | Some (t, i) \<Rightarrow> ptes p t i)"

lemma walkaddr_leaf:
  "walkaddr root va p =
     (if leaf p root va AND PTE_V = 0 \<or> leaf p root va AND PTE_U = 0 then 0 else PTE2PA (leaf p root va))"
  by (auto simp: walkaddr_def leaf_def find_pte_def Let_def split: option.splits)

text \<open>
  No two places of the tree share a table, and no table is a free page. \<open>fs\<close> is the free list.
\<close>

definition table_path :: "nat list \<Rightarrow> bool" where
  "table_path ps \<longleftrightarrow> length ps \<le> 2 \<and> (\<forall>i \<in> set ps. i < 512)"

definition vm_ok :: "nat \<Rightarrow> nat \<Rightarrow> nat list \<Rightarrow> mach \<Rightarrow> bool" where
  "vm_ok e root fs m \<longleftrightarrow>
     free_pages e (km m) fs \<and>
     (\<forall>ps t. table_path ps \<longrightarrow> tab (pm m) root ps = Some t \<longrightarrow> page_ok e t \<and> t \<notin> set fs) \<and>
     (\<forall>ps qs t. table_path ps \<longrightarrow> table_path qs \<longrightarrow> tab (pm m) root ps = Some t \<longrightarrow> tab (pm m) root qs = Some t \<longrightarrow> ps = qs)"

lemma vm_okD:
  assumes "vm_ok e root fs m"
  shows "free_pages e (km m) fs"
    and "table_path ps \<Longrightarrow> tab (pm m) root ps = Some t \<Longrightarrow> page_ok e t \<and> t \<notin> set fs"
    and "table_path ps \<Longrightarrow> table_path qs \<Longrightarrow> tab (pm m) root ps = Some t \<Longrightarrow> tab (pm m) root qs = Some t \<Longrightarrow> ps = qs"
  using assms unfolding vm_ok_def by blast+

lemma PX_less: "PX l va < 512"
  by (simp add: PX_nat)

lemma path_to [simp]: "table_path [PX 2 va, PX (Suc 0) va]" "table_path [PX 2 va]" "table_path []"
  by (simp_all add: table_path_def PX_less)

lemma path_snoc: "table_path (qs @ [x]) \<Longrightarrow> table_path qs"
  by (simp add: table_path_def)

text \<open>Changing the entry of a page in the last level changes no table.\<close>

lemma tab_set_leaf:
  assumes ok: "vm_ok e root fs m" and ps: "table_path ps" "length ps = 2" "tab (pm m) root ps = Some t" and qs: "table_path qs"
  shows "tab (set_pte t i x (pm m)) root qs = tab (pm m) root qs"
  using qs
proof (induction qs rule: rev_induct)
  case (snoc y qs)
  have qs: "table_path qs" "length qs < 2" using snoc.prems by (auto simp: table_path_def)
  have "child (set_pte t i x (pm m)) u y = child (pm m) u y" if "tab (pm m) root qs = Some u" for u
  proof -
    have "u \<noteq> t" using vm_okD(3) [OF ok ps(1) qs(1) ps(3)] that ps(2) qs(2) by auto
    then show ?thesis by (simp add: child_def set_pte_def)
  qed
  then show ?case using snoc.IH [OF qs(1)] by (auto simp: tab_append split: bind_split)
qed simp

lemma leaf_set_leaf:
  assumes ok: "vm_ok e root fs m" and va: "va < MAXVA" and t: "tab (pm m) root [PX 2 va, PX 1 va] = Some t"
  shows "leaf (set_pte t (PX 0 va) x (pm m)) root va' =
    (if va' < MAXVA \<and> PGROUNDDOWN va' = PGROUNDDOWN va then x else leaf (pm m) root va')"
proof (cases "va' < MAXVA")
  case True
  have tab: "tab (set_pte t (PX 0 va) x (pm m)) root [PX 2 va', PX 1 va'] = tab (pm m) root [PX 2 va', PX 1 va']"
    by (rule tab_set_leaf [OF ok _ _ t]) simp_all
  have "t = u \<and> PX 0 va' = PX 0 va \<longleftrightarrow> PGROUNDDOWN va' = PGROUNDDOWN va" if "tab (pm m) root [PX 2 va', PX 1 va'] = Some u" for u
    using same_page [OF True va] vm_okD(3) [OF ok, of "[PX 2 va, PX 1 va]" "[PX 2 va', PX 1 va']" t] that t by auto
  moreover have "PGROUNDDOWN va' \<noteq> PGROUNDDOWN va" if "tab (pm m) root [PX 2 va', PX 1 va'] = None"
    using same_page [OF True va] that t by auto
  ultimately show ?thesis
    using True tab by (auto simp: leaf_def find_pte_tab set_pte_def simp del: tab.simps split: option.splits)
qed (auto simp: leaf_def find_pte_tab)

lemma vm_ok_set_leaf:
  assumes ok: "vm_ok e root fs m" and ps: "table_path ps" "length ps = 2" "tab (pm m) root ps = Some t"
  shows "vm_ok e root fs (m\<lparr>pm := set_pte t i x (pm m)\<rparr>)"
  using ok tab_set_leaf [OF ok ps] unfolding vm_ok_def by simp

section \<open>Allocation\<close>

lemma page_ok_pa: "page_ok e pa \<Longrightarrow> pa mod PGSIZE = 0 \<and> pa < 2 ^ 54 \<and> pa \<noteq> 0"
  by (auto simp: page_ok_def PHYSTOP_def)

lemma drop_flags [simp]:
  "drop_bit 10 PTE_V = 0" "drop_bit 10 PTE_U = 0" "drop_bit 10 PTE_R = 0" "drop_bit 10 PTE_W = 0" "drop_bit 10 PTE_X = 0"
  "PTE_V \<noteq> 0" "PTE_U \<noteq> 0"
  by (simp_all add: PTE_V_def PTE_U_def PTE_R_def PTE_W_def PTE_X_def drop_bit_eq_div)

lemma drop_flags_or [simp]: "drop_bit 10 (a OR b :: uint64) = drop_bit 10 a OR drop_bit 10 b"
  by (rule drop_bit_or)

lemma kalloc_m_none:
  assumes "free_pages e (km m) []"
  shows "kalloc_m m = (0, m)"
  using kalloc_empty [OF assms] by (simp add: kalloc_m_def)

lemma kalloc_m_page:
  assumes "free_pages e (km m) (pa # fs)"
  obtains k where "kalloc_m m = (pa, m\<lparr>km := k, pm := fill_page 5 pa (pm m)\<rparr>)" "free_pages e k fs" "page_ok e pa" "pa \<notin> set fs"
proof -
  note k = kalloc_page [OF assms]
  have "pa \<noteq> 0" using page_ok_pa [OF k(3)] by simp
  then have "kalloc_m m = (pa, m\<lparr>km := snd (kalloc (km m)), pm := fill_page 5 pa (pm m)\<rparr>)"
    using k(1) by (cases "kalloc (km m)") (simp add: kalloc_m_def)
  then show thesis using k that by blast
qed

text \<open>Pages that are no tables may change, and free pages may be taken.\<close>

lemma tab_cong:
  assumes "\<And>ps t. table_path ps \<Longrightarrow> tab p root ps = Some t \<Longrightarrow> ptes p' t = ptes p t" and "table_path qs"
  shows "tab p' root qs = tab p root qs"
  using assms(2)
proof (induction qs rule: rev_induct)
  case (snoc y qs)
  have "child p' u y = child p u y" if "tab p root qs = Some u" for u
    using assms(1) [OF path_snoc [OF snoc.prems] that] by (simp add: child_def)
  then show ?case using snoc.IH [OF path_snoc [OF snoc.prems]] by (auto simp: tab_append split: bind_split)
qed simp

lemma leaf_cong:
  assumes "\<And>ps t. table_path ps \<Longrightarrow> tab p root ps = Some t \<Longrightarrow> ptes p' t = ptes p t"
  shows "leaf p' root va = leaf p root va"
proof -
  have "tab p' root [PX 2 va, PX 1 va] = tab p root [PX 2 va, PX 1 va]" by (rule tab_cong [OF assms]) simp_all
  then show ?thesis
    using assms [of "[PX 2 va, PX 1 va]"] by (auto simp: leaf_def find_pte_tab simp del: tab.simps split: option.splits)
qed

lemma ptes_fill [simp]: "u \<noteq> pa \<Longrightarrow> ptes (fill_page b pa p) u = ptes p u"
  by (simp add: fill_page_def)

text \<open>A new, empty table below the entry \<open>i\<close> of the table at \<open>ps\<close>.\<close>

lemma tab_add:
  assumes ok: "vm_ok e root fs m" and pa: "page_ok e pa" "pa \<in> set fs" and ps: "table_path ps" "tab (pm m) root ps = Some t"
    and free: "ptes (pm m) t i AND PTE_V = 0" and qs: "table_path qs"
    and p': "p' = set_pte t i (PA2PTE pa OR PTE_V) (fill_page 0 pa q)" and q: "\<And>u. u \<noteq> pa \<Longrightarrow> ptes q u = ptes (pm m) u"
  shows "tab p' root qs = (if qs = ps @ [i] then Some pa else tab (pm m) root qs)"
  using qs
proof (induction qs rule: rev_induct)
  case (snoc y qs)
  have qs: "table_path qs" using snoc.prems by (rule path_snoc)
  have tp: "t \<noteq> pa" using vm_okD(2) [OF ok ps] pa by blast
  have enc: "PTE2PA (PA2PTE pa OR PTE_V) = pa" "(PA2PTE pa OR PTE_V) AND PTE_V \<noteq> 0"
    using pte_fields [of pa PTE_V] page_ok_pa [OF pa(1)] by simp_all
  have none: "child (pm m) t i = None" using free by (simp add: child_def)
  have zero: "child p' pa y = None" using tp by (simp add: p' child_def set_pte_def fill_page_def)
  have ch: "child p' u y = (if u = t \<and> y = i then Some pa else child (pm m) u y)" if "u \<noteq> pa" for u
    using that enc tp q by (simp add: p' child_def set_pte_def fill_page_def)
  have notpa: "tab (pm m) root qs \<noteq> Some pa" using vm_okD(2) [OF ok qs] pa by blast
  have uniq: "tab (pm m) root qs = Some t \<longleftrightarrow> qs = ps" using vm_okD(3) [OF ok qs ps(1)] ps(2) by auto
  have "tab (pm m) root (ps @ [i]) = None" using ps none by (simp add: tab_append)
  moreover have "tab (pm m) root (ps @ [i, y]) = None" using ps none by (simp add: tab_append)
  ultimately show ?case
    using snoc.IH [OF qs] zero ch notpa uniq by (auto simp: tab_append split: bind_split if_splits)
qed (simp add: p')

lemma add_table:
  assumes ok: "vm_ok e root (pa # fs) m" and ps: "table_path ps" "length ps < 2" "tab (pm m) root ps = Some t"
    and free: "ptes (pm m) t i AND PTE_V = 0" "i < 512" and k: "free_pages e k fs"
    and m': "m' = m\<lparr>km := k, pm := set_pte t i (PA2PTE pa OR PTE_V) (fill_page 0 pa (fill_page 5 pa (pm m)))\<rparr>"
  shows "vm_ok e root fs m'" and "tab (pm m') root (ps @ [i]) = Some pa"
    and "leaf (pm m') root va = leaf (pm m) root va"
proof -
  have pa: "page_ok e pa" "pa \<notin> set fs" using vm_okD(1) [OF ok] by (auto simp: free_pages_def)
  have tab: "tab (pm m') root qs = (if qs = ps @ [i] then Some pa else tab (pm m) root qs)" if "table_path qs" for qs
    by (rule tab_add [OF ok pa(1) _ ps(1,3) free(1) that, where q = "fill_page 5 pa (pm m)"]) (simp_all add: m')
  have pi: "table_path (ps @ [i])" using ps free(2) by (auto simp: table_path_def)
  have notpa: "tab (pm m) root qs \<noteq> Some pa" if "table_path qs" for qs using vm_okD(2) [OF ok that] by auto
  show "tab (pm m') root (ps @ [i]) = Some pa" using tab [OF pi] by simp
  show "vm_ok e root fs m'"
    unfolding vm_ok_def
  proof (intro conjI allI impI)
    show "free_pages e (km m') fs" using k by (simp add: m')
    show "page_ok e u" "u \<notin> set fs" if "table_path qs" "tab (pm m') root qs = Some u" for qs u
      using that tab vm_okD(2) [OF ok that(1)] pa by (auto split: if_splits)
    show "qs = rs" if "table_path qs" "table_path rs" "tab (pm m') root qs = Some u" "tab (pm m') root rs = Some u" for qs rs u
      using that tab vm_okD(3) [OF ok that(1,2)] notpa by (auto split: if_splits)
  qed
  have tp: "t \<noteq> pa" using notpa [OF ps(1)] ps(3) by auto
  have ent: "ptes (pm m') u j = (if u = pa then 0 else if u = t \<and> j = i then PA2PTE pa OR PTE_V else ptes (pm m) u j)" for u j
    using tp by (simp add: m' set_pte_def fill_page_def)
  show "leaf (pm m') root va = leaf (pm m) root va"
  proof (cases "va < MAXVA \<and> tab (pm m') root [PX 2 va, PX 1 va] \<noteq> None")
    case True
    then obtain u where u: "tab (pm m') root [PX 2 va, PX 1 va] = Some u" by blast
    have eq: "tab (pm m') root [PX 2 va, PX 1 va] = (if [PX 2 va, PX 1 va] = ps @ [i] then Some pa else tab (pm m) root [PX 2 va, PX 1 va])"
      by (rule tab) simp
    show ?thesis
    proof (cases "[PX 2 va, PX 1 va] = ps @ [i]")
      case True
      then have "u = pa" using u eq by simp
      moreover have "tab (pm m) root [PX 2 va, PX 1 va] = None"
        unfolding True using ps(3) free(1) by (simp add: tab_append child_def)
      ultimately show ?thesis using u ent by (simp add: leaf_def find_pte_tab del: tab.simps)
    next
      case False
      then have o: "tab (pm m) root [PX 2 va, PX 1 va] = Some u" using u eq by (simp only: if_False)
      have "[PX 2 va, PX 1 va] \<noteq> ps" using ps(2) by auto
      then have "u \<noteq> t" using vm_okD(3) [OF ok _ ps(1) _ ps(3)] o by auto
      moreover have "u \<noteq> pa" using notpa [of "[PX 2 va, PX 1 va]"] o by auto
      ultimately show ?thesis using u o ent by (simp add: leaf_def find_pte_tab del: tab.simps)
    qed
  next
    case False
    moreover have "tab (pm m) root [PX 2 va, PX 1 va] = None" if "tab (pm m') root [PX 2 va, PX 1 va] = None"
      using tab [of "[PX 2 va, PX 1 va]"] that by (simp del: tab.simps split: if_splits)
    ultimately show ?thesis by (auto simp: leaf_def find_pte_tab simp del: tab.simps)
  qed
qed

text \<open>
  The walk with allocation: it takes pages from the free list for missing tables, changes no mapping
  and no other page, and fails only when the free list is empty.
\<close>

definition same_ram :: "nat set \<Rightarrow> pmem \<Rightarrow> pmem \<Rightarrow> bool" where
  "same_ram P p p' \<longleftrightarrow> (\<forall>pa a. pa \<notin> P \<longrightarrow> pa mod PGSIZE = 0 \<longrightarrow> pa \<le> a \<longrightarrow> a < pa + PGSIZE \<longrightarrow> ram p' a = ram p a)"

lemma same_ram_refl [simp]: "same_ram P p p"
  by (simp add: same_ram_def)

lemma same_ram_trans: "same_ram P p p' \<Longrightarrow> same_ram Q p' p'' \<Longrightarrow> Q \<subseteq> P \<Longrightarrow> same_ram P p p''"
  unfolding same_ram_def by (metis subsetD)

lemma same_ram_set_pte [simp]: "same_ram P p (set_pte t i x p') = same_ram P p p'"
  by (simp add: same_ram_def set_pte_def)

lemma page_unique:
  assumes "pa mod PGSIZE = 0" "pb mod PGSIZE = 0" "pa \<le> a" "a < pa + PGSIZE" "pb \<le> a" "a < pb + PGSIZE"
  shows "pa = pb"
proof -
  have "pa = a div PGSIZE * PGSIZE" if "pa mod PGSIZE = 0" "pa \<le> a" "a < pa + PGSIZE" for pa
  proof -
    define q where "q = pa div PGSIZE"
    have q: "pa = PGSIZE * q" using that(1) div_mult_mod_eq [of pa PGSIZE] by (simp add: q_def mult.commute)
    then have "a div PGSIZE = q" using that(2,3) by (intro div_nat_eqI) (simp_all add: algebra_simps)
    then show ?thesis using q by simp
  qed
  then show ?thesis using assms by metis
qed

lemma same_ram_fill:
  assumes "same_ram P p p'" "pa \<in> P" "pa mod PGSIZE = 0"
  shows "same_ram P p (fill_page b pa p')"
  unfolding same_ram_def
proof (intro allI impI)
  fix pb a
  assume b: "pb \<notin> P" "pb mod PGSIZE = 0" "pb \<le> a" "a < pb + PGSIZE"
  have "\<not> (pa \<le> a \<and> a < pa + PGSIZE)" using page_unique [OF assms(3) b(2) _ _ b(3,4)] assms(2) b(1) by blast
  then show "ram (fill_page b pa p') a = ram p a"
    using assms(1) b unfolding same_ram_def by (auto simp: fill_page_def)
qed

lemma walk_from_ok:
  assumes "vm_ok e root fs m" "table_path ps" "length ps + l = 2" "tab (pm m) root ps = Some pt"
    and "ps = take (length ps) [PX 2 va, PX 1 va]" and "walk_from l pt va True m = (r, m')"
  shows "\<exists>n. vm_ok e root (drop n fs) m' \<and> n \<le> length fs \<and> n \<le> l \<and> (r = None \<longrightarrow> n = length fs \<and> n < l) \<and>
    (\<forall>x. r = Some x \<longrightarrow> snd x = PX 0 va \<and> tab (pm m') root [PX 2 va, PX 1 va] = Some (fst x)) \<and>
    (\<forall>va'. leaf (pm m') root va' = leaf (pm m) root va') \<and> same_ram (set fs) (pm m) (pm m')"
  using assms
proof (induction l arbitrary: ps pt m fs)
  case 0
  then have "ps = [PX 2 va, PX 1 va]" by simp
  then show ?case using 0 by (intro exI [of _ 0]) (auto simp del: tab.simps)
next
  case (Suc l)
  let ?i = "PX (Suc l) va"
  have i: "[PX 2 va, PX 1 va] ! length ps = ?i" and len: "length ps < 2"
    using Suc.prems(3) by (cases l; simp add: numeral_2_eq_2)+
  have ps': "ps @ [?i] = take (length (ps @ [?i])) [PX 2 va, PX 1 va]" "table_path (ps @ [?i])" "length (ps @ [?i]) + l = 2"
    using Suc.prems(2,3,5) take_Suc_conv_app_nth [of "length ps" "[PX 2 va, PX 1 va]"] len i PX_less
    by (auto simp: table_path_def)
  show ?case
  proof (cases "ptes (pm m) pt ?i AND PTE_V \<noteq> 0")
    case True
    then have "tab (pm m) root (ps @ [?i]) = Some (PTE2PA (ptes (pm m) pt ?i))"
      using Suc.prems(4) by (simp add: tab_append child_def)
    from Suc.IH [OF Suc.prems(1) ps'(2,3) this ps'(1)] Suc.prems(6) True show ?thesis
      by (auto simp: Let_def simp del: tab.simps)
  next
    case False
    show ?thesis
    proof (cases fs)
      case Nil
      then show ?thesis
        using Suc.prems(1,6) False kalloc_m_none [of e m] by (auto simp: Let_def vm_okD(1) intro!: exI [of _ 0])
    next
      case (Cons pa fs')
      obtain k where k: "kalloc_m m = (pa, m\<lparr>km := k, pm := fill_page 5 pa (pm m)\<rparr>)" "free_pages e k fs'" "page_ok e pa"
        using kalloc_m_page [of e m pa fs'] vm_okD(1) [OF Suc.prems(1)] Cons by metis
      define m1 where "m1 = m\<lparr>km := k, pm := set_pte pt ?i (PA2PTE pa OR PTE_V) (fill_page 0 pa (fill_page 5 pa (pm m)))\<rparr>"
      note add = add_table [OF Suc.prems(1) [unfolded Cons] Suc.prems(2) len Suc.prems(4) _ PX_less k(2) m1_def]
      have free: "ptes (pm m) pt ?i AND PTE_V = 0" using False by simp
      have "walk_from l pa va True m1 = (r, m')"
        using Suc.prems(6) False k page_ok_pa [OF k(3)] by (simp add: Let_def memset0_def m1_def)
      from Suc.IH [OF add(1) [OF free] ps'(2,3) add(2) [OF free] ps'(1) this] obtain n where
        n: "vm_ok e root (drop n fs') m'" "n \<le> length fs'" "n \<le> l" "r = None \<longrightarrow> n = length fs' \<and> n < l"
        "\<forall>x. r = Some x \<longrightarrow> snd x = PX 0 va \<and> tab (pm m') root [PX 2 va, PX 1 va] = Some (fst x)"
        "\<forall>va'. leaf (pm m') root va' = leaf (pm m1) root va'" "same_ram (set fs') (pm m1) (pm m')" by blast
      have "same_ram (set fs) (pm m) (pm m1)"
        using page_ok_pa [OF k(3)] Cons by (auto simp: m1_def intro!: same_ram_fill)
      then have "same_ram (set fs) (pm m) (pm m')" by (rule same_ram_trans [OF _ n(7)]) (use Cons in auto)
      then show ?thesis using n add(3) [OF free] Cons by (intro exI [of _ "Suc n"]) auto
    qed
  qed
qed

lemma walk_ok:
  assumes "vm_ok e root fs m" "va < MAXVA" "walk root va True m = (r, m')"
  shows "\<exists>n. vm_ok e root (drop n fs) m' \<and> n \<le> length fs \<and> n \<le> 2 \<and> (r = None \<longrightarrow> n = length fs \<and> n < 2) \<and>
    (\<forall>x. r = Some x \<longrightarrow> snd x = PX 0 va \<and> tab (pm m') root [PX 2 va, PX 1 va] = Some (fst x)) \<and>
    (\<forall>va'. leaf (pm m') root va' = leaf (pm m) root va') \<and> same_ram (set fs) (pm m) (pm m')"
proof -
  have "walk_from 2 root va True m = (r, m')" using assms(2,3) by (simp add: walk_def not_le [symmetric])
  from walk_from_ok [OF assms(1) _ _ _ _ this, of "[]"] show ?thesis by (simp del: tab.simps add: tab.simps(1))
qed

section \<open>Mapping a page\<close>

lemma round_idem [simp]: "PGROUNDDOWN (PGROUNDDOWN a) = PGROUNDDOWN a"
  by (simp add: word_unat_eq_iff unat_round_down)

lemma round_page: "PGROUNDDOWN a = a \<Longrightarrow> a < MAXVA \<Longrightarrow> PGROUNDDOWN (a + of_nat PGSIZE - 1) = a"
proof -
  assume a: "PGROUNDDOWN a = a" "a < MAXVA"
  have "unat (a + of_nat PGSIZE - 1) = unat a + 4095"
    using page_step [OF a(2)] by (subst unat_minus_one) (auto simp: unat_eq_0 [symmetric])
  moreover have q: "unat a div 4096 * 4096 = unat a" using a(1) unat_round_down [of a] by simp
  then have "unat a mod 4096 = 0" by (metis mod_mult_self2_is_0)
  then have "(unat a + 4095) div 4096 = unat a div 4096" by (intro div_add_small) simp
  ultimately show ?thesis using q by (simp add: word_unat_eq_iff unat_round_down)
qed

lemma map_page:
  assumes ok: "vm_ok e root fs m" and a: "PGROUNDDOWN a = a" "a < MAXVA" and free: "leaf (pm m) root a AND PTE_V = 0"
  shows "wp (mappages root a (of_nat PGSIZE) pa perm m) (\<lambda>(r, m'). \<exists>n. vm_ok e root (drop n fs) m' \<and>
    n \<le> length fs \<and> n \<le> 2 \<and> same_ram (set fs) (pm m) (pm m') \<and>
    (if r = 0 then \<forall>va. leaf (pm m') root va =
         (if va < MAXVA \<and> PGROUNDDOWN va = a then PA2PTE pa OR perm OR PTE_V else leaf (pm m) root va)
     else r = -1 \<and> length fs < 2 \<and> (\<forall>va. leaf (pm m') root va = leaf (pm m) root va)))"
proof -
  obtain r m1 where w: "walk root a True m = (r, m1)" by force
  from walk_ok [OF ok a(2) w] obtain n where n: "vm_ok e root (drop n fs) m1" "n \<le> length fs" "n \<le> 2"
    "r = None \<longrightarrow> n = length fs \<and> n < 2" "\<And>va. leaf (pm m1) root va = leaf (pm m) root va" "same_ram (set fs) (pm m) (pm m1)"
    and t: "\<And>t i. r = Some (t, i) \<Longrightarrow> i = PX 0 a \<and> tab (pm m1) root [PX 2 a, PX 1 a] = Some t" by auto
  have nz: "of_nat PGSIZE \<noteq> (0 :: uint64)" by (simp add: PGSIZE_def)
  show ?thesis
  proof (cases r)
    case None
    then show ?thesis
      using n nz by (auto simp: mappages_def a round_page mappages_loop.simps [of root a] w intro!: exI [of _ n])
  next
    case (Some x)
    obtain ti i where x: "x = (ti, i)" by force
    note t' = t [OF Some [unfolded x]]
    have tb: "tab (pm m1) root [PX 2 a, PX 1 a] = Some ti" "i = PX 0 a" using t' by simp_all
    have "leaf (pm m1) root a = ptes (pm m1) ti i"
      using tb a(2) by (simp add: leaf_def find_pte_tab not_le [symmetric] del: tab.simps)
    then have fr: "ptes (pm m1) ti i AND PTE_V = 0" using free n(5) by simp
    let ?m = "m1\<lparr>pm := set_pte ti i (PA2PTE pa OR perm OR PTE_V) (pm m1)\<rparr>"
    have "vm_ok e root (drop n fs) ?m" by (rule vm_ok_set_leaf [OF n(1) _ _ tb(1)]) simp_all
    moreover have "leaf (pm ?m) root va =
        (if va < MAXVA \<and> PGROUNDDOWN va = a then PA2PTE pa OR perm OR PTE_V else leaf (pm m) root va)" for va
      using leaf_set_leaf [OF n(1) a(2) tb(1), of _ va] tb(2) n(5) a(1) by simp
    ultimately show ?thesis
      using Some x fr n nz by (auto simp: mappages_def a round_page mappages_loop.simps [of root a] w intro!: exI [of _ n])
  qed
qed

section \<open>Growing an address space\<close>

lemma take_page:
  assumes ok: "vm_ok e root (pa # fs) m" and k: "free_pages e k fs" and p: "\<And>u. u \<noteq> pa \<Longrightarrow> ptes p u = ptes (pm m) u"
  shows "vm_ok e root fs (m\<lparr>km := k, pm := p\<rparr>)" and "leaf p root va = leaf (pm m) root va"
proof -
  have same: "ptes p t = ptes (pm m) t" if "table_path ps" "tab (pm m) root ps = Some t" for ps t
    using vm_okD(2) [OF ok that] by (intro p) auto
  have "tab p root ps = tab (pm m) root ps" if "table_path ps" for ps
    by (rule tab_cong [of "pm m" root p, OF _ that]) (rule same)
  then show "vm_ok e root fs (m\<lparr>km := k, pm := p\<rparr>)" using ok k unfolding vm_ok_def by simp
  show "leaf p root va = leaf (pm m) root va"
    by (rule leaf_cong [of "pm m" root p]) (rule same)
qed

text \<open>The pages from \<open>a\<close> to \<open>new\<close>, and how many they are.\<close>

definition upages :: "uint64 \<Rightarrow> uint64 \<Rightarrow> uint64 set" where
  "upages a new = {v. PGROUNDDOWN v = v \<and> a \<le> v \<and> v < new}"

definition npages :: "uint64 \<Rightarrow> uint64 \<Rightarrow> nat" where
  "npages a new = (unat new - unat a + 4095) div 4096"

lemma page_next:
  assumes "PGROUNDDOWN a = a" "a < MAXVA"
  shows "PGROUNDDOWN (a + of_nat PGSIZE) = a + of_nat PGSIZE"
    and "PGROUNDDOWN v = v \<Longrightarrow> a + of_nat PGSIZE \<le> v \<longleftrightarrow> a \<le> v \<and> v \<noteq> a"
proof -
  have q: "unat a div 4096 * 4096 = unat a" using assms(1) unat_round_down [of a] by simp
  have "(unat a + 4096) div 4096 = unat a div 4096 + 1" by simp
  then have "(unat a + 4096) div 4096 * 4096 = unat a + 4096" using q by (simp only: add_mult_distrib)
  then show "PGROUNDDOWN (a + of_nat PGSIZE) = a + of_nat PGSIZE"
    by (simp add: word_unat_eq_iff unat_round_down page_step [OF assms(2)])
  assume "PGROUNDDOWN v = v"
  then have v: "unat v div 4096 * 4096 = unat v" using unat_round_down [of v] by simp
  have "unat a + 4096 \<le> unat v \<longleftrightarrow> unat a \<le> unat v \<and> unat v \<noteq> unat a"
  proof -
    obtain i j where "unat a = i * 4096" "unat v = j * 4096" using q v by metis
    then show ?thesis by auto
  qed
  then show "a + of_nat PGSIZE \<le> v \<longleftrightarrow> a \<le> v \<and> v \<noteq> a"
    by (simp add: word_le_nat_alt page_step [OF assms(2)] word_unat_eq_iff)
qed

lemma upages_step: "PGROUNDDOWN a = a \<Longrightarrow> a < MAXVA \<Longrightarrow> a < new \<Longrightarrow> upages a new = insert a (upages (a + of_nat PGSIZE) new)"
  using page_next(2) [of a] by (auto simp: upages_def)

lemma npages_step: "a < MAXVA \<Longrightarrow> a < new \<Longrightarrow> npages a new = Suc (npages (a + of_nat PGSIZE) new)"
proof -
  assume a: "a < MAXVA" "a < new"
  define d where "d = unat new - unat a"
  have "0 < d" using a(2) by (simp add: d_def word_less_nat_alt)
  have "(d + 4095) div 4096 = Suc ((d - 4096 + 4095) div 4096)"
  proof (cases "d \<le> 4096")
    case True
    then have "d + 4095 = (d - 1) + 1 * 4096" "(d - 1) div 4096 = 0" using \<open>0 < d\<close> by simp_all
    then show ?thesis using True by simp
  next
    case False
    then have "d + 4095 = (d - 4096 + 4095) + 4096" by simp
    then show ?thesis by simp
  qed
  then show "npages a new = Suc (npages (a + of_nat PGSIZE) new)"
    by (simp add: npages_def page_step [OF a(1)] d_def)
qed

definition zero_page :: "nat \<Rightarrow> pmem \<Rightarrow> bool" where
  "zero_page pa p \<longleftrightarrow> (\<forall>a. pa \<le> a \<and> a < pa + PGSIZE \<longrightarrow> ram p a = 0)"

lemma zero_page_same: "zero_page pa p \<Longrightarrow> same_ram P p p' \<Longrightarrow> pa \<notin> P \<Longrightarrow> pa mod PGSIZE = 0 \<Longrightarrow> zero_page pa p'"
  unfolding zero_page_def same_ram_def by metis

text \<open>One round of \<^verbatim>\<open>uvmalloc\<close>: the first free page, filled with zeros, is mapped at \<open>a\<close>.\<close>

lemma uvmalloc_round:
  assumes ok: "vm_ok e root (pa # fs) m" and a: "PGROUNDDOWN a = a" "a < MAXVA" "a < new"
    and free: "leaf (pm m) root a AND PTE_V = 0" and space: "2 \<le> length fs"
  obtains m' n where "uvmalloc_loop e root old new x a m = uvmalloc_loop e root old new x (a + of_nat PGSIZE) m'"
    "vm_ok e root (drop n fs) m'" "n \<le> 2" "same_ram (set (pa # fs)) (pm m) (pm m')" "zero_page pa (pm m')" "pa mod PGSIZE = 0" "pa \<notin> set fs"
    "\<forall>va. leaf (pm m') root va = (if va < MAXVA \<and> PGROUNDDOWN va = a
        then PA2PTE pa OR (PTE_R OR PTE_U OR x) OR PTE_V else leaf (pm m) root va)"
proof -
  obtain k where al: "kalloc_m m = (pa, m\<lparr>km := k, pm := fill_page 5 pa (pm m)\<rparr>)" "free_pages e k fs" "page_ok e pa" "pa \<notin> set fs"
    using kalloc_m_page [OF vm_okD(1) [OF ok]] by metis
  note pa = page_ok_pa [OF al(3)]
  define m2 where "m2 = m\<lparr>km := k, pm := fill_page 0 pa (fill_page 5 pa (pm m))\<rparr>"
  have m2: "vm_ok e root fs m2" "\<And>va. leaf (pm m2) root va = leaf (pm m) root va"
    using take_page [OF ok al(2), of "pm m2"] by (simp_all add: m2_def)
  have z2: "zero_page pa (pm m2)" by (simp add: m2_def zero_page_def fill_page_def)
  have s2: "same_ram (set (pa # fs)) (pm m) (pm m2)" using pa by (auto simp: m2_def intro!: same_ram_fill)
  have "leaf (pm m2) root a AND PTE_V = 0" using free m2(2) by simp
  from map_page [OF m2(1) a(1,2) this, of pa "PTE_R OR PTE_U OR x", unfolded wp_iff split_paired_Ex prod.case]
  obtain r m3 n where mp: "mappages root a (of_nat PGSIZE) pa (PTE_R OR PTE_U OR x) m2 = Inr (r, m3)"
    and n: "vm_ok e root (drop n fs) m3" "n \<le> 2" "same_ram (set fs) (pm m2) (pm m3)"
    and lf: "if r = 0 then \<forall>va. leaf (pm m3) root va = (if va < MAXVA \<and> PGROUNDDOWN va = a
        then PA2PTE pa OR (PTE_R OR PTE_U OR x) OR PTE_V else leaf (pm m2) root va) else length fs < 2"
    by (metis (no_types, lifting))
  have r: "r = 0" using lf space by (auto split: if_splits)
  show thesis
  proof (rule that [OF _ n(1,2) _ zero_page_same [OF z2 n(3) al(4)] _ al(4)])
    show "uvmalloc_loop e root old new x a m = uvmalloc_loop e root old new x (a + of_nat PGSIZE) m3"
      using a(3) al mp r pa by (subst uvmalloc_loop.simps) (simp add: memset0_def m2_def)
    show "same_ram (set (pa # fs)) (pm m) (pm m3)" by (rule same_ram_trans [OF s2 n(3)]) auto
  qed (use lf r m2(2) pa in simp_all)
qed

text \<open>
  What growing from \<open>a\<close> to \<open>new\<close> does, with \<open>q\<close> the physical page of each new page and \<open>x\<close> the extra
  permissions: the new pages are zero, different from each other and taken from the free list \<open>fs\<close>,
  and nothing else changes.
\<close>

definition grown :: "nat \<Rightarrow> nat \<Rightarrow> nat list \<Rightarrow> uint64 \<Rightarrow> uint64 \<Rightarrow> uint64 \<Rightarrow> (uint64 \<Rightarrow> nat) \<Rightarrow> mach \<Rightarrow> mach \<Rightarrow> bool" where
  "grown e root fs x a new q m m' \<longleftrightarrow>
     (\<exists>n. vm_ok e root (drop n fs) m' \<and> (\<forall>v \<in> upages a new. q v \<in> set fs \<and> q v \<notin> set (drop n fs))) \<and>
     same_ram (set fs) (pm m) (pm m') \<and> inj_on q (upages a new) \<and>
     (\<forall>v \<in> upages a new. zero_page (q v) (pm m') \<and> q v mod PGSIZE = 0) \<and>
     (\<forall>va. leaf (pm m') root va = (if va < MAXVA \<and> PGROUNDDOWN va \<in> upages a new
        then PA2PTE (q (PGROUNDDOWN va)) OR (PTE_R OR PTE_U OR x) OR PTE_V else leaf (pm m) root va))"

lemma grown_page:
  assumes g: "grown e root (drop n fs) x (a + of_nat PGSIZE) new q m1 m'" and a: "PGROUNDDOWN a = a" "a < MAXVA" "a < new"
    and s: "same_ram (set (pa # fs)) (pm m) (pm m1)" and z: "zero_page pa (pm m1)" "pa mod PGSIZE = 0" "pa \<notin> set fs"
    and lf: "\<forall>va. leaf (pm m1) root va = (if va < MAXVA \<and> PGROUNDDOWN va = a
        then PA2PTE pa OR (PTE_R OR PTE_U OR x) OR PTE_V else leaf (pm m) root va)"
  shows "grown e root (pa # fs) x a new (q(a := pa)) m m'"
proof -
  let ?U = "upages (a + of_nat PGSIZE) new"
  from g obtain k where k: "vm_ok e root (drop k (drop n fs)) m'" "\<And>v. v \<in> ?U \<Longrightarrow> q v \<in> set (drop n fs) \<and> q v \<notin> set (drop k (drop n fs))"
    and g': "same_ram (set (drop n fs)) (pm m1) (pm m')" "inj_on q ?U" "\<And>v. v \<in> ?U \<Longrightarrow> zero_page (q v) (pm m') \<and> q v mod PGSIZE = 0"
      "\<And>va. leaf (pm m') root va = (if va < MAXVA \<and> PGROUNDDOWN va \<in> ?U
        then PA2PTE (q (PGROUNDDOWN va)) OR (PTE_R OR PTE_U OR x) OR PTE_V else leaf (pm m1) root va)"
    unfolding grown_def by blast
  have sub: "set (drop i fs) \<subseteq> set fs" for i by (rule set_drop_subset)
  have ne: "v \<noteq> a" if "v \<in> ?U" for v using that page_next(2) [OF a(1,2)] by (auto simp: upages_def)
  have pa: "pa \<notin> set (drop n fs)" "pa \<notin> set (drop (k + n) fs)" using z(3) sub by blast+
  have in_fs: "q v \<in> set fs" if "v \<in> ?U" for v using k(2) [OF that] sub by blast
  show ?thesis
    unfolding grown_def upages_step [OF a]
  proof (intro conjI)
    show "\<exists>n. vm_ok e root (drop n (pa # fs)) m' \<and>
        (\<forall>v \<in> insert a ?U. (q(a := pa)) v \<in> set (pa # fs) \<and> (q(a := pa)) v \<notin> set (drop n (pa # fs)))"
      by (rule exI [of _ "Suc (k + n)"]) (use k pa in_fs ne in \<open>auto simp: drop_drop\<close>)
    show "same_ram (set (pa # fs)) (pm m) (pm m')" by (rule same_ram_trans [OF s g'(1)]) (use sub in auto)
    show "inj_on (q(a := pa)) (insert a ?U)" using g'(2) in_fs z(3) ne by (fastforce simp: inj_on_def)
    show "\<forall>v \<in> insert a ?U. zero_page ((q(a := pa)) v) (pm m') \<and> (q(a := pa)) v mod PGSIZE = 0"
      using zero_page_same [OF z(1) g'(1) pa(1) z(2)] g'(3) ne z(2) by auto
    show "\<forall>va. leaf (pm m') root va = (if va < MAXVA \<and> PGROUNDDOWN va \<in> insert a ?U
        then PA2PTE ((q(a := pa)) (PGROUNDDOWN va)) OR (PTE_R OR PTE_U OR x) OR PTE_V else leaf (pm m) root va)"
      using g'(4) lf ne by auto
  qed
qed

lemma uvmalloc_loop_ok:
  assumes "vm_ok e root fs m" "PGROUNDDOWN a = a" "new \<le> MAXVA"
    and "\<And>v. v \<in> upages a new \<Longrightarrow> leaf (pm m) root v AND PTE_V = 0" and "3 * npages a new \<le> length fs"
  shows "wp (uvmalloc_loop e root old new x a m) (\<lambda>(r, m'). r = new \<and> (\<exists>q. grown e root fs x a new q m m'))"
  using assms
proof (induction "npages a new" arbitrary: a m fs)
  case 0
  have "\<not> a < new" using 0(1) npages_step [of a new] 0(4) by (auto dest: less_le_trans)
  then have "upages a new = {}" by (auto simp: upages_def)
  with \<open>\<not> a < new\<close> 0(2) show ?case
    by (subst uvmalloc_loop.simps) (auto simp: grown_def intro!: exI [of _ 0])
next
  case (Suc k)
  have lt: "a < new"
  proof (rule ccontr)
    assume "\<not> a < new"
    then have "unat new - unat a = 0" by (simp add: word_less_nat_alt)
    then show False using Suc(2) by (simp add: npages_def)
  qed
  have a: "a < MAXVA" using lt Suc.prems(3) by (rule less_le_trans)
  note up = upages_step [OF Suc.prems(2) a lt] and k = npages_step [OF a lt]
  obtain pa fs1 where fs: "fs = pa # fs1" using Suc.prems(5) Suc(2) by (cases fs) auto
  have free: "leaf (pm m) root a AND PTE_V = 0" and space: "2 \<le> length fs1" using Suc.prems(4,5) Suc(2) up fs by auto
  obtain m1 n where r: "uvmalloc_loop e root old new x a m = uvmalloc_loop e root old new x (a + of_nat PGSIZE) m1"
    "vm_ok e root (drop n fs1) m1" "n \<le> 2" "same_ram (set (pa # fs1)) (pm m) (pm m1)" "zero_page pa (pm m1)" "pa mod PGSIZE = 0" "pa \<notin> set fs1"
    and lf: "\<forall>va. leaf (pm m1) root va = (if va < MAXVA \<and> PGROUNDDOWN va = a
        then PA2PTE pa OR (PTE_R OR PTE_U OR x) OR PTE_V else leaf (pm m) root va)"
    by (rule uvmalloc_round [OF Suc.prems(1) [unfolded fs] Suc.prems(2) a lt free space])
  have "leaf (pm m1) root v AND PTE_V = 0" if v: "v \<in> upages (a + of_nat PGSIZE) new" for v
    using Suc.prems(4) up v lf page_next(2) [OF Suc.prems(2) a] by (auto simp: upages_def)
  moreover have "3 * npages (a + of_nat PGSIZE) new \<le> length (drop n fs1)" using Suc.prems(5) k fs r(3) by simp
  ultimately have "wp (uvmalloc_loop e root old new x (a + of_nat PGSIZE) m1)
      (\<lambda>(r, m'). r = new \<and> (\<exists>q. grown e root (drop n fs1) x (a + of_nat PGSIZE) new q m1 m'))"
    using Suc(2) k r(2) page_next(1) [OF Suc.prems(2) a] Suc.prems(3) by (intro Suc.hyps(1)) auto
  then show ?case
    unfolding r(1) fs by (rule wp_mono) (use grown_page [OF _ Suc.prems(2) a lt r(4-7) lf] in blast)
qed

text \<open>Reading the new memory yields zeros.\<close>

lemma copyin_grown:
  assumes g: "grown e root fs x a new q m m'" and x: "drop_bit 10 x = 0" and pg: "\<And>p. p \<in> set fs \<Longrightarrow> page_ok e p"
    and a: "PGROUNDDOWN a = a" "a \<le> va" and new: "new \<le> MAXVA" "unat va + n \<le> unat new"
  shows "copyin root va n (pm m') = (0, replicate n 0)"
proof -
  have "\<exists>pa. uaddr root (pm m') (va + of_nat i) = Some pa \<and> ram (pm m') pa = 0" if i: "i < n" for i
  proof -
    let ?v = "va + of_nat i"
    have "unat new < 2 ^ 64" by (rule order_less_le_trans [OF unsigned_less]) simp
    then have u: "unat ?v = unat va + i" using i new(2) by (simp add: unat_word_ariths unat_of_nat)
    have lt: "?v < new" using i new(2) by (simp add: word_less_nat_alt u)
    then have mx: "?v < MAXVA" using new(1) by (rule less_le_trans)
    have "unat a div 4096 * 4096 = unat a" using a(1) unat_round_down [of a] by simp
    moreover have "unat a \<le> unat ?v" using a(2) by (simp add: word_le_nat_alt u)
    ultimately have "a \<le> PGROUNDDOWN ?v" by (metis word_le_nat_alt unat_round_down div_le_mono mult_le_mono1)
    moreover have "PGROUNDDOWN ?v \<le> ?v" by (simp add: word_le_nat_alt unat_round_down)
    ultimately have up: "PGROUNDDOWN ?v \<in> upages a new" using lt by (auto simp: upages_def intro: le_less_trans)
    define p where "p = q (PGROUNDDOWN ?v)"
    have p: "zero_page p (pm m')" "page_ok e p" using g up pg by (auto simp: grown_def p_def)
    have "leaf (pm m') root (PGROUNDDOWN ?v) = PA2PTE p OR (PTE_R OR PTE_U OR x OR PTE_V)"
      using g up le_less_trans [OF \<open>PGROUNDDOWN ?v \<le> ?v\<close> mx] by (simp add: grown_def p_def or.assoc)
    moreover have "PTE2PA (PA2PTE p OR (PTE_R OR PTE_U OR x OR PTE_V)) = p"
      "(PA2PTE p OR (PTE_R OR PTE_U OR x OR PTE_V)) AND PTE_V = (PTE_R OR PTE_U OR x OR PTE_V) AND PTE_V"
      "(PA2PTE p OR (PTE_R OR PTE_U OR x OR PTE_V)) AND PTE_U = (PTE_R OR PTE_U OR x OR PTE_V) AND PTE_U"
      using pte_fields [of p "PTE_R OR PTE_U OR x OR PTE_V"] page_ok_pa [OF p(2)] x by auto
    moreover have "(PTE_R OR PTE_U OR x OR PTE_V) AND PTE_V \<noteq> 0" "(PTE_R OR PTE_U OR x OR PTE_V) AND PTE_U \<noteq> 0"
      by (simp_all add: bit.conj_disj_distrib2 or.commute or.left_commute)
    ultimately have "walkaddr root (PGROUNDDOWN ?v) (pm m') = p" by (simp add: walkaddr_leaf)
    then show ?thesis
      using p page_ok_pa [OF p(2)] by (auto simp: uaddr_def Let_def zero_page_def PGSIZE_def)
  qed
  then obtain f where f: "\<And>i. i < n \<Longrightarrow> uaddr root (pm m') (va + of_nat i) = Some (f i) \<and> ram (pm m') (f i) = 0" by metis
  have "map (\<lambda>i. uaddr root (pm m') (va + of_nat i)) [0..<n] = map (\<lambda>i. Some (f i)) [0..<n]" using f by simp
  then have "urange root (pm m') va n = Some (map f [0..<n])" by (simp only: urange_def those_map_Some)
  moreover have "map (ram (pm m')) (map f [0..<n]) = replicate n 0" using f by (intro nth_equalityI) simp_all
  ultimately show ?thesis using copyin_range [where pt = root and va = va and len = n and p = "pm m'"] by simp
qed

end
