(* ===== verification/Lock_Steps.thy ===== *)
theory Lock_Steps
  imports Locks
begin

text \<open>
  Any number of harts using one spin lock. The code of \<^verbatim>\<open>acquire\<close>, \<^verbatim>\<open>holding\<close> and \<^verbatim>\<open>release\<close> is cut at
  its memory accesses, and the accesses of different harts interleave. The two reads of \<^verbatim>\<open>holding\<close> are one step:
  \<^verbatim>\<open>lk->cpu\<close> is the calling hart only while that hart owns the lock, and then no other hart changes what is read.
\<close>

section \<open>The steps\<close>

text \<open>
  Where a hart is: outside; in the loop of \<^verbatim>\<open>acquire\<close>; past the loop with \<^verbatim>\<open>lk->cpu\<close> still to be set;
  inside the critical section; in \<^verbatim>\<open>release\<close> after \<^verbatim>\<open>lk->cpu = 0\<close>.
\<close>

datatype pc = Outside | Spinning | Owner | Inside | Leaving

record lstate =
  lk :: spinlock
  at :: "nat \<Rightarrow> pc"

inductive lstep :: "lstate \<Rightarrow> lstate \<Rightarrow> bool" where
  enter: "at s i = Outside \<Longrightarrow> \<not> holding i (lk s) \<Longrightarrow> lstep s (s\<lparr>at := (at s)(i := Spinning)\<rparr>)"
| swap_taken: "at s i = Spinning \<Longrightarrow> locked (lk s) \<noteq> 0 \<Longrightarrow> lstep s (s\<lparr>lk := (lk s)\<lparr>locked := 1\<rparr>\<rparr>)"
| swap_free: "at s i = Spinning \<Longrightarrow> locked (lk s) = 0 \<Longrightarrow>
    lstep s (s\<lparr>lk := (lk s)\<lparr>locked := 1\<rparr>, at := (at s)(i := Owner)\<rparr>)"
| set_cpu: "at s i = Owner \<Longrightarrow> lstep s (s\<lparr>lk := (lk s)\<lparr>lkcpu := Some i\<rparr>, at := (at s)(i := Inside)\<rparr>)"
| clear_cpu: "at s i = Inside \<Longrightarrow> holding i (lk s) \<Longrightarrow>
    lstep s (s\<lparr>lk := (lk s)\<lparr>lkcpu := None\<rparr>, at := (at s)(i := Leaving)\<rparr>)"
| unlock: "at s i = Leaving \<Longrightarrow> lstep s (s\<lparr>lk := (lk s)\<lparr>locked := 0\<rparr>, at := (at s)(i := Outside)\<rparr>)"

inductive lreach :: "string \<Rightarrow> lstate \<Rightarrow> bool" for nm where
  start: "lreach nm \<lparr>lk = initlock nm, at = (\<lambda>_. Outside)\<rparr>"
| more: "lreach nm s \<Longrightarrow> lstep s s' \<Longrightarrow> lreach nm s'"

section \<open>Mutual exclusion\<close>

definition owns :: "pc \<Rightarrow> bool" where
  "owns p \<longleftrightarrow> p \<in> {Owner, Inside, Leaving}"

lemma owns_simps [simp]: "\<not> owns Outside" "\<not> owns Spinning" "owns Owner" "owns Inside" "owns Leaving"
  by (simp_all add: owns_def)

text \<open>\<open>w\<close> is the hart that owns the lock, if there is one.\<close>

definition owned_by :: "nat option \<Rightarrow> lstate \<Rightarrow> bool" where
  "owned_by w s \<longleftrightarrow>
     (locked (lk s) \<noteq> 0 \<longleftrightarrow> w \<noteq> None) \<and> (\<forall>i. owns (at s i) \<longleftrightarrow> w = Some i) \<and>
     (\<forall>i. lkcpu (lk s) = Some i \<longleftrightarrow> at s i = Inside)"

definition lock_inv :: "lstate \<Rightarrow> bool" where
  "lock_inv s \<longleftrightarrow> (\<exists>w. owned_by w s)"

lemma lock_inv_start: "lock_inv \<lparr>lk = initlock nm, at = (\<lambda>_. Outside)\<rparr>"
  by (auto simp: lock_inv_def owned_by_def initlock_def)

lemma lock_inv_step:
  assumes "lock_inv s" "lstep s s'"
  shows "lock_inv s'"
proof -
  obtain w where l: "locked (lk s) \<noteq> 0 \<longleftrightarrow> w \<noteq> None" and o: "\<And>i. owns (at s i) \<longleftrightarrow> w = Some i"
    and c: "\<And>i. lkcpu (lk s) = Some i \<longleftrightarrow> at s i = Inside"
    using assms(1) by (auto simp: lock_inv_def owned_by_def)
  have own: "w = Some i" if "owns (at s i)" for i using o that by simp
  have not: "w \<noteq> Some i" if "\<not> owns (at s i)" for i using o that by simp
  from assms(2) show ?thesis
  proof cases
    case (enter i)
    then have "owned_by w s'" using l o c not [of i] by (auto simp: owned_by_def)
    then show ?thesis by (auto simp: lock_inv_def)
  next
    case (swap_taken i)
    then have "owned_by w s'" using l o c by (auto simp: owned_by_def)
    then show ?thesis by (auto simp: lock_inv_def)
  next
    case (swap_free i)
    then have "owned_by (Some i) s'" using l o c by (auto simp: owned_by_def)
    then show ?thesis by (auto simp: lock_inv_def)
  next
    case (set_cpu i)
    then have "at s j \<noteq> Inside" if "j \<noteq> i" for j using own [of i] own [of j] that by auto
    then have "owned_by (Some i) s'" using set_cpu l o own [of i] by (auto simp: owned_by_def)
    then show ?thesis by (auto simp: lock_inv_def)
  next
    case (clear_cpu i)
    then have "at s j \<noteq> Inside" if "j \<noteq> i" for j using own [of i] own [of j] that by auto
    then have "owned_by (Some i) s'" using clear_cpu l o own [of i] by (auto simp: owned_by_def)
    then show ?thesis by (auto simp: lock_inv_def)
  next
    case (unlock i)
    then have "owned_by None s'" using l o c own [of i] by (auto simp: owned_by_def)
    then show ?thesis by (auto simp: lock_inv_def)
  qed
qed

lemma lock_inv_reach: "lreach nm s \<Longrightarrow> lock_inv s"
  by (induction rule: lreach.induct) (blast intro: lock_inv_start lock_inv_step)+

lemma lock_inv_holding:
  assumes "lock_inv s"
  shows "holding i (lk s) \<longleftrightarrow> at s i = Inside"
proof -
  obtain w where "locked (lk s) \<noteq> 0 \<longleftrightarrow> w \<noteq> None" "owns (at s i) \<longleftrightarrow> w = Some i" "lkcpu (lk s) = Some i \<longleftrightarrow> at s i = Inside"
    using assms by (auto simp: lock_inv_def owned_by_def)
  then show ?thesis by (cases "at s i") (auto simp: holding_def)
qed

lemma lock_inv_unique: "lock_inv s \<Longrightarrow> owns (at s i) \<Longrightarrow> owns (at s j) \<Longrightarrow> i = j"
  by (auto simp: lock_inv_def owned_by_def)

text \<open>The guards of \<^verbatim>\<open>acquire\<close> and \<^verbatim>\<open>release\<close> never fail, so a hart is stuck only while it spins.\<close>

lemma lock_progress:
  assumes "lock_inv s" "at s i \<noteq> Spinning"
  shows "\<exists>s'. lstep s s' \<and> at s' i \<noteq> at s i"
proof (cases "at s i")
  case Outside
  then show ?thesis using lstep.enter [of s i] lock_inv_holding [OF assms(1), of i] by fastforce
next
  case Owner
  then show ?thesis using lstep.set_cpu [of s i] by fastforce
next
  case Inside
  then show ?thesis using lstep.clear_cpu [of s i] lock_inv_holding [OF assms(1), of i] by fastforce
next
  case Leaving
  then show ?thesis using lstep.unlock [of s i] by fastforce
qed (use assms in simp)

text \<open>The owner can always leave, and then a hart that spins can get in.\<close>

lemma owner_leaves:
  assumes "lock_inv s" "owns (at s j)" "i \<noteq> j"
  shows "\<exists>s'. lstep\<^sup>*\<^sup>* s s' \<and> locked (lk s') = 0 \<and> at s' i = at s i"
proof -
  have leave: "\<exists>s'. lstep\<^sup>*\<^sup>* s s' \<and> locked (lk s') = 0 \<and> at s' i = at s i" if "at s j = Leaving" for s
    by (rule exI, intro conjI, rule r_into_rtranclp [of lstep, OF lstep.unlock [OF that]]) (use assms(3) in auto)
  have inside: "\<exists>s'. lstep\<^sup>*\<^sup>* s s' \<and> locked (lk s') = 0 \<and> at s' i = at s i" if "at s j = Inside" "holding j (lk s)" for s
    using leave [of "s\<lparr>lk := (lk s)\<lparr>lkcpu := None\<rparr>, at := (at s)(j := Leaving)\<rparr>"] lstep.clear_cpu [OF that] assms(3)
    by (auto intro: converse_rtranclp_into_rtranclp)
  have owner: "\<exists>s'. lstep\<^sup>*\<^sup>* s s' \<and> locked (lk s') = 0 \<and> at s' i = at s i" if "at s j = Owner" "locked (lk s) \<noteq> 0" for s
    using inside [of "s\<lparr>lk := (lk s)\<lparr>lkcpu := Some j\<rparr>, at := (at s)(j := Inside)\<rparr>"] lstep.set_cpu [OF that(1)] that(2) assms(3)
    by (auto simp: holding_def intro: converse_rtranclp_into_rtranclp)
  have "locked (lk s) \<noteq> 0" using assms(1,2) by (auto simp: lock_inv_def owned_by_def)
  then show ?thesis
    using assms(2) leave [of s] inside [of s] owner [of s] lock_inv_holding [OF assms(1), of j] by (auto simp: owns_def)
qed

lemma spinner_gets_in:
  assumes "lock_inv s" "at s i = Spinning"
  shows "\<exists>s'. lstep\<^sup>*\<^sup>* s s' \<and> at s' i = Inside"
proof -
  have grab: "\<exists>s'. lstep\<^sup>*\<^sup>* s s' \<and> at s' i = Inside" if s: "at s i = Spinning" "locked (lk s) = 0" for s
  proof -
    let ?t = "s\<lparr>lk := (lk s)\<lparr>locked := 1\<rparr>, at := (at s)(i := Owner)\<rparr>"
    have "lstep s ?t" by (rule lstep.swap_free [OF s])
    moreover have "lstep ?t (?t\<lparr>lk := (lk ?t)\<lparr>lkcpu := Some i\<rparr>, at := (at ?t)(i := Inside)\<rparr>)" by (rule lstep.set_cpu) simp
    ultimately have "lstep\<^sup>*\<^sup>* s (?t\<lparr>lk := (lk ?t)\<lparr>lkcpu := Some i\<rparr>, at := (at ?t)(i := Inside)\<rparr>)"
      by (meson converse_rtranclp_into_rtranclp r_into_rtranclp)
    then show ?thesis by (intro exI conjI) auto
  qed
  show ?thesis
  proof (cases "locked (lk s) = 0")
    case False
    then obtain j where j: "owns (at s j)" using assms(1) by (auto simp: lock_inv_def owned_by_def)
    then have "i \<noteq> j" using assms(2) by auto
    then obtain t where "lstep\<^sup>*\<^sup>* s t" "locked (lk t) = 0" "at t i = Spinning"
      using owner_leaves [OF assms(1) j, of i] assms(2) by auto
    then show ?thesis using grab [of t] by (meson rtranclp_trans)
  qed (use grab assms in blast)
qed

end
