(* ===== verification/Proc.thy ===== *)
theory Proc
  imports Vm_Map Locks
begin

text \<open>
  Processes (\<^verbatim>\<open>kernel/proc.c\<close>): the process table, creation and destruction of address spaces, fork,
  exit, wait, kill, and the scheduler with sleep and wakeup. The model is one hart's view: \<open>cur\<close> is
  the process on that hart. A switch to another kernel thread ends an operation; what the process
  does when it runs again is an operation of its own (\<open>sleep_end\<close>, \<open>yield_end\<close>).
\<close>

section \<open>Data\<close>

datatype procstate = UNUSED | USED | SLEEPING | RUNNABLE | RUNNING | ZOMBIE

text \<open>The registers \<^verbatim>\<open>ra\<close> to \<^verbatim>\<open>t6\<close> are numbered 1 to 31, in the order of the structure; \<^verbatim>\<open>sp\<close> is 2, \<^verbatim>\<open>a0\<close> is 10.\<close>

record trapframe =
  kernel_satp :: uint64
  kernel_sp :: uint64
  kernel_trap :: uint64
  epc :: uint64
  kernel_hartid :: uint64
  regs :: "nat \<Rightarrow> uint64"

record proc_context =
  cx_ra :: uint64
  cx_sp :: uint64
  cx_s :: "nat \<Rightarrow> uint64"

text \<open>What a process can sleep on.\<close>

datatype chan = NoChan | ProcChan nat | TicksChan | AddrChan nat

text \<open>
  \<^verbatim>\<open>struct proc\<close>. A process is named by its index in the table, a page by its address, an open file and
  an inode by a number. \<open>k_intena\<close> is the local variable of \<^verbatim>\<open>sched\<close>, kept on the kernel stack.
\<close>

record proc =
  p_lock :: spinlock
  state :: procstate
  chan :: chan
  killed :: int
  xstate :: int
  pid :: int
  parent :: "nat option"
  kstack :: uint64
  sz :: uint64
  pagetable :: nat
  trapframe :: nat
  p_context :: proc_context
  ofile :: "nat option list"
  cwd :: "nat option"
  pname :: string
  k_intena :: bool

text \<open>
  The state: \<open>frames\<close> holds the trapframe in a page; \<open>ticks\<close> counts the timer interrupts; \<open>files\<close> is the state of the file layer, whose
  operations come as a record of functions.
\<close>

record 'f pst =
  procs :: "proc list"
  nextpid :: int
  pid_lock :: spinlock
  wait_lock :: spinlock
  initproc :: "nat option"
  cur :: "nat option"
  phart :: nat
  pcpu :: cpu
  mem :: mach
  frames :: "nat \<Rightarrow> trapframe"
  ticks :: uint32
  tickslock :: spinlock
  files :: 'f

record 'f fops =
  filedup :: "nat \<Rightarrow> 'f \<Rightarrow> 'f res"
  fileclose :: "nat \<Rightarrow> 'f \<Rightarrow> 'f res"
  idup :: "nat \<Rightarrow> 'f \<Rightarrow> 'f res"
  iput :: "nat \<Rightarrow> 'f \<Rightarrow> 'f res"
  begin_op :: "'f \<Rightarrow> 'f res"
  end_op :: "'f \<Rightarrow> 'f res"
  namei :: "string \<Rightarrow> 'f \<Rightarrow> (nat option \<times> 'f) res"

text \<open>What the linker and the machine fix: \<^verbatim>\<open>end\<close>, \<^verbatim>\<open>trampoline\<close>, the address of \<^verbatim>\<open>forkret\<close>.\<close>

record klink =
  ld_end :: nat
  ld_trampoline :: nat
  ld_forkret :: uint64

abbreviation proc_at :: "'f pst \<Rightarrow> nat \<Rightarrow> proc" where
  "proc_at s i \<equiv> procs s ! i"

definition upd :: "nat \<Rightarrow> (proc \<Rightarrow> proc) \<Rightarrow> 'f pst \<Rightarrow> 'f pst" where
  "upd i f s = s\<lparr>procs := (procs s)[i := f (procs s ! i)]\<rparr>"

text \<open>\<^verbatim>\<open>myproc\<close>; the null pointer is used by no caller without a fault.\<close>

definition myproc :: "'f pst \<Rightarrow> nat res" where
  "myproc s = (case cur s of None \<Rightarrow> Inl BadAccess | Some i \<Rightarrow> Inr i)"

section \<open>Locks\<close>

definition plock :: "nat \<Rightarrow> 'f pst \<Rightarrow> 'f pst res" where
  "plock i s = kbind (acquire (phart s) (pcpu s, p_lock (proc_at s i))) (\<lambda>(c, l).
     Inr (upd i (\<lambda>p. p\<lparr>p_lock := l\<rparr>) (s\<lparr>pcpu := c\<rparr>)))"

definition punlock :: "nat \<Rightarrow> 'f pst \<Rightarrow> 'f pst res" where
  "punlock i s = kbind (release (phart s) (pcpu s, p_lock (proc_at s i))) (\<lambda>(c, l).
     Inr (upd i (\<lambda>p. p\<lparr>p_lock := l\<rparr>) (s\<lparr>pcpu := c\<rparr>)))"

definition wait_acquire :: "'f pst \<Rightarrow> 'f pst res" where
  "wait_acquire s = kbind (acquire (phart s) (pcpu s, wait_lock s)) (\<lambda>(c, l). Inr (s\<lparr>pcpu := c, wait_lock := l\<rparr>))"

definition wait_release :: "'f pst \<Rightarrow> 'f pst res" where
  "wait_release s = kbind (release (phart s) (pcpu s, wait_lock s)) (\<lambda>(c, l). Inr (s\<lparr>pcpu := c, wait_lock := l\<rparr>))"

section \<open>The process table\<close>

definition procinit :: "'f pst \<Rightarrow> 'f pst" where
  "procinit s =
     s\<lparr>pid_lock := initlock ''nextpid'', wait_lock := initlock ''wait_lock'',
       procs := map (\<lambda>(i, p). p\<lparr>p_lock := initlock ''proc'', state := UNUSED, kstack := KSTACK i\<rparr>) (enumerate 0 (procs s))\<rparr>"

definition allocpid :: "'f pst \<Rightarrow> (int \<times> 'f pst) res" where
  "allocpid s =
     kbind (acquire (phart s) (pcpu s, pid_lock s)) (\<lambda>(c, l).
     let r = nextpid s; s = s\<lparr>pcpu := c, pid_lock := l, nextpid := i32 (nextpid s + 1)\<rparr> in
     kbind (release (phart s) (pcpu s, pid_lock s)) (\<lambda>(c, l). Inr (r, s\<lparr>pcpu := c, pid_lock := l\<rparr>)))"

definition TRAPFRAME :: uint64 where
  "TRAPFRAME = TRAMPOLINE - of_nat PGSIZE"

text \<open>\<open>tf\<close> is the page of the trapframe.\<close>

definition proc_pagetable :: "klink \<Rightarrow> nat \<Rightarrow> mach \<Rightarrow> (nat \<times> mach) res" where
  "proc_pagetable ld tf m =
     (let (pt, m) = uvmcreate m in
      if pt = 0 then Inr (0, m)
      else kbind (mappages pt TRAMPOLINE (of_nat PGSIZE) (ld_trampoline ld) (PTE_R OR PTE_X) m) (\<lambda>(r, m).
           if r < 0 then kbind (uvmfree (ld_end ld) pt 0 m) (\<lambda>m. Inr (0, m))
           else kbind (mappages pt TRAPFRAME (of_nat PGSIZE) tf (PTE_R OR PTE_W) m) (\<lambda>(r, m).
                if r < 0
                then kbind (uvmunmap (ld_end ld) pt TRAMPOLINE 1 False m) (\<lambda>m.
                     kbind (uvmfree (ld_end ld) pt 0 m) (\<lambda>m. Inr (0, m)))
                else Inr (pt, m))))"

definition proc_freepagetable :: "klink \<Rightarrow> nat \<Rightarrow> uint64 \<Rightarrow> mach \<Rightarrow> mach res" where
  "proc_freepagetable ld pt n m =
     kbind (uvmunmap (ld_end ld) pt TRAMPOLINE 1 False m) (\<lambda>m.
     kbind (uvmunmap (ld_end ld) pt TRAPFRAME 1 False m) (uvmfree (ld_end ld) pt n))"

definition freeproc :: "klink \<Rightarrow> nat \<Rightarrow> 'f pst \<Rightarrow> 'f pst res" where
  "freeproc ld i s =
     (let p = proc_at s i in
      kbind (if trapframe p \<noteq> 0 then kfree_m (ld_end ld) (trapframe p) (mem s) else Inr (mem s)) (\<lambda>m.
      kbind (if pagetable p \<noteq> 0 then proc_freepagetable ld (pagetable p) (sz p) m else Inr m) (\<lambda>m.
      Inr (upd i (\<lambda>p. p\<lparr>trapframe := 0, pagetable := 0, sz := 0, pid := 0, parent := None, pname := [],
                         chan := NoChan, killed := 0, xstate := 0, state := UNUSED\<rparr>) (s\<lparr>mem := m\<rparr>)))))"

text \<open>The search for an unused slot: it ends with the lock of that slot held.\<close>

fun find_unused :: "nat list \<Rightarrow> 'f pst \<Rightarrow> (nat option \<times> 'f pst) res" where
  "find_unused [] s = Inr (None, s)"
| "find_unused (i # is) s =
     kbind (plock i s) (\<lambda>s.
     if state (proc_at s i) = UNUSED then Inr (Some i, s)
     else kbind (punlock i s) (find_unused is))"

definition allocproc :: "klink \<Rightarrow> 'f pst \<Rightarrow> (nat option \<times> 'f pst) res" where
  "allocproc ld s =
     kbind (find_unused [0..<NPROC] s) (\<lambda>(found, s).
     case found of None \<Rightarrow> Inr (None, s)
     | Some i \<Rightarrow>
        kbind (allocpid s) (\<lambda>(n, s).
        let s = upd i (\<lambda>p. p\<lparr>pid := n, state := USED\<rparr>) s;
            (tf, m) = kalloc_m (mem s);
            s = upd i (\<lambda>p. p\<lparr>trapframe := tf\<rparr>) (s\<lparr>mem := m\<rparr>) in
        if tf = 0 then kbind (freeproc ld i s) (\<lambda>s. kbind (punlock i s) (\<lambda>s. Inr (None, s)))
        else kbind (proc_pagetable ld tf (mem s)) (\<lambda>(pt, m).
             let s = upd i (\<lambda>p. p\<lparr>pagetable := pt\<rparr>) (s\<lparr>mem := m\<rparr>) in
             if pt = 0 then kbind (freeproc ld i s) (\<lambda>s. kbind (punlock i s) (\<lambda>s. Inr (None, s)))
             else Inr (Some i, upd i (\<lambda>p. p\<lparr>p_context := \<lparr>cx_ra = ld_forkret ld, cx_sp = kstack p + of_nat PGSIZE,
                                                          cx_s = (\<lambda>_. 0)\<rparr>\<rparr>) s))))"

definition initcode :: "uchar list" where
  "initcode =
     [0x17, 0x05, 0x00, 0x00, 0x13, 0x05, 0x45, 0x02, 0x97, 0x05, 0x00, 0x00, 0x93, 0x85, 0x35, 0x02,
      0x93, 0x08, 0x70, 0x00, 0x73, 0x00, 0x00, 0x00, 0x93, 0x08, 0x20, 0x00, 0x73, 0x00, 0x00, 0x00,
      0xef, 0xf0, 0x9f, 0xff, 0x2f, 0x69, 0x6e, 0x69, 0x74, 0x00, 0x00, 0x24, 0x00, 0x00, 0x00, 0x00,
      0x00, 0x00, 0x00, 0x00]"

text \<open>A failed \<^verbatim>\<open>allocproc\<close> is not checked.\<close>

definition userinit :: "klink \<Rightarrow> 'f fops \<Rightarrow> 'f pst \<Rightarrow> 'f pst res" where
  "userinit ld fo s =
     kbind (allocproc ld s) (\<lambda>(p, s).
     let s = s\<lparr>initproc := p\<rparr> in
     case p of None \<Rightarrow> Inl BadAccess
     | Some i \<Rightarrow>
        kbind (uvmfirst (pagetable (proc_at s i)) initcode (mem s)) (\<lambda>m.
        let s = upd i (\<lambda>p. p\<lparr>sz := of_nat PGSIZE\<rparr>) (s\<lparr>mem := m\<rparr>);
            tf = trapframe (proc_at s i);
            s = s\<lparr>frames := (frames s)(tf := (frames s tf)\<lparr>epc := 0, regs := (regs (frames s tf))(2 := of_nat PGSIZE)\<rparr>)\<rparr>;
            s = upd i (\<lambda>p. p\<lparr>pname := ''initcode''\<rparr>) s in
        kbind (namei fo ''/'' (files s)) (\<lambda>(d, f).
        punlock i (upd i (\<lambda>p. p\<lparr>cwd := d, state := RUNNABLE\<rparr>) (s\<lparr>files := f\<rparr>)))))"

definition growproc :: "klink \<Rightarrow> int \<Rightarrow> 'f pst \<Rightarrow> (int \<times> 'f pst) res" where
  "growproc ld n s =
     kbind (myproc s) (\<lambda>i.
     let p = proc_at s i in
     if n > 0
     then kbind (uvmalloc (ld_end ld) (pagetable p) (sz p) (sz p + word_of_int n) PTE_W (mem s)) (\<lambda>(r, m).
          if r = 0 then Inr (-1, s\<lparr>mem := m\<rparr>) else Inr (0, upd i (\<lambda>p. p\<lparr>sz := r\<rparr>) (s\<lparr>mem := m\<rparr>)))
     else if n < 0
     then kbind (uvmdealloc (ld_end ld) (pagetable p) (sz p) (sz p + word_of_int n) (mem s)) (\<lambda>(r, m).
          Inr (0, upd i (\<lambda>p. p\<lparr>sz := r\<rparr>) (s\<lparr>mem := m\<rparr>)))
     else Inr (0, upd i (\<lambda>p. p\<lparr>sz := sz p\<rparr>) s))"

section \<open>Sleep, wakeup and kill\<close>

text \<open>
  \<^verbatim>\<open>wakeup\<close>: a process whose lock this hart holds is skipped while it is being created; with its lock
  held in another state the second \<^verbatim>\<open>acquire\<close> panics.
\<close>

definition wake1 :: "chan \<Rightarrow> nat \<Rightarrow> 'f pst \<Rightarrow> 'f pst res" where
  "wake1 ch i s =
     (if cur s = Some i then Inr s
      else if holding (phart s) (p_lock (proc_at s i)) \<and> state (proc_at s i) = USED then Inr s
      else kbind (plock i s) (\<lambda>s.
           punlock i (if state (proc_at s i) = SLEEPING \<and> chan (proc_at s i) = ch
                      then upd i (\<lambda>p. p\<lparr>state := RUNNABLE\<rparr>) s else s)))"

definition wakeup :: "chan \<Rightarrow> 'f pst \<Rightarrow> 'f pst res" where
  "wakeup ch s = kfold (wake1 ch) [0..<NPROC] s"

fun kill_loop :: "int \<Rightarrow> nat list \<Rightarrow> 'f pst \<Rightarrow> (int \<times> 'f pst) res" where
  "kill_loop n [] s = Inr (-1, s)"
| "kill_loop n (i # is) s =
     kbind (plock i s) (\<lambda>s.
     if pid (proc_at s i) = n
     then let s = upd i (\<lambda>p. p\<lparr>killed := 1\<rparr>) s;
              s = (if state (proc_at s i) = SLEEPING then upd i (\<lambda>p. p\<lparr>state := RUNNABLE\<rparr>) s else s)
          in kbind (punlock i s) (\<lambda>s. Inr (0, s))
     else kbind (punlock i s) (kill_loop n is))"

definition kill :: "int \<Rightarrow> 'f pst \<Rightarrow> (int \<times> 'f pst) res" where
  "kill n s = kill_loop n [0..<NPROC] s"

definition setkilled :: "nat \<Rightarrow> 'f pst \<Rightarrow> 'f pst res" where
  "setkilled i s = kbind (plock i s) (\<lambda>s. punlock i (upd i (\<lambda>p. p\<lparr>killed := 1\<rparr>) s))"

definition get_killed :: "nat \<Rightarrow> 'f pst \<Rightarrow> (int \<times> 'f pst) res" where
  "get_killed i s = kbind (plock i s) (\<lambda>s. let k = killed (proc_at s i) in kbind (punlock i s) (\<lambda>s. Inr (k, s)))"

text \<open>\<^verbatim>\<open>sched\<close> up to \<^verbatim>\<open>swtch\<close>, and what follows the return from it.\<close>

definition sched_out :: "nat \<Rightarrow> 'f pst \<Rightarrow> 'f pst res" where
  "sched_out i s =
     (if \<not> holding (phart s) (p_lock (proc_at s i)) then Inl (Panic ''sched p->lock'')
      else if noff (pcpu s) \<noteq> 1 then Inl (Panic ''sched locks'')
      else if state (proc_at s i) = RUNNING then Inl (Panic ''sched running'')
      else if intr (pcpu s) then Inl (Panic ''sched interruptible'')
      else Inr (upd i (\<lambda>p. p\<lparr>k_intena := intena (pcpu s)\<rparr>) s))"

definition sched_in :: "nat \<Rightarrow> 'f pst \<Rightarrow> 'f pst" where
  "sched_in i s = s\<lparr>pcpu := (pcpu s)\<lparr>intena := k_intena (proc_at s i)\<rparr>\<rparr>"

text \<open>
  The scheduler: one round of its inner loop up to \<^verbatim>\<open>swtch\<close>, and the rest of the round when the process
  has switched back.
\<close>

definition scheduler_pick :: "nat \<Rightarrow> 'f pst \<Rightarrow> 'f pst res" where
  "scheduler_pick i s =
     kbind (plock i s) (\<lambda>s.
     if state (proc_at s i) = RUNNABLE then Inr ((upd i (\<lambda>p. p\<lparr>state := RUNNING\<rparr>) s)\<lparr>cur := Some i\<rparr>)
     else punlock i s)"

definition scheduler_back :: "nat \<Rightarrow> 'f pst \<Rightarrow> 'f pst res" where
  "scheduler_back i s = punlock i (s\<lparr>cur := None\<rparr>)"

definition yield_start :: "'f pst \<Rightarrow> 'f pst res" where
  "yield_start s =
     kbind (myproc s) (\<lambda>i.
     kbind (plock i s) (\<lambda>s.
     kbind (sched_out i (upd i (\<lambda>p. p\<lparr>state := RUNNABLE\<rparr>) s)) (scheduler_back i)))"

definition yield_end :: "'f pst \<Rightarrow> 'f pst res" where
  "yield_end s = kbind (myproc s) (\<lambda>i. punlock i (sched_in i s))"

text \<open>
  \<^verbatim>\<open>sleep(chan, lk)\<close>: \<open>rel\<close> and \<open>acq\<close> release and acquire \<open>lk\<close>.
\<close>

definition sleep_start :: "chan \<Rightarrow> ('f pst \<Rightarrow> 'f pst res) \<Rightarrow> 'f pst \<Rightarrow> 'f pst res" where
  "sleep_start ch rel s =
     kbind (myproc s) (\<lambda>i.
     kbind (plock i s) (\<lambda>s.
     kbind (rel s) (\<lambda>s.
     kbind (sched_out i (upd i (\<lambda>p. p\<lparr>chan := ch, state := SLEEPING\<rparr>) s)) (scheduler_back i))))"

definition sleep_end :: "('f pst \<Rightarrow> 'f pst res) \<Rightarrow> 'f pst \<Rightarrow> 'f pst res" where
  "sleep_end acq s =
     kbind (myproc s) (\<lambda>i.
     kbind (punlock i (upd i (\<lambda>p. p\<lparr>chan := NoChan\<rparr>) (sched_in i s))) acq)"

section \<open>Fork, exit and wait\<close>

text \<open>The loop of \<^verbatim>\<open>fork\<close> over the open files; a slot of the child is set only where the parent's is.\<close>

definition dup_files :: "'f fops \<Rightarrow> nat \<Rightarrow> nat \<Rightarrow> 'f pst \<Rightarrow> 'f pst res" where
  "dup_files fo i np s =
     kfold (\<lambda>fd s. case ofile (proc_at s i) ! fd of
                None \<Rightarrow> Inr s
              | Some f \<Rightarrow> kbind (filedup fo f (files s)) (\<lambda>fs.
                  Inr (upd np (\<lambda>p. p\<lparr>ofile := (ofile p)[fd := Some f]\<rparr>) (s\<lparr>files := fs\<rparr>)))) [0..<16] s"

definition fork :: "klink \<Rightarrow> 'f fops \<Rightarrow> 'f pst \<Rightarrow> (int \<times> 'f pst) res" where
  "fork ld fo s =
     kbind (myproc s) (\<lambda>i.
     kbind (allocproc ld s) (\<lambda>(np, s).
     case np of None \<Rightarrow> Inr (-1, s)
     | Some np \<Rightarrow>
        kbind (uvmcopy (ld_end ld) (pagetable (proc_at s i)) (pagetable (proc_at s np)) (sz (proc_at s i)) (mem s)) (\<lambda>(r, m).
        let s = s\<lparr>mem := m\<rparr> in
        if r < 0 then kbind (freeproc ld np s) (\<lambda>s. kbind (punlock np s) (\<lambda>s. Inr (-1, s)))
        else
        let s = upd np (\<lambda>p. p\<lparr>sz := sz (proc_at s i)\<rparr>) s;
            tf = frames s (trapframe (proc_at s i));
            s = s\<lparr>frames := (frames s)(trapframe (proc_at s np) := tf\<lparr>regs := (regs tf)(10 := 0)\<rparr>)\<rparr> in
        kbind (dup_files fo i np s) (\<lambda>s.
        kbind (case cwd (proc_at s i) of None \<Rightarrow> Inl BadAccess | Some d \<Rightarrow> idup fo d (files s)) (\<lambda>fs.
        let s = upd np (\<lambda>p. p\<lparr>cwd := cwd (proc_at s i), pname := pname (proc_at s i)\<rparr>) (s\<lparr>files := fs\<rparr>);
            n = pid (proc_at s np) in
        kbind (punlock np s) (\<lambda>s.
        kbind (wait_acquire s) (\<lambda>s.
        kbind (wait_release (upd np (\<lambda>p. p\<lparr>parent := Some i\<rparr>) s)) (\<lambda>s.
        kbind (plock np s) (\<lambda>s.
        kbind (punlock np (upd np (\<lambda>p. p\<lparr>state := RUNNABLE\<rparr>) s)) (\<lambda>s. Inr (n, s)))))))))))"

definition init_chan :: "'f pst \<Rightarrow> chan" where
  "init_chan s = (case initproc s of None \<Rightarrow> NoChan | Some i \<Rightarrow> ProcChan i)"

definition reparent :: "nat \<Rightarrow> 'f pst \<Rightarrow> 'f pst res" where
  "reparent i s =
     kfold (\<lambda>pp s. if parent (proc_at s pp) = Some i
                    then wakeup (init_chan s) (upd pp (\<lambda>p. p\<lparr>parent := initproc s\<rparr>) s)
                    else Inr s) [0..<NPROC] s"

definition close_files :: "'f fops \<Rightarrow> nat \<Rightarrow> 'f pst \<Rightarrow> 'f pst res" where
  "close_files fo i s =
     kfold (\<lambda>fd s. case ofile (proc_at s i) ! fd of
                None \<Rightarrow> Inr s
              | Some f \<Rightarrow> kbind (fileclose fo f (files s)) (\<lambda>fs.
                  Inr (upd i (\<lambda>p. p\<lparr>ofile := (ofile p)[fd := None]\<rparr>) (s\<lparr>files := fs\<rparr>)))) [0..<16] s"

text \<open>\<^verbatim>\<open>exit\<close> up to the switch to the scheduler, from which it never returns.\<close>

definition exit_proc :: "'f fops \<Rightarrow> int \<Rightarrow> 'f pst \<Rightarrow> 'f pst res" where
  "exit_proc fo status s =
     kbind (myproc s) (\<lambda>i.
     if initproc s = Some i then Inl (Panic ''init exiting'')
     else
     kbind (close_files fo i s) (\<lambda>s.
     kbind (begin_op fo (files s)) (\<lambda>fs.
     kbind (case cwd (proc_at s i) of None \<Rightarrow> Inl BadAccess | Some d \<Rightarrow> iput fo d fs) (\<lambda>fs.
     kbind (end_op fo fs) (\<lambda>fs.
     let s = upd i (\<lambda>p. p\<lparr>cwd := None\<rparr>) (s\<lparr>files := fs\<rparr>) in
     kbind (wait_acquire s) (\<lambda>s.
     kbind (reparent i s) (\<lambda>s.
     kbind (wakeup (case parent (proc_at s i) of None \<Rightarrow> NoChan | Some q \<Rightarrow> ProcChan q) s) (\<lambda>s.
     kbind (plock i s) (\<lambda>s.
     kbind (wait_release (upd i (\<lambda>p. p\<lparr>xstate := status, state := ZOMBIE\<rparr>) s)) (\<lambda>s.
     kbind (sched_out i s) (scheduler_back i)))))))))))"

text \<open>
  One pass of \<^verbatim>\<open>wait\<close> over the table: \<open>Inl r\<close> when it returns \<open>r\<close>, with the wait lock released, or
  \<open>Inr havekids\<close> at the end of the table.
\<close>

fun wait_scan :: "klink \<Rightarrow> nat \<Rightarrow> uint64 \<Rightarrow> nat list \<Rightarrow> bool \<Rightarrow> 'f pst \<Rightarrow> ((int + bool) \<times> 'f pst) res" where
  "wait_scan ld i addr [] havekids s = Inr (Inr havekids, s)"
| "wait_scan ld i addr (pp # ps) havekids s =
     (if parent (proc_at s pp) \<noteq> Some i then wait_scan ld i addr ps havekids s
      else kbind (plock pp s) (\<lambda>s.
           if state (proc_at s pp) = ZOMBIE
           then let n = pid (proc_at s pp);
                    (r, pm') = (if addr \<noteq> 0
                      then copyout (pagetable (proc_at s i)) addr
                             (map (\<lambda>k. ucast (drop_bit (8 * k) (word_of_int (xstate (proc_at s pp)) :: uint32))) [0..<4]) (pm (mem s))
                      else (0, pm (mem s)));
                    s = s\<lparr>mem := (mem s)\<lparr>pm := pm'\<rparr>\<rparr> in
                if r < 0 then kbind (punlock pp s) (\<lambda>s. kbind (wait_release s) (\<lambda>s. Inr (Inl (-1), s)))
                else kbind (freeproc ld pp s) (\<lambda>s. kbind (punlock pp s) (\<lambda>s. kbind (wait_release s) (\<lambda>s. Inr (Inl n, s))))
           else kbind (punlock pp s) (wait_scan ld i addr ps True)))"

text \<open>One round of the loop of \<^verbatim>\<open>wait\<close>, with the wait lock held: \<open>None\<close> when the caller has gone to sleep.\<close>

definition wait_round :: "klink \<Rightarrow> uint64 \<Rightarrow> 'f pst \<Rightarrow> (int option \<times> 'f pst) res" where
  "wait_round ld addr s =
     kbind (myproc s) (\<lambda>i.
     kbind (wait_scan ld i addr [0..<NPROC] False s) (\<lambda>(r, s).
     case r of Inl n \<Rightarrow> Inr (Some n, s)
     | Inr havekids \<Rightarrow>
        kbind (if havekids then get_killed i s else Inr (0, s)) (\<lambda>(k, s).
        if \<not> havekids \<or> k \<noteq> 0 then kbind (wait_release s) (\<lambda>s. Inr (Some (-1), s))
        else kbind (sleep_start (ProcChan i) wait_release s) (\<lambda>s. Inr (None, s)))))"

definition wait_start :: "klink \<Rightarrow> uint64 \<Rightarrow> 'f pst \<Rightarrow> (int option \<times> 'f pst) res" where
  "wait_start ld addr s = kbind (myproc s) (\<lambda>i. kbind (wait_acquire s) (wait_round ld addr))"

text \<open>Continuing after the sleep.\<close>

definition wait_again :: "klink \<Rightarrow> uint64 \<Rightarrow> 'f pst \<Rightarrow> (int option \<times> 'f pst) res" where
  "wait_again ld addr s = kbind (sleep_end wait_acquire s) (wait_round ld addr)"

section \<open>Copies for the file layer\<close>

definition either_copyout :: "bool \<Rightarrow> uint64 \<Rightarrow> uchar list \<Rightarrow> 'f pst \<Rightarrow> (int \<times> 'f pst) res" where
  "either_copyout user_dst dst src s =
     (if user_dst
      then kbind (myproc s) (\<lambda>i.
           let (r, p) = copyout (pagetable (proc_at s i)) dst src (pm (mem s))
           in Inr (r, s\<lparr>mem := (mem s)\<lparr>pm := p\<rparr>\<rparr>))
      else Inr (0, s\<lparr>mem := (mem s)\<lparr>pm := write_bytes (unat dst) src (pm (mem s))\<rparr>\<rparr>))"

definition either_copyin :: "bool \<Rightarrow> uint64 \<Rightarrow> nat \<Rightarrow> 'f pst \<Rightarrow> (int \<times> uchar list) res" where
  "either_copyin user_src src len s =
     (if user_src then kbind (myproc s) (\<lambda>i. Inr (copyin (pagetable (proc_at s i)) src len (pm (mem s))))
      else Inr (0, read_bytes (unat src) len (pm (mem s))))"

section \<open>Critical sections\<close>

text \<open>No lock of the table is held, and the interrupt state is the saved one.\<close>

definition idle_locks :: "'f pst \<Rightarrow> bool" where
  "idle_locks s \<longleftrightarrow> length (procs s) = NPROC \<and> (\<forall>i < NPROC. lk_free (p_lock (proc_at s i))) \<and> cpu_calm (pcpu s)"

text \<open>The state with the lock of process \<open>i\<close> taken.\<close>

definition with_lock :: "nat \<Rightarrow> 'f pst \<Rightarrow> 'f pst" where
  "with_lock i s = upd i (\<lambda>p. p\<lparr>p_lock := (p_lock p)\<lparr>locked := 1, lkcpu := Some (phart s)\<rparr>\<rparr>) (s\<lparr>pcpu := push_off (pcpu s)\<rparr>)"

definition keeps_lock :: "(proc \<Rightarrow> proc) \<Rightarrow> bool" where
  "keeps_lock f \<longleftrightarrow> (\<forall>p l. f (p\<lparr>p_lock := l\<rparr>) = (f p)\<lparr>p_lock := l\<rparr>)"

lemma keeps_lockD: "keeps_lock f \<Longrightarrow> p_lock (f p) = p_lock p"
  unfolding keeps_lock_def by (metis (no_types) proc.surjective proc.update_convs(1) proc.select_convs(1))

lemma plock_idle: "idle_locks s \<Longrightarrow> i < NPROC \<Longrightarrow> plock i s = Inr (with_lock i s)"
  by (simp add: idle_locks_def plock_def with_lock_def acquire_free upd_def)

lemma punlock_with_lock:
  assumes "idle_locks s" "i < NPROC"
  shows "punlock i (with_lock i s) = Inr s"
proof -
  have f: "lk_free (p_lock (proc_at s i))" "cpu_calm (pcpu s)" "i < length (procs s)" using assms by (auto simp: idle_locks_def)
  show ?thesis
    using calm_release [OF f(2,1), of "phart s"] f(3) by (simp add: punlock_def with_lock_def upd_def)
qed

lemma upd_with_lock:
  assumes "keeps_lock f" "i < length (procs s)"
  shows "upd i f (with_lock i s) = with_lock i (upd i f s)"
  using assms keeps_lockD [OF assms(1)] by (simp add: upd_def with_lock_def keeps_lock_def)

lemma idle_upd: "idle_locks s \<Longrightarrow> keeps_lock f \<Longrightarrow> idle_locks (upd i f s)"
  using keeps_lockD [of f] by (cases "i < length (procs s)") (auto simp: idle_locks_def upd_def nth_list_update)

lemma with_lock_sel:
  assumes "i < length (procs s)"
  shows "state (proc_at (with_lock i s) j) = state (proc_at s j)" "chan (proc_at (with_lock i s) j) = chan (proc_at s j)"
    "pid (proc_at (with_lock i s) j) = pid (proc_at s j)" "killed (proc_at (with_lock i s) j) = killed (proc_at s j)"
    "parent (proc_at (with_lock i s) j) = parent (proc_at s j)"
  using assms by (auto simp: with_lock_def upd_def nth_list_update)

text \<open>A critical section that updates the process is that update.\<close>

lemma critical_upd:
  assumes "idle_locks s" "i < NPROC" "keeps_lock f"
  shows "kbind (plock i s) (\<lambda>s. punlock i (upd i f s)) = Inr (upd i f s)"
  using plock_idle [OF assms(1,2)] upd_with_lock [OF assms(3), of i s] punlock_with_lock [OF idle_upd [OF assms(1,3)] assms(2), of i] assms
  by (simp add: idle_locks_def)

lemma keeps_lock_fields [simp]:
  "keeps_lock (\<lambda>p. p\<lparr>state := x\<rparr>)" "keeps_lock (\<lambda>p. p\<lparr>killed := k\<rparr>)" "keeps_lock (\<lambda>p. p)"
  "keeps_lock (\<lambda>p. p\<lparr>killed := k, state := x\<rparr>)" "keeps_lock (\<lambda>p. p\<lparr>chan := ch\<rparr>)" "keeps_lock (\<lambda>p. p\<lparr>parent := q\<rparr>)"
  by (simp_all add: keeps_lock_def)

lemma upd_id [simp]: "i < length (procs s) \<Longrightarrow> upd i (\<lambda>p. p) s = s"
  by (simp add: upd_def)

section \<open>Wakeup and kill\<close>

text \<open>What \<^verbatim>\<open>wakeup\<close> makes of a process, and of the table.\<close>

definition woken :: "chan \<Rightarrow> nat option \<Rightarrow> nat \<Rightarrow> proc \<Rightarrow> proc" where
  "woken ch me i p = (if me \<noteq> Some i \<and> state p = SLEEPING \<and> chan p = ch then p\<lparr>state := RUNNABLE\<rparr> else p)"

lemma keeps_lock_woken [simp]: "keeps_lock (woken ch me i)"
  by (simp add: keeps_lock_def woken_def)

lemma wake1_idle:
  assumes "idle_locks s" "i < NPROC"
  shows "wake1 ch i s = Inr (upd i (woken ch (cur s) i) s)"
proof -
  have len: "i < length (procs s)" and free: "\<not> holding (phart s) (p_lock (proc_at s i))"
    using assms by (auto simp: idle_locks_def lk_free_def holding_def)
  show ?thesis
  proof (cases "cur s = Some i")
    case True
    then have "upd i (woken ch (cur s) i) s = s" using len by (simp add: upd_def woken_def)
    then show ?thesis using True by (simp add: wake1_def)
  next
    case False
    have "(if state (proc_at (with_lock i s) i) = SLEEPING \<and> chan (proc_at (with_lock i s) i) = ch
        then upd i (\<lambda>p. p\<lparr>state := RUNNABLE\<rparr>) (with_lock i s) else with_lock i s) = upd i (woken ch (cur s) i) (with_lock i s)"
      using len False by (simp add: with_lock_sel woken_def) (simp add: upd_def with_lock_def woken_def)
    then show ?thesis
      using False free critical_upd [OF assms keeps_lock_woken] plock_idle [OF assms] by (simp add: wake1_def)
  qed
qed

lemma wakeup_idle:
  assumes "idle_locks s"
  shows "wakeup ch s = Inr (s\<lparr>procs := map (\<lambda>(i, p). woken ch (cur s) i p) (enumerate 0 (procs s))\<rparr>)"
proof -
  let ?P = "\<lambda>pre t. idle_locks t \<and> cur t = cur s \<and>
    t = s\<lparr>procs := map (\<lambda>(i, p). if i < length pre then woken ch (cur s) i p else p) (enumerate 0 (procs s))\<rparr>"
  have "wp (kfold (wake1 ch) [0..<NPROC] s) (?P [0..<NPROC])"
  proof (rule wp_kfold [where P = ?P])
    have "map (\<lambda>(i, p). p) (enumerate 0 (procs s)) = procs s" by (simp add: case_prod_beta')
    then show "?P [] s" using assms by simp
  next
    fix pre i rest t
    assume split: "[0..<NPROC] = pre @ i # rest" and P: "?P pre t"
    note i = upt_split [OF split]
    have len: "length (procs s) = NPROC" using assms by (simp add: idle_locks_def)
    have "upd i (woken ch (cur s) i) t = s\<lparr>procs := map (\<lambda>(k, p). if k < length (pre @ [i]) then woken ch (cur s) k p else p) (enumerate 0 (procs s))\<rparr>"
      using P i len by (auto simp: upd_def nth_enumerate_eq nth_list_update intro!: arg_cong [where f = "\<lambda>x. s\<lparr>procs := x\<rparr>"] nth_equalityI)
    moreover have t: "idle_locks t" "cur t = cur s" using P by blast+
    have "wake1 ch i t = Inr (upd i (woken ch (cur s) i) t)" using wake1_idle [OF t(1) i(2), of ch] t(2) by simp
    moreover have "idle_locks (upd i (woken ch (cur s) i) t)" by (rule idle_upd [OF t(1)]) simp
    ultimately show "wp (wake1 ch i t) (?P (pre @ [i]))" by simp
  qed
  then show ?thesis
    using assms by (auto simp: wakeup_def wp_iff idle_locks_def in_set_enumerate_eq intro!: arg_cong [where f = "\<lambda>x. s\<lparr>procs := x\<rparr>"])
qed

text \<open>\<^verbatim>\<open>kill\<close> marks the first process with the pid and makes it runnable when it sleeps.\<close>

definition slain :: "proc \<Rightarrow> proc" where
  "slain p = p\<lparr>killed := 1, state := (if state p = SLEEPING then RUNNABLE else state p)\<rparr>"

lemma kill_loop_idle:
  assumes "idle_locks s" "\<forall>i \<in> set is. i < NPROC"
  shows "kill_loop n is s =
    (case find (\<lambda>i. pid (proc_at s i) = n) is of None \<Rightarrow> Inr (-1, s) | Some i \<Rightarrow> Inr (0, upd i slain s))"
  using assms(2)
proof (induction "is")
  case (Cons i "is")
  have i: "i < NPROC" "i < length (procs s)" using Cons.prems assms(1) by (auto simp: idle_locks_def)
  note lock = plock_idle [OF assms(1) i(1)] and un = punlock_with_lock [OF assms(1) i(1)]
  show ?case
  proof (cases "pid (proc_at s i) = n")
    case True
    let ?t = "upd i (\<lambda>p. p\<lparr>killed := 1\<rparr>) (with_lock i s)"
    have "(if state (proc_at ?t i) = SLEEPING then upd i (\<lambda>p. p\<lparr>state := RUNNABLE\<rparr>) ?t else ?t) = upd i slain (with_lock i s)"
      using i by (auto simp: upd_def slain_def with_lock_def)
    moreover have "keeps_lock slain" by (simp add: keeps_lock_def slain_def)
    ultimately show ?thesis
      using True critical_upd [OF assms(1) i(1), of slain] lock i(2) by (simp add: with_lock_sel Let_def)
  next
    case False
    then show ?thesis using Cons lock un i(2) by (simp add: with_lock_sel)
  qed
qed simp

end
