(* ===== verification/Proc_Steps.thy ===== *)
theory Proc_Steps
  imports Proc
begin

text \<open>
  The life of the processes on a hart as a labelled step relation over the operations of \<open>Proc\<close>, with
  the invariant that the running process is the one on the hart, and the ways out of sleep.
\<close>

section \<open>What locking does not touch\<close>

text \<open>The scheduling state: the states, channels and pids of the table, and the process on the hart.\<close>

definition sview :: "'f pst \<Rightarrow> (procstate \<times> chan \<times> int) list \<times> nat option" where
  "sview s = (map (\<lambda>p. (state p, chan p, pid p)) (procs s), cur s)"

definition keeps_view :: "('f pst \<Rightarrow> 'f pst res) \<Rightarrow> bool" where
  "keeps_view f \<longleftrightarrow> (\<forall>s. pc (f s) (\<lambda>s'. sview s' = sview s))"

lemma sview_upd_lock [simp]: "sview (upd i (\<lambda>p. p\<lparr>p_lock := l\<rparr>) s) = sview s"
  by (cases "i < length (procs s)") (auto simp: sview_def upd_def map_update list_update_same_conv nth_list_update intro!: nth_equalityI)

lemma sview_cpu [simp]: "sview (s\<lparr>pcpu := c\<rparr>) = sview s" "sview (s\<lparr>wait_lock := l\<rparr>) = sview s"
  by (simp_all add: sview_def)

lemma keeps_plock [pc_rules]: "pc (plock i s) (\<lambda>s'. sview s' = sview s)"
  by (cases "acquire (phart s) (pcpu s, p_lock (proc_at s i))") (auto simp: plock_def split: prod.splits)

lemma keeps_punlock [pc_rules]: "pc (punlock i s) (\<lambda>s'. sview s' = sview s)"
  by (cases "release (phart s) (pcpu s, p_lock (proc_at s i))") (auto simp: punlock_def split: prod.splits)

lemma keeps_wait_release: "keeps_view wait_release"
  unfolding keeps_view_def
proof
  fix s :: "'a pst"
  show "pc (wait_release s) (\<lambda>s'. sview s' = sview s)"
    by (cases "release (phart s) (pcpu s, wait_lock s)") (auto simp: wait_release_def sview_def split: prod.splits)
qed

lemma keeps_wait_acquire: "keeps_view wait_acquire"
  unfolding keeps_view_def
proof
  fix s :: "'a pst"
  show "pc (wait_acquire s) (\<lambda>s'. sview s' = sview s)"
    by (cases "acquire (phart s) (pcpu s, wait_lock s)") (auto simp: wait_acquire_def sview_def split: prod.splits)
qed

text \<open>The scheduling state after a change of one process.\<close>

definition vset :: "nat \<Rightarrow> procstate \<Rightarrow> chan \<Rightarrow> (procstate \<times> chan \<times> int) list \<Rightarrow> (procstate \<times> chan \<times> int) list" where
  "vset i st ch ps = ps[i := (st, ch, snd (snd (ps ! i)))]"

lemma sview_eqD:
  assumes "sview s' = sview s"
  shows "cur s' = cur s" "length (procs s') = length (procs s)"
    and "i < length (procs s) \<Longrightarrow> state (proc_at s' i) = state (proc_at s i)"
    and "i < length (procs s) \<Longrightarrow> chan (proc_at s' i) = chan (proc_at s i)"
    and "i < length (procs s) \<Longrightarrow> pid (proc_at s' i) = pid (proc_at s i)"
proof -
  have m: "map (\<lambda>p. (state p, chan p, pid p)) (procs s') = map (\<lambda>p. (state p, chan p, pid p)) (procs s)"
    using assms by (simp add: sview_def)
  show "cur s' = cur s" using assms by (simp add: sview_def)
  show l: "length (procs s') = length (procs s)" using arg_cong [OF m, of length] by simp
  have "(state (proc_at s' i), chan (proc_at s' i), pid (proc_at s' i)) = (state (proc_at s i), chan (proc_at s i), pid (proc_at s i))"
    if "i < length (procs s)"
    using arg_cong [OF m, of "\<lambda>xs. xs ! i"] that l by simp
  then show "i < length (procs s) \<Longrightarrow> state (proc_at s' i) = state (proc_at s i)"
    "i < length (procs s) \<Longrightarrow> chan (proc_at s' i) = chan (proc_at s i)"
    "i < length (procs s) \<Longrightarrow> pid (proc_at s' i) = pid (proc_at s i)" by simp_all
qed

lemma sview_upd:
  assumes "i < length (procs s)" "\<And>p. pid (g p) = pid p" "state (g (proc_at s i)) = st" "chan (g (proc_at s i)) = ch"
  shows "sview (upd i g s) = (vset i st ch (fst (sview s)), cur s)"
  using assms by (simp add: sview_def upd_def vset_def map_update)

section \<open>The operations on the scheduling state\<close>

lemma sched_out_view: "pc (sched_out i s) (\<lambda>s'. sview s' = sview s \<and> state (proc_at s i) \<noteq> RUNNING)"
  by (cases "i < length (procs s)")
    (auto simp: sched_out_def sview_def upd_def map_update list_update_same_conv intro!: nth_equalityI)

lemma scheduler_back_view: "pc (scheduler_back i s) (\<lambda>s'. sview s' = (fst (sview s), None))"
  using keeps_punlock [of i "s\<lparr>cur := None\<rparr>"] by (simp add: scheduler_back_def sview_def)

text \<open>The scheduler runs a runnable process, or leaves everything as it was.\<close>

lemma pick_view:
  assumes "i < length (procs s)"
  shows "pc (scheduler_pick i s) (\<lambda>s'. sview s' =
     (if state (proc_at s i) = RUNNABLE then (vset i RUNNING (chan (proc_at s i)) (fst (sview s)), Some i) else sview s))"
proof -
  have "pc (if state (proc_at t i) = RUNNABLE then Inr ((upd i (\<lambda>p. p\<lparr>state := RUNNING\<rparr>) t)\<lparr>cur := Some i\<rparr>) else punlock i t)
      (\<lambda>s'. sview s' = (if state (proc_at s i) = RUNNABLE then (vset i RUNNING (chan (proc_at s i)) (fst (sview s)), Some i) else sview s))"
    if t: "sview t = sview s" for t
  proof (cases "state (proc_at s i) = RUNNABLE")
    case True
    have "sview (upd i (\<lambda>p. p\<lparr>state := RUNNING\<rparr>) t) = (vset i RUNNING (chan (proc_at s i)) (fst (sview s)), cur t)"
      using sview_eqD [OF t] assms sview_upd [of i t "\<lambda>p. p\<lparr>state := RUNNING\<rparr>" RUNNING "chan (proc_at s i)"] t by simp
    then show ?thesis using True sview_eqD(3) [OF t assms] by (simp add: sview_def)
  next
    case False
    then show ?thesis using keeps_punlock [of i t] sview_eqD(3) [OF t assms] t by simp
  qed
  then show ?thesis unfolding scheduler_pick_def pc_simps by (rule pc_mono [OF keeps_plock])
qed

text \<open>Giving up the hart: the process on it gets the state \<open>st\<close> and the channel \<open>ch\<close>.\<close>

definition off_view :: "nat \<Rightarrow> procstate \<Rightarrow> chan \<Rightarrow> 'f pst \<Rightarrow> 'f pst \<Rightarrow> bool" where
  "off_view i st ch s s' \<longleftrightarrow> cur s = Some i \<and> sview s' = (vset i st ch (fst (sview s)), None)"

lemma yield_view:
  assumes "\<forall>i. cur s = Some i \<longrightarrow> i < length (procs s)"
  shows "pc (yield_start s) (\<lambda>s'. \<exists>i. off_view i RUNNABLE (chan (proc_at s i)) s s')"
proof (cases "cur s")
  case (Some i)
  then have i: "i < length (procs s)" using assms by simp
  have "pc (kbind (sched_out i (upd i (\<lambda>p. p\<lparr>state := RUNNABLE\<rparr>) t)) (scheduler_back i))
      (\<lambda>s'. \<exists>i. off_view i RUNNABLE (chan (proc_at s i)) s s')" if t: "sview t = sview s" for t
  proof -
    have v: "sview (upd i (\<lambda>p. p\<lparr>state := RUNNABLE\<rparr>) t) = (vset i RUNNABLE (chan (proc_at s i)) (fst (sview s)), cur t)"
      using sview_eqD [OF t] i sview_upd [of i t "\<lambda>p. p\<lparr>state := RUNNABLE\<rparr>" RUNNABLE "chan (proc_at s i)"] t by simp
    show ?thesis
      unfolding pc_simps
      by (rule pc_mono [OF sched_out_view], rule pc_mono [OF scheduler_back_view]) (use v Some in \<open>auto simp: off_view_def\<close>)
  qed
  then show ?thesis using Some by (auto simp: yield_start_def myproc_def intro: pc_mono [OF keeps_plock])
qed (simp add: yield_start_def myproc_def)

lemma sleep_view:
  assumes "\<forall>i. cur s = Some i \<longrightarrow> i < length (procs s)" "keeps_view rel"
  shows "pc (sleep_start ch rel s) (\<lambda>s'. \<exists>i. off_view i SLEEPING ch s s')"
proof (cases "cur s")
  case (Some i)
  then have i: "i < length (procs s)" using assms by simp
  have go: "pc (kbind (sched_out i (upd i (\<lambda>p. p\<lparr>chan := ch, state := SLEEPING\<rparr>) t)) (scheduler_back i))
      (\<lambda>s'. \<exists>i. off_view i SLEEPING ch s s')" if t: "sview t = sview s" for t
  proof -
    have v: "sview (upd i (\<lambda>p. p\<lparr>chan := ch, state := SLEEPING\<rparr>) t) = (vset i SLEEPING ch (fst (sview s)), cur t)"
      using sview_eqD [OF t] i sview_upd [of i t "\<lambda>p. p\<lparr>chan := ch, state := SLEEPING\<rparr>" SLEEPING ch] t by simp
    show ?thesis
      unfolding pc_simps
      by (rule pc_mono [OF sched_out_view], rule pc_mono [OF scheduler_back_view]) (use v Some in \<open>auto simp: off_view_def\<close>)
  qed
  have rel: "pc (rel t) (\<lambda>t'. sview t' = sview t)" for t using assms(2) by (simp add: keeps_view_def)
  have "pc (kbind (plock i s) (\<lambda>s. kbind (rel s) (\<lambda>s. kbind (sched_out i (upd i (\<lambda>p. p\<lparr>chan := ch, state := SLEEPING\<rparr>) s)) (scheduler_back i))))
      (\<lambda>s'. \<exists>i. off_view i SLEEPING ch s s')"
    unfolding pc_simps(3) [of "plock i s"] pc_simps(3) [of "rel _"]
    by (rule pc_mono [OF keeps_plock], rule pc_mono [OF rel], rule go) simp
  then show ?thesis using Some by (simp add: sleep_start_def myproc_def del: pc_simps(3))
qed (simp add: sleep_start_def myproc_def)

text \<open>Waking: some sleepers that satisfy \<open>P\<close> (of channel and pid) become runnable, nothing else changes.\<close>

definition wakes :: "(chan \<Rightarrow> int \<Rightarrow> bool) \<Rightarrow> 'f pst \<Rightarrow> 'f pst \<Rightarrow> bool" where
  "wakes P s s' \<longleftrightarrow> cur s' = cur s \<and> length (procs s') = length (procs s) \<and>
     (\<forall>j < length (procs s). chan (proc_at s' j) = chan (proc_at s j) \<and> pid (proc_at s' j) = pid (proc_at s j) \<and>
        (state (proc_at s' j) = state (proc_at s j) \<or>
         state (proc_at s j) = SLEEPING \<and> state (proc_at s' j) = RUNNABLE \<and> P (chan (proc_at s j)) (pid (proc_at s j))))"

lemma wakes_refl: "wakes P s s"
  by (simp add: wakes_def)

lemma wakes_trans: "wakes P s t \<Longrightarrow> wakes P t u \<Longrightarrow> wakes P s u"
  unfolding wakes_def by (auto; metis procstate.distinct)

lemma wakes_view: "sview t = sview s \<Longrightarrow> wakes P s t"
  using sview_eqD [of t s] by (simp add: wakes_def)

lemma wakes_upd:
  assumes "\<And>p. chan (g p) = chan p \<and> pid (g p) = pid p"
    and "state (g (proc_at s i)) = state (proc_at s i) \<or>
      state (proc_at s i) = SLEEPING \<and> state (g (proc_at s i)) = RUNNABLE \<and> P (chan (proc_at s i)) (pid (proc_at s i))"
  shows "wakes P s (upd i g s)"
proof (cases "i < length (procs s)")
  case True
  then show ?thesis using assms by (simp add: wakes_def upd_def nth_list_update)
qed (simp add: wakes_def upd_def list_update_beyond not_less)

lemma wake1_wakes:
  fixes s :: "'f pst"
  shows "pc (wake1 ch i s) (wakes (\<lambda>c n. c = ch) s)"
proof -
  have "pc (punlock i (if state (proc_at t i) = SLEEPING \<and> chan (proc_at t i) = ch then upd i (\<lambda>p. p\<lparr>state := RUNNABLE\<rparr>) t else t))
      (wakes (\<lambda>c n. c = ch) s)" if t: "sview t = sview s" for t :: "'f pst"
  proof (rule pc_mono [OF keeps_punlock])
    fix u :: "'f pst"
    let ?t = "if state (proc_at t i) = SLEEPING \<and> chan (proc_at t i) = ch then upd i (\<lambda>p. p\<lparr>state := RUNNABLE\<rparr>) t else t"
    assume u: "sview u = sview ?t"
    have "wakes (\<lambda>c n. c = ch) t ?t" by (auto intro: wakes_refl wakes_upd)
    then show "wakes (\<lambda>c n. c = ch) s u" using wakes_view [OF t] wakes_view [OF u] wakes_trans by blast
  qed
  from pc_mono [OF keeps_plock this]
  have "pc (kbind (plock i s) (\<lambda>s. punlock i (if state (proc_at s i) = SLEEPING \<and> chan (proc_at s i) = ch
      then upd i (\<lambda>p. p\<lparr>state := RUNNABLE\<rparr>) s else s))) (wakes (\<lambda>c n. c = ch) s)" by (simp only: pc_simps(3))
  then show ?thesis by (simp only: wake1_def wakes_refl pc_simps(1) split: if_split) simp
qed

lemma wakeup_wakes: "pc (wakeup ch s) (wakes (\<lambda>c n. c = ch) s)"
  unfolding wakeup_def
  by (rule pc_kfold) (auto intro: wakes_refl pc_mono [OF wake1_wakes] wakes_trans)

lemma kill_loop_wakes:
  fixes s :: "'f pst"
  shows "pc (kill_loop n is s) (\<lambda>(r, s'). wakes (\<lambda>c m. m = n) s s')"
proof (induction "is" arbitrary: s)
  case (Cons i "is")
  have "pc (if pid (proc_at t i) = n
       then let s = upd i (\<lambda>p. p\<lparr>killed := 1\<rparr>) t;
                s = (if state (proc_at s i) = SLEEPING then upd i (\<lambda>p. p\<lparr>state := RUNNABLE\<rparr>) s else s)
            in kbind (punlock i s) (\<lambda>s. Inr (0, s))
       else kbind (punlock i t) (kill_loop n is)) (\<lambda>(r, s'). wakes (\<lambda>c m. m = n) s s')" if t: "sview t = sview s" for t :: "'f pst"
  proof (cases "pid (proc_at t i) = n")
    case True
    let ?t = "upd i (\<lambda>p. p\<lparr>killed := 1\<rparr>) t"
    let ?u = "if state (proc_at ?t i) = SLEEPING then upd i (\<lambda>p. p\<lparr>state := RUNNABLE\<rparr>) ?t else ?t"
    have 1: "wakes (\<lambda>c m. m = n) t ?t" by (rule wakes_upd) simp_all
    have "pid (proc_at ?t i) = n" using True by (cases "i < length (procs t)") (simp_all add: upd_def list_update_beyond not_less)
    then have "wakes (\<lambda>c m. m = n) ?t ?u" by (auto intro: wakes_refl wakes_upd)
    then have "wakes (\<lambda>c m. m = n) s ?u" using wakes_view [OF t] 1 wakes_trans by blast
    then have "pc (punlock i ?u) (\<lambda>s'. wakes (\<lambda>c m. m = n) s s')"
      by (intro pc_mono [OF keeps_punlock]) (blast intro: wakes_trans wakes_view)
    then show ?thesis using True by (simp add: Let_def)
  next
    case False
    have "pc (punlock i t) (\<lambda>u. pc (kill_loop n is u) (\<lambda>(r, s'). wakes (\<lambda>c m. m = n) s s'))"
    proof (rule pc_mono [OF keeps_punlock])
      fix u :: "'f pst"
      assume "sview u = sview t"
      then have "wakes (\<lambda>c m. m = n) s u" using t by (intro wakes_view) simp
      then show "pc (kill_loop n is u) (\<lambda>(r, s'). wakes (\<lambda>c m. m = n) s s')"
        using Cons.IH [of u] by (auto elim!: pc_mono intro: wakes_trans)
    qed
    then show ?thesis using False by simp
  qed
  then show ?case
    unfolding kill_loop.simps pc_simps(3) [of "plock i s"] by (rule pc_mono [OF keeps_plock])
qed (simp add: wakes_refl)

lemma yield_end_view: "pc (yield_end s) (\<lambda>s'. sview s' = sview s)"
  using keeps_punlock [of _ "sched_in _ s"] by (cases "cur s") (auto simp: yield_end_def myproc_def sched_in_def)

lemma sleep_end_view:
  assumes "keeps_view acq" "\<forall>i. cur s = Some i \<longrightarrow> i < length (procs s)"
  shows "pc (sleep_end acq s) (\<lambda>s'. \<exists>i. cur s = Some i \<and> sview s' = (vset i (state (proc_at s i)) NoChan (fst (sview s)), Some i))"
proof (cases "cur s")
  case (Some i)
  let ?t = "upd i (\<lambda>p. p\<lparr>chan := NoChan\<rparr>) (sched_in i s)"
  have v: "sview ?t = (vset i (state (proc_at s i)) NoChan (fst (sview s)), Some i)"
    using Some assms(2) sview_upd [of i "sched_in i s" "\<lambda>p. p\<lparr>chan := NoChan\<rparr>" "state (proc_at s i)" NoChan]
    by (simp add: sched_in_def)
  have acq: "pc (acq t) (\<lambda>t'. sview t' = sview t)" for t using assms(1) by (simp add: keeps_view_def)
  show ?thesis
    using Some v by (auto simp: sleep_end_def myproc_def intro!: pc_mono [OF keeps_punlock] pc_mono [OF acq])
qed (simp add: sleep_end_def myproc_def)

section \<open>The step relation\<close>

datatype label = Pick nat | Yield | YieldEnd | Sleep chan | SleepEnd | Wake chan | Kill int

inductive pstep :: "label \<Rightarrow> 'f pst \<Rightarrow> 'f pst \<Rightarrow> bool" where
  pick: "cur s = None \<Longrightarrow> i < NPROC \<Longrightarrow> scheduler_pick i s = Inr s' \<Longrightarrow> pstep (Pick i) s s'"
| yield: "yield_start s = Inr s' \<Longrightarrow> pstep Yield s s'"
| yield_end: "yield_end s = Inr s' \<Longrightarrow> pstep YieldEnd s s'"
| sleep: "keeps_view rel \<Longrightarrow> sleep_start ch rel s = Inr s' \<Longrightarrow> pstep (Sleep ch) s s'"
| sleep_end: "keeps_view acq \<Longrightarrow> sleep_end acq s = Inr s' \<Longrightarrow> pstep SleepEnd s s'"
| wake: "wakeup ch s = Inr s' \<Longrightarrow> pstep (Wake ch) s s'"
| kill: "kill n s = Inr (r, s') \<Longrightarrow> pstep (Kill n) s s'"

inductive preach :: "'f pst \<Rightarrow> 'f pst \<Rightarrow> bool" for s where
  here: "preach s s"
| step: "preach s t \<Longrightarrow> pstep l t u \<Longrightarrow> preach s u"

text \<open>The process on the hart is in the table and is the one in state \<^verbatim>\<open>RUNNING\<close>.\<close>

definition run_inv :: "'f pst \<Rightarrow> bool" where
  "run_inv s \<longleftrightarrow> length (procs s) = NPROC \<and> (\<forall>i. cur s = Some i \<longrightarrow> i < NPROC) \<and>
     (\<forall>i < NPROC. state (proc_at s i) = RUNNING \<longleftrightarrow> cur s = Some i)"

lemma pc_Inr: "pc m P \<Longrightarrow> m = Inr x \<Longrightarrow> P x"
  by simp

lemma sview_vset:
  assumes "sview s' = (vset i st ch (fst (sview s)), c)" "i < length (procs s)"
  shows "cur s' = c" "length (procs s') = length (procs s)"
    "j < length (procs s) \<Longrightarrow> state (proc_at s' j) = (if j = i then st else state (proc_at s j))"
proof -
  have m: "map (\<lambda>p. (state p, chan p, pid p)) (procs s') = vset i st ch (map (\<lambda>p. (state p, chan p, pid p)) (procs s))" "cur s' = c"
    using assms(1) by (simp_all add: sview_def)
  show "cur s' = c" by (rule m(2))
  show l: "length (procs s') = length (procs s)" using arg_cong [OF m(1), of length] by (simp add: vset_def)
  show "state (proc_at s' j) = (if j = i then st else state (proc_at s j))" if "j < length (procs s)"
    using arg_cong [OF m(1), of "\<lambda>xs. fst (xs ! j)"] that l assms(2) by (auto simp: vset_def nth_list_update)
qed

lemma run_inv_wakes: "wakes P s s' \<Longrightarrow> run_inv s \<Longrightarrow> run_inv s'"
  by (auto simp: wakes_def run_inv_def; metis procstate.distinct)

lemma run_inv_off: "off_view i st ch s s' \<Longrightarrow> st \<noteq> RUNNING \<Longrightarrow> run_inv s \<Longrightarrow> run_inv s'"
  using sview_vset [of s' i st ch s None] by (auto simp: off_view_def run_inv_def)

lemma run_inv_view: "sview s' = sview s \<Longrightarrow> run_inv s \<Longrightarrow> run_inv s'"
  using sview_eqD [of s' s] by (auto simp: run_inv_def)

lemma run_inv_step:
  assumes "run_inv s" "pstep l s s'"
  shows "run_inv s'"
  using assms(2)
proof cases
  case (pick i)
  have i: "i < length (procs s)" using pick(3) assms(1) by (simp add: run_inv_def)
  from pc_Inr [OF pick_view [OF i] pick(4)] show ?thesis
    using sview_vset [of s' i RUNNING "chan (proc_at s i)" s "Some i"] i assms(1) pick(2,3) run_inv_view [of s' s]
    by (auto simp: run_inv_def split: if_splits)
next
  case yield
  have "\<forall>i. cur s = Some i \<longrightarrow> i < length (procs s)" using assms(1) by (simp add: run_inv_def)
  from pc_Inr [OF yield_view [OF this] yield(2)] show ?thesis using assms(1) by (blast intro: run_inv_off)
next
  case yield_end
  with pc_Inr [OF yield_end_view yield_end(2)] assms(1) show ?thesis by (blast intro: run_inv_view)
next
  case (sleep rel ch)
  have "\<forall>i. cur s = Some i \<longrightarrow> i < length (procs s)" using assms(1) by (simp add: run_inv_def)
  from pc_Inr [OF sleep_view [OF this sleep(2)] sleep(3)] show ?thesis using assms(1) by (blast intro: run_inv_off)
next
  case (sleep_end acq)
  have "\<forall>i. cur s = Some i \<longrightarrow> i < length (procs s)" using assms(1) by (simp add: run_inv_def)
  from pc_Inr [OF sleep_end_view [OF sleep_end(2) this] sleep_end(3)] obtain i where
    i: "cur s = Some i" "sview s' = (vset i (state (proc_at s i)) NoChan (fst (sview s)), Some i)" by blast
  then show ?thesis using sview_vset [OF i(2)] assms(1) by (auto simp: run_inv_def)
next
  case (wake ch)
  from pc_Inr [OF wakeup_wakes wake(2)] show ?thesis using assms(1) by (rule run_inv_wakes)
next
  case (kill n r)
  from pc_Inr [OF kill_loop_wakes kill(2) [unfolded kill_def]] show ?thesis using assms(1) run_inv_wakes by auto
qed

lemma run_inv_reach: "preach s t \<Longrightarrow> run_inv s \<Longrightarrow> run_inv t"
  by (induction rule: preach.induct) (blast intro: run_inv_step)+

text \<open>A process leaves its sleep only by a wakeup on its channel or by a kill.\<close>

lemma off_view_state: "off_view i st ch s s' \<Longrightarrow> run_inv s \<Longrightarrow> j < NPROC \<Longrightarrow> state (proc_at s j) = SLEEPING \<Longrightarrow> state (proc_at s' j) = SLEEPING"
  using sview_vset [of s' i st ch s None] by (auto simp: off_view_def run_inv_def)

lemma leaves_sleep:
  assumes inv: "run_inv s" and step: "pstep l s s'" and j: "j < NPROC" "state (proc_at s j) = SLEEPING" "state (proc_at s' j) \<noteq> SLEEPING"
  shows "state (proc_at s' j) = RUNNABLE \<and> (l = Wake (chan (proc_at s j)) \<or> l = Kill (pid (proc_at s j)))"
proof -
  have len: "\<forall>i. cur s = Some i \<longrightarrow> i < length (procs s)" "j < length (procs s)" using inv j(1) by (simp_all add: run_inv_def)
  from step show ?thesis
  proof cases
    case (pick i)
    have i: "i < length (procs s)" using pick(3) inv by (simp add: run_inv_def)
    from pc_Inr [OF pick_view [OF i] pick(4)] show ?thesis
      using sview_vset [of s' i RUNNING "chan (proc_at s i)" s "Some i"] sview_eqD(3) [of s' s j] i j len
      by (auto split: if_splits)
  next
    case yield
    from pc_Inr [OF yield_view [OF len(1)] yield(2)] show ?thesis using off_view_state [OF _ inv j(1,2)] j(3) by blast
  next
    case yield_end
    from pc_Inr [OF yield_end_view yield_end(2)] show ?thesis using sview_eqD(3) [of s' s j] len j by simp
  next
    case (sleep rel ch)
    from pc_Inr [OF sleep_view [OF len(1) sleep(2)] sleep(3)] show ?thesis using off_view_state [OF _ inv j(1,2)] j(3) by blast
  next
    case (sleep_end acq)
    from pc_Inr [OF sleep_end_view [OF sleep_end(2) len(1)] sleep_end(3)] obtain i where
      i: "cur s = Some i" "sview s' = (vset i (state (proc_at s i)) NoChan (fst (sview s)), Some i)" by blast
    then show ?thesis using sview_vset(3) [OF i(2)] len j by (auto split: if_splits)
  next
    case (wake ch)
    from pc_Inr [OF wakeup_wakes wake(2)] show ?thesis using wake(1) len j by (auto simp: wakes_def)
  next
    case (kill n r)
    from pc_Inr [OF kill_loop_wakes kill(2) [unfolded kill_def]] show ?thesis using kill(1) len j by (auto simp: wakes_def)
  qed
qed

end
