(* ===== verification/CString.thy ===== *)
theory CString
  imports Prelude
begin

text \<open>
  Memory and string routines of the kernel (\<^verbatim>\<open>kernel/string.c\<close>) and of user programs (\<^verbatim>\<open>user/ulib.c\<close>),
  on a memory of bytes. A loop that looks for a null which is not there does not return: \<open>None\<close>.
\<close>

section \<open>Memory\<close>

type_synonym cmem = "nat \<Rightarrow> uchar"

fun memset_loop :: "nat \<Rightarrow> uchar \<Rightarrow> nat \<Rightarrow> cmem \<Rightarrow> cmem" where
  "memset_loop d c 0 m = m"
| "memset_loop d c (Suc n) m = memset_loop (d + 1) c n (m(d := c))"

definition memset :: "nat \<Rightarrow> int \<Rightarrow> nat \<Rightarrow> cmem \<Rightarrow> cmem" where
  "memset dst c n m = memset_loop dst (word_of_int c) n m"

fun memcmp :: "nat \<Rightarrow> nat \<Rightarrow> nat \<Rightarrow> cmem \<Rightarrow> int" where
  "memcmp p q 0 m = 0"
| "memcmp p q (Suc n) m = (if m p \<noteq> m q then uint (m p) - uint (m q) else memcmp (p + 1) (q + 1) n m)"

text \<open>The two loops of \<^verbatim>\<open>memmove\<close>: forwards, and backwards from the ends.\<close>

fun copy_up :: "nat \<Rightarrow> nat \<Rightarrow> nat \<Rightarrow> cmem \<Rightarrow> cmem" where
  "copy_up d s 0 m = m"
| "copy_up d s (Suc n) m = copy_up (d + 1) (s + 1) n (m(d := m s))"

fun copy_down :: "nat \<Rightarrow> nat \<Rightarrow> nat \<Rightarrow> cmem \<Rightarrow> cmem" where
  "copy_down d s 0 m = m"
| "copy_down d s (Suc n) m = copy_down (d - 1) (s - 1) n (m(d - 1 := m (s - 1)))"

definition memmove :: "nat \<Rightarrow> nat \<Rightarrow> nat \<Rightarrow> cmem \<Rightarrow> cmem" where
  "memmove dst src n m =
     (if n = 0 then m
      else if src < dst \<and> src + n > dst then copy_down (dst + n) (src + n) n m
      else copy_up dst src n m)"

text \<open>The version of user programs, whose length is an \<^verbatim>\<open>int\<close>.\<close>

definition umemmove :: "nat \<Rightarrow> nat \<Rightarrow> int \<Rightarrow> cmem \<Rightarrow> cmem" where
  "umemmove dst src n m =
     (if src > dst then copy_up dst src (nat n) m
      else copy_down (nat (int dst + n)) (nat (int src + n)) (nat n) m)"

section \<open>Strings\<close>

partial_function (option) strlen_loop :: "cmem \<Rightarrow> nat \<Rightarrow> nat \<Rightarrow> nat option" where
  "strlen_loop m s n = (if m (s + n) = 0 then Some n else strlen_loop m s (n + 1))"

definition strlen :: "cmem \<Rightarrow> nat \<Rightarrow> nat option" where
  "strlen m s = strlen_loop m s 0"

fun strncmp :: "cmem \<Rightarrow> nat \<Rightarrow> nat \<Rightarrow> nat \<Rightarrow> int" where
  "strncmp m p q 0 = 0"
| "strncmp m p q (Suc n) =
     (if m p \<noteq> 0 \<and> m p = m q then strncmp m (p + 1) (q + 1) n else uint (m p) - uint (m q))"

text \<open>The loops of \<^verbatim>\<open>strncpy\<close>: copy up to and with the null, then pad.\<close>

fun strncpy_loop :: "nat \<Rightarrow> nat \<Rightarrow> nat \<Rightarrow> cmem \<Rightarrow> cmem" where
  "strncpy_loop s t 0 m = m"
| "strncpy_loop s t (Suc n) m =
     (let m' = m(s := m t) in if m t \<noteq> 0 then strncpy_loop (s + 1) (t + 1) n m' else memset_loop (s + 1) 0 n m')"

definition strncpy :: "nat \<Rightarrow> nat \<Rightarrow> int \<Rightarrow> cmem \<Rightarrow> cmem" where
  "strncpy s t n m = strncpy_loop s t (nat n) m"

text \<open>\<open>n\<close> counts the rounds that \<^verbatim>\<open>--n > 0\<close> still allows.\<close>

fun safestrcpy_loop :: "nat \<Rightarrow> nat \<Rightarrow> nat \<Rightarrow> cmem \<Rightarrow> cmem" where
  "safestrcpy_loop s t 0 m = m(s := 0)"
| "safestrcpy_loop s t (Suc n) m =
     (let m' = m(s := m t) in if m t \<noteq> 0 then safestrcpy_loop (s + 1) (t + 1) n m' else m'(s + 1 := 0))"

definition safestrcpy :: "nat \<Rightarrow> nat \<Rightarrow> int \<Rightarrow> cmem \<Rightarrow> cmem" where
  "safestrcpy s t n m = (if n \<le> 0 then m else safestrcpy_loop s t (nat (n - 1)) m)"

text \<open>\<^verbatim>\<open>strcpy\<close>, and with the null written after the loop the second half of \<^verbatim>\<open>strcat\<close>.\<close>

partial_function (option) strcpy :: "nat \<Rightarrow> nat \<Rightarrow> cmem \<Rightarrow> cmem option" where
  "strcpy s t m = (let m' = m(s := m t) in if m t \<noteq> 0 then strcpy (s + 1) (t + 1) m' else Some m')"

partial_function (option) strcat_loop :: "nat \<Rightarrow> nat \<Rightarrow> cmem \<Rightarrow> cmem option" where
  "strcat_loop os s m = (if m s \<noteq> 0 then strcat_loop (os + 1) (s + 1) (m(os := m s)) else Some (m(os := 0)))"

definition strcat :: "nat \<Rightarrow> nat \<Rightarrow> cmem \<Rightarrow> cmem option" where
  "strcat s t m = Option.bind (strlen m s) (\<lambda>k. strcat_loop (s + k) t m)"

partial_function (option) strcmp :: "cmem \<Rightarrow> nat \<Rightarrow> nat \<Rightarrow> int option" where
  "strcmp m p q = (if m p \<noteq> 0 \<and> m p = m q then strcmp m (p + 1) (q + 1) else Some (uint (m p) - uint (m q)))"

text \<open>\<^verbatim>\<open>strchr\<close> returns an address; the null pointer is 0.\<close>

partial_function (option) strchr :: "cmem \<Rightarrow> nat \<Rightarrow> uchar \<Rightarrow> nat option" where
  "strchr m s c = (if m s = 0 then Some 0 else if m s = c then Some s else strchr m (s + 1) c)"

section \<open>Numbers\<close>

definition digits :: "uchar list" where
  "digits = [48, 49, 50, 51, 52, 53, 54, 55, 56, 57, 97, 98, 99, 100, 101, 102, 0]"

text \<open>The digits, last one first, in a buffer of 16 bytes.\<close>

function itoa_digits :: "int \<Rightarrow> int \<Rightarrow> uchar list \<Rightarrow> uchar list res" where
  "itoa_digits xx base buf =
     (let r = xx smod base; xx' = i32 (xx sdiv base) in
      if length buf \<ge> 16 \<or> base = 0 \<or> r < 0 \<or> nat r \<ge> length digits then Inl BadAccess
      else if xx' = 0 then Inr (buf @ [digits ! nat r])
      else itoa_digits xx' base (buf @ [digits ! nat r]))"
  by pat_completeness auto
termination by (relation "measure (\<lambda>(_, _, buf). 16 - length buf)") auto

declare itoa_digits.simps [simp del]

fun put_bytes :: "nat \<Rightarrow> uchar list \<Rightarrow> cmem \<Rightarrow> cmem" where
  "put_bytes a [] m = m"
| "put_bytes a (b # bs) m = put_bytes (a + 1) bs (m(a := b))"

text \<open>\<^verbatim>\<open>itoa\<close> appends to the string at \<open>a\<close>.\<close>

definition itoa :: "int \<Rightarrow> int \<Rightarrow> nat \<Rightarrow> cmem \<Rightarrow> cmem res" where
  "itoa xx base a m =
     kbind (itoa_digits xx base []) (\<lambda>buf.
     case strlen m a of None \<Rightarrow> Inl BadAccess
     | Some k \<Rightarrow> Inr (put_bytes (a + k) (rev buf @ [0]) m))"

partial_function (option) atoi_loop :: "cmem \<Rightarrow> nat \<Rightarrow> int \<Rightarrow> int option" where
  "atoi_loop m s n = (if 48 \<le> m s \<and> m s \<le> 57 then atoi_loop m (s + 1) (i32 (i32 (n * 10) + uint (m s) - 48)) else Some n)"

definition atoi :: "cmem \<Rightarrow> nat \<Rightarrow> int option" where
  "atoi m s = atoi_loop m s 0"

section \<open>Moving memory\<close>

lemma uint_inj: "uint a = uint b \<longleftrightarrow> a = b"
  by (simp add: word_uint_eq_iff)

text \<open>What a move means: the destination holds what the source held before, wherever they overlap.\<close>

definition moved :: "nat \<Rightarrow> nat \<Rightarrow> nat \<Rightarrow> cmem \<Rightarrow> cmem" where
  "moved dst src n m = (\<lambda>a. if dst \<le> a \<and> a < dst + n then m (src + (a - dst)) else m a)"

lemma copy_up_moved: "\<not> (s < d \<and> d < s + n) \<Longrightarrow> copy_up d s n m = moved d s n m"
proof (induction n arbitrary: d s m)
  case 0
  show ?case by (rule ext) (auto simp: moved_def)
next
  case (Suc n)
  have "copy_up (d + 1) (s + 1) n (m(d := m s)) = moved (d + 1) (s + 1) n (m(d := m s))"
    using Suc.prems by (intro Suc.IH) auto
  moreover have "moved (d + 1) (s + 1) n (m(d := m s)) a = moved d s (Suc n) m a" for a
  proof (cases "d + 1 \<le> a")
    case True
    then have "s + 1 + (a - (d + 1)) = s + (a - d)" by simp
    moreover have "a < d + 1 + n \<Longrightarrow> s + (a - d) \<noteq> d" using Suc.prems True by auto
    ultimately show ?thesis using True by (simp add: moved_def)
  next
    case False
    then show ?thesis by (cases "a = d") (simp_all add: moved_def)
  qed
  ultimately show ?case by auto
qed

lemma copy_down_moved: "\<not> (d < s \<and> s < d + n) \<Longrightarrow> copy_down (d + n) (s + n) n m = moved d s n m"
proof (induction n arbitrary: m)
  case 0
  show ?case by (rule ext) (auto simp: moved_def)
next
  case (Suc n)
  have "copy_down (d + n) (s + n) n (m(d + n := m (s + n))) = moved d s n (m(d + n := m (s + n)))"
    using Suc.prems by (intro Suc.IH) auto
  moreover have "moved d s n (m(d + n := m (s + n))) a = moved d s (Suc n) m a" for a
  proof (cases "d \<le> a \<and> a < d + n")
    case True
    then have "s + (a - d) \<noteq> d + n" using Suc.prems by auto
    then show ?thesis using True by (simp add: moved_def)
  next
    case False
    then show ?thesis by (cases "a = d + n") (auto simp: moved_def)
  qed
  ultimately show ?case by auto
qed

lemma memset_loop_eq: "memset_loop d c n m = (\<lambda>a. if d \<le> a \<and> a < d + n then c else m a)"
  by (induction n arbitrary: d m) (auto simp: fun_eq_iff)

lemma memcmp_zero: "memcmp p q n m = 0 \<longleftrightarrow> (\<forall>i < n. m (p + i) = m (q + i))"
proof (induction n arbitrary: p q)
  case (Suc n)
  then show ?case by (simp add: All_less_Suc2 uint_inj)
qed simp

section \<open>Strings in memory\<close>

text \<open>The string \<open>s\<close>, without its null, stands at \<open>a\<close>.\<close>

fun cstr :: "cmem \<Rightarrow> nat \<Rightarrow> uchar list \<Rightarrow> bool" where
  "cstr m a [] \<longleftrightarrow> m a = 0"
| "cstr m a (c # s) \<longleftrightarrow> c \<noteq> 0 \<and> m a = c \<and> cstr m (a + 1) s"

lemma cstr_cong: "(\<And>i. i \<le> length s \<Longrightarrow> m' (a + i) = m (a + i)) \<Longrightarrow> cstr m' a s = cstr m a s"
proof (induction s arbitrary: a)
  case Nil
  then show ?case by simp
next
  case (Cons c s)
  from Cons.prems [of 0] Cons.prems [of "Suc i" for i] Cons.IH [of "a + 1"] show ?case by simp
qed

lemma strlen_loop_cstr: "cstr m (a + n) s \<Longrightarrow> strlen_loop m a n = Some (n + length s)"
proof (induction s arbitrary: n)
  case Nil
  then show ?case by (simp add: strlen_loop.simps [of m a n])
next
  case (Cons c s)
  then show ?case using Cons.IH [of "Suc n"] by (auto simp: strlen_loop.simps [of m a n])
qed

lemma strlen_cstr: "cstr m a s \<Longrightarrow> strlen m a = Some (length s)"
  using strlen_loop_cstr [of m a 0 s] by (simp add: strlen_def)

lemma put_bytes_eq: "put_bytes a bs m = (\<lambda>x. if a \<le> x \<and> x < a + length bs then bs ! (x - a) else m x)"
proof (induction bs arbitrary: a m)
  case (Cons b bs)
  then show ?case by (auto simp: fun_eq_iff nth_Cons' Suc_diff_Suc)
qed (rule ext, auto)

lemma put_bytes_cstr: "0 \<notin> set bs \<Longrightarrow> cstr (put_bytes a (bs @ [0]) m) a bs"
proof (induction bs arbitrary: a m)
  case (Cons b bs)
  have "put_bytes (a + 1) (bs @ [0]) (m(a := b)) a = b" by (simp add: put_bytes_eq)
  then show ?case using Cons by simp
qed simp

lemma cstr_append:
  assumes "cstr m a s" "0 \<notin> set bs"
  shows "cstr (put_bytes (a + length s) (bs @ [0]) m) a (s @ bs)"
  using assms(1)
proof (induction s arbitrary: a)
  case Nil
  then show ?case using put_bytes_cstr [OF assms(2)] by simp
next
  case (Cons c s)
  have "put_bytes (a + length (c # s)) (bs @ [0]) m a = m a" by (simp add: put_bytes_eq)
  then show ?case using Cons.IH [of "a + 1"] Cons.prems by simp
qed

section \<open>Comparing and copying strings\<close>

lemma strncmp_zero: "cstr m p s \<Longrightarrow> cstr m q t \<Longrightarrow> strncmp m p q n = 0 \<longleftrightarrow> take n s = take n t"
proof (induction n arbitrary: p q s t)
  case (Suc n)
  then show ?case by (cases s; cases t) (auto simp: uint_inj uint_0_iff)
qed simp

lemma strcmp_zero: "cstr m p s \<Longrightarrow> cstr m q t \<Longrightarrow> \<exists>r. strcmp m p q = Some r \<and> (r = 0 \<longleftrightarrow> s = t)"
proof (induction s arbitrary: p q t)
  case Nil
  then show ?case by (cases t) (auto simp: strcmp.simps [of m p] uint_inj uint_0_iff)
next
  case (Cons c s)
  then show ?case by (cases t) (auto simp: strcmp.simps [of m p] uint_inj uint_0_iff)
qed

text \<open>The copies need the source not to be overwritten before it is read.\<close>

lemma safestrcpy_loop_ok:
  assumes "cstr m t s" "t + length s < d \<or> d + n < t"
  shows "cstr (safestrcpy_loop d t n m) d (take n s) \<and>
    (\<forall>a. a < d \<or> d + n < a \<longrightarrow> safestrcpy_loop d t n m a = m a)"
  using assms
proof (induction n arbitrary: d t s m)
  case (Suc n)
  show ?case
  proof (cases s)
    case Nil
    then show ?thesis using Suc.prems by auto
  next
    case (Cons c u)
    let ?m = "m(d := m t)"
    have "cstr ?m (t + 1) u"
      using Suc.prems Cons by (subst cstr_cong [of u _ _ m]) auto
    with Suc.IH [of ?m "t + 1" u "d + 1"] Suc.prems Cons show ?thesis by (auto simp del: fun_upd_apply) (auto simp: fun_upd_apply)
  qed
qed simp

section \<open>Numbers as strings\<close>

text \<open>The value of a list of digits, the last one first.\<close>

fun val :: "int \<Rightarrow> uchar list \<Rightarrow> int" where
  "val b [] = 0"
| "val b (c # cs) = uint c - 48 + b * val b cs"

lemma digits_nth: "i < 10 \<Longrightarrow> digits ! i = of_nat (48 + i)"
proof -
  have "\<forall>i < 10. digits ! i = of_nat (48 + i)" by (simp add: digits_def All_less_Suc numeral_eq_Suc)
  then show "i < 10 \<Longrightarrow> ?thesis" by simp
qed

definition dig :: "int \<Rightarrow> uchar" where
  "dig x = of_nat (48 + nat (x mod 10))"

lemma uint_dig: "uint (dig x) = 48 + x mod 10"
proof -
  have r: "0 \<le> x mod 10" "x mod 10 < 10" by simp_all
  then have "take_bit 8 (48 + nat (x mod 10)) = 48 + nat (x mod 10)" by (intro take_bit_nat_eq_self) simp
  then show ?thesis unfolding dig_def using r(1) by (simp only: unsigned_of_nat) simp
qed

lemma dig_range: "48 \<le> dig x \<and> dig x \<le> 57"
  by (simp add: word_le_def uint_dig)

lemma itoa_digits_step:
  assumes "0 \<le> x" "x < 2 ^ 31" "length buf < 16"
  shows "itoa_digits x 10 buf = (if x div 10 = 0 then Inr (buf @ [dig x]) else itoa_digits (x div 10) 10 (buf @ [dig x]))"
proof -
  have d: "nat (x mod 10) < 10" by (simp add: nat_less_iff)
  have i: "i32 (x div 10) = x div 10" using assms by (intro i32_id) auto
  have l: "\<not> length digits \<le> nat (x mod 10)" using d by (simp add: digits_def)
  have e: "digits ! nat (x mod 10) = dig x" using digits_nth [OF d] by (simp add: dig_def)
  have c: "x smod 10 = x mod 10" "x sdiv 10 = x div 10" using assms by simp_all
  have n: "\<not> x mod 10 < 0" "\<not> 16 \<le> length buf" "(10 :: int) \<noteq> 0" using assms by simp_all
  show ?thesis
    unfolding itoa_digits.simps [of x 10 buf] Let_def c i e using l n by (simp only: if_False simp_thms)
qed

text \<open>Ten digits are enough for an \<^verbatim>\<open>int\<close>, so the buffer of \<^verbatim>\<open>itoa\<close> is large enough in base 10.\<close>

lemma itoa_digits_ok:
  assumes "0 \<le> x" "x < 2 ^ 31" "x < 10 ^ Suc k" "length buf + k < 16"
  shows "\<exists>ds. itoa_digits x 10 buf = Inr (buf @ ds) \<and> val 10 ds = x \<and> (\<forall>c \<in> set ds. 48 \<le> c \<and> c \<le> 57)"
  using assms
proof (induction k arbitrary: x buf)
  case 0
  then have "x div 10 = 0" "x mod 10 = x" by auto
  with 0 show ?case
    by (intro exI [of _ "[dig x]"]) (simp add: itoa_digits_step uint_dig dig_range)
next
  case (Suc k)
  have "x div 10 < c" if "x < 10 * c" for c :: int using that by linarith
  from this [of "10 ^ Suc k"] Suc.prems have small: "x div 10 < 2 ^ 31" "0 \<le> x div 10" "x div 10 < 10 ^ Suc k"
    by simp_all
  from Suc.IH [OF small(2,1,3), of "buf @ [dig x]"] Suc.prems(4)
  obtain ds where ds: "itoa_digits (x div 10) 10 (buf @ [dig x]) = Inr ((buf @ [dig x]) @ ds)" "val 10 ds = x div 10"
    "\<forall>c \<in> set ds. 48 \<le> c \<and> c \<le> 57" by auto
  have eq: "itoa_digits x 10 buf = (if x div 10 = 0 then Inr (buf @ [dig x]) else Inr ((buf @ [dig x]) @ ds))"
    using itoa_digits_step [OF Suc.prems(1,2), of buf] Suc.prems(4) by (simp add: ds(1))
  have x: "x mod 10 + 10 * (x div 10) = x" by simp
  show ?case
  proof (cases "x div 10 = 0")
    case True
    then show ?thesis using eq x by (intro exI [of _ "[dig x]"]) (auto simp: uint_dig dig_range)
  next
    case False
    then show ?thesis using eq ds(2,3) x by (intro exI [of _ "dig x # ds"]) (simp add: uint_dig dig_range)
  qed
qed

definition digit_step :: "int \<Rightarrow> uchar \<Rightarrow> int" where
  "digit_step n c = n * 10 + uint c - 48"

lemma digits_grow: "0 \<le> n \<Longrightarrow> \<forall>c \<in> set bs. 48 \<le> c \<and> c \<le> 57 \<Longrightarrow> n \<le> foldl digit_step n bs"
proof (induction bs arbitrary: n)
  case (Cons c bs)
  then have "n \<le> digit_step n c" by (simp add: digit_step_def word_le_def)
  then show ?case using Cons.IH [of "digit_step n c"] Cons.prems by simp
qed simp

lemma atoi_loop_digits:
  assumes "cstr m a bs" "\<forall>c \<in> set bs. 48 \<le> c \<and> c \<le> 57" "0 \<le> n" "foldl digit_step n bs < 2 ^ 31"
  shows "atoi_loop m a n = Some (foldl digit_step n bs)"
  using assms
proof (induction bs arbitrary: a n)
  case Nil
  then show ?case by (simp add: atoi_loop.simps [of m a])
next
  case (Cons c bs)
  let ?n = "digit_step n c"
  have n: "0 \<le> n * 10" "n * 10 \<le> ?n" "0 \<le> ?n" using Cons.prems by (auto simp: digit_step_def word_le_def)
  then have "?n < 2 ^ 31" using digits_grow [of ?n bs] Cons.prems by simp
  then have "i32 (i32 (n * 10) + uint c - 48) = ?n" using n by (simp add: digit_step_def)
  then show ?case using Cons.IH [of "a + 1" ?n] Cons.prems n by (simp add: atoi_loop.simps [of m a])
qed

lemma digits_value: "foldl digit_step 0 (rev ds) = val 10 ds"
  by (induction ds) (simp_all add: digit_step_def)

text \<open>The remainder of a negative number is negative or zero, and one of its digits is not zero.\<close>

lemma itoa_digits_negative: "x < 0 \<Longrightarrow> - (2 ^ 31) \<le> x \<Longrightarrow> itoa_digits x 10 buf = Inl BadAccess"
proof (induction "nat (- x)" arbitrary: x buf rule: less_induct)
  case less
  let ?q = "x sdiv 10" and ?r = "x smod 10"
  have e: "?q = - ((- x) div 10)" "?r = - ((- x) mod 10)"
    using less.prems(1) by (simp_all add: signed_divide_int_def signed_modulo_int_def)
  show ?case
  proof (cases "?r < 0")
    case True
    then show ?thesis by (subst itoa_digits.simps) (simp add: Let_def)
  next
    case False
    then have r: "?r = 0" "(- x) mod 10 = 0" using e(2) by simp_all
    then have q: "?q < 0" "- (2 ^ 31) \<le> ?q" "x < ?q" using less.prems e(1) by presburger+
    then have "itoa_digits ?q 10 b = Inl BadAccess" for b using less.hyps by simp
    moreover have "i32 ?q = ?q" using q by simp
    ultimately show ?thesis by (subst itoa_digits.simps) (use r q in \<open>simp add: Let_def\<close>)
  qed
qed

lemma itoa_ok:
  assumes "0 \<le> x" "x < 2 ^ 31" "cstr m a s"
  shows "wp (itoa x 10 a m) (\<lambda>m'. (\<exists>ds. cstr m' a (s @ ds)) \<and> atoi m' (a + length s) = Some x)"
proof -
  from itoa_digits_ok [OF assms(1,2), of 9 "[]"] assms(2)
  obtain ds where ds: "itoa_digits x 10 [] = Inr ds" "val 10 ds = x" "\<forall>c \<in> set ds. 48 \<le> c \<and> c \<le> 57" by auto
  then have nz: "0 \<notin> set (rev ds)" by auto
  let ?m = "put_bytes (a + length s) (rev ds @ [0]) m"
  have "atoi ?m (a + length s) = Some x"
    using atoi_loop_digits [OF put_bytes_cstr [OF nz], of 0] ds assms(2) by (simp add: atoi_def digits_value)
  then show ?thesis using cstr_append [OF assms(3) nz] ds(1) strlen_cstr [OF assms(3)] by (auto simp: itoa_def)
qed

end
