(* ===== verification/Kernel_Theorems.thy ===== *)
theory Kernel_Theorems
  imports Vm_Map Lock_Steps Proc_Steps CString Ram_Disk
begin

text \<open>
  Properties of the kernel below the RAID code: spin locks, page tables and user memory, processes, and
  the string routines, each with an instance on a concrete state.
\<close>

section \<open>Concrete states\<close>

text \<open>A page table at \<open>0x80022000\<close> that maps page 0 to \<open>0x80025000\<close>, for the user.\<close>

definition one_page :: pmem where
  "one_page = \<lparr>ptes = (\<lambda>t i.
       if t = 0x80022000 \<and> i = 0 then PA2PTE 0x80023000 OR PTE_V
       else if t = 0x80023000 \<and> i = 0 then PA2PTE 0x80024000 OR PTE_V
       else if t = 0x80024000 \<and> i = 0 then PA2PTE 0x80025000 OR (PTE_R OR PTE_W OR PTE_U OR PTE_V) else 0),
     ram = (\<lambda>a. of_nat a)\<rparr>"

lemma one_page_entries:
  "PTE2PA (PA2PTE 0x80023000 OR PTE_V) = 0x80023000" "(PA2PTE 0x80023000 OR PTE_V) AND PTE_V \<noteq> 0"
  "PTE2PA (PA2PTE 0x80024000 OR PTE_V) = 0x80024000" "(PA2PTE 0x80024000 OR PTE_V) AND PTE_V \<noteq> 0"
  "PTE2PA (PA2PTE 0x80025000 OR (PTE_R OR PTE_W OR PTE_U OR PTE_V)) = 0x80025000"
  "(PA2PTE 0x80025000 OR (PTE_R OR PTE_W OR PTE_U OR PTE_V)) AND PTE_V \<noteq> 0"
  "(PA2PTE 0x80025000 OR (PTE_R OR PTE_W OR PTE_U OR PTE_V)) AND PTE_U \<noteq> 0"
  by (simp_all add: PTE2PA_def PA2PTE_def PTE_V_def PTE_R_def PTE_W_def PTE_U_def)

lemma one_page_walk: "walkaddr 0x80022000 0 one_page = 0x80025000"
proof -
  have "\<not> MAXVA \<le> 0" by (simp add: word_le_nat_alt MAXVA_unat)
  then have "find_pte 0x80022000 0 one_page = Some (0x80024000, 0)"
    by (simp add: find_pte_def numeral_2_eq_2 Let_def PX_def one_page_def one_page_entries)
  then show ?thesis by (simp add: walkaddr_leaf leaf_def one_page_entries one_page_def)
qed

lemma one_page_range:
  assumes "unat va + n \<le> 4096"
  shows "urange 0x80022000 one_page va n = Some (map (\<lambda>i. 0x80025000 + unat va + i) [0..<n])"
proof -
  have "uaddr 0x80022000 one_page (va + of_nat i) = Some (0x80025000 + unat va + i)" if "i < n" for i
  proof -
    have u: "unat (va + of_nat i) = unat va + i" using that assms by (simp add: unat_word_ariths unat_of_nat)
    then have "PGROUNDDOWN (va + of_nat i) = 0" using that assms by (simp add: word_unat_eq_iff unat_round_down)
    then show ?thesis using u that assms by (simp add: uaddr_def one_page_walk)
  qed
  then have "map (\<lambda>i. uaddr 0x80022000 one_page (va + of_nat i)) [0..<n] = map (\<lambda>i. Some (0x80025000 + unat va + i)) [0..<n]" by simp
  then show ?thesis by (simp only: urange_def those_map_Some)
qed

section \<open>User memory\<close>

text \<open>
  C21: \<^verbatim>\<open>copyout\<close> to a range of user memory that is mapped without overlap succeeds, \<^verbatim>\<open>copyin\<close> then returns the
  same bytes, and no byte outside the range and no page table changes; when a byte of the range is not
  mapped both fail.
\<close>

theorem copyout_then_copyin:
  assumes "case urange pt p va (length src) of Some as \<Rightarrow> distinct as | None \<Rightarrow> True"
  shows "case urange pt p va (length src) of
      Some as \<Rightarrow> (case copyout pt va src p of (r, p') \<Rightarrow>
        r = 0 \<and> copyin pt va (length src) p' = (0, src) \<and> ptes p' = ptes p \<and> (\<forall>a. a \<notin> set as \<longrightarrow> ram p' a = ram p a))
    | None \<Rightarrow> fst (copyout pt va src p) = -1 \<and> fst (copyin pt va (length src) p) = -1"
proof (cases "urange pt p va (length src)")
  case None
  then show ?thesis
    using copyout_range [where pt = pt and p = p and va = va and src = src]
      copyin_range [where pt = pt and p = p and va = va and len = "length src"] by simp
next
  case (Some as)
  let ?p = "p\<lparr>ram := store_at as src (ram p)\<rparr>"
  have as: "distinct as" "length as = length src" using assms Some urange_length by auto
  have "urange pt ?p va (length src) = Some as" using urange_cong [of ?p p pt va] Some by simp
  then have "copyin pt va (length src) ?p = (0, map (store_at as src (ram p)) as)"
    using copyin_range [where pt = pt and p = ?p and va = va and len = "length src"] by simp
  moreover have "map (store_at as src (ram p)) as = src"
    using as store_at_nth [of as src] by (intro nth_equalityI) simp_all
  moreover have "copyout pt va src p = (0, ?p)"
    using copyout_range [where pt = pt and p = p and va = va and src = src] Some by simp
  ultimately show ?thesis using Some store_at_other by simp
qed

theorem copyout_then_copyin_witness:
  "case copyout 0x80022000 100 [1, 2, 3] one_page of (r, p') \<Rightarrow> r = 0 \<and> copyin 0x80022000 100 3 p' = (0, [1, 2, 3])"
proof -
  have len: "length [1, 2, 3 :: uchar] = 3" by simp
  have "urange 0x80022000 one_page 100 3 = Some [0x80025064, 0x80025065, 0x80025066]"
    using one_page_range [of 100 3] by (simp add: upt_rec)
  then show ?thesis
    using copyout_then_copyin [of "0x80022000" one_page 100 "[1, 2, 3]"] unfolding len by (auto split: prod.splits)
qed

text \<open>
  C20: \<^verbatim>\<open>uvmalloc\<close>, with three free pages for every page to add, grows the address space to exactly the size
  asked for. All of the new memory reads as zeros, the entries of every other address are kept, and the
  page tables stay separate from each other and from the free pages.
\<close>

theorem uvmalloc_gives_zeroed_memory:
  assumes "vm_ok e root fs m" "old \<le> new" "new \<le> MAXVA" "drop_bit 10 x = 0"
    and "\<forall>v \<in> upages (PGROUNDUP64 old) new. leaf (pm m) root v AND PTE_V = 0"
    and "3 * npages (PGROUNDUP64 old) new \<le> length fs"
    and "PGROUNDUP64 old \<le> va" "unat va + n \<le> unat new"
  shows "wp (uvmalloc e root old new x m) (\<lambda>(r, m'). r = new \<and> copyin root va n (pm m') = (0, replicate n 0) \<and>
    (\<forall>v. PGROUNDDOWN v \<notin> upages (PGROUNDUP64 old) new \<longrightarrow> leaf (pm m') root v = leaf (pm m) root v) \<and>
    (\<exists>k. vm_ok e root (drop k fs) m'))"
proof -
  let ?a = "PGROUNDUP64 old"
  have a: "PGROUNDDOWN ?a = ?a" using round_idem [of "old + of_nat PGSIZE - 1"] by (simp add: PGROUNDUP64_def PGROUNDDOWN_def)
  have pg: "\<And>p. p \<in> set fs \<Longrightarrow> page_ok e p" using vm_okD(1) [OF assms(1)] by (simp add: free_pages_def)
  have "wp (uvmalloc_loop e root ?a new x ?a m) (\<lambda>(r, m'). r = new \<and> (\<exists>q. grown e root fs x ?a new q m m'))"
    using uvmalloc_loop_ok [OF assms(1) a assms(3)] assms(5,6) by blast
  moreover have "uvmalloc e root old new x m = uvmalloc_loop e root ?a new x ?a m" using assms(2) by (simp add: uvmalloc_def leD)
  ultimately show ?thesis
  proof (simp only:, elim wp_mono, clarify)
    fix m' q
    assume g: "grown e root fs x ?a new q m m'"
    then show "new = new \<and> copyin root va n (pm m') = (0, replicate n 0) \<and>
      (\<forall>v. PGROUNDDOWN v \<notin> upages ?a new \<longrightarrow> leaf (pm m') root v = leaf (pm m) root v) \<and> (\<exists>k. vm_ok e root (drop k fs) m')"
      using copyin_grown [OF g assms(4) pg a assms(7,3,8)] by (auto simp: grown_def)
  qed
qed

definition empty_space :: mach where
  "empty_space = \<lparr>km = \<lparr>freelist = 0x80023000, next_of = (\<lambda>_. 0)(0x80023000 := 0x80024000, 0x80024000 := 0x80025000)\<rparr>,
     pm = \<lparr>ptes = (\<lambda>_ _. 0), ram = (\<lambda>_. 7)\<rparr>\<rparr>"

theorem uvmalloc_gives_zeroed_memory_witness:
  "wp (uvmalloc 0x80022000 0x80022000 0 100 PTE_W empty_space)
     (\<lambda>(r, m'). r = 100 \<and> copyin 0x80022000 10 90 (pm m') = (0, replicate 90 0))"
proof -
  have tab: "tab (pm empty_space) 0x80022000 ps = Some t \<longleftrightarrow> ps = [] \<and> t = 0x80022000" for ps t
    by (cases ps) (auto simp: empty_space_def child_def)
  have "vm_ok 0x80022000 0x80022000 [0x80023000, 0x80024000, 0x80025000] empty_space"
    by (auto simp: vm_ok_def tab free_pages_def page_ok_def PGSIZE_def PHYSTOP_def) (simp_all add: empty_space_def)
  moreover have "leaf (pm empty_space) 0x80022000 v AND PTE_V = 0" for v
    by (auto simp: leaf_def find_pte_tab empty_space_def child_def split: option.splits)
  ultimately show ?thesis
    using uvmalloc_gives_zeroed_memory [of "0x80022000" "0x80022000" "[0x80023000, 0x80024000, 0x80025000]" empty_space 0 100 PTE_W 10 90]
    by (auto simp: MAXVA_def PTE_W_def PGROUNDUP64_def PGSIZE_def npages_def elim!: wp_mono)
qed

section \<open>Spin locks\<close>

text \<open>
  C22: In every interleaving of any number of harts on a spin lock at most one hart is between the end of
  \<^verbatim>\<open>acquire\<close>'s loop and the end of \<^verbatim>\<open>release\<close>, and \<^verbatim>\<open>holding\<close> is true exactly for the hart inside.
\<close>

theorem spinlock_mutual_exclusion:
  assumes "lreach nm s"
  shows "(owns (at s i) \<and> owns (at s j) \<longrightarrow> i = j) \<and> (holding i (lk s) \<longleftrightarrow> at s i = Inside)"
  using lock_inv_reach [OF assms] by (simp add: lock_inv_holding) (blast dest: lock_inv_unique)

definition one_inside :: lstate where
  "one_inside = \<lparr>lk = (initlock ''l'')\<lparr>locked := 1, lkcpu := Some 0\<rparr>, at = (\<lambda>_. Outside)(0 := Inside, 1 := Spinning)\<rparr>"

lemma one_inside_reached: "lreach ''l'' one_inside"
proof -
  let ?l = "initlock ''l''"
  have "lreach ''l'' \<lparr>lk = ?l, at = (\<lambda>_. Outside)(0 := Spinning)\<rparr>"
    using lreach.more [OF lreach.start lstep.enter [of _ 0]] by (simp add: initlock_def holding_def)
  from lreach.more [OF this lstep.enter [of _ 1]]
  have "lreach ''l'' \<lparr>lk = ?l, at = (\<lambda>_. Outside)(0 := Spinning, 1 := Spinning)\<rparr>"
    by (simp add: initlock_def holding_def)
  from lreach.more [OF this lstep.swap_free [of _ 0]]
  have "lreach ''l'' \<lparr>lk = ?l\<lparr>locked := 1\<rparr>, at = (\<lambda>_. Outside)(0 := Owner, 1 := Spinning)\<rparr>"
    by (simp add: initlock_def fun_upd_twist)
  from lreach.more [OF this lstep.set_cpu [of _ 0]] show ?thesis
    by (simp add: initlock_def one_inside_def fun_upd_twist)
qed

theorem spinlock_mutual_exclusion_witness: "lreach ''l'' one_inside \<and> holding 0 (lk one_inside) \<and> \<not> holding 1 (lk one_inside)"
  using one_inside_reached spinlock_mutual_exclusion [OF one_inside_reached, of 0 1]
    spinlock_mutual_exclusion [OF one_inside_reached, of 1 0] by (simp add: one_inside_def)

text \<open>
  C23: A hart that spins in \<^verbatim>\<open>acquire\<close> is never locked out for good: from every reachable state some
  continuation takes it into the critical section.
\<close>

theorem spinlock_can_be_acquired:
  assumes "lreach nm s" "at s i = Spinning"
  shows "\<exists>s'. lstep\<^sup>*\<^sup>* s s' \<and> at s' i = Inside \<and> holding i (lk s')"
proof -
  obtain s' where s': "lstep\<^sup>*\<^sup>* s s'" "at s' i = Inside" using spinner_gets_in [OF lock_inv_reach [OF assms(1)] assms(2)] by blast
  have "lreach nm s'" using s'(1) by (induction rule: rtranclp_induct) (use assms(1) in \<open>auto intro: lreach.more\<close>)
  then show ?thesis using s' lock_inv_holding [OF lock_inv_reach] by blast
qed

theorem spinlock_can_be_acquired_witness: "\<exists>s'. lstep\<^sup>*\<^sup>* one_inside s' \<and> at s' 1 = Inside \<and> holding 1 (lk s')"
  by (rule spinlock_can_be_acquired [OF one_inside_reached]) (simp add: one_inside_def)

section \<open>Processes\<close>

text \<open>A table in which process 0 runs and process 3, with pid 4, sleeps on the clock.\<close>

definition unused_proc :: proc where
  "unused_proc = \<lparr>p_lock = initlock ''proc'', state = UNUSED, chan = NoChan, killed = 0, xstate = 0, pid = 0, parent = None,
     kstack = 0, sz = 0, pagetable = 0, trapframe = 0, p_context = \<lparr>cx_ra = 0, cx_sp = 0, cx_s = (\<lambda>_. 0)\<rparr>,
     ofile = replicate 16 None, cwd = None, pname = [], k_intena = True\<rparr>"

definition zero_frame :: trapframe where
  "zero_frame = \<lparr>kernel_satp = 0, kernel_sp = 0, kernel_trap = 0, epc = 0, kernel_hartid = 0, regs = (\<lambda>_. 0)\<rparr>"

definition two_procs :: "unit pst" where
  "two_procs = \<lparr>procs = (replicate NPROC unused_proc)
       [0 := unused_proc\<lparr>state := RUNNING, pid := 1\<rparr>, 3 := unused_proc\<lparr>state := SLEEPING, chan := TicksChan, pid := 4\<rparr>],
     nextpid = 5, pid_lock = initlock ''nextpid'', wait_lock = initlock ''wait_lock'', initproc = Some 0, cur = Some 0, phart = 0,
     pcpu = \<lparr>noff = 0, intena = True, intr = True\<rparr>, mem = empty_space, frames = (\<lambda>_. zero_frame), ticks = 0,
     tickslock = initlock ''time'', files = ()\<rparr>"

lemma two_procs_nth:
  "i < NPROC \<Longrightarrow> proc_at two_procs i =
     (if i = 3 then unused_proc\<lparr>state := SLEEPING, chan := TicksChan, pid := 4\<rparr>
      else if i = 0 then unused_proc\<lparr>state := RUNNING, pid := 1\<rparr> else unused_proc)"
  by (simp add: two_procs_def nth_list_update NPROC_def)

lemma two_procs_sel [simp]: "length (procs two_procs) = NPROC" "cur two_procs = Some 0" "pcpu two_procs = \<lparr>noff = 0, intena = True, intr = True\<rparr>"
  by (simp_all add: two_procs_def)

lemma two_procs_idle: "idle_locks two_procs"
  by (simp add: idle_locks_def two_procs_nth unused_proc_def initlock_def lk_free_def cpu_calm_def cpu_ok_def)

lemma two_procs_run: "run_inv two_procs"
  by (simp add: run_inv_def two_procs_nth unused_proc_def NPROC_def)

text \<open>
  With the locks of the table free, \<^verbatim>\<open>wakeup\<close> makes runnable exactly the processes that sleep on the
  channel, except the caller, and changes nothing else.
\<close>

lemma wakeup_wakes_the_sleepers:
  assumes "idle_locks s"
  shows "wp (wakeup ch s) (\<lambda>t. t = s\<lparr>procs := procs t\<rparr> \<and> length (procs t) = NPROC \<and>
    (\<forall>i < NPROC. proc_at t i = (if cur s \<noteq> Some i \<and> state (proc_at s i) = SLEEPING \<and> chan (proc_at s i) = ch
       then (proc_at s i)\<lparr>state := RUNNABLE\<rparr> else proc_at s i)))"
  unfolding wakeup_idle [OF assms] using assms
  by (auto simp: idle_locks_def woken_def nth_enumerate_eq)

text \<open>
  \<^verbatim>\<open>kill\<close> marks the first process of the table with the pid as killed, makes it runnable when it
  sleeps and returns 0; with no such process it returns -1. Nothing else changes.
\<close>

lemma kill_marks_one_process:
  assumes "idle_locks s"
  shows "wp (kill n s) (\<lambda>(r, t). case find (\<lambda>i. pid (proc_at s i) = n) [0..<NPROC] of
      None \<Rightarrow> r = -1 \<and> t = s
    | Some i \<Rightarrow> r = 0 \<and> t = s\<lparr>procs := (procs s)[i := (proc_at s i)\<lparr>killed := 1,
        state := (if state (proc_at s i) = SLEEPING then RUNNABLE else state (proc_at s i))\<rparr>]\<rparr>)"
  using kill_loop_idle [OF assms, of "[0..<NPROC]" n]
  by (auto simp: kill_def upd_def slain_def split: option.splits)

text \<open>
  C24: On a hart, through any sequence of scheduling, yielding, sleeping, waking and killing, the process in
  state \<^verbatim>\<open>RUNNING\<close> is exactly the one the hart runs.
\<close>

theorem running_is_on_the_hart:
  assumes "preach s t" "run_inv s"
  shows "run_inv t"
  by (rule run_inv_reach [OF assms])

theorem running_is_on_the_hart_witness:
  "\<exists>t. wakeup TicksChan two_procs = Inr t \<and> state (proc_at t 3) \<noteq> RUNNING"
proof -
  obtain t where t: "wakeup TicksChan two_procs = Inr t" using wakeup_idle [OF two_procs_idle] by blast
  from running_is_on_the_hart [OF preach.step [OF preach.here pstep.wake [OF t]] two_procs_run]
  have "run_inv t" .
  moreover have "cur t = Some 0" using t wakeup_idle [OF two_procs_idle, of TicksChan] by auto
  ultimately show ?thesis using t by (auto simp: run_inv_def NPROC_def)
qed

text \<open>
  C25: A process leaves its sleep only as runnable, and only by a \<^verbatim>\<open>wakeup\<close> of its channel or a \<^verbatim>\<open>kill\<close> of its
  pid.
\<close>

theorem sleep_ends_by_wakeup_or_kill:
  assumes "run_inv s" "pstep l s t" "i < NPROC" "state (proc_at s i) = SLEEPING" "state (proc_at t i) \<noteq> SLEEPING"
  shows "state (proc_at t i) = RUNNABLE \<and> (l = Wake (chan (proc_at s i)) \<or> l = Kill (pid (proc_at s i)))"
  by (rule leaves_sleep [OF assms])

theorem sleep_ends_by_wakeup_or_kill_witness:
  "\<exists>t. pstep (Wake TicksChan) two_procs t \<and> state (proc_at t 3) = RUNNABLE"
proof -
  obtain t where t: "wakeup TicksChan two_procs = Inr t" "proc_at t 3 = woken TicksChan (Some 0) 3 (proc_at two_procs 3)"
    using wakeup_idle [OF two_procs_idle, of TicksChan] by (auto simp: nth_enumerate_eq NPROC_def)
  have s: "state (proc_at two_procs 3) = SLEEPING" "chan (proc_at two_procs 3) = TicksChan"
    by (simp_all add: two_procs_nth NPROC_def unused_proc_def)
  note st = pstep.wake [OF t(1)]
  have "state (proc_at t 3) \<noteq> SLEEPING" using t(2) s by (simp add: woken_def)
  then show ?thesis using sleep_ends_by_wakeup_or_kill [OF two_procs_run st _ s(1)] st by (auto simp: NPROC_def)
qed

section \<open>Strings\<close>

text \<open>
  C26: \<^verbatim>\<open>memmove\<close>, in the version of the kernel and in that of user programs, leaves in the destination what the
  source held before, however the two overlap, and changes no other byte.
\<close>

theorem memmove_moves:
  "memmove dst src n m = (\<lambda>a. if dst \<le> a \<and> a < dst + n then m (src + (a - dst)) else m a) \<and>
   umemmove dst src (int n) m = (\<lambda>a. if dst \<le> a \<and> a < dst + n then m (src + (a - dst)) else m a)"
proof -
  have n: "nat (int dst + int n) = dst + n" "nat (int src + int n) = src + n" by simp_all
  have "memmove dst src n m = moved dst src n m"
    using copy_up_moved [of src dst n m] copy_down_moved [of dst src n m] by (cases "n = 0") (auto simp: memmove_def moved_def)
  moreover have "umemmove dst src (int n) m = moved dst src n m"
    unfolding umemmove_def n using copy_up_moved [of src dst n m] copy_down_moved [of dst src n m] by auto
  ultimately show ?thesis by (simp add: moved_def)
qed

text \<open>
  C27: \<^verbatim>\<open>itoa\<close> in base 10 of a number that is not negative appends to the string it is given, within its buffer, a text from
  which the user library's \<^verbatim>\<open>atoi\<close> reads the number back. Of every negative \<^verbatim>\<open>int\<close> it reads the table of digits at a negative index.
\<close>

theorem itoa_atoi_round_trip:
  assumes "- (2 ^ 31) \<le> x" "x < 2 ^ 31" "cstr m a s"
  shows "if 0 \<le> x then wp (itoa x 10 a m) (\<lambda>m'. (\<exists>ds. cstr m' a (s @ ds)) \<and> atoi m' (a + length s) = Some x)
    else itoa x 10 a m = Inl BadAccess"
  using itoa_ok [OF _ assms(2,3)] itoa_digits_negative [OF _ assms(1), of "[]"] by (simp add: itoa_def)

theorem itoa_atoi_round_trip_witness: "wp (itoa 2026 10 5 (\<lambda>_. 0)) (\<lambda>m'. atoi m' 5 = Some 2026) \<and> itoa (-40) 10 5 (\<lambda>_. 0) = Inl BadAccess"
  using itoa_atoi_round_trip [of 2026 "\<lambda>_. 0" 5 "[]"] itoa_atoi_round_trip [of "-40" "\<lambda>_. 0" 5 "[]"] by (auto elim!: wp_mono)

text \<open>
  \<^verbatim>\<open>safestrcpy\<close> leaves in a buffer of \<open>n\<close> bytes the string cut to \<open>n - 1\<close> characters and ended by a null, and
  writes nowhere else.
\<close>

lemma safestrcpy_terminates_the_string:
  assumes "cstr m t s" "0 < n" "t + length s < d \<or> d + nat n \<le> t"
  shows "cstr (safestrcpy d t n m) d (take (nat n - 1) s) \<and> (\<forall>a. a < d \<or> d + nat n \<le> a \<longrightarrow> safestrcpy d t n m a = m a)"
proof -
  have n: "nat (n - 1) = nat n - 1" "d + nat n \<le> a \<longleftrightarrow> d + (nat n - 1) < a" for a using assms(2) by auto
  show ?thesis
    using safestrcpy_loop_ok [OF assms(1), of d "nat n - 1"] assms(2,3) unfolding safestrcpy_def n by simp
qed

section \<open>A sleeper of the disk driver that wakes early\<close>

text \<open>
  C28: \<^verbatim>\<open>virtio_disk_rw\<close> sleeps once and does not look at \<^verbatim>\<open>b->disk\<close> when it wakes. Woken by anything but the
  completion, it frees the descriptors of the request in flight, and the interrupt that completes the
  request then dereferences a null pointer.
\<close>

theorem early_wakeup_breaks_the_driver:
  assumes "did < length (disk v)" "disk_idle (disk v ! did)" "cpu_ok (vcpu v)"
  shows "\<exists>idx v1 v2 v3. submit_rw did bp w v = Inr (idx, v1) \<and> vd_release did v1 = Inr v2 \<and>
    kbind (vd_acquire did v2) (finish_rw did idx) = Inr v3 \<and>
    (\<forall>bs m. virtio_disk_intr did (completed did (idx ! 0) 0 bs m v3) = Inl BadAccess)"
  by (rule early_wakeup_crashes [OF assms])

theorem early_wakeup_breaks_the_driver_witness:
  "\<exists>idx v1 v2 v3. submit_rw 1 1 False (ram_driver blank) = Inr (idx, v1) \<and> vd_release 1 v1 = Inr v2 \<and>
    kbind (vd_acquire 1 v2) (finish_rw 1 idx) = Inr v3 \<and>
    (\<forall>bs m. virtio_disk_intr 1 (completed 1 (idx ! 0) 0 bs m v3) = Inl BadAccess)"
  by (rule early_wakeup_breaks_the_driver) (simp_all add: ram_driver_def cpu_ok_def)

end
