(* ===== verification/Syscall.thy ===== *)
theory Syscall
  imports Raid_Api Proc
begin

text \<open>
  System calls: the arguments (\<^verbatim>\<open>kernel/syscall.c\<close>), and the calls of \<^verbatim>\<open>kernel/sysproc.c\<close>, among them
  those that give user programs the RAID volume.
\<close>

section \<open>The kernel state of a system call\<close>

text \<open>
  The RAID layer and the process layer side by side. They share the page allocator and the interrupt
  state of the hart; \<open>kview\<close> is the RAID layer's view with the shared parts, and \<open>raid_call\<close> runs one of
  its operations and hands the shared parts back.
\<close>

record ('m, 'f) sys =
  rk :: "'m kstate"
  ps :: "'f pst"

definition kview :: "('m, 'f) sys \<Rightarrow> 'm kstate" where
  "kview s = (rk s)\<lparr>vs := (vs (rk s))\<lparr>vcpu := pcpu (ps s)\<rparr>, kmem := km (mem (ps s))\<rparr>"

definition put_kview :: "'m kstate \<Rightarrow> ('m, 'f) sys \<Rightarrow> ('m, 'f) sys" where
  "put_kview k s = s\<lparr>rk := k, ps := (ps s)\<lparr>pcpu := vcpu (vs k), mem := (mem (ps s))\<lparr>km := kmem k\<rparr>\<rparr>\<rparr>"

definition raid_call :: "('m kstate \<Rightarrow> (int \<times> 'm kstate) res) \<Rightarrow> ('m, 'f) sys \<Rightarrow> (int \<times> ('m, 'f) sys) res" where
  "raid_call f s = kbind (f (kview s)) (\<lambda>(r, k). Inr (r, put_kview k s))"

definition set_pm :: "pmem \<Rightarrow> ('m, 'f) sys \<Rightarrow> ('m, 'f) sys" where
  "set_pm p s = s\<lparr>ps := (ps s)\<lparr>mem := (mem (ps s))\<lparr>pm := p\<rparr>\<rparr>\<rparr>"

section \<open>Arguments\<close>

definition argraw :: "nat \<Rightarrow> 'f pst \<Rightarrow> uint64 res" where
  "argraw n s =
     kbind (myproc s) (\<lambda>i.
     if n \<le> 5 then Inr (regs (frames s (trapframe (proc_at s i))) (10 + n)) else Inl (Panic ''argraw''))"

definition argint :: "nat \<Rightarrow> 'f pst \<Rightarrow> int res" where
  "argint n s = kbind (argraw n s) (\<lambda>a. Inr (sint (ucast a :: uint32)))"

definition argaddr :: "nat \<Rightarrow> 'f pst \<Rightarrow> uint64 res" where
  "argaddr n s = argraw n s"

definition le64 :: "uchar list \<Rightarrow> uint64" where
  "le64 bs = foldr (\<lambda>b w. push_bit 8 w OR ucast b) bs 0"

text \<open>\<open>None\<close> is the result -1.\<close>

definition fetchaddr :: "uint64 \<Rightarrow> 'f pst \<Rightarrow> uint64 option res" where
  "fetchaddr addr s =
     kbind (myproc s) (\<lambda>i.
     let p = proc_at s i in
     if addr \<ge> sz p \<or> addr + 8 > sz p then Inr None
     else let (r, bs) = copyin (pagetable p) addr 8 (pm (mem s))
          in Inr (if r \<noteq> 0 then None else Some (le64 bs)))"

text \<open>The result of the call, and what is in the buffer after it.\<close>

definition fetchstr :: "uint64 \<Rightarrow> nat \<Rightarrow> 'f pst \<Rightarrow> (int \<times> uchar list) res" where
  "fetchstr addr mx s =
     kbind (myproc s) (\<lambda>i.
     let (r, bs) = copyinstr (pagetable (proc_at s i)) addr mx (pm (mem s))
     in Inr (if r < 0 then -1 else int (length (takeWhile (\<lambda>c. c \<noteq> 0) bs)), bs))"

definition argstr :: "nat \<Rightarrow> nat \<Rightarrow> 'f pst \<Rightarrow> (int \<times> uchar list) res" where
  "argstr n mx s = kbind (argaddr n s) (\<lambda>addr. fetchstr addr mx s)"

section \<open>The process calls\<close>

definition sys_exit :: "'f fops \<Rightarrow> 'f pst \<Rightarrow> 'f pst res" where
  "sys_exit fo s = kbind (argint 0 s) (\<lambda>n. exit_proc fo n s)"

definition sys_getpid :: "'f pst \<Rightarrow> uint64 res" where
  "sys_getpid s = kbind (myproc s) (\<lambda>i. Inr (word_of_int (pid (proc_at s i))))"

definition sys_fork :: "klink \<Rightarrow> 'f fops \<Rightarrow> 'f pst \<Rightarrow> (uint64 \<times> 'f pst) res" where
  "sys_fork ld fo s = kbind (fork ld fo s) (\<lambda>(r, s). Inr (word_of_int r, s))"

text \<open>\<open>None\<close> when the caller has gone to sleep; \<open>sys_wait_again\<close> continues it.\<close>

definition sys_wait :: "klink \<Rightarrow> 'f pst \<Rightarrow> (uint64 option \<times> 'f pst) res" where
  "sys_wait ld s =
     kbind (argaddr 0 s) (\<lambda>p. kbind (wait_start ld p s) (\<lambda>(r, s). Inr (map_option word_of_int r, s)))"

definition sys_wait_again :: "klink \<Rightarrow> 'f pst \<Rightarrow> (uint64 option \<times> 'f pst) res" where
  "sys_wait_again ld s =
     kbind (argaddr 0 s) (\<lambda>p. kbind (wait_again ld p s) (\<lambda>(r, s). Inr (map_option word_of_int r, s)))"

definition sys_sbrk :: "klink \<Rightarrow> 'f pst \<Rightarrow> (uint64 \<times> 'f pst) res" where
  "sys_sbrk ld s =
     kbind (argint 0 s) (\<lambda>n.
     kbind (myproc s) (\<lambda>i.
     let addr = sz (proc_at s i) in
     kbind (growproc ld n s) (\<lambda>(r, s). if r < 0 then Inr (-1, s) else Inr (addr, s))))"

definition ticks_acquire :: "'f pst \<Rightarrow> 'f pst res" where
  "ticks_acquire s = kbind (acquire (phart s) (pcpu s, tickslock s)) (\<lambda>(c, l). Inr (s\<lparr>pcpu := c, tickslock := l\<rparr>))"

definition ticks_release :: "'f pst \<Rightarrow> 'f pst res" where
  "ticks_release s = kbind (release (phart s) (pcpu s, tickslock s)) (\<lambda>(c, l). Inr (s\<lparr>pcpu := c, tickslock := l\<rparr>))"

text \<open>
  The loop of \<^verbatim>\<open>sys_sleep\<close>, cut at the sleep. The comparison is unsigned, since \<^verbatim>\<open>ticks\<close> is.
\<close>

definition sleep_round :: "uint32 \<Rightarrow> int \<Rightarrow> 'f pst \<Rightarrow> (uint64 option \<times> 'f pst) res" where
  "sleep_round ticks0 n s =
     (if ticks s - ticks0 < word_of_int n
      then kbind (myproc s) (\<lambda>i.
           kbind (get_killed i s) (\<lambda>(k, s).
           if k \<noteq> 0 then kbind (ticks_release s) (\<lambda>s. Inr (Some (-1), s))
           else kbind (sleep_start TicksChan ticks_release s) (\<lambda>s. Inr (None, s))))
      else kbind (ticks_release s) (\<lambda>s. Inr (Some 0, s)))"

definition sys_sleep :: "'f pst \<Rightarrow> (uint64 option \<times> 'f pst) res" where
  "sys_sleep s = kbind (argint 0 s) (\<lambda>n. kbind (ticks_acquire s) (\<lambda>s. sleep_round (ticks s) n s))"

definition sys_sleep_again :: "uint32 \<Rightarrow> int \<Rightarrow> 'f pst \<Rightarrow> (uint64 option \<times> 'f pst) res" where
  "sys_sleep_again ticks0 n s = kbind (sleep_end ticks_acquire s) (sleep_round ticks0 n)"

definition sys_kill :: "'f pst \<Rightarrow> (uint64 \<times> 'f pst) res" where
  "sys_kill s = kbind (argint 0 s) (\<lambda>n. kbind (kill n s) (\<lambda>(r, s). Inr (word_of_int r, s)))"

definition sys_uptime :: "'f pst \<Rightarrow> (uint64 \<times> 'f pst) res" where
  "sys_uptime s = kbind (ticks_acquire s) (\<lambda>s. let x = ticks s in kbind (ticks_release s) (\<lambda>s. Inr (ucast x, s)))"

section \<open>The RAID calls\<close>

text \<open>\<open>mypid\<close> is the pid the sleep lock records.\<close>

definition mypid :: "('m, 'f) sys \<Rightarrow> int res" where
  "mypid s = kbind (myproc (ps s)) (\<lambda>i. Inr (pid (proc_at (ps s) i)))"

definition mypagetable :: "('m, 'f) sys \<Rightarrow> nat res" where
  "mypagetable s = kbind (myproc (ps s)) (\<lambda>i. Inr (pagetable (proc_at (ps s) i)))"

definition sys_init_raid :: "'m hw \<Rightarrow> ('m, 'f) sys \<Rightarrow> (uint64 \<times> ('m, 'f) sys) res" where
  "sys_init_raid h s =
     kbind (argint 0 (ps s)) (\<lambda>raid_type.
     kbind (mypid s) (\<lambda>p.
     kbind (raid_call (init_raid h p (word_of_int raid_type)) s) (\<lambda>(r, s). Inr (word_of_int r, s))))"

definition sys_read_raid :: "'m hw \<Rightarrow> ('m, 'f) sys \<Rightarrow> (uint64 \<times> ('m, 'f) sys) res" where
  "sys_read_raid h s =
     kbind (argint 0 (ps s)) (\<lambda>blkn.
     kbind (argaddr 1 (ps s)) (\<lambda>addr.
     kbind (mypid s) (\<lambda>p.
     kbind (read_raid h p blkn (stack_junk h) (kview s)) (\<lambda>(r, buffer, k).
     let s = put_kview k s in
     if r < 0 then Inr (-1, s)
     else kbind (mypagetable s) (\<lambda>pt.
          let (c, m) = copyout pt addr buffer (pm (mem (ps s))); s = set_pm m s in
          if c < 0 then Inr (-1, s) else Inr (0, s))))))"

definition sys_write_raid :: "'m hw \<Rightarrow> ('m, 'f) sys \<Rightarrow> (uint64 \<times> ('m, 'f) sys) res" where
  "sys_write_raid h s =
     kbind (argint 0 (ps s)) (\<lambda>blkn.
     kbind (argaddr 1 (ps s)) (\<lambda>addr.
     kbind (mypagetable s) (\<lambda>pt.
     let (c, buffer) = copyin pt addr BSIZE (pm (mem (ps s))) in
     if c < 0 then Inr (-1, s)
     else kbind (mypid s) (\<lambda>p.
          kbind (raid_call (write_raid h p blkn buffer) s) (\<lambda>(r, s). Inr (word_of_int r, s))))))"

definition sys_disk_fail_raid :: "'m hw \<Rightarrow> ('m, 'f) sys \<Rightarrow> (uint64 \<times> ('m, 'f) sys) res" where
  "sys_disk_fail_raid h s =
     kbind (argint 0 (ps s)) (\<lambda>diskn.
     kbind (mypid s) (\<lambda>p.
     kbind (raid_call (disk_fail_raid h p diskn) s) (\<lambda>(r, s). Inr (word_of_int r, s))))"

definition sys_disk_repaired_raid :: "'m hw \<Rightarrow> ('m, 'f) sys \<Rightarrow> (uint64 \<times> ('m, 'f) sys) res" where
  "sys_disk_repaired_raid h s =
     kbind (argint 0 (ps s)) (\<lambda>diskn.
     kbind (mypid s) (\<lambda>p.
     kbind (raid_call (disk_repaired_raid h p diskn) s) (\<lambda>(r, s). Inr (word_of_int r, s))))"

text \<open>
  The three numbers are written by \<^verbatim>\<open>info_raid\<close> whenever it succeeds; they are copied out one after the other; the first
  failure ends the call.
\<close>

definition sys_info_raid :: "'m hw \<Rightarrow> ('m, 'f) sys \<Rightarrow> (uint64 \<times> ('m, 'f) sys) res" where
  "sys_info_raid h s =
     kbind (argaddr 0 (ps s)) (\<lambda>blkn.
     kbind (argaddr 1 (ps s)) (\<lambda>blks.
     kbind (argaddr 2 (ps s)) (\<lambda>diskn.
     kbind (mypid s) (\<lambda>p.
     kbind (info_raid h p (0, 0, 0) (kview s)) (\<lambda>(r, (b, z, d), k).
     let s = put_kview k s in
     if r < 0 then Inr (-1, s)
     else kbind (mypagetable s) (\<lambda>pt.
          let (c, m) = copyout pt blkn (le32 b) (pm (mem (ps s))); s = set_pm m s in
          if c < 0 then Inr (-1, s)
          else let (c, m) = copyout pt blks (le32 z) (pm (mem (ps s))); s = set_pm m s in
          if c < 0 then Inr (-1, s)
          else let (c, m) = copyout pt diskn (le32 d) (pm (mem (ps s))); s = set_pm m s in
          if c < 0 then Inr (-1, s) else Inr (0, s)))))))"

definition sys_destroy_raid :: "'m hw \<Rightarrow> ('m, 'f) sys \<Rightarrow> (uint64 \<times> ('m, 'f) sys) res" where
  "sys_destroy_raid h s =
     kbind (mypid s) (\<lambda>p.
     kbind (raid_call (destroy_raid h p) s) (\<lambda>(r, s). Inr (word_of_int r, s)))"

section \<open>User memory to the volume and back\<close>

text \<open>What the user side of the state is: the process table, the registers, the memory of the processes.\<close>

definition same_user :: "('m, 'f) sys \<Rightarrow> ('m, 'f) sys \<Rightarrow> bool" where
  "same_user s t \<longleftrightarrow> cur (ps t) = cur (ps s) \<and> procs (ps t) = procs (ps s) \<and> frames (ps t) = frames (ps s) \<and>
     pm (mem (ps t)) = pm (mem (ps s))"

abbreviation user_pt :: "('m, 'f) sys \<Rightarrow> nat \<Rightarrow> nat" where
  "user_pt s i \<equiv> pagetable (proc_at (ps s) i)"

abbreviation user_reg :: "('m, 'f) sys \<Rightarrow> nat \<Rightarrow> nat \<Rightarrow> uint64" where
  "user_reg s i n \<equiv> regs (frames (ps s) (trapframe (proc_at (ps s) i))) n"

lemma put_kview_simps [simp]:
  "kview (put_kview k s) = k" "cur (ps (put_kview k s)) = cur (ps s)" "procs (ps (put_kview k s)) = procs (ps s)"
  "frames (ps (put_kview k s)) = frames (ps s)" "pm (mem (ps (put_kview k s))) = pm (mem (ps s))"
  by (simp_all add: kview_def put_kview_def)

lemma set_pm_simps [simp]:
  "kview (set_pm p s) = kview s" "cur (ps (set_pm p s)) = cur (ps s)" "procs (ps (set_pm p s)) = procs (ps s)"
  "frames (ps (set_pm p s)) = frames (ps s)" "pm (mem (ps (set_pm p s))) = p"
  by (simp_all add: kview_def set_pm_def)

lemma sys_args:
  assumes "cur (ps s) = Some i"
  shows "argint 0 (ps s) = Inr (sint (ucast (user_reg s i 10) :: uint32))" "argaddr 1 (ps s) = Inr (user_reg s i 11)"
    "argaddr (Suc 0) (ps s) = Inr (user_reg s i 11)"
    "mypid s = Inr (pid (proc_at (ps s) i))" "mypagetable s = Inr (user_pt s i)"
  using assms by (simp_all add: argint_def argaddr_def argraw_def myproc_def mypid_def mypagetable_def)

lemma sys_write_raid_ok:
  assumes "cur (ps s) = Some i" "array_ok h st ty (kview s)"
    and "blkn = sint (ucast (user_reg s i 10) :: uint32)" "array_addr h ty blkn"
    and "urange (user_pt s i) (pm (mem (ps s))) (user_reg s i 11) BSIZE = Some as"
  shows "wp (sys_write_raid h s) (\<lambda>(r, t). r = 0 \<and> same_user s t \<and> array_ok h st ty (kview t) \<and>
    (\<forall>a. array_addr h ty a \<longrightarrow> array_vol h st ty (kview t) a =
      (if a = blkn then map (ram (pm (mem (ps s)))) as else array_vol h st ty (kview s) a)))"
proof -
  let ?x = "map (ram (pm (mem (ps s)))) as" and ?p = "pid (proc_at (ps s) i)"
  have c: "copyin (user_pt s i) (user_reg s i 11) BSIZE (pm (mem (ps s))) = (0, ?x)"
    using copyin_range [where pt = "user_pt s i" and va = "user_reg s i 11" and len = BSIZE and p = "pm (mem (ps s))"]
    by (simp add: assms(5))
  have "length ?x = BSIZE" using assms(5) by (auto dest: urange_length)
  from arr.wr_law [OF assms(2,4) this, of ?p]
  show ?thesis
    unfolding sys_write_raid_def sys_args [OF assms(1)] kbind_Inr c Let_def prod.case raid_call_def assms(3) [symmetric]
    by (auto simp: same_user_def elim!: wp_mono)
qed

lemma sys_write_raid_unmapped:
  assumes "cur (ps s) = Some i" "urange (user_pt s i) (pm (mem (ps s))) (user_reg s i 11) BSIZE = None"
  shows "sys_write_raid h s = Inr (-1, s)"
proof -
  have "fst (copyin (user_pt s i) (user_reg s i 11) BSIZE (pm (mem (ps s)))) = -1"
    using copyin_range [where pt = "user_pt s i" and va = "user_reg s i 11" and len = BSIZE and p = "pm (mem (ps s))"]
    by (simp add: assms(2))
  then show ?thesis by (simp add: sys_write_raid_def sys_args [OF assms(1)] case_prod_beta)
qed

lemma sys_read_raid_ok:
  assumes "cur (ps s) = Some i" "array_ok h st ty (kview s)" "length (stack_junk h) = BSIZE"
    and "blkn = sint (ucast (user_reg s i 10) :: uint32)" "array_addr h ty blkn" "length (array_vol h st ty (kview s) blkn) = BSIZE"
    and "urange (user_pt s i) (pm (mem (ps s))) (user_reg s i 11) BSIZE = Some as"
  shows "wp (sys_read_raid h s) (\<lambda>(r, t). r = 0 \<and> array_ok h st ty (kview t) \<and>
    pm (mem (ps t)) = (pm (mem (ps s)))\<lparr>ram := store_at as (array_vol h st ty (kview s) blkn) (ram (pm (mem (ps s))))\<rparr> \<and>
    (\<forall>a. array_addr h ty a \<longrightarrow> array_vol h st ty (kview t) a = array_vol h st ty (kview s) a))"
proof -
  let ?x = "array_vol h st ty (kview s) blkn" and ?p = "pid (proc_at (ps s) i)"
  have c: "copyout (user_pt s i) (user_reg s i 11) ?x (pm (mem (ps s))) =
      (0, (pm (mem (ps s)))\<lparr>ram := store_at as ?x (ram (pm (mem (ps s))))\<rparr>)"
    using copyout_range [where pt = "user_pt s i" and p = "pm (mem (ps s))" and va = "user_reg s i 11" and src = ?x] by (simp add: assms(6,7))
  have pt: "mypagetable (put_kview k s) = Inr (user_pt s i)" for k
    using assms(1) by (simp add: mypagetable_def myproc_def)
  from arr.rd_law [OF assms(2,5,3), of ?p]
  show ?thesis
    unfolding sys_read_raid_def sys_args [OF assms(1)] kbind_Inr assms(4) [symmetric] wp_kbind
    by (rule wp_mono) (auto simp: pt c)
qed

end
