(* ===== verification/Pipe.thy ===== *)
theory Pipe
  imports Locks
begin

text \<open>
  Pipes (\<^verbatim>\<open>kernel/pipe.c\<close>): a ring of bytes between processes. A reader that finds the pipe empty and a
  writer that finds it full sleep; the operations are cut there, and the part after the sleep is a
  definition of its own.
\<close>

section \<open>Data\<close>

definition PIPESIZE :: nat where
  "PIPESIZE = 512"

record pipe =
  pi_lock :: spinlock
  pi_data :: "uchar list"
  nread :: uint32
  nwrite :: uint32
  readopen :: int
  writeopen :: int

text \<open>
  The pipe, the interrupt state of the hart, the memory \<open>u\<close> of the calling process, and a history of the
  calls of \<^verbatim>\<open>wakeup\<close>.
\<close>

datatype pchan = NRead | NWrite

record 'u pipest =
  pp :: pipe
  pp_hart :: nat
  pp_cpu :: cpu
  pp_mem :: 'u
  pp_woken :: "pchan list"

definition pi_acquire :: "'u pipest \<Rightarrow> 'u pipest res" where
  "pi_acquire s = kbind (acquire (pp_hart s) (pp_cpu s, pi_lock (pp s))) (\<lambda>(c, l).
     Inr (s\<lparr>pp := (pp s)\<lparr>pi_lock := l\<rparr>, pp_cpu := c\<rparr>))"

definition pi_release :: "'u pipest \<Rightarrow> 'u pipest res" where
  "pi_release s = kbind (release (pp_hart s) (pp_cpu s, pi_lock (pp s))) (\<lambda>(c, l).
     Inr (s\<lparr>pp := (pp s)\<lparr>pi_lock := l\<rparr>, pp_cpu := c\<rparr>))"

definition pi_wakeup :: "pchan \<Rightarrow> 'u pipest \<Rightarrow> 'u pipest" where
  "pi_wakeup c s = s\<lparr>pp_woken := pp_woken s @ [c]\<rparr>"

text \<open>How a part of an operation ends: with a result, or asleep with \<open>i\<close> bytes done.\<close>

datatype pout = Done int | Asleep int

section \<open>Operations\<close>

text \<open>The part of \<^verbatim>\<open>pipealloc\<close> that fills in a new pipe; \<open>d\<close> is what the page holds.\<close>

definition pipe_init :: "uchar list \<Rightarrow> pipe" where
  "pipe_init d = \<lparr>pi_lock = initlock ''pipe'', pi_data = d, nread = 0, nwrite = 0, readopen = 1, writeopen = 1\<rparr>"

text \<open>The flag of the result says that the page is to be freed.\<close>

definition pipeclose :: "bool \<Rightarrow> 'u pipest \<Rightarrow> (bool \<times> 'u pipest) res" where
  "pipeclose writable s =
     kbind (pi_acquire s) (\<lambda>s.
     let s = (if writable then pi_wakeup NRead (s\<lparr>pp := (pp s)\<lparr>writeopen := 0\<rparr>\<rparr>)
              else pi_wakeup NWrite (s\<lparr>pp := (pp s)\<lparr>readopen := 0\<rparr>\<rparr>)) in
     kbind (pi_release s) (\<lambda>s. Inr (readopen (pp s) = 0 \<and> writeopen (pp s) = 0, s)))"

text \<open>
  \<open>dead\<close> is \<^verbatim>\<open>killed(pr)\<close>; \<open>get a u\<close> is \<^verbatim>\<open>copyin\<close> of one byte at \<open>a\<close>, with its result and the byte, and \<open>put a c u\<close>
  is \<^verbatim>\<open>copyout\<close> of one byte.
\<close>

function pipewrite_loop :: "('u \<Rightarrow> bool) \<Rightarrow> (uint64 \<Rightarrow> 'u \<Rightarrow> int \<times> uchar) \<Rightarrow> uint64 \<Rightarrow> int \<Rightarrow> int \<Rightarrow> 'u pipest \<Rightarrow> (pout \<times> 'u pipest) res" where
  "pipewrite_loop dead get addr n i s =
     (let fin = (\<lambda>s. kbind (pi_release (pi_wakeup NRead s)) (\<lambda>s. Inr (Done i, s))) in
      if i < n
      then if readopen (pp s) = 0 \<or> dead (pp_mem s) then kbind (pi_release s) (\<lambda>s. Inr (Done (-1), s))
           else if nwrite (pp s) = nread (pp s) + of_nat PIPESIZE
           then kbind (pi_release (pi_wakeup NRead s)) (\<lambda>s. Inr (Asleep i, s))
           else let (r, ch) = get (addr + of_int i) (pp_mem s) in
                if r = -1 then fin s
                else pipewrite_loop dead get addr n (i + 1)
                       (s\<lparr>pp := (pp s)\<lparr>pi_data := (pi_data (pp s))[unat (nwrite (pp s)) mod PIPESIZE := ch], nwrite := nwrite (pp s) + 1\<rparr>\<rparr>)
      else fin s)"
  by pat_completeness auto
termination
  by (relation "measure (\<lambda>(dead, get, addr, n, i, s). nat (n - i))") auto

declare pipewrite_loop.simps [simp del]

definition pipewrite_again :: "('u \<Rightarrow> bool) \<Rightarrow> (uint64 \<Rightarrow> 'u \<Rightarrow> int \<times> uchar) \<Rightarrow> uint64 \<Rightarrow> int \<Rightarrow> int \<Rightarrow> 'u pipest \<Rightarrow> (pout \<times> 'u pipest) res" where
  "pipewrite_again dead get addr n i s = kbind (pi_acquire s) (pipewrite_loop dead get addr n i)"

definition pipewrite :: "('u \<Rightarrow> bool) \<Rightarrow> (uint64 \<Rightarrow> 'u \<Rightarrow> int \<times> uchar) \<Rightarrow> uint64 \<Rightarrow> int \<Rightarrow> 'u pipest \<Rightarrow> (pout \<times> 'u pipest) res" where
  "pipewrite dead get addr n s = pipewrite_again dead get addr n 0 s"

text \<open>A byte that cannot be copied out has been taken from the pipe all the same.\<close>

function piperead_loop :: "(uint64 \<Rightarrow> uchar \<Rightarrow> 'u \<Rightarrow> int \<times> 'u) \<Rightarrow> uint64 \<Rightarrow> int \<Rightarrow> int \<Rightarrow> 'u pipest \<Rightarrow> int \<times> 'u pipest" where
  "piperead_loop put addr n i s =
     (if i < n
      then if nread (pp s) = nwrite (pp s) then (i, s)
           else let ch = pi_data (pp s) ! (unat (nread (pp s)) mod PIPESIZE);
                    (r, u) = put (addr + of_int i) ch (pp_mem s);
                    s = s\<lparr>pp := (pp s)\<lparr>nread := nread (pp s) + 1\<rparr>, pp_mem := u\<rparr>
                in if r = -1 then (i, s) else piperead_loop put addr n (i + 1) s
      else (i, s))"
  by pat_completeness auto
termination
  by (relation "measure (\<lambda>(put, addr, n, i, s). nat (n - i))") auto

declare piperead_loop.simps [simp del]

definition piperead :: "('u \<Rightarrow> bool) \<Rightarrow> (uint64 \<Rightarrow> uchar \<Rightarrow> 'u \<Rightarrow> int \<times> 'u) \<Rightarrow> uint64 \<Rightarrow> int \<Rightarrow> 'u pipest \<Rightarrow> (pout \<times> 'u pipest) res" where
  "piperead dead put addr n s =
     kbind (pi_acquire s) (\<lambda>s.
     if nread (pp s) = nwrite (pp s) \<and> writeopen (pp s) \<noteq> 0
     then kbind (pi_release s) (\<lambda>s. Inr (if dead (pp_mem s) then Done (-1) else Asleep 0, s))
     else let (i, s) = piperead_loop put addr n 0 s in
          kbind (pi_release (pi_wakeup NWrite s)) (\<lambda>s. Inr (Done i, s)))"

end
