(* ===== verification/Ring_Buffer.thy ===== *)
theory Ring_Buffer
  imports Prelude
begin

text \<open>
  Ring buffers with free-running counters, as the pipe, the console and the UART driver use them: the
  counters of the bytes read and written are words that wrap around, and index the buffer modulo its size.
\<close>

definition ring_items :: "nat \<Rightarrow> 'w::len word \<Rightarrow> 'w word \<Rightarrow> 'a list \<Rightarrow> 'a list" where
  "ring_items N r w d = map (\<lambda>k. d ! ((unat r + k) mod N)) [0..<unat (w - r)]"

text \<open>At most \<open>N\<close> items, and a size that divides the range of the counters.\<close>

definition ring_fits :: "nat \<Rightarrow> 'w::len word \<Rightarrow> 'w word \<Rightarrow> 'a list \<Rightarrow> bool" where
  "ring_fits N r w d \<longleftrightarrow> length d = N \<and> 0 < N \<and> N dvd 2 ^ LENGTH('w) \<and> N < 2 ^ LENGTH('w) \<and> unat (w - r) \<le> N"

lemma ring_mod: "N dvd 2 ^ LENGTH('w) \<Longrightarrow> (unat ((r :: 'w::len word) + x)) mod N = (unat r + unat x) mod N"
  by (simp add: unat_word_ariths mod_mod_cancel)

lemma ring_length [simp]: "length (ring_items N r w d) = unat (w - r)"
  by (simp add: ring_items_def)

lemma ring_empty: "ring_items N r w d = [] \<longleftrightarrow> r = w"
  by (auto simp: ring_items_def unat_eq_zero)

lemma ring_not_full:
  fixes r w :: "'w::len word"
  assumes "ring_fits N r w d" "w \<noteq> r + of_nat N"
  shows "unat (w - r) < N" "unat (w + 1 - r) = unat (w - r) + 1"
proof -
  have "unat (w - r) \<noteq> N"
  proof
    assume "unat (w - r) = N"
    then have "w - r = of_nat N" by auto
    with assms(2) show False by (simp add: algebra_simps)
  qed
  then show l: "unat (w - r) < N" using assms(1) by (simp add: ring_fits_def)
  have "w + 1 - r = (w - r) + 1" by simp
  moreover have "unat (w - r) + 1 < 2 ^ LENGTH('w)" using l assms(1) by (simp add: ring_fits_def)
  ultimately show "unat (w + 1 - r) = unat (w - r) + 1" by (metis unat_add_lem unat_1)
qed

lemma ring_push:
  assumes "ring_fits N r w d" "w \<noteq> r + of_nat N"
  shows "ring_items N r (w + 1) (d[unat w mod N := x]) = ring_items N r w d @ [x]" "ring_fits N r (w + 1) (d[unat w mod N := x])"
proof -
  note n = ring_not_full [OF assms]
  have N: "length d = N" "0 < N" "N dvd 2 ^ LENGTH('a)" using assms(1) by (simp_all add: ring_fits_def)
  have w: "unat w mod N = (unat r + unat (w - r)) mod N" using ring_mod [OF N(3), of r "w - r"] by simp
  have ne: "(unat r + k) mod N \<noteq> unat w mod N" if "k < unat (w - r)" for k
  proof
    assume "(unat r + k) mod N = unat w mod N"
    then have "(unat r + k) mod N = (unat r + unat (w - r)) mod N" by (simp add: w)
    then have "N dvd (unat r + unat (w - r)) - (unat r + k)"
      using that by (intro mod_eq_dvd_iff_nat [THEN iffD1]) simp_all
    then have "N dvd unat (w - r) - k" by simp
    then show False using that n(1) by (auto dest: dvd_imp_le)
  qed
  show "ring_items N r (w + 1) (d[unat w mod N := x]) = ring_items N r w d @ [x]"
    using N ne [symmetric] by (auto simp: ring_items_def n(2) nth_list_update w [symmetric])
  show "ring_fits N r (w + 1) (d[unat w mod N := x])" using assms(1) n by (simp add: ring_fits_def)
qed

lemma ring_pop:
  assumes "ring_fits N r w d" "r \<noteq> w"
  shows "ring_items N r w d = d ! (unat r mod N) # ring_items N (r + 1) w d" "ring_fits N (r + 1) w d"
proof -
  have N: "N dvd 2 ^ LENGTH('a)" using assms(1) by (simp add: ring_fits_def)
  have z: "w - r \<noteq> 0" using assms(2) by simp
  have "w - (r + 1) = (w - r) - 1" by simp
  then have "unat (w - (r + 1)) = unat (w - r) - 1" using unat_minus_one [OF z] by metis
  moreover have "0 < unat (w - r)" using z by (simp add: unat_gt_0)
  ultimately have u: "unat (w - r) = Suc (unat (w - (r + 1)))" by simp
  have "(unat (r + 1) + k) mod N = (unat r + Suc k) mod N" for k
  proof -
    have "(unat (r + 1) + k) mod N = (unat (r + 1) mod N + k) mod N" by (simp add: mod_add_left_eq)
    also have "\<dots> = ((unat r + 1) mod N + k) mod N" using ring_mod [OF N, of r 1] by simp
    also have "\<dots> = (unat r + Suc k) mod N" by (simp add: mod_add_left_eq)
    finally show ?thesis .
  qed
  then show "ring_items N r w d = d ! (unat r mod N) # ring_items N (r + 1) w d"
    by (simp add: ring_items_def u upt_conv_Cons map_Suc_upt [symmetric] del: upt_Suc)
  show "ring_fits N (r + 1) w d" using assms(1) u by (simp add: ring_fits_def)
qed

text \<open>A third counter between the other two: the newest items are still being edited.\<close>

lemma ring_split:
  fixes r w e :: "'w::len word"
  assumes "N dvd 2 ^ LENGTH('w)" "unat (w - r) \<le> unat (e - r)"
  shows "ring_items N r e d = ring_items N r w d @ ring_items N w e d"
proof -
  have "e - w = (e - r) - (w - r)" by simp
  then have l: "unat (e - w) = unat (e - r) - unat (w - r)" using assms(2) unat_sub [of "w - r" "e - r"] by (metis word_le_nat_alt)
  have m: "(unat w + k) mod N = (unat r + (unat (w - r) + k)) mod N" for k
  proof -
    have "unat w mod N = (unat r + unat (w - r)) mod N" using ring_mod [OF assms(1), of r "w - r"] by simp
    then show ?thesis by (metis add.assoc mod_add_left_eq)
  qed
  show ?thesis
    using assms(2) l by (intro nth_equalityI) (auto simp: ring_items_def nth_append m)
qed

lemma ring_unpush:
  fixes w e :: "'w::len word"
  assumes "e \<noteq> w"
  shows "ring_items N w (e - 1) d = butlast (ring_items N w e d)" "unat (e - 1 - w) = unat (e - w) - 1" "0 < unat (e - w)"
    "last (ring_items N w e d) = d ! ((unat w + (unat (e - w) - 1)) mod N)"
proof -
  have z: "e - w \<noteq> 0" using assms by simp
  have "e - 1 - w = e - w - 1" by (simp add: algebra_simps)
  then show u: "unat (e - 1 - w) = unat (e - w) - 1" using unat_minus_one [OF z] by metis
  show p: "0 < unat (e - w)" using z by (simp add: unat_gt_0)
  then obtain k where k: "unat (e - w) = Suc k" by (cases "unat (e - w)") auto
  then show "ring_items N w (e - 1) d = butlast (ring_items N w e d)" by (simp add: ring_items_def u)
  show "last (ring_items N w e d) = d ! ((unat w + (unat (e - w) - 1)) mod N)" by (simp add: ring_items_def k)
qed

lemma ring_last:
  fixes w e :: "'w::len word"
  assumes "N dvd 2 ^ LENGTH('w)" "e \<noteq> w"
  shows "d ! (unat (e - 1) mod N) = last (ring_items N w e d)"
proof -
  have "(unat w + (unat (e - w) - 1)) mod N = unat (e - 1) mod N"
    using ring_mod [OF assms(1), of w "e - 1 - w"] ring_unpush(2) [OF assms(2)] by simp
  then show ?thesis using ring_unpush(4) [OF assms(2)] by metis
qed

end
