(* ===== verification/Pipe_Spec.thy ===== *)
theory Pipe_Spec
  imports Pipe Ring_Buffer
begin

text \<open>
  A pipe is a queue of bytes: what is read is what was written, in order, whatever the interleaving of the
  parts of the reads and writes.
\<close>

definition pipe_ok :: "pipe \<Rightarrow> bool" where
  "pipe_ok p \<longleftrightarrow> ring_fits PIPESIZE (nread p) (nwrite p) (pi_data p)"

definition pipe_queue :: "pipe \<Rightarrow> uchar list" where
  "pipe_queue p = ring_items PIPESIZE (nread p) (nwrite p) (pi_data p)"

text \<open>The calling hart owns the pipe's lock; at rest nobody does.\<close>

definition pi_held :: "'u pipest \<Rightarrow> bool" where
  "pi_held s \<longleftrightarrow> (\<exists>lk. lk_free lk \<and> pi_lock (pp s) = lk\<lparr>locked := 1, lkcpu := Some (pp_hart s)\<rparr>) \<and> cpu_ok (pp_cpu s) \<and> 1 \<le> noff (pp_cpu s)"

definition pi_rest :: "'u pipest \<Rightarrow> bool" where
  "pi_rest s \<longleftrightarrow> lk_free (pi_lock (pp s)) \<and> cpu_ok (pp_cpu s)"

lemma pi_acquire_rest:
  assumes "pi_rest s"
  shows "\<exists>t. pi_acquire s = Inr t \<and> pi_held t \<and> pp_mem t = pp_mem s \<and> pp t = (pp s)\<lparr>pi_lock := pi_lock (pp t)\<rparr> \<and> pp_hart t = pp_hart s"
  using assms acquire_free [of "pi_lock (pp s)" "pp_hart s" "pp_cpu s"]
  by (auto simp: pi_rest_def pi_acquire_def pi_held_def cpu_ok_def intro!: exI [of _ "pi_lock (pp s)"])

lemma pi_release_held:
  assumes "pi_held s"
  shows "\<exists>t. pi_release s = Inr t \<and> pi_rest t \<and> pp_mem t = pp_mem s \<and> pp t = (pp s)\<lparr>pi_lock := pi_lock (pp t)\<rparr> \<and> pp_hart t = pp_hart s"
proof -
  obtain lk where lk: "lk_free lk" "pi_lock (pp s) = lk\<lparr>locked := 1, lkcpu := Some (pp_hart s)\<rparr>" "cpu_ok (pp_cpu s)" "1 \<le> noff (pp_cpu s)"
    using assms by (auto simp: pi_held_def)
  then have "\<not> intr (pp_cpu s)" by (simp add: cpu_ok_def)
  with release_held [OF this lk(4), of "pp_hart s" lk] lk show ?thesis
    by (auto simp: pi_release_def pi_rest_def lk_free_def cpu_ok_def)
qed

lemma pipe_ok_lock [simp]: "pipe_ok (p\<lparr>pi_lock := l\<rparr>) = pipe_ok p" "pipe_queue (p\<lparr>pi_lock := l\<rparr>) = pipe_queue p"
  by (simp_all add: pipe_ok_def pipe_queue_def)

lemma pi_held_pp [simp]: "pi_lock p = pi_lock (pp s) \<Longrightarrow> pi_held (s\<lparr>pp := p\<rparr>) = pi_held s" "pi_held (s\<lparr>pp_mem := u\<rparr>) = pi_held s" "pi_held (pi_wakeup c s) = pi_held s"
  by (simp_all add: pi_held_def pi_wakeup_def)

lemma pi_wakeup_sel [simp]: "pp (pi_wakeup c s) = pp s" "pp_mem (pi_wakeup c s) = pp_mem s"
  by (simp_all add: pi_wakeup_def)

section \<open>Writing\<close>

definition sent :: "(uint64 \<Rightarrow> 'u \<Rightarrow> int \<times> uchar) \<Rightarrow> uint64 \<Rightarrow> 'u \<Rightarrow> int \<Rightarrow> int \<Rightarrow> uchar list" where
  "sent get addr u i j = map (\<lambda>k. snd (get (addr + of_int k) u)) [i..j - 1]"

lemma sent_simps: "sent get addr u i i = []" "i < j \<Longrightarrow> sent get addr u i j = snd (get (addr + of_int i) u) # sent get addr u (i + 1) j"
  by (simp_all add: sent_def upto.simps [of i "j - 1"])

text \<open>
  A part of a write that starts with \<open>i\<close> of \<open>n\<close> bytes done ends with \<open>j\<close> done, and has appended the bytes in
  between. With the reading end closed or the process killed it ends with -1 and has appended nothing. Otherwise it
  ends asleep only with the pipe full, and with a result below \<open>n\<close> only at a byte that is not readable.
\<close>

definition write_post :: "('u \<Rightarrow> bool) \<Rightarrow> (uint64 \<Rightarrow> 'u \<Rightarrow> int \<times> uchar) \<Rightarrow> uint64 \<Rightarrow> int \<Rightarrow> int \<Rightarrow> 'u pipest \<Rightarrow> pout \<Rightarrow> 'u pipest \<Rightarrow> bool" where
  "write_post dead get addr n i s out t \<longleftrightarrow> pi_rest t \<and> pipe_ok (pp t) \<and> pp_mem t = pp_mem s \<and> pp_hart t = pp_hart s \<and> nread (pp t) = nread (pp s) \<and>
    (\<exists>j. i \<le> j \<and> j \<le> max i n \<and> pipe_queue (pp t) = pipe_queue (pp s) @ sent get addr (pp_mem s) i j \<and>
      (if i < n \<and> (readopen (pp s) = 0 \<or> dead (pp_mem s)) then out = Done (-1) \<and> j = i
       else case out of Asleep k \<Rightarrow> k = j \<and> j < n \<and> length (pipe_queue (pp t)) = PIPESIZE
            | Done r \<Rightarrow> r = j \<and> (j < n \<longrightarrow> fst (get (addr + of_int j) (pp_mem s)) = -1)))"

lemma write_stops:
  assumes "pi_held s" "pipe_ok (pp s)"
    and "if i < n \<and> (readopen (pp s) = 0 \<or> dead (pp_mem s)) then out = Done (-1)
       else case out of Asleep k \<Rightarrow> k = i \<and> i < n \<and> length (pipe_queue (pp s)) = PIPESIZE
            | Done r \<Rightarrow> r = i \<and> (i < n \<longrightarrow> fst (get (addr + of_int i) (pp_mem s)) = -1)"
  shows "wp (kbind (pi_release s) (\<lambda>s. Inr (out, s))) (\<lambda>(out, t). write_post dead get addr n i s out t)"
proof -
  obtain t where t: "pi_release s = Inr t" "pi_rest t" "pp_mem t = pp_mem s" "pp t = (pp s)\<lparr>pi_lock := pi_lock (pp t)\<rparr>" "pp_hart t = pp_hart s"
    using pi_release_held [OF assms(1)] by blast
  have "pipe_ok (pp t)" "pipe_queue (pp t) = pipe_queue (pp s)" "nread (pp t) = nread (pp s)" using assms(2) by (subst t(4), simp)+
  then show ?thesis using t(1-3,5) assms(3) by (cases out) (auto simp: write_post_def sent_simps intro!: exI [of _ i] split: if_splits)
qed

lemma write_post_wakeup: "write_post dead get addr n i (pi_wakeup c s) out t = write_post dead get addr n i s out t"
  by (cases out) (simp_all add: write_post_def, simp_all add: pi_wakeup_def)

lemma write_post_step:
  assumes "write_post dead get addr n (i + 1) s' out t" "pp_mem s' = pp_mem s" "pp_hart s' = pp_hart s" "readopen (pp s') = readopen (pp s)" "nread (pp s') = nread (pp s)"
    and "pipe_queue (pp s') = pipe_queue (pp s) @ [snd (get (addr + of_int i) (pp_mem s))]" "i < n" "\<not> (readopen (pp s) = 0 \<or> dead (pp_mem s))"
  shows "write_post dead get addr n i s out t"
proof -
  obtain j where "pi_rest t" "pipe_ok (pp t)" "pp_mem t = pp_mem s" "pp_hart t = pp_hart s" "nread (pp t) = nread (pp s)" "i + 1 \<le> j" "j \<le> max (i + 1) n"
    "pipe_queue (pp t) = pipe_queue (pp s) @ snd (get (addr + of_int i) (pp_mem s)) # sent get addr (pp_mem s) (i + 1) j"
    "case out of Asleep k \<Rightarrow> k = j \<and> j < n \<and> length (pipe_queue (pp t)) = PIPESIZE
      | Done r \<Rightarrow> r = j \<and> (j < n \<longrightarrow> fst (get (addr + of_int j) (pp_mem s)) = -1)"
    using assms(1,8) unfolding write_post_def assms(2-6) by auto
  then show ?thesis unfolding write_post_def using assms(7,8) by (intro conjI exI [of _ j]) (simp_all add: sent_simps(2))
qed

lemma pipewrite_loop_spec:
  assumes "pi_held s" "pipe_ok (pp s)"
  shows "wp (pipewrite_loop dead get addr n i s) (\<lambda>(out, t). write_post dead get addr n i s out t)"
  using assms
proof (induction dead get addr n i s rule: pipewrite_loop.induct)
  case (1 dead get addr n i s)
  let ?p = "pp s"
  let ?c = "snd (get (addr + of_int i) (pp_mem s))"
  let ?s = "s\<lparr>pp := ?p\<lparr>pi_data := (pi_data ?p)[unat (nwrite ?p) mod PIPESIZE := ?c], nwrite := nwrite ?p + 1\<rparr>\<rparr>"
  note stop = write_stops [OF "1.prems"] write_stops [of "pi_wakeup NRead s", simplified write_post_wakeup pi_held_pp pi_wakeup_sel, OF "1.prems"]
  consider "\<not> i < n" | "i < n" "readopen ?p = 0 \<or> dead (pp_mem s)" | "i < n" "\<not> (readopen ?p = 0 \<or> dead (pp_mem s))" "nwrite ?p = nread ?p + of_nat PIPESIZE"
    | "i < n" "\<not> (readopen ?p = 0 \<or> dead (pp_mem s))" "nwrite ?p \<noteq> nread ?p + of_nat PIPESIZE" "fst (get (addr + of_int i) (pp_mem s)) = -1"
    | "i < n" "\<not> (readopen ?p = 0 \<or> dead (pp_mem s))" "nwrite ?p \<noteq> nread ?p + of_nat PIPESIZE" "fst (get (addr + of_int i) (pp_mem s)) \<noteq> -1"
    by blast
  then show ?case
  proof cases
    case 5
    have push: "pipe_queue (pp ?s) = pipe_queue ?p @ [?c]" "pipe_ok (pp ?s)"
      using ring_push [OF "1.prems"(2) [unfolded pipe_ok_def] 5(3)] by (simp_all add: pipe_queue_def pipe_ok_def)
    have "wp (pipewrite_loop dead get addr n (i + 1) ?s) (\<lambda>(out, t). write_post dead get addr n (i + 1) ?s out t)"
      by (rule "1.IH" [OF refl 5(1-3) refl prod.collapse 5(4)]) (use push(2) "1.prems"(1) 5(1) in simp_all)
    then have "wp (pipewrite_loop dead get addr n (i + 1) ?s) (\<lambda>(out, t). write_post dead get addr n i s out t)"
      by (rule wp_mono) (use push(1) 5(1,2) in \<open>auto elim!: write_post_step\<close>)
    then show ?thesis using 5 by (subst pipewrite_loop.simps) (simp add: Let_def case_prod_beta)
  next
    case 1
    then show ?thesis using stop(2) [where out = "Done i"] by (subst pipewrite_loop.simps) (simp add: Let_def)
  next
    case 2
    then show ?thesis using stop(1) [where out = "Done (-1)"] by (subst pipewrite_loop.simps) (simp add: Let_def)
  next
    case 3
    then have "length (pipe_queue ?p) = PIPESIZE" by (simp add: pipe_queue_def PIPESIZE_def)
    then show ?thesis using 3 stop(2) [where out = "Asleep i"] by (subst pipewrite_loop.simps) (simp add: Let_def)
  next
    case 4
    then show ?thesis using stop(2) [where out = "Done i"] by (subst pipewrite_loop.simps) (simp add: Let_def case_prod_beta)
  qed
qed

section \<open>Reading\<close>

text \<open>A part of a read takes a prefix of the queue and hands it, byte by byte, to the copy to user memory.\<close>

fun puts :: "(uint64 \<Rightarrow> uchar \<Rightarrow> 'u \<Rightarrow> int \<times> 'u) \<Rightarrow> uint64 \<Rightarrow> int \<Rightarrow> uchar list \<Rightarrow> 'u \<Rightarrow> 'u" where
  "puts put addr i [] u = u"
| "puts put addr i (c # cs) u = puts put addr (i + 1) cs (snd (put (addr + of_int i) c u))"

lemma piperead_loop_spec:
  assumes "pipe_ok (pp s)" "piperead_loop put addr n i s = (j, t)"
  shows "pipe_ok (pp t) \<and> pi_lock (pp t) = pi_lock (pp s) \<and> pp_cpu t = pp_cpu s \<and> pp_hart t = pp_hart s \<and> i \<le> j \<and> j \<le> max i n \<and>
    (\<exists>xs. pipe_queue (pp s) = xs @ pipe_queue (pp t) \<and> pp_mem t = puts put addr i xs (pp_mem s) \<and>
      (int (length xs) = j - i \<and> (j < n \<longrightarrow> pipe_queue (pp t) = []) \<or> int (length xs) = j - i + 1 \<and> j < n))"
  using assms
proof (induction put addr n i s rule: piperead_loop.induct)
  case (1 put addr n i s)
  let ?p = "pp s"
  let ?c = "pi_data ?p ! (unat (nread ?p) mod PIPESIZE)"
  let ?r = "put (addr + of_int i) ?c (pp_mem s)"
  let ?s = "s\<lparr>pp := ?p\<lparr>nread := nread ?p + 1\<rparr>, pp_mem := snd ?r\<rparr>"
  note run = "1.prems"(2) [unfolded piperead_loop.simps [of put addr n i s] Let_def case_prod_beta]
  consider "\<not> i < n" | "i < n" "nread ?p = nwrite ?p" | "i < n" "nread ?p \<noteq> nwrite ?p" "fst ?r = -1" | "i < n" "nread ?p \<noteq> nwrite ?p" "fst ?r \<noteq> -1"
    by blast
  then show ?case
  proof cases
    case 2
    then show ?thesis using run "1.prems"(1) ring_empty [of PIPESIZE "nread ?p" "nwrite ?p" "pi_data ?p"] by (auto simp: pipe_queue_def intro!: exI [of _ "[]"])
  next
    case 3
    then show ?thesis using run ring_pop [OF "1.prems"(1) [unfolded pipe_ok_def] 3(2)]
      by (auto simp: pipe_queue_def pipe_ok_def intro!: exI [of _ "[?c]"])
  next
    case 4
    note pop = ring_pop [OF "1.prems"(1) [unfolded pipe_ok_def] 4(2)]
    have q: "pipe_queue ?p = ?c # pipe_queue (pp ?s)" "pipe_ok (pp ?s)" using pop by (simp_all add: pipe_queue_def pipe_ok_def)
    have "piperead_loop put addr n (i + 1) ?s = (j, t)" using run 4 by simp
    from "1.IH" [OF 4(1,2) refl refl prod.collapse refl 4(3) q(2) this] 4(1)
    obtain xs where xs: "pipe_queue (pp ?s) = xs @ pipe_queue (pp t)" "pp_mem t = puts put addr (i + 1) xs (pp_mem ?s)"
      "int (length xs) = j - (i + 1) \<and> (j < n \<longrightarrow> pipe_queue (pp t) = []) \<or> int (length xs) = j - (i + 1) + 1 \<and> j < n"
      and rest: "pipe_ok (pp t)" "pi_lock (pp t) = pi_lock ?p" "pp_cpu t = pp_cpu s" "pp_hart t = pp_hart s" "i + 1 \<le> j" "j \<le> max (i + 1) n" by auto
    then show ?thesis using q(1) 4(1) by (auto intro!: exI [of _ "?c # xs"])
  qed (use run "1.prems" in \<open>auto intro!: exI [of _ "[]"]\<close>)
qed

section \<open>Interleavings\<close>

text \<open>
  The memory of the processes comes with a record of the bytes the pipe has handed to readers. \<open>pipe_run s ws\<close>:
  the pipe can be in the state \<open>s\<close> after the bytes \<open>ws\<close> were written to it, by any sequence of parts of writes,
  of reads and of closes, by any processes on any harts.
\<close>

definition recording :: "(uint64 \<Rightarrow> uchar \<Rightarrow> 'u \<Rightarrow> int \<times> 'u) \<Rightarrow> uint64 \<Rightarrow> uchar \<Rightarrow> 'u \<times> uchar list \<Rightarrow> int \<times> 'u \<times> uchar list" where
  "recording put a c ul = (let (r, u) = put a c (fst ul) in (r, u, snd ul @ [c]))"

lemma puts_recording: "snd (puts (recording put) addr i xs ul) = snd ul @ xs"
  by (induction xs arbitrary: i ul) (simp_all add: recording_def case_prod_beta)

inductive pipe_run :: "('u \<times> uchar list) pipest \<Rightarrow> uchar list \<Rightarrow> bool" where
  created: "length d = PIPESIZE \<Longrightarrow> cpu_ok c \<Longrightarrow> pipe_run \<lparr>pp = pipe_init d, pp_hart = hn, pp_cpu = c, pp_mem = (u, []), pp_woken = []\<rparr> []"
| writes: "pipe_run s ws \<Longrightarrow> pipewrite_again dead get addr n i s = Inr (out, t) \<Longrightarrow>
    pipe_run t (ws @ sent get addr (pp_mem s) i (i + uint (nwrite (pp t) - nwrite (pp s))))"
| reads: "pipe_run s ws \<Longrightarrow> piperead dead (recording put) addr n s = Inr (out, t) \<Longrightarrow> pipe_run t ws"
| closes: "pipe_run s ws \<Longrightarrow> pipeclose writable s = Inr (fr, t) \<Longrightarrow> pipe_run t ws"
| others: "pipe_run s ws \<Longrightarrow> cpu_ok c \<Longrightarrow> pipe_run (s\<lparr>pp_hart := hn, pp_cpu := c, pp_mem := (u, snd (pp_mem s))\<rparr>) ws"

lemma write_part:
  assumes "pi_rest s" "pipe_ok (pp s)" "pipewrite_again dead get addr n i s = Inr (out, t)"
  shows "pi_rest t \<and> pipe_ok (pp t) \<and> pp_mem t = pp_mem s \<and>
     pipe_queue (pp t) = pipe_queue (pp s) @ sent get addr (pp_mem s) i (i + uint (nwrite (pp t) - nwrite (pp s)))"
proof -
  obtain a where a: "pi_acquire s = Inr a" "pi_held a" "pp_mem a = pp_mem s" "pp a = (pp s)\<lparr>pi_lock := pi_lock (pp a)\<rparr>"
    using pi_acquire_rest [OF assms(1)] by blast
  have q: "pipe_ok (pp a)" "pipe_queue (pp a) = pipe_queue (pp s)" "nread (pp a) = nread (pp s)" using assms(2) by (subst a(4), simp)+
  have "pipewrite_loop dead get addr n i a = Inr (out, t)" using assms(3) a(1) by (simp add: pipewrite_again_def)
  then have "write_post dead get addr n i a out t" using pipewrite_loop_spec [OF a(2) q(1), of dead get addr n i] by simp
  then obtain j where j: "pi_rest t" "pipe_ok (pp t)" "pp_mem t = pp_mem s" "nread (pp t) = nread (pp s)" "i \<le> j"
    "pipe_queue (pp t) = pipe_queue (pp s) @ sent get addr (pp_mem s) i j"
    unfolding write_post_def q(2,3) a(3) by auto
  let ?r = "nread (pp s)" and ?w = "nwrite (pp s)" and ?v = "nwrite (pp t)"
  have len: "unat (?v - ?r) = unat (?w - ?r) + nat (j - i)"
    using arg_cong [OF j(6), of length] j(4) by (simp add: pipe_queue_def sent_def)
  then have "unat ((?v - ?r) - (?w - ?r)) = nat (j - i)" by (subst unat_sub) (simp_all add: word_le_nat_alt)
  then have "uint (?v - ?w) = j - i" using j(5) by (simp add: uint_nat)
  then show ?thesis using j by simp
qed

lemma read_part:
  assumes "pi_rest s" "pipe_ok (pp s)" "piperead dead (recording put) addr n s = Inr (out, t)"
  shows "pi_rest t \<and> pipe_ok (pp t) \<and> snd (pp_mem s) @ pipe_queue (pp s) = snd (pp_mem t) @ pipe_queue (pp t)"
proof -
  obtain a where a: "pi_acquire s = Inr a" "pi_held a" "pp_mem a = pp_mem s" "pp a = (pp s)\<lparr>pi_lock := pi_lock (pp a)\<rparr>"
    using pi_acquire_rest [OF assms(1)] by blast
  have q: "pipe_ok (pp a)" "pipe_queue (pp a) = pipe_queue (pp s)" using assms(2) by (subst a(4), simp)+
  obtain j b where b: "piperead_loop (recording put) addr n 0 a = (j, b)" by (cases "piperead_loop (recording put) addr n 0 a")
  from piperead_loop_spec [OF q(1) b] obtain xs where xs: "pipe_queue (pp s) = xs @ pipe_queue (pp b)" "pp_mem b = puts (recording put) addr 0 xs (pp_mem s)"
    and k: "pipe_ok (pp b)" "pi_lock (pp b) = pi_lock (pp a)" "pp_cpu b = pp_cpu a" "pp_hart b = pp_hart a"
    unfolding q(2) a(3) by blast
  have hb: "pi_held (pi_wakeup NWrite b)" using a(2) k by (simp add: pi_held_def pi_wakeup_def)
  obtain c where c: "pi_release a = Inr c" "pi_rest c" "pp_mem c = pp_mem a" "pp c = (pp a)\<lparr>pi_lock := pi_lock (pp c)\<rparr>"
    using pi_release_held [OF a(2)] by blast
  obtain e where e: "pi_release (pi_wakeup NWrite b) = Inr e" "pi_rest e" "pp_mem e = pp_mem b" "pp e = (pp b)\<lparr>pi_lock := pi_lock (pp e)\<rparr>"
    using pi_release_held [OF hb] by auto
  have "pipe_ok (pp c)" "pipe_queue (pp c) = pipe_queue (pp s)" using q by (subst c(4), simp)+
  moreover have "pipe_ok (pp e)" "pipe_queue (pp e) = pipe_queue (pp b)" using k(1) by (subst e(4), simp)+
  moreover have "t = c \<or> t = e" using assms(3) a(1) b c(1) e(1) by (auto simp: piperead_def split: if_splits)
  ultimately show ?thesis using c(2,3) e(2,3) a(3) xs puts_recording [of put addr 0 xs "pp_mem s"] by auto
qed

lemma close_part:
  assumes "pi_rest s" "pipe_ok (pp s)" "pipeclose writable s = Inr (fr, t)"
  shows "pi_rest t \<and> pipe_ok (pp t) \<and> pp_mem t = pp_mem s \<and> pipe_queue (pp t) = pipe_queue (pp s)"
proof -
  obtain a where a: "pi_acquire s = Inr a" "pi_held a" "pp_mem a = pp_mem s" "pp a = (pp s)\<lparr>pi_lock := pi_lock (pp a)\<rparr>"
    using pi_acquire_rest [OF assms(1)] by blast
  have q: "pipe_ok (pp a)" "pipe_queue (pp a) = pipe_queue (pp s)" using assms(2) by (subst a(4), simp)+
  let ?b = "if writable then pi_wakeup NRead (a\<lparr>pp := (pp a)\<lparr>writeopen := 0\<rparr>\<rparr>) else pi_wakeup NWrite (a\<lparr>pp := (pp a)\<lparr>readopen := 0\<rparr>\<rparr>)"
  have "pi_held ?b" using a(2) by simp
  then obtain c where c: "pi_release ?b = Inr c" "pi_rest c" "pp_mem c = pp_mem ?b" "pp c = (pp ?b)\<lparr>pi_lock := pi_lock (pp c)\<rparr>"
    using pi_release_held by blast
  have "t = c" using assms(3) a(1) c(1) by (simp add: pipeclose_def)
  moreover have "pipe_ok (pp c)" "pipe_queue (pp c) = pipe_queue (pp s)" using q by (subst c(4), simp add: pipe_ok_def pipe_queue_def)+
  ultimately show ?thesis using c(2,3) a(3) by simp
qed

lemma pipe_run_fifo:
  assumes "pipe_run s ws"
  shows "pi_rest s \<and> pipe_ok (pp s) \<and> ws = snd (pp_mem s) @ pipe_queue (pp s)"
  using assms
proof induction
  case (created d c hn u)
  then show ?case by (simp add: pi_rest_def pipe_init_def pipe_ok_def ring_fits_def PIPESIZE_def pipe_queue_def ring_items_def)
next
  case (writes s ws dead get addr n i out t)
  then show ?case using write_part [of s dead get addr n i out t] by simp
next
  case (reads s ws dead put addr n out t)
  then show ?case using read_part [of s dead put addr n out t] by simp
next
  case (closes s ws writable fr t)
  then show ?case using close_part [of s writable fr t] by simp
next
  case (others s ws c hn u)
  then show ?case by (simp add: pi_rest_def)
qed

end
