(* ===== verification/Bio.thy ===== *)
theory Bio
  imports Virtio
begin

text \<open>
  The buffer cache (\<^verbatim>\<open>kernel/bio.c\<close>): a ring of buffers in the order of their last use, on the disk
  driver.
\<close>

section \<open>The cache\<close>

text \<open>Pointers into the array \<^verbatim>\<open>bcache.buf\<close> and to the head, which follows it, count in buffers.\<close>

definition NBUF :: nat where
  "NBUF = 30"

definition bcache_buf :: "nat \<Rightarrow> nat" where
  "bcache_buf i = 1000 + i"

definition bcache_head :: nat where
  "bcache_head = bcache_buf NBUF"

text \<open>
  The buffers themselves are those of the driver. \<open>wrote\<close> is a history of the blocks written, in
  order; nothing reads it.
\<close>

record 'm bcache =
  bv :: "'m vstate"
  bc_lock :: spinlock
  bnext :: "nat \<Rightarrow> nat"
  bprev :: "nat \<Rightarrow> nat"
  wrote :: "(nat \<times> block) list"

abbreviation bb :: "'m bcache \<Rightarrow> nat \<Rightarrow> buf" where
  "bb s b \<equiv> bufs (bv s) b"

definition set_buf :: "nat \<Rightarrow> (buf \<Rightarrow> buf) \<Rightarrow> 'm bcache \<Rightarrow> 'm bcache" where
  "set_buf b f s = s\<lparr>bv := (bv s)\<lparr>bufs := (bufs (bv s))(b := f (bufs (bv s) b))\<rparr>\<rparr>"

definition bc_acquire :: "'m bcache \<Rightarrow> 'm bcache res" where
  "bc_acquire s = kbind (acquire (hart (bv s)) (vcpu (bv s), bc_lock s)) (\<lambda>(c, l).
     Inr (s\<lparr>bv := (bv s)\<lparr>vcpu := c\<rparr>, bc_lock := l\<rparr>))"

definition bc_release :: "'m bcache \<Rightarrow> 'm bcache res" where
  "bc_release s = kbind (release (hart (bv s)) (vcpu (bv s), bc_lock s)) (\<lambda>(c, l).
     Inr (s\<lparr>bv := (bv s)\<lparr>vcpu := c\<rparr>, bc_lock := l\<rparr>))"

text \<open>\<open>p\<close> is the pid of the calling process.\<close>

definition b_acquiresleep :: "int \<Rightarrow> nat \<Rightarrow> 'm bcache \<Rightarrow> 'm bcache res" where
  "b_acquiresleep p b s = kbind (acquiresleep (hart (bv s)) p (vcpu (bv s), b_lock (bb s b))) (\<lambda>(c, l).
     Inr (set_buf b (\<lambda>x. x\<lparr>b_lock := l\<rparr>) (s\<lparr>bv := (bv s)\<lparr>vcpu := c\<rparr>\<rparr>)))"

definition b_releasesleep :: "nat \<Rightarrow> 'm bcache \<Rightarrow> 'm bcache res" where
  "b_releasesleep b s = kbind (releasesleep (hart (bv s)) (vcpu (bv s), b_lock (bb s b))) (\<lambda>(c, l).
     Inr (set_buf b (\<lambda>x. x\<lparr>b_lock := l\<rparr>) (s\<lparr>bv := (bv s)\<lparr>vcpu := c\<rparr>\<rparr>)))"

definition b_holdingsleep :: "int \<Rightarrow> nat \<Rightarrow> 'm bcache \<Rightarrow> (bool \<times> 'm bcache) res" where
  "b_holdingsleep p b s = kbind (holdingsleep (hart (bv s)) p (vcpu (bv s), b_lock (bb s b))) (\<lambda>(r, c, l).
     Inr (r, set_buf b (\<lambda>x. x\<lparr>b_lock := l\<rparr>) (s\<lparr>bv := (bv s)\<lparr>vcpu := c\<rparr>\<rparr>)))"

section \<open>Operations\<close>

text \<open>Linking a buffer in behind the head.\<close>

definition link_front :: "nat \<Rightarrow> 'm bcache \<Rightarrow> 'm bcache" where
  "link_front b s =
     (let s = s\<lparr>bnext := (bnext s)(b := bnext s bcache_head)\<rparr>;
          s = s\<lparr>bprev := (bprev s)(b := bcache_head)\<rparr>;
          s = s\<lparr>bprev := (bprev s)(bnext s bcache_head := b)\<rparr>
      in s\<lparr>bnext := (bnext s)(bcache_head := b)\<rparr>)"

definition binit :: "'m bcache \<Rightarrow> 'm bcache" where
  "binit s =
     fold (\<lambda>i s. link_front (bcache_buf i) (set_buf (bcache_buf i) (\<lambda>x. x\<lparr>b_lock := initsleeplock ''buffer''\<rparr>) s)) [0..<NBUF]
       (s\<lparr>bc_lock := initlock ''bcache'', bprev := (bprev s)(bcache_head := bcache_head),
          bnext := (bnext s)(bcache_head := bcache_head)\<rparr>)"

text \<open>The loops of \<^verbatim>\<open>bget\<close>, along \<open>next\<close> or \<open>prev\<close>; a list that does not come back to the head is walked forever.\<close>

partial_function (option) bfind :: "(nat \<Rightarrow> nat) \<Rightarrow> (nat \<Rightarrow> bool) \<Rightarrow> nat \<Rightarrow> nat option option" where
  "bfind nx P b = (if b = bcache_head then Some None else if P b then Some (Some b) else bfind nx P (nx b))"

definition bget :: "int \<Rightarrow> uint32 \<Rightarrow> uint32 \<Rightarrow> 'm bcache \<Rightarrow> (nat \<times> 'm bcache) res" where
  "bget p dev blockno s =
     kbind (bc_acquire s) (\<lambda>s.
     case bfind (bnext s) (\<lambda>b. b_dev (bb s b) = dev \<and> b_blockno (bb s b) = blockno) (bnext s bcache_head) of
       None \<Rightarrow> Inl Blocked
     | Some (Some b) \<Rightarrow>
         kbind (bc_release (set_buf b (\<lambda>x. x\<lparr>b_refcnt := b_refcnt x + 1\<rparr>) s)) (\<lambda>s.
         kbind (b_acquiresleep p b s) (\<lambda>s. Inr (b, s)))
     | Some None \<Rightarrow>
        (case bfind (bprev s) (\<lambda>b. b_refcnt (bb s b) = 0) (bprev s bcache_head) of
           None \<Rightarrow> Inl Blocked
         | Some (Some b) \<Rightarrow>
             kbind (bc_release (set_buf b (\<lambda>x. x\<lparr>b_dev := dev, b_blockno := blockno, b_valid := 0, b_refcnt := 1\<rparr>) s)) (\<lambda>s.
             kbind (b_acquiresleep p b s) (\<lambda>s. Inr (b, s)))
         | Some None \<Rightarrow> Inl (Panic ''bget: no buffers'')))"

text \<open>\<^verbatim>\<open>VIRTIO0_ID\<close> is 0.\<close>

definition bread :: "'m hw \<Rightarrow> int \<Rightarrow> uint32 \<Rightarrow> uint32 \<Rightarrow> 'm bcache \<Rightarrow> (nat \<times> 'm bcache) res" where
  "bread h p dev blockno s =
     kbind (bget p dev blockno s) (\<lambda>(b, s).
     if b_valid (bb s b) = 0
     then kbind (virtio_disk_rw h 0 b False (bv s)) (\<lambda>v. Inr (b, set_buf b (\<lambda>x. x\<lparr>b_valid := 1\<rparr>) (s\<lparr>bv := v\<rparr>)))
     else Inr (b, s))"

definition bwrite :: "'m hw \<Rightarrow> int \<Rightarrow> nat \<Rightarrow> 'm bcache \<Rightarrow> 'm bcache res" where
  "bwrite h p b s =
     kbind (b_holdingsleep p b s) (\<lambda>(held, s).
     if \<not> held then Inl (Panic ''bwrite'')
     else kbind (virtio_disk_rw h 0 b True (bv s)) (\<lambda>v.
          Inr (s\<lparr>bv := v, wrote := wrote s @ [(unat (b_blockno (bb s b)), b_data (bb s b))]\<rparr>)))"

definition brelse :: "int \<Rightarrow> nat \<Rightarrow> 'm bcache \<Rightarrow> 'm bcache res" where
  "brelse p b s =
     kbind (b_holdingsleep p b s) (\<lambda>(held, s).
     if \<not> held then Inl (Panic ''brelse'')
     else kbind (b_releasesleep b s) (\<lambda>s.
          kbind (bc_acquire s) (\<lambda>s.
          let s = set_buf b (\<lambda>x. x\<lparr>b_refcnt := b_refcnt x - 1\<rparr>) s in
          bc_release
            (if b_refcnt (bb s b) = 0
             then let s = s\<lparr>bprev := (bprev s)(bnext s b := bprev s b)\<rparr>;
                      s = s\<lparr>bnext := (bnext s)(bprev s b := bnext s b)\<rparr>
                  in link_front b s
             else s))))"

definition bpin :: "nat \<Rightarrow> 'm bcache \<Rightarrow> 'm bcache res" where
  "bpin b s = kbind (bc_acquire s) (\<lambda>s. bc_release (set_buf b (\<lambda>x. x\<lparr>b_refcnt := b_refcnt x + 1\<rparr>) s))"

definition bunpin :: "nat \<Rightarrow> 'm bcache \<Rightarrow> 'm bcache res" where
  "bunpin b s = kbind (bc_acquire s) (\<lambda>s. bc_release (set_buf b (\<lambda>x. x\<lparr>b_refcnt := b_refcnt x - 1\<rparr>) s))"

text \<open>The owner of a buffer changes its data.\<close>

definition set_data :: "nat \<Rightarrow> block \<Rightarrow> 'm bcache \<Rightarrow> 'm bcache" where
  "set_data b x s = set_buf b (\<lambda>y. y\<lparr>b_data := x\<rparr>) s"

end
