(* ===== verification/Bio_Ring.thy ===== *)
theory Bio_Ring
  imports Bio
begin

text \<open>
  The doubly linked ring of the buffer cache represents a list, most recently used buffer first; the
  pointer operations of \<^verbatim>\<open>bio.c\<close> are list operations.
\<close>

section \<open>Paths\<close>

text \<open>Following \<open>nx\<close> from \<open>a\<close> visits \<open>xs\<close> and then \<open>c\<close>.\<close>

fun ring_path :: "(nat \<Rightarrow> nat) \<Rightarrow> nat \<Rightarrow> nat list \<Rightarrow> nat \<Rightarrow> bool" where
  "ring_path nx a [] c \<longleftrightarrow> nx a = c"
| "ring_path nx a (x # xs) c \<longleftrightarrow> nx a = x \<and> ring_path nx x xs c"

lemma path_append [simp]: "ring_path nx a (ys @ b # zs) c \<longleftrightarrow> ring_path nx a ys b \<and> ring_path nx b zs c"
  by (induction ys arbitrary: a) auto

lemma path_upd [simp]: "q \<noteq> a \<Longrightarrow> q \<notin> set xs \<Longrightarrow> ring_path (nx(q := v)) a xs c = ring_path nx a xs c"
  by (induction xs arbitrary: a) auto

lemma path_first: "ring_path nx a xs c \<Longrightarrow> nx a = hd (xs @ [c])"
  by (cases xs) auto

lemma path_last: "ring_path nx a xs c \<Longrightarrow> nx (last (a # xs)) = c"
  by (induction xs arbitrary: a) auto

lemma path_set_last:
  "distinct (a # xs) \<Longrightarrow> ring_path nx a xs c \<Longrightarrow> ring_path (nx(last (a # xs) := d)) a xs d"
proof (induction xs arbitrary: a)
  case (Cons x xs)
  then have "a \<noteq> last (x # xs)" by (metis distinct.simps(2) last_in_set list.distinct(1))
  then show ?case using Cons by simp
qed simp

lemma path_join: "ring_path nx a xs b \<Longrightarrow> ring_path nx b ys c \<Longrightarrow> ring_path nx a (xs @ b # ys) c"
  by simp

text \<open>Taking \<open>b\<close> out.\<close>

lemma path_unlink:
  assumes "ring_path nx a (ys @ b # zs) c" "distinct (a # ys @ b # zs)"
  shows "ring_path (nx(last (a # ys) := nx b)) a (ys @ zs) c"
proof -
  have p: "ring_path nx a ys b" "ring_path nx b zs c" using assms(1) by simp_all
  have d: "distinct (a # ys)" "last (a # ys) \<noteq> b" "last (a # ys) \<notin> set zs" using assms(2) last_in_set [of "a # ys"]
    by (auto split: if_splits dest: last_in_set)
  show ?thesis
  proof (cases zs)
    case Nil
    then show ?thesis using path_set_last [OF d(1) p(1), of "nx b"] p(2) by simp
  next
    case (Cons z zs')
    then have z: "nx b = z" "ring_path nx z zs' c" using p(2) by simp_all
    have "last (a # ys) \<noteq> z" "last (a # ys) \<notin> set zs'" using d Cons by auto
    then show ?thesis using path_set_last [OF d(1) p(1), of z] z Cons by simp
  qed
qed

lemma bfind_path: "ring_path nx a xs bcache_head \<Longrightarrow> bcache_head \<notin> set xs \<Longrightarrow> bfind nx P (nx a) = Some (find P xs)"
proof (induction xs arbitrary: a)
  case Nil
  then show ?case by (simp add: bfind.simps)
next
  case (Cons x xs)
  then show ?case using Cons.IH [of x] by (simp add: bfind.simps [of nx P x])
qed

section \<open>The ring\<close>

definition bset :: "nat set" where
  "bset = bcache_buf ` {..<NBUF}"

lemma bset_finite [simp]: "finite bset"
  by (simp add: bset_def)

lemma head_notin [simp]: "bcache_head \<notin> bset" "b \<in> bset \<Longrightarrow> b \<noteq> bcache_head" "b \<in> bset \<Longrightarrow> bcache_head \<noteq> b"
  by (auto simp: bset_def bcache_head_def bcache_buf_def)

lemma card_bset: "card bset = NBUF"
  by (simp add: bset_def card_image bcache_buf_def inj_on_def)

definition ring :: "(nat \<Rightarrow> nat) \<Rightarrow> (nat \<Rightarrow> nat) \<Rightarrow> nat list \<Rightarrow> bool" where
  "ring nx pv xs \<longleftrightarrow> distinct (bcache_head # xs) \<and> ring_path nx bcache_head xs bcache_head \<and> ring_path pv bcache_head (rev xs) bcache_head"

lemma ring_bfind:
  assumes "ring nx pv xs"
  shows "bfind nx P (nx bcache_head) = Some (find P xs)" "bfind pv P (pv bcache_head) = Some (find P (rev xs))"
  using assms by (auto simp: ring_def intro!: bfind_path)

lemma hd_last_rev: "hd (xs @ [a]) = last (a # rev xs)"
  by (cases xs) auto

lemma ring_link:
  assumes "ring nx pv xs" "b \<notin> set (bcache_head # xs)"
  shows "ring (nx(b := nx bcache_head, bcache_head := b)) (pv(b := bcache_head, nx bcache_head := b)) (b # xs)"
proof -
  let ?h = bcache_head
  have d: "distinct (?h # xs)" "ring_path nx ?h xs ?h" "ring_path pv ?h (rev xs) ?h" using assms(1) by (simp_all add: ring_def)
  have b: "b \<noteq> ?h" "b \<notin> set xs" using assms(2) by auto
  have n: "ring_path (nx(b := nx ?h, ?h := b)) b xs ?h"
    using d b by (cases xs) auto
  have f: "nx ?h = last (?h # rev xs)" using path_first [OF d(2)] by (simp add: hd_last_rev)
  have "ring_path (pv(last (?h # rev xs) := b)) ?h (rev xs) b" using path_set_last [of ?h "rev xs" pv ?h b] d by simp
  then have "ring_path ((pv(last (?h # rev xs) := b))(b := ?h)) ?h (rev xs) b" using b by simp
  moreover have "b \<noteq> last (?h # rev xs)" using b last_in_set [of "?h # rev xs"] by auto
  ultimately have "ring_path (pv(b := ?h, nx ?h := b)) ?h (rev xs @ [b]) ?h" unfolding f by (simp add: fun_upd_twist)
  with n show ?thesis using d b by (simp add: ring_def)
qed

lemma ring_unlink:
  assumes "ring nx pv (ys @ b # zs)"
  shows "ring (nx(pv b := nx b)) (pv(nx b := pv b)) (ys @ zs)" "b \<notin> set (bcache_head # ys @ zs)"
proof -
  let ?h = bcache_head
  have d: "distinct (?h # ys @ b # zs)" and n: "ring_path nx ?h (ys @ b # zs) ?h" and p: "ring_path pv ?h (rev zs @ b # rev ys) ?h"
    using assms by (simp_all add: ring_def)
  have d': "distinct (?h # rev zs @ b # rev ys)" using d by auto
  have pb: "pv b = last (?h # ys)" using p path_first [of pv b "rev ys" ?h] hd_last_rev [of "rev ys" ?h] by simp
  have nb: "nx b = last (?h # rev zs)" using n path_first [of nx b zs ?h] hd_last_rev [of zs ?h] by simp
  have "ring_path (nx(pv b := nx b)) ?h (ys @ zs) ?h" using path_unlink [OF n d] by (simp only: pb)
  moreover have "ring_path (pv(nx b := pv b)) ?h (rev zs @ rev ys) ?h" using path_unlink [OF p d'] by (simp only: nb)
  ultimately show "ring (nx(pv b := nx b)) (pv(nx b := pv b)) (ys @ zs)" using d by (simp add: ring_def)
  show "b \<notin> set (?h # ys @ zs)" using d by auto
qed

text \<open>A released buffer moves to the front.\<close>

lemma ring_move_front:
  assumes "ring nx pv xs" "b \<in> set xs"
  shows "ring ((nx(pv b := nx b))(b := (nx(pv b := nx b)) bcache_head, bcache_head := b))
    ((pv(nx b := pv b))(b := bcache_head, (nx(pv b := nx b)) bcache_head := b)) (b # remove1 b xs)"
proof -
  obtain ys zs where xs: "xs = ys @ b # zs" "b \<notin> set ys" using assms(2) by (meson split_list_first)
  then have "remove1 b xs = ys @ zs" by (simp add: remove1_append)
  then show ?thesis using ring_link [OF ring_unlink [OF assms(1) [unfolded xs(1)]]] by simp
qed

lemma ring_next_ne:
  assumes "ring nx pv xs" "b \<in> set xs"
  shows "nx b \<noteq> b"
proof -
  obtain ys zs where xs: "xs = ys @ b # zs" using assms(2) by (meson split_list)
  then have "ring_path nx b zs bcache_head" "b \<notin> set (zs @ [bcache_head])" using assms(1) by (auto simp: ring_def)
  then show ?thesis using path_first [of nx b zs bcache_head] hd_in_set [of "zs @ [bcache_head]"] by auto
qed

text \<open>\<^verbatim>\<open>binit\<close> builds the ring of all buffers.\<close>

lemma link_front_ring:
  assumes "ring (bnext s) (bprev s) xs" "b \<notin> set (bcache_head # xs)"
  shows "ring (bnext (link_front b s)) (bprev (link_front b s)) (b # xs)"
  using ring_link [OF assms] by (simp add: link_front_def Let_def)

lemma binit_ring: "ring (bnext (binit s)) (bprev (binit s)) (rev (map bcache_buf [0..<NBUF]))"
proof -
  let ?f = "\<lambda>i s. link_front (bcache_buf i) (set_buf (bcache_buf i) (\<lambda>x. x\<lparr>b_lock := initsleeplock ''buffer''\<rparr>) s)"
  have "n \<le> NBUF \<Longrightarrow> ring (bnext s) (bprev s) [] \<Longrightarrow>
      ring (bnext (fold ?f [0..<n] s)) (bprev (fold ?f [0..<n] s)) (rev (map bcache_buf [0..<n]))" for n and s :: "'a bcache"
  proof (induction n)
    case (Suc n)
    have "bcache_buf n \<notin> set (bcache_head # rev (map bcache_buf [0..<n]))"
      using Suc.prems(1) by (auto simp: bcache_head_def bcache_buf_def)
    with Suc show ?case by (auto simp: set_buf_def intro!: link_front_ring)
  qed simp
  from this [of NBUF "s\<lparr>bc_lock := initlock ''bcache'', bprev := (bprev s)(bcache_head := bcache_head),
      bnext := (bnext s)(bcache_head := bcache_head)\<rparr>"] show ?thesis
    unfolding binit_def by (simp only: ring_def) simp
qed

text \<open>It changes nothing else but the locks.\<close>

lemma link_front_frame [simp]: "bv (link_front b s) = bv s" "wrote (link_front b s) = wrote s" "bc_lock (link_front b s) = bc_lock s"
  by (simp_all add: link_front_def Let_def)

lemma binit_frame: "wrote (binit s) = wrote s" "bc_lock (binit s) = initlock ''bcache''"
proof -
  let ?f = "\<lambda>i s. link_front (bcache_buf i) (set_buf (bcache_buf i) (\<lambda>x. x\<lparr>b_lock := initsleeplock ''buffer''\<rparr>) s)"
  have "wrote (fold ?f xs s) = wrote s \<and> bc_lock (fold ?f xs s) = bc_lock s" for xs and s :: "'a bcache"
    by (induction xs arbitrary: s) (simp_all add: set_buf_def)
  then show "wrote (binit s) = wrote s" "bc_lock (binit s) = initlock ''bcache''" by (simp_all add: binit_def)
qed

end
