(* ===== verification/Bio_Spec.thy ===== *)
theory Bio_Spec
  imports Bio_Ring
begin

text \<open>
  What the buffer cache promises: a view of the disk as blocks with a current and a written content,
  reference counts and owners, on which each operation of \<^verbatim>\<open>bio.c\<close> is a simple update.
\<close>

section \<open>The view\<close>

record bview =
  vcur :: "nat \<Rightarrow> block"
  vdisk :: "nat \<Rightarrow> block"
  vref :: "nat \<Rightarrow> nat"
  vheld :: "nat \<Rightarrow> int option"
  vwrote :: "(nat \<times> block) list"

definition v_get :: "int \<Rightarrow> nat \<Rightarrow> bview \<Rightarrow> bview" where
  "v_get p n v = v\<lparr>vref := (vref v)(n := vref v n + 1), vheld := (vheld v)(n := Some p)\<rparr>"

definition v_put :: "nat \<Rightarrow> bview \<Rightarrow> bview" where
  "v_put n v = v\<lparr>vref := (vref v)(n := vref v n - 1), vheld := (vheld v)(n := None)\<rparr>"

definition v_set :: "nat \<Rightarrow> block \<Rightarrow> bview \<Rightarrow> bview" where
  "v_set n x v = v\<lparr>vcur := (vcur v)(n := x)\<rparr>"

definition v_write :: "nat \<Rightarrow> bview \<Rightarrow> bview" where
  "v_write n v = v\<lparr>vdisk := (vdisk v)(n := vcur v n), vwrote := vwrote v @ [(n, vcur v n)]\<rparr>"

definition v_pin :: "nat \<Rightarrow> bview \<Rightarrow> bview" where
  "v_pin n v = v\<lparr>vref := (vref v)(n := vref v n + 1)\<rparr>"

definition v_unpin :: "nat \<Rightarrow> bview \<Rightarrow> bview" where
  "v_unpin n v = v\<lparr>vref := (vref v)(n := vref v n - 1)\<rparr>"

text \<open>A block can be got: nobody holds it, and it is in the cache or a buffer is free.\<close>

definition can_get :: "nat \<Rightarrow> nat \<Rightarrow> bview \<Rightarrow> bool" where
  "can_get cap n v \<longleftrightarrow> n < cap \<and> vheld v n = None \<and> vref v n + 1 < 2 ^ 32 \<and> (0 < vref v n \<or> card {m. 0 < vref v m} < NBUF)"

lemma copied_to_log:
  assumes "a \<noteq> m" "vheld v a = None" "vheld v m = None"
  shows "v_put a (v_put m (v_write a (v_set a x (v_get p m (v_get p a v))))) = v_write a (v_set a x v)"
  using assms by (cases v) (auto simp: v_get_def v_put_def v_write_def v_set_def fun_eq_iff)

lemma copied_home:
  assumes "a \<noteq> m" "vheld v a = None" "vheld v m = None"
  shows "v_put m (v_put a (v_write m (v_set m x (v_get p m (v_get p a v))))) = v_write m (v_set m x v)"
    "v_put m (v_put a (v_unpin m (v_write m (v_set m x (v_get p m (v_get p a v)))))) = v_unpin m (v_write m (v_set m x v))"
  using assms by (cases v; auto simp: v_get_def v_put_def v_write_def v_set_def v_unpin_def fun_eq_iff)+

section \<open>The interface\<close>

locale buffer_cache =
  fixes rd :: "nat \<Rightarrow> 's \<Rightarrow> (nat \<times> 's) res"
    and wr :: "nat \<Rightarrow> 's \<Rightarrow> 's res"
    and rel :: "nat \<Rightarrow> 's \<Rightarrow> 's res"
    and pin :: "nat \<Rightarrow> 's \<Rightarrow> 's res"
    and unpin :: "nat \<Rightarrow> 's \<Rightarrow> 's res"
    and upd :: "nat \<Rightarrow> block \<Rightarrow> 's \<Rightarrow> 's"
    and dat :: "nat \<Rightarrow> 's \<Rightarrow> block"
    and view :: "'s \<Rightarrow> bview"
    and inv :: "'s \<Rightarrow> bool"
    and hand :: "'s \<Rightarrow> nat \<Rightarrow> nat \<Rightarrow> bool"
    and me :: int
    and cap :: nat
  assumes rd_law: "inv s \<Longrightarrow> can_get cap n (view s) \<Longrightarrow>
      wp (rd n s) (\<lambda>(b, s'). inv s' \<and> view s' = v_get me n (view s) \<and> hand s' b n \<and> (\<forall>b' n'. hand s b' n' \<longrightarrow> hand s' b' n'))"
    and idle_law: "inv s \<Longrightarrow> vref (view s) n = 0 \<Longrightarrow> vcur (view s) n = vdisk (view s) n"
    and size_law: "inv s \<Longrightarrow> n < cap \<Longrightarrow> length (vcur (view s) n) = BSIZE"
    and dat_law: "inv s \<Longrightarrow> hand s b n \<Longrightarrow> dat b s = vcur (view s) n \<and> length (dat b s) = BSIZE"
    and upd_law: "inv s \<Longrightarrow> hand s b n \<Longrightarrow> length x = BSIZE \<Longrightarrow>
      inv (upd b x s) \<and> view (upd b x s) = v_set n x (view s) \<and> hand (upd b x s) = hand s"
    and wr_law: "inv s \<Longrightarrow> hand s b n \<Longrightarrow>
      wp (wr b s) (\<lambda>s'. inv s' \<and> view s' = v_write n (view s) \<and> hand s' = hand s)"
    and rel_law: "inv s \<Longrightarrow> hand s b n \<Longrightarrow> (vref (view s) n = 1 \<longrightarrow> vcur (view s) n = vdisk (view s) n) \<Longrightarrow>
      wp (rel b s) (\<lambda>s'. inv s' \<and> view s' = v_put n (view s) \<and> (\<forall>b' n'. n' \<noteq> n \<longrightarrow> hand s b' n' \<longrightarrow> hand s' b' n'))"
    and pin_law: "inv s \<Longrightarrow> hand s b n \<Longrightarrow> vref (view s) n + 1 < 2 ^ 32 \<Longrightarrow>
      wp (pin b s) (\<lambda>s'. inv s' \<and> view s' = v_pin n (view s) \<and> hand s' = hand s)"
    and unpin_law: "inv s \<Longrightarrow> hand s b n \<Longrightarrow> 1 < vref (view s) n \<Longrightarrow>
      wp (unpin b s) (\<lambda>s'. inv s' \<and> view s' = v_unpin n (view s) \<and> hand s' = hand s)"
begin

text \<open>Copying block \<open>n\<close> over block \<open>m\<close>, both got one after the other, and writing the copy.\<close>

lemma copy_and_write:
  assumes "inv s" "hand s a n" "hand s b m"
  shows "wp (wr b (upd b (dat a s) s)) (\<lambda>s'. inv s' \<and> view s' = v_write m (v_set m (vcur (view s) n) (view s)) \<and> hand s' = hand s)"
proof -
  have d: "dat a s = vcur (view s) n" "length (dat a s) = BSIZE" using dat_law [OF assms(1,2)] by blast+
  note u = upd_law [OF assms(1,3) d(2)]
  then have "hand (upd b (dat a s) s) b m" using assms(3) by simp
  with wr_law [of "upd b (dat a s) s" b m] u d(1) show ?thesis by simp
qed

text \<open>The laws as rules for the weakest precondition.\<close>

lemma wp_get:
  assumes "inv s" "can_get cap n (view s)"
    and "\<And>b t. inv t \<Longrightarrow> view t = v_get me n (view s) \<Longrightarrow> hand t b n \<Longrightarrow> (\<And>b' n'. hand s b' n' \<Longrightarrow> hand t b' n') \<Longrightarrow> Q (b, t)"
  shows "wp (rd n s) Q"
  using rd_law [OF assms(1,2)] by (rule wp_mono) (use assms(3) in auto)

lemma wp_copy:
  assumes "inv s" "hand s a n" "hand s b m"
    and "\<And>t. inv t \<Longrightarrow> view t = v_write m (v_set m (vcur (view s) n) (view s)) \<Longrightarrow> hand t = hand s \<Longrightarrow> Q t"
  shows "wp (wr b (upd b (dat a s) s)) Q"
  using copy_and_write [OF assms(1-3)] by (rule wp_mono) (use assms(4) in auto)

lemma wp_put:
  assumes "inv s" "hand s b n" "vref (view s) n = 1 \<longrightarrow> vcur (view s) n = vdisk (view s) n"
    and "\<And>t. inv t \<Longrightarrow> view t = v_put n (view s) \<Longrightarrow> (\<And>b' n'. n' \<noteq> n \<Longrightarrow> hand s b' n' \<Longrightarrow> hand t b' n') \<Longrightarrow> Q t"
  shows "wp (rel b s) Q"
  using rel_law [OF assms(1-3)] by (rule wp_mono) (use assms(4) in auto)

text \<open>
  The two ways the log copies a block: block \<open>m\<close> from the cache to the log block \<open>a\<close>, and the log block
  \<open>a\<close> home to block \<open>m\<close>, which drops a pin of \<open>m\<close> after a commit but not in a recovery.
\<close>

lemma copy_to_log:
  assumes "inv s" "a \<noteq> m" "can_get cap a (view s)" "can_get cap m (v_get me a (view s))" "0 < vref (view s) m"
  shows "wp (kbind (rd a s) (\<lambda>(x, s). kbind (rd m s) (\<lambda>(y, s). kbind (wr x (upd x (dat y s) s)) (\<lambda>s. kbind (rel y s) (rel x)))))
    (\<lambda>t. inv t \<and> view t = v_write a (v_set a (vcur (view s) m) (view s)))"
  unfolding wp_kbind
proof (rule wp_get [OF assms(1,3)], unfold prod.case wp_kbind)
  fix x t
  assume t: "inv t" "view t = v_get me a (view s)" "hand t x a"
  note held = assms(3,4) [unfolded can_get_def]
  have g: "can_get cap m (view t)" using t(2) assms(4) by simp
  show "wp (rd m t) (\<lambda>p. wp (case p of (y, s) \<Rightarrow> kbind (wr x (upd x (dat y s) s)) (\<lambda>s. kbind (rel y s) (rel x)))
      (\<lambda>t. inv t \<and> view t = v_write a (v_set a (vcur (view s) m) (view s))))"
  proof (rule wp_get [OF t(1) g], unfold prod.case wp_kbind)
    fix y u
    assume u: "inv u" "view u = v_get me m (view t)" "hand u y m" "\<And>b n. hand t b n \<Longrightarrow> hand u b n"
    show "wp (wr x (upd x (dat y u) u)) (\<lambda>w. wp (rel y w) (\<lambda>w. wp (rel x w) (\<lambda>t. inv t \<and> view t = v_write a (v_set a (vcur (view s) m) (view s)))))"
    proof (rule wp_copy [OF u(1,3) u(4) [OF t(3)]])
      fix w
      assume w: "inv w" "view w = v_write a (v_set a (vcur (view u) m) (view u))" "hand w = hand u"
      have ref: "vref (view w) m = 1 \<longrightarrow> vcur (view w) m = vdisk (view w) m"
        using assms(2,5) by (simp add: w(2) u(2) t(2) v_write_def v_set_def v_get_def)
      show "wp (rel y w) (\<lambda>w. wp (rel x w) (\<lambda>t. inv t \<and> view t = v_write a (v_set a (vcur (view s) m) (view s))))"
      proof (rule wp_put [OF w(1) _ ref])
        show "hand w y m" using w(3) u(3) by simp
        fix z
        assume z: "inv z" "view z = v_put m (view w)" "\<And>b n. n \<noteq> m \<Longrightarrow> hand w b n \<Longrightarrow> hand z b n"
        have "hand z x a" by (rule z(3) [OF assms(2)]) (simp add: w(3) u(4) [OF t(3)])
        then show "wp (rel x z) (\<lambda>t. inv t \<and> view t = v_write a (v_set a (vcur (view s) m) (view s)))"
        proof (rule wp_put [OF z(1)])
          show "vref (view z) a = 1 \<longrightarrow> vcur (view z) a = vdisk (view z) a"
            by (simp add: z(2) w(2) v_put_def v_write_def v_set_def)
          fix t'
          assume "inv t'" "view t' = v_put a (view z)"
          then show "inv t' \<and> view t' = v_write a (v_set a (vcur (view s) m) (view s))"
            using copied_to_log assms(2) held by (simp add: z(2) w(2) u(2) t(2) v_get_def)
        qed
      qed
    qed
  qed
qed

lemma wp_maybe_unpin:
  assumes "inv s" "hand s b n" "unp \<longrightarrow> 1 < vref (view s) n"
    and "\<And>t. inv t \<Longrightarrow> view t = (if unp then v_unpin n (view s) else view s) \<Longrightarrow> hand t = hand s \<Longrightarrow> Q t"
  shows "wp (if unp then unpin b s else Inr s) Q"
proof (cases unp)
  case True
  then have "1 < vref (view s) n" using assms(3) by simp
  from unpin_law [OF assms(1,2) this] have "wp (unpin b s) Q" by (rule wp_mono) (use assms(4) True in auto)
  then show ?thesis using True by simp
qed (use assms in simp)

text \<open>Reading one block, and changing one block in place.\<close>

lemma read_block:
  assumes "inv s" "can_get cap a (view s)" "vcur (view s) a = vdisk (view s) a"
    and "\<And>x t. dat x t = vcur (view s) a \<Longrightarrow> wp (rel x t) (\<lambda>u. inv u \<and> view u = view s) \<Longrightarrow> Q (x, t)"
  shows "wp (rd a s) Q"
proof (rule wp_get [OF assms(1,2)], rule assms(4))
  fix x t
  assume t: "inv t" "view t = v_get me a (view s)" "hand t x a"
  show "dat x t = vcur (view s) a" using dat_law [OF t(1,3)] by (simp add: t(2) v_get_def)
  show "wp (rel x t) (\<lambda>u. inv u \<and> view u = view s)"
  proof (rule wp_put [OF t(1,3)])
    fix u
    assume "inv u" "view u = v_put a (view t)"
    moreover have "v_put a (v_get me a (view s)) = view s"
      using assms(2) by (cases "view s") (auto simp: v_put_def v_get_def can_get_def fun_eq_iff)
    ultimately show "inv u \<and> view u = view s" using t(2) by simp
  qed (use assms(3) t(2) in \<open>simp add: v_get_def\<close>)
qed

lemma rewrite_block:
  assumes "inv s" "can_get cap a (view s)" "\<And>x. length x = BSIZE \<Longrightarrow> length (f x) = BSIZE"
  shows "wp (rd a s) (\<lambda>(x, t). wp (wr x (upd x (f (dat x t)) t))
     (\<lambda>t. wp (rel x t) (\<lambda>t. inv t \<and> view t = v_write a (v_set a (f (vcur (view s) a)) (view s)))))"
proof (rule wp_get [OF assms(1,2)], unfold prod.case)
  fix x t
  assume t: "inv t" "view t = v_get me a (view s)" "hand t x a"
  have d: "dat x t = vcur (view s) a" "length (f (dat x t)) = BSIZE"
    using dat_law [OF t(1,3)] assms(3) [of "dat x t"] by (auto simp: t(2) v_get_def)
  note u = upd_law [OF t(1,3) d(2)]
  then have "wp (wr x (upd x (f (dat x t)) t)) (\<lambda>w. inv w \<and> view w = v_write a (view (upd x (f (dat x t)) t)) \<and> hand w = hand t)"
    using wr_law [of "upd x (f (dat x t)) t" x a] t(3) by simp
  then show "wp (wr x (upd x (f (dat x t)) t))
     (\<lambda>t. wp (rel x t) (\<lambda>t. inv t \<and> view t = v_write a (v_set a (f (vcur (view s) a)) (view s))))"
  proof (rule wp_mono)
    fix w
    assume w: "inv w \<and> view w = v_write a (view (upd x (f (dat x t)) t)) \<and> hand w = hand t"
    then have hw: "inv w" "hand w x a" using t(3) by auto
    show "wp (rel x w) (\<lambda>t. inv t \<and> view t = v_write a (v_set a (f (vcur (view s) a)) (view s)))"
    proof (rule wp_put [OF hw])
      show "vref (view w) a = 1 \<longrightarrow> vcur (view w) a = vdisk (view w) a" using w by (simp add: v_write_def)
      fix z
      assume "inv z" "view z = v_put a (view w)"
      then show "inv z \<and> view z = v_write a (v_set a (f (vcur (view s) a)) (view s))"
        using w u assms(2) by (cases "view s") (auto simp: t(2) d(1) v_write_def v_set_def v_get_def v_put_def can_get_def fun_eq_iff)
    qed
  qed
qed

lemma copy_home:
  assumes "inv s" "a \<noteq> m" "can_get cap a (view s)" "can_get cap m (v_get me a (view s))"
    and "vcur (view s) a = vdisk (view s) a" "unp \<longrightarrow> 0 < vref (view s) m"
  defines "v' \<equiv> (if unp then v_unpin m (v_write m (v_set m (vcur (view s) a) (view s))) else v_write m (v_set m (vcur (view s) a) (view s)))"
  shows "wp (kbind (rd a s) (\<lambda>(x, s). kbind (rd m s) (\<lambda>(y, s). kbind (wr y (upd y (dat x s) s)) (\<lambda>s.
      kbind (if unp then unpin y s else Inr s) (\<lambda>s. kbind (rel x s) (rel y)))))) (\<lambda>t. inv t \<and> view t = v')"
  unfolding wp_kbind
proof (rule wp_get [OF assms(1,3)], unfold prod.case wp_kbind)
  fix x t
  assume t: "inv t" "view t = v_get me a (view s)" "hand t x a"
  note held = assms(3,4) [unfolded can_get_def]
  have g: "can_get cap m (view t)" using t(2) assms(4) by simp
  show "wp (rd m t) (\<lambda>p. wp (case p of (y, s) \<Rightarrow> kbind (wr y (upd y (dat x s) s)) (\<lambda>s.
      kbind (if unp then unpin y s else Inr s) (\<lambda>s. kbind (rel x s) (rel y)))) (\<lambda>t. inv t \<and> view t = v'))"
  proof (rule wp_get [OF t(1) g], unfold prod.case wp_kbind)
    fix y u
    assume u: "inv u" "view u = v_get me m (view t)" "hand u y m" "\<And>b n. hand t b n \<Longrightarrow> hand u b n"
    show "wp (wr y (upd y (dat x u) u)) (\<lambda>w. wp (if unp then unpin y w else Inr w) (\<lambda>w. wp (rel x w) (\<lambda>w. wp (rel y w) (\<lambda>t. inv t \<and> view t = v'))))"
    proof (rule wp_copy [OF u(1) u(4) [OF t(3)] u(3)])
      fix w
      assume w: "inv w" "view w = v_write m (v_set m (vcur (view u) a) (view u))" "hand w = hand u"
      have pin: "unp \<longrightarrow> 1 < vref (view w) m"
        using assms(2,6) by (auto simp: w(2) u(2) t(2) v_write_def v_set_def v_get_def)
      show "wp (if unp then unpin y w else Inr w) (\<lambda>w. wp (rel x w) (\<lambda>w. wp (rel y w) (\<lambda>t. inv t \<and> view t = v')))"
      proof (rule wp_maybe_unpin [OF w(1) _ pin])
        show "hand w y m" using w(3) u(3) by simp
        fix q
        assume q: "inv q" "view q = (if unp then v_unpin m (view w) else view w)" "hand q = hand w"
        have "hand q x a" using q(3) w(3) u(4) [OF t(3)] by simp
        then show "wp (rel x q) (\<lambda>w. wp (rel y w) (\<lambda>t. inv t \<and> view t = v'))"
        proof (rule wp_put [OF q(1)])
          show "vref (view q) a = 1 \<longrightarrow> vcur (view q) a = vdisk (view q) a"
            using assms(2,5) by (simp add: q(2) w(2) u(2) t(2) v_write_def v_set_def v_get_def v_unpin_def)
          fix z
          assume z: "inv z" "view z = v_put a (view q)" "\<And>b n. n \<noteq> a \<Longrightarrow> hand q b n \<Longrightarrow> hand z b n"
          have "hand z y m" by (rule z(3)) (use assms(2) q(3) w(3) u(3) in auto)
          then show "wp (rel y z) (\<lambda>t. inv t \<and> view t = v')"
          proof (rule wp_put [OF z(1)])
            show "vref (view z) m = 1 \<longrightarrow> vcur (view z) m = vdisk (view z) m"
              using assms(2) by (simp add: z(2) q(2) w(2) v_put_def v_write_def v_set_def v_unpin_def)
            fix t'
            assume "inv t'" "view t' = v_put m (view z)"
            then show "inv t' \<and> view t' = v'"
              using copied_home [OF assms(2)] held assms(2) by (simp add: v'_def z(2) q(2) w(2) u(2) t(2) v_get_def)
          qed
        qed
      qed
    qed
  qed
qed

end

section \<open>The view of the cache\<close>

definition holder :: "uint32 \<Rightarrow> 'm bcache \<Rightarrow> nat \<Rightarrow> nat option" where
  "holder dv s n = find (\<lambda>b. b_dev (bb s b) = dv \<and> unat (b_blockno (bb s b)) = n) (map bcache_buf [0..<NBUF])"

definition bio_view :: "('m \<Rightarrow> int \<Rightarrow> int \<Rightarrow> block) \<Rightarrow> uint32 \<Rightarrow> 'm bcache \<Rightarrow> bview" where
  "bio_view st dv s = \<lparr>
     vcur = (\<lambda>n. case holder dv s n of None \<Rightarrow> st (media (bv s)) 0 (int n) | Some b \<Rightarrow> b_data (bb s b)),
     vdisk = (\<lambda>n. st (media (bv s)) 0 (int n)),
     vref = (\<lambda>n. case holder dv s n of None \<Rightarrow> 0 | Some b \<Rightarrow> unat (b_refcnt (bb s b))),
     vheld = (\<lambda>n. case holder dv s n of None \<Rightarrow> None
                   | Some b \<Rightarrow> if sl_locked (b_lock (bb s b)) = 0 then None else Some (sl_pid (b_lock (bb s b)))),
     vwrote = wrote s\<rparr>"

text \<open>The invariant of a buffer, and of the cache.\<close>

definition buf_ok :: "'m hw \<Rightarrow> (int \<Rightarrow> block) \<Rightarrow> uint32 \<Rightarrow> buf \<Rightarrow> bool" where
  "buf_ok h d dv b \<longleftrightarrow> sl_ok (b_lock b) \<and> length (b_data b) = BSIZE \<and>
     (b_refcnt b = 0 \<longrightarrow> sl_locked (b_lock b) = 0) \<and> (b_refcnt b \<noteq> 0 \<longrightarrow> b_dev b = dv) \<and>
     (b_dev b = dv \<longrightarrow> b_valid b \<noteq> 0 \<and> unat (b_blockno b) < capacity h 0 \<and>
        (b_refcnt b = 0 \<longrightarrow> b_data b = d (int (unat (b_blockno b)))))"

definition uniq :: "uint32 \<Rightarrow> (nat \<Rightarrow> buf) \<Rightarrow> bool" where
  "uniq dv f \<longleftrightarrow> inj_on (\<lambda>b. b_blockno (f b)) {b \<in> bset. b_dev (f b) = dv}"

definition ring_ok :: "'m bcache \<Rightarrow> bool" where
  "ring_ok s \<longleftrightarrow> (\<exists>xs. set xs = bset \<and> ring (bnext s) (bprev s) xs)"

definition bio_ok :: "'m hw \<Rightarrow> ('m \<Rightarrow> int \<Rightarrow> int \<Rightarrow> block) \<Rightarrow> uint32 \<Rightarrow> 'm bcache \<Rightarrow> bool" where
  "bio_ok h st dv s \<longleftrightarrow> drv_ok h st (bv s) \<and> lk_free (bc_lock s) \<and>
     ring_ok s \<and>
     (\<forall>b \<in> bset. buf_ok h (st (media (bv s)) 0) dv (bb s b)) \<and> uniq dv (bufs (bv s))"

definition bio_hand :: "uint32 \<Rightarrow> int \<Rightarrow> 'm bcache \<Rightarrow> nat \<Rightarrow> nat \<Rightarrow> bool" where
  "bio_hand dv p s b n \<longleftrightarrow> b \<in> bset \<and> b_dev (bb s b) = dv \<and> unat (b_blockno (bb s b)) = n \<and>
     sl_locked (b_lock (bb s b)) \<noteq> 0 \<and> sl_pid (b_lock (bb s b)) = p"

lemma bset_list: "set (map bcache_buf [0..<NBUF]) = bset"
  by (auto simp: bset_def)

lemma holder_Some:
  assumes "uniq dv (bufs (bv s))"
  shows "holder dv s n = Some b \<longleftrightarrow> b \<in> bset \<and> b_dev (bb s b) = dv \<and> unat (b_blockno (bb s b)) = n"
proof
  assume "holder dv s n = Some b"
  then show "b \<in> bset \<and> b_dev (bb s b) = dv \<and> unat (b_blockno (bb s b)) = n"
    unfolding holder_def find_Some_iff by (metis bset_list nth_mem)
next
  assume b: "b \<in> bset \<and> b_dev (bb s b) = dv \<and> unat (b_blockno (bb s b)) = n"
  then have "holder dv s n \<noteq> None" unfolding holder_def find_None_iff bset_list by blast
  then obtain c where c: "holder dv s n = Some c" by blast
  then have "c \<in> bset \<and> b_dev (bb s c) = dv \<and> unat (b_blockno (bb s c)) = n"
    unfolding holder_def find_Some_iff by (metis bset_list nth_mem)
  with b assms have "c = b" by (simp add: uniq_def inj_on_def word_unat_eq_iff)
  with c show "holder dv s n = Some b" by simp
qed

lemma holder_None: "holder dv s n = None \<longleftrightarrow> (\<forall>b \<in> bset. \<not> (b_dev (bb s b) = dv \<and> unat (b_blockno (bb s b)) = n))"
  unfolding holder_def find_None_iff bset_list by blast

lemma holder_cong:
  assumes "\<And>b. b \<in> bset \<Longrightarrow> b_dev (bb t b) = b_dev (bb s b) \<and> b_blockno (bb t b) = b_blockno (bb s b)"
  shows "holder dv t n = holder dv s n"
  unfolding holder_def by (rule find_cong) (use assms bset_list in auto)

section \<open>The effect of the operations\<close>

text \<open>Everything an operation changes besides the ring: the buffers and the interrupt state.\<close>

definition with_bufs :: "cpu \<Rightarrow> (nat \<Rightarrow> buf) \<Rightarrow> 'm bcache \<Rightarrow> 'm bcache" where
  "with_bufs c f s = s\<lparr>bv := (bv s)\<lparr>vcpu := c, bufs := f\<rparr>\<rparr>"

lemma with_bufs_sel [simp]:
  "bufs (bv (with_bufs c f s)) = f" "vcpu (bv (with_bufs c f s)) = c" "hart (bv (with_bufs c f s)) = hart (bv s)"
  "media (bv (with_bufs c f s)) = media (bv s)" "bc_lock (with_bufs c f s) = bc_lock s" "bnext (with_bufs c f s) = bnext s"
  "bprev (with_bufs c f s) = bprev s" "wrote (with_bufs c f s) = wrote s"
  "with_bufs c' f' (with_bufs c f s) = with_bufs c' f' s"
  "set_buf b g (with_bufs c f s) = with_bufs c (f(b := g (f b))) s"
  by (simp_all add: with_bufs_def set_buf_def)

text \<open>What an operation leaves behind: the buffers \<open>f\<close>, with the driver at rest, the same disk and a ring.\<close>

definition eff :: "'m hw \<Rightarrow> ('m \<Rightarrow> int \<Rightarrow> int \<Rightarrow> block) \<Rightarrow> (nat \<Rightarrow> buf) \<Rightarrow> 'm bcache \<Rightarrow> 'm bcache \<Rightarrow> bool" where
  "eff h st f s t \<longleftrightarrow> drv_ok h st (bv t) \<and> st (media (bv t)) = st (media (bv s)) \<and> bufs (bv t) = f \<and>
     bc_lock t = bc_lock s \<and> (ring_ok s \<longrightarrow> ring_ok t) \<and> wrote t = wrote s"

lemma eff_with_bufs: "drv_ok h st (bv s) \<Longrightarrow> cpu_ok c \<Longrightarrow> eff h st f s (with_bufs c f s)"
  by (auto simp: eff_def with_bufs_def drv_ok_def vok_def ring_ok_def)

lemma drv_cpu: "drv_ok h st v \<Longrightarrow> cpu_ok (vcpu v)"
  by (simp add: drv_ok_def vok_def)

lemma bc_critical:
  assumes "lk_free (bc_lock s)" "cpu_ok (vcpu (bv s))"
  obtains c l c' where "bc_acquire s = Inr ((with_bufs c (bufs (bv s)) s)\<lparr>bc_lock := l\<rparr>)" "cpu_ok c'"
    "\<And>f nx pv. bc_release ((with_bufs c f s)\<lparr>bc_lock := l, bnext := nx, bprev := pv\<rparr>) = Inr ((with_bufs c' f s)\<lparr>bnext := nx, bprev := pv\<rparr>)"
    "\<And>f. bc_release ((with_bufs c f s)\<lparr>bc_lock := l\<rparr>) = Inr (with_bufs c' f s)" "noff c' = noff (vcpu (bv s))"
proof -
  obtain c' where c: "acquire (hart (bv s)) (vcpu (bv s), bc_lock s) =
      Inr (push_off (vcpu (bv s)), (bc_lock s)\<lparr>locked := 1, lkcpu := Some (hart (bv s))\<rparr>)"
    "release (hart (bv s)) (push_off (vcpu (bv s)), (bc_lock s)\<lparr>locked := 1, lkcpu := Some (hart (bv s))\<rparr>) = Inr (c', bc_lock s)"
    "cpu_ok c'" "noff c' = noff (vcpu (bv s))" using critical [OF assms] by metis
  show thesis
    by (rule that [where c = "push_off (vcpu (bv s))" and l = "(bc_lock s)\<lparr>locked := 1, lkcpu := Some (hart (bv s))\<rparr>" and c' = c'])
      (use c in \<open>simp_all add: bc_acquire_def bc_release_def with_bufs_def\<close>)
qed

lemma set_buf_lock [simp]:
  "set_buf b g (t\<lparr>bc_lock := l\<rparr>) = (set_buf b g t)\<lparr>bc_lock := l\<rparr>"
  by (simp add: set_buf_def)

lemma bpin_eff:
  assumes "lk_free (bc_lock s)" "cpu_ok (vcpu (bv s))"
  obtains c where "cpu_ok c" "noff c = noff (vcpu (bv s))" "bpin b s = Inr (with_bufs c ((bufs (bv s))(b := (bb s b)\<lparr>b_refcnt := b_refcnt (bb s b) + 1\<rparr>)) s)"
  by (rule bc_critical [OF assms]) (auto simp: bpin_def intro: that)

lemma bunpin_eff:
  assumes "lk_free (bc_lock s)" "cpu_ok (vcpu (bv s))"
  obtains c where "cpu_ok c" "bunpin b s = Inr (with_bufs c ((bufs (bv s))(b := (bb s b)\<lparr>b_refcnt := b_refcnt (bb s b) - 1\<rparr>)) s)"
  by (rule bc_critical [OF assms]) (auto simp: bunpin_def intro: that)

lemma b_acquiresleep_eff:
  assumes "sl_ok (b_lock (bb s b))" "cpu_ok (vcpu (bv s))" "sl_locked (b_lock (bb s b)) = 0"
  obtains c where "cpu_ok c" "b_acquiresleep p b s =
    Inr (with_bufs c ((bufs (bv s))(b := (bb s b)\<lparr>b_lock := (b_lock (bb s b))\<lparr>sl_locked := 1, sl_pid := p\<rparr>\<rparr>)) s)"
  using acquiresleep_free [OF assms, of "hart (bv s)" p] that
  by (auto simp: b_acquiresleep_def set_buf_def with_bufs_def)

lemma b_releasesleep_eff:
  assumes "sl_ok (b_lock (bb s b))" "cpu_ok (vcpu (bv s))"
  obtains c where "cpu_ok c" "b_releasesleep b s =
    Inr (with_bufs c ((bufs (bv s))(b := (bb s b)\<lparr>b_lock := (b_lock (bb s b))\<lparr>sl_locked := 0, sl_pid := 0\<rparr>\<rparr>)) s)"
  using releasesleep_ok [OF assms, of "hart (bv s)"] that
  by (auto simp: b_releasesleep_def set_buf_def with_bufs_def)

lemma b_holdingsleep_eff:
  assumes "sl_ok (b_lock (bb s b))" "cpu_ok (vcpu (bv s))" "sl_locked (b_lock (bb s b)) \<noteq> 0" "sl_pid (b_lock (bb s b)) = p"
  obtains c where "cpu_ok c" "b_holdingsleep p b s = Inr (True, with_bufs c (bufs (bv s)) s)"
proof -
  obtain c' where "acquire (hart (bv s)) (vcpu (bv s), sl_lk (b_lock (bb s b))) =
      Inr (push_off (vcpu (bv s)), (sl_lk (b_lock (bb s b)))\<lparr>locked := 1, lkcpu := Some (hart (bv s))\<rparr>)"
    "release (hart (bv s)) (push_off (vcpu (bv s)), (sl_lk (b_lock (bb s b)))\<lparr>locked := 1, lkcpu := Some (hart (bv s))\<rparr>) = Inr (c', sl_lk (b_lock (bb s b)))"
    "cpu_ok c'" using critical [OF assms(1) [unfolded sl_ok_def] assms(2)] by metis
  moreover have "(b_lock (bb s b))\<lparr>sl_lk := sl_lk (b_lock (bb s b))\<rparr> = b_lock (bb s b)" "(bb s b)\<lparr>b_lock := b_lock (bb s b)\<rparr> = bb s b"
    by simp_all
  ultimately show thesis
    using assms(3,4) by (intro that [of c']) (simp_all add: b_holdingsleep_def holdingsleep_def set_buf_def with_bufs_def)
qed

section \<open>The invariant and the view after a change of one buffer\<close>

lemma uniq_same: "uniq dv f \<Longrightarrow> b_dev x = b_dev (f b) \<Longrightarrow> b_blockno x = b_blockno (f b) \<Longrightarrow> uniq dv (f(b := x))"
  by (auto simp: uniq_def inj_on_def)

lemma bio_ok_upd:
  assumes "bio_ok h st dv s" "eff h st ((bufs (bv s))(b := x)) s t" "buf_ok h (st (media (bv s)) 0) dv x" "uniq dv ((bufs (bv s))(b := x))"
  shows "bio_ok h st dv t"
  using assms by (auto simp: bio_ok_def eff_def)

text \<open>The buffer of block \<open>n\<close> changes and stays its buffer.\<close>

lemma view_upd:
  assumes "bio_ok h st dv s" "b \<in> bset" "b_dev (bb s b) = dv" "unat (b_blockno (bb s b)) = n"
    and "eff h st ((bufs (bv s))(b := x)) s t" "b_dev x = dv" "b_blockno x = b_blockno (bb s b)"
  shows "bio_view st dv t = (bio_view st dv s)\<lparr>
    vcur := (vcur (bio_view st dv s))(n := b_data x), vref := (vref (bio_view st dv s))(n := unat (b_refcnt x)),
    vheld := (vheld (bio_view st dv s))(n := if sl_locked (b_lock x) = 0 then None else Some (sl_pid (b_lock x)))\<rparr>"
proof -
  have u: "uniq dv (bufs (bv s))" using assms(1) by (simp add: bio_ok_def)
  have n: "holder dv s n = Some b" using assms(2-4) by (simp add: holder_Some [OF u])
  have ne: "holder dv s k = Some c \<Longrightarrow> c \<noteq> b" if "k \<noteq> n" for k c using that assms(4) by (auto simp: holder_Some [OF u])
  have t: "bufs (bv t) = (bufs (bv s))(b := x)" "st (media (bv t)) = st (media (bv s))" "wrote t = wrote s" using assms(5) by (simp_all add: eff_def)
  have k: "holder dv t k = holder dv s k" for k by (rule holder_cong) (use assms(3,6,7) t in auto)
  show ?thesis unfolding bio_view_def k t using n ne by (auto simp: fun_eq_iff split: option.splits)
qed

lemma hand_upd:
  assumes "eff h st ((bufs (bv s))(b := x)) s t" "bio_hand dv p s b' n'" "b' \<noteq> b"
  shows "bio_hand dv p t b' n'"
  using assms by (auto simp: bio_hand_def eff_def)

section \<open>The laws\<close>

lemma bio_okD:
  assumes "bio_ok h st dv s"
  shows "drv_ok h st (bv s)" "lk_free (bc_lock s)" "cpu_ok (vcpu (bv s))" "uniq dv (bufs (bv s))"
    "b \<in> bset \<Longrightarrow> buf_ok h (st (media (bv s)) 0) dv (bb s b)"
  using assms by (auto simp: bio_ok_def dest: drv_cpu)

lemma handD:
  assumes "bio_ok h st dv s" "bio_hand dv p s b n"
  shows "b \<in> bset" "b_dev (bb s b) = dv" "unat (b_blockno (bb s b)) = n" "sl_locked (b_lock (bb s b)) \<noteq> 0" "sl_pid (b_lock (bb s b)) = p"
    "sl_ok (b_lock (bb s b))" "b_refcnt (bb s b) \<noteq> 0" "holder dv s n = Some b"
    "vcur (bio_view st dv s) n = b_data (bb s b)" "vref (bio_view st dv s) n = unat (b_refcnt (bb s b))" "vheld (bio_view st dv s) n = Some p"
proof -
  show b: "b \<in> bset" "b_dev (bb s b) = dv" "unat (b_blockno (bb s b)) = n" "sl_locked (b_lock (bb s b)) \<noteq> 0" "sl_pid (b_lock (bb s b)) = p"
    using assms(2) by (simp_all add: bio_hand_def)
  then show o: "sl_ok (b_lock (bb s b))" "b_refcnt (bb s b) \<noteq> 0" using bio_okD(5) [OF assms(1) b(1)] by (auto simp: buf_ok_def)
  show n: "holder dv s n = Some b" using b by (simp add: holder_Some [OF bio_okD(4) [OF assms(1)]])
  show "vcur (bio_view st dv s) n = b_data (bb s b)" "vref (bio_view st dv s) n = unat (b_refcnt (bb s b))" "vheld (bio_view st dv s) n = Some p"
    using n b by (simp_all add: bio_view_def)
qed

text \<open>A change of the interrupt state alone.\<close>

lemma cpu_change:
  assumes "bio_ok h st dv s" "cpu_ok c"
  shows "bio_ok h st dv (with_bufs c (bufs (bv s)) s)" "bio_view st dv (with_bufs c (bufs (bv s)) s) = bio_view st dv s"
    "bio_hand dv p (with_bufs c (bufs (bv s)) s) = bio_hand dv p s"
proof -
  have "drv_ok h st (bv (with_bufs c (bufs (bv s)) s))"
    using eff_with_bufs [OF bio_okD(1) [OF assms(1)] assms(2)] by (simp add: eff_def)
  then show "bio_ok h st dv (with_bufs c (bufs (bv s)) s)" using assms(1) by (simp add: bio_ok_def ring_ok_def)
  show "bio_view st dv (with_bufs c (bufs (bv s)) s) = bio_view st dv s" by (simp add: bio_view_def holder_def cong: option.case_cong if_cong)
  show "bio_hand dv p (with_bufs c (bufs (bv s)) s) = bio_hand dv p s" by (auto simp: bio_hand_def fun_eq_iff)
qed

lemma hand_unique:
  assumes "bio_ok h st dv s" "bio_hand dv p s b n" "bio_hand dv q s b' n'"
  shows "b' = b \<longleftrightarrow> n' = n"
  by (metis handD(3,8) [OF assms(1,2)] handD(3,8) [OF assms(1,3)] option.inject)

text \<open>A change of the reference count alone.\<close>

lemma ref_change:
  assumes "bio_ok h st dv s" "bio_hand dv p s b n" "k \<noteq> 0" "cpu_ok c"
  defines "t \<equiv> with_bufs c ((bufs (bv s))(b := (bb s b)\<lparr>b_refcnt := k\<rparr>)) s"
  shows "bio_ok h st dv t" "bio_view st dv t = (bio_view st dv s)\<lparr>vref := (vref (bio_view st dv s))(n := unat k)\<rparr>"
    "bio_hand dv q t = bio_hand dv q s"
proof -
  note d = handD [OF assms(1,2)]
  have e: "eff h st ((bufs (bv s))(b := (bb s b)\<lparr>b_refcnt := k\<rparr>)) s t"
    unfolding t_def by (rule eff_with_bufs [OF bio_okD(1) [OF assms(1)] assms(4)])
  show "bio_ok h st dv t"
    by (rule bio_ok_upd [OF assms(1) e]) (use assms(3) d bio_okD(4,5) [OF assms(1)] in \<open>auto simp: buf_ok_def intro: uniq_same\<close>)
  have "(vcur (bio_view st dv s))(n := b_data (bb s b)) = vcur (bio_view st dv s)" using d(9) by auto
  moreover have "(vheld (bio_view st dv s))(n := Some p) = vheld (bio_view st dv s)" using d(11) by auto
  ultimately show "bio_view st dv t = (bio_view st dv s)\<lparr>vref := (vref (bio_view st dv s))(n := unat k)\<rparr>"
    using view_upd [OF assms(1) d(1-3) e] d by simp
  show "bio_hand dv q t = bio_hand dv q s" by (auto simp: t_def bio_hand_def fun_eq_iff)
qed

lemma unat_step: "unat (k :: uint32) + 1 < 2 ^ 32 \<Longrightarrow> unat (k + 1) = unat k + 1" "k \<noteq> 0 \<Longrightarrow> unat (k - 1) = unat (k :: uint32) - 1"
  by (simp_all add: unat_word_ariths unat_minus_one)

lemma bpin_law:
  assumes "bio_ok h st dv s" "bio_hand dv p s b n" "vref (bio_view st dv s) n + 1 < 2 ^ 32"
  shows "wp (bpin b s) (\<lambda>t. bio_ok h st dv t \<and> bio_view st dv t = v_pin n (bio_view st dv s) \<and> bio_hand dv p t = bio_hand dv p s)"
proof -
  obtain c where c: "cpu_ok c" "bpin b s = Inr (with_bufs c ((bufs (bv s))(b := (bb s b)\<lparr>b_refcnt := b_refcnt (bb s b) + 1\<rparr>)) s)"
    by (rule bpin_eff [OF bio_okD(2,3) [OF assms(1)]])
  have "unat (b_refcnt (bb s b)) + 1 < 2 ^ 32" using handD(10) [OF assms(1,2)] assms(3) by simp
  then have u: "unat (b_refcnt (bb s b) + 1) = unat (b_refcnt (bb s b)) + 1" by (rule unat_step)
  then have "b_refcnt (bb s b) + 1 \<noteq> 0" by (metis unat_0 add_is_0 one_neq_zero)
  from ref_change [OF assms(1,2) this c(1)] show ?thesis using handD(10) [OF assms(1,2)] u by (simp add: c(2) v_pin_def)
qed

lemma bunpin_law:
  assumes "bio_ok h st dv s" "bio_hand dv p s b n" "1 < vref (bio_view st dv s) n"
  shows "wp (bunpin b s) (\<lambda>t. bio_ok h st dv t \<and> bio_view st dv t = v_unpin n (bio_view st dv s) \<and> bio_hand dv p t = bio_hand dv p s)"
proof -
  obtain c where c: "cpu_ok c" "bunpin b s = Inr (with_bufs c ((bufs (bv s))(b := (bb s b)\<lparr>b_refcnt := b_refcnt (bb s b) - 1\<rparr>)) s)"
    by (rule bunpin_eff [OF bio_okD(2,3) [OF assms(1)]])
  have u: "unat (b_refcnt (bb s b) - 1) = unat (b_refcnt (bb s b)) - 1" using handD(7) [OF assms(1,2)] by (rule unat_step)
  then have "b_refcnt (bb s b) - 1 \<noteq> 0" using handD(10) [OF assms(1,2)] assms(3) by (metis unat_0 less_irrefl zero_less_diff)
  from ref_change [OF assms(1,2) this c(1)] show ?thesis using handD(10) [OF assms(1,2)] u by (simp add: c(2) v_unpin_def)
qed

lemma set_data_law:
  assumes "bio_ok h st dv s" "bio_hand dv p s b n" "length x = BSIZE"
  shows "bio_ok h st dv (set_data b x s) \<and> bio_view st dv (set_data b x s) = v_set n x (bio_view st dv s) \<and>
    bio_hand dv p (set_data b x s) = bio_hand dv p s"
proof -
  note d = handD [OF assms(1,2)]
  have t: "set_data b x s = with_bufs (vcpu (bv s)) ((bufs (bv s))(b := (bb s b)\<lparr>b_data := x\<rparr>)) s"
    by (simp add: set_data_def set_buf_def with_bufs_def)
  have e: "eff h st ((bufs (bv s))(b := (bb s b)\<lparr>b_data := x\<rparr>)) s (set_data b x s)"
    unfolding t by (rule eff_with_bufs [OF bio_okD(1,3) [OF assms(1)]])
  have "bio_ok h st dv (set_data b x s)"
    by (rule bio_ok_upd [OF assms(1) e]) (use assms(3) d bio_okD(4,5) [OF assms(1)] in \<open>auto simp: buf_ok_def intro: uniq_same\<close>)
  moreover have "(vref (bio_view st dv s))(n := unat (b_refcnt (bb s b))) = vref (bio_view st dv s)" using d(10) by auto
  moreover have "(vheld (bio_view st dv s))(n := Some p) = vheld (bio_view st dv s)" using d(11) by auto
  moreover have "bio_hand dv p (set_data b x s) = bio_hand dv p s" by (auto simp: t bio_hand_def fun_eq_iff)
  ultimately show ?thesis using view_upd [OF assms(1) d(1-3) e] d by (simp add: v_set_def)
qed

lemma at_block: "unat (k :: uint32) = n \<Longrightarrow> k = of_nat n"
  by auto

lemma bwrite_law:
  assumes "bio_ok h st dv s" "bio_hand dv p s b n"
  shows "wp (bwrite h p b s) (\<lambda>t. bio_ok h st dv t \<and> bio_view st dv t = v_write n (bio_view st dv s) \<and> bio_hand dv p t = bio_hand dv p s)"
proof -
  note d = handD [OF assms] and k = bio_okD [OF assms(1)]
  obtain c where c: "cpu_ok c" "b_holdingsleep p b s = Inr (True, with_bufs c (bufs (bv s)) s)"
    by (rule b_holdingsleep_eff [OF d(6) k(3) d(4,5)])
  let ?s = "with_bufs c (bufs (bv s)) s"
  have e: "eff h st (bufs (bv s)) s ?s" by (rule eff_with_bufs [OF k(1) c(1)])
  have bk: "buf_ok h (st (media (bv s)) 0) dv (bb s b)" by (rule k(5) [OF d(1)])
  then have n: "n < capacity h 0" "length (b_data (bb s b)) = BSIZE" using d(2,3) by (simp_all add: buf_ok_def)
  have drv: "hw_ok h" "virtio_blk_device h st" "vok h st (bv ?s)" using e by (simp_all add: eff_def drv_ok_def)
  have "\<exists>v'. virtio_disk_rw h (int 0) b True (bv ?s) = Inr v' \<and> vok h st v' \<and>
      st (media v') = blk_upd (st (media (bv ?s))) (int 0) (int n) (b_data (bufs (bv ?s) b)) \<and>
      bufs v' = (bufs (bv ?s))(b := (bufs (bv ?s) b)\<lparr>b_disk := 0\<rparr>) \<and> transfer_buffer v' = transfer_buffer (bv ?s)"
    by (rule virtio_disk_rw_write [OF drv _ n(1)]) (use d(3) n(2) at_block in auto)
  then obtain v where v: "virtio_disk_rw h 0 b True (bv ?s) = Inr v" "vok h st v"
      "st (media v) = blk_upd (st (media (bv s))) 0 (int n) (b_data (bb s b))" "bufs v = (bufs (bv s))(b := (bb s b)\<lparr>b_disk := 0\<rparr>)"
    by auto
  define t where "t = ?s\<lparr>bv := v, wrote := wrote s @ [(n, b_data (bb s b))]\<rparr>"
  have t: "bwrite h p b s = Inr t" using v(1) c(2) d(3) by (simp add: bwrite_def t_def)
  have un: "uniq dv (bufs (bv t))" using k(4) by (auto simp: t_def v(4) intro: uniq_same)
  have other: "unat (b_blockno (bb s b')) \<noteq> n" if "b' \<in> bset" "b' \<noteq> b" "b_dev (bb s b') = dv" for b'
    using that d(8) holder_Some [OF k(4), of n b'] by auto
  have "buf_ok h (st (media v) 0) dv (bufs v b')" if "b' \<in> bset" for b'
  proof (cases "b' = b")
    case True
    then show ?thesis using bk d(7) by (simp add: buf_ok_def v(3,4))
  next
    case False
    then have "b_dev (bb s b') = dv \<Longrightarrow> uint (b_blockno (bb s b')) \<noteq> int n" using other [OF that] by (metis uint_nat of_nat_eq_iff)
    then show ?thesis using False k(5) [OF that] by (simp add: buf_ok_def v(3,4))
  qed
  then have "bio_ok h st dv t" using assms(1) un drv v(2) by (simp add: bio_ok_def t_def drv_ok_def ring_ok_def)
  moreover have "holder dv t k = holder dv s k" for k by (rule holder_cong) (simp add: t_def v(4))
  then have "bio_view st dv t = v_write n (bio_view st dv s)"
    using d(8) by (auto simp: bio_view_def v_write_def t_def v(3,4) fun_eq_iff split: option.splits)
  moreover have "bio_hand dv p t = bio_hand dv p s" by (auto simp: t_def v(4) bio_hand_def fun_eq_iff)
  ultimately show ?thesis by (simp add: t)
qed

lemma move_front_eq:
  assumes "bnext u b \<noteq> b"
  shows "(let s = u\<lparr>bprev := (bprev u)(bnext u b := bprev u b)\<rparr>; s = s\<lparr>bnext := (bnext s)(bprev s b := bnext s b)\<rparr> in link_front b s) =
    u\<lparr>bnext := ((bnext u)(bprev u b := bnext u b))(b := ((bnext u)(bprev u b := bnext u b)) bcache_head, bcache_head := b),
      bprev := ((bprev u)(bnext u b := bprev u b))(b := bcache_head, ((bnext u)(bprev u b := bnext u b)) bcache_head := b)\<rparr>"
  using assms by (cases u) (simp add: link_front_def Let_def)

text \<open>\<^verbatim>\<open>brelse\<close> as a change of one buffer.\<close>

lemma brelse_eff:
  assumes "bio_ok h st dv s" "bio_hand dv p s b n"
  defines "x \<equiv> (bb s b)\<lparr>b_lock := (b_lock (bb s b))\<lparr>sl_locked := 0, sl_pid := 0\<rparr>, b_refcnt := b_refcnt (bb s b) - 1\<rparr>"
  obtains t where "brelse p b s = Inr t" "eff h st ((bufs (bv s))(b := x)) s t"
    "\<And>xs. set xs = bset \<Longrightarrow> ring (bnext s) (bprev s) xs \<Longrightarrow> ring (bnext t) (bprev t) (if b_refcnt x = 0 then b # remove1 b xs else xs)"
proof -
  note d = handD [OF assms(1,2)] and k = bio_okD [OF assms(1)]
  obtain c where c: "cpu_ok c" "b_holdingsleep p b s = Inr (True, with_bufs c (bufs (bv s)) s)"
    by (rule b_holdingsleep_eff [OF d(6) k(3) d(4,5)])
  let ?f = "(bufs (bv s))(b := (bb s b)\<lparr>b_lock := (b_lock (bb s b))\<lparr>sl_locked := 0, sl_pid := 0\<rparr>\<rparr>)"
  obtain c2 where c2: "cpu_ok c2" "b_releasesleep b (with_bufs c (bufs (bv s)) s) = Inr (with_bufs c2 ?f s)"
    using b_releasesleep_eff [of "with_bufs c (bufs (bv s)) s" b] d(6) c(1) by auto
  let ?s = "with_bufs c2 ?f s"
  have lk: "lk_free (bc_lock ?s)" "cpu_ok (vcpu (bv ?s))" using k(2) c2(1) by simp_all
  obtain c3 l c4 where c3: "bc_acquire ?s = Inr ((with_bufs c3 ?f s)\<lparr>bc_lock := l\<rparr>)" "cpu_ok c4"
    "\<And>f nx pv. bc_release ((with_bufs c3 f s)\<lparr>bc_lock := l, bnext := nx, bprev := pv\<rparr>) = Inr ((with_bufs c4 f s)\<lparr>bnext := nx, bprev := pv\<rparr>)"
    "\<And>f. bc_release ((with_bufs c3 f s)\<lparr>bc_lock := l\<rparr>) = Inr (with_bufs c4 f s)"
    by (rule bc_critical [OF lk]) (simp del: bc_acquire_def)
  let ?g = "(bufs (bv s))(b := x)"
  have g: "?f(b := (?f b)\<lparr>b_refcnt := b_refcnt (?f b) - 1\<rparr>) = ?g" by (simp add: x_def)
  have e: "eff h st ?g s (with_bufs c4 ?g s)" by (rule eff_with_bufs [OF k(1) c3(2)])
  show thesis
  proof (cases "b_refcnt x = 0")
    case False
    then show thesis
      using c(2) c2(2) c3(1,4) g by (intro that [OF _ e]) (simp_all add: brelse_def Let_def x_def)
  next
    case True
    let ?nx = "(bnext s)(bprev s b := bnext s b)" and ?pv = "(bprev s)(bnext s b := bprev s b)"
    let ?nx' = "?nx(b := ?nx bcache_head, bcache_head := b)" and ?pv' = "?pv(b := bcache_head, ?nx bcache_head := b)"
    obtain xs where xs: "set xs = bset" "ring (bnext s) (bprev s) xs" using assms(1) by (auto simp: bio_ok_def ring_ok_def)
    have bx: "b \<in> set xs" using d(1) xs(1) by simp
    have ne: "bnext s b \<noteq> b" by (rule ring_next_ne [OF xs(2) bx])
    let ?t = "(with_bufs c4 ?g s)\<lparr>bnext := ?nx', bprev := ?pv'\<rparr>"
    have "ring_ok ?t" unfolding ring_ok_def
      by (rule exI [of _ "b # remove1 b xs"]) (use ring_move_front [OF xs(2) bx] xs bx in \<open>auto simp: ring_def set_remove1_eq\<close>)
    then have e': "eff h st ?g s ?t" using e by (simp add: eff_def)
    have "brelse p b s = bc_release (let s = (with_bufs c3 ?g s)\<lparr>bc_lock := l\<rparr>; s = s\<lparr>bprev := (bprev s)(bnext s b := bprev s b)\<rparr>;
        s = s\<lparr>bnext := (bnext s)(bprev s b := bnext s b)\<rparr> in link_front b s)"
      using c(2) c2(2) c3(1) g True by (simp add: brelse_def Let_def x_def)
    then have br: "brelse p b s = Inr ?t"
      using move_front_eq [of "(with_bufs c3 ?g s)\<lparr>bc_lock := l\<rparr>" b] ne c3(3) by simp
    have r: "ring (bnext ?t) (bprev ?t) (if b_refcnt x = 0 then b # remove1 b ys else ys)" if "set ys = bset" "ring (bnext s) (bprev s) ys" for ys
      using ring_move_front [OF that(2)] that(1) d(1) True by simp
    show thesis by (rule that [OF br e' r])
  qed
qed

lemma brelse_law:
  assumes "bio_ok h st dv s" "bio_hand dv p s b n"
    and "vref (bio_view st dv s) n = 1 \<longrightarrow> vcur (bio_view st dv s) n = vdisk (bio_view st dv s) n"
  shows "wp (brelse p b s) (\<lambda>t. bio_ok h st dv t \<and> bio_view st dv t = v_put n (bio_view st dv s) \<and>
    (\<forall>b' n'. n' \<noteq> n \<longrightarrow> bio_hand dv p s b' n' \<longrightarrow> bio_hand dv p t b' n'))"
proof -
  note d = handD [OF assms(1,2)] and k = bio_okD [OF assms(1)]
  define x where "x = (bb s b)\<lparr>b_lock := (b_lock (bb s b))\<lparr>sl_locked := 0, sl_pid := 0\<rparr>, b_refcnt := b_refcnt (bb s b) - 1\<rparr>"
  obtain t where t: "brelse p b s = Inr t" "eff h st ((bufs (bv s))(b := x)) s t"
    using brelse_eff [OF assms(1,2)] unfolding x_def by metis
  have u: "unat (b_refcnt (bb s b) - 1) = unat (b_refcnt (bb s b)) - 1" using d(7) by (rule unat_step)
  have "b_refcnt (bb s b) - 1 = 0 \<Longrightarrow> vref (bio_view st dv s) n = 1" using d(10) by simp
  then have same: "b_refcnt (bb s b) - 1 = 0 \<Longrightarrow> b_data (bb s b) = st (media (bv s)) 0 (int n)"
    using assms(3) d(9) by (simp add: bio_view_def)
  have n: "int (unat (b_blockno (bb s b))) = int n" using d(3) by simp
  have "buf_ok h (st (media (bv s)) 0) dv x"
    using k(5) [OF d(1)] d(2) same n by (auto simp: buf_ok_def x_def sl_ok_def)
  then have "bio_ok h st dv t"
    by (rule bio_ok_upd [OF assms(1) t(2)]) (use k(4) in \<open>auto simp: x_def intro: uniq_same\<close>)
  moreover have "(vcur (bio_view st dv s))(n := b_data (bb s b)) = vcur (bio_view st dv s)" using d(9) by auto
  then have "bio_view st dv t = v_put n (bio_view st dv s)"
    using view_upd [OF assms(1) d(1-3) t(2)] d(2,10) u by (simp add: x_def v_put_def)
  moreover have "bio_hand dv p t b' n'" if "n' \<noteq> n" "bio_hand dv p s b' n'" for b' n'
    using hand_upd [OF t(2) that(2)] hand_unique [OF assms(1,2) that(2)] that(1) by blast
  ultimately show ?thesis by (simp add: t(1))
qed

text \<open>\<^verbatim>\<open>bget\<close> finds the buffer of the block, or takes the least recently used free one.\<close>

lemma find_only:
  assumes "b \<in> set xs" "P b" "\<And>c. c \<in> set xs \<Longrightarrow> P c \<Longrightarrow> c = b"
  shows "find P xs = Some b"
proof (cases "find P xs")
  case None
  then show ?thesis using assms(1,2) by (simp add: find_None_iff)
next
  case (Some c)
  then have "c \<in> set xs" "P c" by (auto simp: find_Some_iff)
  then show ?thesis using Some assms(3) by simp
qed

lemma bget_hit:
  assumes "bio_ok h st dv s" "holder dv s n = Some b" "unat bn = n" "sl_locked (b_lock (bb s b)) = 0"
  obtains c where "cpu_ok c" "bget p dv bn s = Inr (b, with_bufs c ((bufs (bv s))(b := (bb s b)\<lparr>
    b_refcnt := b_refcnt (bb s b) + 1, b_lock := (b_lock (bb s b))\<lparr>sl_locked := 1, sl_pid := p\<rparr>\<rparr>)) s)"
proof -
  note k = bio_okD [OF assms(1)]
  obtain xs where xs: "set xs = bset" "ring (bnext s) (bprev s) xs" using assms(1) by (auto simp: bio_ok_def ring_ok_def)
  have b: "b \<in> bset" "b_dev (bb s b) = dv" "unat (b_blockno (bb s b)) = n" using assms(2) by (simp_all add: holder_Some [OF k(4)])
  have P: "b_blockno (bb s c) = bn \<longleftrightarrow> unat (b_blockno (bb s c)) = n" for c using assms(3) by (auto simp: word_unat_eq_iff)
  have only: "c = b" if "c \<in> bset" "b_dev (bb s c) = dv" "unat (b_blockno (bb s c)) = n" for c
  proof -
    have "holder dv s n = Some c" using that by (simp add: holder_Some [OF k(4)])
    then show ?thesis using assms(2) by simp
  qed
  have "find (\<lambda>b. b_dev (bb s b) = dv \<and> b_blockno (bb s b) = bn) xs = Some b"
    by (rule find_only [OF _ _ only]) (use b xs(1) P in auto)
  then have f: "bfind (bnext s) (\<lambda>b. b_dev (bb s b) = dv \<and> b_blockno (bb s b) = bn) (bnext s bcache_head) = Some (Some b)"
    using ring_bfind(1) [OF xs(2)] by simp
  obtain c l c2 where c: "bc_acquire s = Inr ((with_bufs c (bufs (bv s)) s)\<lparr>bc_lock := l\<rparr>)" "cpu_ok c2"
    "\<And>f. bc_release ((with_bufs c f s)\<lparr>bc_lock := l\<rparr>) = Inr (with_bufs c2 f s)"
    by (rule bc_critical [OF k(2,3)]) blast
  let ?x = "(bb s b)\<lparr>b_refcnt := b_refcnt (bb s b) + 1\<rparr>"
  let ?s = "with_bufs c2 ((bufs (bv s))(b := ?x)) s"
  obtain c3 where c3: "cpu_ok c3" "b_acquiresleep p b ?s = Inr (with_bufs c3 ((bufs (bv ?s))(b := (bb ?s b)\<lparr>
      b_lock := (b_lock (bb ?s b))\<lparr>sl_locked := 1, sl_pid := p\<rparr>\<rparr>)) ?s)"
    by (rule b_acquiresleep_eff [of ?s b p]) (use k(5) [OF b(1)] c(2) assms(4) in \<open>auto simp: buf_ok_def\<close>)
  show thesis
    by (rule that [OF c3(1)]) (use c f c3(2) in \<open>simp add: bget_def\<close>)
qed

lemma bget_miss:
  assumes "bio_ok h st dv s" "holder dv s n = None" "unat bn = n" "a \<in> bset" "b_refcnt (bb s a) = 0"
  obtains b c where "cpu_ok c" "b \<in> bset" "b_refcnt (bb s b) = 0" "bget p dv bn s = Inr (b, with_bufs c ((bufs (bv s))(b := (bb s b)\<lparr>
    b_dev := dv, b_blockno := bn, b_valid := 0, b_refcnt := 1, b_lock := (b_lock (bb s b))\<lparr>sl_locked := 1, sl_pid := p\<rparr>\<rparr>)) s)"
    "\<And>xs. ring (bnext s) (bprev s) xs \<Longrightarrow> find (\<lambda>b. b_refcnt (bb s b) = 0) (rev xs) = Some b"
proof -
  note k = bio_okD [OF assms(1)]
  obtain xs where xs: "set xs = bset" "ring (bnext s) (bprev s) xs" using assms(1) by (auto simp: bio_ok_def ring_ok_def)
  have P: "b_blockno (bb s c) = bn \<longleftrightarrow> unat (b_blockno (bb s c)) = n" for c using assms(3) by (auto simp: word_unat_eq_iff)
  have "find (\<lambda>b. b_dev (bb s b) = dv \<and> b_blockno (bb s b) = bn) xs = None"
    using assms(2) xs(1) by (simp add: find_None_iff P holder_None)
  then have f: "bfind (bnext s) (\<lambda>b. b_dev (bb s b) = dv \<and> b_blockno (bb s b) = bn) (bnext s bcache_head) = Some None"
    using ring_bfind(1) [OF xs(2)] by simp
  have "find (\<lambda>b. b_refcnt (bb s b) = 0) (rev xs) \<noteq> None" using assms(4,5) xs(1) by (auto simp: find_None_iff)
  then obtain b where fb: "find (\<lambda>b. b_refcnt (bb s b) = 0) (rev xs) = Some b" by blast
  then have b: "b \<in> bset" "b_refcnt (bb s b) = 0" unfolding find_Some_iff by (metis nth_mem set_rev xs(1))+
  have g: "bfind (bprev s) (\<lambda>b. b_refcnt (bb s b) = 0) (bprev s bcache_head) = Some (Some b)"
    using ring_bfind(2) [OF xs(2)] fb by simp
  obtain c l c2 where c: "bc_acquire s = Inr ((with_bufs c (bufs (bv s)) s)\<lparr>bc_lock := l\<rparr>)" "cpu_ok c2"
    "\<And>f. bc_release ((with_bufs c f s)\<lparr>bc_lock := l\<rparr>) = Inr (with_bufs c2 f s)"
    by (rule bc_critical [OF k(2,3)]) blast
  let ?x = "(bb s b)\<lparr>b_dev := dv, b_blockno := bn, b_valid := 0, b_refcnt := 1\<rparr>"
  let ?s = "with_bufs c2 ((bufs (bv s))(b := ?x)) s"
  obtain c3 where c3: "cpu_ok c3" "b_acquiresleep p b ?s = Inr (with_bufs c3 ((bufs (bv ?s))(b := (bb ?s b)\<lparr>
      b_lock := (b_lock (bb ?s b))\<lparr>sl_locked := 1, sl_pid := p\<rparr>\<rparr>)) ?s)"
    by (rule b_acquiresleep_eff [of ?s b p]) (use k(5) [OF b(1)] c(2) b(2) in \<open>auto simp: buf_ok_def\<close>)
  show thesis
    by (rule that [OF c3(1) b]) (use c f g c3(2) ring_bfind(2) in \<open>simp_all add: bget_def\<close>)
qed

text \<open>A buffer is free when fewer blocks are in use than there are buffers.\<close>

lemma free_buffer:
  assumes "bio_ok h st dv s" "card {m. 0 < vref (bio_view st dv s) m} < NBUF"
  shows "\<exists>b \<in> bset. b_refcnt (bb s b) = 0"
proof (rule ccontr)
  assume "\<not> ?thesis"
  then have used: "b_refcnt (bb s b) \<noteq> 0" if "b \<in> bset" for b using that by blast
  note k = bio_okD [OF assms(1)]
  have dev: "b_dev (bb s b) = dv" if "b \<in> bset" for b using k(5) [OF that] used [OF that] by (simp add: buf_ok_def)
  let ?f = "\<lambda>b. unat (b_blockno (bb s b))"
  have "{b \<in> bset. b_dev (bb s b) = dv} = bset" using dev by blast
  then have "inj_on ?f bset" using k(4) by (auto simp: uniq_def inj_on_def word_unat_eq_iff)
  moreover have "vref (bio_view st dv s) (?f b) > 0" if "b \<in> bset" for b
  proof -
    have "holder dv s (?f b) = Some b" using that dev by (simp add: holder_Some [OF k(4)])
    then show ?thesis using used [OF that] by (simp add: bio_view_def unat_gt_0)
  qed
  then have sub: "?f ` bset \<subseteq> {m. 0 < vref (bio_view st dv s) m}" by auto
  have "finite {m. 0 < vref (bio_view st dv s) m}"
  proof (rule finite_subset [of _ "?f ` bset"])
    show "{m. 0 < vref (bio_view st dv s) m} \<subseteq> ?f ` bset"
      by (auto simp: bio_view_def image_iff holder_Some [OF k(4)] split: option.splits)
  qed simp
  from card_mono [OF this sub] have "NBUF \<le> card {m. 0 < vref (bio_view st dv s) m}"
    using \<open>inj_on ?f bset\<close> by (simp add: card_image card_bset)
  with assms(2) show False by simp
qed

lemma view_new:
  assumes "bio_ok h st dv s" "holder dv s n = None" "b \<in> bset" "b_refcnt (bb s b) = 0"
    and "eff h st ((bufs (bv s))(b := x)) s t" "b_dev x = dv" "unat (b_blockno x) = n" "b_data x = st (media (bv s)) 0 (int n)"
    "b_refcnt x = 1" "sl_locked (b_lock x) = 1" "sl_pid (b_lock x) = p"
  shows "uniq dv ((bufs (bv s))(b := x))" "bio_view st dv t = v_get p n (bio_view st dv s)"
proof -
  note k = bio_okD [OF assms(1)]
  have t: "bufs (bv t) = (bufs (bv s))(b := x)" "st (media (bv t)) = st (media (bv s))" "wrote t = wrote s" using assms(5) by (simp_all add: eff_def)
  have none: "\<not> (b_dev (bb s c) = dv \<and> unat (b_blockno (bb s c)) = n)" if "c \<in> bset" for c using assms(2) that by (simp add: holder_None)
  have new: "b_dev (bb s c) = dv \<Longrightarrow> b_blockno (bb s c) \<noteq> b_blockno x" if "c \<in> bset" for c
    using none [OF that] assms(7) by metis
  show u: "uniq dv ((bufs (bv s))(b := x))"
    unfolding uniq_def
  proof (rule inj_onI)
    fix y z
    assume "y \<in> {c \<in> bset. b_dev (((bufs (bv s))(b := x)) c) = dv}" "z \<in> {c \<in> bset. b_dev (((bufs (bv s))(b := x)) c) = dv}"
      "b_blockno (((bufs (bv s))(b := x)) y) = b_blockno (((bufs (bv s))(b := x)) z)"
    then show "y = z"
      using new [of y] new [of z] inj_onD [OF k(4) [unfolded uniq_def], of y z] by (cases "y = b"; cases "z = b") auto
  qed
  then have ut: "uniq dv (bufs (bv t))" by (simp add: t)
  have hn: "holder dv t n = Some b" using assms(3,6,7) by (simp add: holder_Some [OF ut] t)
  have hk: "holder dv t m = (if holder dv s m = Some b then None else holder dv s m)" if "m \<noteq> n" for m
  proof -
    have iff: "holder dv t m = Some c \<longleftrightarrow> holder dv s m = Some c \<and> c \<noteq> b" for c
      unfolding holder_Some [OF ut] holder_Some [OF k(4)] t using that assms(7) by (cases "c = b") simp_all
    show ?thesis
    proof (cases "holder dv t m")
      case None
      then show ?thesis using iff [of "the (holder dv s m)"] by (cases "holder dv s m") auto
    next
      case (Some c)
      then show ?thesis using iff [of c] by simp
    qed
  qed
  have old: "b_data (bb s b) = st (media (bv s)) 0 (int m) \<and> sl_locked (b_lock (bb s b)) = 0" if "holder dv s m = Some b" for m
  proof -
    have "b_dev (bb s b) = dv" "unat (b_blockno (bb s b)) = m" using that by (simp_all add: holder_Some [OF k(4)])
    then show ?thesis using k(5) [OF assms(3)] assms(4) by (auto simp: buf_ok_def)
  qed
  have "vcur (bio_view st dv t) m = vcur (bio_view st dv s) m" for m
    using hn hk [of m] old [of m] assms(2,8) by (cases "m = n") (auto simp: bio_view_def t split: option.splits)
  moreover have "vref (bio_view st dv t) m = ((vref (bio_view st dv s))(n := vref (bio_view st dv s) n + 1)) m" for m
    using hn hk [of m] assms(2,4,9) by (cases "m = n") (auto simp: bio_view_def t split: option.splits)
  moreover have "vheld (bio_view st dv t) m = ((vheld (bio_view st dv s))(n := Some p)) m" for m
    using hn hk [of m] old [of m] assms(10,11) by (cases "m = n") (auto simp: bio_view_def t split: option.splits)
  moreover have "vdisk (bio_view st dv t) = vdisk (bio_view st dv s)" "vwrote (bio_view st dv t) = vwrote (bio_view st dv s)"
    by (simp_all add: bio_view_def t)
  ultimately show "bio_view st dv t = v_get p n (bio_view st dv s)"
    by (intro bview.equality) (simp_all add: v_get_def fun_eq_iff)
qed

lemma hand_get:
  assumes "eff h st ((bufs (bv s))(b := x)) s t" "\<not> bio_hand dv p s b n'" "bio_hand dv p s b' n'"
  shows "bio_hand dv p t b' n'"
  by (rule hand_upd [OF assms(1,3)]) (use assms(2,3) in auto)

lemma bread_hit:
  assumes "bio_ok h st dv s" "holder dv s n = Some b" "unat bn = n"
    and "vheld (bio_view st dv s) n = None" "vref (bio_view st dv s) n + 1 < 2 ^ 32"
  shows "wp (bread h p dv bn s) (\<lambda>(b, t). bio_ok h st dv t \<and> bio_view st dv t = v_get p n (bio_view st dv s) \<and>
    bio_hand dv p t b n \<and> (\<forall>b' n'. bio_hand dv p s b' n' \<longrightarrow> bio_hand dv p t b' n'))"
proof -
  note k = bio_okD [OF assms(1)]
  have b: "b \<in> bset" "b_dev (bb s b) = dv" "unat (b_blockno (bb s b)) = n" using assms(2) by (simp_all add: holder_Some [OF k(4)])
  have ul: "sl_locked (b_lock (bb s b)) = 0" using assms(2,4) by (simp add: bio_view_def split: if_splits)
  have r: "vref (bio_view st dv s) n = unat (b_refcnt (bb s b))" "vcur (bio_view st dv s) n = b_data (bb s b)" using assms(2) by (simp_all add: bio_view_def)
  define x where "x = (bb s b)\<lparr>b_refcnt := b_refcnt (bb s b) + 1, b_lock := (b_lock (bb s b))\<lparr>sl_locked := 1, sl_pid := p\<rparr>\<rparr>"
  obtain c where c: "cpu_ok c" "bget p dv bn s = Inr (b, with_bufs c ((bufs (bv s))(b := x)) s)"
    using bget_hit [OF assms(1-3) ul] unfolding x_def by metis
  let ?t = "with_bufs c ((bufs (bv s))(b := x)) s"
  have e: "eff h st ((bufs (bv s))(b := x)) s ?t" by (rule eff_with_bufs [OF k(1) c(1)])
  have bk: "buf_ok h (st (media (bv s)) 0) dv (bb s b)" by (rule k(5) [OF b(1)])
  have u: "unat (b_refcnt (bb s b) + 1) = unat (b_refcnt (bb s b)) + 1" using assms(5) r(1) by (intro unat_step) simp
  then have nz: "b_refcnt (bb s b) + 1 \<noteq> 0" by (metis unat_0 add_is_0 one_neq_zero)
  have "bread h p dv bn s = Inr (b, ?t)" using bk b(2) c(2) by (simp add: bread_def buf_ok_def x_def)
  moreover have "bio_ok h st dv ?t"
    by (rule bio_ok_upd [OF assms(1) e]) (use bk b(2) nz k(4) in \<open>auto simp: buf_ok_def x_def sl_ok_def intro: uniq_same\<close>)
  moreover have "(vcur (bio_view st dv s))(n := b_data (bb s b)) = vcur (bio_view st dv s)" using r(2) by auto
  then have "bio_view st dv ?t = v_get p n (bio_view st dv s)"
    using view_upd [OF assms(1) b e] b(2) r(1) u by (simp add: x_def v_get_def)
  moreover have "bio_hand dv p ?t b n" using b by (simp add: bio_hand_def x_def)
  moreover have "bio_hand dv p ?t b' n'" if "bio_hand dv p s b' n'" for b' n'
    by (rule hand_get [OF e _ that]) (use ul in \<open>simp add: bio_hand_def\<close>)
  ultimately show ?thesis by simp
qed

lemma bread_miss:
  assumes "bio_ok h st dv s" "holder dv s n = None" "unat bn = n" "n < capacity h 0" "a \<in> bset" "b_refcnt (bb s a) = 0"
  shows "wp (bread h p dv bn s) (\<lambda>(b, t). bio_ok h st dv t \<and> bio_view st dv t = v_get p n (bio_view st dv s) \<and>
    bio_hand dv p t b n \<and> (\<forall>b' n'. bio_hand dv p s b' n' \<longrightarrow> bio_hand dv p t b' n'))"
proof -
  note k = bio_okD [OF assms(1)]
  define y where "y b = (bb s b)\<lparr>b_dev := dv, b_blockno := bn, b_valid := 0, b_refcnt := 1, b_lock := (b_lock (bb s b))\<lparr>sl_locked := 1, sl_pid := p\<rparr>\<rparr>" for b
  obtain b c where c: "cpu_ok c" "b \<in> bset" "b_refcnt (bb s b) = 0" "bget p dv bn s = Inr (b, with_bufs c ((bufs (bv s))(b := y b)) s)"
    using bget_miss [OF assms(1-3,5,6)] unfolding y_def by metis
  let ?s = "with_bufs c ((bufs (bv s))(b := y b)) s"
  have drv: "hw_ok h" "virtio_blk_device h st" "vok h st (bv ?s)"
    using eff_with_bufs [OF k(1) c(1), of "(bufs (bv s))(b := y b)"] by (simp_all add: eff_def drv_ok_def)
  have bn: "bn = of_nat n" using assms(3) by (rule at_block)
  have "\<exists>v'. virtio_disk_rw h (int 0) b False (bv ?s) = Inr v' \<and> vok h st v' \<and> st (media v') = st (media (bv ?s)) \<and>
      bufs v' = (bufs (bv ?s))(b := (bufs (bv ?s) b)\<lparr>b_disk := 0, b_data := st (media (bv ?s)) (int 0) (int n)\<rparr>) \<and>
      transfer_buffer v' = transfer_buffer (bv ?s)"
    by (rule virtio_disk_rw_read [OF drv _ assms(4)]) (simp_all add: y_def bn)
  then obtain v where v: "virtio_disk_rw h 0 b False (bv ?s) = Inr v" "vok h st v" "st (media v) = st (media (bv s))"
      "bufs v = (bufs (bv s))(b := (y b)\<lparr>b_disk := 0, b_data := st (media (bv s)) 0 (int n)\<rparr>)" by auto
  define x where "x = (y b)\<lparr>b_disk := 0, b_data := st (media (bv s)) 0 (int n), b_valid := 1\<rparr>"
  define t where "t = set_buf b (\<lambda>x. x\<lparr>b_valid := 1\<rparr>) (?s\<lparr>bv := v\<rparr>)"
  have e: "eff h st ((bufs (bv s))(b := x)) s t"
    using v drv by (auto simp: eff_def t_def set_buf_def x_def drv_ok_def ring_ok_def vok_def)
  have xs: "b_dev x = dv" "unat (b_blockno x) = n" "b_data x = st (media (bv s)) 0 (int n)" "b_refcnt x = 1" "sl_locked (b_lock x) = 1" "sl_pid (b_lock x) = p"
    using assms(3) by (simp_all add: x_def y_def)
  note view = view_new [OF assms(1,2) c(2,3) e xs]
  have "bread h p dv bn s = Inr (b, t)" using c(4) v(1) by (simp add: bread_def t_def y_def)
  moreover have "length (st (media (bv s)) 0 (int n)) = BSIZE" using v(2,3) assms(4) by (auto simp: vok_def)
  then have "buf_ok h (st (media (bv s)) 0) dv x"
    using k(5) [OF c(2)] assms(3,4) by (simp add: buf_ok_def x_def y_def sl_ok_def)
  then have "bio_ok h st dv t" by (rule bio_ok_upd [OF assms(1) e _ view(1)])
  moreover have "bio_hand dv p t b n" using c(2) xs e by (simp add: bio_hand_def eff_def)
  moreover have "bio_hand dv p t b' n'" if "bio_hand dv p s b' n'" for b' n'
    by (rule hand_get [OF e _ that]) (use k(5) [OF c(2)] c(3) in \<open>auto simp: bio_hand_def buf_ok_def\<close>)
  ultimately show ?thesis using view(2) by simp
qed

lemma idle_is_clean:
  assumes "bio_ok h st dv s" "vref (bio_view st dv s) n = 0"
  shows "vcur (bio_view st dv s) n = vdisk (bio_view st dv s) n"
proof (cases "holder dv s n")
  case (Some b)
  then have b: "b \<in> bset" "b_dev (bb s b) = dv" "unat (b_blockno (bb s b)) = n"
    using holder_Some [OF bio_okD(4) [OF assms(1)]] by blast+
  moreover have "b_refcnt (bb s b) = 0" using assms(2) Some by (simp add: bio_view_def unat_eq_zero)
  ultimately have "b_data (bb s b) = st (media (bv s)) 0 (int n)"
    using bio_okD(5) [OF assms(1) b(1)] unfolding buf_ok_def by metis
  with Some show ?thesis by (simp add: bio_view_def)
qed (simp add: bio_view_def)

lemma cur_length:
  assumes "bio_ok h st dv s" "n < capacity h 0"
  shows "length (vcur (bio_view st dv s) n) = BSIZE"
proof (cases "holder dv s n")
  case None
  have "vok h st (bv s)" using bio_okD(1) [OF assms(1)] by (simp add: drv_ok_def)
  then have "length (st (media (bv s)) (int 0) (int n)) = BSIZE" using assms(2) unfolding vok_def by blast
  with None show ?thesis by (simp add: bio_view_def)
next
  case (Some b)
  then have "b \<in> bset" using holder_Some [OF bio_okD(4) [OF assms(1)]] by blast
  then show ?thesis using bio_okD(5) [OF assms(1)] Some by (simp add: bio_view_def buf_ok_def)
qed

interpretation bc: buffer_cache "\<lambda>n. bread h p dv (of_nat n)" "bwrite h p" "brelse p" bpin bunpin set_data
  "\<lambda>b s. b_data (bb s b)" "bio_view st dv" "\<lambda>s. bio_ok h st dv s" "bio_hand dv p" p "capacity h 0"
proof unfold_locales
  fix s n
  assume ok: "bio_ok h st dv s" and get: "can_get (capacity h 0) n (bio_view st dv s)"
  have "capacity h 0 < 2 ^ 31" using bio_okD(1) [OF ok] by (simp add: drv_ok_def hw_ok_def capacity_def)
  then have bn: "unat (of_nat n :: uint32) = n" using get by (simp add: can_get_def unat_of_nat)
  show "wp (bread h p dv (of_nat n) s) (\<lambda>(b, s'). bio_ok h st dv s' \<and> bio_view st dv s' = v_get p n (bio_view st dv s) \<and>
      bio_hand dv p s' b n \<and> (\<forall>b' n'. bio_hand dv p s b' n' \<longrightarrow> bio_hand dv p s' b' n'))"
  proof (cases "holder dv s n")
    case None
    then have "vref (bio_view st dv s) n = 0" by (simp add: bio_view_def)
    then obtain a where "a \<in> bset" "b_refcnt (bb s a) = 0" using free_buffer [OF ok] get by (auto simp: can_get_def)
    then show ?thesis using bread_miss [OF ok None bn] get by (simp add: can_get_def)
  next
    case (Some b)
    then show ?thesis using bread_hit [OF ok Some bn] get by (simp add: can_get_def)
  qed
next
  fix s n
  assume ok: "bio_ok h st dv s"
  show "vcur (bio_view st dv s) n = vdisk (bio_view st dv s) n" if "vref (bio_view st dv s) n = 0" by (rule idle_is_clean [OF ok that])
  show "length (vcur (bio_view st dv s) n) = BSIZE" if "n < capacity h 0" by (rule cur_length [OF ok that])
next
  fix s b n
  assume h: "bio_ok h st dv s" "bio_hand dv p s b n"
  show "b_data (bb s b) = vcur (bio_view st dv s) n \<and> length (b_data (bb s b)) = BSIZE"
    using handD(9) [OF h] bio_okD(5) [OF h(1) handD(1) [OF h]] by (simp add: buf_ok_def)
qed (rule set_data_law bwrite_law brelse_law bpin_law bunpin_law; assumption)+

end
