(* ===== verification/Log.thy ===== *)
theory Log
  imports Bio_Spec
begin

text \<open>
  The log of the file system (\<^verbatim>\<open>kernel/log.c\<close>): transactions over the buffer cache, their commit and the
  recovery after a crash.
\<close>

section \<open>The log\<close>

definition MAXOPBLOCKS :: nat where
  "MAXOPBLOCKS = 10"

definition LOGSIZE :: nat where
  "LOGSIZE = 30"

record superblock =
  sb_magic :: uint32
  sb_size :: uint32
  sb_nblocks :: uint32
  sb_ninodes :: uint32
  sb_nlog :: uint32
  sb_logstart :: uint32
  sb_inodestart :: uint32
  sb_bmapstart :: uint32

text \<open>
  \<^verbatim>\<open>struct log\<close> with its header, on the cache \<open>lbc\<close>. \<open>woken\<close> counts the calls of \<^verbatim>\<open>wakeup(&log)\<close>, a
  history that nothing reads.
\<close>

record 'm log =
  lbc :: "'m bcache"
  l_lock :: spinlock
  l_start :: int
  l_size :: int
  outstanding :: int
  committing :: int
  l_dev :: int
  lh_n :: int
  lh_block :: "int list"
  woken :: nat

definition log_acquire :: "'m log \<Rightarrow> 'm log res" where
  "log_acquire s = kbind (acquire (hart (bv (lbc s))) (vcpu (bv (lbc s)), l_lock s)) (\<lambda>(c, l).
     Inr (s\<lparr>lbc := (lbc s)\<lparr>bv := (bv (lbc s))\<lparr>vcpu := c\<rparr>\<rparr>, l_lock := l\<rparr>))"

definition log_release :: "'m log \<Rightarrow> 'm log res" where
  "log_release s = kbind (release (hart (bv (lbc s))) (vcpu (bv (lbc s)), l_lock s)) (\<lambda>(c, l).
     Inr (s\<lparr>lbc := (lbc s)\<lparr>bv := (bv (lbc s))\<lparr>vcpu := c\<rparr>\<rparr>, l_lock := l\<rparr>))"

text \<open>Reading the array \<^verbatim>\<open>log.lh.block\<close>, undefined past its end.\<close>

definition lh_at :: "'m log \<Rightarrow> nat \<Rightarrow> int res" where
  "lh_at s i = (if i < LOGSIZE then Inr (lh_block s ! i) else Inl BadAccess)"

section \<open>Commit and recovery\<close>

definition install_trans :: "'m hw \<Rightarrow> int \<Rightarrow> bool \<Rightarrow> 'm log \<Rightarrow> 'm log res" where
  "install_trans h p recovering s =
     kbind (kfold (\<lambda>tail c.
       kbind (bread h p (of_int (l_dev s)) (of_int (l_start s + int tail + 1)) c) (\<lambda>(lbuf, c).
       kbind (lh_at s tail) (\<lambda>bn.
       kbind (bread h p (of_int (l_dev s)) (of_int bn) c) (\<lambda>(dbuf, c).
       kbind (bwrite h p dbuf (set_data dbuf (b_data (bb c lbuf)) c)) (\<lambda>c.
       kbind (if \<not> recovering then bunpin dbuf c else Inr c) (\<lambda>c.
       kbind (brelse p lbuf c) (brelse p dbuf))))))) [0..<nat (lh_n s)] (lbc s)) (\<lambda>c.
     Inr (s\<lparr>lbc := c\<rparr>))"

text \<open>
  The header block seen as \<^verbatim>\<open>struct logheader\<close>: the count in word 0, the block numbers after it.
\<close>

definition read_head :: "'m hw \<Rightarrow> int \<Rightarrow> 'm log \<Rightarrow> 'm log res" where
  "read_head h p s =
     kbind (bread h p (of_int (l_dev s)) (of_int (l_start s)) (lbc s)) (\<lambda>(b, c).
     let lh = b_data (bb c b); s = s\<lparr>lh_n := sint (get32 0 lh)\<rparr> in
     kbind (kfold (\<lambda>i s. if i < LOGSIZE then Inr (s\<lparr>lh_block := (lh_block s)[i := sint (get32 (Suc i) lh)]\<rparr>) else Inl BadAccess)
       [0..<nat (lh_n s)] s) (\<lambda>s.
     kbind (brelse p b c) (\<lambda>c. Inr (s\<lparr>lbc := c\<rparr>))))"

definition head_bytes :: "int \<Rightarrow> int list \<Rightarrow> block \<Rightarrow> block" where
  "head_bytes n bs x = fold (\<lambda>i. put32 (Suc i) (of_int (bs ! i))) [0..<nat n] (put32 0 (of_int n) x)"

definition write_head :: "'m hw \<Rightarrow> int \<Rightarrow> 'm log \<Rightarrow> 'm log res" where
  "write_head h p s =
     kbind (bread h p (of_int (l_dev s)) (of_int (l_start s)) (lbc s)) (\<lambda>(b, c).
     if int LOGSIZE < lh_n s then Inl BadAccess
     else kbind (bwrite h p b (set_data b (head_bytes (lh_n s) (lh_block s) (b_data (bb c b))) c)) (\<lambda>c.
          kbind (brelse p b c) (\<lambda>c. Inr (s\<lparr>lbc := c\<rparr>))))"

definition recover_from_log :: "'m hw \<Rightarrow> int \<Rightarrow> 'm log \<Rightarrow> 'm log res" where
  "recover_from_log h p s =
     kbind (read_head h p s) (\<lambda>s.
     kbind (install_trans h p True s) (\<lambda>s.
     write_head h p (s\<lparr>lh_n := 0\<rparr>)))"

text \<open>The size of \<^verbatim>\<open>struct logheader\<close> is that of \<open>LOGSIZE + 1\<close> ints.\<close>

definition initlog :: "'m hw \<Rightarrow> int \<Rightarrow> int \<Rightarrow> superblock \<Rightarrow> 'm log \<Rightarrow> 'm log res" where
  "initlog h p dev sb s =
     (if BSIZE \<le> 4 * (LOGSIZE + 1) then Inl (Panic ''initlog: too big logheader'')
      else recover_from_log h p (s\<lparr>l_lock := initlock ''log'', l_start := sint (sb_logstart sb), l_size := sint (sb_nlog sb), l_dev := dev\<rparr>))"

definition write_log :: "'m hw \<Rightarrow> int \<Rightarrow> 'm log \<Rightarrow> 'm log res" where
  "write_log h p s =
     kbind (kfold (\<lambda>tail c.
       kbind (bread h p (of_int (l_dev s)) (of_int (l_start s + int tail + 1)) c) (\<lambda>(to, c).
       kbind (lh_at s tail) (\<lambda>bn.
       kbind (bread h p (of_int (l_dev s)) (of_int bn) c) (\<lambda>(from, c).
       kbind (bwrite h p to (set_data to (b_data (bb c from)) c)) (\<lambda>c.
       kbind (brelse p from c) (brelse p to)))))) [0..<nat (lh_n s)] (lbc s)) (\<lambda>c.
     Inr (s\<lparr>lbc := c\<rparr>))"

definition commit :: "'m hw \<Rightarrow> int \<Rightarrow> 'm log \<Rightarrow> 'm log res" where
  "commit h p s =
     (if 0 < lh_n s
      then kbind (write_log h p s) (\<lambda>s.
           kbind (write_head h p s) (\<lambda>s.
           kbind (install_trans h p False s) (\<lambda>s.
           write_head h p (s\<lparr>lh_n := 0\<rparr>))))
      else Inr s)"

section \<open>Operations\<close>

text \<open>
  \<open>False\<close>: the caller sleeps on the log, without its lock; woken, it takes the lock again and starts over.
\<close>

definition begin_op :: "'m log \<Rightarrow> (bool \<times> 'm log) res" where
  "begin_op s =
     kbind (log_acquire s) (\<lambda>s.
     if committing s \<noteq> 0 then kbind (log_release s) (\<lambda>s. Inr (False, s))
     else if int LOGSIZE < lh_n s + (outstanding s + 1) * int MAXOPBLOCKS then kbind (log_release s) (\<lambda>s. Inr (False, s))
     else kbind (log_release (s\<lparr>outstanding := outstanding s + 1\<rparr>)) (\<lambda>s. Inr (True, s)))"

definition end_op :: "'m hw \<Rightarrow> int \<Rightarrow> 'm log \<Rightarrow> 'm log res" where
  "end_op h p s =
     kbind (log_acquire s) (\<lambda>s.
     let s = s\<lparr>outstanding := outstanding s - 1\<rparr> in
     if committing s \<noteq> 0 then Inl (Panic ''log.committing'')
     else if outstanding s = 0
     then kbind (log_release (s\<lparr>committing := 1\<rparr>)) (\<lambda>s.
          kbind (commit h p s) (\<lambda>s.
          kbind (log_acquire s) (\<lambda>s.
          log_release (s\<lparr>committing := 0, woken := Suc (woken s)\<rparr>))))
     else log_release (s\<lparr>woken := Suc (woken s)\<rparr>))"

text \<open>The search for an entry of the same block compares an \<^verbatim>\<open>int\<close> with an \<^verbatim>\<open>uint\<close>, as unsigned words.\<close>

fun find_entry :: "uint32 \<Rightarrow> int list \<Rightarrow> nat" where
  "find_entry w [] = 0"
| "find_entry w (b # bs) = (if of_int b = w then 0 else Suc (find_entry w bs))"

definition log_write :: "nat \<Rightarrow> 'm log \<Rightarrow> 'm log res" where
  "log_write b s =
     kbind (log_acquire s) (\<lambda>s.
     if int LOGSIZE \<le> lh_n s \<or> l_size s - 1 \<le> lh_n s then Inl (Panic ''too big a transaction'')
     else if outstanding s < 1 then Inl (Panic ''log_write outside of trans'')
     else let i = find_entry (b_blockno (bb (lbc s) b)) (take (nat (lh_n s)) (lh_block s));
              s = s\<lparr>lh_block := (lh_block s)[i := sint (b_blockno (bb (lbc s) b))]\<rparr>
          in kbind (if int i = lh_n s
                    then kbind (bpin b (lbc s)) (\<lambda>c. Inr (s\<lparr>lbc := c, lh_n := lh_n s + 1\<rparr>))
                    else Inr s) log_release)"

end
