(* ===== verification/Fs.thy ===== *)
theory Fs
  imports Log CString
begin

text \<open>
  The file system (\<^verbatim>\<open>kernel/fs.c\<close>): the block allocator, inodes and their contents, directories and path
  names, over the log and the buffer cache.
\<close>

section \<open>Layout of the disk\<close>

definition FSMAGIC :: uint32 where
  "FSMAGIC = 0x10203040"

definition ROOTINO :: uint32 where
  "ROOTINO = 1"

definition ROOTDEV :: uint32 where
  "ROOTDEV = 1"

definition NDIRECT :: nat where
  "NDIRECT = 12"

definition NINDIRECT :: nat where
  "NINDIRECT = BSIZE div 4"

definition MAXFILE :: nat where
  "MAXFILE = NDIRECT + NINDIRECT"

definition DIRSIZ :: nat where
  "DIRSIZ = 14"

definition NINODE :: nat where
  "NINODE = 50"

definition T_DIR :: ushort where
  "T_DIR = 1"

definition T_FILE :: ushort where
  "T_FILE = 2"

definition T_DEVICE :: ushort where
  "T_DEVICE = 3"

record dinode =
  d_type :: ushort
  d_major :: ushort
  d_minor :: ushort
  d_nlink :: ushort
  d_size :: uint32
  d_addrs :: "uint32 list"

text \<open>A \<^verbatim>\<open>struct dinode\<close> is 64 bytes without padding; \<open>k\<close> is its position in a block.\<close>

definition IPB :: nat where
  "IPB = BSIZE div 64"

definition BPB :: nat where
  "BPB = BSIZE * 8"

definition le16 :: "ushort \<Rightarrow> uchar list" where
  "le16 w = [ucast w, ucast (drop_bit 8 w)]"

definition get16 :: "nat \<Rightarrow> uchar list \<Rightarrow> ushort" where
  "get16 a bs = ucast (bs ! a) OR push_bit 8 (ucast (bs ! (a + 1)))"

definition dinode_bytes :: "dinode \<Rightarrow> uchar list" where
  "dinode_bytes d = le16 (d_type d) @ le16 (d_major d) @ le16 (d_minor d) @ le16 (d_nlink d) @ le32 (d_size d) @ concat (map le32 (d_addrs d))"

definition put_dinode :: "nat \<Rightarrow> dinode \<Rightarrow> block \<Rightarrow> block" where
  "put_dinode k d bs = take (64 * k) bs @ dinode_bytes d @ drop (64 * k + 64) bs"

definition dinode_of :: "nat \<Rightarrow> block \<Rightarrow> dinode" where
  "dinode_of k bs = \<lparr>d_type = get16 (64 * k) bs, d_major = get16 (64 * k + 2) bs, d_minor = get16 (64 * k + 4) bs,
     d_nlink = get16 (64 * k + 6) bs, d_size = get32 (16 * k + 2) bs, d_addrs = map (\<lambda>j. get32 (16 * k + 3 + j) bs) [0..<NDIRECT + 1]\<rparr>"

text \<open>A \<^verbatim>\<open>struct dirent\<close> is the inode number and the name, 16 bytes.\<close>

record dirent =
  de_inum :: ushort
  de_name :: "uchar list"

definition dirent_bytes :: "dirent \<Rightarrow> uchar list" where
  "dirent_bytes d = le16 (de_inum d) @ de_name d"

definition dirent_of :: "uchar list \<Rightarrow> dirent" where
  "dirent_of bs = \<lparr>de_inum = get16 0 bs, de_name = drop 2 bs\<rparr>"

section \<open>State\<close>

record inode =
  i_dev :: uint32
  i_inum :: uint32
  i_ref :: int
  i_lock :: sleeplock
  i_valid :: int
  i_type :: ushort
  i_major :: ushort
  i_minor :: ushort
  i_nlink :: ushort
  i_size :: uint32
  i_addrs :: "uint32 list"

text \<open>
  An inode pointer is an index of \<^verbatim>\<open>itable.inode\<close>. The operations take pointers that \<^verbatim>\<open>iget\<close> returned, which are below the length of the
  table; an update through another one, which C does not define, would change nothing.
\<close>

record 'm fs =
  flog :: "'m log"
  it_lock :: spinlock
  itable :: "inode list"
  fsb :: superblock

definition upd_inode :: "nat \<Rightarrow> (inode \<Rightarrow> inode) \<Rightarrow> 'm fs \<Rightarrow> 'm fs" where
  "upd_inode i f s = s\<lparr>itable := (itable s)[i := f (itable s ! i)]\<rparr>"

text \<open>The operations of the layers below, on this state; the hart's interrupt state is that of the driver.\<close>

abbreviation fs_cache :: "'m fs \<Rightarrow> 'm bcache" where
  "fs_cache s \<equiv> lbc (flog s)"

definition set_cache :: "'m bcache \<Rightarrow> 'm fs \<Rightarrow> 'm fs" where
  "set_cache c s = s\<lparr>flog := (flog s)\<lparr>lbc := c\<rparr>\<rparr>"

definition fs_cpu :: "'m fs \<Rightarrow> cpu" where
  "fs_cpu s = vcpu (bv (fs_cache s))"

definition set_fs_cpu :: "cpu \<Rightarrow> 'm fs \<Rightarrow> 'm fs" where
  "set_fs_cpu c s = set_cache ((fs_cache s)\<lparr>bv := (bv (fs_cache s))\<lparr>vcpu := c\<rparr>\<rparr>) s"

definition fs_hart :: "'m fs \<Rightarrow> nat" where
  "fs_hart s = hart (bv (fs_cache s))"

definition fs_bread :: "'m hw \<Rightarrow> int \<Rightarrow> uint32 \<Rightarrow> uint32 \<Rightarrow> 'm fs \<Rightarrow> (nat \<times> 'm fs) res" where
  "fs_bread h p dev bn s = kbind (bread h p dev bn (fs_cache s)) (\<lambda>(b, c). Inr (b, set_cache c s))"

definition fs_brelse :: "int \<Rightarrow> nat \<Rightarrow> 'm fs \<Rightarrow> 'm fs res" where
  "fs_brelse p b s = kbind (brelse p b (fs_cache s)) (\<lambda>c. Inr (set_cache c s))"

definition fs_log_write :: "nat \<Rightarrow> 'm fs \<Rightarrow> 'm fs res" where
  "fs_log_write b s = kbind (log_write b (flog s)) (\<lambda>l. Inr (s\<lparr>flog := l\<rparr>))"

definition bdata :: "'m fs \<Rightarrow> nat \<Rightarrow> block" where
  "bdata s b = b_data (bb (fs_cache s) b)"

definition set_bdata :: "nat \<Rightarrow> block \<Rightarrow> 'm fs \<Rightarrow> 'm fs" where
  "set_bdata b x s = set_cache (set_data b x (fs_cache s)) s"

definition it_acquire :: "'m fs \<Rightarrow> 'm fs res" where
  "it_acquire s = kbind (acquire (fs_hart s) (fs_cpu s, it_lock s)) (\<lambda>(c, l). Inr ((set_fs_cpu c s)\<lparr>it_lock := l\<rparr>))"

definition it_release :: "'m fs \<Rightarrow> 'm fs res" where
  "it_release s = kbind (release (fs_hart s) (fs_cpu s, it_lock s)) (\<lambda>(c, l). Inr ((set_fs_cpu c s)\<lparr>it_lock := l\<rparr>))"

definition i_acquiresleep :: "int \<Rightarrow> nat \<Rightarrow> 'm fs \<Rightarrow> 'm fs res" where
  "i_acquiresleep p i s = kbind (acquiresleep (fs_hart s) p (fs_cpu s, i_lock (itable s ! i))) (\<lambda>(c, l).
     Inr (upd_inode i (\<lambda>x. x\<lparr>i_lock := l\<rparr>) (set_fs_cpu c s)))"

definition i_releasesleep :: "nat \<Rightarrow> 'm fs \<Rightarrow> 'm fs res" where
  "i_releasesleep i s = kbind (releasesleep (fs_hart s) (fs_cpu s, i_lock (itable s ! i))) (\<lambda>(c, l).
     Inr (upd_inode i (\<lambda>x. x\<lparr>i_lock := l\<rparr>) (set_fs_cpu c s)))"

definition i_holdingsleep :: "int \<Rightarrow> nat \<Rightarrow> 'm fs \<Rightarrow> (bool \<times> 'm fs) res" where
  "i_holdingsleep p i s = kbind (holdingsleep (fs_hart s) p (fs_cpu s, i_lock (itable s ! i))) (\<lambda>(r, c, l).
     Inr (r, upd_inode i (\<lambda>x. x\<lparr>i_lock := l\<rparr>) (set_fs_cpu c s)))"

section \<open>Blocks\<close>

text \<open>\<^verbatim>\<open>struct superblock\<close> is eight words.\<close>

definition super_of :: "block \<Rightarrow> superblock" where
  "super_of bs = \<lparr>sb_magic = get32 0 bs, sb_size = get32 1 bs, sb_nblocks = get32 2 bs, sb_ninodes = get32 3 bs,
     sb_nlog = get32 4 bs, sb_logstart = get32 5 bs, sb_inodestart = get32 6 bs, sb_bmapstart = get32 7 bs\<rparr>"

definition readsb :: "'m hw \<Rightarrow> int \<Rightarrow> int \<Rightarrow> 'm fs \<Rightarrow> 'm fs res" where
  "readsb h p dev s =
     kbind (fs_bread h p (of_int dev) 1 s) (\<lambda>(bp, s).
     let s = s\<lparr>fsb := super_of (bdata s bp)\<rparr> in
     fs_brelse p bp s)"

definition fsinit :: "'m hw \<Rightarrow> int \<Rightarrow> int \<Rightarrow> 'm fs \<Rightarrow> 'm fs res" where
  "fsinit h p dev s =
     kbind (readsb h p dev s) (\<lambda>s.
     if sb_magic (fsb s) \<noteq> FSMAGIC then Inl (Panic ''invalid file system'')
     else kbind (initlog h p dev (fsb s) (flog s)) (\<lambda>l. Inr (s\<lparr>flog := l\<rparr>)))"

definition bzero :: "'m hw \<Rightarrow> int \<Rightarrow> uint32 \<Rightarrow> uint32 \<Rightarrow> 'm fs \<Rightarrow> 'm fs res" where
  "bzero h p dev bno s =
     kbind (fs_bread h p dev bno s) (\<lambda>(bp, s).
     let s = set_bdata bp (replicate BSIZE 0) s in
     kbind (fs_log_write bp s) (fs_brelse p bp))"

definition BBLOCK :: "nat \<Rightarrow> superblock \<Rightarrow> uint32" where
  "BBLOCK b sb = of_nat (b div BPB) + sb_bmapstart sb"

definition IBLOCK :: "uint32 \<Rightarrow> superblock \<Rightarrow> uint32" where
  "IBLOCK i sb = of_nat (unat i div IPB) + sb_inodestart sb"

definition bit_mask :: "nat \<Rightarrow> uchar" where
  "bit_mask bi = push_bit (bi mod 8) 1"

text \<open>The inner loop of \<^verbatim>\<open>balloc\<close>: the first clear bit among the first \<open>n\<close>.\<close>

definition find_clear :: "block \<Rightarrow> nat \<Rightarrow> nat option" where
  "find_clear x n = find (\<lambda>bi. x ! (bi div 8) AND bit_mask bi = 0) [0..<n]"

function balloc_loop :: "'m hw \<Rightarrow> int \<Rightarrow> uint32 \<Rightarrow> nat \<Rightarrow> nat \<Rightarrow> 'm fs \<Rightarrow> (uint32 \<times> 'm fs) res" where
  "balloc_loop h p dev lim b s =
     (if b < lim
      then kbind (fs_bread h p dev (BBLOCK b (fsb s)) s) (\<lambda>(bp, s).
           case find_clear (bdata s bp) (min BPB (lim - b)) of
             Some bi \<Rightarrow>
               let s = set_bdata bp ((bdata s bp)[bi div 8 := bdata s bp ! (bi div 8) OR bit_mask bi]) s in
               kbind (fs_log_write bp s) (\<lambda>s.
               kbind (fs_brelse p bp s) (\<lambda>s.
               kbind (bzero h p dev (of_nat (b + bi)) s) (\<lambda>s. Inr (of_nat (b + bi), s))))
           | None \<Rightarrow> kbind (fs_brelse p bp s) (balloc_loop h p dev lim (b + BPB)))
      else Inr (0, s))"
  by pat_completeness auto
termination
  by (relation "measure (\<lambda>(h, p, dev, lim, b, s). lim - b)") (auto simp: BPB_def BSIZE_def)

declare balloc_loop.simps [simp del]

definition balloc :: "'m hw \<Rightarrow> int \<Rightarrow> uint32 \<Rightarrow> 'm fs \<Rightarrow> (uint32 \<times> 'm fs) res" where
  "balloc h p dev s = balloc_loop h p dev (unat (sb_size (fsb s))) 0 s"

definition bfree :: "'m hw \<Rightarrow> int \<Rightarrow> uint32 \<Rightarrow> uint32 \<Rightarrow> 'm fs \<Rightarrow> 'm fs res" where
  "bfree h p dev b s =
     kbind (fs_bread h p dev (BBLOCK (unat b) (fsb s)) s) (\<lambda>(bp, s).
     let bi = unat b mod BPB in
     if bdata s bp ! (bi div 8) AND bit_mask bi = 0 then Inl (Panic ''freeing free block'')
     else let s = set_bdata bp ((bdata s bp)[bi div 8 := bdata s bp ! (bi div 8) AND NOT (bit_mask bi)]) s in
          kbind (fs_log_write bp s) (fs_brelse p bp))"

section \<open>Inodes\<close>

definition iinit :: "'m fs \<Rightarrow> 'm fs" where
  "iinit s = fold (\<lambda>i. upd_inode i (\<lambda>x. x\<lparr>i_lock := initsleeplock ''inode''\<rparr>)) [0..<NINODE] (s\<lparr>it_lock := initlock ''itable''\<rparr>)"

text \<open>The search of \<^verbatim>\<open>iget\<close>: the entry of the inode, or the first free one (\<open>spare\<close>, the source's \<^verbatim>\<open>empty\<close>).\<close>

fun iget_scan :: "uint32 \<Rightarrow> uint32 \<Rightarrow> inode list \<Rightarrow> nat \<Rightarrow> nat option \<Rightarrow> nat option + nat" where
  "iget_scan dev inum [] i spare = Inl spare"
| "iget_scan dev inum (x # xs) i spare =
     (if 0 < i_ref x \<and> i_dev x = dev \<and> i_inum x = inum then Inr i
      else iget_scan dev inum xs (Suc i) (if spare = None \<and> i_ref x = 0 then Some i else spare))"

definition iget :: "uint32 \<Rightarrow> uint32 \<Rightarrow> 'm fs \<Rightarrow> (nat \<times> 'm fs) res" where
  "iget dev inum s =
     kbind (it_acquire s) (\<lambda>s.
     case iget_scan dev inum (itable s) 0 None of
       Inr i \<Rightarrow> kbind (it_release (upd_inode i (\<lambda>x. x\<lparr>i_ref := i_ref x + 1\<rparr>) s)) (\<lambda>s. Inr (i, s))
     | Inl None \<Rightarrow> Inl (Panic ''iget: no inodes'')
     | Inl (Some i) \<Rightarrow>
         kbind (it_release (upd_inode i (\<lambda>x. x\<lparr>i_dev := dev, i_inum := inum, i_ref := 1, i_valid := 0\<rparr>) s)) (\<lambda>s. Inr (i, s)))"

definition zero_dinode :: dinode where
  "zero_dinode = \<lparr>d_type = 0, d_major = 0, d_minor = 0, d_nlink = 0, d_size = 0, d_addrs = replicate (NDIRECT + 1) 0\<rparr>"

text \<open>The loop of \<^verbatim>\<open>ialloc\<close> over the inode numbers.\<close>

fun ialloc_loop :: "'m hw \<Rightarrow> int \<Rightarrow> uint32 \<Rightarrow> ushort \<Rightarrow> uint32 list \<Rightarrow> 'm fs \<Rightarrow> (nat option \<times> 'm fs) res" where
  "ialloc_loop h p dev type [] s = Inr (None, s)"
| "ialloc_loop h p dev type (inum # inums) s =
     kbind (fs_bread h p dev (IBLOCK inum (fsb s)) s) (\<lambda>(bp, s).
     let k = unat inum mod IPB in
     if d_type (dinode_of k (bdata s bp)) = 0
     then let s = set_bdata bp (put_dinode k (zero_dinode\<lparr>d_type := type\<rparr>) (bdata s bp)) s in
          kbind (fs_log_write bp s) (\<lambda>s.
          kbind (fs_brelse p bp s) (\<lambda>s.
          kbind (iget dev inum s) (\<lambda>(i, s). Inr (Some i, s))))
     else kbind (fs_brelse p bp s) (ialloc_loop h p dev type inums))"

definition ialloc :: "'m hw \<Rightarrow> int \<Rightarrow> uint32 \<Rightarrow> ushort \<Rightarrow> 'm fs \<Rightarrow> (nat option \<times> 'm fs) res" where
  "ialloc h p dev type s = ialloc_loop h p dev type (map of_nat [1..<unat (sb_ninodes (fsb s))]) s"

definition dinode_copy :: "inode \<Rightarrow> dinode" where
  "dinode_copy x = \<lparr>d_type = i_type x, d_major = i_major x, d_minor = i_minor x, d_nlink = i_nlink x, d_size = i_size x, d_addrs = i_addrs x\<rparr>"

definition inode_copy :: "dinode \<Rightarrow> inode \<Rightarrow> inode" where
  "inode_copy d x = x\<lparr>i_type := d_type d, i_major := d_major d, i_minor := d_minor d, i_nlink := d_nlink d, i_size := d_size d, i_addrs := d_addrs d\<rparr>"

definition iupdate :: "'m hw \<Rightarrow> int \<Rightarrow> nat \<Rightarrow> 'm fs \<Rightarrow> 'm fs res" where
  "iupdate h p ip s =
     (let x = itable s ! ip in
      kbind (fs_bread h p (i_dev x) (IBLOCK (i_inum x) (fsb s)) s) (\<lambda>(bp, s).
      let s = set_bdata bp (put_dinode (unat (i_inum x) mod IPB) (dinode_copy x) (bdata s bp)) s in
      kbind (fs_log_write bp s) (fs_brelse p bp)))"

definition idup :: "nat \<Rightarrow> 'm fs \<Rightarrow> (nat \<times> 'm fs) res" where
  "idup ip s = kbind (it_acquire s) (\<lambda>s. kbind (it_release (upd_inode ip (\<lambda>x. x\<lparr>i_ref := i_ref x + 1\<rparr>) s)) (\<lambda>s. Inr (ip, s)))"

definition ilock :: "'m hw \<Rightarrow> int \<Rightarrow> nat option \<Rightarrow> 'm fs \<Rightarrow> 'm fs res" where
  "ilock h p ipp s =
     (case ipp of None \<Rightarrow> Inl (Panic ''ilock'') | Some ip \<Rightarrow>
      if i_ref (itable s ! ip) < 1 then Inl (Panic ''ilock'')
      else kbind (i_acquiresleep p ip s) (\<lambda>s.
           if i_valid (itable s ! ip) = 0
           then let x = itable s ! ip in
                kbind (fs_bread h p (i_dev x) (IBLOCK (i_inum x) (fsb s)) s) (\<lambda>(bp, s).
                let s = upd_inode ip (inode_copy (dinode_of (unat (i_inum x) mod IPB) (bdata s bp))) s in
                kbind (fs_brelse p bp s) (\<lambda>s.
                let s = upd_inode ip (\<lambda>x. x\<lparr>i_valid := 1\<rparr>) s in
                if i_type (itable s ! ip) = 0 then Inl (Panic ''ilock: no type'') else Inr s))
           else Inr s))"

definition iunlock :: "int \<Rightarrow> nat option \<Rightarrow> 'm fs \<Rightarrow> 'm fs res" where
  "iunlock p ipp s =
     (case ipp of None \<Rightarrow> Inl (Panic ''iunlock'') | Some ip \<Rightarrow>
      kbind (i_holdingsleep p ip s) (\<lambda>(held, s).
      if \<not> held \<or> i_ref (itable s ! ip) < 1 then Inl (Panic ''iunlock'')
      else i_releasesleep ip s))"

section \<open>Contents of an inode\<close>

text \<open>An entry of \<^verbatim>\<open>ip->addrs\<close>, allocated when it is 0; and an entry of the indirect block \<open>addr\<close>.\<close>

definition bmap_slot :: "'m hw \<Rightarrow> int \<Rightarrow> nat \<Rightarrow> nat \<Rightarrow> 'm fs \<Rightarrow> (uint32 \<times> 'm fs) res" where
  "bmap_slot h p ip i s =
     (let addr = i_addrs (itable s ! ip) ! i in
      if addr = 0
      then kbind (balloc h p (i_dev (itable s ! ip)) s) (\<lambda>(addr, s).
           if addr = 0 then Inr (0, s)
           else Inr (addr, upd_inode ip (\<lambda>x. x\<lparr>i_addrs := (i_addrs x)[i := addr]\<rparr>) s))
      else Inr (addr, s))"

definition bmap_indirect :: "'m hw \<Rightarrow> int \<Rightarrow> uint32 \<Rightarrow> uint32 \<Rightarrow> nat \<Rightarrow> 'm fs \<Rightarrow> (uint32 \<times> 'm fs) res" where
  "bmap_indirect h p dev addr bn s =
     kbind (fs_bread h p dev addr s) (\<lambda>(bp, s).
     let addr = get32 bn (bdata s bp) in
     kbind (if addr = 0
            then kbind (balloc h p dev s) (\<lambda>(addr, s).
                 if addr \<noteq> 0
                 then kbind (fs_log_write bp (set_bdata bp (put32 bn addr (bdata s bp)) s)) (\<lambda>s. Inr (addr, s))
                 else Inr (addr, s))
            else Inr (addr, s)) (\<lambda>(addr, s).
     kbind (fs_brelse p bp s) (\<lambda>s. Inr (addr, s))))"

definition bmap :: "'m hw \<Rightarrow> int \<Rightarrow> nat \<Rightarrow> uint32 \<Rightarrow> 'm fs \<Rightarrow> (uint32 \<times> 'm fs) res" where
  "bmap h p ip bn s =
     (if unat bn < NDIRECT then bmap_slot h p ip (unat bn) s
      else if unat bn - NDIRECT < NINDIRECT
      then kbind (bmap_slot h p ip NDIRECT s) (\<lambda>(addr, s).
           if addr = 0 then Inr (0, s)
           else bmap_indirect h p (i_dev (itable s ! ip)) addr (unat bn - NDIRECT) s)
      else Inl (Panic ''bmap: out of range''))"

definition itrunc :: "'m hw \<Rightarrow> int \<Rightarrow> nat \<Rightarrow> 'm fs \<Rightarrow> 'm fs res" where
  "itrunc h p ip s =
     kbind (kfold (\<lambda>i s.
       if i_addrs (itable s ! ip) ! i \<noteq> 0
       then kbind (bfree h p (i_dev (itable s ! ip)) (i_addrs (itable s ! ip) ! i) s) (\<lambda>s.
            Inr (upd_inode ip (\<lambda>x. x\<lparr>i_addrs := (i_addrs x)[i := 0]\<rparr>) s))
       else Inr s) [0..<NDIRECT] s) (\<lambda>s.
     kbind (if i_addrs (itable s ! ip) ! NDIRECT \<noteq> 0
            then kbind (fs_bread h p (i_dev (itable s ! ip)) (i_addrs (itable s ! ip) ! NDIRECT) s) (\<lambda>(bp, s).
                 kbind (kfold (\<lambda>j s. if get32 j (bdata s bp) \<noteq> 0 then bfree h p (i_dev (itable s ! ip)) (get32 j (bdata s bp)) s else Inr s)
                   [0..<NINDIRECT] s) (\<lambda>s.
                 kbind (fs_brelse p bp s) (\<lambda>s.
                 kbind (bfree h p (i_dev (itable s ! ip)) (i_addrs (itable s ! ip) ! NDIRECT) s) (\<lambda>s.
                 Inr (upd_inode ip (\<lambda>x. x\<lparr>i_addrs := (i_addrs x)[NDIRECT := 0]\<rparr>) s)))))
            else Inr s) (\<lambda>s.
     iupdate h p ip (upd_inode ip (\<lambda>x. x\<lparr>i_size := 0\<rparr>) s)))"

definition iput :: "'m hw \<Rightarrow> int \<Rightarrow> nat \<Rightarrow> 'm fs \<Rightarrow> 'm fs res" where
  "iput h p ip s =
     kbind (it_acquire s) (\<lambda>s.
     let x = itable s ! ip in
     kbind (if i_ref x = 1 \<and> i_valid x \<noteq> 0 \<and> i_nlink x = 0
            then kbind (i_acquiresleep p ip s) (\<lambda>s.
                 kbind (it_release s) (\<lambda>s.
                 kbind (itrunc h p ip s) (\<lambda>s.
                 kbind (iupdate h p ip (upd_inode ip (\<lambda>x. x\<lparr>i_type := 0\<rparr>) s)) (\<lambda>s.
                 kbind (i_releasesleep ip (upd_inode ip (\<lambda>x. x\<lparr>i_valid := 0\<rparr>) s)) it_acquire))))
            else Inr s) (\<lambda>s.
     it_release (upd_inode ip (\<lambda>x. x\<lparr>i_ref := i_ref x - 1\<rparr>) s)))"

definition iunlockput :: "'m hw \<Rightarrow> int \<Rightarrow> nat \<Rightarrow> 'm fs \<Rightarrow> 'm fs res" where
  "iunlockput h p ip s = kbind (iunlock p (Some ip) s) (iput h p ip)"

record stat =
  st_dev :: uint32
  st_ino :: uint32
  st_type :: ushort
  st_nlink :: ushort
  st_size :: uint64

definition stati :: "nat \<Rightarrow> 'm fs \<Rightarrow> stat" where
  "stati ip s =
     (let x = itable s ! ip
      in \<lparr>st_dev = i_dev x, st_ino = i_inum x, st_type = i_type x, st_nlink = i_nlink x, st_size = ucast (i_size x)\<rparr>)"

text \<open>
  \<open>put\<close> is \<^verbatim>\<open>either_copyout\<close> with its flag, and \<open>get\<close> \<^verbatim>\<open>either_copyin\<close>, on the memory \<open>u\<close> of the caller; a
  failing \<open>get\<close> has stored the bytes it returns. \<open>left\<close> counts the bytes still to copy.
\<close>

function readi_loop :: "'m hw \<Rightarrow> int \<Rightarrow> (uint64 \<Rightarrow> uchar list \<Rightarrow> 'u \<Rightarrow> (int \<times> 'u) res) \<Rightarrow> nat \<Rightarrow> nat \<Rightarrow> nat \<Rightarrow> uint64 \<Rightarrow> uint32 \<Rightarrow> 'u \<times> 'm fs \<Rightarrow>
    (int \<times> 'u \<times> 'm fs) res" where
  "readi_loop h p put ip left tot dst off (u, s) =
     (if left = 0 then Inr (int tot, u, s)
      else kbind (bmap h p ip (off div of_nat BSIZE) s) (\<lambda>(addr, s).
           if addr = 0 then Inr (int tot, u, s)
           else kbind (fs_bread h p (i_dev (itable s ! ip)) addr s) (\<lambda>(bp, s).
                let at = unat off mod BSIZE; m = min left (BSIZE - at) in
                kbind (put dst (take m (drop at (bdata s bp))) u) (\<lambda>(r, u).
                kbind (fs_brelse p bp s) (\<lambda>s.
                if r = -1 then Inr (-1, u, s)
                else readi_loop h p put ip (left - m) (tot + m) (dst + of_nat m) (off + of_nat m) (u, s))))))"
  by pat_completeness auto
termination
  by (relation "measure (\<lambda>(h, p, put, ip, left, tot, dst, off, u, s). left)") (auto simp: BSIZE_def)

declare readi_loop.simps [simp del]

definition readi :: "'m hw \<Rightarrow> int \<Rightarrow> (uint64 \<Rightarrow> uchar list \<Rightarrow> 'u \<Rightarrow> (int \<times> 'u) res) \<Rightarrow> nat \<Rightarrow> uint64 \<Rightarrow> uint32 \<Rightarrow> uint32 \<Rightarrow> 'u \<times> 'm fs \<Rightarrow>
    (int \<times> 'u \<times> 'm fs) res" where
  "readi h p put ip dst off n us =
     (let sz = i_size (itable (snd us) ! ip) in
      if sz < off \<or> off + n < off then Inr (0, us)
      else kbind (readi_loop h p put ip (unat (if sz < off + n then sz - off else n)) 0 dst off us) (\<lambda>(tot, us). Inr (i32 tot, us)))"

function writei_loop :: "'m hw \<Rightarrow> int \<Rightarrow> (uint64 \<Rightarrow> nat \<Rightarrow> 'u \<Rightarrow> (int \<times> uchar list) res) \<Rightarrow> 'u \<Rightarrow> nat \<Rightarrow> nat \<Rightarrow> nat \<Rightarrow> uint64 \<Rightarrow> uint32 \<Rightarrow> 'm fs \<Rightarrow>
    (nat \<times> uint32 \<times> 'm fs) res" where
  "writei_loop h p get u ip left tot src off s =
     (if left = 0 then Inr (tot, off, s)
      else kbind (bmap h p ip (off div of_nat BSIZE) s) (\<lambda>(addr, s).
           if addr = 0 then Inr (tot, off, s)
           else kbind (fs_bread h p (i_dev (itable s ! ip)) addr s) (\<lambda>(bp, s).
                let at = unat off mod BSIZE; m = min left (BSIZE - at) in
                kbind (get src m u) (\<lambda>(r, bs).
                let s = set_bdata bp (take at (bdata s bp) @ bs @ drop (at + length bs) (bdata s bp)) s in
                if r = -1 then kbind (fs_brelse p bp s) (\<lambda>s. Inr (tot, off, s))
                else kbind (fs_log_write bp s) (\<lambda>s.
                     kbind (fs_brelse p bp s) (\<lambda>s.
                     writei_loop h p get u ip (left - m) (tot + m) (src + of_nat m) (off + of_nat m) s))))))"
  by pat_completeness auto
termination
  by (relation "measure (\<lambda>(h, p, get, u, ip, left, tot, src, off, s). left)") (auto simp: BSIZE_def)

declare writei_loop.simps [simp del]

definition writei :: "'m hw \<Rightarrow> int \<Rightarrow> (uint64 \<Rightarrow> nat \<Rightarrow> 'u \<Rightarrow> (int \<times> uchar list) res) \<Rightarrow> 'u \<Rightarrow> nat \<Rightarrow> uint64 \<Rightarrow> uint32 \<Rightarrow> uint32 \<Rightarrow> 'm fs \<Rightarrow>
    (int \<times> 'm fs) res" where
  "writei h p get u ip src off n s =
     (if i_size (itable s ! ip) < off \<or> off + n < off then Inr (-1, s)
      else if MAXFILE * BSIZE < unat (off + n) then Inr (-1, s)
      else kbind (writei_loop h p get u ip (unat n) 0 src off s) (\<lambda>(tot, off, s).
           let s = (if i_size (itable s ! ip) < off then upd_inode ip (\<lambda>x. x\<lparr>i_size := off\<rparr>) s else s) in
           kbind (iupdate h p ip s) (\<lambda>s. Inr (i32 (int tot), s))))"

section \<open>Directories\<close>

text \<open>
  A local buffer of the kernel as the other end of a copy; addresses count from its start. Bytes past the
  end of a name are read as 0; the comparison never goes there when the name is 14 bytes or ends in a null.
\<close>

definition kput :: "uint64 \<Rightarrow> uchar list \<Rightarrow> uchar list \<Rightarrow> (int \<times> uchar list) res" where
  "kput dst bs buf = Inr (0, take (unat dst) buf @ bs @ drop (unat dst + length bs) buf)"

definition kget :: "uint64 \<Rightarrow> nat \<Rightarrow> uchar list \<Rightarrow> (int \<times> uchar list) res" where
  "kget src n buf = Inr (0, take n (drop (unat src) buf))"

definition bytes_at :: "nat \<Rightarrow> uchar list \<Rightarrow> cmem \<Rightarrow> cmem" where
  "bytes_at a xs m = (\<lambda>i. if a \<le> i then (if i - a < length xs then xs ! (i - a) else 0) else m i)"

definition namecmp :: "uchar list \<Rightarrow> uchar list \<Rightarrow> int" where
  "namecmp s t = strncmp (bytes_at DIRSIZ t (bytes_at 0 s (\<lambda>_. 0))) 0 DIRSIZ DIRSIZ"

text \<open>
  The offsets of the loops: multiples of 16 below the size. A size that is not a multiple of 16 ends in a
  short read, so \<open>off\<close> never wraps around.
\<close>

definition dir_offs :: "uint32 \<Rightarrow> uint32 list" where
  "dir_offs sz = map (\<lambda>i. of_nat (16 * i)) [0..<(unat sz + 15) div 16]"

text \<open>\<open>junk\<close> is what the local \<^verbatim>\<open>struct dirent\<close> holds before the read. The result has the offset of the entry found.\<close>

fun dirlookup_loop :: "'m hw \<Rightarrow> int \<Rightarrow> uchar list \<Rightarrow> nat \<Rightarrow> uchar list \<Rightarrow> uint32 list \<Rightarrow> 'm fs \<Rightarrow> ((nat \<times> uint32) option \<times> 'm fs) res" where
  "dirlookup_loop h p junk dp name [] s = Inr (None, s)"
| "dirlookup_loop h p junk dp name (off # offs) s =
     kbind (readi h p kput dp 0 off 16 (junk, s)) (\<lambda>(r, de, s).
     if r \<noteq> 16 then Inl (Panic ''dirlookup read'')
     else if de_inum (dirent_of de) = 0 then dirlookup_loop h p de dp name offs s
     else if namecmp name (de_name (dirent_of de)) = 0
     then kbind (iget (i_dev (itable s ! dp)) (ucast (de_inum (dirent_of de))) s) (\<lambda>(i, s). Inr (Some (i, off), s))
     else dirlookup_loop h p de dp name offs s)"

definition dirlookup :: "'m hw \<Rightarrow> int \<Rightarrow> nat \<Rightarrow> uchar list \<Rightarrow> 'm fs \<Rightarrow> ((nat \<times> uint32) option \<times> 'm fs) res" where
  "dirlookup h p dp name s =
     (if i_type (itable s ! dp) \<noteq> T_DIR then Inl (Panic ''dirlookup not DIR'')
      else dirlookup_loop h p (take 16 (stack_junk h)) dp name (dir_offs (i_size (itable s ! dp))) s)"

text \<open>The offset of the first empty entry, or the end of the directory.\<close>

fun dirlink_loop :: "'m hw \<Rightarrow> int \<Rightarrow> uchar list \<Rightarrow> nat \<Rightarrow> uint32 list \<Rightarrow> uint32 \<Rightarrow> 'm fs \<Rightarrow> (uint32 \<times> 'm fs) res" where
  "dirlink_loop h p junk dp [] fin s = Inr (fin, s)"
| "dirlink_loop h p junk dp (off # offs) fin s =
     kbind (readi h p kput dp 0 off 16 (junk, s)) (\<lambda>(r, de, s).
     if r \<noteq> 16 then Inl (Panic ''dirlink read'')
     else if de_inum (dirent_of de) = 0 then Inr (off, s)
     else dirlink_loop h p de dp offs fin s)"

text \<open>What \<^verbatim>\<open>strncpy\<close> leaves in a field of \<open>n\<close> bytes: the characters up to the null, and nulls.\<close>

definition strncpy_field :: "nat \<Rightarrow> uchar list \<Rightarrow> uchar list" where
  "strncpy_field n name = map (strncpy 0 n (int n) (bytes_at n name (\<lambda>_. 0))) [0..<n]"

definition dirlink :: "'m hw \<Rightarrow> int \<Rightarrow> nat \<Rightarrow> uchar list \<Rightarrow> uint32 \<Rightarrow> 'm fs \<Rightarrow> (int \<times> 'm fs) res" where
  "dirlink h p dp name inum s =
     kbind (dirlookup h p dp name s) (\<lambda>(found, s).
     case found of
       Some (ip, _) \<Rightarrow> kbind (iput h p ip s) (\<lambda>s. Inr (-1, s))
     | None \<Rightarrow>
         let offs = dir_offs (i_size (itable s ! dp)) in
         kbind (dirlink_loop h p (take 16 (stack_junk h)) dp offs (of_nat (16 * length offs)) s) (\<lambda>(off, s).
         kbind (writei h p kget (dirent_bytes \<lparr>de_inum = ucast inum, de_name = strncpy_field DIRSIZ name\<rparr>) dp 0 off 16 s) (\<lambda>(r, s).
         Inr (if r \<noteq> 16 then -1 else 0, s))))"

section \<open>Paths\<close>

text \<open>
  A path is the list of its characters, without the null. \<open>skipelem\<close> returns the rest of the path and the
  buffer \<open>name\<close>, or \<open>None\<close> for the null pointer.
\<close>

definition slash :: uchar where
  "slash = 0x2f"

definition skipelem :: "uchar list \<Rightarrow> uchar list \<Rightarrow> (uchar list \<times> uchar list) option" where
  "skipelem path name =
     (let path = dropWhile (\<lambda>c. c = slash) path in
      if path = [] then None
      else let s = takeWhile (\<lambda>c. c \<noteq> slash) path; path = dropWhile (\<lambda>c. c \<noteq> slash) path; len = length s;
               name = (if DIRSIZ \<le> len then take DIRSIZ s else s @ 0 # drop (len + 1) name)
           in Some (dropWhile (\<lambda>c. c = slash) path, name))"

lemma skipelem_shorter: "skipelem path name = Some (path', name') \<Longrightarrow> length path' < length path"
proof -
  assume s: "skipelem path name = Some (path', name')"
  let ?p = "dropWhile (\<lambda>c. c = slash) path"
  have p: "?p \<noteq> []" "path' = dropWhile (\<lambda>c. c = slash) (dropWhile (\<lambda>c. c \<noteq> slash) ?p)"
    using s by (auto simp: skipelem_def Let_def split: if_splits)
  then have "hd ?p \<noteq> slash" using hd_dropWhile [of "\<lambda>c. c = slash" path] by blast
  then have "length (dropWhile (\<lambda>c. c \<noteq> slash) ?p) < length ?p"
    using p(1) by (cases ?p) (auto simp: length_dropWhile_le le_imp_less_Suc)
  moreover have "length path' \<le> length (dropWhile (\<lambda>c. c \<noteq> slash) ?p)" using p(2) by (simp add: length_dropWhile_le)
  moreover have "length ?p \<le> length path" by (rule length_dropWhile_le)
  ultimately show ?thesis by linarith
qed

text \<open>\<open>None\<close> is the null pointer; \<open>name\<close> is the buffer of the caller.\<close>

function namex_loop :: "'m hw \<Rightarrow> int \<Rightarrow> bool \<Rightarrow> uchar list \<Rightarrow> uchar list \<Rightarrow> nat \<Rightarrow> 'm fs \<Rightarrow> (nat option \<times> uchar list \<times> 'm fs) res" where
  "namex_loop h p nameiparent path name ip s =
     (case skipelem path name of
        None \<Rightarrow>
          if nameiparent then kbind (iput h p ip s) (\<lambda>s. Inr (None, name, s)) else Inr (Some ip, name, s)
      | Some (path, name) \<Rightarrow>
          kbind (ilock h p (Some ip) s) (\<lambda>s.
          if i_type (itable s ! ip) \<noteq> T_DIR then kbind (iunlockput h p ip s) (\<lambda>s. Inr (None, name, s))
          else if nameiparent \<and> path = [] then kbind (iunlock p (Some ip) s) (\<lambda>s. Inr (Some ip, name, s))
          else kbind (dirlookup h p ip name s) (\<lambda>(found, s).
               case found of
                 None \<Rightarrow> kbind (iunlockput h p ip s) (\<lambda>s. Inr (None, name, s))
               | Some (next, _) \<Rightarrow> kbind (iunlockput h p ip s) (namex_loop h p nameiparent path name next))))"
  by pat_completeness auto
termination
  by (relation "measure (\<lambda>(h, p, np, path, name, ip, s). length path)") (auto simp: skipelem_shorter)

declare namex_loop.simps [simp del]

text \<open>\<open>cwd\<close> is the current directory of the calling process.\<close>

definition namex :: "'m hw \<Rightarrow> int \<Rightarrow> nat \<Rightarrow> uchar list \<Rightarrow> bool \<Rightarrow> uchar list \<Rightarrow> 'm fs \<Rightarrow> (nat option \<times> uchar list \<times> 'm fs) res" where
  "namex h p cwd path nameiparent name s =
     kbind (if path \<noteq> [] \<and> hd path = slash then iget ROOTDEV ROOTINO s else idup cwd s) (\<lambda>(ip, s).
     namex_loop h p nameiparent path name ip s)"

definition namei :: "'m hw \<Rightarrow> int \<Rightarrow> nat \<Rightarrow> uchar list \<Rightarrow> 'm fs \<Rightarrow> (nat option \<times> 'm fs) res" where
  "namei h p cwd path s = kbind (namex h p cwd path False (take DIRSIZ (stack_junk h)) s) (\<lambda>(ip, _, s). Inr (ip, s))"

definition nameiparent :: "'m hw \<Rightarrow> int \<Rightarrow> nat \<Rightarrow> uchar list \<Rightarrow> uchar list \<Rightarrow> 'm fs \<Rightarrow> (nat option \<times> uchar list \<times> 'm fs) res" where
  "nameiparent h p cwd path name s = namex h p cwd path True name s"

end
