(* ===== verification/Path_Spec.thy ===== *)
theory Path_Spec
  imports Fs
begin

text \<open>The elements of a path: what the loop of \<^verbatim>\<open>namex\<close> over \<^verbatim>\<open>skipelem\<close> goes through, against the split at slashes.\<close>

fun split_slash :: "uchar list \<Rightarrow> uchar list list" where
  "split_slash [] = [[]]"
| "split_slash (c # cs) = (if c = slash then [] # split_slash cs else (c # hd (split_slash cs)) # tl (split_slash cs))"

definition path_elems :: "uchar list \<Rightarrow> uchar list list" where
  "path_elems path = map (take DIRSIZ) (filter (\<lambda>e. e \<noteq> []) (split_slash path))"

text \<open>The name in a buffer of \<^verbatim>\<open>DIRSIZ\<close> bytes, which has no null when it fills the buffer.\<close>

definition name_of :: "uchar list \<Rightarrow> uchar list" where
  "name_of buf = takeWhile (\<lambda>c. c \<noteq> 0) buf"

text \<open>\<open>skips path name es\<close>: the calls of \<^verbatim>\<open>skipelem\<close> that start with \<open>path\<close> end, and leave the names \<open>es\<close> in the buffer one after the other.\<close>

inductive skips :: "uchar list \<Rightarrow> uchar list \<Rightarrow> uchar list list \<Rightarrow> bool" where
  last: "skipelem path name = None \<Longrightarrow> skips path name []"
| more: "skipelem path name = Some (path', name') \<Longrightarrow> skips path' name' es \<Longrightarrow> skips path name (name_of name' # es)"

lemma split_slash_ne [simp]: "split_slash p \<noteq> []"
  by (cases p) auto

lemma split_slash_start: "split_slash p = takeWhile (\<lambda>c. c \<noteq> slash) p # tl (split_slash p)"
proof (induction p)
  case (Cons c p)
  then have "hd (split_slash p) = takeWhile (\<lambda>c. c \<noteq> slash) p" by (metis list.sel(1))
  then show ?case by simp
qed simp

lemma split_slash_elem: "filter (\<lambda>e. e \<noteq> []) (tl (split_slash p)) = filter (\<lambda>e. e \<noteq> []) (split_slash (dropWhile (\<lambda>c. c \<noteq> slash) p))"
  by (induction p) auto

lemma split_slash_skip: "filter (\<lambda>e. e \<noteq> []) (split_slash (dropWhile (\<lambda>c. c = slash) p)) = filter (\<lambda>e. e \<noteq> []) (split_slash p)"
  by (induction p) auto

lemma path_elems_skip: "path_elems (dropWhile (\<lambda>c. c = slash) p) = path_elems p"
  by (simp add: path_elems_def split_slash_skip)

lemma path_elems_cons:
  assumes "p \<noteq> []" "hd p \<noteq> slash"
  shows "path_elems p = take DIRSIZ (takeWhile (\<lambda>c. c \<noteq> slash) p) # path_elems (dropWhile (\<lambda>c. c \<noteq> slash) p)"
proof -
  have "takeWhile (\<lambda>c. c \<noteq> slash) p \<noteq> []" using assms by (cases p) auto
  then show ?thesis unfolding path_elems_def by (subst split_slash_start) (simp add: split_slash_elem)
qed

lemma name_of_null: "0 \<notin> set e \<Longrightarrow> name_of e = e" "0 \<notin> set e \<Longrightarrow> name_of (e @ 0 # r) = e"
  unfolding name_of_def by (induction e) auto

lemma skipelem_elem:
  assumes "skipelem path name = Some (path', name')" "0 \<notin> set path" "length name = DIRSIZ"
  shows "path_elems path = name_of name' # path_elems path'" "0 \<notin> set path'" "length name' = DIRSIZ"
proof -
  let ?p = "dropWhile (\<lambda>c. c = slash) path"
  let ?e = "takeWhile (\<lambda>c. c \<noteq> slash) ?p"
  have p: "?p \<noteq> []" "path' = dropWhile (\<lambda>c. c = slash) (dropWhile (\<lambda>c. c \<noteq> slash) ?p)"
    and n: "name' = (if DIRSIZ \<le> length ?e then take DIRSIZ ?e else ?e @ 0 # drop (length ?e + 1) name)"
    using assms(1) by (auto simp: skipelem_def Let_def split: if_splits)
  have z: "0 \<notin> set ?e" "0 \<notin> set (take DIRSIZ ?e)" using assms(2) by (auto dest!: in_set_takeD set_takeWhileD set_dropWhileD)
  have "hd ?p \<noteq> slash" using p(1) hd_dropWhile [of "\<lambda>c. c = slash" path] by blast
  then have "path_elems ?p = take DIRSIZ ?e # path_elems (dropWhile (\<lambda>c. c \<noteq> slash) ?p)" by (rule path_elems_cons [OF p(1)])
  moreover have "name_of name' = take DIRSIZ ?e"
    unfolding n using name_of_null(1) [OF z(2)] name_of_null(2) [OF z(1)] by simp
  ultimately show "path_elems path = name_of name' # path_elems path'" by (simp add: p(2) path_elems_skip)
  show "0 \<notin> set path'" using assms(2) by (auto simp: p(2) dest!: set_dropWhileD)
  show "length name' = DIRSIZ" using assms(3) by (simp add: n)
qed

lemma skipelem_none: "skipelem path name = None \<Longrightarrow> path_elems path = []"
proof -
  assume "skipelem path name = None"
  then have "dropWhile (\<lambda>c. c = slash) path = []" by (auto simp: skipelem_def Let_def split: if_splits)
  then have "path_elems [] = path_elems path" using path_elems_skip [of path] by (rule subst)
  then show ?thesis by (simp add: path_elems_def)
qed

lemma skips_iff:
  assumes "0 \<notin> set path" "length name = DIRSIZ"
  shows "skips path name es \<longleftrightarrow> es = path_elems path"
  using assms
proof (induction "length path" arbitrary: path name es rule: less_induct)
  case less
  show ?case
  proof (cases "skipelem path name")
    case None
    then show ?thesis using skipelem_none [OF None] by (simp add: skips.simps [of path name es])
  next
    case (Some r)
    then obtain path' name' where s: "skipelem path name = Some (path', name')" by (cases r) auto
    note e = skipelem_elem [OF s less.prems]
    note ih = less.hyps [OF skipelem_shorter [OF s] e(2,3)]
    have "skips path name es \<longleftrightarrow> (\<exists>es'. es = name_of name' # es' \<and> skips path' name' es')"
      using s by (simp add: skips.simps [of path name es])
    then show ?thesis using ih e(1) by simp
  qed
qed

end
