(* ===== verification/File.thy ===== *)
theory File
  imports Proc Fs Pipe
begin

text \<open>
  Open files (\<^verbatim>\<open>kernel/file.c\<close>) and the rest of \<^verbatim>\<open>kernel/pipe.c\<close>: the file table over inodes, pipes and
  devices.
\<close>

section \<open>State\<close>

datatype fdtype = FD_NONE | FD_PIPE | FD_INODE | FD_DEVICE

text \<open>A pipe is named by the address of its page, an inode by its index.\<close>

record kfile =
  f_type :: fdtype
  f_ref :: int
  f_readable :: bool
  f_writable :: bool
  f_pipe :: nat
  f_ip :: "nat option"
  f_off :: uint32
  f_major :: ushort

definition NFILE :: nat where
  "NFILE = 100"

definition NDEV :: nat where
  "NDEV = 10"

record 'm filest =
  ffs :: "'m fs"
  ft_lock :: spinlock
  ftable :: "kfile list"
  pipes :: "nat \<Rightarrow> pipe"

type_synonym 'm kern = "'m filest pst"

text \<open>
  The table \<^verbatim>\<open>devsw\<close>: what reads and writes a device, given the flag for a user address, the address and
  the count.
\<close>

record 'm dev =
  dev_read :: "bool \<Rightarrow> uint64 \<Rightarrow> int \<Rightarrow> 'm kern \<Rightarrow> (int \<times> 'm kern) res"
  dev_write :: "bool \<Rightarrow> uint64 \<Rightarrow> int \<Rightarrow> 'm kern \<Rightarrow> (int \<times> 'm kern) res"

type_synonym 'm devsw = "nat \<Rightarrow> 'm dev option"

text \<open>
  The file system sees the interrupt state of the hart that the process layer keeps. \<open>as_me\<close> runs an
  operation as the current process, whose pid the sleep locks record.
\<close>

definition fs_view :: "'m kern \<Rightarrow> 'm fs" where
  "fs_view s = set_fs_cpu (pcpu s) (ffs (files s))"

definition put_fs :: "'m fs \<Rightarrow> 'm kern \<Rightarrow> 'm kern" where
  "put_fs v s = s\<lparr>pcpu := fs_cpu v, files := (files s)\<lparr>ffs := v\<rparr>\<rparr>"

definition my_pid :: "'m kern \<Rightarrow> int res" where
  "my_pid s = kbind (myproc s) (\<lambda>i. Inr (pid (proc_at s i)))"

definition as_me :: "(int \<Rightarrow> 'm fs \<Rightarrow> 'm fs res) \<Rightarrow> 'm kern \<Rightarrow> 'm kern res" where
  "as_me f s = kbind (my_pid s) (\<lambda>p. kbind (f p (fs_view s)) (\<lambda>v. Inr (put_fs v s)))"

definition get_me :: "(int \<Rightarrow> 'm fs \<Rightarrow> ('a \<times> 'm fs) res) \<Rightarrow> 'm kern \<Rightarrow> ('a \<times> 'm kern) res" where
  "get_me f s = kbind (my_pid s) (\<lambda>p. kbind (f p (fs_view s)) (\<lambda>(x, v). Inr (x, put_fs v s)))"

abbreviation inode_at :: "'m kern \<Rightarrow> nat \<Rightarrow> inode" where
  "inode_at s ip \<equiv> itable (ffs (files s)) ! ip"

definition k_begin_op :: "'m kern \<Rightarrow> 'm kern res" where
  "k_begin_op s = kbind (get_me (\<lambda>_ v. kbind (Log.begin_op (flog v)) (\<lambda>(ok, l). Inr (ok, v\<lparr>flog := l\<rparr>))) s) (\<lambda>(ok, s).
     if ok then Inr s else Inl Blocked)"

definition k_end_op :: "'m hw \<Rightarrow> 'm kern \<Rightarrow> 'm kern res" where
  "k_end_op h s = as_me (\<lambda>p v. kbind (Log.end_op h p (flog v)) (\<lambda>l. Inr (v\<lparr>flog := l\<rparr>))) s"

definition upd_file :: "nat \<Rightarrow> (kfile \<Rightarrow> kfile) \<Rightarrow> 'm kern \<Rightarrow> 'm kern" where
  "upd_file f g s = s\<lparr>files := (files s)\<lparr>ftable := (ftable (files s))[f := g (ftable (files s) ! f)]\<rparr>\<rparr>"

abbreviation file_at :: "'m kern \<Rightarrow> nat \<Rightarrow> kfile" where
  "file_at s f \<equiv> ftable (files s) ! f"

section \<open>The file table\<close>

definition ft_acquire :: "'m kern \<Rightarrow> 'm kern res" where
  "ft_acquire s = kbind (acquire (phart s) (pcpu s, ft_lock (files s))) (\<lambda>(c, l).
     Inr (s\<lparr>pcpu := c, files := (files s)\<lparr>ft_lock := l\<rparr>\<rparr>))"

definition ft_release :: "'m kern \<Rightarrow> 'm kern res" where
  "ft_release s = kbind (release (phart s) (pcpu s, ft_lock (files s))) (\<lambda>(c, l).
     Inr (s\<lparr>pcpu := c, files := (files s)\<lparr>ft_lock := l\<rparr>\<rparr>))"

definition fileinit :: "'m kern \<Rightarrow> 'm kern" where
  "fileinit s = s\<lparr>files := (files s)\<lparr>ft_lock := initlock ''ftable''\<rparr>\<rparr>"

definition filealloc :: "'m kern \<Rightarrow> (nat option \<times> 'm kern) res" where
  "filealloc s =
     kbind (ft_acquire s) (\<lambda>s.
     case find (\<lambda>f. f_ref (file_at s f) = 0) [0..<NFILE] of
       Some f \<Rightarrow> kbind (ft_release (upd_file f (\<lambda>x. x\<lparr>f_ref := 1\<rparr>) s)) (\<lambda>s. Inr (Some f, s))
     | None \<Rightarrow> kbind (ft_release s) (\<lambda>s. Inr (None, s)))"

definition filedup :: "nat \<Rightarrow> 'm kern \<Rightarrow> 'm kern res" where
  "filedup f s =
     kbind (ft_acquire s) (\<lambda>s.
     if f_ref (file_at s f) < 1 then Inl (Panic ''filedup'')
     else ft_release (upd_file f (\<lambda>x. x\<lparr>f_ref := f_ref x + 1\<rparr>) s))"

section \<open>Pipes of the file table\<close>

text \<open>
  A pipe operation works on the pipe in the page \<open>pi\<close>, with the memory of the current process; the
  channels it wakes are the addresses of the counters in the page.
\<close>

definition pipe_view :: "nat \<Rightarrow> 'm kern \<Rightarrow> pmem pipest" where
  "pipe_view pi s = \<lparr>pp = pipes (files s) pi, pp_hart = phart s, pp_cpu = pcpu s, pp_mem = pm (mem s), pp_woken = []\<rparr>"

definition pipe_chan :: "nat \<Rightarrow> pchan \<Rightarrow> chan" where
  "pipe_chan pi c = AddrChan (pi + (case c of NRead \<Rightarrow> 536 | NWrite \<Rightarrow> 540))"

definition run_pipe :: "nat \<Rightarrow> (pmem pipest \<Rightarrow> ('a \<times> pmem pipest) res) \<Rightarrow> 'm kern \<Rightarrow> ('a \<times> 'm kern) res" where
  "run_pipe pi f s =
     kbind (f (pipe_view pi s)) (\<lambda>(x, v).
     kbind (kfold (\<lambda>c. wakeup (pipe_chan pi c)) (pp_woken v)
       (s\<lparr>pcpu := pp_cpu v, mem := (mem s)\<lparr>pm := pp_mem v\<rparr>, files := (files s)\<lparr>pipes := (pipes (files s))(pi := pp v)\<rparr>\<rparr>)) (\<lambda>s.
     Inr (x, s)))"

definition get_byte :: "nat \<Rightarrow> uint64 \<Rightarrow> pmem \<Rightarrow> int \<times> uchar" where
  "get_byte pt a u = (let (r, bs) = copyin pt a 1 u in (r, if bs = [] then 0 else hd bs))"

definition put_byte :: "nat \<Rightarrow> uint64 \<Rightarrow> uchar \<Rightarrow> pmem \<Rightarrow> int \<times> pmem" where
  "put_byte pt a c u = copyout pt a [c] u"

definition k_pipewrite :: "nat \<Rightarrow> uint64 \<Rightarrow> int \<Rightarrow> 'm kern \<Rightarrow> (int \<times> 'm kern) res" where
  "k_pipewrite pi addr n s =
     kbind (myproc s) (\<lambda>i.
     kbind (run_pipe pi (pipewrite (\<lambda>_. killed (proc_at s i) \<noteq> 0) (get_byte (pagetable (proc_at s i))) addr n) s) (\<lambda>(out, s).
     case out of Done r \<Rightarrow> Inr (r, s) | Asleep _ \<Rightarrow> Inl Blocked))"

definition k_piperead :: "nat \<Rightarrow> uint64 \<Rightarrow> int \<Rightarrow> 'm kern \<Rightarrow> (int \<times> 'm kern) res" where
  "k_piperead pi addr n s =
     kbind (myproc s) (\<lambda>i.
     kbind (run_pipe pi (piperead (\<lambda>_. killed (proc_at s i) \<noteq> 0) (put_byte (pagetable (proc_at s i))) addr n) s) (\<lambda>(out, s).
     case out of Done r \<Rightarrow> Inr (r, s) | Asleep _ \<Rightarrow> Inl Blocked))"

definition k_pipeclose :: "klink \<Rightarrow> nat \<Rightarrow> bool \<Rightarrow> 'm kern \<Rightarrow> 'm kern res" where
  "k_pipeclose ld pi writable s =
     kbind (run_pipe pi (pipeclose writable) s) (\<lambda>(fr, s).
     if fr then kbind (kfree_m (ld_end ld) pi (mem s)) (\<lambda>m. Inr (s\<lparr>mem := m\<rparr>)) else Inr s)"

section \<open>Closing, reading and writing\<close>

definition fileclose :: "klink \<Rightarrow> 'm hw \<Rightarrow> nat \<Rightarrow> 'm kern \<Rightarrow> 'm kern res" where
  "fileclose ld h f s =
     kbind (ft_acquire s) (\<lambda>s.
     if f_ref (file_at s f) < 1 then Inl (Panic ''fileclose'')
     else let s = upd_file f (\<lambda>x. x\<lparr>f_ref := f_ref x - 1\<rparr>) s in
     if 0 < f_ref (file_at s f) then ft_release s
     else let ff = file_at s f in
          kbind (ft_release (upd_file f (\<lambda>x. x\<lparr>f_ref := 0, f_type := FD_NONE\<rparr>) s)) (\<lambda>s.
          if f_type ff = FD_PIPE then k_pipeclose ld (f_pipe ff) (f_writable ff) s
          else if f_type ff = FD_INODE \<or> f_type ff = FD_DEVICE
          then kbind (k_begin_op s) (\<lambda>s.
               kbind (case f_ip ff of None \<Rightarrow> Inl BadAccess | Some ip \<Rightarrow> as_me (\<lambda>p. Fs.iput h p ip) s) (k_end_op h))
          else Inr s))"

text \<open>\<^verbatim>\<open>struct stat\<close>: 4 bytes of padding, whose value C leaves open, before the size.\<close>

definition bytes64 :: "uint64 \<Rightarrow> uchar list" where
  "bytes64 w = map (\<lambda>i. ucast (drop_bit (8 * i) w)) [0..<8]"

definition stat_bytes :: "'m hw \<Rightarrow> stat \<Rightarrow> uchar list" where
  "stat_bytes h x = le32 (st_dev x) @ le32 (st_ino x) @ le16 (st_type x) @ le16 (st_nlink x) @ take 4 (stack_junk h) @ bytes64 (st_size x)"

definition k_copyout :: "uint64 \<Rightarrow> uchar list \<Rightarrow> 'm kern \<Rightarrow> (int \<times> 'm kern) res" where
  "k_copyout a bs s = either_copyout True a bs s"

definition filestat :: "'m hw \<Rightarrow> nat \<Rightarrow> uint64 \<Rightarrow> 'm kern \<Rightarrow> (int \<times> 'm kern) res" where
  "filestat h f addr s =
     (if f_type (file_at s f) = FD_INODE \<or> f_type (file_at s f) = FD_DEVICE
      then let ip = f_ip (file_at s f) in
           kbind (as_me (\<lambda>p. ilock h p ip) s) (\<lambda>s.
           let x = stati (the ip) (ffs (files s)) in
           kbind (as_me (\<lambda>p. iunlock p ip) s) (\<lambda>s.
           kbind (k_copyout addr (stat_bytes h x) s) (\<lambda>(r, s).
           Inr (if r < 0 then -1 else 0, s))))
      else Inr (-1, s))"

text \<open>\<^verbatim>\<open>readi\<close> and \<^verbatim>\<open>writei\<close> for user addresses and for addresses of the kernel.\<close>

definition k_readi :: "'m hw \<Rightarrow> bool \<Rightarrow> nat \<Rightarrow> uint64 \<Rightarrow> uint32 \<Rightarrow> uint32 \<Rightarrow> 'm kern \<Rightarrow> (int \<times> 'm kern) res" where
  "k_readi h user_dst ip dst off n s =
     kbind (my_pid s) (\<lambda>p.
     kbind (readi h p (either_copyout user_dst) ip dst off n (s, fs_view s)) (\<lambda>(r, s, v).
     Inr (r, put_fs v s)))"

definition k_writei :: "'m hw \<Rightarrow> bool \<Rightarrow> nat \<Rightarrow> uint64 \<Rightarrow> uint32 \<Rightarrow> uint32 \<Rightarrow> 'm kern \<Rightarrow> (int \<times> 'm kern) res" where
  "k_writei h user_src ip src off n s =
     kbind (my_pid s) (\<lambda>p.
     kbind (writei h p (either_copyin user_src) s ip src off n (fs_view s)) (\<lambda>(r, v).
     Inr (r, put_fs v s)))"

definition dev_of :: "'m devsw \<Rightarrow> kfile \<Rightarrow> 'm dev option" where
  "dev_of dsw f = (if sint (f_major f) < 0 \<or> int NDEV \<le> sint (f_major f) then None else dsw (nat (sint (f_major f))))"

definition fileread :: "'m hw \<Rightarrow> 'm devsw \<Rightarrow> nat \<Rightarrow> uint64 \<Rightarrow> int \<Rightarrow> 'm kern \<Rightarrow> (int \<times> 'm kern) res" where
  "fileread h dsw f addr n s =
     (let x = file_at s f in
      if \<not> f_readable x then Inr (-1, s)
      else case f_type x of
        FD_PIPE \<Rightarrow> k_piperead (f_pipe x) addr n s
      | FD_DEVICE \<Rightarrow> (case dev_of dsw x of None \<Rightarrow> Inr (-1, s) | Some d \<Rightarrow> dev_read d True addr n s)
      | FD_INODE \<Rightarrow>
          kbind (as_me (\<lambda>p. ilock h p (f_ip x)) s) (\<lambda>s.
          kbind (k_readi h True (the (f_ip x)) addr (f_off (file_at s f)) (of_int n) s) (\<lambda>(r, s).
          let s = (if 0 < r then upd_file f (\<lambda>x. x\<lparr>f_off := f_off x + of_int r\<rparr>) s else s) in
          kbind (as_me (\<lambda>p. iunlock p (f_ip x)) s) (\<lambda>s. Inr (r, s))))
      | FD_NONE \<Rightarrow> Inl (Panic ''fileread''))"

text \<open>The writing loop: at most \<open>max_write\<close> bytes in a transaction.\<close>

definition max_write :: int where
  "max_write = int (((MAXOPBLOCKS - 1 - 1 - 2) div 2) * BSIZE)"

function filewrite_loop :: "'m hw \<Rightarrow> nat \<Rightarrow> uint64 \<Rightarrow> int \<Rightarrow> int \<Rightarrow> 'm kern \<Rightarrow> (int \<times> 'm kern) res" where
  "filewrite_loop h f addr n i s =
     (if i < n
      then let n1 = (if max_write < n - i then max_write else n - i); ip = f_ip (file_at s f) in
           kbind (k_begin_op s) (\<lambda>s.
           kbind (as_me (\<lambda>p. ilock h p ip) s) (\<lambda>s.
           kbind (k_writei h True (the ip) (addr + of_int i) (f_off (file_at s f)) (of_int n1) s) (\<lambda>(r, s).
           let s = (if 0 < r then upd_file f (\<lambda>x. x\<lparr>f_off := f_off x + of_int r\<rparr>) s else s) in
           kbind (as_me (\<lambda>p. iunlock p ip) s) (\<lambda>s.
           kbind (k_end_op h s) (\<lambda>s.
           if r \<noteq> n1 then Inr (i, s) else filewrite_loop h f addr n (i + n1) s)))))
      else Inr (i, s))"
  by pat_completeness auto
termination
  by (relation "measure (\<lambda>(h, f, addr, n, i, s). nat (n - i))") (auto simp: max_write_def MAXOPBLOCKS_def BSIZE_def split: if_splits)

declare filewrite_loop.simps [simp del]

definition filewrite :: "'m hw \<Rightarrow> 'm devsw \<Rightarrow> nat \<Rightarrow> uint64 \<Rightarrow> int \<Rightarrow> 'm kern \<Rightarrow> (int \<times> 'm kern) res" where
  "filewrite h dsw f addr n s =
     (let x = file_at s f in
      if \<not> f_writable x then Inr (-1, s)
      else case f_type x of
        FD_PIPE \<Rightarrow> k_pipewrite (f_pipe x) addr n s
      | FD_DEVICE \<Rightarrow> (case dev_of dsw x of None \<Rightarrow> Inr (-1, s) | Some d \<Rightarrow> dev_write d True addr n s)
      | FD_INODE \<Rightarrow> kbind (filewrite_loop h f addr n 0 s) (\<lambda>(i, s). Inr (if i = n then n else -1, s))
      | FD_NONE \<Rightarrow> Inl (Panic ''filewrite''))"

section \<open>Creating a pipe\<close>

definition pipe_bad :: "klink \<Rightarrow> 'm hw \<Rightarrow> nat option \<Rightarrow> nat option \<Rightarrow> 'm kern \<Rightarrow> ((nat \<times> nat) option \<times> 'm kern) res" where
  "pipe_bad ld h f0 f1 s =
     kbind (case f0 of None \<Rightarrow> Inr s | Some f \<Rightarrow> fileclose ld h f s) (\<lambda>s.
     kbind (case f1 of None \<Rightarrow> Inr s | Some f \<Rightarrow> fileclose ld h f s) (\<lambda>s. Inr (None, s)))"

text \<open>\<open>None\<close> is the result -1. The page of the pipe holds what \<^verbatim>\<open>kalloc\<close> filled it with.\<close>

definition pipealloc :: "klink \<Rightarrow> 'm hw \<Rightarrow> 'm kern \<Rightarrow> ((nat \<times> nat) option \<times> 'm kern) res" where
  "pipealloc ld h s =
     kbind (filealloc s) (\<lambda>(f0, s).
     case f0 of None \<Rightarrow> pipe_bad ld h None None s
     | Some rdf \<Rightarrow>
       kbind (filealloc s) (\<lambda>(f1, s).
       case f1 of None \<Rightarrow> pipe_bad ld h f0 None s
       | Some wrf \<Rightarrow>
         let (pi, m) = kalloc_m (mem s); s = s\<lparr>mem := m\<rparr> in
         if pi = 0 then pipe_bad ld h f0 f1 s
         else let s = s\<lparr>files := (files s)\<lparr>pipes := (pipes (files s))(pi := pipe_init (replicate PIPESIZE 5))\<rparr>\<rparr>;
                  s = upd_file rdf (\<lambda>x. x\<lparr>f_type := FD_PIPE, f_readable := True, f_writable := False, f_pipe := pi\<rparr>) s;
                  s = upd_file wrf (\<lambda>x. x\<lparr>f_type := FD_PIPE, f_readable := False, f_writable := True, f_pipe := pi\<rparr>) s
              in Inr (Some (rdf, wrf), s)))"

end
