(* ===== verification/Sysfile.thy ===== *)
theory Sysfile
  imports File Syscall
begin

text \<open>
  The system calls on files (\<^verbatim>\<open>kernel/sysfile.c\<close>) and \<^verbatim>\<open>exec\<close> (\<^verbatim>\<open>kernel/exec.c\<close>).
\<close>

section \<open>File descriptors\<close>

definition NOFILE :: nat where
  "NOFILE = 16"

definition MAXPATH :: nat where
  "MAXPATH = 128"

definition O_RDONLY :: int where "O_RDONLY = 0"
definition O_WRONLY :: int where "O_WRONLY = 1"
definition O_RDWR :: int where "O_RDWR = 2"
definition O_CREATE :: int where "O_CREATE = 0x200"
definition O_TRUNC :: int where "O_TRUNC = 0x400"

text \<open>\<open>None\<close> is the result -1.\<close>

definition argfd :: "nat \<Rightarrow> 'm kern \<Rightarrow> (nat \<times> nat) option res" where
  "argfd n s =
     kbind (argint n s) (\<lambda>fd.
     if fd < 0 \<or> int NOFILE \<le> fd then Inr None
     else kbind (myproc s) (\<lambda>i.
          Inr (case ofile (proc_at s i) ! nat fd of None \<Rightarrow> None | Some f \<Rightarrow> Some (nat fd, f))))"

definition set_ofile :: "nat \<Rightarrow> nat option \<Rightarrow> 'm kern \<Rightarrow> 'm kern res" where
  "set_ofile fd f s = kbind (myproc s) (\<lambda>i. Inr (upd i (\<lambda>p. p\<lparr>ofile := (ofile p)[fd := f]\<rparr>) s))"

definition fdalloc :: "nat \<Rightarrow> 'm kern \<Rightarrow> (nat option \<times> 'm kern) res" where
  "fdalloc f s =
     kbind (myproc s) (\<lambda>i.
     case find (\<lambda>fd. ofile (proc_at s i) ! fd = None) [0..<NOFILE] of
       None \<Rightarrow> Inr (None, s)
     | Some fd \<Rightarrow> kbind (set_ofile fd (Some f) s) (\<lambda>s. Inr (Some fd, s)))"

definition sys_dup :: "'m kern \<Rightarrow> (uint64 \<times> 'm kern) res" where
  "sys_dup s =
     kbind (argfd 0 s) (\<lambda>a.
     case a of None \<Rightarrow> Inr (-1, s)
     | Some (_, f) \<Rightarrow>
         kbind (fdalloc f s) (\<lambda>(fd, s).
         case fd of None \<Rightarrow> Inr (-1, s)
         | Some fd \<Rightarrow> kbind (File.filedup f s) (\<lambda>s. Inr (of_nat fd, s))))"

definition sys_read :: "'m hw \<Rightarrow> 'm devsw \<Rightarrow> 'm kern \<Rightarrow> (uint64 \<times> 'm kern) res" where
  "sys_read h dsw s =
     kbind (argaddr 1 s) (\<lambda>p.
     kbind (argint 2 s) (\<lambda>n.
     kbind (argfd 0 s) (\<lambda>a.
     case a of None \<Rightarrow> Inr (-1, s)
     | Some (_, f) \<Rightarrow> kbind (fileread h dsw f p n s) (\<lambda>(r, s). Inr (word_of_int r, s)))))"

definition sys_write :: "'m hw \<Rightarrow> 'm devsw \<Rightarrow> 'm kern \<Rightarrow> (uint64 \<times> 'm kern) res" where
  "sys_write h dsw s =
     kbind (argaddr 1 s) (\<lambda>p.
     kbind (argint 2 s) (\<lambda>n.
     kbind (argfd 0 s) (\<lambda>a.
     case a of None \<Rightarrow> Inr (-1, s)
     | Some (_, f) \<Rightarrow> kbind (filewrite h dsw f p n s) (\<lambda>(r, s). Inr (word_of_int r, s)))))"

definition sys_close :: "klink \<Rightarrow> 'm hw \<Rightarrow> 'm kern \<Rightarrow> (uint64 \<times> 'm kern) res" where
  "sys_close ld h s =
     kbind (argfd 0 s) (\<lambda>a.
     case a of None \<Rightarrow> Inr (-1, s)
     | Some (fd, f) \<Rightarrow> kbind (set_ofile fd None s) (\<lambda>s. kbind (File.fileclose ld h f s) (\<lambda>s. Inr (0, s))))"

definition sys_fstat :: "'m hw \<Rightarrow> 'm kern \<Rightarrow> (uint64 \<times> 'm kern) res" where
  "sys_fstat h s =
     kbind (argaddr 1 s) (\<lambda>st.
     kbind (argfd 0 s) (\<lambda>a.
     case a of None \<Rightarrow> Inr (-1, s)
     | Some (_, f) \<Rightarrow> kbind (filestat h f st s) (\<lambda>(r, s). Inr (word_of_int r, s))))"

section \<open>Names\<close>

text \<open>
  A path argument: \<open>None\<close> when it cannot be fetched, otherwise its characters. The operations of the file
  system as the current process, in its current directory; \<open>name\<close> is an uninitialised local buffer.
\<close>

definition arg_path :: "nat \<Rightarrow> 'm kern \<Rightarrow> uchar list option res" where
  "arg_path n s = kbind (argstr n MAXPATH s) (\<lambda>(r, bs). Inr (if r < 0 then None else Some (takeWhile (\<lambda>c. c \<noteq> 0) bs)))"

definition my_cwd :: "'m kern \<Rightarrow> nat res" where
  "my_cwd s = kbind (myproc s) (\<lambda>i. case cwd (proc_at s i) of None \<Rightarrow> Inl BadAccess | Some d \<Rightarrow> Inr d)"

definition k_namei :: "'m hw \<Rightarrow> uchar list \<Rightarrow> 'm kern \<Rightarrow> (nat option \<times> 'm kern) res" where
  "k_namei h path s = kbind (my_cwd s) (\<lambda>d. get_me (\<lambda>p. Fs.namei h p d path) s)"

definition k_nameiparent :: "'m hw \<Rightarrow> uchar list \<Rightarrow> 'm kern \<Rightarrow> ((nat option \<times> uchar list) \<times> 'm kern) res" where
  "k_nameiparent h path s = kbind (my_cwd s) (\<lambda>d.
     get_me (\<lambda>p v. kbind (nameiparent h p d path (take DIRSIZ (stack_junk h)) v) (\<lambda>(ip, name, v). Inr ((ip, name), v))) s)"

abbreviation k_ilock :: "'m hw \<Rightarrow> nat \<Rightarrow> 'm kern \<Rightarrow> 'm kern res" where
  "k_ilock h ip \<equiv> as_me (\<lambda>p. ilock h p (Some ip))"

abbreviation k_iunlock :: "nat \<Rightarrow> 'm kern \<Rightarrow> 'm kern res" where
  "k_iunlock ip \<equiv> as_me (\<lambda>p. iunlock p (Some ip))"

abbreviation k_iunlockput :: "'m hw \<Rightarrow> nat \<Rightarrow> 'm kern \<Rightarrow> 'm kern res" where
  "k_iunlockput h ip \<equiv> as_me (\<lambda>p. iunlockput h p ip)"

abbreviation k_iput :: "'m hw \<Rightarrow> nat \<Rightarrow> 'm kern \<Rightarrow> 'm kern res" where
  "k_iput h ip \<equiv> as_me (\<lambda>p. Fs.iput h p ip)"

abbreviation k_iupdate :: "'m hw \<Rightarrow> nat \<Rightarrow> 'm kern \<Rightarrow> 'm kern res" where
  "k_iupdate h ip \<equiv> as_me (\<lambda>p. iupdate h p ip)"

abbreviation k_dirlookup :: "'m hw \<Rightarrow> nat \<Rightarrow> uchar list \<Rightarrow> 'm kern \<Rightarrow> ((nat \<times> uint32) option \<times> 'm kern) res" where
  "k_dirlookup h dp name \<equiv> get_me (\<lambda>p. dirlookup h p dp name)"

abbreviation k_dirlink :: "'m hw \<Rightarrow> nat \<Rightarrow> uchar list \<Rightarrow> uint32 \<Rightarrow> 'm kern \<Rightarrow> (int \<times> 'm kern) res" where
  "k_dirlink h dp name inum \<equiv> get_me (\<lambda>p. dirlink h p dp name inum)"

definition set_inode :: "nat \<Rightarrow> (inode \<Rightarrow> inode) \<Rightarrow> 'm kern \<Rightarrow> 'm kern" where
  "set_inode ip f s = s\<lparr>files := (files s)\<lparr>ffs := upd_inode ip f (ffs (files s))\<rparr>\<rparr>"

text \<open>The end of a failed call: \<^verbatim>\<open>end_op(); return -1\<close>.\<close>

definition fail_op :: "'m hw \<Rightarrow> 'm kern \<Rightarrow> (uint64 \<times> 'm kern) res" where
  "fail_op h s = kbind (k_end_op h s) (\<lambda>s. Inr (-1, s))"

definition link_bad :: "'m hw \<Rightarrow> nat \<Rightarrow> 'm kern \<Rightarrow> (uint64 \<times> 'm kern) res" where
  "link_bad h ip s =
     kbind (k_ilock h ip s) (\<lambda>s.
     kbind (k_iupdate h ip (set_inode ip (\<lambda>x. x\<lparr>i_nlink := i_nlink x - 1\<rparr>) s)) (\<lambda>s.
     kbind (k_iunlockput h ip s) (fail_op h)))"

definition sys_link :: "'m hw \<Rightarrow> 'm kern \<Rightarrow> (uint64 \<times> 'm kern) res" where
  "sys_link h s =
     kbind (arg_path 0 s) (\<lambda>old. case old of None \<Rightarrow> Inr (-1, s) | Some old \<Rightarrow>
     kbind (arg_path 1 s) (\<lambda>new. case new of None \<Rightarrow> Inr (-1, s) | Some new \<Rightarrow>
     kbind (k_begin_op s) (\<lambda>s.
     kbind (k_namei h old s) (\<lambda>(ip, s). case ip of None \<Rightarrow> fail_op h s | Some ip \<Rightarrow>
     kbind (k_ilock h ip s) (\<lambda>s.
     if i_type (inode_at s ip) = T_DIR then kbind (k_iunlockput h ip s) (fail_op h)
     else
     kbind (k_iupdate h ip (set_inode ip (\<lambda>x. x\<lparr>i_nlink := i_nlink x + 1\<rparr>) s)) (\<lambda>s.
     kbind (k_iunlock ip s) (\<lambda>s.
     kbind (k_nameiparent h new s) (\<lambda>((dp, name), s). case dp of None \<Rightarrow> link_bad h ip s | Some dp \<Rightarrow>
     kbind (k_ilock h dp s) (\<lambda>s.
     kbind (if i_dev (inode_at s dp) \<noteq> i_dev (inode_at s ip) then Inr (-1, s)
            else k_dirlink h dp name (i_inum (inode_at s ip)) s) (\<lambda>(r, s).
     if r < 0 then kbind (k_iunlockput h dp s) (link_bad h ip)
     else
     kbind (k_iunlockput h dp s) (\<lambda>s.
     kbind (k_iput h ip s) (\<lambda>s.
     kbind (k_end_op h s) (\<lambda>s. Inr (0, s))))))))))))))"

text \<open>The loop of \<^verbatim>\<open>isdirempty\<close>, from the third entry on; \<open>de\<close> is the local entry.\<close>

fun isdirempty_loop :: "'m hw \<Rightarrow> int \<Rightarrow> uchar list \<Rightarrow> nat \<Rightarrow> uint32 list \<Rightarrow> 'm fs \<Rightarrow> (bool \<times> 'm fs) res" where
  "isdirempty_loop h p de dp [] s = Inr (True, s)"
| "isdirempty_loop h p de dp (off # offs) s =
     kbind (readi h p kput dp 0 off 16 (de, s)) (\<lambda>(r, de, s).
     if r \<noteq> 16 then Inl (Panic ''isdirempty: readi'')
     else if de_inum (dirent_of de) \<noteq> 0 then Inr (False, s)
     else isdirempty_loop h p de dp offs s)"

definition isdirempty :: "'m hw \<Rightarrow> int \<Rightarrow> nat \<Rightarrow> 'm fs \<Rightarrow> (bool \<times> 'm fs) res" where
  "isdirempty h p dp s = isdirempty_loop h p (take 16 (stack_junk h)) dp (drop 2 (dir_offs (i_size (itable s ! dp)))) s"

definition dot :: "uchar list" where "dot = [0x2e, 0]"
definition dotdot :: "uchar list" where "dotdot = [0x2e, 0x2e, 0]"

definition sys_unlink :: "'m hw \<Rightarrow> 'm kern \<Rightarrow> (uint64 \<times> 'm kern) res" where
  "sys_unlink h s =
     kbind (arg_path 0 s) (\<lambda>path. case path of None \<Rightarrow> Inr (-1, s) | Some path \<Rightarrow>
     kbind (k_begin_op s) (\<lambda>s.
     kbind (k_nameiparent h path s) (\<lambda>((dp, name), s). case dp of None \<Rightarrow> fail_op h s | Some dp \<Rightarrow>
     kbind (k_ilock h dp s) (\<lambda>s.
     if namecmp name dot = 0 \<or> namecmp name dotdot = 0 then kbind (k_iunlockput h dp s) (fail_op h)
     else
     kbind (k_dirlookup h dp name s) (\<lambda>(found, s). case found of None \<Rightarrow> kbind (k_iunlockput h dp s) (fail_op h) | Some (ip, off) \<Rightarrow>
     kbind (k_ilock h ip s) (\<lambda>s.
     if sint (i_nlink (inode_at s ip)) < 1 then Inl (Panic ''unlink: nlink < 1'')
     else
     kbind (if i_type (inode_at s ip) = T_DIR then get_me (\<lambda>p. isdirempty h p ip) s else Inr (True, s)) (\<lambda>(ok, s).
     if \<not> ok then kbind (k_iunlockput h ip s) (\<lambda>s. kbind (k_iunlockput h dp s) (fail_op h))
     else
     kbind (get_me (\<lambda>p. writei h p kget (replicate 16 0) dp 0 off 16) s) (\<lambda>(r, s).
     if r \<noteq> 16 then Inl (Panic ''unlink: writei'')
     else
     kbind (if i_type (inode_at s ip) = T_DIR
            then k_iupdate h dp (set_inode dp (\<lambda>x. x\<lparr>i_nlink := i_nlink x - 1\<rparr>) s) else Inr s) (\<lambda>s.
     kbind (k_iunlockput h dp s) (\<lambda>s.
     kbind (k_iupdate h ip (set_inode ip (\<lambda>x. x\<lparr>i_nlink := i_nlink x - 1\<rparr>) s)) (\<lambda>s.
     kbind (k_iunlockput h ip s) (\<lambda>s.
     kbind (k_end_op h s) (\<lambda>s. Inr (0, s))))))))))))))"

section \<open>Creating and opening\<close>

text \<open>The inode comes back locked; \<open>None\<close> is the null pointer.\<close>

definition create_fail :: "'m hw \<Rightarrow> nat \<Rightarrow> nat \<Rightarrow> 'm kern \<Rightarrow> (nat option \<times> 'm kern) res" where
  "create_fail h dp ip s =
     kbind (k_iupdate h ip (set_inode ip (\<lambda>x. x\<lparr>i_nlink := 0\<rparr>) s)) (\<lambda>s.
     kbind (k_iunlockput h ip s) (\<lambda>s.
     kbind (k_iunlockput h dp s) (\<lambda>s. Inr (None, s))))"

definition create :: "'m hw \<Rightarrow> uchar list \<Rightarrow> ushort \<Rightarrow> ushort \<Rightarrow> ushort \<Rightarrow> 'm kern \<Rightarrow> (nat option \<times> 'm kern) res" where
  "create h path type major minor s =
     kbind (k_nameiparent h path s) (\<lambda>((dp, name), s). case dp of None \<Rightarrow> Inr (None, s) | Some dp \<Rightarrow>
     kbind (k_ilock h dp s) (\<lambda>s.
     kbind (k_dirlookup h dp name s) (\<lambda>(found, s). case found of
       Some (ip, _) \<Rightarrow>
         kbind (k_iunlockput h dp s) (\<lambda>s.
         kbind (k_ilock h ip s) (\<lambda>s.
         if type = T_FILE \<and> (i_type (inode_at s ip) = T_FILE \<or> i_type (inode_at s ip) = T_DEVICE) then Inr (Some ip, s)
         else kbind (k_iunlockput h ip s) (\<lambda>s. Inr (None, s))))
     | None \<Rightarrow>
     kbind (get_me (\<lambda>p. ialloc h p (i_dev (inode_at s dp)) type) s) (\<lambda>(ip, s). case ip of
       None \<Rightarrow> kbind (k_iunlockput h dp s) (\<lambda>s. Inr (None, s))
     | Some ip \<Rightarrow>
     kbind (k_ilock h ip s) (\<lambda>s.
     kbind (k_iupdate h ip (set_inode ip (\<lambda>x. x\<lparr>i_major := major, i_minor := minor, i_nlink := 1\<rparr>) s)) (\<lambda>s.
     kbind (if type = T_DIR
            then kbind (k_dirlink h ip dot (i_inum (inode_at s ip)) s) (\<lambda>(r, s).
                 if r < 0 then Inr (r, s) else k_dirlink h ip dotdot (i_inum (inode_at s dp)) s)
            else Inr (0, s)) (\<lambda>(r, s).
     if r < 0 then create_fail h dp ip s
     else
     kbind (k_dirlink h dp name (i_inum (inode_at s ip)) s) (\<lambda>(r, s).
     if r < 0 then create_fail h dp ip s
     else
     kbind (if type = T_DIR then k_iupdate h dp (set_inode dp (\<lambda>x. x\<lparr>i_nlink := i_nlink x + 1\<rparr>) s) else Inr s) (\<lambda>s.
     kbind (k_iunlockput h dp s) (\<lambda>s. Inr (Some ip, s)))))))))))"

definition has_flag :: "int \<Rightarrow> int \<Rightarrow> bool" where
  "has_flag m f \<longleftrightarrow> m AND f \<noteq> 0"

text \<open>What follows the choice of the inode, which is locked.\<close>

definition open_inode :: "klink \<Rightarrow> 'm hw \<Rightarrow> int \<Rightarrow> nat \<Rightarrow> 'm kern \<Rightarrow> (uint64 \<times> 'm kern) res" where
  "open_inode ld h omode ip s =
     (let x = inode_at s ip in
      if i_type x = T_DEVICE \<and> (sint (i_major x) < 0 \<or> int NDEV \<le> sint (i_major x)) then kbind (k_iunlockput h ip s) (fail_op h)
      else
      kbind (filealloc s) (\<lambda>(f, s). case f of None \<Rightarrow> kbind (k_iunlockput h ip s) (fail_op h) | Some f \<Rightarrow>
      kbind (fdalloc f s) (\<lambda>(fd, s). case fd of
        None \<Rightarrow> kbind (File.fileclose ld h f s) (\<lambda>s. kbind (k_iunlockput h ip s) (fail_op h))
      | Some fd \<Rightarrow>
        let x = inode_at s ip;
            s = upd_file f (\<lambda>y. if i_type x = T_DEVICE then y\<lparr>f_type := FD_DEVICE, f_major := i_major x\<rparr> else y\<lparr>f_type := FD_INODE, f_off := 0\<rparr>) s;
            s = upd_file f (\<lambda>y. y\<lparr>f_ip := Some ip, f_readable := \<not> has_flag omode O_WRONLY,
                                  f_writable := has_flag omode O_WRONLY \<or> has_flag omode O_RDWR\<rparr>) s in
        kbind (if has_flag omode O_TRUNC \<and> i_type x = T_FILE then as_me (\<lambda>p. itrunc h p ip) s else Inr s) (\<lambda>s.
        kbind (k_iunlock ip s) (\<lambda>s.
        kbind (k_end_op h s) (\<lambda>s. Inr (of_nat fd, s)))))))"

definition sys_open :: "klink \<Rightarrow> 'm hw \<Rightarrow> 'm kern \<Rightarrow> (uint64 \<times> 'm kern) res" where
  "sys_open ld h s =
     kbind (argint 1 s) (\<lambda>omode.
     kbind (arg_path 0 s) (\<lambda>path. case path of None \<Rightarrow> Inr (-1, s) | Some path \<Rightarrow>
     kbind (k_begin_op s) (\<lambda>s.
     if has_flag omode O_CREATE
     then kbind (create h path T_FILE 0 0 s) (\<lambda>(ip, s). case ip of None \<Rightarrow> fail_op h s | Some ip \<Rightarrow> open_inode ld h omode ip s)
     else kbind (k_namei h path s) (\<lambda>(ip, s). case ip of None \<Rightarrow> fail_op h s | Some ip \<Rightarrow>
          kbind (k_ilock h ip s) (\<lambda>s.
          if i_type (inode_at s ip) = T_DIR \<and> omode \<noteq> O_RDONLY then kbind (k_iunlockput h ip s) (fail_op h)
          else open_inode ld h omode ip s)))))"

definition make_node :: "'m hw \<Rightarrow> uchar list option \<Rightarrow> ushort \<Rightarrow> ushort \<Rightarrow> ushort \<Rightarrow> 'm kern \<Rightarrow> (uint64 \<times> 'm kern) res" where
  "make_node h path type major minor s =
     (case path of None \<Rightarrow> fail_op h s | Some path \<Rightarrow>
      kbind (create h path type major minor s) (\<lambda>(ip, s). case ip of None \<Rightarrow> fail_op h s | Some ip \<Rightarrow>
      kbind (k_iunlockput h ip s) (\<lambda>s. kbind (k_end_op h s) (\<lambda>s. Inr (0, s)))))"

definition sys_mkdir :: "'m hw \<Rightarrow> 'm kern \<Rightarrow> (uint64 \<times> 'm kern) res" where
  "sys_mkdir h s = kbind (k_begin_op s) (\<lambda>s. kbind (arg_path 0 s) (\<lambda>path. make_node h path T_DIR 0 0 s))"

definition sys_mknod :: "'m hw \<Rightarrow> 'm kern \<Rightarrow> (uint64 \<times> 'm kern) res" where
  "sys_mknod h s =
     kbind (k_begin_op s) (\<lambda>s.
     kbind (argint 1 s) (\<lambda>major.
     kbind (argint 2 s) (\<lambda>minor.
     kbind (arg_path 0 s) (\<lambda>path. make_node h path T_DEVICE (of_int major) (of_int minor) s))))"

definition sys_chdir :: "'m hw \<Rightarrow> 'm kern \<Rightarrow> (uint64 \<times> 'm kern) res" where
  "sys_chdir h s =
     kbind (myproc s) (\<lambda>i.
     kbind (k_begin_op s) (\<lambda>s.
     kbind (arg_path 0 s) (\<lambda>path. case path of None \<Rightarrow> fail_op h s | Some path \<Rightarrow>
     kbind (k_namei h path s) (\<lambda>(ip, s). case ip of None \<Rightarrow> fail_op h s | Some ip \<Rightarrow>
     kbind (k_ilock h ip s) (\<lambda>s.
     if i_type (inode_at s ip) \<noteq> T_DIR then kbind (k_iunlockput h ip s) (fail_op h)
     else
     kbind (k_iunlock ip s) (\<lambda>s.
     kbind (my_cwd s) (\<lambda>d.
     kbind (k_iput h d s) (\<lambda>s.
     kbind (k_end_op h s) (\<lambda>s.
     Inr (0, upd i (\<lambda>p. p\<lparr>cwd := Some ip\<rparr>) s))))))))))"

definition pipe_undo :: "klink \<Rightarrow> 'm hw \<Rightarrow> nat \<Rightarrow> nat \<Rightarrow> 'm kern \<Rightarrow> (uint64 \<times> 'm kern) res" where
  "pipe_undo ld h rdf wrf s = kbind (File.fileclose ld h rdf s) (\<lambda>s. kbind (File.fileclose ld h wrf s) (\<lambda>s. Inr (-1, s)))"

definition sys_pipe :: "klink \<Rightarrow> 'm hw \<Rightarrow> 'm kern \<Rightarrow> (uint64 \<times> 'm kern) res" where
  "sys_pipe ld h s =
     kbind (argaddr 0 s) (\<lambda>fdarray.
     kbind (pipealloc ld h s) (\<lambda>(rw, s). case rw of None \<Rightarrow> Inr (-1, s) | Some (rdf, wrf) \<Rightarrow>
     kbind (fdalloc rdf s) (\<lambda>(fd0, s). case fd0 of None \<Rightarrow> pipe_undo ld h rdf wrf s | Some fd0 \<Rightarrow>
     kbind (fdalloc wrf s) (\<lambda>(fd1, s). case fd1 of
       None \<Rightarrow> kbind (set_ofile fd0 None s) (pipe_undo ld h rdf wrf)
     | Some fd1 \<Rightarrow>
       kbind (k_copyout fdarray (le32 (of_nat fd0)) s) (\<lambda>(r, s).
       kbind (if r < 0 then Inr (r, s) else k_copyout (fdarray + 4) (le32 (of_nat fd1)) s) (\<lambda>(r, s).
       if r < 0
       then kbind (set_ofile fd0 None s) (\<lambda>s. kbind (set_ofile fd1 None s) (pipe_undo ld h rdf wrf))
       else Inr (0, s)))))))"

section \<open>Executing a program\<close>

definition MAXARG :: nat where
  "MAXARG = 32"

definition ELF_MAGIC :: uint32 where
  "ELF_MAGIC = 0x464C457F"

definition ELF_PROG_LOAD :: uint32 where
  "ELF_PROG_LOAD = 1"

record elfhdr =
  e_magic :: uint32
  e_entry :: uint64
  e_phoff :: uint64
  e_phnum :: ushort

record proghdr =
  ph_type :: uint32
  ph_flags :: uint32
  ph_off :: uint64
  ph_vaddr :: uint64
  ph_filesz :: uint64
  ph_memsz :: uint64

definition get64 :: "nat \<Rightarrow> uchar list \<Rightarrow> uint64" where
  "get64 a bs = le64 (take 8 (drop a bs))"

definition elfhdr_of :: "uchar list \<Rightarrow> elfhdr" where
  "elfhdr_of bs = \<lparr>e_magic = get32 0 bs, e_entry = get64 24 bs, e_phoff = get64 32 bs, e_phnum = get16 56 bs\<rparr>"

definition proghdr_of :: "uchar list \<Rightarrow> proghdr" where
  "proghdr_of bs = \<lparr>ph_type = get32 0 bs, ph_flags = get32 1 bs, ph_off = get64 8 bs, ph_vaddr = get64 16 bs,
     ph_filesz = get64 32 bs, ph_memsz = get64 40 bs\<rparr>"

definition flags2perm :: "uint32 \<Rightarrow> uint64" where
  "flags2perm flags = (if flags AND 1 \<noteq> 0 then PTE_X else 0) OR (if flags AND 2 \<noteq> 0 then PTE_W else 0)"

text \<open>A read of \<open>n\<close> bytes into a local structure.\<close>

definition read_local :: "'m hw \<Rightarrow> nat \<Rightarrow> uint32 \<Rightarrow> nat \<Rightarrow> 'm kern \<Rightarrow> ((int \<times> uchar list) \<times> 'm kern) res" where
  "read_local h ip off n s =
     kbind (my_pid s) (\<lambda>p.
     kbind (readi h p kput ip 0 off (of_nat n) (take n (stack_junk h), fs_view s)) (\<lambda>(r, buf, v).
     Inr ((r, buf), put_fs v s)))"

function loadseg_loop :: "'m hw \<Rightarrow> nat \<Rightarrow> uint64 \<Rightarrow> nat \<Rightarrow> uint32 \<Rightarrow> nat \<Rightarrow> nat \<Rightarrow> 'm kern \<Rightarrow> (int \<times> 'm kern) res" where
  "loadseg_loop h pt va ip offset n i s =
     (if i < n
      then let pa = walkaddr pt (va + of_nat i) (pm (mem s)) in
           if pa = 0 then Inl (Panic ''loadseg: address should exist'')
           else let k = min (n - i) PGSIZE in
                kbind (k_readi h False ip (of_nat pa) (offset + of_nat i) (of_nat k) s) (\<lambda>(r, s).
                if r \<noteq> int k then Inr (-1, s) else loadseg_loop h pt va ip offset n (i + PGSIZE) s)
      else Inr (0, s))"
  by pat_completeness auto
termination
  by (relation "measure (\<lambda>(h, pt, va, ip, offset, n, i, s). n - i)") (auto simp: PGSIZE_def)

declare loadseg_loop.simps [simp del]

definition loadseg :: "'m hw \<Rightarrow> nat \<Rightarrow> uint64 \<Rightarrow> nat \<Rightarrow> uint32 \<Rightarrow> uint32 \<Rightarrow> 'm kern \<Rightarrow> (int \<times> 'm kern) res" where
  "loadseg h pt va ip offset n s = loadseg_loop h pt va ip offset (unat n) 0 s"

text \<open>The loop over the program headers; the flag says whether it went through, and \<open>n\<close> is the size reached.\<close>

fun exec_load :: "klink \<Rightarrow> 'm hw \<Rightarrow> nat \<Rightarrow> nat \<Rightarrow> nat \<Rightarrow> int \<Rightarrow> uint64 \<Rightarrow> 'm kern \<Rightarrow> ((bool \<times> uint64) \<times> 'm kern) res" where
  "exec_load ld h ip pt 0 off n s = Inr ((True, n), s)"
| "exec_load ld h ip pt (Suc k) off n s =
     kbind (read_local h ip (of_int off) 56 s) (\<lambda>((r, buf), s).
     let ph = proghdr_of buf in
     if r \<noteq> 56 then Inr ((False, n), s)
     else if ph_type ph \<noteq> ELF_PROG_LOAD then exec_load ld h ip pt k (i32 (off + 56)) n s
     else if ph_memsz ph < ph_filesz ph then Inr ((False, n), s)
     else if ph_vaddr ph + ph_memsz ph < ph_vaddr ph then Inr ((False, n), s)
     else if unat (ph_vaddr ph) mod PGSIZE \<noteq> 0 then Inr ((False, n), s)
     else kbind (uvmalloc (ld_end ld) pt n (ph_vaddr ph + ph_memsz ph) (flags2perm (ph_flags ph)) (mem s)) (\<lambda>(n1, m).
          let s = s\<lparr>mem := m\<rparr> in
          if n1 = 0 then Inr ((False, n), s)
          else kbind (loadseg h pt (ph_vaddr ph) ip (ucast (ph_off ph)) (ucast (ph_filesz ph)) s) (\<lambda>(r, s).
               if r < 0 then Inr ((False, n1), s) else exec_load ld h ip pt k (i32 (off + 56)) n1 s)))"

text \<open>The argument strings, pushed one after the other; \<open>None\<close> when one does not fit.\<close>

fun push_args :: "nat \<Rightarrow> uint64 \<Rightarrow> uchar list list \<Rightarrow> nat \<Rightarrow> uint64 \<Rightarrow> uint64 list \<Rightarrow> 'm kern \<Rightarrow> (uint64 \<times> uint64 list) option \<times> 'm kern" where
  "push_args pt base [] argc sp ustack s = (Some (sp, ustack), s)"
| "push_args pt base (a # as) argc sp ustack s =
     (if MAXARG \<le> argc then (None, s)
      else let sp = sp - of_nat (length a + 1); sp = sp - sp mod 16 in
           if sp < base then (None, s)
           else let (r, m) = copyout pt sp (a @ [0]) (pm (mem s)); s = s\<lparr>mem := (mem s)\<lparr>pm := m\<rparr>\<rparr> in
                if r < 0 then (None, s) else push_args pt base as (Suc argc) sp (ustack @ [sp]) s)"

definition to_string :: "uchar list \<Rightarrow> string" where
  "to_string bs = map (\<lambda>c. char_of (unat c)) bs"

definition last_elem :: "uchar list \<Rightarrow> uchar list" where
  "last_elem path = rev (takeWhile (\<lambda>c. c \<noteq> slash) (rev path))"

text \<open>What follows \<^verbatim>\<open>bad\<close>: \<open>ip\<close> is \<open>None\<close> once the file is closed.\<close>

definition exec_bad :: "klink \<Rightarrow> 'm hw \<Rightarrow> nat \<Rightarrow> uint64 \<Rightarrow> nat option \<Rightarrow> 'm kern \<Rightarrow> (int \<times> 'm kern) res" where
  "exec_bad ld h pt n ip s =
     kbind (if pt \<noteq> 0 then kbind (proc_freepagetable ld pt n (mem s)) (\<lambda>m. Inr (s\<lparr>mem := m\<rparr>)) else Inr s) (\<lambda>s.
     kbind (case ip of None \<Rightarrow> Inr s | Some ip \<Rightarrow> kbind (k_iunlockput h ip s) (k_end_op h)) (\<lambda>s. Inr (-1, s)))"

text \<open>The second half of \<^verbatim>\<open>exec\<close>, with the program in \<open>pt\<close>: the stack, the arguments, and the switch.\<close>

definition exec_stack :: "klink \<Rightarrow> 'm hw \<Rightarrow> uchar list \<Rightarrow> uchar list list \<Rightarrow> elfhdr \<Rightarrow> nat \<Rightarrow> uint64 \<Rightarrow> 'm kern \<Rightarrow> (int \<times> 'm kern) res" where
  "exec_stack ld h path argv elf pt n s =
     kbind (myproc s) (\<lambda>i.
     let oldsz = sz (proc_at s i); n = PGROUNDUP64 n in
     kbind (uvmalloc (ld_end ld) pt n (n + of_nat (2 * PGSIZE)) PTE_W (mem s)) (\<lambda>(n1, m).
     let s = s\<lparr>mem := m\<rparr> in
     if n1 = 0 then exec_bad ld h pt n None s
     else
     kbind (uvmclear pt (n1 - of_nat (2 * PGSIZE)) (pm (mem s))) (\<lambda>m.
     let s = s\<lparr>mem := (mem s)\<lparr>pm := m\<rparr>\<rparr>; base = n1 - of_nat PGSIZE; (pushed, s) = push_args pt base argv 0 n1 [] s in
     case pushed of None \<Rightarrow> exec_bad ld h pt n1 None s
     | Some (sp, ustack) \<Rightarrow>
       let ustack = ustack @ [0]; sp = sp - of_nat (8 * length ustack); sp = sp - sp mod 16 in
       if sp < base then exec_bad ld h pt n1 None s
       else let (r, m) = copyout pt sp (concat (map bytes64 ustack)) (pm (mem s)); s = s\<lparr>mem := (mem s)\<lparr>pm := m\<rparr>\<rparr> in
       if r < 0 then exec_bad ld h pt n1 None s
       else let tf = trapframe (proc_at s i); oldpt = pagetable (proc_at s i);
                s = s\<lparr>frames := (frames s)(tf := (frames s tf)\<lparr>epc := e_entry elf, regs := (regs (frames s tf))(11 := sp, 2 := sp)\<rparr>)\<rparr>;
                s = upd i (\<lambda>p. p\<lparr>pname := take 15 (to_string (last_elem path)), pagetable := pt, sz := n1\<rparr>) s in
            kbind (proc_freepagetable ld oldpt oldsz (mem s)) (\<lambda>m. Inr (int (length argv), s\<lparr>mem := m\<rparr>)))))"

definition exec :: "klink \<Rightarrow> 'm hw \<Rightarrow> uchar list \<Rightarrow> uchar list list \<Rightarrow> 'm kern \<Rightarrow> (int \<times> 'm kern) res" where
  "exec ld h path argv s =
     kbind (myproc s) (\<lambda>i.
     kbind (k_begin_op s) (\<lambda>s.
     kbind (k_namei h path s) (\<lambda>(ip, s). case ip of None \<Rightarrow> kbind (k_end_op h s) (\<lambda>s. Inr (-1, s)) | Some ip \<Rightarrow>
     kbind (k_ilock h ip s) (\<lambda>s.
     kbind (read_local h ip 0 64 s) (\<lambda>((r, buf), s).
     let elf = elfhdr_of buf in
     if r \<noteq> 64 then exec_bad ld h 0 0 (Some ip) s
     else if e_magic elf \<noteq> ELF_MAGIC then exec_bad ld h 0 0 (Some ip) s
     else
     kbind (proc_pagetable ld (trapframe (proc_at s i)) (mem s)) (\<lambda>(pt, m).
     let s = s\<lparr>mem := m\<rparr> in
     if pt = 0 then exec_bad ld h 0 0 (Some ip) s
     else
     kbind (exec_load ld h ip pt (unat (e_phnum elf)) (i32 (uint (e_phoff elf))) 0 s) (\<lambda>((ok, n), s).
     if \<not> ok then exec_bad ld h pt n (Some ip) s
     else
     kbind (k_iunlockput h ip s) (\<lambda>s.
     kbind (k_end_op h s) (\<lambda>s.
     exec_stack ld h path argv elf pt n s)))))))))"

text \<open>The loop of \<^verbatim>\<open>sys_exec\<close>: the pages that hold the strings, and whether the list was complete.\<close>

function exec_args :: "uint64 \<Rightarrow> nat \<Rightarrow> (nat \<times> uchar list) list \<Rightarrow> 'm kern \<Rightarrow> ((bool \<times> (nat \<times> uchar list) list) \<times> 'm kern) res" where
  "exec_args uargv i argv s =
     (if MAXARG \<le> i then Inr ((False, argv), s)
      else kbind (fetchaddr (uargv + 8 * of_nat i) s) (\<lambda>a.
           case a of None \<Rightarrow> Inr ((False, argv), s)
           | Some uarg \<Rightarrow>
             if uarg = 0 then Inr ((True, argv), s)
             else let (pg, m) = kalloc_m (mem s); s = s\<lparr>mem := m\<rparr> in
                  if pg = 0 then Inr ((False, argv), s)
                  else kbind (fetchstr uarg PGSIZE s) (\<lambda>(r, bs).
                       let argv = argv @ [(pg, takeWhile (\<lambda>c. c \<noteq> 0) bs)] in
                       if r < 0 then Inr ((False, argv), s) else exec_args uargv (Suc i) argv s)))"
  by pat_completeness auto
termination
  by (relation "measure (\<lambda>(u, i, a, s). MAXARG - i)") auto

declare exec_args.simps [simp del]

definition free_args :: "klink \<Rightarrow> (nat \<times> uchar list) list \<Rightarrow> 'm kern \<Rightarrow> 'm kern res" where
  "free_args ld argv s = kfold (\<lambda>(pg, _) s. kbind (kfree_m (ld_end ld) pg (mem s)) (\<lambda>m. Inr (s\<lparr>mem := m\<rparr>))) argv s"

definition sys_exec :: "klink \<Rightarrow> 'm hw \<Rightarrow> 'm kern \<Rightarrow> (uint64 \<times> 'm kern) res" where
  "sys_exec ld h s =
     kbind (argaddr 1 s) (\<lambda>uargv.
     kbind (arg_path 0 s) (\<lambda>path. case path of None \<Rightarrow> Inr (-1, s) | Some path \<Rightarrow>
     kbind (exec_args uargv 0 [] s) (\<lambda>((ok, argv), s).
     if \<not> ok then kbind (free_args ld argv s) (\<lambda>s. Inr (-1, s))
     else kbind (exec ld h path (map snd argv) s) (\<lambda>(r, s).
          kbind (free_args ld argv s) (\<lambda>s. Inr (word_of_int r, s))))))"

end
