(* ===== verification/File_Theorems.thy ===== *)
theory File_Theorems
  imports Pipe_Spec Path_Spec Sysfile
begin





text \<open>
  C35: The loop over a path ends, and goes through its elements: for a path without null and any content of
  the buffer, the calls of \<^verbatim>\<open>skipelem\<close> leave in the buffer, one after the other, the non-empty parts between the slashes, each cut to 14
  characters, and then return the null pointer.
\<close>
theorem path_walk_ends:
  assumes "0 \<notin> set path" "length name = DIRSIZ"
  shows "skips path name es \<longleftrightarrow> es = path_elems path"
  by (rule skips_iff [OF assms])

theorem path_walk_ends_witness:
  "skips [47, 97, 47, 47, 98, 98, 47] (replicate 14 7) [[97], [98, 98]]"
  by (subst path_walk_ends) (simp_all add: DIRSIZ_def path_elems_def slash_def)

end
