(* ===== verification/Log_Spec.thy ===== *)
theory Log_Spec
  imports Log
begin

text \<open>
  What the log does to the disk: the writes of a commit, and the recovery from every prefix of them.
\<close>

section \<open>Writes\<close>

definition apply_writes :: "(nat \<times> block) list \<Rightarrow> (nat \<Rightarrow> block) \<Rightarrow> nat \<Rightarrow> block" where
  "apply_writes ws d = fold (\<lambda>(n, x) d. d(n := x)) ws d"

definition v_puts :: "(nat \<times> block) list \<Rightarrow> bview \<Rightarrow> bview" where
  "v_puts ws v = v\<lparr>vcur := apply_writes ws (vcur v), vdisk := apply_writes ws (vdisk v), vwrote := vwrote v @ ws\<rparr>"

definition v_unpins :: "nat list \<Rightarrow> bview \<Rightarrow> bview" where
  "v_unpins xs v = v\<lparr>vref := (\<lambda>n. vref v n - count_list xs n)\<rparr>"

lemma apply_writes_append [simp]: "apply_writes (xs @ ys) d = apply_writes ys (apply_writes xs d)"
  by (simp add: apply_writes_def)

lemma apply_writes_Cons [simp]: "apply_writes ((n, x) # ws) d = apply_writes ws (d(n := x))" "apply_writes [] d = d"
  by (simp_all add: apply_writes_def)

lemma apply_writes_single [simp]: "apply_writes [(n, x)] d = d(n := x)"
  by (simp add: apply_writes_def)

lemma apply_writes_out: "n \<notin> fst ` set ws \<Longrightarrow> apply_writes ws d n = d n"
  by (induction ws rule: rev_induct) (auto simp: apply_writes_def split: prod.splits)

lemma apply_writes_in: "distinct (map fst ws) \<Longrightarrow> (n, x) \<in> set ws \<Longrightarrow> apply_writes ws d n = x"
proof (induction ws rule: rev_induct)
  case (snoc w ws)
  show ?case
  proof (cases "(n, x) \<in> set ws")
    case True
    then have "n \<in> fst ` set ws" by force
    then have "fst w \<noteq> n" using snoc.prems(1) by auto
    with True snoc show ?thesis by (cases w) simp
  next
    case False
    then have "w = (n, x)" using snoc.prems(2) by simp
    then show ?thesis by simp
  qed
qed simp

lemma v_puts_sel [simp]:
  "vcur (v_puts ws v) = apply_writes ws (vcur v)" "vdisk (v_puts ws v) = apply_writes ws (vdisk v)"
  "vref (v_puts ws v) = vref v" "vheld (v_puts ws v) = vheld v" "vwrote (v_puts ws v) = vwrote v @ ws"
  by (simp_all add: v_puts_def)

lemma v_puts_simps:
  "v_puts [] v = v" "v_puts ys (v_puts xs v) = v_puts (xs @ ys) v" "v_write n (v_set n x v) = v_puts [(n, x)] v"
  by (cases v; simp add: v_puts_def v_write_def v_set_def apply_writes_def)+

lemma v_unpins_sel [simp]:
  "vcur (v_unpins xs v) = vcur v" "vdisk (v_unpins xs v) = vdisk v" "vheld (v_unpins xs v) = vheld v" "vwrote (v_unpins xs v) = vwrote v"
  "vref (v_unpins xs v) n = vref v n - count_list xs n"
  by (simp_all add: v_unpins_def)

lemma v_unpins_simps:
  "v_unpins [] v = v" "v_unpin n (v_unpins xs v) = v_unpins (xs @ [n]) v" "v_unpin n (v_puts ws v) = v_puts ws (v_unpin n v)"
  by (cases v; simp add: v_puts_def v_unpins_def v_unpin_def fun_eq_iff)+

lemma v_puts_unpins: "v_puts ws (v_unpins xs v) = v_unpins xs (v_puts ws v)"
  by (cases v) (simp add: v_puts_def v_unpins_def)

section \<open>The header block\<close>

definition head_is :: "block \<Rightarrow> nat list \<Rightarrow> bool" where
  "head_is x bs \<longleftrightarrow> sint (get32 0 x) = int (length bs) \<and> (\<forall>i < length bs. sint (get32 (Suc i) x) = int (bs ! i))"


lemma head_loop:
  assumes "4 * (k + 1) \<le> length x"
  shows "length (fold (\<lambda>i. put32 (Suc i) (g i)) [0..<k] x) = length x \<and>
    (\<forall>j. 4 * j + 4 \<le> length x \<longrightarrow> get32 j (fold (\<lambda>i. put32 (Suc i) (g i)) [0..<k] x) = (if 1 \<le> j \<and> j \<le> k then g (j - 1) else get32 j x))"
  using assms
proof (induction k)
  case (Suc k)
  then show ?case by (auto simp: get32_put32)
qed simp

lemma head_bytes_length [simp]: "0 \<le> n \<Longrightarrow> n \<le> int LOGSIZE \<Longrightarrow> length x = BSIZE \<Longrightarrow> length (head_bytes n bs x) = BSIZE"
  unfolding head_bytes_def by (subst head_loop [THEN conjunct1]) (simp_all add: LOGSIZE_def BSIZE_def)

lemma sint_small: "n < 2 ^ 31 \<Longrightarrow> sint (word_of_nat n :: uint32) = int n"
  using int_word_sint [of "int n", where ?'a = 32] by simp

lemma head_is_bytes:
  assumes "length bs \<le> LOGSIZE" "length x = BSIZE" "\<forall>b \<in> set bs. b < 2 ^ 31" "take (length bs) zs = map int bs"
  shows "head_is (head_bytes (int (length bs)) zs x) bs"
proof -
  have z: "zs ! i = int (bs ! i)" if "i < length bs" for i
    using that assms(4) by (metis nth_map nth_take)
  have l: "4 * (length bs + 1) \<le> length (put32 0 (of_nat (length bs)) x)"
    using assms(1,2) by (simp add: LOGSIZE_def BSIZE_def)
  note g = head_loop [OF l, THEN conjunct2, rule_format]
  have "get32 0 (head_bytes (int (length bs)) zs x) = of_nat (length bs)"
    using assms(1,2) by (simp add: head_bytes_def g get32_put32 LOGSIZE_def BSIZE_def)
  moreover have "get32 (Suc i) (head_bytes (int (length bs)) zs x) = of_nat (bs ! i)" if "i < length bs" for i
    using assms(1,2) that z by (simp add: head_bytes_def g LOGSIZE_def BSIZE_def)
  moreover have "bs ! i < 2 ^ 31" if "i < length bs" for i using assms(3) that by simp
  ultimately show ?thesis using assms(1) sint_small by (simp add: head_is_def LOGSIZE_def)
qed

section \<open>The invariant\<close>

definition in_log :: "nat \<Rightarrow> nat \<Rightarrow> bool" where
  "in_log S b \<longleftrightarrow> S \<le> b \<and> b < S + LOGSIZE"

text \<open>The blocks of a transaction: distinct, on the disk and outside the log, and few enough for the log.\<close>

definition blocks_ok :: "nat \<Rightarrow> nat \<Rightarrow> nat list \<Rightarrow> bool" where
  "blocks_ok cap S bs \<longleftrightarrow> S + LOGSIZE \<le> cap \<and> cap < 2 ^ 31 \<and> distinct bs \<and> length bs < LOGSIZE \<and> (\<forall>b \<in> set bs. b < cap \<and> \<not> in_log S b)"

text \<open>The log in memory holds the block numbers \<open>bs\<close>.\<close>

definition log_mem :: "uint32 \<Rightarrow> nat \<Rightarrow> nat list \<Rightarrow> 'm log \<Rightarrow> bool" where
  "log_mem dv S bs s \<longleftrightarrow> l_start s = int S \<and> of_int (l_dev s) = dv \<and>
     length (lh_block s) = LOGSIZE \<and> lh_n s = int (length bs) \<and> take (length bs) (lh_block s) = map int bs"

lemma log_mem_lbc [simp]: "log_mem dv S bs (s\<lparr>lbc := c\<rparr>) = log_mem dv S bs s"
  by (simp add: log_mem_def)

lemma log_mem_lh_at: "log_mem dv S bs s \<Longrightarrow> length bs \<le> LOGSIZE \<Longrightarrow> i < length bs \<Longrightarrow> lh_at s i = Inr (int (bs ! i))"
  unfolding log_mem_def lh_at_def by (metis (no_types, lifting) less_le_trans nth_map nth_take)

text \<open>Nobody holds a block, and only the blocks of a set that leaves a buffer free are pinned.\<close>

definition idle :: "nat list \<Rightarrow> bview \<Rightarrow> bool" where
  "idle bs v \<longleftrightarrow> (\<forall>n. vheld v n = None) \<and> (\<forall>n. vref v n = (if n \<in> set bs then 1 else 0))"

lemma can_get_one:
  assumes "\<And>n. vheld v n = None" "\<And>n. 0 < vref v n \<Longrightarrow> n \<in> set bs" "\<And>n. vref v n \<le> 1" "length bs < NBUF" "a < cap"
  shows "can_get cap a v"
proof -
  have "card {m. 0 < vref v m} \<le> card (set bs)" by (rule card_mono) (use assms(2) in auto)
  then show ?thesis using card_length [of bs] assms(1,4,5) assms(3) [of a] by (simp add: can_get_def)
qed

lemma can_get_two:
  assumes "\<And>n. vheld v n = None" "\<And>n. vref v n \<le> 1" "a \<noteq> m" "m < cap" "0 < vref v m \<or> (\<forall>n. vref v n = 0)"
  shows "can_get cap m (v_get p a v)"
proof -
  have "{x. 0 < vref (v_get p a v) x} = {a}" if "\<forall>n. vref v n = 0" using that by (auto simp: v_get_def)
  then have "card {x. 0 < vref (v_get p a v) x} < NBUF" if "\<forall>n. vref v n = 0" using that by (simp add: NBUF_def)
  then have "0 < vref (v_get p a v) m \<or> card {x. 0 < vref (v_get p a v) x} < NBUF" using assms(3,5) by (auto simp: v_get_def NBUF_def)
  then show ?thesis using assms(1) assms(2) [of m] assms(3,4) by (simp add: can_get_def) (simp add: v_get_def)
qed

section \<open>The loops\<close>

definition log_writes :: "nat \<Rightarrow> nat list \<Rightarrow> bview \<Rightarrow> (nat \<times> block) list" where
  "log_writes S bs v = map (\<lambda>i. (S + i + 1, vcur v (bs ! i))) [0..<length bs]"

definition home_writes :: "nat \<Rightarrow> nat list \<Rightarrow> bview \<Rightarrow> (nat \<times> block) list" where
  "home_writes S bs v = map (\<lambda>i. (bs ! i, vcur v (S + i + 1))) [0..<length bs]"

lemma blocks_okD:
  assumes "blocks_ok cap S bs" "i < length bs"
  shows "bs ! i < cap" "j < length bs \<Longrightarrow> bs ! i \<noteq> Suc (S + j)" "S + i + 1 < cap" "S + i + 1 \<noteq> bs ! i" "length bs < NBUF" "cap < 2 ^ 31"
proof -
  have b: "bs ! i < cap" "\<not> in_log S (bs ! i)" "length bs < LOGSIZE" "S + LOGSIZE \<le> cap" "cap < 2 ^ 31"
    using assms by (auto simp: blocks_ok_def)
  then show "bs ! i < cap" "j < length bs \<Longrightarrow> bs ! i \<noteq> Suc (S + j)" "S + i + 1 < cap" "S + i + 1 \<noteq> bs ! i" "length bs < NBUF" "cap < 2 ^ 31"
    using assms(2) by (auto simp: in_log_def LOGSIZE_def NBUF_def)
qed

lemma write_log_view:
  assumes "bio_ok h st dv (lbc s)" "log_mem dv S bs s" "blocks_ok (capacity h 0) S bs" "idle bs (bio_view st dv (lbc s))"
  defines "v \<equiv> bio_view st dv (lbc s)"
  shows "wp (write_log h p s) (\<lambda>t. t = s\<lparr>lbc := lbc t\<rparr> \<and> bio_ok h st dv (lbc t) \<and> bio_view st dv (lbc t) = v_puts (log_writes S bs v) v)"
proof -
  let ?P = "\<lambda>pre c. bio_ok h st dv c \<and> bio_view st dv c = v_puts (map (\<lambda>i. (S + i + 1, vcur v (bs ! i))) pre) v"
  have m: "l_start s = int S" "of_int (l_dev s) = dv" "nat (lh_n s) = length bs" "length bs \<le> LOGSIZE"
    using assms(2,3) by (auto simp: log_mem_def blocks_ok_def)
  have idle: "vheld v n = None" "vref v n \<le> Suc 0" "0 < vref v n \<longleftrightarrow> n \<in> set bs" for n
    using assms(4) by (auto simp: idle_def v_def split: if_splits)
  have "wp (kfold (\<lambda>tail c.
       kbind (bread h p (of_int (l_dev s)) (of_int (l_start s + int tail + 1)) c) (\<lambda>(to, c).
       kbind (lh_at s tail) (\<lambda>bn.
       kbind (bread h p (of_int (l_dev s)) (of_int bn) c) (\<lambda>(from, c).
       kbind (bwrite h p to (set_data to (b_data (bb c from)) c)) (\<lambda>c.
       kbind (brelse p from c) (brelse p to)))))) [0..<length bs] (lbc s)) (?P [0..<length bs])"
  proof (rule wp_kfold, goal_cases)
    case 1
    then show ?case using assms(1) by (simp add: v_puts_simps v_def)
  next
    case (2 pre i rest c)
    note i = upt_split [OF 2(1)]
    note b = blocks_okD [OF assms(3) i(2)]
    have pre: "set pre = {..<i}"
      using 2(1) i by (metis atLeast_upt append_eq_conv_conj less_imp_le_nat take_upt add_0)
    have cur: "vcur (bio_view st dv c) (bs ! i) = vcur v (bs ! i)"
      by (subst conjunct2 [OF 2(2)]) (simp, subst apply_writes_out, auto simp: pre dest: b(2) [OF less_trans [OF _ i(2)]])
    have pin: "0 < vref v (bs ! i)" using i(2) by (simp add: idle)
    have "wp (kbind (bread h p dv (of_nat (S + i + 1)) c) (\<lambda>(x, s). kbind (bread h p dv (of_nat (bs ! i)) s) (\<lambda>(y, s).
        kbind (bwrite h p x (set_data x (b_data (bb s y)) s)) (\<lambda>s. kbind (brelse p y s) (brelse p x)))))
       (\<lambda>t. bio_ok h st dv t \<and> bio_view st dv t = v_write (S + i + 1) (v_set (S + i + 1) (vcur (bio_view st dv c) (bs ! i)) (bio_view st dv c)))"
      by (rule bc.copy_to_log)
        (use 2(2) b pin in \<open>auto intro!: can_get_one [where bs = bs] can_get_two simp: idle(1,2)\<close>, simp add: idle(3))
    then show ?case
      using log_mem_lh_at [OF assms(2) m(4) i(2)] m(1,2) 2(2) cur by (simp add: v_puts_simps ac_simps)
  qed
  then show ?thesis unfolding write_log_def m(3) wp_kbind by (rule wp_mono) (simp add: log_writes_def)
qed

text \<open>
  Installing after a commit unpins the blocks; in a recovery nothing is pinned. The log blocks are
  clean in both cases.
\<close>

lemma install_trans_view:
  assumes "bio_ok h st dv (lbc s)" "log_mem dv S bs s" "blocks_ok (capacity h 0) S bs"
    and "idle (if rec then [] else bs) (bio_view st dv (lbc s))"
  defines "v \<equiv> bio_view st dv (lbc s)"
  shows "wp (install_trans h p rec s) (\<lambda>t. t = s\<lparr>lbc := lbc t\<rparr> \<and> bio_ok h st dv (lbc t) \<and>
     bio_view st dv (lbc t) = v_puts (home_writes S bs v) (v_unpins (if rec then [] else bs) v))"
proof -
  let ?v = "\<lambda>pre. v_puts (map (\<lambda>i. (bs ! i, vcur v (S + i + 1))) pre) (v_unpins (if rec then [] else map ((!) bs) pre) v)"
  have m: "l_start s = int S" "of_int (l_dev s) = dv" "nat (lh_n s) = length bs" "length bs \<le> LOGSIZE"
    using assms(2,3) by (auto simp: log_mem_def blocks_ok_def)
  have idle: "vheld v n = None" "vref v n \<le> Suc 0" "0 < vref v n \<longleftrightarrow> \<not> rec \<and> n \<in> set bs" for n
    using assms(4) by (auto simp: idle_def v_def split: if_splits)
  have "wp (kfold (\<lambda>tail c.
       kbind (bread h p (of_int (l_dev s)) (of_int (l_start s + int tail + 1)) c) (\<lambda>(lbuf, c).
       kbind (lh_at s tail) (\<lambda>bn.
       kbind (bread h p (of_int (l_dev s)) (of_int bn) c) (\<lambda>(dbuf, c).
       kbind (bwrite h p dbuf (set_data dbuf (b_data (bb c lbuf)) c)) (\<lambda>c.
       kbind (if \<not> rec then bunpin dbuf c else Inr c) (\<lambda>c.
       kbind (brelse p lbuf c) (brelse p dbuf))))))) [0..<length bs] (lbc s)) (\<lambda>c. bio_ok h st dv c \<and> bio_view st dv c = ?v [0..<length bs])"
  proof (rule wp_kfold [where P = "\<lambda>pre c. bio_ok h st dv c \<and> bio_view st dv c = ?v pre"], goal_cases)
    case 1
    then show ?case using assms(1) by (simp add: v_puts_simps v_unpins_simps v_def)
  next
    case (2 pre i rest c)
    note i = upt_split [OF 2(1)]
    note b = blocks_okD [OF assms(3) i(2)]
    have pre: "set pre = {..<i}" "bs ! i \<notin> (!) bs ` {..<i}"
      using 2(1) i by (metis atLeast_upt append_eq_conv_conj less_imp_le_nat take_upt add_0)
        (use assms(3) i(2) in \<open>auto simp: blocks_ok_def nth_eq_iff_index_eq\<close>)
    have out: "S + i + 1 \<notin> fst ` set (map (\<lambda>i. (bs ! i, vcur v (S + i + 1))) pre)"
      using blocks_okD(2) [OF assms(3) less_trans [OF _ i(2)] i(2)] by (auto simp: pre(1)) metis
    have "vref v (S + i + 1) = 0" using blocks_okD(2) [OF assms(3) _ i(2)] idle(3) [of "S + i + 1"] by (auto simp: in_set_conv_nth)
    then have clean: "vcur v (S + i + 1) = vdisk v (S + i + 1)" unfolding v_def by (rule bc.idle_law [OF assms(1)])
    have a: "vcur (?v pre) (S + i + 1) = vcur v (S + i + 1)" "vdisk (?v pre) (S + i + 1) = vdisk v (S + i + 1)"
      using out by (simp_all add: apply_writes_out)
    have ref: "vref (?v pre) (bs ! i) = vref v (bs ! i)" "vref (?v pre) n \<le> 1" "0 < vref (?v pre) n \<Longrightarrow> n \<in> set bs" for n
      using pre idle(2) [of n] idle(3) [of n] by (auto simp: pre)
    have "wp (kbind (bread h p dv (of_nat (S + i + 1)) c) (\<lambda>(x, s). kbind (bread h p dv (of_nat (bs ! i)) s) (\<lambda>(y, s).
        kbind (bwrite h p y (set_data y (b_data (bb s x)) s)) (\<lambda>s. kbind (if \<not> rec then bunpin y s else Inr s) (\<lambda>s. kbind (brelse p x s) (brelse p y))))))
       (\<lambda>t. bio_ok h st dv t \<and> bio_view st dv t = (if \<not> rec then v_unpin (bs ! i) (v_write (bs ! i) (v_set (bs ! i) (vcur (bio_view st dv c) (S + i + 1)) (bio_view st dv c)))
          else v_write (bs ! i) (v_set (bs ! i) (vcur (bio_view st dv c) (S + i + 1)) (bio_view st dv c))))"
    proof (rule bc.copy_home)
      show "can_get (capacity h 0) (S + i + 1) (bio_view st dv c)"
        unfolding conjunct2 [OF 2(2)] by (rule can_get_one [OF _ ref(3,2)]) (use b idle(1) in auto)
      show "can_get (capacity h 0) (bs ! i) (v_get p (S + i + 1) (bio_view st dv c))"
        unfolding conjunct2 [OF 2(2)] by (rule can_get_two) (use b ref idle i(2) in auto)
      show "vcur (bio_view st dv c) (S + i + 1) = vdisk (bio_view st dv c) (S + i + 1)" unfolding conjunct2 [OF 2(2)] a by (rule clean)
      show "\<not> rec \<longrightarrow> 0 < vref (bio_view st dv c) (bs ! i)" unfolding conjunct2 [OF 2(2)] ref(1) using i(2) by (simp add: idle)
    qed (use 2(2) b in auto)
    then show ?case
      using log_mem_lh_at [OF assms(2) m(4) i(2)] m(1,2) 2(2) a by (cases rec) (simp_all add: v_puts_simps v_unpins_simps ac_simps)
  qed
  moreover have "map ((!) bs) [0..<length bs] = bs" by (rule map_nth)
  ultimately show ?thesis unfolding install_trans_def m(3) wp_kbind
    by (elim wp_mono) (simp add: home_writes_def)
qed

lemma write_head_view:
  assumes "bio_ok h st dv (lbc s)" "l_start s = int S" "of_int (l_dev s) = dv" "0 \<le> lh_n s" "lh_n s \<le> int LOGSIZE"
    and "can_get (capacity h 0) S (bio_view st dv (lbc s))"
  defines "v \<equiv> bio_view st dv (lbc s)"
  shows "wp (write_head h p s) (\<lambda>t. t = s\<lparr>lbc := lbc t\<rparr> \<and> bio_ok h st dv (lbc t) \<and>
     bio_view st dv (lbc t) = v_puts [(S, head_bytes (lh_n s) (lh_block s) (vcur v S))] v)"
proof -
  have "wp (bread h p dv (of_nat S) (lbc s)) (\<lambda>(x, t). wp (bwrite h p x (set_data x (head_bytes (lh_n s) (lh_block s) (b_data (bb t x))) t))
     (\<lambda>t. wp (brelse p x t) (\<lambda>t. bio_ok h st dv t \<and> bio_view st dv t = v_write S (v_set S (head_bytes (lh_n s) (lh_block s) (vcur v S)) v))))"
    unfolding v_def by (rule bc.rewrite_block [OF assms(1,6)]) (use assms(4,5) in simp)
  then show ?thesis using assms(5) by (simp add: write_head_def assms(2,3) v_puts_simps case_prod_unfold)
qed

lemma read_head_view:
  assumes "bio_ok h st dv (lbc s)" "l_start s = int S" "of_int (l_dev s) = dv" "length (lh_block s) = LOGSIZE"
    and "can_get (capacity h 0) S (bio_view st dv (lbc s))" "vref (bio_view st dv (lbc s)) S = 0"
    and "head_is (vcur (bio_view st dv (lbc s)) S) bs" "length bs \<le> LOGSIZE"
  shows "wp (read_head h p s) (\<lambda>t. t = s\<lparr>lbc := lbc t, lh_n := lh_n t, lh_block := lh_block t\<rparr> \<and> log_mem dv S bs t \<and>
     bio_ok h st dv (lbc t) \<and> bio_view st dv (lbc t) = bio_view st dv (lbc s))"
proof -
  let ?v = "bio_view st dv (lbc s)"
  let ?blk = "\<lambda>k. map int (take k bs) @ drop k (lh_block s)"
  have loop: "kfold (\<lambda>i s. if i < LOGSIZE then Inr (s\<lparr>lh_block := (lh_block s)[i := sint (get32 (Suc i) x)]\<rparr>) else Inl BadAccess)
      [0..<length bs] (s\<lparr>lh_n := n\<rparr>) = Inr (s\<lparr>lh_n := n, lh_block := ?blk (length bs)\<rparr>)" if "head_is x bs" for x n
  proof -
    have "wp (kfold (\<lambda>i s. if i < LOGSIZE then Inr (s\<lparr>lh_block := (lh_block s)[i := sint (get32 (Suc i) x)]\<rparr>) else Inl BadAccess)
      [0..<length bs] (s\<lparr>lh_n := n\<rparr>)) (\<lambda>t. t = s\<lparr>lh_n := n, lh_block := ?blk (length [0..<length bs])\<rparr>)"
    proof (rule wp_kfold [where P = "\<lambda>pre t. t = s\<lparr>lh_n := n, lh_block := ?blk (length pre)\<rparr>"], goal_cases)
      case (2 pre i rest t)
      note i = upt_split [OF 2(1)]
      have "(?blk i)[i := sint (get32 (Suc i) x)] = ?blk (Suc i)"
        using that i(2) assms(4,8)
        by (simp add: head_is_def list_update_append take_Suc_conv_app_nth Cons_nth_drop_Suc [symmetric] min_def)
      then show ?case using i 2(2) assms(8) by simp
    qed simp
    then show ?thesis by (simp add: wp_iff)
  qed
  have h: "sint (get32 0 (vcur ?v S)) = int (length bs)" using assms(7) by (simp add: head_is_def)
  have "wp (bread h p dv (of_nat S) (lbc s)) (\<lambda>(b, c). wp (let lh = b_data (bb c b); s = s\<lparr>lh_n := sint (get32 0 lh)\<rparr> in
     kbind (kfold (\<lambda>i s. if i < LOGSIZE then Inr (s\<lparr>lh_block := (lh_block s)[i := sint (get32 (Suc i) lh)]\<rparr>) else Inl BadAccess)
       [0..<nat (lh_n s)] s) (\<lambda>s. kbind (brelse p b c) (\<lambda>c. Inr (s\<lparr>lbc := c\<rparr>))))
     (\<lambda>t. t = s\<lparr>lbc := lbc t, lh_n := lh_n t, lh_block := lh_block t\<rparr> \<and> log_mem dv S bs t \<and>
       bio_ok h st dv (lbc t) \<and> bio_view st dv (lbc t) = ?v))"
  proof (rule bc.read_block [OF assms(1,5) bc.idle_law [OF assms(1,6)]], unfold prod.case)
    fix x t
    assume d: "b_data (bb t x) = vcur ?v S" and r: "wp (brelse p x t) (\<lambda>u. bio_ok h st dv u \<and> bio_view st dv u = ?v)"
    show "wp (let lh = b_data (bb t x); s = s\<lparr>lh_n := sint (get32 0 lh)\<rparr> in
     kbind (kfold (\<lambda>i s. if i < LOGSIZE then Inr (s\<lparr>lh_block := (lh_block s)[i := sint (get32 (Suc i) lh)]\<rparr>) else Inl BadAccess)
       [0..<nat (lh_n s)] s) (\<lambda>s. kbind (brelse p x t) (\<lambda>c. Inr (s\<lparr>lbc := c\<rparr>))))
     (\<lambda>t. t = s\<lparr>lbc := lbc t, lh_n := lh_n t, lh_block := lh_block t\<rparr> \<and> log_mem dv S bs t \<and>
       bio_ok h st dv (lbc t) \<and> bio_view st dv (lbc t) = ?v)"
      using r loop [OF assms(7)] assms(2,3,4,8) by (simp add: d h Let_def log_mem_def)
  qed
  then show ?thesis by (simp add: read_head_def assms(2,3) case_prod_unfold)
qed

section \<open>Commit\<close>

text \<open>The writes of a commit, in order: the log, its header, the blocks at home, the cleared header.\<close>

definition commit_writes :: "nat \<Rightarrow> int list \<Rightarrow> nat list \<Rightarrow> bview \<Rightarrow> (nat \<times> block) list" where
  "commit_writes S zs bs v =
     (let hd = head_bytes (int (length bs)) zs (vcur v S)
      in log_writes S bs v @ [(S, hd)] @ map (\<lambda>b. (b, vcur v b)) bs @ [(S, head_bytes 0 zs hd)])"

lemma fst_log_writes: "fst ` set (log_writes S bs v) = (\<lambda>i. S + i + 1) ` {..<length bs}"
  by (auto simp: log_writes_def image_image)

lemma log_writes_at:
  assumes "i < length bs"
  shows "apply_writes (log_writes S bs v) d (S + i + 1) = vcur v (bs ! i)"
proof (rule apply_writes_in)
  show "distinct (map fst (log_writes S bs v))" by (simp add: log_writes_def distinct_map inj_on_def)
  show "(S + i + 1, vcur v (bs ! i)) \<in> set (log_writes S bs v)" using assms by (auto simp: log_writes_def)
qed

lemma head_not_logged: "apply_writes (log_writes S bs v) d S = d S"
  by (rule apply_writes_out) (auto simp: fst_log_writes)

lemma idle_v [simp]: "idle bs (v_puts ws v) = idle bs v"
  by (simp add: idle_def)

lemma count_distinct: "distinct bs \<Longrightarrow> count_list bs n = (if n \<in> set bs then 1 else 0)"
  by (induction bs) auto

lemma idle_unpins: "idle bs v \<Longrightarrow> distinct bs \<Longrightarrow> idle [] (v_unpins bs v)"
  by (simp add: idle_def count_distinct)

lemma idle_can_get: "idle bs v \<Longrightarrow> length bs < NBUF \<Longrightarrow> a < cap \<Longrightarrow> can_get cap a v"
  by (rule can_get_one [where bs = bs]) (auto simp: idle_def split: if_splits)

lemma commit_view:
  assumes "bio_ok h st dv (lbc s)" "log_mem dv S bs s" "blocks_ok (capacity h 0) S bs" "idle bs (bio_view st dv (lbc s))" "bs \<noteq> []"
  defines "v \<equiv> bio_view st dv (lbc s)"
  shows "wp (commit h p s) (\<lambda>t. t = s\<lparr>lbc := lbc t, lh_n := 0\<rparr> \<and> bio_ok h st dv (lbc t) \<and>
     bio_view st dv (lbc t) = v_unpins bs (v_puts (commit_writes S (lh_block s) bs v) v))"
proof -
  let ?n = "lh_n s" and ?zs = "lh_block s" and ?cap = "capacity h 0"
  have b: "length bs < NBUF" "S < ?cap" "distinct bs" "0 \<le> ?n" "?n \<le> int LOGSIZE" "?n = int (length bs)" "0 < ?n" "l_start s = int S" "of_int (l_dev s) = dv"
    using assms(2,3,5) by (auto simp: blocks_ok_def log_mem_def LOGSIZE_def NBUF_def)
  define hd where "hd = head_bytes ?n ?zs (vcur v S)"
  define w where "w = v_puts (log_writes S bs v @ [(S, hd)]) v"
  have idle: "idle bs v" using assms(4) by (simp add: v_def)
  have home: "home_writes S bs w = map (\<lambda>b. (b, vcur v b)) bs"
    by (rule nth_equalityI) (auto simp: home_writes_def w_def log_writes_at [simplified])
  have cw: "commit_writes S ?zs bs v = log_writes S bs v @ [(S, hd)] @ home_writes S bs w @ [(S, head_bytes 0 ?zs hd)]"
    by (simp add: commit_writes_def home hd_def b Let_def)
  have "S \<notin> set bs" using assms(3) by (auto simp: blocks_ok_def in_log_def LOGSIZE_def)
  then have hS: "apply_writes (map (\<lambda>b. (b, vcur v b)) bs) d S = d S" for d by (subst apply_writes_out) auto
  have "wp (write_log h p s) (\<lambda>t. wp (write_head h p t) (\<lambda>t. wp (install_trans h p False t) (\<lambda>t. wp (write_head h p (t\<lparr>lh_n := 0\<rparr>))
     (\<lambda>t. t = s\<lparr>lbc := lbc t, lh_n := 0\<rparr> \<and> bio_ok h st dv (lbc t) \<and>
     bio_view st dv (lbc t) = v_unpins bs (v_puts (commit_writes S (lh_block s) bs v) v)))))"
  proof (rule wp_mono [OF write_log_view [OF assms(1-4)]], fold v_def, elim conjE)
    fix t
    assume t: "t = s\<lparr>lbc := lbc t\<rparr>" "bio_ok h st dv (lbc t)" "bio_view st dv (lbc t) = v_puts (log_writes S bs v) v"
    have f: "l_start t = int S" "of_int (l_dev t) = dv" "lh_n t = ?n" "lh_block t = ?zs" "log_mem dv S bs t"
      using b assms(2) by (subst t(1), simp)+
    have "can_get ?cap S (bio_view st dv (lbc t))" unfolding t(3) by (rule idle_can_get [of bs]) (use idle b in auto)
    note wh = write_head_view [OF t(2) f(1,2) _ _ this, unfolded f t(3), OF b(4,5)]
    show "wp (write_head h p t) (\<lambda>t. wp (install_trans h p False t) (\<lambda>t. wp (write_head h p (t\<lparr>lh_n := 0\<rparr>))
     (\<lambda>t. t = s\<lparr>lbc := lbc t, lh_n := 0\<rparr> \<and> bio_ok h st dv (lbc t) \<and>
     bio_view st dv (lbc t) = v_unpins bs (v_puts (commit_writes S (lh_block s) bs v) v))))"
    proof (rule wp_mono [OF wh], elim conjE)
      fix u
      assume u: "u = t\<lparr>lbc := lbc u\<rparr>" "bio_ok h st dv (lbc u)"
        "bio_view st dv (lbc u) = v_puts [(S, head_bytes ?n ?zs (vcur (v_puts (log_writes S bs v) v) S))] (v_puts (log_writes S bs v) v)"
      from u(3) have uv: "bio_view st dv (lbc u) = w" by (simp add: v_puts_simps w_def hd_def head_not_logged)
      have g: "l_start u = int S" "of_int (l_dev u) = dv" "lh_block u = ?zs" "log_mem dv S bs u"
        using f by (subst u(1), simp)+
      note it = install_trans_view [where rec = False, unfolded if_False, OF u(2) g(4) assms(3), unfolded uv, unfolded w_def idle_v, OF idle, folded w_def]
      show "wp (install_trans h p False u) (\<lambda>t. wp (write_head h p (t\<lparr>lh_n := 0\<rparr>))
     (\<lambda>t. t = s\<lparr>lbc := lbc t, lh_n := 0\<rparr> \<and> bio_ok h st dv (lbc t) \<and>
     bio_view st dv (lbc t) = v_unpins bs (v_puts (commit_writes S (lh_block s) bs v) v)))"
      proof (rule wp_mono [OF it], elim conjE)
        fix z
        assume z: "z = u\<lparr>lbc := lbc z\<rparr>" "bio_ok h st dv (lbc z)" "bio_view st dv (lbc z) = v_puts (home_writes S bs w) (v_unpins bs w)"
        have zv: "bio_view st dv (lbc z) = v_unpins bs (v_puts (log_writes S bs v @ [(S, hd)] @ home_writes S bs w) v)"
          by (subst z(3), subst (2) w_def) (simp add: v_puts_unpins v_puts_simps)
        have k: "l_start (z\<lparr>lh_n := 0\<rparr>) = int S" "of_int (l_dev (z\<lparr>lh_n := 0\<rparr>)) = dv" "lh_block (z\<lparr>lh_n := 0\<rparr>) = ?zs" "lbc (z\<lparr>lh_n := 0\<rparr>) = lbc z" "lh_n (z\<lparr>lh_n := 0\<rparr>) = 0"
          using g by (subst z(1), simp)+
        have "can_get ?cap S (bio_view st dv (lbc z))"
          unfolding zv by (rule idle_can_get [OF idle_unpins]) (use idle b in \<open>auto simp: NBUF_def\<close>)
        note wz = write_head_view [where s = "z\<lparr>lh_n := 0\<rparr>", unfolded k, OF z(2) refl refl _ _ this]
        have "vcur (bio_view st dv (lbc z)) S = hd" by (simp add: zv home hS)
        then have fin: "v_puts [(S, head_bytes 0 ?zs (vcur (bio_view st dv (lbc z)) S))] (bio_view st dv (lbc z)) = v_unpins bs (v_puts (commit_writes S ?zs bs v) v)"
          by (simp add: zv v_puts_unpins v_puts_simps cw)
        have zs: "z\<lparr>lh_n := 0, lbc := c\<rparr> = s\<lparr>lbc := c, lh_n := 0\<rparr>" for c by (subst z(1), subst u(1), subst t(1)) simp
        show "wp (write_head h p (z\<lparr>lh_n := 0\<rparr>)) (\<lambda>t. t = s\<lparr>lbc := lbc t, lh_n := 0\<rparr> \<and> bio_ok h st dv (lbc t) \<and>
            bio_view st dv (lbc t) = v_unpins bs (v_puts (commit_writes S (lh_block s) bs v) v))"
          by (rule wp_mono [OF wz [unfolded fin zs]]) (simp_all add: LOGSIZE_def)
      qed
    qed
  qed
  then show ?thesis using b(7) by (simp add: commit_def)
qed

section \<open>Recovery\<close>

lemma recover_view:
  assumes "bio_ok h st dv (lbc s)" "l_start s = int S" "of_int (l_dev s) = dv" "length (lh_block s) = LOGSIZE"
    and "idle [] (bio_view st dv (lbc s))" "head_is (vdisk (bio_view st dv (lbc s)) S) bs" "blocks_ok (capacity h 0) S bs"
  defines "v \<equiv> bio_view st dv (lbc s)"
  shows "wp (recover_from_log h p s) (\<lambda>t. log_mem dv S [] t \<and> l_size t = l_size s \<and> l_lock t = l_lock s \<and> bio_ok h st dv (lbc t) \<and> idle [] (bio_view st dv (lbc t)) \<and>
     (\<exists>x. head_is x [] \<and> vdisk (bio_view st dv (lbc t)) = apply_writes (home_writes S bs v @ [(S, x)]) (vdisk v)))"
proof -
  let ?cap = "capacity h 0"
  have b: "S < ?cap" "length bs \<le> LOGSIZE" using assms(7) by (auto simp: blocks_ok_def LOGSIZE_def)
  have get: "can_get ?cap S u" if "idle [] u" for u by (rule idle_can_get [OF that]) (use b(1) in \<open>auto simp: NBUF_def\<close>)
  have ref: "vref v S = 0" using assms(5) by (simp add: idle_def v_def)
  then have hd: "head_is (vcur v S) bs" using bc.idle_law [OF assms(1), of S] assms(6) by (simp add: v_def)
  have "wp (read_head h p s) (\<lambda>t. wp (install_trans h p True t) (\<lambda>t. wp (write_head h p (t\<lparr>lh_n := 0\<rparr>))
    (\<lambda>t. log_mem dv S [] t \<and> l_size t = l_size s \<and> l_lock t = l_lock s \<and> bio_ok h st dv (lbc t) \<and> idle [] (bio_view st dv (lbc t)) \<and>
      (\<exists>x. head_is x [] \<and> vdisk (bio_view st dv (lbc t)) = apply_writes (home_writes S bs v @ [(S, x)]) (vdisk v)))))"
  proof (rule wp_mono [OF read_head_view [OF assms(1-4) get [OF assms(5)] ref [unfolded v_def] hd [unfolded v_def] b(2)]], elim conjE, fold v_def)
    fix t
    assume t: "log_mem dv S bs t" "bio_ok h st dv (lbc t)" "bio_view st dv (lbc t) = v"
      and tl: "t = s\<lparr>lbc := lbc t, lh_n := lh_n t, lh_block := lh_block t\<rparr>"
    have f: "l_start t = int S" "of_int (l_dev t) = dv" using t(1) by (auto simp: log_mem_def)
    have "idle (if True then [] else bs) (bio_view st dv (lbc t))" using assms(5) by (simp add: t(3) v_def)
    note it = install_trans_view [OF t(2,1) assms(7) this, unfolded t(3), simplified]
    show "wp (install_trans h p True t) (\<lambda>t. wp (write_head h p (t\<lparr>lh_n := 0\<rparr>))
      (\<lambda>t. log_mem dv S [] t \<and> l_size t = l_size s \<and> l_lock t = l_lock s \<and> bio_ok h st dv (lbc t) \<and> idle [] (bio_view st dv (lbc t)) \<and>
      (\<exists>x. head_is x [] \<and> vdisk (bio_view st dv (lbc t)) = apply_writes (home_writes S bs v @ [(S, x)]) (vdisk v))))"
    proof (rule wp_mono [OF it], elim conjE)
      fix u
      assume u: "bio_ok h st dv (lbc u)" "bio_view st dv (lbc u) = v_puts (home_writes S bs v) (v_unpins [] v)" and ul: "u = t\<lparr>lbc := lbc u\<rparr>"
      have uv: "bio_view st dv (lbc u) = v_puts (home_writes S bs v) v" by (simp add: u(2) v_unpins_simps)
      have k: "l_start (u\<lparr>lh_n := 0\<rparr>) = int S" "of_int (l_dev (u\<lparr>lh_n := 0\<rparr>)) = dv" "lbc (u\<lparr>lh_n := 0\<rparr>) = lbc u" "lh_n (u\<lparr>lh_n := 0\<rparr>) = 0"
        using f by (subst ul, simp)+
      have idle: "idle [] (bio_view st dv (lbc u))" using assms(5) by (simp add: uv v_def)
      note wz = write_head_view [where s = "u\<lparr>lh_n := 0\<rparr>", unfolded k, OF u(1) refl refl _ _ get [OF idle]]
      show "wp (write_head h p (u\<lparr>lh_n := 0\<rparr>)) (\<lambda>t. log_mem dv S [] t \<and> l_size t = l_size s \<and> l_lock t = l_lock s \<and> bio_ok h st dv (lbc t) \<and> idle [] (bio_view st dv (lbc t)) \<and>
        (\<exists>x. head_is x [] \<and> vdisk (bio_view st dv (lbc t)) = apply_writes (home_writes S bs v @ [(S, x)]) (vdisk v)))"
      proof (rule wp_mono [OF wz], goal_cases)
        case (3 z)
        have l: "l_lock u = l_lock s" "l_size u = l_size s" by (subst ul, simp, subst tl, simp)+
        have "log_mem dv S bs u" using t(1) by (subst ul, simp)
        then have "log_mem dv S [] z" "l_size z = l_size s" "l_lock z = l_lock s" using l by (subst conjunct1 [OF 3], simp add: log_mem_def)+
        moreover have zv: "bio_view st dv (lbc z) = v_puts [(S, head_bytes 0 (lh_block (u\<lparr>lh_n := 0\<rparr>)) (vcur (bio_view st dv (lbc u)) S))] (bio_view st dv (lbc u))"
          using 3 by blast
        have "idle [] (bio_view st dv (lbc z))" unfolding zv idle_v by (rule idle)
        moreover have "vdisk (bio_view st dv (lbc z)) =
            apply_writes (home_writes S bs v @ [(S, head_bytes 0 (lh_block (u\<lparr>lh_n := 0\<rparr>)) (vcur (bio_view st dv (lbc u)) S))]) (vdisk v)"
          by (simp add: zv uv)
        moreover have "head_is (head_bytes 0 (lh_block (u\<lparr>lh_n := 0\<rparr>)) (vcur (bio_view st dv (lbc u)) S)) []"
          using head_is_bytes [of "[]"] bc.size_law [OF u(1) b(1)] by simp
        ultimately show ?case using 3 by blast
      qed simp_all
    qed
  qed
  then show ?thesis by (simp add: recover_from_log_def)
qed

section \<open>Crashes\<close>

text \<open>The disk after the first \<open>k\<close> writes of a commit, and what a recovery makes of it.\<close>

lemma homes_at:
  assumes "distinct bs" "\<And>i. i < length bs \<Longrightarrow> vcur u (S + i + 1) = f (bs ! i)" "n \<notin> set bs \<Longrightarrow> d n = f n"
  shows "apply_writes (home_writes S bs u) d n = f n"
proof (cases "n \<in> set bs")
  case True
  then obtain i where i: "i < length bs" "bs ! i = n" by (auto simp: in_set_conv_nth)
  have "apply_writes (home_writes S bs u) d n = vcur u (S + i + 1)"
  proof (rule apply_writes_in)
    show "distinct (map fst (home_writes S bs u))" using assms(1) by (simp add: home_writes_def comp_def map_nth)
    show "(n, vcur u (S + i + 1)) \<in> set (home_writes S bs u)" using i by (auto simp: home_writes_def)
  qed
  then show ?thesis using assms(2) [OF i(1)] i(2) by simp
next
  case False
  then have "n \<notin> fst ` set (home_writes S bs u)" by (auto simp: home_writes_def)
  then show ?thesis using assms(3) [OF False] by (simp add: apply_writes_out)
qed

lemma homes_done:
  assumes "distinct bs" "n \<notin> set bs \<Longrightarrow> d n = f n"
  shows "apply_writes (map (\<lambda>b. (b, f b)) bs) d n = f n"
proof (cases "n \<in> set bs")
  case True
  then have "(n, f n) \<in> set (map (\<lambda>b. (b, f b)) bs)" by simp
  with assms(1) show ?thesis by (intro apply_writes_in) (simp_all add: comp_def)
next
  case False
  then have "n \<notin> fst ` set (map (\<lambda>b. (b, f b)) bs)" by auto
  then show ?thesis using assms(2) [OF False] by (simp add: apply_writes_out)
qed

lemma log_writes_out:
  assumes "length bs < LOGSIZE" "n = S \<or> \<not> in_log S n"
  shows "apply_writes (take k (log_writes S bs v)) d n = d n"
proof (rule apply_writes_out)
  have "fst ` set (take k (log_writes S bs v)) \<subseteq> fst ` set (log_writes S bs v)"
    by (rule image_mono) (rule set_take_subset)
  also have "\<dots> \<subseteq> {n. in_log S n \<and> n \<noteq> S}" using assms(1) by (auto simp: fst_log_writes in_log_def)
  finally show "n \<notin> fst ` set (take k (log_writes S bs v))" using assms(2) by blast
qed

lemma commit_disk:
  assumes "blocks_ok cap S bs" "\<And>n. n \<notin> set bs \<Longrightarrow> d n = vcur v n"
  shows "apply_writes (commit_writes S zs bs v) d S = head_bytes 0 zs (head_bytes (int (length bs)) zs (vcur v S))"
    "\<not> in_log S n \<Longrightarrow> apply_writes (commit_writes S zs bs v) d n = vcur v n"
proof -
  show "apply_writes (commit_writes S zs bs v) d S = head_bytes 0 zs (head_bytes (int (length bs)) zs (vcur v S))"
    by (simp add: commit_writes_def Let_def)
  assume n: "\<not> in_log S n"
  then have "n \<noteq> S" by (auto simp: in_log_def LOGSIZE_def)
  moreover have "apply_writes (log_writes S bs v) d n = d n"
    using log_writes_out [of bs n S "length bs" v d] n assms(1) by (simp add: blocks_ok_def log_writes_def)
  ultimately show "apply_writes (commit_writes S zs bs v) d n = vcur v n"
    using assms by (simp add: commit_writes_def Let_def homes_done blocks_ok_def)
qed

lemma crash_disk:
  assumes "blocks_ok cap S bs" "take (length bs) zs = map int bs" "length (vcur v S) = BSIZE" "head_is (vdisk v S) []"
    and "\<And>n. n \<notin> set bs \<Longrightarrow> vdisk v n = vcur v n"
    and "vcur u = apply_writes (take k (commit_writes S zs bs v)) (vdisk v)"
  obtains cs where "head_is (vcur u S) cs" "blocks_ok cap S cs"
    "\<And>n. \<not> in_log S n \<Longrightarrow> apply_writes (home_writes S cs u) (vcur u) n = (if k \<le> length bs then vdisk v n else vcur v n)"
proof -
  define hd where "hd = head_bytes (int (length bs)) zs (vcur v S)"
  have ws: "commit_writes S zs bs v = log_writes S bs v @ [(S, hd)] @ map (\<lambda>b. (b, vcur v b)) bs @ [(S, head_bytes 0 zs hd)]"
    by (simp add: commit_writes_def hd_def Let_def)
  have b: "distinct bs" "length bs \<le> LOGSIZE" "\<forall>b \<in> set bs. b < 2 ^ 31" "S \<notin> set bs" "\<And>n. \<not> in_log S n \<Longrightarrow> n \<noteq> S" "length (log_writes S bs v) = length bs" "\<And>i. i < length bs \<Longrightarrow> S + i + 1 \<notin> set bs"
    using assms(1) by (auto simp: blocks_ok_def in_log_def LOGSIZE_def log_writes_def)
  have len: "length bs < LOGSIZE" using assms(1) by (simp add: blocks_ok_def)
  have logs: "apply_writes (log_writes S bs v) d n = d n" if "n = S \<or> \<not> in_log S n" for n d
    using log_writes_out [OF len that, of "length bs" v d] b(6) by simp
  have empty: "blocks_ok cap S []" using assms(1) by (auto simp: blocks_ok_def)
  have hd: "head_is hd bs" "length hd = BSIZE" unfolding hd_def using head_is_bytes [OF b(2) assms(3) b(3) assms(2)] b(2) assms(3) by simp_all
  have hd0: "head_is (head_bytes 0 zs hd) []" using head_is_bytes [of "[]" hd zs] hd(2) by simp
  consider "k \<le> length bs" | "length bs < k" "k \<le> 2 * length bs + 1" | "2 * length bs + 1 < k" by linarith
  then show thesis
  proof cases
    case 1
    then have u: "vcur u = apply_writes (take k (log_writes S bs v)) (vdisk v)" using b(6) by (simp add: assms(6) ws)
    have keep: "vcur u n = vdisk v n" if "n = S \<or> \<not> in_log S n" for n
      unfolding u by (rule log_writes_out [OF len that])
    show thesis by (rule that [of "[]"]) (use 1 keep assms(4) empty in \<open>auto simp: home_writes_def\<close>)
  next
    case 2
    then have u: "vcur u = apply_writes (take (k - length bs - 1) (map (\<lambda>b. (b, vcur v b)) bs)) ((apply_writes (log_writes S bs v) (vdisk v))(S := hd))"
      using b(6) by (simp add: assms(6) ws take_Cons' )
    have out: "vcur u n = ((apply_writes (log_writes S bs v) (vdisk v))(S := hd)) n" if "n \<notin> set bs" for n
      unfolding u by (intro apply_writes_out) (use that in \<open>auto dest!: in_set_takeD\<close>)
    show thesis
    proof (rule that [of bs])
      show "head_is (vcur u S) bs" using out [OF b(4)] hd(1) by simp
      fix n
      assume n: "\<not> in_log S n"
      have "apply_writes (home_writes S bs u) (vcur u) n = vcur v n"
      proof (rule homes_at [OF b(1)])
        show "vcur u (S + i + 1) = vcur v (bs ! i)" if "i < length bs" for i
          using out [OF b(7) [OF that]] log_writes_at [OF that, of S v "vdisk v"] by simp
        show "vcur u n = vcur v n" if "n \<notin> set bs" using out [OF that] logs n b(5) [OF n] assms(5) [OF that] by simp
      qed
      then show "apply_writes (home_writes S bs u) (vcur u) n = (if k \<le> length bs then vdisk v n else vcur v n)" using n 2 by simp
    qed (rule assms(1))
  next
    case 3
    then have u: "vcur u = apply_writes (commit_writes S zs bs v) (vdisk v)" using b(6) by (simp add: assms(6) ws)
    show thesis
      by (rule that [of "[]"]) (use u commit_disk [OF assms(1,5)] hd0 empty 3 in \<open>auto simp: home_writes_def hd_def\<close>)
  qed
qed

section \<open>The invariant of the log\<close>

text \<open>
  Between transactions the header on the disk is empty; the blocks of the running one are pinned.
\<close>

definition log_ok :: "'m hw \<Rightarrow> ('m \<Rightarrow> int \<Rightarrow> int \<Rightarrow> block) \<Rightarrow> uint32 \<Rightarrow> nat \<Rightarrow> nat list \<Rightarrow> 'm log \<Rightarrow> bool" where
  "log_ok h st dv S bs s \<longleftrightarrow> bio_ok h st dv (lbc s) \<and> lk_free (l_lock s) \<and> log_mem dv S bs s \<and> l_size s = int LOGSIZE \<and>
     blocks_ok (capacity h 0) S bs \<and> head_is (vdisk (bio_view st dv (lbc s)) S) [] \<and>
     (\<forall>b \<in> set bs. 0 < vref (bio_view st dv (lbc s)) b)"

abbreviation log_cpu :: "cpu \<Rightarrow> 'm log \<Rightarrow> 'm bcache" where
  "log_cpu c s \<equiv> with_bufs c (bufs (bv (lbc s))) (lbc s)"

lemma log_acquire_eff:
  assumes "lk_free (l_lock s)"
  shows "log_acquire s = Inr (s\<lparr>lbc := log_cpu (push_off (vcpu (bv (lbc s)))) s, l_lock := (l_lock s)\<lparr>locked := 1, lkcpu := Some (hart (bv (lbc s)))\<rparr>\<rparr>)"
  using acquire_free [OF assms] by (simp add: log_acquire_def with_bufs_def)

lemma log_release_eff:
  assumes "l_lock t = lk\<lparr>locked := 1, lkcpu := Some (hart (bv (lbc t)))\<rparr>" "lk_free lk" "cpu_ok (vcpu (bv (lbc t)))" "1 \<le> noff (vcpu (bv (lbc t)))"
  obtains c where "cpu_ok c" "log_release t = Inr (t\<lparr>lbc := log_cpu c t, l_lock := lk\<rparr>)"
proof -
  let ?c = "vcpu (bv (lbc t))"
  let ?d = "?c\<lparr>noff := noff ?c - 1, intr := (noff ?c = 1 \<and> intena ?c)\<rparr>"
  have "\<not> intr ?c" using assms(3,4) by (simp add: cpu_ok_def)
  moreover have "lk\<lparr>locked := 0, lkcpu := None\<rparr> = lk" using assms(2) by (cases lk) (simp add: lk_free_def)
  ultimately have "release (hart (bv (lbc t))) (?c, l_lock t) = Inr (?d, lk)"
    unfolding assms(1) using release_held [OF _ assms(4)] by simp
  moreover have "cpu_ok ?d" using assms(4) by (simp add: cpu_ok_def)
  ultimately show thesis by (intro that [of ?d]) (simp_all add: log_release_def with_bufs_def)
qed

text \<open>A critical section that changes only the fields of the log.\<close>

lemma log_section:
  assumes "lk_free (l_lock s)" "cpu_ok (vcpu (bv (lbc s)))"
    and "\<And>s. l_lock (f s) = l_lock s" "\<And>s. lbc (f s) = lbc s" "\<And>s c l. f (s\<lparr>lbc := c, l_lock := l\<rparr>) = (f s)\<lparr>lbc := c, l_lock := l\<rparr>"
  shows "\<exists>c. cpu_ok c \<and> kbind (log_acquire s) (\<lambda>s. log_release (f s)) = Inr ((f s)\<lparr>lbc := log_cpu c s\<rparr>)"
proof -
  let ?t = "(f s)\<lparr>lbc := log_cpu (push_off (vcpu (bv (lbc s)))) s, l_lock := (l_lock s)\<lparr>locked := 1, lkcpu := Some (hart (bv (lbc s)))\<rparr>\<rparr>"
  obtain c where c: "cpu_ok c" "log_release ?t = Inr (?t\<lparr>lbc := log_cpu c ?t, l_lock := l_lock s\<rparr>)"
    by (rule log_release_eff [of ?t "l_lock s"]) (use assms in \<open>auto simp: cpu_ok_def\<close>)
  then show ?thesis by (intro exI [of _ c]) (simp add: log_acquire_eff [OF assms(1)] assms(3,4,5))
qed

lemma log_okD:
  assumes "log_ok h st dv S bs s"
  shows "bio_ok h st dv (lbc s)" "lk_free (l_lock s)" "cpu_ok (vcpu (bv (lbc s)))" "log_mem dv S bs s" "l_size s = int LOGSIZE"
    "blocks_ok (capacity h 0) S bs" "head_is (vdisk (bio_view st dv (lbc s)) S) []"
  using assms by (auto simp: log_ok_def dest: bio_okD(3))

lemma log_ok_fields:
  assumes "log_ok h st dv S bs s" "cpu_ok c" "l_lock t = l_lock s" "log_mem dv S bs s \<Longrightarrow> log_mem dv S bs t" "l_size t = l_size s" "lbc t = log_cpu c s"
  shows "log_ok h st dv S bs t" "bio_view st dv (lbc t) = bio_view st dv (lbc s)" "bio_hand dv p (lbc t) = bio_hand dv p (lbc s)"
  using assms cpu_change [OF log_okD(1) [OF assms(1)] assms(2)] by (simp_all add: log_ok_def)

lemma begin_op_eff:
  assumes "log_ok h st dv S bs s"
  shows "\<exists>c. cpu_ok c \<and> begin_op s = Inr
    (if committing s \<noteq> 0 \<or> int LOGSIZE < int (length bs) + (outstanding s + 1) * int MAXOPBLOCKS then (False, s\<lparr>lbc := log_cpu c s\<rparr>)
     else (True, s\<lparr>outstanding := outstanding s + 1, lbc := log_cpu c s\<rparr>))"
proof -
  note o = log_okD(2,3) [OF assms]
  have n: "lh_n s = int (length bs)" using log_okD(4) [OF assms] by (simp add: log_mem_def)
  obtain c where c: "cpu_ok c" "kbind (log_acquire s) log_release = Inr (s\<lparr>lbc := log_cpu c s\<rparr>)"
    using log_section [OF o, of "\<lambda>s. s"] by auto
  obtain d where d: "cpu_ok d" "kbind (log_acquire s) (\<lambda>s. log_release (s\<lparr>outstanding := outstanding s + 1\<rparr>)) = Inr (s\<lparr>outstanding := outstanding s + 1, lbc := log_cpu d s\<rparr>)"
    using log_section [OF o, of "\<lambda>s. s\<lparr>outstanding := outstanding s + 1\<rparr>"] by auto
  show ?thesis
  proof (cases "committing s \<noteq> 0 \<or> int LOGSIZE < int (length bs) + (outstanding s + 1) * int MAXOPBLOCKS")
    case True
    then show ?thesis using c by (intro exI [of _ c]) (auto simp: begin_op_def log_acquire_eff [OF o(1)] n kbind_eq_Inr)
  next
    case False
    then show ?thesis using d by (intro exI [of _ d]) (auto simp: begin_op_def log_acquire_eff [OF o(1)] n kbind_eq_Inr)
  qed
qed

lemma end_op_more:
  assumes "log_ok h st dv S bs s" "committing s = 0" "outstanding s \<noteq> 1"
  shows "\<exists>c. cpu_ok c \<and> end_op h p s = Inr (s\<lparr>outstanding := outstanding s - 1, woken := Suc (woken s), lbc := log_cpu c s\<rparr>)"
  using log_section [OF log_okD(2,3) [OF assms(1)], of "\<lambda>s. s\<lparr>outstanding := outstanding s - 1, woken := Suc (woken s)\<rparr>"] assms(2,3)
  by (simp add: end_op_def log_acquire_eff [OF log_okD(2) [OF assms(1)]])

text \<open>The last operation of a transaction commits it.\<close>

lemma commit_ok:
  assumes "log_ok h st dv S bs s" "idle bs (bio_view st dv (lbc s))"
  shows "wp (commit h p s) (\<lambda>t. t = s\<lparr>lbc := lbc t, lh_n := 0\<rparr> \<and> log_ok h st dv S [] t \<and> idle [] (bio_view st dv (lbc t)) \<and>
    (\<forall>n. \<not> in_log S n \<longrightarrow> vdisk (bio_view st dv (lbc t)) n = vcur (bio_view st dv (lbc s)) n))"
proof (cases "bs = []")
  case True
  then have n: "lh_n s = 0" using log_okD(4) [OF assms(1)] by (simp add: log_mem_def)
  have "vdisk (bio_view st dv (lbc s)) n = vcur (bio_view st dv (lbc s)) n" for n
    using bc.idle_law [OF log_okD(1) [OF assms(1)], of n] assms(2) True by (simp add: idle_def)
  then show ?thesis using assms True n by (simp add: commit_def)
next
  case False
  note o = log_okD [OF assms(1)]
  let ?v = "bio_view st dv (lbc s)"
  let ?hd = "head_bytes (int (length bs)) (lh_block s) (vcur ?v S)"
  have clean: "vdisk ?v n = vcur ?v n" if "n \<notin> set bs" for n
    using bc.idle_law [OF o(1), of n] assms(2) that by (simp add: idle_def)
  have "length ?hd = BSIZE" using bc.size_law [OF o(1), of S] o(6) by (simp add: blocks_ok_def LOGSIZE_def)
  then have hd: "head_is (head_bytes 0 (lh_block s) ?hd) []" using head_is_bytes [of "[]"] by simp
  show ?thesis
  proof (rule wp_mono [OF commit_view [OF o(1,4,6) assms(2) False]], elim conjE)
    fix t
    assume t: "bio_ok h st dv (lbc t)" "bio_view st dv (lbc t) = v_unpins bs (v_puts (commit_writes S (lh_block s) bs ?v) ?v)"
      and e: "t = s\<lparr>lbc := lbc t, lh_n := 0\<rparr>"
    have "lk_free (l_lock t)" "log_mem dv S [] t" "l_size t = int LOGSIZE" using o by (subst e, simp add: log_mem_def)+
    moreover have "blocks_ok (capacity h 0) S []" using o(6) by (auto simp: blocks_ok_def)
    moreover have "idle [] (bio_view st dv (lbc t))"
      unfolding t(2) by (rule idle_unpins) (use assms(2) o(6) in \<open>simp_all add: blocks_ok_def\<close>)
    moreover have "head_is (vdisk (bio_view st dv (lbc t)) S) []" using hd by (simp add: t(2) commit_disk(1) [OF o(6) clean])
    moreover have "\<forall>n. \<not> in_log S n \<longrightarrow> vdisk (bio_view st dv (lbc t)) n = vcur ?v n" by (simp add: t(2) commit_disk(2) [OF o(6) clean])
    ultimately show "t = s\<lparr>lbc := lbc t, lh_n := 0\<rparr> \<and> log_ok h st dv S [] t \<and> idle [] (bio_view st dv (lbc t)) \<and>
        (\<forall>n. \<not> in_log S n \<longrightarrow> vdisk (bio_view st dv (lbc t)) n = vcur ?v n)"
      using e t(1) unfolding log_ok_def by (metis empty_iff empty_set)
  qed
qed

lemma end_op_last:
  assumes "log_ok h st dv S bs s" "idle bs (bio_view st dv (lbc s))" "committing s = 0" "outstanding s = 1"
  shows "wp (end_op h p s) (\<lambda>t. log_ok h st dv S [] t \<and> idle [] (bio_view st dv (lbc t)) \<and> outstanding t = 0 \<and> committing t = 0 \<and> woken t = Suc (woken s) \<and>
    (\<forall>n. \<not> in_log S n \<longrightarrow> vdisk (bio_view st dv (lbc t)) n = vcur (bio_view st dv (lbc s)) n))"
proof -
  obtain c where c: "cpu_ok c" "kbind (log_acquire s) (\<lambda>s. log_release (s\<lparr>outstanding := 0, committing := 1\<rparr>)) = Inr (s\<lparr>outstanding := 0, committing := 1, lbc := log_cpu c s\<rparr>)"
    using log_section [OF log_okD(2,3) [OF assms(1)], of "\<lambda>s. s\<lparr>outstanding := 0, committing := 1\<rparr>"] by auto
  let ?s = "s\<lparr>outstanding := 0, committing := 1, lbc := log_cpu c s\<rparr>"
  have s: "log_ok h st dv S bs ?s" "bio_view st dv (lbc ?s) = bio_view st dv (lbc s)"
    by (rule log_ok_fields [OF assms(1) c(1)]; simp add: log_mem_def)+
  have "end_op h p s = kbind (commit h p ?s) (\<lambda>s. kbind (log_acquire s) (\<lambda>s. log_release (s\<lparr>committing := 0, woken := Suc (woken s)\<rparr>)))"
    using c(2) assms(3,4) by (simp add: end_op_def log_acquire_eff [OF log_okD(2) [OF assms(1)]])
  moreover have "wp (commit h p ?s) (\<lambda>t. wp (kbind (log_acquire t) (\<lambda>s. log_release (s\<lparr>committing := 0, woken := Suc (woken s)\<rparr>)))
    (\<lambda>t. log_ok h st dv S [] t \<and> idle [] (bio_view st dv (lbc t)) \<and> outstanding t = 0 \<and> committing t = 0 \<and> woken t = Suc (woken s) \<and>
    (\<forall>n. \<not> in_log S n \<longrightarrow> vdisk (bio_view st dv (lbc t)) n = vcur (bio_view st dv (lbc s)) n)))"
  proof (rule wp_mono [OF commit_ok [OF s(1), unfolded s(2), OF assms(2)]], elim conjE)
    fix t
    assume t: "log_ok h st dv S [] t" "idle [] (bio_view st dv (lbc t))"
      "\<forall>n. \<not> in_log S n \<longrightarrow> vdisk (bio_view st dv (lbc t)) n = vcur (bio_view st dv (lbc s)) n"
      and e: "t = ?s\<lparr>lbc := lbc t, lh_n := 0\<rparr>"
    have f: "outstanding t = 0" "woken t = woken s" by (subst e, simp)+
    obtain d where d: "cpu_ok d" "kbind (log_acquire t) (\<lambda>s. log_release (s\<lparr>committing := 0, woken := Suc (woken s)\<rparr>)) = Inr (t\<lparr>committing := 0, woken := Suc (woken t), lbc := log_cpu d t\<rparr>)"
      using log_section [OF log_okD(2,3) [OF t(1)], of "\<lambda>s. s\<lparr>committing := 0, woken := Suc (woken s)\<rparr>"] by auto
    let ?t = "t\<lparr>committing := 0, woken := Suc (woken t), lbc := log_cpu d t\<rparr>"
    have "log_ok h st dv S [] ?t" "bio_view st dv (lbc ?t) = bio_view st dv (lbc t)"
      by (rule log_ok_fields [OF t(1) d(1)]; simp add: log_mem_def)+
    then show "wp (kbind (log_acquire t) (\<lambda>s. log_release (s\<lparr>committing := 0, woken := Suc (woken s)\<rparr>)))
      (\<lambda>t. log_ok h st dv S [] t \<and> idle [] (bio_view st dv (lbc t)) \<and> outstanding t = 0 \<and> committing t = 0 \<and> woken t = Suc (woken s) \<and>
      (\<forall>n. \<not> in_log S n \<longrightarrow> vdisk (bio_view st dv (lbc t)) n = vcur (bio_view st dv (lbc s)) n))"
      unfolding d(2) wp_Inr using t(2,3) f by simp
  qed
  ultimately show ?thesis by simp
qed

section \<open>Starting the log\<close>

lemma initlog_law:
  assumes "bio_ok h st dv (lbc s)" "idle [] (bio_view st dv (lbc s))" "of_int dev = dv" "length (lh_block s) = LOGSIZE"
    and "sint (sb_logstart sb) = int S" "sint (sb_nlog sb) = int LOGSIZE"
    and "head_is (vdisk (bio_view st dv (lbc s)) S) bs" "blocks_ok (capacity h 0) S bs"
  shows "wp (initlog h p dev sb s) (\<lambda>t. log_ok h st dv S [] t \<and> idle [] (bio_view st dv (lbc t)) \<and>
     (\<forall>n. n \<noteq> S \<longrightarrow> vdisk (bio_view st dv (lbc t)) n = apply_writes (home_writes S bs (bio_view st dv (lbc s))) (vdisk (bio_view st dv (lbc s))) n))"
proof -
  let ?s = "s\<lparr>l_lock := initlock ''log'', l_start := sint (sb_logstart sb), l_size := sint (sb_nlog sb), l_dev := dev\<rparr>"
  have e: "initlog h p dev sb s = recover_from_log h p ?s" by (simp add: initlog_def BSIZE_def LOGSIZE_def)
  have em: "blocks_ok (capacity h 0) S []" using assms(8) by (auto simp: blocks_ok_def)
  have "bio_ok h st dv (lbc ?s)" "l_start ?s = int S" "of_int (l_dev ?s) = dv" "length (lh_block ?s) = LOGSIZE"
    "idle [] (bio_view st dv (lbc ?s))" "head_is (vdisk (bio_view st dv (lbc ?s)) S) bs"
    using assms by simp_all
  from recover_view [OF this assms(8)] show ?thesis
    unfolding e by (rule wp_mono) (use em assms(6) in \<open>auto simp: log_ok_def\<close>)
qed

section \<open>Adding a block to the transaction\<close>

lemma find_entry_le: "find_entry w zs \<le> length zs"
  by (induction zs) auto

lemma find_entry_map:
  assumes "\<forall>b \<in> set bs. b < 2 ^ 31" "n < 2 ^ 31"
  shows "find_entry (of_nat n) (map int bs) = length bs \<longleftrightarrow> n \<notin> set bs"
    "n \<in> set bs \<Longrightarrow> bs ! find_entry (of_nat n) (map int bs) = n"
proof -
  have eq: "(of_nat b = (of_nat n :: uint32)) = (b = n)" if "b < 2 ^ 31" for b
    using that assms(2) by (simp add: of_nat_inverse word_of_nat_eq_iff take_bit_nat_eq_self)
  show "find_entry (of_nat n) (map int bs) = length bs \<longleftrightarrow> n \<notin> set bs"
    using assms(1) by (induction bs) (auto simp: eq)
  show "n \<in> set bs \<Longrightarrow> bs ! find_entry (of_nat n) (map int bs) = n"
    using assms(1) by (induction bs) (auto simp: eq)
qed

text \<open>A block already in the transaction is absorbed; a new one is pinned and appended.\<close>

lemma log_write_law:
  assumes "log_ok h st dv S bs s" "bio_hand dv p (lbc s) b n" "1 \<le> outstanding s" "length bs + 1 < LOGSIZE" "\<not> in_log S n"
    and "vref (bio_view st dv (lbc s)) n + 1 < 2 ^ 32"
  shows "wp (log_write b s) (\<lambda>t. log_ok h st dv S (if n \<in> set bs then bs else bs @ [n]) t \<and>
     bio_view st dv (lbc t) = (if n \<in> set bs then bio_view st dv (lbc s) else v_pin n (bio_view st dv (lbc s))) \<and>
     bio_hand dv q (lbc t) = bio_hand dv q (lbc s) \<and> outstanding t = outstanding s \<and> committing t = committing s)"
proof -
  note o = log_okD [OF assms(1)]
  note d = handD [OF o(1) assms(2)]
  let ?c = "vcpu (bv (lbc s))" and ?zs = "lh_block s" and ?w = "b_blockno (bb (lbc s) b)"
  have m: "lh_n s = int (length bs)" "take (length bs) ?zs = map int bs" "length ?zs = LOGSIZE" using o(4) by (simp_all add: log_mem_def)
  have n: "n < capacity h 0" using bio_okD(5) [OF o(1) d(1)] d(2,3) by (simp add: buf_ok_def)
  have cap: "capacity h 0 < 2 ^ 31" "\<forall>b \<in> set bs. b < 2 ^ 31" using o(6) by (auto simp: blocks_ok_def)
  have w: "?w = of_nat n" by (rule at_block [OF d(3)])
  have wi: "sint ?w = int n" unfolding w by (rule sint_small [OF less_trans [OF n cap(1)]])
  define i where "i = find_entry ?w (map int bs)"
  note fe = find_entry_map [OF cap(2) less_trans [OF n cap(1)], folded w, folded i_def]
  show ?thesis
  proof (cases "n \<in> set bs")
    case True
    then have i: "i < length bs" "bs ! i = n" using fe find_entry_le [of ?w "map int bs"] by (simp_all add: i_def le_less)
    have "?zs ! i = int n" using arg_cong [OF m(2), of "\<lambda>l. l ! i"] i by simp
    then have same: "?zs[i := int n] = ?zs" by (metis list_update_id)
    obtain c where c: "cpu_ok c" "kbind (log_acquire s) (\<lambda>s. log_release (s\<lparr>lh_block := (lh_block s)[i := int n]\<rparr>)) = Inr (s\<lparr>lh_block := ?zs[i := int n], lbc := log_cpu c s\<rparr>)"
      using log_section [OF o(2,3), of "\<lambda>s. s\<lparr>lh_block := (lh_block s)[i := int n]\<rparr>"] by auto
    have "log_write b s = Inr (s\<lparr>lh_block := ?zs, lbc := log_cpu c s\<rparr>)"
      using c(2) assms(3,4) i(1) same
      by (simp add: log_write_def log_acquire_eff [OF o(2)] m(1,2) o(5) i_def [symmetric] wi LOGSIZE_def)
    then show ?thesis using log_ok_fields [OF assms(1) c(1), of "s\<lparr>lh_block := ?zs, lbc := log_cpu c s\<rparr>"] True by simp
  next
    case False
    then have i: "i = length bs" using fe(1) by simp
    let ?F = "(bufs (bv (lbc s)))(b := (bb (lbc s) b)\<lparr>b_refcnt := b_refcnt (bb (lbc s) b) + 1\<rparr>)"
    let ?l = "(l_lock s)\<lparr>locked := 1, lkcpu := Some (hart (bv (lbc s)))\<rparr>"
    obtain c where c: "cpu_ok c" "noff c = noff (push_off ?c)" "bpin b (log_cpu (push_off ?c) s) = Inr (with_bufs c ?F (lbc s))"
      by (rule bpin_eff [of "log_cpu (push_off ?c) s" b, unfolded with_bufs_sel]) (use bio_okD(2,3) [OF o(1)] in auto)
    let ?t = "s\<lparr>l_lock := ?l, lh_block := ?zs[length bs := int n], lbc := with_bufs c ?F (lbc s), lh_n := int (length bs) + 1\<rparr>"
    obtain e where e: "cpu_ok e" "log_release ?t = Inr (?t\<lparr>lbc := log_cpu e ?t, l_lock := l_lock s\<rparr>)"
      by (rule log_release_eff [of ?t "l_lock s"]) (use c o(2,3) in \<open>auto simp: cpu_ok_def\<close>)
    have "log_write b s = log_release ?t"
      using c(3) assms(3,4) i
      by (simp add: log_write_def log_acquire_eff [OF o(2)] m(1,2) o(5) i_def [symmetric] wi LOGSIZE_def Let_def)
    moreover have "unat (b_refcnt (bb (lbc s) b)) + 1 < 2 ^ 32" using d(10) assms(6) by simp
    then have u: "unat (b_refcnt (bb (lbc s) b) + 1) = vref (bio_view st dv (lbc s)) n + 1" using unat_step(1) d(10) by simp
    then have "b_refcnt (bb (lbc s) b) + 1 \<noteq> 0" by (metis unat_0 add_is_0 one_neq_zero)
    note r = ref_change [OF o(1) assms(2) this e(1)]
    have "log_mem dv S (bs @ [n]) (?t\<lparr>lbc := log_cpu e ?t, l_lock := l_lock s\<rparr>)"
      using o(4) assms(4) m by (simp add: log_mem_def take_Suc_conv_app_nth list_update_beyond)
    moreover have "blocks_ok (capacity h 0) S (bs @ [n])" using o(6) False n assms(4,5) by (auto simp: blocks_ok_def)
    ultimately show ?thesis using e(2) r u False assms(1) by (simp add: log_ok_def v_pin_def)
  qed
qed

end
