(* ===== verification/Fs_Blocks.thy ===== *)
theory Fs_Blocks
  imports Fs Log_Spec
begin

text \<open>
  What the file system relies on inside a transaction: blocks that are got, changed and logged, and put back.
  The log and the buffer cache below provide it.
\<close>

section \<open>The interface\<close>

text \<open>
  \<open>at D H L s\<close>: in the state \<open>s\<close> the blocks have the contents \<open>D\<close>, the running process holds the blocks \<open>H\<close>, and
  the transaction has logged the blocks \<open>L\<close>. \<open>hand s b n\<close>: the buffer \<open>b\<close> is the process's buffer of block \<open>n\<close>.
\<close>

locale logged_blocks =
  fixes rd :: "nat \<Rightarrow> 's \<Rightarrow> (nat \<times> 's) res"
    and lw :: "nat \<Rightarrow> 's \<Rightarrow> 's res"
    and rel :: "nat \<Rightarrow> 's \<Rightarrow> 's res"
    and upd :: "nat \<Rightarrow> block \<Rightarrow> 's \<Rightarrow> 's"
    and dat :: "'s \<Rightarrow> nat \<Rightarrow> block"
    and at :: "(nat \<Rightarrow> block) \<Rightarrow> nat set \<Rightarrow> nat set \<Rightarrow> 's \<Rightarrow> bool"
    and hand :: "'s \<Rightarrow> nat \<Rightarrow> nat \<Rightarrow> bool"
    and same :: "'s \<Rightarrow> 's \<Rightarrow> bool"
    and cap :: nat
    and reserved :: "nat \<Rightarrow> bool"
  assumes rd_law: "at D H L s \<Longrightarrow> n < cap \<Longrightarrow> n \<notin> H \<Longrightarrow> card H + card L < NBUF \<Longrightarrow>
      wp (rd n s) (\<lambda>(b, t). at D (insert n H) L t \<and> hand t b n \<and> same s t \<and> (\<forall>b' n'. hand s b' n' \<longrightarrow> hand t b' n'))"
    and lw_law: "at D H L s \<Longrightarrow> hand s b n \<Longrightarrow> length x = BSIZE \<Longrightarrow> \<not> reserved n \<Longrightarrow> card L + 1 < LOGSIZE \<Longrightarrow>
      wp (lw b (upd b x s)) (\<lambda>t. at (D(n := x)) H (insert n L) t \<and> same s t \<and> hand t = hand s)"
    and rel_law: "at D H L s \<Longrightarrow> hand s b n \<Longrightarrow>
      wp (rel b s) (\<lambda>t. at D (H - {n}) L t \<and> same s t \<and> (\<forall>b' n'. n' \<noteq> n \<longrightarrow> hand s b' n' \<longrightarrow> hand t b' n'))"
    and dat_law: "at D H L s \<Longrightarrow> hand s b n \<Longrightarrow> dat s b = D n"
    and size_law: "at D H L s \<Longrightarrow> n < cap \<Longrightarrow> length (D n) = BSIZE"
    and fin_law: "at D H L s \<Longrightarrow> finite L"
    and same_trans: "same s t \<Longrightarrow> same t u \<Longrightarrow> same s u"
begin

text \<open>Between two states only blocks have changed, and the buffers of the blocks \<open>H\<close> are still the process's.\<close>

definition keeps :: "nat set \<Rightarrow> 's \<Rightarrow> 's \<Rightarrow> bool" where
  "keeps H s t \<longleftrightarrow> same s t \<and> (\<forall>b n. n \<in> H \<longrightarrow> hand s b n \<longrightarrow> hand t b n)"

lemma kept_trans: "keeps H s t \<Longrightarrow> keeps H t u \<Longrightarrow> keeps H s u"
  by (auto simp: keeps_def intro: same_trans)

lemma keeps_hand: "keeps H s t \<Longrightarrow> n \<in> H \<Longrightarrow> hand s b n \<Longrightarrow> hand t b n"
  by (simp add: keeps_def)

lemma keeps_same: "keeps H s t \<Longrightarrow> same s t"
  by (simp add: keeps_def)

lemma keeps_mono: "keeps H s t \<Longrightarrow> G \<subseteq> H \<Longrightarrow> keeps G s t"
  by (auto simp: keeps_def)

text \<open>The laws as rules for the weakest precondition.\<close>

lemma wp_rd:
  assumes "at D H L s" "n < cap" "n \<notin> H" "card H + card L < NBUF"
    and "\<And>b t. at D (insert n H) L t \<Longrightarrow> hand t b n \<Longrightarrow> dat t b = D n \<Longrightarrow> keeps H s t \<Longrightarrow> Q (b, t)"
  shows "wp (rd n s) Q"
  using rd_law [OF assms(1-4)] by (rule wp_mono) (auto simp: keeps_def intro!: assms(5) dest: dat_law)

lemma wp_lw:
  assumes "at D H L s" "hand s b n" "length x = BSIZE" "\<not> reserved n" "card L + 1 < LOGSIZE"
    and "\<And>t. at (D(n := x)) H (insert n L) t \<Longrightarrow> keeps H s t \<Longrightarrow> hand t b n \<Longrightarrow> Q t"
  shows "wp (lw b (upd b x s)) Q"
  using lw_law [OF assms(1-5)] by (rule wp_mono) (use assms(2) in \<open>auto simp: keeps_def intro!: assms(6)\<close>)

lemma wp_rel:
  assumes "at D (insert n H) L s" "hand s b n" "n \<notin> H"
    and "\<And>t. at D H L t \<Longrightarrow> keeps H s t \<Longrightarrow> Q t"
  shows "wp (rel b s) Q"
  using rel_law [OF assms(1,2)] by (rule wp_mono) (use assms(3) in \<open>auto simp: keeps_def intro!: assms(4), metis\<close>)

text \<open>Looking at one block, and changing one block.\<close>

lemma wp_peek:
  assumes "at D H L s" "n < cap" "n \<notin> H" "card H + card L < NBUF"
    and "\<And>t. at D H L t \<Longrightarrow> keeps H s t \<Longrightarrow> Q t" "\<And>b t. dat t b = D n \<Longrightarrow> wp (rel b t) Q \<Longrightarrow> R (b, t)"
  shows "wp (rd n s) R"
  by (rule wp_rd [OF assms(1-4)], rule assms(6), assumption, erule wp_rel, assumption, rule assms(3), rule assms(5))
    (auto intro: kept_trans)

lemma wp_change:
  assumes "at D H L s" "n < cap" "n \<notin> H" "card H + card L < NBUF" "\<not> reserved n" "card L + 1 < LOGSIZE" "length x = BSIZE"
    and "\<And>t. at (D(n := x)) H (insert n L) t \<Longrightarrow> keeps H s t \<Longrightarrow> Q t"
    and "\<And>b t. dat t b = D n \<Longrightarrow> wp (lw b (upd b x t)) (\<lambda>u. wp (rel b u) Q) \<Longrightarrow> R (b, t)"
  shows "wp (rd n s) R"
proof (rule wp_rd [OF assms(1-4)], rule assms(9), assumption)
  fix b t
  assume t: "at D (insert n H) L t" "hand t b n" "keeps H s t"
  show "wp (lw b (upd b x t)) (\<lambda>u. wp (rel b u) Q)"
  proof (rule wp_lw [OF t(1,2) assms(7,5,6)])
    fix u
    assume u: "at (D(n := x)) (insert n H) (insert n L) u" "keeps (insert n H) t u" "hand u b n"
    show "wp (rel b u) Q"
      by (rule wp_rel [OF u(1,3) assms(3)], rule assms(8), assumption)
        (rule kept_trans [OF kept_trans [OF t(3) keeps_mono [OF u(2)]]], auto)
  qed
qed

end

section \<open>The file system's blocks\<close>

definition tx_at :: "'m hw \<Rightarrow> ('m \<Rightarrow> int \<Rightarrow> int \<Rightarrow> block) \<Rightarrow> uint32 \<Rightarrow> nat \<Rightarrow> int \<Rightarrow> (nat \<Rightarrow> block) \<Rightarrow> nat set \<Rightarrow> nat set \<Rightarrow> 'm fs \<Rightarrow> bool" where
  "tx_at h st dv S p D H L s \<longleftrightarrow>
     (\<exists>bs. L = set bs \<and> log_ok h st dv S bs (flog s)) \<and> 1 \<le> outstanding (flog s) \<and> committing (flog s) = 0 \<and> finite H \<and>
     (let v = bio_view st dv (fs_cache s) in vcur v = D \<and> (\<forall>n. vheld v n = (if n \<in> H then Some p else None)) \<and>
        (\<forall>n. vref v n = (if n \<in> L then 1 else 0) + (if n \<in> H then 1 else 0)) \<and> (\<forall>n \<in> H - L. vcur v n = vdisk v n))"

definition fs_same :: "'m fs \<Rightarrow> 'm fs \<Rightarrow> bool" where
  "fs_same s t \<longleftrightarrow> itable t = itable s \<and> fsb t = fsb s \<and> it_lock t = it_lock s \<and> outstanding (flog t) = outstanding (flog s)"

lemma fs_same_trans: "fs_same s t \<Longrightarrow> fs_same t u \<Longrightarrow> fs_same s u"
  by (simp add: fs_same_def)

lemma log_ok_card: "log_ok h st dv S bs s \<Longrightarrow> card (set bs) = length bs \<and> length bs < LOGSIZE"
  by (simp add: log_ok_def blocks_ok_def distinct_card)

lemma log_ok_cache:
  assumes "log_ok h st dv S bs s" "bio_ok h st dv c" "vdisk (bio_view st dv c) = vdisk (bio_view st dv (lbc s))"
    and "\<And>n. n \<in> set bs \<Longrightarrow> 0 < vref (bio_view st dv c) n"
  shows "log_ok h st dv S bs (s\<lparr>lbc := c\<rparr>)"
  using assms by (simp add: log_ok_def)

lemma fs_bread_law:
  assumes "tx_at h st dv S p D H L s" "n < capacity h 0" "n \<notin> H" "card H + card L < NBUF"
  shows "wp (fs_bread h p dv (of_nat n) s) (\<lambda>(b, t). tx_at h st dv S p D (insert n H) L t \<and> bio_hand dv p (fs_cache t) b n \<and> fs_same s t \<and>
    (\<forall>b' n'. bio_hand dv p (fs_cache s) b' n' \<longrightarrow> bio_hand dv p (fs_cache t) b' n'))"
proof -
  let ?v = "bio_view st dv (fs_cache s)"
  obtain bs where bs: "L = set bs" "log_ok h st dv S bs (flog s)" using assms(1) by (auto simp: tx_at_def)
  have v: "vcur ?v = D" "\<And>n. vheld ?v n = (if n \<in> H then Some p else None)" "\<And>n. vref ?v n = (if n \<in> L then 1 else 0) + (if n \<in> H then 1 else 0)"
    "\<And>n. n \<in> H \<Longrightarrow> n \<notin> L \<Longrightarrow> vcur ?v n = vdisk ?v n" "finite H" using assms(1) by (auto simp: tx_at_def Let_def)
  note ok = log_okD(1) [OF bs(2)]
  have "{m. 0 < vref ?v m} = H \<union> L" by (auto simp: v(3))
  then have "card {m. 0 < vref ?v m} < NBUF" using assms(4) card_Un_le [of H L] by simp
  then have get: "can_get (capacity h 0) n ?v" using assms(2,3) by (simp add: can_get_def v)
  have clean: "n \<notin> L \<Longrightarrow> vcur ?v n = vdisk ?v n" using bc.idle_law [OF ok, of n] assms(3) by (simp add: v)
  show ?thesis unfolding fs_bread_def wp_kbind
  proof (rule wp_mono [OF bc.rd_law [OF ok get, of p]], clarsimp)
    fix b c
    assume c: "bio_ok h st dv c" "bio_view st dv c = v_get p n ?v" "bio_hand dv p c b n" "\<forall>b' n'. bio_hand dv p (fs_cache s) b' n' \<longrightarrow> bio_hand dv p c b' n'"
    have l: "log_ok h st dv S bs ((flog s)\<lparr>lbc := c\<rparr>)"
      by (rule log_ok_cache [OF bs(2) c(1)]) (use bs(1) in \<open>auto simp: c(2) v_get_def v(3)\<close>)
    have "tx_at h st dv S p D (insert n H) L (set_cache c s)"
      unfolding tx_at_def using l bs(1) v clean assms(1,3) by (auto simp: set_cache_def Let_def c(2) v_get_def tx_at_def)
    then show "tx_at h st dv S p D (insert n H) L (set_cache c s) \<and> bio_hand dv p (fs_cache (set_cache c s)) b n \<and> fs_same s (set_cache c s) \<and>
       (\<forall>b' n'. bio_hand dv p (fs_cache s) b' n' \<longrightarrow> bio_hand dv p (fs_cache (set_cache c s)) b' n')"
      using c by (simp add: set_cache_def fs_same_def)
  qed
qed

lemma tx_atD:
  assumes "tx_at h st dv S p D H L s"
  obtains bs where "L = set bs" "log_ok h st dv S bs (flog s)" "vcur (bio_view st dv (fs_cache s)) = D"
    "\<And>n. vheld (bio_view st dv (fs_cache s)) n = (if n \<in> H then Some p else None)"
    "\<And>n. vref (bio_view st dv (fs_cache s)) n = (if n \<in> L then 1 else 0) + (if n \<in> H then 1 else 0)"
    "\<And>n. n \<in> H \<Longrightarrow> n \<notin> L \<Longrightarrow> D n = vdisk (bio_view st dv (fs_cache s)) n" "finite H" "1 \<le> outstanding (flog s)" "committing (flog s) = 0"
  using assms by (auto simp: tx_at_def Let_def)

lemma fs_log_write_law:
  assumes "tx_at h st dv S p D H L s" "bio_hand dv p (fs_cache s) b n" "length x = BSIZE" "\<not> in_log S n" "card L + 1 < LOGSIZE"
  shows "wp (fs_log_write b (set_bdata b x s)) (\<lambda>t. tx_at h st dv S p (D(n := x)) H (insert n L) t \<and> fs_same s t \<and>
    bio_hand dv p (fs_cache t) = bio_hand dv p (fs_cache s))"
proof (rule tx_atD [OF assms(1)])
  fix bs
  let ?v = "bio_view st dv (fs_cache s)"
  let ?s = "set_bdata b x s"
  assume bs: "L = set bs" "log_ok h st dv S bs (flog s)" and v: "vcur ?v = D" "\<And>n. vheld ?v n = (if n \<in> H then Some p else None)"
    "\<And>n. vref ?v n = (if n \<in> L then 1 else 0) + (if n \<in> H then 1 else 0)" "\<And>n. n \<in> H \<Longrightarrow> n \<notin> L \<Longrightarrow> D n = vdisk ?v n"
    and o: "finite H" "1 \<le> outstanding (flog s)" "committing (flog s) = 0"
  note ok = log_okD(1) [OF bs(2)]
  note u = bc.upd_law [OF ok assms(2,3)]
  have n: "n \<in> H" using handD(11) [OF ok assms(2)] v(2) by (auto split: if_splits)
  have l: "log_ok h st dv S bs (flog ?s)"
    unfolding set_bdata_def set_cache_def using log_ok_cache [OF bs(2), of "set_data b x (fs_cache s)"] u bs by (auto simp: v_set_def v(3))
  have hd: "bio_hand dv p (fs_cache ?s) b n" and vs: "bio_view st dv (fs_cache ?s) = v_set n x ?v" and hs: "bio_hand dv p (fs_cache ?s) = bio_hand dv p (fs_cache s)"
    using u assms(2) by (simp_all add: set_bdata_def set_cache_def)
  have r: "vref (bio_view st dv (fs_cache ?s)) n + 1 < 2 ^ 32" "1 \<le> outstanding (flog ?s)" "length bs + 1 < LOGSIZE"
    using o assms(5) log_ok_card [OF bs(2)] bs(1) by (simp_all add: vs v_set_def v(3), simp add: set_bdata_def set_cache_def)
  show ?thesis unfolding fs_log_write_def wp_kbind
  proof (rule wp_mono [OF log_write_law [OF l hd r(2,3) assms(4) r(1), of p]], clarsimp, intro conjI, goal_cases)
    case (1 t)
    then show ?case unfolding tx_at_def using bs(1) v o n
      by (auto simp: Let_def vs v_set_def v_pin_def intro!: exI [of _ "if n \<in> set bs then bs else bs @ [n]"] split: if_splits)
        (auto simp: set_bdata_def set_cache_def)
  next
    case (2 t)
    then show ?case by (simp add: fs_same_def) (simp add: set_bdata_def set_cache_def)
  next
    case (3 t)
    then show ?case using hs by simp
  qed
qed

lemma fs_brelse_law:
  assumes "tx_at h st dv S p D H L s" "bio_hand dv p (fs_cache s) b n"
  shows "wp (fs_brelse p b s) (\<lambda>t. tx_at h st dv S p D (H - {n}) L t \<and> fs_same s t \<and>
    (\<forall>b' n'. n' \<noteq> n \<longrightarrow> bio_hand dv p (fs_cache s) b' n' \<longrightarrow> bio_hand dv p (fs_cache t) b' n'))"
proof (rule tx_atD [OF assms(1)])
  fix bs
  let ?v = "bio_view st dv (fs_cache s)"
  assume bs: "L = set bs" "log_ok h st dv S bs (flog s)" and v: "vcur ?v = D" "\<And>n. vheld ?v n = (if n \<in> H then Some p else None)"
    "\<And>n. vref ?v n = (if n \<in> L then 1 else 0) + (if n \<in> H then 1 else 0)" "\<And>n. n \<in> H \<Longrightarrow> n \<notin> L \<Longrightarrow> D n = vdisk ?v n"
    and o: "finite H" "1 \<le> outstanding (flog s)" "committing (flog s) = 0"
  note ok = log_okD(1) [OF bs(2)]
  have n: "n \<in> H" using handD(11) [OF ok assms(2)] v(2) by (auto split: if_splits)
  have cl: "vref ?v n = 1 \<longrightarrow> vcur ?v n = vdisk ?v n" using v n by (auto split: if_splits)
  show ?thesis unfolding fs_brelse_def wp_kbind
  proof (rule wp_mono [OF bc.rel_law [OF ok assms(2) cl]], clarsimp, intro conjI, goal_cases)
    case (1 c)
    have l: "log_ok h st dv S bs ((flog s)\<lparr>lbc := c\<rparr>)"
      by (rule log_ok_cache [OF bs(2) 1(1)]) (use bs(1) n in \<open>auto simp: 1(2) v_put_def v(3)\<close>)
    then show ?case unfolding tx_at_def using bs(1) v o n by (auto simp: set_cache_def Let_def 1(2) v_put_def)
  qed (auto simp: set_cache_def fs_same_def)
qed

lemma fs_block_sizes:
  assumes "tx_at h st dv S p D H L s" "n < capacity h 0"
  shows "length (D n) = BSIZE"
  by (rule tx_atD [OF assms(1)]) (use bc.size_law [OF log_okD(1) assms(2)] in auto)

interpretation lb: logged_blocks "\<lambda>n. fs_bread h p dv (of_nat n)" fs_log_write "fs_brelse p" set_bdata bdata "tx_at h st dv S p"
  "\<lambda>s. bio_hand dv p (fs_cache s)" fs_same "capacity h 0" "in_log S"
proof (unfold_locales, goal_cases)
  case (4 D H L s b n)
  then show ?case by (auto elim!: tx_atD dest: bc.dat_law [OF log_okD(1)] simp: bdata_def)
next
  case 6
  then show ?case by (auto simp: tx_at_def)
next
  case 7
  then show ?case by (simp add: fs_same_def)
qed (rule fs_bread_law fs_log_write_law fs_brelse_law fs_block_sizes; assumption)+

end
