(* ===== verification/Fs_Alloc.thy ===== *)
theory Fs_Alloc
  imports Fs_Blocks
begin

text \<open>The block allocator: what \<^verbatim>\<open>balloc\<close> returns was free, and is marked and cleared.\<close>

section \<open>Layout\<close>

text \<open>The block of the free map with the bit of block \<open>b\<close>, and the bit.\<close>

definition map_blk :: "superblock \<Rightarrow> nat \<Rightarrow> nat" where
  "map_blk sb b = unat (sb_bmapstart sb) + b div BPB"

definition used :: "superblock \<Rightarrow> (nat \<Rightarrow> block) \<Rightarrow> nat \<Rightarrow> bool" where
  "used sb D b \<longleftrightarrow> D (map_blk sb b) ! (b mod BPB div 8) AND bit_mask b \<noteq> 0"

definition inode_blk :: "superblock \<Rightarrow> nat \<Rightarrow> nat" where
  "inode_blk sb i = unat (sb_inodestart sb) + i div IPB"

definition is_map :: "superblock \<Rightarrow> nat \<Rightarrow> bool" where
  "is_map sb n \<longleftrightarrow> (\<exists>b < unat (sb_size sb). n = map_blk sb b)"

definition is_inodes :: "superblock \<Rightarrow> nat \<Rightarrow> bool" where
  "is_inodes sb n \<longleftrightarrow> (\<exists>i < unat (sb_ninodes sb). n = inode_blk sb i)"

text \<open>Blocks that no file may own: block 0, the log, the free map and the inodes.\<close>

definition meta :: "nat \<Rightarrow> superblock \<Rightarrow> nat \<Rightarrow> bool" where
  "meta S sb n \<longleftrightarrow> n = 0 \<or> in_log S n \<or> is_map sb n \<or> is_inodes sb n"

definition layout :: "nat \<Rightarrow> nat \<Rightarrow> superblock \<Rightarrow> bool" where
  "layout cap S sb \<longleftrightarrow> unat (sb_size sb) \<le> cap \<and> cap < 2 ^ 31 \<and>
     (\<forall>n. is_map sb n \<longrightarrow> n < cap \<and> \<not> in_log S n \<and> \<not> is_inodes sb n) \<and> (\<forall>n. is_inodes sb n \<longrightarrow> 0 < n \<and> n < cap \<and> \<not> in_log S n)"

definition meta_used :: "nat \<Rightarrow> superblock \<Rightarrow> (nat \<Rightarrow> block) \<Rightarrow> bool" where
  "meta_used S sb D \<longleftrightarrow> (\<forall>b < unat (sb_size sb). meta S sb b \<longrightarrow> used sb D b)"

lemma BBLOCK_nat:
  assumes "layout cap S sb" "b < unat (sb_size sb)"
  shows "BBLOCK b sb = of_nat (map_blk sb b)" "map_blk sb b < cap" "\<not> in_log S (map_blk sb b)"
proof -
  show "BBLOCK b sb = of_nat (map_blk sb b)" by (simp add: BBLOCK_def map_blk_def)
  have "is_map sb (map_blk sb b)" using assms(2) by (auto simp: is_map_def)
  then show "map_blk sb b < cap" "\<not> in_log S (map_blk sb b)" using assms(1) by (auto simp: layout_def)
qed

section \<open>Bits\<close>

lemma bit_mask_mod: "bit_mask (b mod BPB) = bit_mask b"
proof -
  have "b mod BPB mod 8 = b mod 8" by (rule mod_mod_cancel) (simp add: BPB_def BSIZE_def)
  then show ?thesis by (simp add: bit_mask_def)
qed

lemma mask_bit: "w AND bit_mask b \<noteq> 0 \<longleftrightarrow> bit w (b mod 8)"
proof -
  have "b mod 8 < 8" by simp
  then have "(w AND bit_mask b) = (if bit w (b mod 8) then bit_mask b else 0)"
    by (intro bit_word_eqI) (auto simp: bit_simps bit_mask_def)
  moreover have "bit_mask b \<noteq> 0"
  proof
    assume "bit_mask b = 0"
    then have "bit (bit_mask b) (b mod 8) = bit (0 :: uchar) (b mod 8)" by simp
    then show False by (simp add: bit_mask_def bit_simps)
  qed
  ultimately show ?thesis by simp
qed

lemma mask_set: "bit (w OR bit_mask a) (b mod 8) \<longleftrightarrow> bit w (b mod 8) \<or> a mod 8 = b mod 8"
  by (auto simp: bit_simps bit_mask_def)

lemma used_bit: "used sb D b \<longleftrightarrow> bit (D (map_blk sb b) ! (b mod BPB div 8)) (b mod 8)"
  by (simp add: used_def mask_bit)

text \<open>Setting the bit of one block.\<close>

definition mark :: "superblock \<Rightarrow> nat \<Rightarrow> (nat \<Rightarrow> block) \<Rightarrow> (nat \<Rightarrow> block)" where
  "mark sb a D = (let m = map_blk sb a; k = a mod BPB div 8 in D(m := (D m)[k := D m ! k OR bit_mask a]))"

lemma same_bit:
  assumes "a div BPB = b div BPB" "a mod BPB div 8 = b mod BPB div 8" "a mod 8 = b mod 8"
  shows "a = b"
proof -
  have m: "x mod BPB mod 8 = x mod 8" for x :: nat by (rule mod_mod_cancel) (simp add: BPB_def BSIZE_def)
  have "a mod BPB = b mod BPB" using assms(2,3) by (metis m div_mult_mod_eq)
  then show ?thesis using assms(1) by (metis div_mult_mod_eq)
qed

lemma used_mark:
  assumes "length (D (map_blk sb a)) = BSIZE"
  shows "used sb (mark sb a D) b \<longleftrightarrow> used sb D b \<or> b = a"
proof -
  have k: "x mod BPB div 8 < BSIZE" for x :: nat using mod_less_divisor [of BPB x] by (simp add: BPB_def BSIZE_def)
  have bit: "mark sb a D (map_blk sb b) ! (b mod BPB div 8) =
     (if a div BPB = b div BPB \<and> a mod BPB div 8 = b mod BPB div 8 then D (map_blk sb b) ! (b mod BPB div 8) OR bit_mask a
      else D (map_blk sb b) ! (b mod BPB div 8))"
    using assms k [of a] by (auto simp: mark_def Let_def map_blk_def nth_list_update)
  show ?thesis unfolding used_bit bit using same_bit [of a b] by (auto simp: mask_set)
qed

lemma used_clear: "\<not> is_map sb n \<Longrightarrow> b < unat (sb_size sb) \<Longrightarrow> used sb (D(n := x)) b = used sb D b"
  by (auto simp: used_def is_map_def)

section \<open>Allocation\<close>

text \<open>What an allocation does to the disk: the block \<open>a\<close> is marked and filled with zeros.\<close>

definition allocated :: "superblock \<Rightarrow> nat \<Rightarrow> (nat \<Rightarrow> block) \<Rightarrow> (nat \<Rightarrow> block)" where
  "allocated sb a D = (mark sb a D)(a := replicate BSIZE 0)"

lemma map_pos:
  assumes "b mod BPB = 0" "i < BPB"
  shows "(b + i) div BPB = b div BPB" "(b + i) mod BPB = i"
proof -
  have "b = BPB * (b div BPB)" using assms(1) by (metis mult_div_mod_eq add_0_right)
  then show "(b + i) div BPB = b div BPB" "(b + i) mod BPB = i"
    using assms(2) by (metis add.commute div_mult_self2 div_less mod_mult_self2 mod_less add_0 less_nat_zero_code)+
qed

lemma find_clear_bit:
  assumes "b mod BPB = 0" "n \<le> BPB"
  shows "find_clear (D (map_blk sb b)) n = find (\<lambda>i. \<not> used sb D (b + i)) [0..<n]"
  unfolding find_clear_def using assms map_pos [OF assms(1)]
  by (intro find_cong) (auto simp: used_def map_blk_def bit_mask_mod [of "b + _", symmetric])

lemma wp_bzero:
  assumes "tx_at h st dv S p D H L s" "n < capacity h 0" "n \<notin> H" "card H + card L < NBUF" "\<not> in_log S n" "card L + 1 < LOGSIZE"
    and "\<And>t. tx_at h st dv S p (D(n := replicate BSIZE 0)) H (insert n L) t \<Longrightarrow> lb.keeps dv p H s t \<Longrightarrow> Q t"
  shows "wp (bzero h p dv (of_nat n) s) Q"
  unfolding bzero_def wp_kbind
  by (rule lb.wp_change [OF assms(1-6), where x = "replicate BSIZE 0" and Q = Q]) (auto intro: assms(7))

lemma same_fsb: "lb.keeps dv p H s t \<Longrightarrow> fsb t = fsb s" "lb.keeps dv p H s t \<Longrightarrow> itable t = itable s"
  by (auto dest: lb.keeps_same simp: fs_same_def)

lemma free_not_meta: "meta_used S sb D \<Longrightarrow> a < unat (sb_size sb) \<Longrightarrow> \<not> used sb D a \<Longrightarrow> \<not> meta S sb a"
  by (auto simp: meta_used_def)

text \<open>The loop from the block \<open>b\<close> of the map on, when all blocks before are in use.\<close>

lemma wp_balloc_loop:
  assumes "tx_at h st dv S p D H L s" "fsb s = sb" "layout (capacity h 0) S sb" "meta_used S sb D"
    and "\<And>n. n \<in> H \<Longrightarrow> \<not> is_map sb n \<and> used sb D n" "card H + card L + 1 < NBUF" "card L + 2 < LOGSIZE"
    and "b mod BPB = 0" "\<And>c. c < b \<Longrightarrow> c < unat (sb_size sb) \<Longrightarrow> used sb D c"
    and full: "\<And>t. (\<And>c. c < unat (sb_size sb) \<Longrightarrow> used sb D c) \<Longrightarrow> tx_at h st dv S p D H L t \<Longrightarrow> lb.keeps dv p H s t \<Longrightarrow> Q (0, t)"
    and found: "\<And>a t. a < unat (sb_size sb) \<Longrightarrow> \<not> used sb D a \<Longrightarrow> \<not> meta S sb a \<Longrightarrow>
       tx_at h st dv S p (allocated sb a D) H (insert a (insert (map_blk sb a) L)) t \<Longrightarrow> lb.keeps dv p H s t \<Longrightarrow> Q (of_nat a, t)"
  shows "wp (balloc_loop h p dv (unat (sb_size sb)) b s) Q"
  using assms(1,2,8,9) full found
proof (induction "unat (sb_size sb) - b" arbitrary: b s rule: less_induct)
  case less
  show ?case
  proof (cases "b < unat (sb_size sb)")
    case False
    moreover have "lb.keeps dv p H s s" by (simp add: lb.keeps_def fs_same_def)
    ultimately show ?thesis using less.prems(1,4,5) by (subst balloc_loop.simps) simp
  next
    case True
    note m = BBLOCK_nat [OF assms(3) True]
    let ?n = "min BPB (unat (sb_size sb) - b)"
    have H: "map_blk sb b \<notin> H" using assms(5) True by (auto simp: is_map_def)
    have nb: "card H + card L < NBUF" using assms(6) by simp
    have cl: "find_clear (D (map_blk sb b)) ?n = find (\<lambda>i. \<not> used sb D (b + i)) [0..<?n]"
      by (rule find_clear_bit [OF less.prems(3)]) simp
    show ?thesis
    proof (cases "find_clear (D (map_blk sb b)) ?n")
      case None
      then have all: "used sb D (b + i)" if "i < ?n" for i using that by (auto simp: cl find_None_iff)
      have up: "used sb D c" if "c < b + BPB" "c < unat (sb_size sb)" for c
      proof (cases "c < b")
        case False
        then have "c - b < BPB" "c - b < unat (sb_size sb) - b" using that by linarith+
        then show ?thesis using all [of "c - b"] False by simp
      qed (use less.prems(4) that in simp)
      have more: "wp (balloc_loop h p dv (unat (sb_size sb)) (b + BPB) t) Q" if t: "tx_at h st dv S p D H L t" "lb.keeps dv p H s t" for t
        by (rule less.hyps [OF _ t(1)])
          (use True less.prems t(2) up same_fsb(1) [OF t(2)] lb.kept_trans [OF t(2)] in \<open>auto simp: BPB_def BSIZE_def\<close>)
      show ?thesis using True less.prems(2)
        by (subst balloc_loop.simps, simp add: m(1))
          (rule lb.wp_peek [OF less.prems(1) m(2) H nb more], auto simp: None)
    next
      case (Some bi)
      let ?a = "b + bi" and ?x = "(D (map_blk sb b))[bi div 8 := D (map_blk sb b) ! (bi div 8) OR bit_mask bi]"
      have bi: "bi < ?n" "\<not> used sb D ?a" using Some by (auto simp: cl find_Some_iff)
      then have a: "?a < unat (sb_size sb)" "?a < capacity h 0" using assms(3) by (auto simp: layout_def)
      note pos = map_pos [OF less.prems(3), of bi]
      have mb: "map_blk sb ?a = map_blk sb b" "?a mod BPB = bi" using pos bi(1) by (simp_all add: map_blk_def)
      have nm: "\<not> meta S sb ?a" by (rule free_not_meta [OF assms(4) a(1) bi(2)])
      then have na: "?a \<notin> H" "\<not> in_log S ?a" using assms(5) bi(2) by (auto simp: meta_def)
      have mk: "D(map_blk sb b := ?x) = mark sb ?a D" using mb bit_mask_mod [of ?a] by (simp add: mark_def Let_def)
      have len: "length ?x = BSIZE" using lb.size_law [OF less.prems(1) m(2)] by simp
      have L: "card (insert (map_blk sb b) L) \<le> card L + 1" using lb.fin_law [OF less.prems(1)] by (simp add: card_insert_if)
      have more: "wp (bzero h p dv (of_nat ?a) t) (\<lambda>t. Q (of_nat ?a, t))"
        if t: "tx_at h st dv S p (D(map_blk sb b := ?x)) H (insert (map_blk sb b) L) t" "lb.keeps dv p H s t" for t
      proof (rule wp_bzero [OF t(1) a(2) na(1) _ na(2)])
        fix u
        assume u: "tx_at h st dv S p ((D(map_blk sb b := ?x))(?a := replicate BSIZE 0)) H (insert ?a (insert (map_blk sb b) L)) u" "lb.keeps dv p H t u"
        show "Q (of_nat ?a, u)"
          by (rule less.prems(6) [OF a(1) bi(2) nm _ lb.kept_trans [OF t(2) u(2)]]) (use u(1) in \<open>simp add: mk allocated_def mb(1)\<close>)
      qed (use L assms(6,7) in auto)
      show ?thesis using True less.prems(2)
        by (subst balloc_loop.simps, simp add: m(1))
          (rule lb.wp_change [OF less.prems(1) m(2) H nb m(3) _ len more], use assms(7) in \<open>auto simp: Some\<close>)
    qed
  qed
qed

lemma wp_balloc:
  assumes "tx_at h st dv S p D H L s" "layout (capacity h 0) S (fsb s)" "meta_used S (fsb s) D"
    and "\<And>n. n \<in> H \<Longrightarrow> \<not> is_map (fsb s) n \<and> used (fsb s) D n" "card H + card L + 1 < NBUF" "card L + 2 < LOGSIZE"
    and "\<And>t. (\<And>c. c < unat (sb_size (fsb s)) \<Longrightarrow> used (fsb s) D c) \<Longrightarrow> tx_at h st dv S p D H L t \<Longrightarrow> lb.keeps dv p H s t \<Longrightarrow> Q (0, t)"
    and "\<And>a t. a < unat (sb_size (fsb s)) \<Longrightarrow> \<not> used (fsb s) D a \<Longrightarrow> \<not> meta S (fsb s) a \<Longrightarrow>
       tx_at h st dv S p (allocated (fsb s) a D) H (insert a (insert (map_blk (fsb s) a) L)) t \<Longrightarrow> lb.keeps dv p H s t \<Longrightarrow> Q (of_nat a, t)"
  shows "wp (balloc h p dv s) Q"
  unfolding balloc_def by (rule wp_balloc_loop [OF assms(1) refl assms(2-6)]) (use assms(7,8) in auto)

text \<open>The disk after an allocation.\<close>

lemma allocated_disk:
  assumes "\<not> meta S sb a" "a < unat (sb_size sb)" "length (D (map_blk sb a)) = BSIZE"
  shows "allocated sb a D a = replicate BSIZE 0" "\<not> is_map sb b \<Longrightarrow> b \<noteq> a \<Longrightarrow> allocated sb a D b = D b"
    "b < unat (sb_size sb) \<Longrightarrow> used sb (allocated sb a D) b \<longleftrightarrow> used sb D b \<or> b = a"
proof -
  show "allocated sb a D a = replicate BSIZE 0" by (simp add: allocated_def)
  show "allocated sb a D b = D b" if "\<not> is_map sb b" "b \<noteq> a" using that assms(2) by (auto simp: allocated_def mark_def Let_def is_map_def)
  show "used sb (allocated sb a D) b \<longleftrightarrow> used sb D b \<or> b = a" if "b < unat (sb_size sb)"
    using assms(1) that by (simp add: allocated_def used_clear meta_def used_mark [of D sb a, OF assms(3)])
qed

end
