(* ===== verification/Fs_File.thy ===== *)
theory Fs_File
  imports Fs_Alloc
begin

text \<open>Files as lists of bytes: \<^verbatim>\<open>bmap\<close>, \<^verbatim>\<open>readi\<close> and \<^verbatim>\<open>writei\<close> against the content of the blocks they use.\<close>

section \<open>The blocks of a file\<close>

definition ind_blk :: "inode \<Rightarrow> nat" where
  "ind_blk x = unat (i_addrs x ! NDIRECT)"

text \<open>The block with the \<open>k\<close>-th part of the file, 0 when it has none.\<close>

definition file_addr :: "(nat \<Rightarrow> block) \<Rightarrow> inode \<Rightarrow> nat \<Rightarrow> nat" where
  "file_addr D x k =
     (if k < NDIRECT then unat (i_addrs x ! k) else if ind_blk x = 0 then 0 else unat (get32 (k - NDIRECT) (D (ind_blk x))))"

definition data_blk :: "nat \<Rightarrow> superblock \<Rightarrow> (nat \<Rightarrow> block) \<Rightarrow> nat \<Rightarrow> bool" where
  "data_blk S sb D b \<longleftrightarrow> b < unat (sb_size sb) \<and> \<not> meta S sb b \<and> used sb D b"

text \<open>A file owns its blocks: they are data blocks in use, and all different.\<close>

definition file_ok :: "nat \<Rightarrow> superblock \<Rightarrow> (nat \<Rightarrow> block) \<Rightarrow> inode \<Rightarrow> bool" where
  "file_ok S sb D x \<longleftrightarrow> length (i_addrs x) = NDIRECT + 1 \<and> (ind_blk x \<noteq> 0 \<longrightarrow> data_blk S sb D (ind_blk x)) \<and>
     (\<forall>k < MAXFILE. file_addr D x k \<noteq> 0 \<longrightarrow> data_blk S sb D (file_addr D x k) \<and> file_addr D x k \<noteq> ind_blk x \<and>
        (\<forall>j < MAXFILE. j \<noteq> k \<longrightarrow> file_addr D x j \<noteq> file_addr D x k))"

lemma file_okD:
  assumes "file_ok S sb D x"
  shows "length (i_addrs x) = NDIRECT + 1" "ind_blk x \<noteq> 0 \<Longrightarrow> data_blk S sb D (ind_blk x)"
    "k < MAXFILE \<Longrightarrow> file_addr D x k \<noteq> 0 \<Longrightarrow> data_blk S sb D (file_addr D x k)"
    "k < MAXFILE \<Longrightarrow> file_addr D x k \<noteq> 0 \<Longrightarrow> file_addr D x k \<noteq> ind_blk x"
    "k < MAXFILE \<Longrightarrow> j < MAXFILE \<Longrightarrow> file_addr D x k \<noteq> 0 \<Longrightarrow> j \<noteq> k \<Longrightarrow> file_addr D x j \<noteq> file_addr D x k"
  using assms by (auto simp: file_ok_def)

lemma file_addr_cong: "D' (ind_blk x) = D (ind_blk x) \<Longrightarrow> file_addr D' x = file_addr D x"
  by (auto simp: file_addr_def fun_eq_iff)

text \<open>A change of blocks that keeps the indirect block and the free map keeps the file's blocks.\<close>

lemma file_ok_cong:
  assumes "file_ok S sb D x" "ind_blk x \<noteq> 0 \<Longrightarrow> D' (ind_blk x) = D (ind_blk x)" "\<And>b. b < unat (sb_size sb) \<Longrightarrow> used sb D b \<Longrightarrow> used sb D' b"
  shows "file_ok S sb D' x" "file_addr D' x = file_addr D x"
proof -
  show a: "file_addr D' x = file_addr D x" using assms(2) by (auto simp: file_addr_def fun_eq_iff)
  show "file_ok S sb D' x" using assms(1,3) unfolding file_ok_def a data_blk_def by auto
qed

text \<open>The file gets its indirect block \<open>a\<close>.\<close>

lemma new_indirect:
  assumes "file_ok S sb D x" "ind_blk x = 0" "a < unat (sb_size sb)" "\<not> used sb D a" "\<not> meta S sb a" "length (D (map_blk sb a)) = BSIZE" "a < 2 ^ 32"
  defines "y \<equiv> x\<lparr>i_addrs := (i_addrs x)[NDIRECT := of_nat a]\<rparr>"
  shows "file_ok S sb (allocated sb a D) y" "k < MAXFILE \<Longrightarrow> file_addr (allocated sb a D) y k = file_addr D x k" "ind_blk y = a"
proof -
  note al = allocated_disk [of S sb a D, OF assms(5,3,6)]
  note ok = file_okD [OF assms(1)]
  show i: "ind_blk y = a" using ok(1) assms(7) by (simp add: y_def ind_blk_def unat_of_nat)
  have z: "get32 j (replicate BSIZE 0) = 0" if "j < NINDIRECT" for j
    using that by (simp add: get32_def NINDIRECT_def BSIZE_def of_le32_def)
  have "a \<noteq> 0" using assms(5) by (auto simp: meta_def)
  have ya: "i_addrs y ! k = i_addrs x ! k" if "k < NDIRECT" for k using that by (simp add: y_def)
  show ad: "file_addr (allocated sb a D) y k = file_addr D x k" if "k < MAXFILE" for k
    using that ok(1) assms(2) \<open>a \<noteq> 0\<close> z [of "k - NDIRECT"] ya by (auto simp: file_addr_def i al(1) MAXFILE_def)
  have d: "data_blk S sb (allocated sb a D) b" if "data_blk S sb D b" for b using that al(3) by (simp add: data_blk_def)
  have "data_blk S sb (allocated sb a D) a" using assms(3,5) al(3) by (simp add: data_blk_def)
  moreover have "\<not> data_blk S sb D a" using assms(4) by (simp add: data_blk_def)
  ultimately show "file_ok S sb (allocated sb a D) y"
    unfolding file_ok_def using ok ad d by (auto simp: i) (simp add: y_def)
qed

text \<open>The file gets the block \<open>a\<close> as its \<open>k\<close>-th.\<close>

definition new_disk :: "superblock \<Rightarrow> nat \<Rightarrow> nat \<Rightarrow> (nat \<Rightarrow> block) \<Rightarrow> inode \<Rightarrow> (nat \<Rightarrow> block)" where
  "new_disk sb k a D x =
     (if k < NDIRECT then allocated sb a D else (allocated sb a D)(ind_blk x := put32 (k - NDIRECT) (of_nat a) (D (ind_blk x))))"

definition new_inode :: "nat \<Rightarrow> nat \<Rightarrow> inode \<Rightarrow> inode" where
  "new_inode k a x = (if k < NDIRECT then x\<lparr>i_addrs := (i_addrs x)[k := of_nat a]\<rparr> else x)"

lemma new_block:
  assumes "file_ok S sb D x" "k < MAXFILE" "file_addr D x k = 0" "k < NDIRECT \<or> ind_blk x \<noteq> 0"
    and "a < unat (sb_size sb)" "\<not> used sb D a" "\<not> meta S sb a" "length (D (map_blk sb a)) = BSIZE" "a < 2 ^ 32" "length (D (ind_blk x)) = BSIZE"
  defines "D' \<equiv> new_disk sb k a D x" and "y \<equiv> new_inode k a x"
  shows "file_ok S sb D' y" "j < MAXFILE \<Longrightarrow> file_addr D' y j = (if j = k then a else file_addr D x j)" "ind_blk y = ind_blk x"
    "D' a = replicate BSIZE 0" "b \<noteq> a \<Longrightarrow> b \<noteq> ind_blk x \<Longrightarrow> \<not> is_map sb b \<Longrightarrow> D' b = D b" "b < unat (sb_size sb) \<Longrightarrow> used sb D' b \<longleftrightarrow> used sb D b \<or> b = a"
proof -
  note al = allocated_disk [of S sb a D, OF assms(7,5,8)]
  note ok = file_okD [OF assms(1)]
  have ne: "ind_blk x \<noteq> 0 \<Longrightarrow> a \<noteq> ind_blk x \<and> \<not> is_map sb (ind_blk x)" using ok(2) assms(6) by (auto simp: data_blk_def meta_def)
  have a: "a \<noteq> 0" using assms(7) by (auto simp: meta_def)
  show i: "ind_blk y = ind_blk x" using ok(1) by (simp add: y_def new_inode_def ind_blk_def)
  show "D' a = replicate BSIZE 0" using al(1) ne assms(4) by (auto simp: D'_def new_disk_def)
  show "D' b = D b" if "b \<noteq> a" "b \<noteq> ind_blk x" "\<not> is_map sb b" using al(2) that by (simp add: D'_def new_disk_def)
  have u: "used sb D' b \<longleftrightarrow> used sb D b \<or> b = a" if "b < unat (sb_size sb)" for b
    using al(3) [OF that] ne assms(4) used_clear that by (auto simp: D'_def new_disk_def)
  then show "b < unat (sb_size sb) \<Longrightarrow> used sb D' b \<longleftrightarrow> used sb D b \<or> b = a" by blast
  have ad: "file_addr D' y j = (if j = k then a else file_addr D x j)" if j: "j < MAXFILE" for j
  proof (cases "k < NDIRECT")
    case True
    have di: "ind_blk x \<noteq> 0 \<Longrightarrow> D' (ind_blk x) = D (ind_blk x)" using True al(2) ne by (simp add: D'_def new_disk_def)
    have yk: "i_addrs y ! j = (if j = k then of_nat a else i_addrs x ! j)" if "j < NDIRECT" using True ok(1) that by (simp add: y_def new_inode_def)
    show ?thesis using True di yk assms(9) by (auto simp: file_addr_def i unat_of_nat)
  next
    case False
    then have ind: "ind_blk x \<noteq> 0" "y = x" using assms(4) by (simp_all add: y_def new_inode_def)
    have "get32 (j - NDIRECT) (D' (ind_blk x)) = (if j = k then of_nat a else get32 (j - NDIRECT) (D (ind_blk x)))" if "\<not> j < NDIRECT"
    proof -
      have "j - NDIRECT = k - NDIRECT \<longleftrightarrow> j = k" using False that by auto
      then show ?thesis using False j assms(2,10) by (simp add: D'_def new_disk_def get32_put32 MAXFILE_def NINDIRECT_def BSIZE_def)
    qed
    then show ?thesis using False ind assms(9) by (auto simp: file_addr_def unat_of_nat)
  qed
  then show "j < MAXFILE \<Longrightarrow> file_addr D' y j = (if j = k then a else file_addr D x j)" by blast
  have d: "data_blk S sb D' b" if "data_blk S sb D b" for b using that u by (simp add: data_blk_def)
  have da: "data_blk S sb D' a" "\<not> data_blk S sb D a" using assms(5,6,7) u by (simp_all add: data_blk_def)
  have la: "length (i_addrs y) = NDIRECT + 1" using ok(1) by (simp add: y_def new_inode_def)
  show "file_ok S sb D' y" unfolding file_ok_def i
    using la ok d da ad a ne by (auto split: if_splits)
qed

section \<open>Finding a block\<close>

text \<open>
  From \<open>D\<close> and \<open>x\<close> to \<open>D'\<close> and \<open>y\<close> the file may have got blocks that were free: it keeps the blocks it had, and
  only the free map, the new blocks and the indirect block have changed.
\<close>

definition new_or_same :: "superblock \<Rightarrow> (nat \<Rightarrow> block) \<Rightarrow> nat \<Rightarrow> nat \<Rightarrow> bool" where
  "new_or_same sb D a b \<longleftrightarrow> b = a \<or> a = 0 \<and> b < unat (sb_size sb) \<and> \<not> used sb D b"

definition blocks_grow :: "superblock \<Rightarrow> (nat \<Rightarrow> block) \<Rightarrow> inode \<Rightarrow> (nat \<Rightarrow> block) \<Rightarrow> inode \<Rightarrow> bool" where
  "blocks_grow sb D x D' y \<longleftrightarrow> y = x\<lparr>i_addrs := i_addrs y\<rparr> \<and> (\<forall>b < unat (sb_size sb). used sb D b \<longrightarrow> used sb D' b) \<and>
     new_or_same sb D (ind_blk x) (ind_blk y) \<and> (\<forall>j < MAXFILE. new_or_same sb D (file_addr D x j) (file_addr D' y j))"

definition file_grows :: "nat \<Rightarrow> superblock \<Rightarrow> (nat \<Rightarrow> block) \<Rightarrow> inode \<Rightarrow> (nat \<Rightarrow> block) \<Rightarrow> inode \<Rightarrow> bool" where
  "file_grows S sb D x D' y \<longleftrightarrow> file_ok S sb D' y \<and> meta_used S sb D' \<and> blocks_grow sb D x D' y \<and>
     (\<forall>b. \<not> is_map sb b \<longrightarrow> b \<noteq> ind_blk x \<longrightarrow> (b < unat (sb_size sb) \<longrightarrow> used sb D b) \<longrightarrow> D' b = D b)"

lemma new_or_same_trans:
  "new_or_same sb D a b \<Longrightarrow> new_or_same sb D' b c \<Longrightarrow> (\<And>b. b < unat (sb_size sb) \<Longrightarrow> used sb D b \<Longrightarrow> used sb D' b) \<Longrightarrow> new_or_same sb D a c"
  by (auto simp: new_or_same_def)

lemma new_or_same_ne: "new_or_same sb D a c \<Longrightarrow> b \<noteq> a \<Longrightarrow> (b < unat (sb_size sb) \<longrightarrow> used sb D b) \<Longrightarrow> b \<noteq> c"
  by (auto simp: new_or_same_def)

lemma new_or_same_id [simp]: "new_or_same sb D a a"
  by (simp add: new_or_same_def)

lemma blocks_grow_trans:
  assumes "blocks_grow sb D x D' y" "blocks_grow sb D' y D'' z"
  shows "blocks_grow sb D x D'' z"
proof -
  have "z = x\<lparr>i_addrs := i_addrs z\<rparr>" using assms unfolding blocks_grow_def by (cases x; cases y; cases z) auto
  then show ?thesis using assms unfolding blocks_grow_def by (auto intro: new_or_same_trans)
qed

lemma file_grows_refl: "file_ok S sb D x \<Longrightarrow> meta_used S sb D \<Longrightarrow> file_grows S sb D x D x"
  by (simp add: file_grows_def blocks_grow_def)

lemma file_grows_trans:
  assumes "file_grows S sb D x D' y" "file_grows S sb D' y D'' z"
  shows "file_grows S sb D x D'' z"
proof -
  note g = assms [unfolded file_grows_def]
  have "D'' b = D b" if b: "\<not> is_map sb b" "b \<noteq> ind_blk x" "b < unat (sb_size sb) \<longrightarrow> used sb D b" for b
  proof -
    have "new_or_same sb D (ind_blk x) (ind_blk y)" "b < unat (sb_size sb) \<longrightarrow> used sb D' b" using g b(3) by (auto simp: blocks_grow_def)
    then have "b \<noteq> ind_blk y" "b < unat (sb_size sb) \<longrightarrow> used sb D' b" using new_or_same_ne b(2,3) by auto
    then show ?thesis using g b by metis
  qed
  then show ?thesis using g blocks_grow_trans [of sb D x D' y D'' z] unfolding file_grows_def by blast
qed

lemma blocks_grow_fields:
  assumes "blocks_grow sb D x D' y"
  shows "i_dev y = i_dev x" "i_inum y = i_inum x" "i_size y = i_size x"
proof -
  have e: "y = x\<lparr>i_addrs := i_addrs y\<rparr>" using assms by (simp add: blocks_grow_def)
  show "i_dev y = i_dev x" "i_inum y = i_inum x" "i_size y = i_size x" by (subst e, simp)+
qed

lemma grows_indirect:
  assumes "file_ok S sb D x" "meta_used S sb D" "ind_blk x = 0" "a < unat (sb_size sb)" "\<not> used sb D a" "\<not> meta S sb a" "length (D (map_blk sb a)) = BSIZE" "a < 2 ^ 32"
  shows "file_grows S sb D x (allocated sb a D) (x\<lparr>i_addrs := (i_addrs x)[NDIRECT := of_nat a]\<rparr>)"
  using new_indirect [OF assms(1,3-8)] allocated_disk [of S sb a D, OF assms(6,4,7)] assms(2-5)
  by (auto simp: file_grows_def meta_used_def blocks_grow_def new_or_same_def)

lemma grows_block:
  assumes "file_ok S sb D x" "meta_used S sb D" "k < MAXFILE" "file_addr D x k = 0" "k < NDIRECT \<or> ind_blk x \<noteq> 0"
    and "a < unat (sb_size sb)" "\<not> used sb D a" "\<not> meta S sb a" "length (D (map_blk sb a)) = BSIZE" "a < 2 ^ 32" "length (D (ind_blk x)) = BSIZE"
  shows "file_grows S sb D x (new_disk sb k a D x) (new_inode k a x)"
proof -
  note nb = new_block [OF assms(1,3-11)]
  have "new_disk sb k a D x b = D b" if "\<not> is_map sb b" "b \<noteq> ind_blk x" "b < unat (sb_size sb) \<longrightarrow> used sb D b" for b
    using nb(5) [of b] that assms(6,7) by (cases "b = a") auto
  moreover have "new_inode k a x = x\<lparr>i_addrs := i_addrs (new_inode k a x)\<rparr>" by (simp add: new_inode_def)
  ultimately show ?thesis using nb(1,2,3,6) assms(2,4,6,7) unfolding file_grows_def meta_used_def blocks_grow_def new_or_same_def by auto
qed

lemma tx_at_upd [simp]: "tx_at h st dv S p D H L (upd_inode ip f s) = tx_at h st dv S p D H L s" "fs_cache (upd_inode ip f s) = fs_cache s"
  "fsb (upd_inode ip f s) = fsb s"
  by (simp_all add: upd_inode_def tx_at_def)

text \<open>The state after \<^verbatim>\<open>bmap\<close> of the \<open>k\<close>-th block: address 0 only when the disk is full.\<close>

definition full_disk :: "superblock \<Rightarrow> (nat \<Rightarrow> block) \<Rightarrow> bool" where
  "full_disk sb D \<longleftrightarrow> (\<forall>b < unat (sb_size sb). used sb D b)"

definition bmap_post :: "'m hw \<Rightarrow> ('m \<Rightarrow> int \<Rightarrow> int \<Rightarrow> block) \<Rightarrow> nat \<Rightarrow> int \<Rightarrow> nat \<Rightarrow> nat \<Rightarrow> nat \<Rightarrow> (nat \<Rightarrow> block) \<Rightarrow> nat set \<Rightarrow> 'm fs \<Rightarrow> uint32 \<times> 'm fs \<Rightarrow> bool" where
  "bmap_post h st S p ip k c D L s r \<longleftrightarrow> (\<exists>D' y L'. let x = itable s ! ip; t = snd r in
     tx_at h st (i_dev x) S p D' {} L' t \<and> fs_same (upd_inode ip (\<lambda>_. y) s) t \<and> file_grows S (fsb s) D x D' y \<and> card L' \<le> card L + c \<and>
     (if fst r = 0 then full_disk (fsb s) D' else unat (fst r) = file_addr D' y k) \<and>
     (file_addr D x k \<noteq> 0 \<longrightarrow> D' = D \<and> y = x \<and> L' = L \<and> fst r \<noteq> 0))"

lemma alloc_bound: "layout cap S sb \<Longrightarrow> a < unat (sb_size sb) \<Longrightarrow> a < cap \<and> a < 2 ^ 32"
  by (auto simp: layout_def)

lemma card_insert2: "card (insert a (insert b L)) \<le> card L + 2"
proof (cases "finite L")
  case True
  then show ?thesis by (simp add: card_insert_if)
qed simp

text \<open>An entry of \<open>i_addrs\<close>: the direct blocks, and the indirect block.\<close>

lemma wp_bmap_slot:
  assumes "tx_at h st (i_dev x) S p D {} L s" "itable s ! ip = x" "ip < length (itable s)" "layout (capacity h 0) S (fsb s)" "meta_used S (fsb s) D"
    and "length (i_addrs x) = NDIRECT + 1" "i \<le> NDIRECT" "card L + 2 < LOGSIZE"
    and hit: "\<And>t. i_addrs x ! i \<noteq> 0 \<Longrightarrow> t = s \<Longrightarrow> Q (i_addrs x ! i, t)"
    and full: "\<And>t. i_addrs x ! i = 0 \<Longrightarrow> full_disk (fsb s) D \<Longrightarrow> tx_at h st (i_dev x) S p D {} L t \<Longrightarrow> fs_same s t \<Longrightarrow> Q (0, t)"
    and new: "\<And>a t. i_addrs x ! i = 0 \<Longrightarrow> a < unat (sb_size (fsb s)) \<Longrightarrow> \<not> used (fsb s) D a \<Longrightarrow> \<not> meta S (fsb s) a \<Longrightarrow> length (D (map_blk (fsb s) a)) = BSIZE \<Longrightarrow> a < 2 ^ 32 \<Longrightarrow>
       tx_at h st (i_dev x) S p (allocated (fsb s) a D) {} (insert a (insert (map_blk (fsb s) a) L)) t \<Longrightarrow>
       fs_same (upd_inode ip (\<lambda>_. x\<lparr>i_addrs := (i_addrs x)[i := of_nat a]\<rparr>) s) t \<Longrightarrow> Q (of_nat a, t)"
  shows "wp (bmap_slot h p ip i s) Q"
proof (cases "i_addrs x ! i = 0")
  case False
  then show ?thesis using hit by (simp add: bmap_slot_def assms(2))
next
  case True
  have "wp (balloc h p (i_dev x) s) (\<lambda>(addr, s). wp (if addr = 0 then Inr (0, s) else Inr (addr, upd_inode ip (\<lambda>x. x\<lparr>i_addrs := (i_addrs x)[i := addr]\<rparr>) s)) Q)"
  proof (rule wp_balloc [OF assms(1,4,5)], goal_cases)
    case (4 t)
    then show ?case using full [OF True] by (simp add: full_disk_def lb.keeps_def)
  next
    case (5 a t)
    have b: "a < capacity h 0" "a < 2 ^ 32" using alloc_bound [OF assms(4) 5(1)] by auto
    have "a \<noteq> 0" using 5(3) by (auto simp: meta_def)
    moreover have "unat (of_nat a :: uint32) = a" using b(2) by (simp add: unat_of_nat)
    ultimately have nz: "of_nat a \<noteq> (0 :: uint32)" by (metis unat_0)
    have ln: "length (D (map_blk (fsb s) a)) = BSIZE" by (rule lb.size_law [OF assms(1) BBLOCK_nat(2) [OF assms(4) 5(1)]])
    have "fs_same (upd_inode ip (\<lambda>_. x\<lparr>i_addrs := (i_addrs x)[i := of_nat a]\<rparr>) s) (upd_inode ip (\<lambda>x. x\<lparr>i_addrs := (i_addrs x)[i := of_nat a]\<rparr>) t)"
      using lb.keeps_same [OF 5(5)] assms(2) by (simp add: fs_same_def upd_inode_def)
    then show ?case using new [OF True 5(1-3) ln b(2)] 5(4) nz by simp
  qed (use assms(8) in \<open>simp_all add: NBUF_def LOGSIZE_def\<close>)
  then show ?thesis using True by (simp add: bmap_slot_def assms(2) case_prod_unfold)
qed

lemma tx_cap: "tx_at h st dv S p D H L s \<Longrightarrow> 0 < capacity h 0"
  by (auto elim!: tx_atD simp: log_ok_def blocks_ok_def LOGSIZE_def)

text \<open>An entry of the indirect block.\<close>

lemma wp_bmap_indirect:
  assumes "tx_at h st dv S p D {} L s" "layout (capacity h 0) S sb" "meta_used S sb D" "fsb s = sb"
    and "data_blk S sb D (ind_blk x)" "addr = i_addrs x ! NDIRECT" "n < NINDIRECT" "card L + 4 < LOGSIZE"
    and hit: "\<And>t. get32 n (D (ind_blk x)) \<noteq> 0 \<Longrightarrow> tx_at h st dv S p D {} L t \<Longrightarrow> fs_same s t \<Longrightarrow> Q (get32 n (D (ind_blk x)), t)"
    and full: "\<And>t. get32 n (D (ind_blk x)) = 0 \<Longrightarrow> full_disk sb D \<Longrightarrow> tx_at h st dv S p D {} L t \<Longrightarrow> fs_same s t \<Longrightarrow> Q (0, t)"
    and new: "\<And>a t. get32 n (D (ind_blk x)) = 0 \<Longrightarrow> a < unat (sb_size sb) \<Longrightarrow> \<not> used sb D a \<Longrightarrow> \<not> meta S sb a \<Longrightarrow> length (D (map_blk sb a)) = BSIZE \<Longrightarrow> a < 2 ^ 32 \<Longrightarrow>
       tx_at h st dv S p (new_disk sb (NDIRECT + n) a D x) {} (insert (ind_blk x) (insert a (insert (map_blk sb a) L))) t \<Longrightarrow> fs_same s t \<Longrightarrow> Q (of_nat a, t)"
  shows "wp (bmap_indirect h p dv addr n s) Q"
proof -
  let ?i = "ind_blk x"
  have i: "?i < capacity h 0" "\<not> is_map sb ?i" "used sb D ?i" "\<not> in_log S ?i" "addr = of_nat ?i" "?i < unat (sb_size sb)"
    using assms(2,5,6) by (auto simp: data_blk_def meta_def layout_def ind_blk_def)
  note len = lb.size_law [OF assms(1) i(1)]
  have nb: "card ({} :: nat set) + card L < NBUF" using assms(8) by (simp add: NBUF_def LOGSIZE_def)
  show ?thesis unfolding bmap_indirect_def wp_kbind i(5)
  proof (rule lb.wp_rd [OF assms(1) i(1) _ nb], simp, unfold prod.case Let_def wp_kbind)
    fix b t
    assume t: "tx_at h st dv S p D {?i} L t" "bio_hand dv p (fs_cache t) b ?i" "bdata t b = D ?i" "lb.keeps dv p {} s t"
    note st = lb.keeps_same [OF t(4)]
    have rel: "wp (fs_brelse p b u) (\<lambda>u. R u)" if u: "tx_at h st dv S p E {?i} M u" "bio_hand dv p (fs_cache u) b ?i"
      "fs_same s u" "\<And>w. tx_at h st dv S p E {} M w \<Longrightarrow> fs_same s w \<Longrightarrow> R w" for E M u R
      by (rule lb.wp_rel [OF u(1,2)]) (auto intro!: u(4) fs_same_trans [OF u(3)] dest: lb.keeps_same)
    show "wp (if get32 n (bdata t b) = 0
       then kbind (balloc h p dv t) (\<lambda>(addr, s). if addr \<noteq> 0 then kbind (fs_log_write b (set_bdata b (put32 n addr (bdata s b)) s)) (\<lambda>s. Inr (addr, s)) else Inr (addr, s))
       else Inr (get32 n (bdata t b), t)) (\<lambda>x. wp (case x of (addr, s) \<Rightarrow> kbind (fs_brelse p b s) (\<lambda>s. Inr (addr, s))) Q)"
    proof (cases "get32 n (D ?i) = 0")
      case False
      then show ?thesis using rel [OF t(1,2) st] hit by (simp add: t(3))
    next
      case True
      have ft: "fsb t = sb" using same_fsb(1) [OF t(4)] assms(4) by simp
      have "wp (balloc h p dv t) (\<lambda>(addr, u). wp (if addr \<noteq> 0 then kbind (fs_log_write b (set_bdata b (put32 n addr (bdata u b)) u)) (\<lambda>s. Inr (addr, s)) else Inr (addr, u))
         (\<lambda>x. wp (case x of (addr, s) \<Rightarrow> kbind (fs_brelse p b s) (\<lambda>s. Inr (addr, s))) Q))"
      proof (rule wp_balloc [OF t(1), unfolded ft, OF assms(2,3)], goal_cases)
        case (4 u)
        then show ?case using rel [OF 4(2) lb.keeps_hand [OF 4(3) _ t(2)] fs_same_trans [OF st lb.keeps_same [OF 4(3)]]] full [OF True]
          by (simp add: full_disk_def)
      next
        case (5 a u)
        have ab: "a < capacity h 0" "a < 2 ^ 32" using alloc_bound [OF assms(2) 5(1)] by auto
        have a: "unat (of_nat a :: uint32) = a" "a \<noteq> 0" "a \<noteq> ?i" using ab(2) 5(2,3) i(3) by (auto simp: unat_of_nat meta_def)
        then have nz: "of_nat a \<noteq> (0 :: uint32)" by (metis unat_0)
        have ln: "length (D (map_blk sb a)) = BSIZE" by (rule lb.size_law [OF assms(1) BBLOCK_nat(2) [OF assms(2) 5(1)]])
        have hu: "bio_hand dv p (fs_cache u) b ?i" by (rule lb.keeps_hand [OF 5(5) _ t(2)]) simp
        have du: "bdata u b = D ?i" using lb.dat_law [OF 5(4) hu] allocated_disk(2) [of S sb a D, OF 5(3,1) ln i(2)] a(3) by simp
        have dl: "length (put32 n (of_nat a) (D ?i)) = BSIZE" using len assms(7) by (simp add: NINDIRECT_def BSIZE_def)
        have cl: "card (insert a (insert (map_blk sb a) L)) + 1 < LOGSIZE" using card_insert2 [of a "map_blk sb a" L] assms(8) by simp
        have "wp (fs_log_write b (set_bdata b (put32 n (of_nat a) (D ?i)) u)) (\<lambda>w. wp (fs_brelse p b w) (\<lambda>w. Q (of_nat a, w)))"
        proof (rule lb.wp_lw [OF 5(4) hu dl i(4) cl])
          fix w
          assume w: "tx_at h st dv S p ((allocated sb a D)(?i := put32 n (of_nat a) (D ?i))) {?i} (insert ?i (insert a (insert (map_blk sb a) L))) w"
            "lb.keeps dv p {?i} u w" "bio_hand dv p (fs_cache w) b ?i"
          have "fs_same s w" using st lb.keeps_same [OF 5(5)] lb.keeps_same [OF w(2)] fs_same_trans by blast
          then show "wp (fs_brelse p b w) (\<lambda>w. Q (of_nat a, w))"
            by (rule rel [OF w(1,3)]) (use new [OF True 5(1-3) ln ab(2)] in \<open>simp add: new_disk_def\<close>)
        qed
        then show ?case using nz by (simp add: du)
      qed (use assms(8) i in \<open>simp_all add: NBUF_def LOGSIZE_def\<close>)
      then show ?thesis using True by (simp add: t(3) case_prod_unfold)
    qed
  qed
qed

lemma bmap_postI:
  assumes "tx_at h st (i_dev (itable s ! ip)) S p D' {} L' t" "fs_same (upd_inode ip (\<lambda>_. y) s) t" "file_grows S (fsb s) D (itable s ! ip) D' y" "card L' \<le> card L + c"
    and "if addr = 0 then full_disk (fsb s) D' else unat addr = file_addr D' y k"
    and "file_addr D (itable s ! ip) k \<noteq> 0 \<Longrightarrow> D' = D \<and> y = itable s ! ip \<and> L' = L \<and> addr \<noteq> 0"
  shows "bmap_post h st S p ip k c D L s (addr, t)"
  unfolding bmap_post_def Let_def fst_conv snd_conv using assms by blast

lemma fs_same_id: "fs_same s t \<Longrightarrow> fs_same (upd_inode ip (\<lambda>_. itable s ! ip) s) t"
  by (simp add: fs_same_def upd_inode_def)

lemma bmap_post_step:
  assumes "bmap_post h st S p ip k c D1 L1 t r" "fs_same (upd_inode ip (\<lambda>_. y) s) t" "file_grows S (fsb s) D x D1 y" "x = itable s ! ip" "ip < length (itable s)"
    and "card L1 + c \<le> card L + d" "file_addr D x k = 0"
  shows "bmap_post h st S p ip k d D L s r"
proof -
  have y: "itable t ! ip = y" "fsb t = fsb s" "i_dev y = i_dev x"
    using assms(2,5) blocks_grow_fields [of "fsb s" D x D1 y] assms(3) file_grows_def by (simp_all add: fs_same_def upd_inode_def)
  from assms(1) obtain D' z L' where r: "tx_at h st (i_dev x) S p D' {} L' (snd r)" "fs_same (upd_inode ip (\<lambda>_. z) t) (snd r)" "file_grows S (fsb s) D1 y D' z" "card L' \<le> card L1 + c"
    "if fst r = 0 then full_disk (fsb s) D' else unat (fst r) = file_addr D' z k"
    unfolding bmap_post_def Let_def y by blast
  have "fs_same (upd_inode ip (\<lambda>_. z) s) (snd r)" using r(2) assms(2) by (auto simp: fs_same_def upd_inode_def)
  then show ?thesis using r assms(3,4,6,7) file_grows_trans [OF assms(3) r(3)]
    by (cases r) (auto intro!: bmap_postI)
qed

lemma bmap_post_mono: "bmap_post h st S p ip k c D L s r \<Longrightarrow> c \<le> d \<Longrightarrow> bmap_post h st S p ip k d D L s r"
proof -
  assume "bmap_post h st S p ip k c D L s r" and "c \<le> d"
  then obtain D' y L' where "tx_at h st (i_dev (itable s ! ip)) S p D' {} L' (snd r)" "fs_same (upd_inode ip (\<lambda>_. y) s) (snd r)"
    "file_grows S (fsb s) D (itable s ! ip) D' y" "card L' \<le> card L + c" "if fst r = 0 then full_disk (fsb s) D' else unat (fst r) = file_addr D' y k"
    "file_addr D (itable s ! ip) k \<noteq> 0 \<longrightarrow> D' = D \<and> y = itable s ! ip \<and> L' = L \<and> fst r \<noteq> 0"
    unfolding bmap_post_def Let_def by blast
  with \<open>c \<le> d\<close> show ?thesis by (cases r) (auto intro!: bmap_postI)
qed

lemma wp_bmap_ind:
  assumes "tx_at h st (i_dev x) S p D {} L s" "itable s ! ip = x" "ip < length (itable s)" "layout (capacity h 0) S (fsb s)" "meta_used S (fsb s) D"
    and "file_ok S (fsb s) D x" "ind_blk x \<noteq> 0" "NDIRECT \<le> k" "k < MAXFILE" "card L + 4 < LOGSIZE"
  shows "wp (bmap_indirect h p (i_dev x) (i_addrs x ! NDIRECT) (k - NDIRECT) s) (bmap_post h st S p ip k 3 D L s)"
proof -
  let ?n = "k - NDIRECT"
  have n: "?n < NINDIRECT" "NDIRECT + ?n = k" using assms(8,9) by (auto simp: MAXFILE_def)
  have fa: "file_addr D x k = unat (get32 ?n (D (ind_blk x)))" using assms(7,8) by (simp add: file_addr_def)
  note ok = file_okD [OF assms(6)]
  show ?thesis
  proof (rule wp_bmap_indirect [OF assms(1,4,5) refl ok(2) [OF assms(7)] refl n(1) assms(10)], goal_cases)
    case (1 t)
    then show ?case using assms fa by (intro bmap_postI [where y = x and L' = L and D' = D]) (auto intro!: fs_same_id file_grows_refl)
  next
    case (2 t)
    then show ?case using assms fa by (intro bmap_postI [where y = x and L' = L and D' = D]) (auto intro!: fs_same_id file_grows_refl)
  next
    case (3 a t)
    have z: "file_addr D x k = 0" "k < NDIRECT \<or> ind_blk x \<noteq> 0" using 3(1) fa assms(7) by simp_all
    have a: "unat (of_nat a :: uint32) = a" "a \<noteq> 0" using 3(4,6) by (auto simp: unat_of_nat meta_def)
    have "ind_blk x < capacity h 0" using ok(2) assms(4,7) by (auto simp: data_blk_def layout_def)
    then have "length (D (ind_blk x)) = BSIZE" by (rule lb.size_law [OF assms(1)])
    note g = grows_block [OF assms(6,5,9) z 3(2-6) this] new_block(2) [OF assms(6,9) z 3(2-6) this assms(9)]
    have "card (insert (ind_blk x) (insert a (insert (map_blk (fsb s) a) L))) \<le> card L + 3"
      using card_insert2 [of a "map_blk (fsb s) a" L] lb.fin_law [OF assms(1)] by (simp add: card_insert_if)
    then show ?case using 3(7,8) g z(1) a assms(2,8) n(2)
      by (intro bmap_postI [where y = x]) (auto simp: new_inode_def intro: fs_same_id)
  qed
qed

lemma wp_bmap:
  assumes "tx_at h st (i_dev x) S p D {} L s" "itable s ! ip = x" "ip < length (itable s)" "layout (capacity h 0) S (fsb s)" "meta_used S (fsb s) D"
    and "file_ok S (fsb s) D x" "unat bn = k" "k < MAXFILE" "card L + 6 < LOGSIZE"
  shows "wp (bmap h p ip bn s) (bmap_post h st S p ip k 5 D L s)"
proof (cases "k < NDIRECT")
  case True
  note ok = file_okD [OF assms(6)]
  have ind: "ind_blk x < capacity h 0" using ok(2) assms(4) tx_cap [OF assms(1)] by (cases "ind_blk x = 0") (auto simp: data_blk_def layout_def)
  have "wp (bmap_slot h p ip k s) (bmap_post h st S p ip k 5 D L s)"
  proof (rule wp_bmap_slot [OF assms(1-5) ok(1)], goal_cases)
    case (3 t)
    then show ?case using True assms by (auto intro!: bmap_postI fs_same_id file_grows_refl simp: file_addr_def fs_same_def)
  next
    case (4 t)
    then show ?case using True assms by (auto intro!: bmap_postI fs_same_id file_grows_refl simp: file_addr_def)
  next
    case (5 a t)
    have z: "file_addr D x k = 0" "k < NDIRECT \<or> ind_blk x \<noteq> 0" using 5(1) True by (simp_all add: file_addr_def)
    have a: "unat (of_nat a :: uint32) = a" "a \<noteq> 0" using 5(4,6) by (auto simp: unat_of_nat meta_def)
    have "length (D (ind_blk x)) = BSIZE" by (rule lb.size_law [OF assms(1) ind])
    note g = grows_block [OF assms(6,5,8) z 5(2-6) this] new_block(2) [OF assms(6,8) z 5(2-6) this assms(8)]
    then show ?case using 5(7,8) True z(1) a card_insert2 [of a "map_blk (fsb s) a" L] assms(2)
      by (intro bmap_postI) (auto simp: new_disk_def new_inode_def)
  qed (use True assms(9) in simp_all)
  then show ?thesis using True assms(7) by (simp add: bmap_def)
next
  case False
  note ok = file_okD [OF assms(6)]
  let ?n = "k - NDIRECT"
  have n: "?n < NINDIRECT" "NDIRECT + ?n = k" using False assms(8) by (auto simp: MAXFILE_def)
  have "wp (bmap_slot h p ip NDIRECT s) (\<lambda>(addr, s'). wp (if addr = 0 then Inr (0, s') else bmap_indirect h p (i_dev (itable s' ! ip)) addr ?n s') (bmap_post h st S p ip k 5 D L s))"
  proof (rule wp_bmap_slot [OF assms(1-5) ok(1)], goal_cases)
    case (3 t)
    then have i: "ind_blk x \<noteq> 0" by (simp add: ind_blk_def unat_eq_0)
    show ?case using 3 bmap_post_mono [OF _, of h st S p ip k 3 D L s _ 5] wp_bmap_ind [OF assms(1-6) i _ assms(8)] False assms(2,9)
      by (simp add: wp_mono)
  next
    case (4 t)
    then have "file_addr D x k = 0" using False by (simp add: file_addr_def ind_blk_def)
    then show ?case using 4 assms(2,5,6) by (auto intro!: bmap_postI [where y = x and L' = L and D' = D] fs_same_id file_grows_refl)
  next
    case (5 a t)
    let ?y = "x\<lparr>i_addrs := (i_addrs x)[NDIRECT := of_nat a]\<rparr>" and ?D = "allocated (fsb s) a D" and ?L = "insert a (insert (map_blk (fsb s) a) L)"
    have i: "ind_blk x = 0" using 5(1) by (simp add: ind_blk_def)
    note g = grows_indirect [OF assms(6,5) i 5(2-6)]
    note y = new_indirect [OF assms(6) i 5(2-6)]
    have a: "of_nat a \<noteq> (0 :: uint32)" using 5(4) y(3) ok(1) by (auto simp: ind_blk_def meta_def)
    have t: "itable t ! ip = ?y" "length (itable t) = length (itable s)" "fsb t = fsb s" using 5(8) assms(3) by (simp_all add: fs_same_def upd_inode_def)
    have c: "card ?L \<le> card L + 2" by (rule card_insert2)
    have "wp (bmap_indirect h p (i_dev ?y) (i_addrs ?y ! NDIRECT) ?n t) (bmap_post h st S p ip k 3 ?D ?L t)"
      by (rule wp_bmap_ind) (use 5 t g y(3) c False assms in \<open>auto simp: file_grows_def meta_def\<close>)
    then have "wp (bmap_indirect h p (i_dev ?y) (i_addrs ?y ! NDIRECT) ?n t) (bmap_post h st S p ip k 5 D L s)"
      by (rule wp_mono) (rule bmap_post_step [OF _ 5(8) g], use c assms False i in \<open>auto simp: file_addr_def\<close>)
    then show ?case using a ok(1) t(1) by simp
  qed (use assms(9) in simp_all)
  moreover have "bmap h p ip bn s = kbind (bmap_slot h p ip NDIRECT s) (\<lambda>(addr, s'). if addr = 0 then Inr (0, s') else bmap_indirect h p (i_dev (itable s' ! ip)) addr ?n s')"
    unfolding bmap_def assms(7) using False n(1) by simp
  ultimately show ?thesis by (simp only: wp_kbind case_prod_unfold)
qed

end
