(* ===== verification/Fs_Read.thy ===== *)
theory Fs_Read
  imports Fs_File
begin

text \<open>Reading a file: \<^verbatim>\<open>readi\<close> hands out the bytes of the file in order.\<close>

definition file_byte :: "(nat \<Rightarrow> block) \<Rightarrow> inode \<Rightarrow> nat \<Rightarrow> uchar" where
  "file_byte D x i = D (file_addr D x (i div BSIZE)) ! (i mod BSIZE)"

text \<open>The file has blocks for its first \<open>n\<close> bytes; the bytes of a file are those below its size.\<close>

definition mapped :: "(nat \<Rightarrow> block) \<Rightarrow> inode \<Rightarrow> nat \<Rightarrow> bool" where
  "mapped D x n \<longleftrightarrow> n \<le> MAXFILE * BSIZE \<and> (\<forall>i < n. file_addr D x (i div BSIZE) \<noteq> 0)"

definition file_bytes :: "(nat \<Rightarrow> block) \<Rightarrow> inode \<Rightarrow> uchar list" where
  "file_bytes D x = map (file_byte D x) [0..<unat (i_size x)]"

text \<open>A caller that records the bytes it is handed, with their addresses.\<close>

definition collect :: "uint64 \<Rightarrow> uchar list \<Rightarrow> (uint64 \<times> uchar) list \<Rightarrow> (int \<times> (uint64 \<times> uchar) list) res" where
  "collect a bs u = Inr (0, u @ map (\<lambda>i. (a + of_nat i, bs ! i)) [0..<length bs])"

lemma blk_pos:
  assumes "i < BSIZE - o' mod BSIZE"
  shows "(o' + i) div BSIZE = o' div BSIZE" "(o' + i) mod BSIZE = o' mod BSIZE + i"
proof -
  have e: "o' + i = (o' mod BSIZE + i) + BSIZE * (o' div BSIZE)" using mod_mult_div_eq [of o' BSIZE] by linarith
  have l: "o' mod BSIZE + i < BSIZE" using assms by simp
  have "(o' mod BSIZE + i + BSIZE * (o' div BSIZE)) div BSIZE = o' div BSIZE + (o' mod BSIZE + i) div BSIZE"
    by (rule div_mult_self2) (simp add: BSIZE_def)
  then show "(o' + i) div BSIZE = o' div BSIZE" using l by (simp only: e [symmetric] div_less add_0_right)
  have "(o' mod BSIZE + i + BSIZE * (o' div BSIZE)) mod BSIZE = (o' mod BSIZE + i) mod BSIZE" by (rule mod_mult_self2)
  then show "(o' + i) mod BSIZE = o' mod BSIZE + i" using l by (simp only: e [symmetric] mod_less)
qed

lemma blk_less: "i < MAXFILE * BSIZE \<Longrightarrow> i div BSIZE < MAXFILE"
  by (simp add: less_mult_imp_div_less)

lemma unat_blk: "unat ((off :: uint32) div of_nat BSIZE) = unat off div BSIZE"
  by (simp add: BSIZE_def unat_div)

lemma unat_adv: "unat (off :: uint32) + m \<le> MAXFILE * BSIZE \<Longrightarrow> unat (off + of_nat m) = unat off + m"
  by (simp add: unat_word_ariths unat_of_nat MAXFILE_def NDIRECT_def NINDIRECT_def BSIZE_def)

lemma chunk_bytes:
  assumes "length (D (file_addr D x (o' div BSIZE))) = BSIZE" "m \<le> BSIZE - o' mod BSIZE"
  shows "take m (drop (o' mod BSIZE) (D (file_addr D x (o' div BSIZE)))) = map (\<lambda>i. file_byte D x (o' + i)) [0..<m]"
  using assms by (auto intro!: nth_equalityI simp: file_byte_def blk_pos)

lemma map_shift: "map f [0..<m] @ map (\<lambda>i. f (m + i)) [0..<n] = map f [0..<m + n]"
  by (auto intro!: nth_equalityI simp: nth_append)

lemma wp_bmap_hit:
  assumes "tx_at h st (i_dev x) S p D {} L s" "itable s ! ip = x" "ip < length (itable s)" "layout (capacity h 0) S (fsb s)" "meta_used S (fsb s) D"
    and "file_ok S (fsb s) D x" "unat bn = k" "k < MAXFILE" "card L + 6 < LOGSIZE" "file_addr D x k \<noteq> 0"
    and "\<And>t. tx_at h st (i_dev x) S p D {} L t \<Longrightarrow> fs_same s t \<Longrightarrow> Q (of_nat (file_addr D x k), t)"
  shows "wp (bmap h p ip bn s) Q"
proof (rule wp_mono [OF wp_bmap [OF assms(1-9)]])
  fix r
  assume "bmap_post h st S p ip k 5 D L s r"
  then have r: "tx_at h st (i_dev x) S p D {} L (snd r)" "fs_same (upd_inode ip (\<lambda>_. x) s) (snd r)" "unat (fst r) = file_addr D x k"
    unfolding bmap_post_def Let_def assms(2) using assms(10) by auto
  have "fst r = of_nat (unat (fst r))" by simp
  then have "fst r = of_nat (file_addr D x k)" using r(3) by simp
  moreover have "fs_same s (snd r)" using r(2) assms(2) by (auto simp: fs_same_def upd_inode_def)
  ultimately show "Q r" using assms(11) [OF r(1)] by (cases r) auto
qed

lemma readi_loop_law:
  assumes "tx_at h st (i_dev x) S p D {} L s" "itable s ! ip = x" "ip < length (itable s)" "fsb s = sb" "layout (capacity h 0) S sb" "meta_used S sb D"
    and "file_ok S sb D x" "card L + 6 < LOGSIZE" "unat off + left \<le> MAXFILE * BSIZE" "\<And>i. i < left \<Longrightarrow> file_addr D x ((unat off + i) div BSIZE) \<noteq> 0"
  shows "wp (readi_loop h p collect ip left tot dst off (u, s)) (\<lambda>(r, u', t). r = int (tot + left) \<and>
    u' = u @ map (\<lambda>i. (dst + of_nat i, file_byte D x (unat off + i))) [0..<left] \<and> tx_at h st (i_dev x) S p D {} L t \<and> fs_same s t)"
  using assms
proof (induction left arbitrary: tot dst off u s rule: less_induct)
  case (less left)
  show ?case
  proof (cases "left = 0")
    case True
    then show ?thesis using less.prems by (subst readi_loop.simps) (simp add: fs_same_def)
  next
    case False
    let ?o = "unat off"
    let ?k = "?o div BSIZE" and ?at = "?o mod BSIZE"
    let ?a = "file_addr D x ?k"
    define m where "m = min left (BSIZE - ?at)"
    have k: "?k < MAXFILE" "?a \<noteq> 0" using less.prems(9) less.prems(10) [of 0] False blk_less [of ?o] by auto
    have a: "?a < capacity h 0" using file_okD(3) [OF less.prems(7) k] less.prems(5) by (auto simp: data_blk_def layout_def)
    have ua: "unat (of_nat ?a :: uint32) = ?a" using a less.prems(5) by (simp add: unat_of_nat layout_def)
    have nz: "of_nat ?a \<noteq> (0 :: uint32)" using ua k(2) by (metis unat_0)
    have nb: "card ({} :: nat set) + card L < NBUF" using less.prems(8) by (simp add: NBUF_def LOGSIZE_def)
    have m: "0 < m" "m \<le> left" "m \<le> BSIZE - ?at" using False by (auto simp: m_def BSIZE_def)
    have off: "unat (off + of_nat m) = ?o + m" by (rule unat_adv) (use m(2) less.prems(9) in simp)
    have len: "length (D ?a) = BSIZE" by (rule lb.size_law [OF less.prems(1) a])
    let ?R = "\<lambda>(r, u', t). r = int (tot + left) \<and>
      u' = u @ map (\<lambda>i. (dst + of_nat i, file_byte D x (?o + i))) [0..<left] \<and> tx_at h st (i_dev x) S p D {} L t \<and> fs_same s t"
    let ?u = "u @ map (\<lambda>i. (dst + of_nat i, file_byte D x (?o + i))) [0..<m]"
    have copy: "collect dst (take m (drop ?at (D ?a))) u = Inr (0, ?u)"
      unfolding collect_def chunk_bytes [of D x "unat off", OF len m(3)] by simp
    have rest: "wp (readi_loop h p collect ip (left - m) (tot + m) (dst + of_nat m) (off + of_nat m) (?u, w)) ?R"
      if w: "tx_at h st (i_dev x) S p D {} L w" "fs_same s w" for w
    proof -
      have "wp (readi_loop h p collect ip (left - m) (tot + m) (dst + of_nat m) (off + of_nat m) (?u, w)) (\<lambda>(r, u', t). r = int (tot + m + (left - m)) \<and>
        u' = ?u @ map (\<lambda>i. (dst + of_nat m + of_nat i, file_byte D x (unat (off + of_nat m) + i))) [0..<left - m] \<and> tx_at h st (i_dev x) S p D {} L t \<and> fs_same w t)"
        by (rule less.IH) (use less.prems m w in \<open>auto simp: fs_same_def off add.assoc\<close>)
      then show ?thesis
        by (rule wp_mono) (use m(2) fs_same_trans [OF w(2)]
            map_shift [of "\<lambda>i. (dst + of_nat i, file_byte D x (?o + i))" m "left - m"] in \<open>auto simp: off add.assoc\<close>)
    qed
    have step: "wp (kbind (fs_bread h p (i_dev (itable t ! ip)) (of_nat ?a) t) (\<lambda>(bp, s).
        kbind (collect dst (take m (drop ?at (bdata s bp))) u) (\<lambda>(r, u). kbind (fs_brelse p bp s) (\<lambda>s.
        if r = -1 then Inr (-1, u, s) else readi_loop h p collect ip (left - m) (tot + m) (dst + of_nat m) (off + of_nat m) (u, s))))) ?R"
      if t: "tx_at h st (i_dev x) S p D {} L t" "fs_same s t" for t
    proof -
      have "i_dev (itable t ! ip) = i_dev x" using t(2) less.prems(2) by (simp add: fs_same_def)
      moreover have "wp (fs_bread h p (i_dev x) (of_nat ?a) t) (\<lambda>(bp, s). wp (kbind (collect dst (take m (drop ?at (bdata s bp))) u) (\<lambda>(r, u). kbind (fs_brelse p bp s) (\<lambda>s.
        if r = -1 then Inr (-1, u, s) else readi_loop h p collect ip (left - m) (tot + m) (dst + of_nat m) (off + of_nat m) (u, s)))) ?R)"
        by (rule lb.wp_peek [OF t(1) a _ nb, where Q = "\<lambda>w. wp (readi_loop h p collect ip (left - m) (tot + m) (dst + of_nat m) (off + of_nat m) (?u, w)) ?R"])
          (use rest fs_same_trans [OF t(2)] copy in \<open>auto dest: lb.keeps_same\<close>)
      ultimately show ?thesis by (simp only: wp_kbind case_prod_unfold)
    qed
    have "wp (bmap h p ip (off div of_nat BSIZE) s) (\<lambda>(addr, s). wp (if addr = 0 then Inr (int tot, u, s)
           else kbind (fs_bread h p (i_dev (itable s ! ip)) addr s) (\<lambda>(bp, s).
                kbind (collect dst (take m (drop ?at (bdata s bp))) u) (\<lambda>(r, u).
                kbind (fs_brelse p bp s) (\<lambda>s.
                if r = -1 then Inr (-1, u, s)
                else readi_loop h p collect ip (left - m) (tot + m) (dst + of_nat m) (off + of_nat m) (u, s))))) ?R)"
      by (rule wp_bmap_hit [OF less.prems(1-3) _ _ _ unat_blk k(1) less.prems(8) k(2)]) (use less.prems step nz in auto)
    then show ?thesis using False unfolding m_def by (subst readi_loop.simps) (simp only: if_False wp_kbind case_prod_unfold Let_def)
  qed
qed

lemma i32_file: "n \<le> MAXFILE * BSIZE \<Longrightarrow> i32 (int n) = int n"
  by (rule i32_id) (simp_all add: MAXFILE_def NDIRECT_def NINDIRECT_def BSIZE_def)

text \<open>What the caller has after a read of the bytes \<open>bs\<close> to the address \<open>dst\<close>.\<close>

definition delivered :: "uint64 \<Rightarrow> uchar list \<Rightarrow> (uint64 \<times> uchar) list" where
  "delivered dst bs = map (\<lambda>i. (dst + of_nat i, bs ! i)) [0..<length bs]"

lemma readi_law:
  assumes "tx_at h st (i_dev x) S p D {} L s" "itable s ! ip = x" "ip < length (itable s)" "layout (capacity h 0) S (fsb s)" "meta_used S (fsb s) D"
    and "file_ok S (fsb s) D x" "card L + 6 < LOGSIZE" "mapped D x (unat (i_size x))" "unat off + unat n < 2 ^ 32"
  defines "bs \<equiv> take (unat n) (drop (unat off) (file_bytes D x))"
  shows "wp (readi h p collect ip dst off n ([], s)) (\<lambda>(r, u, t). r = int (length bs) \<and> u = delivered dst bs \<and> tx_at h st (i_dev x) S p D {} L t \<and> fs_same s t)"
proof (cases "i_size x < off")
  case True
  then have "bs = []" by (simp add: bs_def file_bytes_def word_less_nat_alt)
  then show ?thesis using True assms(1,2) by (simp add: readi_def delivered_def fs_same_def)
next
  case False
  have add: "unat (off + n) = unat off + unat n" using assms(9) by (simp add: unat_word_ariths)
  let ?l = "unat (if i_size x < off + n then i_size x - off else n)"
  have sz: "unat (i_size x) \<le> MAXFILE * BSIZE" using assms(8) by (simp add: mapped_def)
  have l: "?l = min (unat (i_size x) - unat off) (unat n)"
    using False add by (auto simp: word_less_nat_alt unat_sub word_le_nat_alt min_def not_less)
  have ol: "unat off + ?l \<le> unat (i_size x)" using False l by (simp add: word_less_nat_alt)
  have i: "i32 (int ?l) = int ?l" by (rule i32_file) (use ol sz in linarith)
  have bs: "bs = map (\<lambda>i. file_byte D x (unat off + i)) [0..<?l]"
    unfolding l by (rule nth_equalityI) (auto simp: bs_def file_bytes_def)
  have "wp (readi_loop h p collect ip ?l 0 dst off ([], s)) (\<lambda>(r, u', t). r = int (0 + ?l) \<and>
    u' = [] @ map (\<lambda>i. (dst + of_nat i, file_byte D x (unat off + i))) [0..<?l] \<and> tx_at h st (i_dev x) S p D {} L t \<and> fs_same s t)"
    by (rule readi_loop_law [OF assms(1-3) refl assms(4-7)]) (use ol sz assms(8) in \<open>auto simp: mapped_def\<close>)
  then have "wp (readi_loop h p collect ip ?l 0 dst off ([], s)) (\<lambda>(r, u', t). i32 r = int (length bs) \<and> u' = delivered dst bs \<and> tx_at h st (i_dev x) S p D {} L t \<and> fs_same s t)"
    by (rule wp_mono) (use i in \<open>auto simp: bs delivered_def\<close>)
  moreover have "\<not> off + n < off" using add by (simp add: word_less_nat_alt)
  ultimately show ?thesis using False by (simp add: readi_def assms(2) case_prod_unfold Let_def)
qed

end
