(* ===== verification/Fs_Write.thy ===== *)
theory Fs_Write
  imports Fs_Read
begin

text \<open>Writing a file: \<^verbatim>\<open>writei\<close> replaces bytes of the file and extends it.\<close>

section \<open>Bytes\<close>

text \<open>
  From \<open>D\<close> and \<open>x\<close> to \<open>D'\<close> and \<open>y\<close> the \<open>m\<close> bytes from \<open>o'\<close> on have become those of \<open>g\<close>. The other bytes the file has
  blocks for stay, and so do the blocks that are not the file's.
\<close>

definition file_written :: "nat \<Rightarrow> superblock \<Rightarrow> nat \<Rightarrow> nat \<Rightarrow> (nat \<Rightarrow> uchar) \<Rightarrow> (nat \<Rightarrow> block) \<Rightarrow> inode \<Rightarrow> (nat \<Rightarrow> block) \<Rightarrow> inode \<Rightarrow> bool" where
  "file_written S sb o' m g D x D' y \<longleftrightarrow> file_ok S sb D' y \<and> meta_used S sb D' \<and> blocks_grow sb D x D' y \<and>
     (\<forall>i < m. file_addr D' y ((o' + i) div BSIZE) \<noteq> 0 \<and> file_byte D' y (o' + i) = g i) \<and>
     (\<forall>i < MAXFILE * BSIZE. file_addr D x (i div BSIZE) \<noteq> 0 \<longrightarrow> i < o' \<or> o' + m \<le> i \<longrightarrow> file_byte D' y i = file_byte D x i) \<and>
     (\<forall>b. \<not> is_map sb b \<longrightarrow> b \<noteq> ind_blk x \<longrightarrow> (b < unat (sb_size sb) \<longrightarrow> used sb D b) \<longrightarrow> (\<forall>j < MAXFILE. b \<noteq> file_addr D x j) \<longrightarrow> D' b = D b)"

lemma grow_addr: "blocks_grow sb D x D' y \<Longrightarrow> j < MAXFILE \<Longrightarrow> file_addr D x j \<noteq> 0 \<Longrightarrow> file_addr D' y j = file_addr D x j"
  by (auto simp: blocks_grow_def new_or_same_def)

lemma file_written_nothing: "file_ok S sb D x \<Longrightarrow> meta_used S sb D \<Longrightarrow> file_written S sb o' 0 g D x D x"
  by (simp add: file_written_def blocks_grow_def)

lemma file_grows_written:
  assumes "file_ok S sb D x" "file_grows S sb D x D' y"
  shows "file_written S sb o' 0 g D x D' y"
proof -
  note g = assms(2) [unfolded file_grows_def]
  have "file_byte D' y i = file_byte D x i" if i: "i < MAXFILE * BSIZE" "file_addr D x (i div BSIZE) \<noteq> 0" for i
  proof -
    note k = blk_less [OF i(1)]
    have "file_addr D' y (i div BSIZE) = file_addr D x (i div BSIZE)" using g grow_addr [OF _ k i(2)] by blast
    moreover have "D' (file_addr D x (i div BSIZE)) = D (file_addr D x (i div BSIZE))"
      using g file_okD(3,4) [OF assms(1) k i(2)] by (auto simp: data_blk_def meta_def)
    ultimately show ?thesis by (simp add: file_byte_def)
  qed
  then show ?thesis using g by (simp add: file_written_def)
qed

lemma file_written_more:
  assumes "file_written S sb o' m g D x D1 y" "file_written S sb (o' + m) n (\<lambda>i. g (m + i)) D1 y D2 z" "o' + m + n \<le> MAXFILE * BSIZE"
  shows "file_written S sb o' (m + n) g D x D2 z"
proof -
  note a = assms(1) [unfolded file_written_def] and b = assms(2) [unfolded file_written_def]
  have g1: "blocks_grow sb D x D1 y" and g2: "blocks_grow sb D1 y D2 z" using a b by blast+
  have new: "file_addr D2 z ((o' + i) div BSIZE) \<noteq> 0 \<and> file_byte D2 z (o' + i) = g i" if i: "i < m + n" for i
  proof (cases "i < m")
    case True
    have lt: "o' + i < MAXFILE * BSIZE" using i assms(3) by simp
    then show ?thesis using a b True grow_addr [OF g2 blk_less [OF lt]] by auto
  next
    case False
    then have e: "o' + m + (i - m) = o' + i" "m + (i - m) = i" by simp_all
    have "\<And>j. j < n \<Longrightarrow> file_addr D2 z ((o' + m + j) div BSIZE) \<noteq> 0 \<and> file_byte D2 z (o' + m + j) = g (m + j)" using b by blast
    from this [of "i - m"] show ?thesis unfolding e using False i by simp
  qed
  have old: "file_byte D2 z i = file_byte D x i" if i: "i < MAXFILE * BSIZE" "file_addr D x (i div BSIZE) \<noteq> 0" "i < o' \<or> o' + (m + n) \<le> i" for i
  proof -
    have "file_addr D1 y (i div BSIZE) \<noteq> 0" using grow_addr [OF g1 blk_less [OF i(1)] i(2)] i(2) by simp
    then show ?thesis using a b i by auto
  qed
  have frame: "D2 c = D c" if c: "\<not> is_map sb c" "c \<noteq> ind_blk x" "c < unat (sb_size sb) \<longrightarrow> used sb D c" "\<forall>j < MAXFILE. c \<noteq> file_addr D x j" for c
  proof -
    have gr: "new_or_same sb D (ind_blk x) (ind_blk y)" "\<And>j. j < MAXFILE \<Longrightarrow> new_or_same sb D (file_addr D x j) (file_addr D1 y j)"
      "c < unat (sb_size sb) \<longrightarrow> used sb D1 c" using g1 c(3) by (auto simp: blocks_grow_def)
    have "c \<noteq> ind_blk y" "c < unat (sb_size sb) \<longrightarrow> used sb D1 c" "\<forall>j < MAXFILE. c \<noteq> file_addr D1 y j"
      using new_or_same_ne [OF gr(1) c(2,3)] new_or_same_ne [OF gr(2) _ c(3)] gr(3) c(4) by blast+
    then show ?thesis using a b c by metis
  qed
  show ?thesis using blocks_grow_trans [OF g1 g2] new old frame b unfolding file_written_def by blast
qed

text \<open>One part of a write: the block \<open>a\<close> of the file gets the \<open>m\<close> bytes \<open>bs\<close> at its offset.\<close>

lemma file_written_chunk:
  assumes "file_ok S sb D x" "meta_used S sb D" "file_addr D x (o' div BSIZE) = a" "a \<noteq> 0" "o' < MAXFILE * BSIZE" "length (D a) = BSIZE"
    and "length bs \<le> BSIZE - o' mod BSIZE" "\<And>i. i < length bs \<Longrightarrow> bs ! i = g i"
  defines "D' \<equiv> D(a := take (o' mod BSIZE) (D a) @ bs @ drop (o' mod BSIZE + length bs) (D a))"
  shows "file_written S sb o' (length bs) g D x D' x"
proof -
  let ?k = "o' div BSIZE" and ?at = "o' mod BSIZE" and ?m = "length bs"
  note k = blk_less [OF assms(5)]
  have a: "data_blk S sb D a" "a \<noteq> ind_blk x" "\<not> is_map sb a" "\<And>j. j < MAXFILE \<Longrightarrow> j \<noteq> ?k \<Longrightarrow> file_addr D x j \<noteq> a"
    using file_okD(3-5) [OF assms(1) k] assms(3,4) by (auto simp: data_blk_def meta_def)
  have u: "used sb D' b = used sb D b" if "b < unat (sb_size sb)" for b unfolding D'_def by (rule used_clear [OF a(3) that])
  have ad: "file_addr D' x = file_addr D x" and ok: "file_ok S sb D' x" using file_ok_cong [OF assms(1), of D'] u a(2) by (auto simp: D'_def)
  have at: "?at + ?m \<le> BSIZE" "?at < BSIZE" using assms(7) by (auto simp: BSIZE_def)
  have new: "file_byte D' x (o' + i) = g i" if "i < ?m" for i
  proof -
    have "i < BSIZE - ?at" using that assms(7) by simp
    note p = blk_pos [OF this]
    show ?thesis using that assms(3,6,8) at by (simp add: file_byte_def ad p) (simp add: D'_def nth_append)
  qed
  have old: "file_byte D' x i = file_byte D x i" if i: "i < MAXFILE * BSIZE" "i < o' \<or> o' + ?m \<le> i" for i
  proof (cases "i div BSIZE = ?k")
    case True
    have e: "i = BSIZE * ?k + i mod BSIZE" "o' = BSIZE * ?k + ?at" using True mult_div_mod_eq [of BSIZE i] mult_div_mod_eq [of BSIZE o'] by simp_all
    then have "i mod BSIZE < ?at \<or> ?at + ?m \<le> i mod BSIZE" using i(2) by linarith
    moreover have "i mod BSIZE < BSIZE" by (simp add: BSIZE_def)
    ultimately have "D' a ! (i mod BSIZE) = D a ! (i mod BSIZE)" using assms(6) at by (auto simp: D'_def nth_append)
    then show ?thesis using True assms(3) by (simp add: file_byte_def ad)
  next
    case False
    then have "D' (file_addr D x (i div BSIZE)) = D (file_addr D x (i div BSIZE))" using a(4) [OF blk_less [OF i(1)]] by (simp add: D'_def)
    then show ?thesis by (simp add: file_byte_def ad)
  qed
  have "file_addr D' x ((o' + i) div BSIZE) \<noteq> 0" if "i < ?m" for i
    using that blk_pos(1) [of i o'] assms(3,4,7) by (simp add: ad)
  then show ?thesis unfolding file_written_def
    using ok assms(2) u new old ad k assms(3) by (auto simp: blocks_grow_def meta_used_def) (auto simp: D'_def)
qed

section \<open>The loop of writei\<close>

text \<open>
  The memory of the caller as a function \<open>f\<close> of the address. A copy from it gives the bytes it was asked for, or it fails before it has stored
  one. When \<^verbatim>\<open>either_copyin\<close> fails in the middle of a part, the bytes stored so far are in the buffer of a block that is not logged, and the
  cache no longer agrees with disk and log; that case is left out here.
\<close>

definition copies_from :: "(uint64 \<Rightarrow> nat \<Rightarrow> 'u \<Rightarrow> (int \<times> uchar list) res) \<Rightarrow> 'u \<Rightarrow> (uint64 \<Rightarrow> uchar) \<Rightarrow> bool" where
  "copies_from get u f \<longleftrightarrow> (\<forall>a n. get a n u = Inr (0, map (\<lambda>i. f (a + of_nat i)) [0..<n]) \<or> get a n u = Inr (-1, []))"

text \<open>The part of a write at offset \<open>o'\<close> with \<open>l\<close> bytes to go, and that the copy fails after \<open>m\<close> of \<open>n\<close> bytes.\<close>

definition part :: "nat \<Rightarrow> nat \<Rightarrow> nat" where
  "part o' l = min l (BSIZE - o' mod BSIZE)"

definition copy_fails :: "(uint64 \<Rightarrow> nat \<Rightarrow> 'u \<Rightarrow> (int \<times> uchar list) res) \<Rightarrow> 'u \<Rightarrow> uint64 \<Rightarrow> nat \<Rightarrow> nat \<Rightarrow> nat \<Rightarrow> bool" where
  "copy_fails get u src o' n m \<longleftrightarrow> get (src + of_nat m) (part (o' + m) (n - m)) u = Inr (-1, [])"

lemma copy_fails_more: "copy_fails get u (src + of_nat k) (o' + k) (n - k) m = copy_fails get u src o' n (k + m)"
  by (simp add: copy_fails_def add.assoc)

definition fetch :: "uint64 \<Rightarrow> nat \<Rightarrow> (uint64 \<Rightarrow> uchar) \<Rightarrow> (int \<times> uchar list) res" where
  "fetch a n f = Inr (0, map (\<lambda>i. f (a + of_nat i)) [0..<n])"

lemma fetch_copies: "copies_from fetch f f" "\<not> copy_fails fetch f src o' n m"
  by (simp_all add: copies_from_def copy_fails_def fetch_def)

lemma set_bdata_same: "set_bdata b (bdata s b) s = s"
  by (simp add: set_bdata_def bdata_def set_cache_def set_data_def set_buf_def with_bufs_def)

text \<open>The number of blocks with a byte among the \<open>l\<close> from \<open>o'\<close> on; each needs up to six blocks in the log.\<close>

definition nblk :: "nat \<Rightarrow> nat \<Rightarrow> nat" where
  "nblk o' l = (if l = 0 then 0 else Suc ((o' + l - 1) div BSIZE) - o' div BSIZE)"

lemma nblk_step:
  assumes "0 < l" "m = min l (BSIZE - o' mod BSIZE)"
  shows "nblk o' l = Suc (nblk (o' + m) (l - m))"
proof (cases "l \<le> BSIZE - o' mod BSIZE")
  case True
  then have "(o' + (l - 1)) div BSIZE = o' div BSIZE" using assms(1) by (intro blk_pos(1)) auto
  then show ?thesis using True assms by (simp add: nblk_def min_def)
next
  case False
  have pos: "0 < BSIZE" by (simp add: BSIZE_def)
  have m: "m = BSIZE - o' mod BSIZE" "m < l" using False assms(2) by auto
  have "o' + m = BSIZE * Suc (o' div BSIZE)" unfolding mult_Suc_right using m(1) mult_div_mod_eq [of BSIZE o'] mod_less_divisor [OF pos, of o'] by linarith
  then have e: "(o' + m) div BSIZE = Suc (o' div BSIZE)" using pos by simp
  have "Suc (o' div BSIZE) \<le> (o' + l - 1) div BSIZE" unfolding e [symmetric] by (rule div_le_mono) (use m(2) in simp)
  then show ?thesis using m(2) e assms(1) by (simp add: nblk_def)
qed

definition writes_post :: "'m hw \<Rightarrow> ('m \<Rightarrow> int \<Rightarrow> int \<Rightarrow> block) \<Rightarrow> nat \<Rightarrow> int \<Rightarrow> nat \<Rightarrow> nat \<Rightarrow> nat \<Rightarrow> (nat \<Rightarrow> uchar) \<Rightarrow> (nat \<Rightarrow> block) \<Rightarrow> nat set \<Rightarrow> 'm fs \<Rightarrow> nat \<Rightarrow> (nat \<Rightarrow> bool) \<Rightarrow>
    nat \<times> uint32 \<times> 'm fs \<Rightarrow> bool" where
  "writes_post h st S p ip o' left g D L s tot E r \<longleftrightarrow> (\<exists>m D' y L'. let x = itable s ! ip; t = snd (snd r) in
     m \<le> left \<and> fst r = tot + m \<and> unat (fst (snd r)) = o' + m \<and> tx_at h st (i_dev x) S p D' {} L' t \<and> fs_same (upd_inode ip (\<lambda>_. y) s) t \<and>
     file_written S (fsb s) o' m g D x D' y \<and> (m < left \<longrightarrow> full_disk (fsb s) D' \<or> E m) \<and> card L' \<le> card L + 6 * nblk o' left)"

lemma writes_postI:
  assumes "x = itable s ! ip" "m \<le> left" "tot' = tot + m" "unat off = o' + m" "tx_at h st (i_dev x) S p D' {} L' t" "fs_same (upd_inode ip (\<lambda>_. y) s) t"
    and "file_written S (fsb s) o' m g D x D' y" "m < left \<Longrightarrow> full_disk (fsb s) D' \<or> E m" "card L' \<le> card L + 6 * nblk o' left"
  shows "writes_post h st S p ip o' left g D L s tot E (tot', off, t)"
  unfolding writes_post_def Let_def fst_conv snd_conv using assms by blast

text \<open>After one part of \<open>m\<close> bytes, which led to \<open>D1\<close>, \<open>y\<close> and \<open>L1\<close>, comes the rest.\<close>

lemma writes_post_more:
  assumes "writes_post h st S p ip (o' + m) (left - m) (\<lambda>i. g (m + i)) D1 L1 t (tot + m) E' r" "\<And>i. E' i = E (m + i)" "x = itable s ! ip" "ip < length (itable s)"
    and "fs_same (upd_inode ip (\<lambda>_. y) s) t" "file_written S (fsb s) o' m g D x D1 y" "m \<le> left" "o' + left \<le> MAXFILE * BSIZE"
    and "card L1 + 6 * nblk (o' + m) (left - m) \<le> card L + 6 * nblk o' left"
  shows "writes_post h st S p ip o' left g D L s tot E r"
proof -
  have y: "itable t ! ip = y" "fsb t = fsb s" "i_dev y = i_dev x"
    using assms(4,5) blocks_grow_fields [of "fsb s" D x D1 y] assms(6) by (simp_all add: fs_same_def upd_inode_def file_written_def)
  from assms(1) obtain n D' z L' where r: "n \<le> left - m" "fst r = tot + m + n" "unat (fst (snd r)) = o' + m + n" "tx_at h st (i_dev x) S p D' {} L' (snd (snd r))"
    "fs_same (upd_inode ip (\<lambda>_. z) t) (snd (snd r))" "file_written S (fsb s) (o' + m) n (\<lambda>i. g (m + i)) D1 y D' z" "n < left - m \<longrightarrow> full_disk (fsb s) D' \<or> E (m + n)"
    "card L' \<le> card L1 + 6 * nblk (o' + m) (left - m)"
    unfolding writes_post_def Let_def y assms(2) by blast
  have "fs_same (upd_inode ip (\<lambda>_. z) s) (snd (snd r))" using r(5) assms(5) by (auto simp: fs_same_def upd_inode_def)
  moreover have "file_written S (fsb s) o' (m + n) g D x D' z" by (rule file_written_more [OF assms(6) r(6)]) (use r(1) assms(7,8) in simp)
  ultimately show ?thesis using r assms(3,7,9)
    by (cases r) (auto intro!: writes_postI [where m = "m + n" and y = z])
qed

lemma writei_loop_law:
  assumes "tx_at h st (i_dev x) S p D {} L s" "itable s ! ip = x" "ip < length (itable s)" "fsb s = sb" "layout (capacity h 0) S sb" "meta_used S sb D"
    and "file_ok S sb D x" "unat off + left \<le> MAXFILE * BSIZE" "card L + 6 * nblk (unat off) left < LOGSIZE" "copies_from get u f"
  shows "wp (writei_loop h p get u ip left tot src off s) (writes_post h st S p ip (unat off) left (\<lambda>i. f (src + of_nat i)) D L s tot (copy_fails get u src (unat off) left))"
  using assms(1-9)
proof (induction left arbitrary: tot src off s D x L rule: less_induct)
  case (less left)
  let ?o = "unat off" and ?g = "\<lambda>i. f (src + of_nat i)"
  show ?case
  proof (cases "left = 0")
    case True
    then show ?thesis using less.prems fs_same_id [of s s ip]
      by (subst writei_loop.simps) (auto intro!: writes_postI file_written_nothing simp: fs_same_def)
  next
    case False
    let ?k = "?o div BSIZE" and ?at = "?o mod BSIZE"
    define m where "m = min left (BSIZE - ?at)"
    have m: "0 < m" "m \<le> left" "m \<le> BSIZE - ?at" using False by (auto simp: m_def BSIZE_def)
    have off: "unat (off + of_nat m) = ?o + m" by (rule unat_adv) (use m(2) less.prems(8) in simp)
    have k: "?k < MAXFILE" "?o < MAXFILE * BSIZE" using less.prems(8) False blk_less [of ?o] by auto
    have nb: "nblk ?o left = Suc (nblk (?o + m) (left - m))" by (rule nblk_step) (use False in \<open>simp_all add: m_def\<close>)
    let ?E = "copy_fails get u src ?o left"
    let ?R = "writes_post h st S p ip ?o left ?g D L s tot ?E"
    let ?next = "\<lambda>addr s. kbind (fs_bread h p (i_dev (itable s ! ip)) addr s) (\<lambda>(bp, s).
                kbind (get src m u) (\<lambda>(r, bs).
                let s = set_bdata bp (take ?at (bdata s bp) @ bs @ drop (?at + length bs) (bdata s bp)) s in
                if r = -1 then kbind (fs_brelse p bp s) (\<lambda>s. Inr (tot, off, s))
                else kbind (fs_log_write bp s) (\<lambda>s. kbind (fs_brelse p bp s) (\<lambda>s.
                     writei_loop h p get u ip (left - m) (tot + m) (src + of_nat m) (off + of_nat m) s))))"
    have step: "wp (if addr = 0 then Inr (tot, off, t) else ?next addr t) ?R" if post: "bmap_post h st S p ip ?k 5 D L s (addr, t)" for addr t
    proof -
      from post obtain D1 y L1 where b: "tx_at h st (i_dev x) S p D1 {} L1 t" "fs_same (upd_inode ip (\<lambda>_. y) s) t" "file_grows S sb D x D1 y" "card L1 \<le> card L + 5"
        "if addr = 0 then full_disk sb D1 else unat addr = file_addr D1 y ?k"
        unfolding bmap_post_def Let_def less.prems(2,4) fst_conv snd_conv by blast
      note g = b(3) [unfolded file_grows_def]
      note w0 = file_grows_written [OF less.prems(7) b(3), of ?o ?g]
      show ?thesis
      proof (cases "addr = 0")
        case True
        then show ?thesis using b w0 less.prems(2,4) nb by (auto intro!: writes_postI [where m = 0])
      next
        case False
        let ?a = "file_addr D1 y ?k" and ?bs = "map ?g [0..<m]"
        let ?x = "take ?at (D1 ?a) @ ?bs @ drop (?at + m) (D1 ?a)"
        have a1: "unat addr = ?a" using b(5) False by simp
        have "unat addr \<noteq> 0" using False by (simp add: unat_eq_0)
        then have a: "unat addr = ?a" "?a \<noteq> 0" using a1 by simp_all
        have ad: "addr = of_nat ?a" unfolding a(1) [symmetric] by simp
        have da: "data_blk S sb D1 ?a" using file_okD(3) [of S sb D1 y ?k] g k(1) a(2) by blast
        then have ac: "?a < capacity h 0" "\<not> in_log S ?a" using less.prems(5) by (auto simp: data_blk_def layout_def meta_def)
        have len: "length (D1 ?a) = BSIZE" by (rule lb.size_law [OF b(1) ac(1)])
        have lx: "length ?x = BSIZE" using len m(3) by (simp add: BSIZE_def)
        have dev: "itable t ! ip = y" "i_dev y = i_dev x" using b(2) less.prems(3) blocks_grow_fields(1) [of sb D x D1 y] g by (simp_all add: fs_same_def upd_inode_def)
        have cl: "card ({} :: nat set) + card L1 < NBUF" "card L1 + 1 < LOGSIZE" using b(4) less.prems(9) nb by (simp_all add: NBUF_def LOGSIZE_def)
        have w1: "file_written S sb ?o m ?g D x (D1(?a := ?x)) y"
          using file_written_more [OF w0, of m "D1(?a := ?x)" y] file_written_chunk [of S sb D1 y ?o ?a ?bs ?g] g k(2) a(2) len m less.prems(8) by simp
        have c1: "card (insert ?a L1) \<le> card L + 6" using b(4) lb.fin_law [OF b(1)] by (simp add: card_insert_if)
        have rest: "wp (writei_loop h p get u ip (left - m) (tot + m) (src + of_nat m) (off + of_nat m) w) ?R"
          if w: "tx_at h st (i_dev x) S p (D1(?a := ?x)) {} (insert ?a L1) w" "fs_same t w" for w
        proof -
          have su: "fs_same (upd_inode ip (\<lambda>_. y) s) w" by (rule fs_same_trans [OF b(2) w(2)])
          have "wp (writei_loop h p get u ip (left - m) (tot + m) (src + of_nat m) (off + of_nat m) w)
             (writes_post h st S p ip (unat (off + of_nat m)) (left - m) (\<lambda>i. f (src + of_nat m + of_nat i)) (D1(?a := ?x)) (insert ?a L1) w (tot + m) (copy_fails get u (src + of_nat m) (unat (off + of_nat m)) (left - m)))"
          proof (rule less.IH [where x = y])
            show "itable w ! ip = y" "ip < length (itable w)" "fsb w = sb" using su less.prems(3,4) by (simp_all add: fs_same_def upd_inode_def)
            show "tx_at h st (i_dev y) S p (D1(?a := ?x)) {} (insert ?a L1) w" using w(1) dev(2) by simp
            show "meta_used S sb (D1(?a := ?x))" "file_ok S sb (D1(?a := ?x)) y" using w1 by (simp_all add: file_written_def)
          qed (use m less.prems(5,8,9) nb c1 off in auto)
          then show ?thesis
          proof (rule wp_mono)
            fix r
            assume r: "writes_post h st S p ip (unat (off + of_nat m)) (left - m) (\<lambda>i. f (src + of_nat m + of_nat i)) (D1(?a := ?x)) (insert ?a L1) w (tot + m) (copy_fails get u (src + of_nat m) (unat (off + of_nat m)) (left - m)) r"
            show "?R r"
              by (rule writes_post_more [where m = m and t = w and x = x and y = y and ?D1.0 = "D1(?a := ?x)" and ?L1.0 = "insert ?a L1"
                  and E' = "copy_fails get u (src + of_nat m) (?o + m) (left - m)"])
                (use r su w1 m(2) less.prems(2,3,4,8) nb c1 in \<open>auto simp: off add.assoc copy_fails_more\<close>)
          qed
        qed
        have "wp (?next addr t) ?R"
        proof (cases "get src m u = Inr (-1, [])")
          case True
          then have E: "?E 0" by (simp add: copy_fails_def part_def m_def)
          show ?thesis unfolding wp_kbind dev ad
            by (rule lb.wp_peek [OF b(1) ac(1) _ cl(1), where Q = "\<lambda>w. ?R (tot, off, w)"])
              (use True E b(2,4) w0 less.prems(2,4) nb fs_same_trans in \<open>auto simp: set_bdata_same intro!: writes_postI [where m = 0] dest!: lb.keeps_same\<close>)
        next
          case False
          then have get: "get src m u = Inr (0, ?bs)" using assms(10) unfolding copies_from_def by blast
          show ?thesis unfolding wp_kbind dev ad
            by (rule lb.wp_change [OF b(1) ac(1) _ cl(1) ac(2) cl(2) lx, where Q = "\<lambda>w. wp (writei_loop h p get u ip (left - m) (tot + m) (src + of_nat m) (off + of_nat m) w) ?R"])
              (use rest in \<open>auto simp: get dest: lb.keeps_same\<close>)
        qed
        then show ?thesis using False by simp
      qed
    qed
    have "wp (bmap h p ip (off div of_nat BSIZE) s) (bmap_post h st S p ip ?k 5 D L s)"
      by (rule wp_bmap [OF less.prems(1-3) _ _ _ unat_blk k(1)]) (use less.prems nb in auto)
    then have "wp (bmap h p ip (off div of_nat BSIZE) s) (\<lambda>(addr, t). wp (if addr = 0 then Inr (tot, off, t) else ?next addr t) ?R)"
    proof (rule wp_mono)
      fix r
      assume "bmap_post h st S p ip ?k 5 D L s r"
      then show "case r of (addr, t) \<Rightarrow> wp (if addr = 0 then Inr (tot, off, t) else ?next addr t) ?R" by (cases r) (simp only: prod.case step)
    qed
    then show ?thesis using False unfolding m_def
      by (subst writei_loop.simps) (simp only: if_False wp_kbind case_prod_unfold Let_def)
  qed
qed

end
