(* ===== verification/Fs_Inode.thy ===== *)
theory Fs_Inode
  imports Fs_Write
begin

text \<open>Inodes on the disk: \<^verbatim>\<open>iupdate\<close> writes an inode to its place, where it can be read back.\<close>

section \<open>Inodes on the disk\<close>

lemma length_dinode: "length (d_addrs d) = NDIRECT + 1 \<Longrightarrow> length (dinode_bytes d) = 64"
proof -
  assume "length (d_addrs d) = NDIRECT + 1"
  moreover have "length (concat (map le32 ws)) = 4 * length ws" for ws by (induction ws) (simp_all add: le32_def)
  ultimately show ?thesis by (simp add: dinode_bytes_def le16_def le32_def NDIRECT_def)
qed

lemma length_put_dinode [simp]:
  assumes "length (d_addrs d) = NDIRECT + 1" "k < IPB" "length bs = BSIZE"
  shows "length (put_dinode k d bs) = BSIZE"
  using assms length_dinode [OF assms(1)] by (simp add: put_dinode_def IPB_def BSIZE_def)

lemma put_dinode_nth:
  assumes "length (d_addrs d) = NDIRECT + 1" "k < IPB" "length bs = BSIZE" "i < BSIZE"
  shows "put_dinode k d bs ! i = (if 64 * k \<le> i \<and> i < 64 * k + 64 then dinode_bytes d ! (i - 64 * k) else bs ! i)"
proof -
  have "64 * k + 64 \<le> BSIZE" using assms(2) by (simp add: IPB_def BSIZE_def)
  then show ?thesis using assms(3,4) length_dinode [OF assms(1)] by (auto simp: put_dinode_def nth_append)
qed

lemma get16_le16: "bs ! a = le16 w ! 0 \<Longrightarrow> bs ! (a + 1) = le16 w ! 1 \<Longrightarrow> get16 a bs = w"
  by (simp add: get16_def le16_def) (rule bit_word_eqI, auto simp: bit_simps)

lemma get32_cong:
  assumes "\<And>i. i < 4 \<Longrightarrow> bs ! (4 * k + i) = cs ! (4 * k + i)" "4 * k + 4 \<le> length bs" "4 * k + 4 \<le> length cs"
  shows "get32 k bs = get32 k cs"
  using assms(1) [of 0] assms(1) [of 1] assms(1) [of 2] assms(1) [of 3] assms(2,3) by (simp add: get32_def of_le32_def)

text \<open>An inode written to its place is read back; the other inodes of the block are as before.\<close>

lemma dinode_of_cong:
  assumes "\<And>i. i < 64 \<Longrightarrow> bs ! (64 * k + i) = cs ! (64 * k + i)" "64 * k + 64 \<le> length bs" "64 * k + 64 \<le> length cs"
  shows "dinode_of k bs = dinode_of k cs"
proof -
  have w: "get32 (16 * k + c) bs = get32 (16 * k + c) cs" if "c < 16" for c
  proof (rule get32_cong)
    fix i :: nat
    assume "i < 4"
    then have "bs ! (64 * k + (4 * c + i)) = cs ! (64 * k + (4 * c + i))" by (intro assms(1)) (use that in linarith)
    then show "bs ! (4 * (16 * k + c) + i) = cs ! (4 * (16 * k + c) + i)" by (simp add: algebra_simps)
  qed (use assms(2,3) that in simp_all)
  have h: "get16 (64 * k + c) bs = get16 (64 * k + c) cs" if "c < 8" for c
    using assms(1) [of c] assms(1) [of "c + 1"] that by (simp add: get16_def)
  show ?thesis using h [of 0] h [of 2] h [of 4] h [of 6] w [of 2] w [of "3 + _"] by (simp add: dinode_of_def NDIRECT_def add.assoc)
qed

lemma dinode_of_put:
  assumes "length (d_addrs d) = NDIRECT + 1" "k < IPB" "length bs = BSIZE"
  shows "dinode_of k (put_dinode k d bs) = d" "j < IPB \<Longrightarrow> j \<noteq> k \<Longrightarrow> dinode_of j (put_dinode k d bs) = dinode_of j bs"
proof -
  let ?p = "put_dinode k d bs" and ?r = "drop (64 * k + 64) bs"
  have kb: "64 * k + 64 \<le> BSIZE" using assms(2) by (simp add: IPB_def BSIZE_def)
  then have dr: "drop (64 * k) ?p = dinode_bytes d @ ?r" using assms(3) by (simp add: put_dinode_def)
  have b: "?p ! (64 * k + i) = dinode_bytes d ! i" if "i < 64" for i
    using put_dinode_nth [OF assms, of "64 * k + i"] that kb by simp
  have w: "get32 (16 * k + c) ?p = of_le32 (drop (4 * c) (dinode_bytes d @ ?r))" for c
    unfolding get32_def dr [symmetric] drop_drop by (simp add: algebra_simps)
  have cc: "drop (4 * j) (concat (map le32 ws) @ zs) = le32 (ws ! j) @ concat (map le32 (drop (Suc j) ws)) @ zs" if "j < length ws" for j ws zs
    using that
  proof (induction ws arbitrary: j)
    case (Cons w ws)
    show ?case
    proof (cases j)
      case (Suc i)
      have "length (le32 w) = 4" by (simp add: le32_def)
      then have "drop (4 * Suc i) (le32 w @ concat (map le32 ws) @ zs) = drop (4 * i) (concat (map le32 ws) @ zs)" by simp
      then show ?thesis using Cons Suc by simp
    qed simp
  qed simp
  let ?h = "le16 (d_type d) @ le16 (d_major d) @ le16 (d_minor d) @ le16 (d_nlink d) @ le32 (d_size d)"
  have ll: "length (le16 v) = 2" "length (le32 v') = 4" for v v' by (simp_all add: le16_def le32_def)
  have h: "dinode_bytes d @ ?r = ?h @ concat (map le32 (d_addrs d)) @ ?r" by (simp add: dinode_bytes_def)
  have a: "get32 (16 * k + 3 + j) ?p = d_addrs d ! j" if "j < length (d_addrs d)" for j
  proof -
    have "drop (4 * (3 + j)) (?h @ concat (map le32 (d_addrs d)) @ ?r) = drop (4 * j) (concat (map le32 (d_addrs d)) @ ?r)"
      by (simp add: ll)
    then show ?thesis using w [of "3 + j"] cc [OF that] by (simp only: h add.assoc of_le32_le32)
  qed
  have sz: "get32 (16 * k + 2) ?p = d_size d" using w [of 2] by (simp add: dinode_bytes_def le16_def of_le32_le32)
  have gb: "get16 (64 * k + c) ?p = v" if "c + 1 < 64" "dinode_bytes d ! c = le16 v ! 0" "dinode_bytes d ! (c + 1) = le16 v ! 1" for c v
    by (rule get16_le16) (use b [of c] b [of "c + 1"] that in \<open>simp_all add: add.assoc\<close>)
  have g: "get16 (64 * k) ?p = d_type d" "get16 (64 * k + 2) ?p = d_major d" "get16 (64 * k + 4) ?p = d_minor d" "get16 (64 * k + 6) ?p = d_nlink d"
    using gb [of 0 "d_type d"] gb [of 2 "d_major d"] gb [of 4 "d_minor d"] gb [of 6 "d_nlink d"] by (simp_all add: dinode_bytes_def le16_def)
  have "map (\<lambda>j. get32 (16 * k + 3 + j) ?p) [0..<NDIRECT + 1] = d_addrs d"
    by (rule nth_equalityI) (use assms(1) a in \<open>auto simp del: upt_Suc simp: nth_map_upt\<close>)
  then show "dinode_of k ?p = d" using g sz by (simp add: dinode_of_def)
  assume j: "j < IPB" "j \<noteq> k"
  have jb: "64 * j + 64 \<le> BSIZE" using j(1) by (simp add: IPB_def BSIZE_def)
  show "dinode_of j ?p = dinode_of j bs"
  proof (rule dinode_of_cong)
    fix i :: nat
    assume i: "i < 64"
    have "\<not> (64 * k \<le> 64 * j + i \<and> 64 * j + i < 64 * k + 64)" using j(2) i by linarith
    then show "?p ! (64 * j + i) = bs ! (64 * j + i)" using i jb by (subst put_dinode_nth [OF assms]) auto
  qed (use assms jb in simp_all)
qed

text \<open>The inode \<open>i\<close> on the disk, and the disk after the inode \<open>x\<close> is written to its place.\<close>

definition disk_inode :: "superblock \<Rightarrow> (nat \<Rightarrow> block) \<Rightarrow> nat \<Rightarrow> dinode" where
  "disk_inode sb D i = dinode_of (i mod IPB) (D (inode_blk sb i))"

definition iwritten :: "superblock \<Rightarrow> inode \<Rightarrow> (nat \<Rightarrow> block) \<Rightarrow> (nat \<Rightarrow> block)" where
  "iwritten sb x D = (let i = unat (i_inum x); n = inode_blk sb i in D(n := put_dinode (i mod IPB) (dinode_copy x) (D n)))"

lemma inode_place:
  assumes "layout cap S sb" "i < unat (sb_ninodes sb)"
  shows "inode_blk sb i < cap" "\<not> in_log S (inode_blk sb i)" "is_inodes sb (inode_blk sb i)" "\<not> is_map sb (inode_blk sb i)" "inode_blk sb i \<noteq> 0"
  using assms by (auto simp: layout_def is_inodes_def)

lemma IBLOCK_nat:
  "IBLOCK i sb = of_nat (inode_blk sb (unat i))"
  by (simp add: IBLOCK_def inode_blk_def)

lemma disk_inode_iwritten:
  assumes "length (i_addrs x) = NDIRECT + 1" "length (D (inode_blk sb (unat (i_inum x)))) = BSIZE"
  shows "disk_inode sb (iwritten sb x D) (unat (i_inum x)) = dinode_copy x"
    "j \<noteq> unat (i_inum x) \<Longrightarrow> disk_inode sb (iwritten sb x D) j = disk_inode sb D j"
proof -
  let ?i = "unat (i_inum x)"
  have k: "i mod IPB < IPB" for i by (simp add: IPB_def BSIZE_def)
  have l: "length (d_addrs (dinode_copy x)) = NDIRECT + 1" using assms(1) by (simp add: dinode_copy_def)
  note d = dinode_of_put [OF l k assms(2)]
  show "disk_inode sb (iwritten sb x D) ?i = dinode_copy x" by (simp add: disk_inode_def iwritten_def Let_def d)
  show "disk_inode sb (iwritten sb x D) j = disk_inode sb D j" if "j \<noteq> ?i"
  proof (cases "inode_blk sb j = inode_blk sb ?i")
    case True
    then have "j div IPB = ?i div IPB" by (simp add: inode_blk_def)
    then have "j mod IPB \<noteq> ?i mod IPB" using that by (metis div_mult_mod_eq)
    then show ?thesis using True by (simp add: disk_inode_def iwritten_def Let_def d(2) [OF k])
  qed (simp add: disk_inode_def iwritten_def Let_def)
qed

lemma wp_iupdate:
  assumes "tx_at h st (i_dev x) S p D {} L s" "itable s ! ip = x" "fsb s = sb" "layout (capacity h 0) S sb" "unat (i_inum x) < unat (sb_ninodes sb)"
    and "length (i_addrs x) = NDIRECT + 1" "card L + 1 < LOGSIZE"
    and "\<And>t. tx_at h st (i_dev x) S p (iwritten sb x D) {} (insert (inode_blk sb (unat (i_inum x))) L) t \<Longrightarrow> fs_same s t \<Longrightarrow> Q t"
  shows "wp (iupdate h p ip s) Q"
proof -
  let ?i = "unat (i_inum x)"
  let ?n = "inode_blk sb ?i"
  let ?x = "put_dinode (?i mod IPB) (dinode_copy x) (D ?n)"
  note pl = inode_place [OF assms(4,5)]
  have len: "length ?x = BSIZE"
    using lb.size_law [OF assms(1) pl(1)] assms(6) by (intro length_put_dinode) (simp_all add: dinode_copy_def IPB_def BSIZE_def)
  have nb: "card ({} :: nat set) + card L < NBUF" using assms(7) by (simp add: NBUF_def LOGSIZE_def)
  have "wp (fs_bread h p (i_dev x) (of_nat ?n) s) (\<lambda>(bp, s). wp (kbind (fs_log_write bp (set_bdata bp (put_dinode (?i mod IPB) (dinode_copy x) (bdata s bp)) s)) (fs_brelse p bp)) Q)"
    by (rule lb.wp_change [OF assms(1) pl(1) _ nb pl(2) assms(7) len, where Q = Q])
      (auto simp: iwritten_def Let_def intro: assms(8) dest: lb.keeps_same)
  then show ?thesis by (simp add: iupdate_def assms(2,3) IBLOCK_nat Let_def case_prod_unfold)
qed

end
