(* ===== verification/Fs_Spec.thy ===== *)
theory Fs_Spec
  imports Fs_Inode
begin

text \<open>A file is a list of bytes: what \<^verbatim>\<open>writei\<close> does to it, with the inode written back by \<^verbatim>\<open>iupdate\<close>.\<close>

section \<open>Writing a file\<close>

text \<open>The blocks of a file. Files that share none are apart.\<close>

definition blocks_of :: "(nat \<Rightarrow> block) \<Rightarrow> inode \<Rightarrow> nat set" where
  "blocks_of D x = insert (ind_blk x) (file_addr D x ` {..<MAXFILE}) - {0}"

definition apart :: "(nat \<Rightarrow> block) \<Rightarrow> inode \<Rightarrow> inode \<Rightarrow> bool" where
  "apart D x z \<longleftrightarrow> blocks_of D x \<inter> blocks_of D z = {}"

lemma blocks_of_data: "file_ok S sb D x \<Longrightarrow> b \<in> blocks_of D x \<Longrightarrow> data_blk S sb D b"
  using file_okD(2,3) by (auto simp: blocks_of_def)

text \<open>A file whose blocks stay as they are is as before.\<close>

lemma untouched:
  assumes "file_ok S sb D z" "\<forall>b \<in> blocks_of D z. D' b = D b" "\<forall>b < unat (sb_size sb). used sb D b \<longrightarrow> used sb D' b"
  shows "file_ok S sb D' z" "file_addr D' z = file_addr D z" "blocks_of D' z = blocks_of D z"
    "i < MAXFILE * BSIZE \<Longrightarrow> file_addr D z (i div BSIZE) \<noteq> 0 \<Longrightarrow> file_byte D' z i = file_byte D z i"
    "mapped D z n \<Longrightarrow> mapped D' z n" "mapped D z (unat (i_size z)) \<Longrightarrow> file_bytes D' z = file_bytes D z"
proof -
  have i: "ind_blk z \<noteq> 0 \<Longrightarrow> D' (ind_blk z) = D (ind_blk z)" using assms(2) by (simp add: blocks_of_def)
  show ok: "file_ok S sb D' z" and a: "file_addr D' z = file_addr D z" by (rule file_ok_cong [OF assms(1)], erule i, use assms(3) in blast)+
  show "blocks_of D' z = blocks_of D z" by (simp add: blocks_of_def a)
  show b: "file_byte D' z i = file_byte D z i" if "i < MAXFILE * BSIZE" "file_addr D z (i div BSIZE) \<noteq> 0" for i
  proof -
    have "file_addr D z (i div BSIZE) \<in> blocks_of D z" using that(2) blk_less [OF that(1)] by (simp add: blocks_of_def)
    then show ?thesis by (simp add: file_byte_def a assms(2))
  qed
  show "mapped D z n \<Longrightarrow> mapped D' z n" by (simp add: mapped_def a)
  show "mapped D z (unat (i_size z)) \<Longrightarrow> file_bytes D' z = file_bytes D z" using b by (auto simp: mapped_def file_bytes_def)
qed

text \<open>Neither the size nor the inode on the disk bear on where the blocks of a file are.\<close>

lemma size_blocks [simp]:
  "ind_blk (x\<lparr>i_size := v\<rparr>) = ind_blk x" "file_addr D (x\<lparr>i_size := v\<rparr>) = file_addr D x" "file_byte D (x\<lparr>i_size := v\<rparr>) = file_byte D x"
  "file_ok S sb D (x\<lparr>i_size := v\<rparr>) = file_ok S sb D x" "mapped D (x\<lparr>i_size := v\<rparr>) = mapped D x" "blocks_of D (x\<lparr>i_size := v\<rparr>) = blocks_of D x"
proof -
  show i: "ind_blk (x\<lparr>i_size := v\<rparr>) = ind_blk x" by (simp add: ind_blk_def)
  show a: "file_addr D (x\<lparr>i_size := v\<rparr>) = file_addr D x" by (simp add: file_addr_def i fun_eq_iff)
  show "file_byte D (x\<lparr>i_size := v\<rparr>) = file_byte D x" "file_ok S sb D (x\<lparr>i_size := v\<rparr>) = file_ok S sb D x"
    "mapped D (x\<lparr>i_size := v\<rparr>) = mapped D x" "blocks_of D (x\<lparr>i_size := v\<rparr>) = blocks_of D x"
    by (simp_all add: file_byte_def file_ok_def mapped_def blocks_of_def a i fun_eq_iff)
qed

lemma iwritten_keeps:
  assumes "layout cap S sb" "unat (i_inum x) < unat (sb_ninodes sb)" "b < unat (sb_size sb)"
  shows "used sb (iwritten sb x D) b = used sb D b" "data_blk S sb D b \<Longrightarrow> iwritten sb x D b = D b"
  using inode_place [OF assms(1,2)] assms(3) used_clear by (auto simp: iwritten_def Let_def data_blk_def meta_def)

text \<open>What a write of the \<open>m\<close> bytes of \<open>g\<close> at \<open>o'\<close> does to the disk and the inode.\<close>

definition file_replaced :: "nat \<Rightarrow> superblock \<Rightarrow> nat \<Rightarrow> nat \<Rightarrow> (nat \<Rightarrow> uchar) \<Rightarrow> (nat \<Rightarrow> block) \<Rightarrow> inode \<Rightarrow> (nat \<Rightarrow> block) \<Rightarrow> inode \<Rightarrow> bool" where
  "file_replaced S sb o' m g D x D' y \<longleftrightarrow> file_ok S sb D' y \<and> meta_used S sb D' \<and> mapped D' y (unat (i_size y)) \<and>
     y = x\<lparr>i_addrs := i_addrs y, i_size := i_size y\<rparr> \<and>
     file_bytes D' y = take o' (file_bytes D x) @ map g [0..<m] @ drop (o' + m) (file_bytes D x) \<and>
     disk_inode sb D' (unat (i_inum x)) = dinode_copy y \<and>
     (\<forall>j < unat (sb_ninodes sb). j \<noteq> unat (i_inum x) \<longrightarrow> disk_inode sb D' j = disk_inode sb D j) \<and>
     (\<forall>z. file_ok S sb D z \<longrightarrow> mapped D z (unat (i_size z)) \<longrightarrow> apart D x z \<longrightarrow>
        file_ok S sb D' z \<and> mapped D' z (unat (i_size z)) \<and> apart D' y z \<and> file_bytes D' z = file_bytes D z)"

lemma written_bytes:
  assumes "mapped D x (unat (i_size x))" "file_written S sb o' m g D x D' y" "o' \<le> unat (i_size x)" "o' + m \<le> MAXFILE * BSIZE"
    and "unat v = max (unat (i_size x)) (o' + m)"
  shows "mapped D' y (unat v)" "file_bytes D' (y\<lparr>i_size := v\<rparr>) = take o' (file_bytes D x) @ map g [0..<m] @ drop (o' + m) (file_bytes D x)"
proof -
  note w = assms(2) [unfolded file_written_def]
  have g: "blocks_grow sb D x D' y" using w by blast
  have new: "file_addr D' y ((o' + i) div BSIZE) \<noteq> 0 \<and> file_byte D' y (o' + i) = g i" if "i < m" for i using w that by blast
  have old: "file_byte D' y i = file_byte D x i" if "i < unat (i_size x)" "i < o' \<or> o' + m \<le> i" for i
    using w that assms(1) by (auto simp: mapped_def)
  have "file_addr D' y (i div BSIZE) \<noteq> 0" if "i < unat v" for i
  proof (cases "i < unat (i_size x)")
    case True
    then have "i < MAXFILE * BSIZE" "file_addr D x (i div BSIZE) \<noteq> 0" using assms(1) by (auto simp: mapped_def)
    then show ?thesis using grow_addr [OF g blk_less] by simp
  next
    case False
    then have "o' \<le> i" "i - o' < m" using that assms(3,5) by auto
    then show ?thesis using new [of "i - o'"] by simp
  qed
  then show "mapped D' y (unat v)" using assms(1,4,5) by (simp add: mapped_def)
  show "file_bytes D' (y\<lparr>i_size := v\<rparr>) = take o' (file_bytes D x) @ map g [0..<m] @ drop (o' + m) (file_bytes D x)" (is "?l = ?r")
  proof (rule nth_equalityI)
    show "length ?l = length ?r" using assms(3,5) by (simp add: file_bytes_def)
    fix i
    assume i: "i < length ?l"
    then have "i < unat v" by (simp add: file_bytes_def)
    then show "?l ! i = ?r ! i" using assms(3,5) new [of "i - o'"] old [of i] by (auto simp: file_bytes_def nth_append)
  qed
qed

text \<open>The blocks of a file that has grown are its old ones and blocks that were free.\<close>

lemma grown_blocks:
  assumes "blocks_grow sb D x D' y" "b \<in> blocks_of D' y"
  shows "b \<in> blocks_of D x \<or> b < unat (sb_size sb) \<and> \<not> used sb D b"
proof (cases "b = ind_blk y")
  case True
  then show ?thesis using assms by (auto simp: blocks_grow_def new_or_same_def blocks_of_def)
next
  case False
  then obtain j where j: "j < MAXFILE" "b = file_addr D' y j" "b \<noteq> 0" using assms(2) by (auto simp: blocks_of_def)
  then have "new_or_same sb D (file_addr D x j) b" using assms(1) by (auto simp: blocks_grow_def)
  then show ?thesis using j(1,3) by (auto simp: new_or_same_def blocks_of_def)
qed

lemma written_elsewhere:
  assumes "file_written S sb o' m g D x D1 y" "file_ok S sb D z" "apart D x z" "b \<in> blocks_of D z"
  shows "D1 b = D b" "data_blk S sb D1 b" "b \<notin> blocks_of D1 y"
proof -
  note w = assms(1) [unfolded file_written_def]
  have g: "blocks_grow sb D x D1 y" using w by blast
  have d: "data_blk S sb D b" by (rule blocks_of_data [OF assms(2,4)])
  have n: "b \<notin> blocks_of D x" using assms(3,4) by (auto simp: apart_def)
  moreover have "b \<noteq> 0" using assms(4) by (simp add: blocks_of_def)
  ultimately show "D1 b = D b" using w d by (auto simp: blocks_of_def data_blk_def meta_def)
  show "data_blk S sb D1 b" using d g by (auto simp: data_blk_def blocks_grow_def)
  show "b \<notin> blocks_of D1 y" using grown_blocks [OF g] n d by (auto simp: data_blk_def)
qed

lemma written_inodes:
  assumes "file_written S sb o' m g D x D1 y" "file_ok S sb D x" "layout cap S sb" "meta_used S sb D" "j < unat (sb_ninodes sb)"
  shows "D1 (inode_blk sb j) = D (inode_blk sb j)"
proof -
  let ?n = "inode_blk sb j"
  note pl = inode_place [OF assms(3,5)]
  have m: "meta S sb ?n" using pl(3) by (simp add: meta_def)
  then have "?n < unat (sb_size sb) \<longrightarrow> used sb D ?n" using assms(4) by (simp add: meta_used_def)
  moreover have "?n \<noteq> ind_blk x" "\<forall>i < MAXFILE. ?n \<noteq> file_addr D x i"
    using m pl(5) file_okD(2,3) [OF assms(2)] by (auto simp: data_blk_def)
  ultimately show ?thesis using assms(1) pl(4) unfolding file_written_def by blast
qed

lemma file_written_replaced:
  assumes "file_ok S sb D x" "mapped D x (unat (i_size x))" "file_written S sb o' m g D x D1 y1" "o' \<le> unat (i_size x)" "o' + m \<le> MAXFILE * BSIZE"
    and "unat v = max (unat (i_size x)) (o' + m)" "layout cap S sb" "unat (i_inum x) < unat (sb_ninodes sb)" "meta_used S sb D"
    and len: "\<And>n. n < cap \<Longrightarrow> length (D1 n) = BSIZE"
  defines "y \<equiv> y1\<lparr>i_size := v\<rparr>"
  shows "file_replaced S sb o' m g D x (iwritten sb y D1) y"
proof -
  note w = assms(3) [unfolded file_written_def]
  have g: "blocks_grow sb D x D1 y1" and ok1: "file_ok S sb D1 y" and mu: "meta_used S sb D1" using w by (simp_all add: y_def)
  have e: "y1 = x\<lparr>i_addrs := i_addrs y1\<rparr>" using g unfolding blocks_grow_def by blast
  have y: "y = x\<lparr>i_addrs := i_addrs y, i_size := i_size y\<rparr>" unfolding y_def by (subst e) simp
  have inum: "i_inum y = i_inum x" using blocks_grow_fields(2) [OF g] by (simp add: y_def)
  have us: "used sb D1 b" if "b < unat (sb_size sb)" "used sb D b" for b using g that unfolding blocks_grow_def by blast
  have ino: "unat (i_inum y) < unat (sb_ninodes sb)" using assms(8) inum by simp
  let ?D = "iwritten sb y D1"
  note k = iwritten_keeps [OF assms(7) ino]
  have same: "?D b = D1 b" if "data_blk S sb D1 b" for b using k(2) [OF _ that] that by (simp add: data_blk_def)
  have um: "\<forall>b < unat (sb_size sb). used sb D1 b \<longrightarrow> used sb ?D b" using k(1) by simp
  have "\<forall>b \<in> blocks_of D1 y. ?D b = D1 b" using same blocks_of_data [OF ok1] by blast
  note un = untouched [OF ok1 this um]
  note by1 = written_bytes [OF assms(2-6)]
  have mp: "mapped D1 y (unat (i_size y))" using by1(1) by (simp add: y_def)
  have la: "length (i_addrs y) = NDIRECT + 1" by (rule file_okD(1) [OF ok1])
  note di = disk_inode_iwritten [of y D1 sb, OF la len [OF inode_place(1) [OF assms(7) ino]], unfolded inum]
  have others: "file_ok S sb ?D z \<and> mapped ?D z (unat (i_size z)) \<and> apart ?D y z \<and> file_bytes ?D z = file_bytes D z"
    if z: "file_ok S sb D z" "mapped D z (unat (i_size z))" "apart D x z" for z
  proof -
    note el = written_elsewhere [OF assms(3) z(1,3)]
    have c: "\<forall>b \<in> blocks_of D z. ?D b = D b" using same el(1,2) by simp
    have "\<forall>b < unat (sb_size sb). used sb D b \<longrightarrow> used sb ?D b" using us um by blast
    note uz = untouched [OF z(1) c this]
    have "blocks_of D1 y = blocks_of D1 y1" by (simp add: y_def)
    then have "apart ?D y z" using el(3) un(3) uz(3) by (auto simp: apart_def)
    then show ?thesis using uz(1,5,6) z(2) by simp
  qed
  have "disk_inode sb ?D j = disk_inode sb D j" if "j < unat (sb_ninodes sb)" "j \<noteq> unat (i_inum x)" for j
    using di(2) [OF that(2)] written_inodes [OF assms(3,1,7,9) that(1)] by (simp add: disk_inode_def)
  moreover have "meta_used S sb ?D" using mu k(1) by (simp add: meta_used_def)
  moreover have "file_bytes ?D y = take o' (file_bytes D x) @ map g [0..<m] @ drop (o' + m) (file_bytes D x)"
    unfolding un(6) [OF mp] unfolding y_def by (rule by1(2))
  ultimately show ?thesis
    unfolding file_replaced_def using un(1) un(5) [OF mp] y di(1) others by blast
qed

text \<open>
  A write stores a prefix of the bytes, all of them unless the disk is full or a copy fails (\<open>E m\<close>: after \<open>m\<close> bytes). The inode in
  the blocks of the transaction is the one in memory afterwards, with its blocks and its size.
\<close>

definition writei_post :: "'m hw \<Rightarrow> ('m \<Rightarrow> int \<Rightarrow> int \<Rightarrow> block) \<Rightarrow> nat \<Rightarrow> int \<Rightarrow> nat \<Rightarrow> nat \<Rightarrow> nat \<Rightarrow> (nat \<Rightarrow> uchar) \<Rightarrow> (nat \<Rightarrow> block) \<Rightarrow> nat set \<Rightarrow> 'm fs \<Rightarrow> (nat \<Rightarrow> bool) \<Rightarrow>
    int \<times> 'm fs \<Rightarrow> bool" where
  "writei_post h st S p ip o' n g D L s E = (\<lambda>(r, t). \<exists>m D' y L'. let x = itable s ! ip in
     m \<le> n \<and> r = int m \<and> tx_at h st (i_dev x) S p D' {} L' t \<and> fs_same (upd_inode ip (\<lambda>_. y) s) t \<and>
     file_replaced S (fsb s) o' m g D x D' y \<and> (m < n \<longrightarrow> full_disk (fsb s) D' \<or> E m) \<and> card L' \<le> card L + 6 * nblk o' n + 1)"

lemma writei_end_law:
  assumes "writes_post h st S p ip o' n g D L s 0 E (tot, off, t)" "itable s ! ip = x" "ip < length (itable s)" "fsb s = sb" "layout (capacity h 0) S sb"
    and "meta_used S sb D" "file_ok S sb D x" "mapped D x (unat (i_size x))" "o' \<le> unat (i_size x)" "o' + n \<le> MAXFILE * BSIZE"
    and "unat (i_inum x) < unat (sb_ninodes sb)" "card L + 6 * nblk o' n + 1 < LOGSIZE"
  defines "t' \<equiv> if i_size (itable t ! ip) < off then upd_inode ip (\<lambda>x. x\<lparr>i_size := off\<rparr>) t else t"
  shows "wp (iupdate h p ip t') (\<lambda>u. writei_post h st S p ip o' n g D L s E (i32 (int tot), u))"
proof -
  from assms(1) obtain m D1 y1 L1 where r: "m \<le> n" "tot = m" "unat off = o' + m" "tx_at h st (i_dev x) S p D1 {} L1 t"
    "fs_same (upd_inode ip (\<lambda>_. y1) s) t" "file_written S sb o' m g D x D1 y1" "m < n \<longrightarrow> full_disk sb D1 \<or> E m" "card L1 \<le> card L + 6 * nblk o' n"
    unfolding writes_post_def Let_def assms(2,4) by auto
  have g: "blocks_grow sb D x D1 y1" using r(6) unfolding file_written_def by blast
  note f = blocks_grow_fields [OF g]
  have y1: "itable t ! ip = y1" "fsb t = sb" "ip < length (itable t)" using r(5) assms(3,4) by (simp_all add: fs_same_def upd_inode_def)
  define v where "v = (if i_size x < off then off else i_size x)"
  define y where "y = y1\<lparr>i_size := v\<rparr>"
  have v: "unat v = max (unat (i_size x)) (o' + m)" using r(3) by (auto simp: v_def word_less_nat_alt)
  have t': "itable t' ! ip = y" "fsb t' = sb" "fs_same (upd_inode ip (\<lambda>_. y) s) t'" "tx_at h st (i_dev y) S p D1 {} L1 t'"
  proof -
    have "i_size x < off \<longleftrightarrow> i_size (itable t ! ip) < off" using y1(1) f(3) by simp
    moreover have "y1\<lparr>i_size := i_size x\<rparr> = y1" using f(3) by (cases y1) simp
    ultimately show "itable t' ! ip = y" "fsb t' = sb" "fs_same (upd_inode ip (\<lambda>_. y) s) t'"
      using y1 r(5) by (auto simp: t'_def y_def v_def fs_same_def upd_inode_def)
    show "tx_at h st (i_dev y) S p D1 {} L1 t'" using f(1) r(4) by (simp add: t'_def y_def)
  qed
  have om: "o' + m \<le> MAXFILE * BSIZE" using r(1) assms(10) by simp
  have i: "i32 (int tot) = int m" unfolding r(2) by (rule i32_file) (use om in simp)
  have rep: "file_replaced S sb o' m g D x (iwritten sb y D1) y"
    unfolding y_def by (rule file_written_replaced [OF assms(7,8) r(6) assms(9) om v assms(5,11,6) lb.size_law [OF r(4)]])
  have ok: "length (i_addrs y) = NDIRECT + 1" "unat (i_inum y) < unat (sb_ninodes sb)"
    using file_okD(1) [of S sb D1 y1] r(6) f(2) assms(11) by (simp_all add: y_def file_written_def)
  have c: "card L1 + 1 < LOGSIZE" using r(8) assms(12) by simp
  have fu: "full_disk sb D1 \<Longrightarrow> full_disk sb (iwritten sb y D1)" using iwritten_keeps(1) [OF assms(5) ok(2)] by (simp add: full_disk_def)
  show ?thesis
  proof (rule wp_iupdate [OF t'(4,1,2) assms(5) ok(2,1) c])
    fix u
    assume u: "tx_at h st (i_dev y) S p (iwritten sb y D1) {} (insert (inode_blk sb (unat (i_inum y))) L1) u" "fs_same t' u"
    have "card (insert (inode_blk sb (unat (i_inum y))) L1) \<le> card L + 6 * nblk o' n + 1" using r(8) lb.fin_law [OF r(4)] by (simp add: card_insert_if)
    moreover have "i_dev y = i_dev x" using f(1) by (simp add: y_def)
    ultimately show "writei_post h st S p ip o' n g D L s E (i32 (int tot), u)"
      unfolding writei_post_def prod.case Let_def assms(2,4) using u r(1,7) i rep fu fs_same_trans [OF t'(3) u(2)] by metis
  qed
qed

lemma writei_law:
  assumes "tx_at h st (i_dev x) S p D {} L s" "itable s ! ip = x" "ip < length (itable s)" "fsb s = sb" "layout (capacity h 0) S sb" "meta_used S sb D"
    and "file_ok S sb D x" "mapped D x (unat (i_size x))" "unat off \<le> unat (i_size x)" "unat off + unat n \<le> MAXFILE * BSIZE"
    and "unat (i_inum x) < unat (sb_ninodes sb)" "card L + 6 * nblk (unat off) (unat n) + 1 < LOGSIZE" "copies_from get u f"
  shows "wp (writei h p get u ip src off n s) (writei_post h st S p ip (unat off) (unat n) (\<lambda>i. f (src + of_nat i)) D L s (copy_fails get u src (unat off) (unat n)))"
proof -
  have a: "unat (off + n) = unat off + unat n"
    using unat_adv [of off "unat n"] assms(10) by simp
  have "wp (writei_loop h p get u ip (unat n) 0 src off s) (writes_post h st S p ip (unat off) (unat n) (\<lambda>i. f (src + of_nat i)) D L s 0 (copy_fails get u src (unat off) (unat n)))"
    by (rule writei_loop_law [OF assms(1-7,10) _ assms(13)]) (use assms(12) in simp)
  then have "wp (writei_loop h p get u ip (unat n) 0 src off s) (\<lambda>(tot, off', t). wp (iupdate h p ip
      (if i_size (itable t ! ip) < off' then upd_inode ip (\<lambda>x. x\<lparr>i_size := off'\<rparr>) t else t))
      (\<lambda>w. writei_post h st S p ip (unat off) (unat n) (\<lambda>i. f (src + of_nat i)) D L s (copy_fails get u src (unat off) (unat n)) (i32 (int tot), w)))"
    by (rule wp_mono) (clarify, rule writei_end_law [OF _ assms(2-12)])
  then show ?thesis using assms(2,9,10)
    by (simp add: writei_def a word_less_nat_alt Let_def case_prod_unfold)
qed

end
