(* ===== verification/Inode_Table.thy ===== *)
theory Inode_Table
  imports Fs
begin

text \<open>
  The table of inodes in memory counts references: an inode has at most one entry in use, and \<^verbatim>\<open>iget\<close>, \<^verbatim>\<open>idup\<close> and \<^verbatim>\<open>iput\<close> change the
  number of references to one inode by one.
\<close>

section \<open>References\<close>

text \<open>What the table says of an entry: the inode, the number of references, and whether the rest was read from disk.\<close>

type_synonym entry = "(uint32 \<times> uint32) \<times> int \<times> int"

definition entry_of :: "inode \<Rightarrow> entry" where
  "entry_of x = ((i_dev x, i_inum x), i_ref x, i_valid x)"

definition entries :: "'m fs \<Rightarrow> entry list" where
  "entries s = map entry_of (itable s)"

definition count :: "uint32 \<times> uint32 \<Rightarrow> entry \<Rightarrow> int" where
  "count k e = (if fst e = k then fst (snd e) else 0)"

definition refs :: "'m fs \<Rightarrow> uint32 \<times> uint32 \<Rightarrow> int" where
  "refs s k = sum_list (map (count k) (entries s))"

definition entries_ok :: "entry list \<Rightarrow> bool" where
  "entries_ok es \<longleftrightarrow> (\<forall>e \<in> set es. 0 \<le> fst (snd e)) \<and>
     (\<forall>i < length es. \<forall>j < length es. i \<noteq> j \<longrightarrow> 0 < fst (snd (es ! i)) \<longrightarrow> 0 < fst (snd (es ! j)) \<longrightarrow> fst (es ! i) \<noteq> fst (es ! j))"

definition table_ok :: "'m fs \<Rightarrow> bool" where
  "table_ok s \<longleftrightarrow> entries_ok (entries s)"

lemma length_entries [simp]: "length (entries s) = length (itable s)"
  by (simp add: entries_def)

lemma entries_nth: "i < length (itable s) \<Longrightarrow> entries s ! i = entry_of (itable s ! i)"
  by (simp add: entries_def)

lemma sum_count_update: "i < length es \<Longrightarrow> sum_list (map (count k) (es[i := e])) = sum_list (map (count k) es) - count k (es ! i) + count k e"
  by (induction es arbitrary: i) (auto simp: nth_Cons' split: nat.splits)

text \<open>One entry changes its count and keeps its inode, or an entry that was free gets an inode that was not there.\<close>

lemma entries_put:
  assumes "entries_ok es" "i < length es" "0 \<le> r" "\<And>j. j < length es \<Longrightarrow> j \<noteq> i \<Longrightarrow> 0 < fst (snd (es ! j)) \<Longrightarrow> fst (es ! j) \<noteq> k"
  shows "entries_ok (es[i := (k, r, v)])"
proof -
  have "0 \<le> fst (snd e)" if "e \<in> set (es[i := (k, r, v)])" for e
    using that assms(1,3) set_update_subset_insert [of es i "(k, r, v)"] by (auto simp: entries_ok_def)
  moreover have "fst (es[i := (k, r, v)] ! a) \<noteq> fst (es[i := (k, r, v)] ! b)"
    if ab: "a < length es" "b < length es" "a \<noteq> b" "0 < fst (snd (es[i := (k, r, v)] ! a))" "0 < fst (snd (es[i := (k, r, v)] ! b))" for a b
  proof -
    consider "a = i" | "b = i" | "a \<noteq> i" "b \<noteq> i" by blast
    then show ?thesis
    proof cases
      case 1
      then show ?thesis using ab assms(2) assms(4) [of b] by auto
    next
      case 2
      then show ?thesis using ab assms(2) assms(4) [of a] by auto
    next
      case 3
      then show ?thesis using ab assms(1) by (simp add: entries_ok_def)
    qed
  qed
  ultimately show ?thesis by (simp add: entries_ok_def)
qed

lemma entries_recount:
  assumes "entries_ok es" "i < length es" "es ! i = (k, r, v)" "0 < r" "0 \<le> r'"
  shows "entries_ok (es[i := (k, r', v')])" "sum_list (map (count q) (es[i := (k, r', v')])) = sum_list (map (count q) es) + (if q = k then r' - r else 0)"
proof -
  have "fst (es ! j) \<noteq> k" if "j < length es" "j \<noteq> i" "0 < fst (snd (es ! j))" for j
  proof -
    have "\<forall>a < length es. \<forall>b < length es. a \<noteq> b \<longrightarrow> 0 < fst (snd (es ! a)) \<longrightarrow> 0 < fst (snd (es ! b)) \<longrightarrow> fst (es ! a) \<noteq> fst (es ! b)"
      using assms(1) by (simp add: entries_ok_def)
    from this [rule_format, OF that(1) assms(2) that(2,3)] show ?thesis using assms(3,4) by simp
  qed
  then show "entries_ok (es[i := (k, r', v')])" using entries_put [OF assms(1,2,5)] by blast
  show "sum_list (map (count q) (es[i := (k, r', v')])) = sum_list (map (count q) es) + (if q = k then r' - r else 0)"
    using sum_count_update [OF assms(2), of q "(k, r', v')"] assms(3) by (auto simp: count_def)
qed

lemma entries_new:
  assumes "entries_ok es" "i < length es" "es ! i = (k', 0, v)" "\<And>e. e \<in> set es \<Longrightarrow> 0 < fst (snd e) \<Longrightarrow> fst e \<noteq> k"
  shows "entries_ok (es[i := (k, 1, v')])" "sum_list (map (count q) (es[i := (k, 1, v')])) = sum_list (map (count q) es) + (if q = k then 1 else 0)"
proof -
  show "entries_ok (es[i := (k, 1, v')])" using entries_put [OF assms(1,2), of 1 k v'] assms(4) by simp
  show "sum_list (map (count q) (es[i := (k, 1, v')])) = sum_list (map (count q) es) + (if q = k then 1 else 0)"
    using sum_count_update [OF assms(2), of q "(k, 1, v')"] assms(3) by (auto simp: count_def)
qed

lemma sum_count_pos:
  assumes "entries_ok es"
  shows "0 < sum_list (map (count k) es) \<longleftrightarrow> (\<exists>e \<in> set es. fst e = k \<and> 0 < fst (snd e))"
proof -
  have n: "\<forall>e \<in> set es. 0 \<le> count k e" using assms by (auto simp: entries_ok_def count_def)
  then have "0 \<le> sum_list (map (count k) es)" by (intro sum_list_nonneg) auto
  moreover have "sum_list (map (count k) es) = 0 \<longleftrightarrow> (\<forall>e \<in> set es. count k e = 0)" using n by (subst sum_list_nonneg_eq_0_iff) auto
  ultimately have "0 < sum_list (map (count k) es) \<longleftrightarrow> (\<exists>e \<in> set es. count k e \<noteq> 0)" by auto
  moreover have "0 \<le> fst (snd e)" if "e \<in> set es" for e using that assms by (simp add: entries_ok_def)
  then have "count k e \<noteq> 0 \<longleftrightarrow> fst e = k \<and> 0 < fst (snd e)" if "e \<in> set es" for e using that by (simp add: count_def order_less_le)
  ultimately show ?thesis by blast
qed

section \<open>The lock of the table\<close>

definition it_idle :: "'m fs \<Rightarrow> bool" where
  "it_idle s \<longleftrightarrow> lk_free (it_lock s) \<and> cpu_ok (fs_cpu s)"

text \<open>A critical section leaves behind the table it has made, and apart from the interrupt state nothing else.\<close>

lemma it_section:
  assumes "it_idle s"
  obtains a where "it_acquire s = Inr a" "itable a = itable s"
    "\<And>T. \<exists>c. it_release (a\<lparr>itable := T\<rparr>) = Inr (set_fs_cpu c (s\<lparr>itable := T\<rparr>)) \<and> cpu_ok c \<and> noff c = noff (fs_cpu s) \<and> intr c = intr (fs_cpu s)"
proof -
  let ?l = "(it_lock s)\<lparr>locked := 1, lkcpu := Some (fs_hart s)\<rparr>" and ?c = "push_off (fs_cpu s)"
  let ?a = "(set_fs_cpu ?c s)\<lparr>it_lock := ?l\<rparr>"
  have l: "lk_free (it_lock s)" "cpu_ok (fs_cpu s)" using assms by (simp_all add: it_idle_def)
  have "it_acquire s = Inr ?a" using acquire_free [OF l(1)] by (simp add: it_acquire_def)
  moreover obtain c where c: "release (fs_hart s) (?c, ?l) = Inr (c, it_lock s)" "cpu_ok c" "noff c = noff (fs_cpu s)" "intr c = intr (fs_cpu s)"
    using acquire_release [OF l, of "fs_hart s"] acquire_free [OF l(1)] by auto
  then have "it_release (?a\<lparr>itable := T\<rparr>) = Inr (set_fs_cpu c (s\<lparr>itable := T\<rparr>))" for T
    by (simp add: it_release_def fs_hart_def fs_cpu_def set_fs_cpu_def set_cache_def)
  ultimately show ?thesis using c(2-4) by (intro that [of ?a]) (auto simp: set_fs_cpu_def set_cache_def)
qed

lemma table_sel [simp]: "itable (set_fs_cpu c s) = itable s" "entries (set_fs_cpu c (s\<lparr>itable := (itable s)[i := e]\<rparr>)) = (entries s)[i := entry_of e]"
  "it_idle (set_fs_cpu c (s\<lparr>itable := T\<rparr>)) \<longleftrightarrow> lk_free (it_lock s) \<and> cpu_ok c"
  by (simp_all add: entries_def map_update it_idle_def fs_cpu_def set_fs_cpu_def set_cache_def)

section \<open>Getting and duplicating a reference\<close>

lemma iget_scan_hit:
  "iget_scan dv n xs k sp = Inr i \<Longrightarrow> k \<le> i \<and> i < k + length xs \<and> 0 < i_ref (xs ! (i - k)) \<and> i_dev (xs ! (i - k)) = dv \<and> i_inum (xs ! (i - k)) = n"
proof (induction xs arbitrary: k sp)
  case (Cons x xs)
  then show ?case by (cases "i = k") (fastforce split: if_splits simp: nth_Cons')+
qed simp

lemma iget_scan_miss:
  "iget_scan dv n xs k sp = Inl r \<Longrightarrow> (\<forall>x \<in> set xs. \<not> (0 < i_ref x \<and> i_dev x = dv \<and> i_inum x = n)) \<and>
     (case r of None \<Rightarrow> sp = None \<and> (\<forall>x \<in> set xs. i_ref x \<noteq> 0)
      | Some i \<Rightarrow> sp = Some i \<or> k \<le> i \<and> i < k + length xs \<and> i_ref (xs ! (i - k)) = 0)"
proof (induction xs arbitrary: k sp)
  case (Cons x xs)
  have m: "\<not> (0 < i_ref x \<and> i_dev x = dv \<and> i_inum x = n)" "iget_scan dv n xs (Suc k) (if sp = None \<and> i_ref x = 0 then Some k else sp) = Inl r"
    using Cons.prems by (auto split: if_splits)
  from Cons.IH [OF m(2)] m(1) show ?case by (auto split: if_splits option.splits simp: nth_Cons')
qed (auto split: option.splits)

text \<open>The table after a reference more to the entry \<open>i\<close>, which is in use or becomes the entry of the inode.\<close>

definition got :: "uint32 \<Rightarrow> uint32 \<Rightarrow> nat \<Rightarrow> 'm fs \<Rightarrow> 'm fs \<Rightarrow> bool" where
  "got dv n i s t \<longleftrightarrow> table_ok t \<and> it_idle t \<and> i < length (itable s) \<and> i_dev (itable t ! i) = dv \<and> i_inum (itable t ! i) = n \<and>
     (\<exists>c e. t = set_fs_cpu c (s\<lparr>itable := (itable s)[i := e]\<rparr>) \<and> noff c = noff (fs_cpu s) \<and> intr c = intr (fs_cpu s) \<and>
       (if 0 < refs s (dv, n) then e = (itable s ! i)\<lparr>i_ref := i_ref (itable s ! i) + 1\<rparr> else i_ref (itable s ! i) = 0 \<and> i_valid e = 0)) \<and>
     refs t = (refs s)((dv, n) := refs s (dv, n) + 1)"

lemma got_hit:
  assumes "table_ok s" "lk_free (it_lock s)" "cpu_ok c" "noff c = noff (fs_cpu s)" "intr c = intr (fs_cpu s)"
    and i: "i < length (itable s)" "0 < i_ref (itable s ! i)" "i_dev (itable s ! i) = dv" "i_inum (itable s ! i) = n"
  defines "e \<equiv> (itable s ! i)\<lparr>i_ref := i_ref (itable s ! i) + 1\<rparr>"
  shows "got dv n i s (set_fs_cpu c (s\<lparr>itable := (itable s)[i := e]\<rparr>))" (is "got dv n i s ?t")
proof -
  let ?r = "i_ref (itable s ! i)" and ?v = "i_valid (itable s ! i)"
  have "entries s ! i = ((dv, n), ?r, ?v)" using i by (simp add: entries_nth entry_of_def)
  note r = entries_recount [OF assms(1) [unfolded table_ok_def] _ this i(2), where r' = "?r + 1" and v' = ?v]
  have es: "entry_of e = ((dv, n), ?r + 1, ?v)" using i by (simp add: e_def entry_of_def)
  have "entry_of (itable s ! i) \<in> set (entries s)" using i(1) by (simp add: entries_def)
  then have p: "0 < refs s (dv, n)" using sum_count_pos [OF assms(1) [unfolded table_ok_def], of "(dv, n)"] i by (force simp: refs_def entry_of_def)
  have "refs ?t = (refs s)((dv, n) := refs s (dv, n) + 1)" using r(2) i(1,2) by (simp add: fun_eq_iff refs_def es)
  moreover have "table_ok ?t" using r(1) i(1) i(2) by (simp add: table_ok_def es)
  moreover have "i_dev (itable ?t ! i) = dv" "i_inum (itable ?t ! i) = n" using i by (simp_all add: e_def)
  ultimately show ?thesis unfolding got_def using p assms(2-5) i by (intro conjI exI [of _ c] exI [of _ e]) (simp_all add: e_def)
qed

lemma got_new:
  assumes "table_ok s" "lk_free (it_lock s)" "cpu_ok c" "noff c = noff (fs_cpu s)" "intr c = intr (fs_cpu s)"
    and i: "i < length (itable s)" "i_ref (itable s ! i) = 0" "\<forall>x \<in> set (itable s). \<not> (0 < i_ref x \<and> i_dev x = dv \<and> i_inum x = n)"
  defines "e \<equiv> (itable s ! i)\<lparr>i_dev := dv, i_inum := n, i_ref := 1, i_valid := 0\<rparr>"
  shows "got dv n i s (set_fs_cpu c (s\<lparr>itable := (itable s)[i := e]\<rparr>))" (is "got dv n i s ?t")
proof -
  have ent: "entries s ! i = (fst (entry_of (itable s ! i)), 0, i_valid (itable s ! i))" using i by (simp add: entries_nth entry_of_def)
  have no: "fst x \<noteq> (dv, n)" if "x \<in> set (entries s)" "0 < fst (snd x)" for x using that i(3) by (auto simp: entries_def entry_of_def)
  note r = entries_new [OF assms(1) [unfolded table_ok_def] _ ent no, where v' = 0]
  have es: "entry_of e = ((dv, n), 1, 0)" by (simp add: e_def entry_of_def)
  have p: "\<not> 0 < refs s (dv, n)" using sum_count_pos [OF assms(1) [unfolded table_ok_def], of "(dv, n)"] no by (auto simp: refs_def)
  have "refs ?t = (refs s)((dv, n) := refs s (dv, n) + 1)" using r(2) i(1) by (simp add: fun_eq_iff refs_def es)
  moreover have "table_ok ?t" using r(1) i(1) by (simp add: table_ok_def es)
  moreover have "i_dev (itable ?t ! i) = dv" "i_inum (itable ?t ! i) = n" using i by (simp_all add: e_def)
  ultimately show ?thesis unfolding got_def using p assms(2-5) i by (intro conjI exI [of _ c] exI [of _ e]) (simp_all add: e_def)
qed

lemma iget_law:
  assumes "table_ok s" "it_idle s"
  shows "if 0 < refs s (dv, n) \<or> (\<exists>x \<in> set (itable s). i_ref x = 0) then wp (iget dv n s) (\<lambda>(i, t). got dv n i s t)
    else iget dv n s = Inl (Panic ''iget: no inodes'')"
proof -
  obtain a where a: "it_acquire s = Inr a" "itable a = itable s"
    "\<And>T. \<exists>c. it_release (a\<lparr>itable := T\<rparr>) = Inr (set_fs_cpu c (s\<lparr>itable := T\<rparr>)) \<and> cpu_ok c \<and> noff c = noff (fs_cpu s) \<and> intr c = intr (fs_cpu s)"
    using it_section [OF assms(2)] by blast
  have lk: "lk_free (it_lock s)" using assms(2) by (simp add: it_idle_def)
  have up: "upd_inode i f a = a\<lparr>itable := (itable s)[i := f (itable s ! i)]\<rparr>" for i f by (simp add: upd_inode_def a(2))
  consider (hit) i where "iget_scan dv n (itable s) 0 None = Inr i" | (new) i where "iget_scan dv n (itable s) 0 None = Inl (Some i)"
    | (no) "iget_scan dv n (itable s) 0 None = Inl None"
    by (metis not_None_eq old.sum.exhaust)
  then show ?thesis
  proof cases
    case hit
    note i = iget_scan_hit [OF hit, simplified]
    have g: "wp (iget dv n s) (\<lambda>(i, t). got dv n i s t)"
      using a(3) [of "(itable s)[i := (itable s ! i)\<lparr>i_ref := i_ref (itable s ! i) + 1\<rparr>]"] got_hit [OF assms(1) lk, of _ i dv n] i
      by (auto simp: iget_def a(1,2) hit up)
    then have "0 < refs s (dv, n)" using got_hit [OF assms(1) lk, of "fs_cpu s" i dv n] i assms(2) by (auto simp: got_def it_idle_def split: if_splits)
    then show ?thesis using g by simp
  next
    case new
    note i = iget_scan_miss [OF new, simplified]
    have "wp (iget dv n s) (\<lambda>(i, t). got dv n i s t)"
      using a(3) [of "(itable s)[i := (itable s ! i)\<lparr>i_dev := dv, i_inum := n, i_ref := 1, i_valid := 0\<rparr>]"] got_new [OF assms(1) lk, of _ i dv n] i
      by (auto simp: iget_def a(1,2) new up)
    moreover have "\<exists>x \<in> set (itable s). i_ref x = 0" using i nth_mem [of i "itable s"] by auto
    ultimately show ?thesis by simp
  next
    case no
    note i = iget_scan_miss [OF no, simplified]
    have "\<not> 0 < refs s (dv, n)"
      using sum_count_pos [OF assms(1) [unfolded table_ok_def], of "(dv, n)"] i by (auto simp: refs_def entries_def entry_of_def)
    then show ?thesis using i by (simp add: iget_def a(1,2) no)
  qed
qed

text \<open>A change of the count of an entry in use.\<close>

lemma refs_recount:
  assumes "table_ok s" "i < length (itable s)" "0 < i_ref (itable s ! i)" "0 \<le> r'"
    and "entries t = (entries s)[i := ((i_dev (itable s ! i), i_inum (itable s ! i)), r', v')]"
  shows "table_ok t" "refs t = (refs s)((i_dev (itable s ! i), i_inum (itable s ! i)) := refs s (i_dev (itable s ! i), i_inum (itable s ! i)) + r' - i_ref (itable s ! i))"
proof -
  let ?k = "(i_dev (itable s ! i), i_inum (itable s ! i))"
  have "entries s ! i = (?k, i_ref (itable s ! i), i_valid (itable s ! i))" using assms(2) by (simp add: entries_nth entry_of_def)
  note r = entries_recount [OF assms(1) [unfolded table_ok_def] _ this assms(3,4), where v' = v']
  show "table_ok t" using r(1) assms(2,5) by (simp add: table_ok_def)
  show "refs t = (refs s)(?k := refs s ?k + r' - i_ref (itable s ! i))" using r(2) assms(2,5) by (simp add: fun_eq_iff refs_def)
qed

lemma idup_law:
  assumes "table_ok s" "it_idle s" "ip < length (itable s)" "0 < i_ref (itable s ! ip)"
  defines "k \<equiv> (i_dev (itable s ! ip), i_inum (itable s ! ip))"
  shows "wp (idup ip s) (\<lambda>(i, t). i = ip \<and> table_ok t \<and> it_idle t \<and> refs t = (refs s)(k := refs s k + 1))"
proof -
  let ?e = "(itable s ! ip)\<lparr>i_ref := i_ref (itable s ! ip) + 1\<rparr>"
  obtain a c where a: "it_acquire s = Inr a" "itable a = itable s"
    "it_release (a\<lparr>itable := (itable s)[ip := ?e]\<rparr>) = Inr (set_fs_cpu c (s\<lparr>itable := (itable s)[ip := ?e]\<rparr>))" "cpu_ok c"
    using it_section [OF assms(2)] by metis
  have "entry_of ?e = (k, i_ref (itable s ! ip) + 1, i_valid (itable s ! ip))" by (simp add: entry_of_def k_def)
  then have "entries (set_fs_cpu c (s\<lparr>itable := (itable s)[ip := ?e]\<rparr>)) = (entries s)[ip := (k, i_ref (itable s ! ip) + 1, i_valid (itable s ! ip))]" by simp
  note r = refs_recount [OF assms(1,3,4) _ this [unfolded k_def]]
  show ?thesis using r assms(2,4) a by (simp add: idup_def upd_inode_def k_def) (simp add: it_idle_def)
qed

section \<open>Dropping a reference\<close>

text \<open>The operations on blocks and on the content of an inode leave the entries as they are.\<close>

named_theorems frame \<open>operations that keep the entries\<close>

lemma entries_frame [simp]: "entries (set_cache c s) = entries s" "entries (set_fs_cpu k s) = entries s" "entries (set_bdata b x s) = entries s"
  "entries (s\<lparr>flog := l\<rparr>) = entries s" "entries (s\<lparr>it_lock := lk\<rparr>) = entries s"
  by (simp_all add: entries_def set_cache_def set_fs_cpu_def set_bdata_def)

lemma entries_upd: "entries (upd_inode i f s) = (entries s)[i := entry_of (f (itable s ! i))]"
  by (simp add: entries_def upd_inode_def map_update)

lemma entries_upd_same [simp]: "entry_of (f (itable s ! i)) = entry_of (itable s ! i) \<Longrightarrow> entries (upd_inode i f s) = entries s"
  by (simp add: entries_upd) (simp add: entries_def flip: map_update)

lemma fs_bread_frame [frame]: "(\<And>b t. entries t = entries s \<Longrightarrow> Q (b, t)) \<Longrightarrow> pc (fs_bread h p dv n s) Q"
  by (cases "bread h p dv n (fs_cache s)") (auto simp: fs_bread_def)

lemma fs_brelse_frame [frame]: "(\<And>t. entries t = entries s \<Longrightarrow> Q t) \<Longrightarrow> pc (fs_brelse p b s) Q"
  by (cases "brelse p b (fs_cache s)") (auto simp: fs_brelse_def)

lemma fs_log_write_frame [frame]: "(\<And>t. entries t = entries s \<Longrightarrow> Q t) \<Longrightarrow> pc (fs_log_write b s) Q"
  by (cases "log_write b (flog s)") (auto simp: fs_log_write_def)

lemma it_acquire_frame [frame]: "(\<And>t. entries t = entries s \<Longrightarrow> itable t = itable s \<Longrightarrow> Q t) \<Longrightarrow> pc (it_acquire s) Q"
  by (cases "acquire (fs_hart s) (fs_cpu s, it_lock s)") (auto simp: it_acquire_def)

lemma it_release_frame [frame]: "(\<And>t. entries t = entries s \<Longrightarrow> Q t) \<Longrightarrow> pc (it_release s) Q"
  by (cases "release (fs_hart s) (fs_cpu s, it_lock s)") (auto simp: it_release_def)

lemma i_acquiresleep_frame [frame]: "(\<And>t. entries t = entries s \<Longrightarrow> Q t) \<Longrightarrow> pc (i_acquiresleep p i s) Q"
  by (cases "acquiresleep (fs_hart s) p (fs_cpu s, i_lock (itable s ! i))") (auto simp: i_acquiresleep_def entry_of_def)

lemma i_releasesleep_frame [frame]: "(\<And>t. entries t = entries s \<Longrightarrow> Q t) \<Longrightarrow> pc (i_releasesleep i s) Q"
  by (cases "releasesleep (fs_hart s) (fs_cpu s, i_lock (itable s ! i))") (auto simp: i_releasesleep_def entry_of_def)

lemma bfree_frame [frame]: "(\<And>t. entries t = entries s \<Longrightarrow> Q t) \<Longrightarrow> pc (bfree h p dv b s) Q"
  by (auto simp: bfree_def Let_def intro!: frame)

lemma iupdate_frame [frame]: "(\<And>t. entries t = entries s \<Longrightarrow> Q t) \<Longrightarrow> pc (iupdate h p ip s) Q"
  by (auto simp: iupdate_def Let_def intro!: frame)

lemma kfold_frame:
  "(\<And>x t. entries t = entries s \<Longrightarrow> pc (f x t) (\<lambda>u. entries u = entries s)) \<Longrightarrow> (\<And>t. entries t = entries s \<Longrightarrow> Q t) \<Longrightarrow> pc (kfold f xs s) Q"
  using pc_mono [OF pc_kfold [of "\<lambda>t. entries t = entries s" s f xs]] by blast

lemma itrunc_frame [frame]: "(\<And>t. entries t = entries s \<Longrightarrow> Q t) \<Longrightarrow> pc (itrunc h p ip s) Q"
  by (auto simp: itrunc_def entry_of_def intro!: frame kfold_frame)

text \<open>The reference to drop is the last one, and the inode has been read and has no links: \<^verbatim>\<open>iput\<close> frees it on the disk.\<close>

definition drops_inode :: "nat \<Rightarrow> 'm fs \<Rightarrow> bool" where
  "drops_inode ip s \<longleftrightarrow> (let x = itable s ! ip in i_ref x = 1 \<and> i_valid x \<noteq> 0 \<and> i_nlink x = 0)"

lemma iput_entries:
  assumes "ip < length (itable s)"
    and "\<And>t. entries t = (entries s)[ip := ((i_dev (itable s ! ip), i_inum (itable s ! ip)), i_ref (itable s ! ip) - 1, if drops_inode ip s then 0 else i_valid (itable s ! ip))] \<Longrightarrow> Q t"
  shows "pc (iput h p ip s) Q"
proof -
  let ?k = "(i_dev (itable s ! ip), i_inum (itable s ! ip))" and ?r = "i_ref (itable s ! ip)"
  have at: "entry_of (itable t ! ip) = es ! ip" "ip < length (itable t)" if "entries t = es" "length es = length (itable s)" for t :: "'a fs" and es
    using that assms(1) by (auto simp: entries_def)
  have e: "entries s ! ip = (?k, ?r, i_valid (itable s ! ip))" using assms(1) by (simp add: entries_nth entry_of_def)
  have fin: "pc (it_release (upd_inode ip (\<lambda>x. x\<lparr>i_ref := i_ref x - 1\<rparr>) t)) Q"
    if "entries t = (entries s)[ip := (?k, ?r, v)]" "v = (if drops_inode ip s then 0 else i_valid (itable s ! ip))" for t v
  proof (rule it_release_frame, rule assms(2))
    fix u assume "entries u = entries (upd_inode ip (\<lambda>x. x\<lparr>i_ref := i_ref x - 1\<rparr>) t)"
    moreover have "entry_of (itable t ! ip) = (?k, ?r, v)" using at(1) [OF that(1)] assms(1) by simp
    ultimately show "entries u = (entries s)[ip := (?k, ?r - 1, if drops_inode ip s then 0 else i_valid (itable s ! ip))]"
      using that by (simp add: entries_upd entry_of_def)
  qed
  show ?thesis
  proof (cases "drops_inode ip s")
    case True
    have v: "pc (i_releasesleep ip (upd_inode ip (\<lambda>x. x\<lparr>i_valid := 0\<rparr>) t)) (\<lambda>s. pc (it_acquire s) (\<lambda>s. pc (it_release (upd_inode ip (\<lambda>x. x\<lparr>i_ref := i_ref x - 1\<rparr>) s)) Q))"
      if "entries t = entries s" for t
    proof (rule i_releasesleep_frame, rule it_acquire_frame, rule fin [where v = 0])
      fix u w assume "entries u = entries (upd_inode ip (\<lambda>x. x\<lparr>i_valid := 0\<rparr>) t)" "entries w = entries u"
      moreover have "entry_of (itable t ! ip) = (?k, ?r, i_valid (itable s ! ip))" using at(1) [OF that] e by simp
      ultimately show "entries w = (entries s)[ip := (?k, ?r, 0)]" using that by (simp add: entries_upd entry_of_def)
    qed (use True in simp)
    have ty: "entries (upd_inode ip (\<lambda>x. x\<lparr>i_type := 0\<rparr>) t) = entries t" for t :: "'a fs" by (rule entries_upd_same) (simp add: entry_of_def)
    show ?thesis using True unfolding iput_def drops_inode_def Let_def
      by (auto intro!: frame v simp: ty)
  next
    case False
    have "(entries s)[ip := (?k, ?r, i_valid (itable s ! ip))] = entries s" using e by (metis list_update_id)
    then show ?thesis using False fin unfolding iput_def drops_inode_def Let_def by (auto intro!: it_acquire_frame)
  qed
qed

lemma iput_law:
  assumes "table_ok s" "ip < length (itable s)" "0 < i_ref (itable s ! ip)"
  defines "k \<equiv> (i_dev (itable s ! ip), i_inum (itable s ! ip))"
  shows "pc (iput h p ip s) (\<lambda>t. table_ok t \<and> refs t = (refs s)(k := refs s k - 1) \<and> (drops_inode ip s \<longrightarrow> i_valid (itable t ! ip) = 0))"
proof (rule iput_entries [OF assms(2)])
  fix t
  let ?v = "if drops_inode ip s then 0 else i_valid (itable s ! ip)"
  assume e: "entries t = (entries s)[ip := ((i_dev (itable s ! ip), i_inum (itable s ! ip)), i_ref (itable s ! ip) - 1, ?v)]"
  have "ip < length (itable t)" using arg_cong [OF e, of length] assms(2) by simp
  then have "i_valid (itable t ! ip) = ?v" using arg_cong [OF e, of "\<lambda>l. l ! ip"] assms(2) by (simp add: entries_nth entry_of_def)
  then show "table_ok t \<and> refs t = (refs s)(k := refs s k - 1) \<and> (drops_inode ip s \<longrightarrow> i_valid (itable t ! ip) = 0)"
    using refs_recount [OF assms(1-3) _ e] assms(3) by (simp add: k_def)
qed

lemma iput_returns:
  assumes "it_idle s" "\<not> drops_inode ip s"
  shows "\<exists>t. iput h p ip s = Inr t \<and> it_idle t"
proof -
  let ?T = "(itable s)[ip := (itable s ! ip)\<lparr>i_ref := i_ref (itable s ! ip) - 1\<rparr>]"
  obtain a c where a: "it_acquire s = Inr a" "itable a = itable s" "it_release (a\<lparr>itable := ?T\<rparr>) = Inr (set_fs_cpu c (s\<lparr>itable := ?T\<rparr>))" "cpu_ok c"
    using it_section [OF assms(1)] by metis
  have "iput h p ip s = Inr (set_fs_cpu c (s\<lparr>itable := ?T\<rparr>))" using assms(2) a by (auto simp: iput_def drops_inode_def Let_def upd_inode_def)
  then show ?thesis using a(4) assms(1) by (simp add: it_idle_def)  (metis it_idle_def table_sel(3))
qed

end
