(* ===== verification/Disk_Theorems.thy ===== *)
theory Disk_Theorems
  imports Log_Spec Ram_Disk
begin

text \<open>
  Properties of the buffer cache and of the log, with examples on the ram disk.
\<close>

section \<open>An example machine\<close>

text \<open>A cache with the buffers \<open>F\<close> on a disk with the contents \<open>m\<close>.\<close>

definition ram_cache :: "(nat \<Rightarrow> buf) \<Rightarrow> ram \<Rightarrow> ram bcache" where
  "ram_cache F m = (binit \<lparr>bv = ram_driver m, bc_lock = initlock '''', bnext = (\<lambda>_. 0), bprev = (\<lambda>_. 0), wrote = []\<rparr>)
     \<lparr>bv := (ram_driver m)\<lparr>bufs := F\<rparr>\<rparr>"

definition free_buf :: buf where
  "free_buf = \<lparr>b_valid = 0, b_disk = 0, b_dev = 0, b_blockno = 0, b_lock = initsleeplock ''buffer'', b_refcnt = 0, b_data = zero_block\<rparr>"

text \<open>Buffer 0 holds block 50 of device 1, changed in memory; \<open>l\<close> is its lock.\<close>

definition one_buf :: "sleeplock \<Rightarrow> nat \<Rightarrow> buf" where
  "one_buf l = (\<lambda>_. free_buf)(bcache_buf 0 := free_buf\<lparr>b_valid := 1, b_dev := 1, b_blockno := 50, b_lock := l, b_refcnt := 1, b_data := replicate BSIZE 1\<rparr>)"

abbreviation held_by :: "int \<Rightarrow> sleeplock" where
  "held_by p \<equiv> (initsleeplock ''buffer'')\<lparr>sl_locked := 1, sl_pid := p\<rparr>"

lemma ram_cache_sel [simp]: "bufs (bv (ram_cache F m)) = F" "media (bv (ram_cache F m)) = m" "wrote (ram_cache F m) = []"
  by (simp_all add: ram_cache_def binit_frame)

lemma ram_cache_ok:
  assumes "\<And>k b. k \<le> 4 \<Longrightarrow> b < ram_capacity k \<Longrightarrow> length (m (int k) (int b)) = BSIZE"
    and "\<And>b. b \<in> bset \<Longrightarrow> buf_ok ram_hw (m 0) dv (F b)" "uniq dv F"
  shows "bio_ok ram_hw (\<lambda>m. m) dv (ram_cache F m)"
proof -
  have "drv_ok ram_hw (\<lambda>m. m) (ram_driver blank)" by simp
  then have "drv_ok ram_hw (\<lambda>m. m) (bv (ram_cache F m))"
    using assms(1) by (simp add: ram_cache_def drv_ok_def vok_def) (simp add: ram_driver_def)
  moreover have "ring_ok (ram_cache F m)"
    unfolding ring_ok_def by (intro exI conjI) (rule trans [OF set_rev bset_list], simp add: ram_cache_def binit_ring)
  ultimately show ?thesis using assms(2,3) by (simp add: bio_ok_def) (simp add: ram_cache_def binit_frame)
qed

lemma free_cache_ok:
  assumes "\<And>k b. k \<le> 4 \<Longrightarrow> b < ram_capacity k \<Longrightarrow> length (m (int k) (int b)) = BSIZE"
  shows "bio_ok ram_hw (\<lambda>m. m) 1 (ram_cache (\<lambda>_. free_buf) m)"
  by (rule ram_cache_ok) (simp_all add: assms buf_ok_def free_buf_def uniq_def sl_ok_def initsleeplock_def)

lemma one_buf_uniq: "uniq 1 (one_buf l)"
  by (auto simp: uniq_def one_buf_def free_buf_def inj_on_def)

lemma one_cache_ok: "sl_ok l \<Longrightarrow> bio_ok ram_hw (\<lambda>m. m) 1 (ram_cache (one_buf l) blank)"
  by (rule ram_cache_ok)
    (simp_all add: one_buf_uniq, auto simp: buf_ok_def one_buf_def free_buf_def sl_ok_def initsleeplock_def ram_capacity_def)

lemma buf0_bset: "bcache_buf 0 \<in> bset"
  by (simp add: bset_def NBUF_def)

lemma one_holder: "holder 1 (ram_cache (one_buf l) m) n = (if n = 50 then Some (bcache_buf 0) else None)"
proof (cases "n = 50")
  case True
  have "holder 1 (ram_cache (one_buf l) m) n = Some (bcache_buf 0)"
    by (subst holder_Some) (simp_all add: one_buf_uniq buf0_bset True, simp add: one_buf_def)
  with True show ?thesis by simp
next
  case False
  then have "holder 1 (ram_cache (one_buf l) m) n = None" by (subst holder_None) (auto simp: one_buf_def free_buf_def)
  with False show ?thesis by simp
qed

lemma one_view:
  "bio_view (\<lambda>m. m) 1 (ram_cache (one_buf l) m) =
     \<lparr>vcur = (\<lambda>n. m 0 (int n))(50 := replicate BSIZE 1), vdisk = (\<lambda>n. m 0 (int n)), vref = (\<lambda>_. 0)(50 := 1),
      vheld = (\<lambda>_. None)(50 := if sl_locked l = 0 then None else Some (sl_pid l)), vwrote = []\<rparr>"
  by (simp add: bio_view_def one_holder fun_eq_iff) (simp add: one_buf_def)

lemma free_view:
  "bio_view (\<lambda>m. m) 1 (ram_cache (\<lambda>_. free_buf) m) =
     \<lparr>vcur = (\<lambda>n. m 0 (int n)), vdisk = (\<lambda>n. m 0 (int n)), vref = (\<lambda>_. 0), vheld = (\<lambda>_. None), vwrote = []\<rparr>"
proof -
  have "holder 1 (ram_cache (\<lambda>_. free_buf) m) n = None" for n by (subst holder_None) (simp add: free_buf_def)
  then show ?thesis by (simp add: bio_view_def)
qed

text \<open>A log at block 2 of device 1, with a transaction of the blocks \<open>bs\<close> by one operation.\<close>

definition ram_log :: "nat list \<Rightarrow> ram bcache \<Rightarrow> ram log" where
  "ram_log bs c = \<lparr>lbc = c, l_lock = initlock ''log'', l_start = 2, l_size = 30, outstanding = 1, committing = 0, l_dev = 1,
     lh_n = int (length bs), lh_block = map int bs @ replicate (30 - length bs) 0, woken = 0\<rparr>"

definition ram_super :: superblock where
  "ram_super = \<lparr>sb_magic = 0x10203040, sb_size = 2000, sb_nblocks = 1954, sb_ninodes = 200, sb_nlog = 30, sb_logstart = 2, sb_inodestart = 32, sb_bmapstart = 45\<rparr>"

lemma blank_head: "head_is (blank 0 k) []"
  by (simp add: head_is_def get32_def of_le32_def blank_def zero_block_def BSIZE_def)

lemma ram_log_ok:
  assumes "bio_ok ram_hw (\<lambda>m. m) 1 c" "blocks_ok 2000 2 bs" "head_is (media (bv c) 0 2) []" "\<forall>b \<in> set bs. 0 < vref (bio_view (\<lambda>m. m) 1 c) b"
  shows "log_ok ram_hw (\<lambda>m. m) 1 2 bs (ram_log bs c)"
  using assms by (simp add: log_ok_def ram_log_def log_mem_def blocks_ok_def LOGSIZE_def ram_capacity_def) (simp add: bio_view_def)

section \<open>The log\<close>

lemma idle_clean:
  assumes "bio_ok h st dv c" "idle bs (bio_view st dv c)" "n \<notin> set bs"
  shows "vdisk (bio_view st dv c) n = vcur (bio_view st dv c) n"
  using bc.idle_law [OF assms(1), of n] assms(2,3) by (simp add: idle_def)

lemma restart_after_writes:
  assumes "log_ok h st dv S bs s" "idle bs (bio_view st dv (lbc s))"
    and "of_int dev = dv" "sint (sb_logstart sb) = int S" "sint (sb_nlog sb) = int LOGSIZE" "length (lh_block r) = LOGSIZE"
    and "bio_ok h st dv (lbc r)" "idle [] (bio_view st dv (lbc r))"
    and "vdisk (bio_view st dv (lbc r)) = apply_writes (take k (commit_writes S (lh_block s) bs (bio_view st dv (lbc s)))) (vdisk (bio_view st dv (lbc s)))"
  shows "wp (initlog h p dev sb r) (\<lambda>t. log_ok h st dv S [] t \<and> (\<forall>n. \<not> in_log S n \<longrightarrow> vdisk (bio_view st dv (lbc t)) n =
     (if k \<le> length bs then vdisk (bio_view st dv (lbc s)) n else vcur (bio_view st dv (lbc s)) n)))"
proof -
  let ?v = "bio_view st dv (lbc s)" and ?u = "bio_view st dv (lbc r)"
  note o = log_okD [OF assms(1)]
  have cur: "vcur ?u = vdisk ?u" using idle_clean [OF assms(7,8)] by (simp add: fun_eq_iff)
  have z: "take (length bs) (lh_block s) = map int bs" "length (vcur ?v S) = BSIZE"
    using o(4,6) bc.size_law [OF o(1), of S] by (simp_all add: log_mem_def blocks_ok_def LOGSIZE_def)
  have ne: "n \<noteq> S" if "\<not> in_log S n" for n using that by (auto simp: in_log_def LOGSIZE_def)
  show ?thesis
  proof (rule crash_disk [OF o(6) z o(7) idle_clean [OF o(1) assms(2)] assms(9) [folded cur]])
    fix cs
    assume cs: "head_is (vcur ?u S) cs" "blocks_ok (capacity h 0) S cs"
      "\<And>n. \<not> in_log S n \<Longrightarrow> apply_writes (home_writes S cs ?u) (vcur ?u) n = (if k \<le> length bs then vdisk ?v n else vcur ?v n)"
    show ?thesis
      using cs(3) ne by (intro wp_mono [OF initlog_law [OF assms(7,8,3,6,4,5) cs(1) [unfolded cur] cs(2)]]) (auto simp: cur)
  qed
qed

text \<open>
  C2: A commit is atomic. When the machine stops after any number \<open>k\<close> of the disk writes of a commit, with
  an empty cache after the restart, the recovery returns and leaves outside the log either the whole disk as
  it was before the transaction or the whole disk as the transaction meant it, the latter as soon as the
  header has been written.
\<close>

theorem commit_is_atomic:
  assumes "log_ok h st dv S bs s" "idle bs (bio_view st dv (lbc s))"
    and "of_int dev = dv" "sint (sb_logstart sb) = int S" "sint (sb_nlog sb) = int LOGSIZE"
  shows "wp (commit h p s) (\<lambda>t. log_ok h st dv S [] t \<and> (\<exists>ws. wrote (lbc t) = wrote (lbc s) @ ws \<and> length ws = (if bs = [] then 0 else 2 * length bs + 2) \<and>
     vdisk (bio_view st dv (lbc t)) = apply_writes ws (vdisk (bio_view st dv (lbc s))) \<and>
     (\<forall>k \<le> length ws. \<forall>r. length (lh_block r) = LOGSIZE \<and> bio_ok h st dv (lbc r) \<and> idle [] (bio_view st dv (lbc r)) \<and>
        vdisk (bio_view st dv (lbc r)) = apply_writes (take k ws) (vdisk (bio_view st dv (lbc s))) \<longrightarrow>
        wp (initlog h q dev sb r) (\<lambda>u. log_ok h st dv S [] u \<and> (\<forall>n. \<not> in_log S n \<longrightarrow> vdisk (bio_view st dv (lbc u)) n =
          (if k \<le> length bs then vdisk (bio_view st dv (lbc s)) n else vcur (bio_view st dv (lbc s)) n))))))"
proof (cases "bs = []")
  case True
  then have "lh_n s = 0" using log_okD(4) [OF assms(1)] by (simp add: log_mem_def)
  moreover have "wp (initlog h q dev sb r) (\<lambda>u. log_ok h st dv S [] u \<and> (\<forall>n. \<not> in_log S n \<longrightarrow> vdisk (bio_view st dv (lbc u)) n = vdisk (bio_view st dv (lbc s)) n))"
    if "length (lh_block r) = LOGSIZE" "bio_ok h st dv (lbc r)" "idle [] (bio_view st dv (lbc r))" "vdisk (bio_view st dv (lbc r)) = vdisk (bio_view st dv (lbc s))" for r
    using restart_after_writes [OF assms that(1-3), of 0 q] that(4) by simp
  ultimately show ?thesis using assms(1) True by (simp add: commit_def)
next
  case False
  note o = log_okD [OF assms(1)]
  show ?thesis
  proof (rule wp_mono [OF wp_conj [OF commit_view [OF o(1,4,6) assms(2) False] commit_ok [OF assms(1,2)]]], elim conjE)
    fix t
    let ?ws = "commit_writes S (lh_block s) bs (bio_view st dv (lbc s))"
    assume v: "bio_view st dv (lbc t) = v_unpins bs (v_puts ?ws (bio_view st dv (lbc s)))" and ok: "log_ok h st dv S [] t"
    from v have "vwrote (bio_view st dv (lbc t)) = vwrote (bio_view st dv (lbc s)) @ ?ws" "vdisk (bio_view st dv (lbc t)) = apply_writes ?ws (vdisk (bio_view st dv (lbc s)))"
      by simp_all
    moreover have len: "length ?ws = (if bs = [] then 0 else 2 * length bs + 2)" using False by (simp add: commit_writes_def log_writes_def Let_def)
    ultimately have w: "wrote (lbc t) = wrote (lbc s) @ ?ws" "vdisk (bio_view st dv (lbc t)) = apply_writes ?ws (vdisk (bio_view st dv (lbc s)))"
      by (simp_all add: bio_view_def)
    then show "log_ok h st dv S [] t \<and> (\<exists>ws. wrote (lbc t) = wrote (lbc s) @ ws \<and> length ws = (if bs = [] then 0 else 2 * length bs + 2) \<and>
     vdisk (bio_view st dv (lbc t)) = apply_writes ws (vdisk (bio_view st dv (lbc s))) \<and>
     (\<forall>k \<le> length ws. \<forall>r. length (lh_block r) = LOGSIZE \<and> bio_ok h st dv (lbc r) \<and> idle [] (bio_view st dv (lbc r)) \<and>
        vdisk (bio_view st dv (lbc r)) = apply_writes (take k ws) (vdisk (bio_view st dv (lbc s))) \<longrightarrow>
        wp (initlog h q dev sb r) (\<lambda>u. log_ok h st dv S [] u \<and> (\<forall>n. \<not> in_log S n \<longrightarrow> vdisk (bio_view st dv (lbc u)) n =
          (if k \<le> length bs then vdisk (bio_view st dv (lbc s)) n else vcur (bio_view st dv (lbc s)) n)))))"
      using ok len restart_after_writes [OF assms] by blast
  qed
qed

lemma one_log:
  shows "log_ok ram_hw (\<lambda>m. m) 1 2 [50] (ram_log [50] (ram_cache (one_buf (initsleeplock ''buffer'')) blank))"
    "idle [50] (bio_view (\<lambda>m. m) 1 (lbc (ram_log [50] (ram_cache (one_buf (initsleeplock ''buffer'')) blank))))"
proof -
  have "sl_ok (initsleeplock ''buffer'')" by (simp add: sl_ok_def initsleeplock_def)
  then show "log_ok ram_hw (\<lambda>m. m) 1 2 [50] (ram_log [50] (ram_cache (one_buf (initsleeplock ''buffer'')) blank))"
    by (intro ram_log_ok one_cache_ok) (simp_all add: blank_head one_view blocks_ok_def in_log_def LOGSIZE_def)
  show "idle [50] (bio_view (\<lambda>m. m) 1 (lbc (ram_log [50] (ram_cache (one_buf (initsleeplock ''buffer'')) blank))))"
    by (simp add: ram_log_def one_view idle_def initsleeplock_def)
qed

lemma disk_lengths:
  assumes "bio_ok ram_hw (\<lambda>m. m) dv c" "k \<le> 4" "b < ram_capacity k"
  shows "length (media (bv c) (int k) (int b)) = BSIZE"
proof -
  have "vok ram_hw (\<lambda>m. m) (bv c)" using bio_okD(1) [OF assms(1)] by (simp add: drv_ok_def)
  then show ?thesis unfolding vok_def ram_hw_sel using assms(2,3) by blast
qed

text \<open>
  The transaction of block 50. When the machine stops before the first write the restarted machine finds
  the old block, when it stops after the last one the new block.
\<close>

theorem commit_is_atomic_witness:
  defines "s \<equiv> ram_log [50] (ram_cache (one_buf (initsleeplock ''buffer'')) blank)"
  shows "wp (commit ram_hw 7 s) (\<lambda>t.
    wp (initlog ram_hw 1 1 ram_super (ram_log [] (ram_cache (\<lambda>_. free_buf) blank))) (\<lambda>u. vdisk (bio_view (\<lambda>m. m) 1 (lbc u)) 50 = zero_block) \<and>
    wp (initlog ram_hw 1 1 ram_super (ram_log [] (ram_cache (\<lambda>_. free_buf) (media (bv (lbc t)))))) (\<lambda>u. vdisk (bio_view (\<lambda>m. m) 1 (lbc u)) 50 = replicate BSIZE 1))"
proof -
  let ?v = "\<lambda>s. bio_view (\<lambda>m. m) 1 (lbc s)"
  have sb: "of_int 1 = (1 :: uint32)" "sint (sb_logstart ram_super) = int 2" "sint (sb_nlog ram_super) = int LOGSIZE"
    by (simp_all add: ram_super_def LOGSIZE_def)
  have v: "?v s = bio_view (\<lambda>m. m) 1 (ram_cache (one_buf (initsleeplock ''buffer'')) blank)" by (simp add: s_def ram_log_def)
  show ?thesis
  proof (rule wp_mono [OF commit_is_atomic [OF one_log sb, of 7 1, folded s_def]], elim conjE exE, rule conjI)
    fix t ws
    assume ok: "log_ok ram_hw (\<lambda>m. m) 1 2 [] t" and len: "length ws = (if [50 :: nat] = [] then 0 else 2 * length [50 :: nat] + 2)" and d: "vdisk (?v t) = apply_writes ws (vdisk (?v s))"
      and r: "\<forall>k \<le> length ws. \<forall>r. length (lh_block r) = LOGSIZE \<and> bio_ok ram_hw (\<lambda>m. m) 1 (lbc r) \<and> idle [] (?v r) \<and>
          vdisk (?v r) = apply_writes (take k ws) (vdisk (?v s)) \<longrightarrow>
        wp (initlog ram_hw 1 1 ram_super r) (\<lambda>u. log_ok ram_hw (\<lambda>m. m) 1 2 [] u \<and> (\<forall>n. \<not> in_log 2 n \<longrightarrow> vdisk (?v u) n = (if k \<le> length [50] then vdisk (?v s) n else vcur (?v s) n)))"
    have b: "log_ok ram_hw (\<lambda>m. m) 1 2 [] u \<and> (\<forall>n. \<not> in_log 2 n \<longrightarrow> vdisk (?v u) n = (if k \<le> length [50] then vdisk (?v s) n else vcur (?v s) n)) \<Longrightarrow>
        vdisk (?v u) 50 = (if k \<le> 1 then zero_block else replicate BSIZE 1)" for u and k :: nat
      by (simp add: v one_view in_log_def LOGSIZE_def blank_def)
    have e: "length (lh_block (ram_log [] c)) = LOGSIZE" "lbc (ram_log [] c) = c" for c by (simp_all add: ram_log_def LOGSIZE_def)
    have i: "idle [] \<lparr>vcur = f, vdisk = g, vref = \<lambda>_. 0, vheld = \<lambda>_. None, vwrote = ws'\<rparr>" for f g ws' by (simp add: idle_def)
    show "wp (initlog ram_hw 1 1 ram_super (ram_log [] (ram_cache (\<lambda>_. free_buf) blank))) (\<lambda>u. vdisk (?v u) 50 = zero_block)"
      by (rule wp_mono [OF r [rule_format, of 0]]) (use b [of _ 0] in \<open>simp_all add: e i free_cache_ok free_view v one_view\<close>)
    have "vdisk (?v t) = (\<lambda>n. media (bv (lbc t)) 0 (int n))" by (simp add: bio_view_def)
    moreover have "bio_ok ram_hw (\<lambda>m. m) 1 (ram_cache (\<lambda>_. free_buf) (media (bv (lbc t))))"
      by (rule free_cache_ok) (rule disk_lengths [OF log_okD(1) [OF ok]])
    ultimately show "wp (initlog ram_hw 1 1 ram_super (ram_log [] (ram_cache (\<lambda>_. free_buf) (media (bv (lbc t)))))) (\<lambda>u. vdisk (?v u) 50 = replicate BSIZE 1)"
      by (intro wp_mono [OF r [rule_format, of 4]]) (use b [of _ 4] len d in \<open>simp_all add: e i free_view v one_view\<close>)
  qed
qed

text \<open>
  C29: The end of the last outstanding file system operation commits: with every buffer released, \<^verbatim>\<open>end_op\<close>
  returns with the disk outside the log equal to the contents the operations left in the cache, no buffer
  referenced, no operation outstanding, and the sleepers on the log woken.
\<close>

theorem end_op_makes_durable:
  assumes "log_ok h st dv S bs s" "idle bs (bio_view st dv (lbc s))" "committing s = 0" "outstanding s = 1"
  shows "wp (end_op h p s) (\<lambda>t. log_ok h st dv S [] t \<and> idle [] (bio_view st dv (lbc t)) \<and> outstanding t = 0 \<and> committing t = 0 \<and> woken t = Suc (woken s) \<and>
    (\<forall>n. \<not> in_log S n \<longrightarrow> vdisk (bio_view st dv (lbc t)) n = vcur (bio_view st dv (lbc s)) n))"
  by (rule end_op_last [OF assms])

theorem end_op_makes_durable_witness:
  "wp (end_op ram_hw 7 (ram_log [50] (ram_cache (one_buf (initsleeplock ''buffer'')) blank))) (\<lambda>t. vdisk (bio_view (\<lambda>m. m) 1 (lbc t)) 50 = replicate BSIZE 1)"
  by (rule wp_mono [OF end_op_makes_durable [OF one_log, of 7]])
    (simp_all add: ram_log_def one_view in_log_def LOGSIZE_def)

text \<open>
  C30: \<^verbatim>\<open>log_write\<close> of a buffer the caller owns adds its block to the transaction and pins it, or does
  neither when the block is already there; the contents, the owners and the other fields stay.
\<close>

theorem log_write_absorbs:
  assumes "log_ok h st dv S bs s" "bio_hand dv p (lbc s) b n" "1 \<le> outstanding s" "length bs + 1 < LOGSIZE" "\<not> in_log S n"
    and "vref (bio_view st dv (lbc s)) n + 1 < 2 ^ 32"
  shows "wp (log_write b s) (\<lambda>t. log_ok h st dv S (if n \<in> set bs then bs else bs @ [n]) t \<and>
     bio_view st dv (lbc t) = (if n \<in> set bs then bio_view st dv (lbc s) else v_pin n (bio_view st dv (lbc s))) \<and>
     bio_hand dv q (lbc t) = bio_hand dv q (lbc s) \<and> outstanding t = outstanding s \<and> committing t = committing s)"
  by (rule log_write_law [OF assms])

theorem log_write_absorbs_witness:
  "wp (log_write (bcache_buf 0) (ram_log [] (ram_cache (one_buf (held_by 7)) blank))) (\<lambda>t. lh_n t = 1 \<and> vref (bio_view (\<lambda>m. m) 1 (lbc t)) 50 = 2)"
proof -
  have "sl_ok (held_by 7)" by (simp add: sl_ok_def initsleeplock_def)
  then have ok: "log_ok ram_hw (\<lambda>m. m) 1 2 [] (ram_log [] (ram_cache (one_buf (held_by 7)) blank))"
    by (intro ram_log_ok one_cache_ok) (simp_all add: blank_head one_view blocks_ok_def in_log_def LOGSIZE_def)
  have hand: "bio_hand 1 7 (lbc (ram_log [] (ram_cache (one_buf (held_by 7)) blank))) (bcache_buf 0) 50"
    by (simp add: bio_hand_def ram_log_def buf0_bset) (simp add: one_buf_def)
  show ?thesis
    by (rule wp_mono [OF log_write_absorbs [OF ok hand]])
      (auto simp: ram_log_def one_view in_log_def LOGSIZE_def v_pin_def log_ok_def log_mem_def)
qed

text \<open>
  C31: The reservation of \<^verbatim>\<open>begin_op\<close> is one block larger than the log. On an empty log it admits three
  operations of \<^verbatim>\<open>MAXOPBLOCKS\<close> = 10 blocks each and makes a fourth wait; but after 29 blocks the next
  \<^verbatim>\<open>log_write\<close> of these operations panics.
\<close>

theorem reservation_exceeds_log:
  assumes "log_ok h st dv S [] s" "committing s = 0" "outstanding s = 0" "log_ok h st dv S bs t" "length bs = 29"
  shows "wp (begin_op s) (\<lambda>(a, s1). a \<and> wp (begin_op s1) (\<lambda>(b, s2). b \<and> wp (begin_op s2) (\<lambda>(c, s3). c \<and>
     outstanding s3 = 3 \<and> log_ok h st dv S [] s3 \<and> wp (begin_op s3) (\<lambda>(d, _). \<not> d)))) \<and>
   log_write b t = Inl (Panic ''too big a transaction'')"
proof
  have b: "\<exists>s'. begin_op s = Inr (outstanding s < 3, s') \<and> log_ok h st dv S [] s' \<and> committing s' = 0 \<and> outstanding s' = min 3 (outstanding s + 1)"
    if o: "log_ok h st dv S [] s" "committing s = 0" "outstanding s \<le> 3" for s :: "'a log"
  proof -
    obtain c where c: "cpu_ok c" "begin_op s = Inr (if 3 \<le> outstanding s then (False, s\<lparr>lbc := log_cpu c s\<rparr>)
        else (True, s\<lparr>outstanding := outstanding s + 1, lbc := log_cpu c s\<rparr>))"
      using begin_op_eff [OF o(1)] o(2) by (auto simp: LOGSIZE_def MAXOPBLOCKS_def)
    then show ?thesis using o log_ok_fields(1) [OF o(1) c(1), of "s\<lparr>lbc := log_cpu c s\<rparr>"]
        log_ok_fields(1) [OF o(1) c(1), of "s\<lparr>outstanding := outstanding s + 1, lbc := log_cpu c s\<rparr>"]
      by (auto simp: log_mem_def)
  qed
  obtain s1 where s1: "begin_op s = Inr (True, s1)" "log_ok h st dv S [] s1" "committing s1 = 0" "outstanding s1 = 1" using b [OF assms(1,2)] assms(3) by auto
  obtain s2 where s2: "begin_op s1 = Inr (True, s2)" "log_ok h st dv S [] s2" "committing s2 = 0" "outstanding s2 = 2" using b [OF s1(2,3)] s1(4) by auto
  obtain s3 where s3: "begin_op s2 = Inr (True, s3)" "log_ok h st dv S [] s3" "committing s3 = 0" "outstanding s3 = 3" using b [OF s2(2,3)] s2(4) by auto
  obtain s4 where s4: "begin_op s3 = Inr (False, s4)" using b [OF s3(2,3)] s3(4) by auto
  show "wp (begin_op s) (\<lambda>(a, s1). a \<and> wp (begin_op s1) (\<lambda>(b, s2). b \<and> wp (begin_op s2) (\<lambda>(c, s3). c \<and>
     outstanding s3 = 3 \<and> log_ok h st dv S [] s3 \<and> wp (begin_op s3) (\<lambda>(d, _). \<not> d))))"
    by (simp add: s1(1) s2(1) s3 s4)
  show "log_write b t = Inl (Panic ''too big a transaction'')"
    using log_okD(4) [OF assms(4)] assms(5)
    by (simp add: log_write_def log_acquire_eff [OF log_okD(2) [OF assms(4)]] log_okD(5) [OF assms(4)] log_mem_def LOGSIZE_def)
qed

text \<open>The other 29 buffers pin the blocks from 100 on.\<close>

definition full_buf :: "nat \<Rightarrow> buf" where
  "full_buf b = (if b \<in> bcache_buf ` {..<29} then free_buf\<lparr>b_valid := 1, b_dev := 1, b_blockno := of_nat (b - 900), b_refcnt := 1\<rparr> else free_buf)"

lemma full_cache:
  "bio_ok ram_hw (\<lambda>m. m) 1 (ram_cache full_buf blank)" "n \<in> {100..<129} \<Longrightarrow> 0 < vref (bio_view (\<lambda>m. m) 1 (ram_cache full_buf blank)) n"
proof -
  have no: "unat (b_blockno (full_buf b)) = b - 900" if "b \<in> bcache_buf ` {..<29}" for b
    using that by (auto simp: full_buf_def bcache_buf_def unat_of_nat)
  have dev: "b_dev (full_buf b) = 1 \<longleftrightarrow> b \<in> bcache_buf ` {..<29}" for b by (simp add: full_buf_def free_buf_def)
  have u: "uniq 1 full_buf"
  proof (unfold uniq_def, rule inj_onI)
    fix b c
    assume a: "b \<in> {b \<in> bset. b_dev (full_buf b) = 1}" "c \<in> {b \<in> bset. b_dev (full_buf b) = 1}" "b_blockno (full_buf b) = b_blockno (full_buf c)"
    then have "b - 900 = c - 900" using no [of b] no [of c] by (simp add: dev)
    moreover have "900 < b" "900 < c" using a by (auto simp: bset_def bcache_buf_def)
    ultimately show "b = c" by linarith
  qed
  show "bio_ok ram_hw (\<lambda>m. m) 1 (ram_cache full_buf blank)"
  proof (rule ram_cache_ok [OF _ _ u])
    fix b
    assume "b \<in> bset"
    then have "b_dev (full_buf b) = 1 \<longrightarrow> unat (b_blockno (full_buf b)) < 2000" using no [of b] by (auto simp: dev bcache_buf_def)
    then show "buf_ok ram_hw (blank 0) 1 (full_buf b)"
      by (auto simp: buf_ok_def ram_capacity_def) (simp_all add: full_buf_def free_buf_def sl_ok_def initsleeplock_def split: if_splits)
  qed simp
  assume n: "n \<in> {100..<129}"
  then have m: "bcache_buf (n - 100) \<in> bcache_buf ` {..<29}" by auto
  have "holder 1 (ram_cache full_buf blank) n = Some (bcache_buf (n - 100))"
    by (subst holder_Some) (use u m no [OF m] dev n in \<open>auto simp: bset_def NBUF_def bcache_buf_def\<close>)
  with m show "0 < vref (bio_view (\<lambda>m. m) 1 (ram_cache full_buf blank)) n" by (simp add: bio_view_def) (simp add: full_buf_def)
qed

theorem reservation_exceeds_log_witness:
  "wp (begin_op ((ram_log [] (ram_cache (\<lambda>_. free_buf) blank))\<lparr>outstanding := 0\<rparr>)) (\<lambda>(a, s1). a \<and>
     wp (begin_op s1) (\<lambda>(b, s2). b \<and> wp (begin_op s2) (\<lambda>(c, s3). c \<and> outstanding s3 = 3))) \<and>
   log_write (bcache_buf 29) (ram_log [100..<129] (ram_cache full_buf blank)) = Inl (Panic ''too big a transaction'')"
proof -
  have "log_ok ram_hw (\<lambda>m. m) 1 2 [] (ram_log [] (ram_cache (\<lambda>_. free_buf) blank))"
    by (rule ram_log_ok) (simp_all add: blank_head free_cache_ok blocks_ok_def LOGSIZE_def)
  then have e: "log_ok ram_hw (\<lambda>m. m) 1 2 [] ((ram_log [] (ram_cache (\<lambda>_. free_buf) blank))\<lparr>outstanding := 0\<rparr>)" by (simp add: log_ok_def log_mem_def)
  have f: "log_ok ram_hw (\<lambda>m. m) 1 2 [100..<129] (ram_log [100..<129] (ram_cache full_buf blank))"
    by (rule ram_log_ok) (use full_cache in \<open>auto simp: blank_head blocks_ok_def LOGSIZE_def in_log_def\<close>)
  have "committing ((ram_log [] (ram_cache (\<lambda>_. free_buf) blank))\<lparr>outstanding := 0\<rparr>) = 0" "length [100..<129 :: nat] = 29" by (simp_all add: ram_log_def)
  from reservation_exceeds_log [OF e this(1) _ f this(2), of "bcache_buf 29"] show ?thesis by (auto elim!: wp_mono)
qed

section \<open>The buffer cache\<close>

text \<open>
  C32: The buffer cache is a write-through view of the disk: what a process writes through a buffer it got
  with \<^verbatim>\<open>bread\<close> is on the disk when \<^verbatim>\<open>bwrite\<close> returns, and the next \<^verbatim>\<open>bread\<close> of that block, by any process, returns
  a buffer with that content; no other block changes and the invariant of the cache holds. No call panics
  or waits when nobody holds the block and it is in the cache or a buffer is free.
\<close>

theorem cache_round_trip:
  assumes "bio_ok h st dv s" "can_get (capacity h 0) n (bio_view st dv s)" "length x = BSIZE"
  shows "wp (kbind (bread h p dv (of_nat n) s) (\<lambda>(b, s). kbind (bwrite h p b (set_data b x s)) (\<lambda>s. kbind (brelse p b s) (bread h q dv (of_nat n)))))
     (\<lambda>(b, t). b_data (bb t b) = x \<and> bio_ok h st dv t \<and> vdisk (bio_view st dv t) = (vdisk (bio_view st dv s))(n := x) \<and>
        vcur (bio_view st dv t) = (vcur (bio_view st dv s))(n := x) \<and> vheld (bio_view st dv t) = (vheld (bio_view st dv s))(n := Some q))"
proof -
  let ?v = "bio_view st dv"
  have again: "wp (bread h q dv (of_nat n) t) (\<lambda>(b, t). b_data (bb t b) = x \<and> bio_ok h st dv t \<and> vdisk (?v t) = (vdisk (?v s))(n := x) \<and>
        vcur (?v t) = (vcur (?v s))(n := x) \<and> vheld (?v t) = (vheld (?v s))(n := Some q))"
    if t: "bio_ok h st dv t" "?v t = v_write n (v_set n x (?v s))" for t
  proof (rule bc.wp_get [OF t(1)])
    show "can_get (capacity h 0) n (?v t)" using assms(2) by (simp add: t(2) can_get_def v_write_def v_set_def)
    fix b u
    assume u: "bio_ok h st dv u" "?v u = v_get q n (?v t)" "bio_hand dv q u b n"
    then show "case (b, u) of (b, t) \<Rightarrow> b_data (bb t b) = x \<and> bio_ok h st dv t \<and> vdisk (?v t) = (vdisk (?v s))(n := x) \<and>
        vcur (?v t) = (vcur (?v s))(n := x) \<and> vheld (?v t) = (vheld (?v s))(n := Some q)"
      using bc.dat_law [OF u(1,3)] by (simp add: t(2) v_get_def v_write_def v_set_def)
  qed
  have "wp (bread h p dv (of_nat n) s) (\<lambda>(b, t). wp (bwrite h p b (set_data b x t))
      (\<lambda>t. wp (brelse p b t) (\<lambda>t. bio_ok h st dv t \<and> ?v t = v_write n (v_set n x (?v s)))))"
    by (rule bc.rewrite_block [OF assms(1,2), of "\<lambda>_. x"]) (rule assms(3))
  then show ?thesis unfolding wp_kbind
    by (rule wp_mono) (auto intro!: again elim!: wp_mono)
qed

theorem cache_round_trip_witness:
  "wp (kbind (bread ram_hw 3 1 (of_nat 60) (ram_cache (\<lambda>_. free_buf) blank)) (\<lambda>(b, s). kbind (bwrite ram_hw 3 b (set_data b (replicate BSIZE 5) s))
     (\<lambda>s. kbind (brelse 3 b s) (bread ram_hw 4 1 (of_nat 60))))) (\<lambda>(b, t). b_data (bb t b) = replicate BSIZE 5)"
  by (rule wp_mono [OF cache_round_trip [where st = "\<lambda>m. m"]])
    (auto simp: free_cache_ok free_view can_get_def ram_capacity_def NBUF_def)

text \<open>
  C33: Buffers are recycled in the order of their last use. In the list of the ring, most recent first, a
  release of the last reference moves the buffer to the front and any other release keeps the order; a
  \<^verbatim>\<open>bget\<close> of a block that is not cached takes the last buffer of the list that nobody references.
\<close>

theorem least_recently_used:
  assumes "bio_ok h st dv s" "ring (bnext s) (bprev s) xs" "set xs = bset"
  shows "(bio_hand dv p s b n \<longrightarrow> wp (brelse p b s) (\<lambda>t. ring (bnext t) (bprev t) (if b_refcnt (bb s b) = 1 then b # remove1 b xs else xs))) \<and>
    (holder dv s (unat bn) = None \<and> (\<exists>a \<in> bset. b_refcnt (bb s a) = 0) \<longrightarrow>
       wp (bget p dv bn s) (\<lambda>(c, t). c = last (filter (\<lambda>a. b_refcnt (bb s a) = 0) xs) \<and> ring (bnext t) (bprev t) xs))"
proof (intro conjI impI)
  assume hd: "bio_hand dv p s b n"
  show "wp (brelse p b s) (\<lambda>t. ring (bnext t) (bprev t) (if b_refcnt (bb s b) = 1 then b # remove1 b xs else xs))"
    by (rule brelse_eff [OF assms(1) hd]) (use assms(2,3) in \<open>simp add: right_minus_eq\<close>)
next
  assume "holder dv s (unat bn) = None \<and> (\<exists>a \<in> bset. b_refcnt (bb s a) = 0)"
  then obtain a where a: "holder dv s (unat bn) = None" "a \<in> bset" "b_refcnt (bb s a) = 0" by blast
  have find: "find P (rev ys) = Some c \<Longrightarrow> c = last (filter P ys)" for P ys and c :: nat
    by (induction ys rule: rev_induct) (auto split: if_splits)
  show "wp (bget p dv bn s) (\<lambda>(c, t). c = last (filter (\<lambda>a. b_refcnt (bb s a) = 0) xs) \<and> ring (bnext t) (bprev t) xs)"
    by (rule bget_miss [OF assms(1) a(1) refl a(2,3), of p]) (use assms(2) find in simp)
qed

theorem least_recently_used_witness:
  "wp (brelse 7 (bcache_buf 0) (ram_cache (one_buf (held_by 7)) blank)) (\<lambda>t. bnext t bcache_head = bcache_buf 0) \<and>
   wp (bget 7 1 60 (ram_cache (one_buf (held_by 7)) blank)) (\<lambda>(c, t). c = bcache_buf 1)"
proof -
  let ?s = "ram_cache (one_buf (held_by 7)) blank" and ?xs = "rev (map bcache_buf [0..<NBUF])"
  have ok: "bio_ok ram_hw (\<lambda>m. m) 1 ?s" by (rule one_cache_ok) (simp add: sl_ok_def initsleeplock_def)
  have xs: "ring (bnext ?s) (bprev ?s) ?xs" "set ?xs = bset" by (simp_all add: ram_cache_def binit_ring bset_list del: set_map)
  have hand: "bio_hand 1 7 ?s (bcache_buf 0) 50" by (simp add: bio_hand_def buf0_bset) (simp add: one_buf_def)
  have hold: "holder 1 ?s (unat (60 :: uint32)) = None" by (simp add: one_holder)
  have free: "\<exists>a \<in> bset. b_refcnt (bb ?s a) = 0"
    by (rule bexI [of _ "bcache_buf 1"]) (simp_all add: one_buf_def free_buf_def bcache_buf_def, simp add: bset_def bcache_buf_def NBUF_def)
  note lru = least_recently_used [OF ok xs, of 7 "bcache_buf 0" 50 60]
  have "wp (brelse 7 (bcache_buf 0) ?s) (\<lambda>t. bnext t bcache_head = bcache_buf 0)"
    by (rule wp_mono [OF conjunct1 [OF lru, THEN mp, OF hand]]) (simp add: one_buf_def ring_def)
  moreover have "last (filter (\<lambda>a. b_refcnt (bb ?s a) = 0) ?xs) = bcache_buf 1"
    by (simp add: one_buf_def free_buf_def bcache_buf_def NBUF_def upt_conv_Cons)
  with conjunct2 [OF lru] hold free have "wp (bget 7 1 60 ?s) (\<lambda>(c, t). c = bcache_buf 1)"
    by (auto elim!: wp_mono)
  ultimately show ?thesis by blast
qed

end
