(* ===== verification/Fs_Theorems.thy ===== *)
theory Fs_Theorems
  imports Fs_Spec Inode_Table Disk_Theorems
begin

text \<open>Properties of the file system's blocks and files, with an example on the ram disk.\<close>

section \<open>An example file system\<close>

text \<open>
  The first 48 blocks are in use; block 46 is the only block of the file with inode 3, which has 5 bytes.
\<close>

definition ram_files :: ram where
  "ram_files = blk_upd (blk_upd blank 0 45 (replicate 6 255 @ replicate (BSIZE - 6) 0)) 0 46 ([104, 101, 108, 108, 111] @ replicate (BSIZE - 5) 0)"

definition ram_inode :: inode where
  "ram_inode = \<lparr>i_dev = 1, i_inum = 3, i_ref = 1, i_lock = held_by 7, i_valid = 1, i_type = T_FILE, i_major = 0, i_minor = 0, i_nlink = 1, i_size = 5,
     i_addrs = 46 # replicate 12 0\<rparr>"

definition ram_fs :: "ram fs" where
  "ram_fs = \<lparr>flog = ram_log [] (ram_cache (\<lambda>_. free_buf) ram_files), it_lock = initlock ''itable'', itable = [ram_inode], fsb = ram_super\<rparr>"

definition ram_blocks :: "nat \<Rightarrow> block" where
  "ram_blocks n = ram_files 0 (int n)"

lemma ram_files_at: "ram_files 0 (int n) = (if n = 45 then replicate 6 255 @ replicate (BSIZE - 6) 0 else if n = 46 then [104, 101, 108, 108, 111] @ replicate (BSIZE - 5) 0 else zero_block)"
  by (auto simp: ram_files_def blk_upd_def blank_def)

lemma ram_files_len: "length (ram_files k b) = BSIZE"
  by (simp add: ram_files_def blk_upd_def blank_def zero_block_def BSIZE_def)

lemma ram_map_blk: "b < 2000 \<Longrightarrow> map_blk ram_super b = 45"
  by (simp add: map_blk_def ram_super_def BPB_def BSIZE_def)

lemma ram_is_map: "is_map ram_super n \<longleftrightarrow> n = 45"
  using ram_map_blk by (auto simp: is_map_def) (auto simp: ram_super_def intro: exI [of _ 0])

lemma ram_is_inodes: "is_inodes ram_super n \<Longrightarrow> 32 \<le> n \<and> n < 45"
  by (auto simp: is_inodes_def inode_blk_def ram_super_def IPB_def BSIZE_def)

lemma ram_layout: "layout (capacity ram_hw 0) 2 ram_super"
proof -
  have "unat (sb_size ram_super) = 2000" by (simp add: ram_super_def)
  then show ?thesis by (auto simp: layout_def ram_is_map in_log_def LOGSIZE_def ram_capacity_def dest: ram_is_inodes)
qed

lemma ram_used: "b < 48 \<Longrightarrow> used ram_super ram_blocks b"
proof -
  assume b: "b < 48"
  then have "b mod BPB div 8 < 6" by (simp add: BPB_def BSIZE_def)
  then have "ram_blocks (map_blk ram_super b) ! (b mod BPB div 8) = 255" using b ram_files_at [of 45] by (simp add: ram_map_blk ram_blocks_def nth_append)
  moreover have "bit (255 :: uchar) (b mod 8)"
    using bit_mask_iff [where ?'a = "8 word", of 8 "b mod 8"] by (simp add: mask_numeral)
  ultimately show ?thesis by (simp add: used_bit)
qed

lemma ram_free: "\<not> full_disk ram_super ram_blocks"
proof -
  have "48 < unat (sb_size ram_super)" by (simp add: ram_super_def)
  moreover have "ram_blocks 45 ! 6 = 0" using ram_files_at [of 45] by (simp add: ram_blocks_def nth_append BSIZE_def)
  then have "\<not> used ram_super ram_blocks 48" using ram_map_blk [of 48] by (simp add: used_def BPB_def BSIZE_def)
  ultimately show ?thesis by (auto simp: full_disk_def)
qed

lemma ram_meta_used: "meta_used 2 ram_super ram_blocks"
  by (auto simp: meta_used_def meta_def ram_is_map in_log_def LOGSIZE_def intro!: ram_used dest: ram_is_inodes)

lemma ram_addr: "file_addr ram_blocks ram_inode k = (if k = 0 then 46 else 0)"
  by (auto simp: file_addr_def ind_blk_def ram_inode_def NDIRECT_def nth_Cons' nth_replicate)

lemma ram_file_ok: "file_ok 2 ram_super ram_blocks ram_inode"
proof -
  have "\<not> is_inodes ram_super 46" using ram_is_inodes [of 46] by auto
  then have "data_blk 2 ram_super ram_blocks 46"
    by (simp add: data_blk_def ram_used meta_def ram_is_map in_log_def LOGSIZE_def) (simp add: ram_super_def)
  moreover have "ind_blk ram_inode = 0" "length (i_addrs ram_inode) = NDIRECT + 1" by (simp_all add: ram_inode_def ind_blk_def NDIRECT_def)
  ultimately show ?thesis by (simp add: file_ok_def ram_addr)
qed

lemma ram_fs_sel [simp]: "itable ram_fs = [ram_inode]" "fsb ram_fs = ram_super" "i_dev ram_inode = 1" "unat (i_size ram_inode) = 5" "unat (i_inum ram_inode) = 3"
  "unat (sb_ninodes ram_super) = 200"
  by (simp_all add: ram_fs_def ram_inode_def ram_super_def)

lemma ram_mapped: "mapped ram_blocks ram_inode (unat (i_size ram_inode))"
  by (auto simp: mapped_def ram_addr MAXFILE_def NDIRECT_def BSIZE_def)

lemma ram_tx: "tx_at ram_hw (\<lambda>m. m) 1 2 p ram_blocks {} {} ram_fs"
proof -
  have "log_ok ram_hw (\<lambda>m. m) 1 2 [] (flog ram_fs)"
    unfolding ram_fs_def fs.simps
    by (rule ram_log_ok) (use blank_head [of 2] in \<open>simp_all add: free_cache_ok ram_files_len blocks_ok_def LOGSIZE_def\<close>,
        simp add: ram_files_def blk_upd_def)
  then show ?thesis unfolding tx_at_def by (simp add: ram_fs_def ram_log_def free_view ram_blocks_def [abs_def])
qed

section \<open>Files\<close>



text \<open>
  C10: What has been written is read back: after a \<^verbatim>\<open>writei\<close> that returned \<open>r\<close>, a \<^verbatim>\<open>readi\<close> of \<open>r\<close> bytes at the same
  offset returns \<open>r\<close> and delivers the bytes of the writer in order.
\<close>

theorem read_after_write:
  assumes "tx_at h st (i_dev x) S p D {} L s" "itable s ! ip = x" "ip < length (itable s)" "layout (capacity h 0) S (fsb s)" "meta_used S (fsb s) D"
    and "file_ok S (fsb s) D x" "mapped D x (unat (i_size x))" "unat (i_inum x) < unat (sb_ninodes (fsb s))"
    and "unat off \<le> unat (i_size x)" "unat off + unat n \<le> MAXFILE * BSIZE" "card L + 6 * nblk (unat off) (unat n) + 7 < LOGSIZE"
  shows "wp (writei h p fetch f ip src off n s) (\<lambda>(r, t). 0 \<le> r \<and> r \<le> int (unat n) \<and>
    wp (readi h p collect ip dst off (of_int r) ([], t)) (\<lambda>(r', u, _). r' = r \<and> u = delivered dst (map (\<lambda>i. f (src + of_nat i)) [0..<nat r])))"
proof -
  have c: "card L + 6 * nblk (unat off) (unat n) + 1 < LOGSIZE" using assms(11) by simp
  show ?thesis
  proof (rule wp_mono [OF writei_law [OF assms(1-3) refl assms(4-7,9,10,8) c fetch_copies(1)]], clarify)
    fix r t
    let ?g = "\<lambda>i. f (src + of_nat i)"
    assume "writei_post h st S p ip (unat off) (unat n) ?g D L s (copy_fails fetch f src (unat off) (unat n)) (r, t)"
    then obtain m D' y L' where w: "m \<le> unat n" "r = int m" "tx_at h st (i_dev x) S p D' {} L' t" "fs_same (upd_inode ip (\<lambda>_. y) s) t"
      "file_replaced S (fsb s) (unat off) m ?g D x D' y" "card L' \<le> card L + 6 * nblk (unat off) (unat n) + 1"
      unfolding writei_post_def Let_def prod.case assms(2) by blast
    note v = w(5) [unfolded file_replaced_def]
    have y: "itable t ! ip = y" "ip < length (itable t)" "fsb t = fsb s" using w(4) assms(3) by (simp_all add: fs_same_def upd_inode_def)
    have e: "y = x\<lparr>i_addrs := i_addrs y, i_size := i_size y\<rparr>" using v by blast
    have dev: "i_dev y = i_dev x" by (subst e) simp
    have um: "unat (of_int r :: uint32) = m" using w(1,2) assms(10) by (simp add: unat_of_nat MAXFILE_def NDIRECT_def NINDIRECT_def BSIZE_def)
    have bs: "take m (drop (unat off) (file_bytes D' y)) = map ?g [0..<m]" using v assms(9) by (simp add: file_bytes_def)
    have "wp (readi h p collect ip dst off (of_int r) ([], t)) (\<lambda>(r', u, t'). r' = int (length (take m (drop (unat off) (file_bytes D' y)))) \<and>
       u = delivered dst (take m (drop (unat off) (file_bytes D' y))) \<and> tx_at h st (i_dev y) S p D' {} L' t' \<and> fs_same t t')"
      unfolding um [symmetric] by (rule readi_law [OF _ y(1,2)])
        (use w v dev y assms(4,10,11) um in \<open>auto simp: MAXFILE_def NDIRECT_def NINDIRECT_def BSIZE_def\<close>)
    then show "0 \<le> r \<and> r \<le> int (unat n) \<and> wp (readi h p collect ip dst off (of_int r) ([], t)) (\<lambda>(r', u, _). r' = r \<and> u = delivered dst (map ?g [0..<nat r]))"
      using w(1,2) zle_int [of m "unat n"] by (auto simp: bs elim!: wp_mono)
  qed
qed

theorem read_after_write_witness:
  "wp (writei ram_hw 7 fetch (\<lambda>a. ucast a) 0 1000 3 4 ram_fs) (\<lambda>(r, t).
     wp (readi ram_hw 7 collect 0 4096 3 (of_int r) ([], t)) (\<lambda>(r', u, _). r' = r \<and> u = delivered 4096 (map (\<lambda>i. ucast (1000 + of_nat i :: uint64)) [0..<nat r])))"
proof -
  have "nblk 3 4 = 1" by (simp add: nblk_def BSIZE_def)
  then show ?thesis
    by (intro wp_mono [OF read_after_write [of ram_hw "\<lambda>m. m" ram_inode 2 7 ram_blocks "{}" ram_fs 0 3 4 "\<lambda>a. ucast a" 1000 4096]])
      (use ram_tx ram_layout ram_meta_used ram_file_ok ram_mapped in \<open>auto simp: MAXFILE_def NDIRECT_def BSIZE_def LOGSIZE_def\<close>)
qed

section \<open>The block allocator\<close>

text \<open>
  C13: \<^verbatim>\<open>balloc\<close> returns a block that was free, is not block 0 and belongs neither to the log nor to the free map nor to the
  inodes. It marks the block, and no other, in the free map and fills it with zeros; every other block outside the
  map stays. It returns 0 only when every block is in use, and then changes nothing.
\<close>

theorem balloc_gives_free_block:
  assumes "tx_at h st dv S p D {} L s" "layout (capacity h 0) S (fsb s)" "meta_used S (fsb s) D" "card L + 2 < LOGSIZE"
  shows "wp (balloc h p dv s) (\<lambda>(r, t). \<exists>D' L'. tx_at h st dv S p D' {} L' t \<and> fs_same s t \<and>
    (if r = 0 then D' = D \<and> full_disk (fsb s) D
     else let a = unat r in a < unat (sb_size (fsb s)) \<and> \<not> used (fsb s) D a \<and> \<not> meta S (fsb s) a \<and> D' a = replicate BSIZE 0 \<and>
       (\<forall>b < unat (sb_size (fsb s)). used (fsb s) D' b \<longleftrightarrow> used (fsb s) D b \<or> b = a) \<and> (\<forall>b. \<not> is_map (fsb s) b \<longrightarrow> b \<noteq> a \<longrightarrow> D' b = D b)))"
proof (rule wp_balloc [OF assms(1-3) _ _ assms(4)], goal_cases)
  case (3 t)
  then show ?case by (auto simp: full_disk_def dest: lb.keeps_same)
next
  case (4 a t)
  have b: "unat (of_nat a :: uint32) = a" using alloc_bound [OF assms(2) 4(1)] by (simp add: unat_of_nat)
  moreover have "a \<noteq> 0" using 4(3) by (auto simp: meta_def)
  ultimately have nz: "of_nat a \<noteq> (0 :: uint32)" by (metis unat_0)
  have len: "length (D (map_blk (fsb s) a)) = BSIZE" using lb.size_law [OF assms(1)] BBLOCK_nat(2) [OF assms(2) 4(1)] by simp
  note al = allocated_disk [of S "fsb s" a D, OF 4(3,1) len]
  have same: "fs_same s t" using 4(5) by (rule lb.keeps_same)
  show ?case using 4(1-4) al nz same by (auto simp: b Let_def intro!: exI [of _ "allocated (fsb s) a D"])
qed (use assms(4) in \<open>auto simp: NBUF_def LOGSIZE_def\<close>)

theorem balloc_gives_free_block_witness:
  "wp (balloc ram_hw 7 1 ram_fs) (\<lambda>(r, t). r \<noteq> 0 \<and> \<not> meta 2 ram_super (unat r) \<and> \<not> used ram_super ram_blocks (unat r))"
  by (rule wp_mono [OF balloc_gives_free_block [of ram_hw "\<lambda>m. m" 1 2 7 ram_blocks "{}" ram_fs]])
    (use ram_tx ram_layout ram_meta_used ram_free in \<open>auto simp: LOGSIZE_def Let_def split: if_splits\<close>)

section \<open>References to inodes\<close>

text \<open>
  C40: The table of inodes counts references. An inode has at most one entry in use; \<open>refs s\<close> are the references it counts. \<^verbatim>\<open>iget\<close> returns the
  entry of the inode asked for with one reference more: the entry in use, its content kept, or an entry that was free and has to be
  read from disk; other entries stay. It panics exactly when the inode has no entry and none is free. \<^verbatim>\<open>idup\<close> adds a
  reference and \<^verbatim>\<open>iput\<close> takes one away; when that was the last one to an inode without links, the entry is no longer valid. Locks are
  released; only when it frees the inode on the disk may \<^verbatim>\<open>iput\<close> panic or wait.
\<close>

theorem inode_table_counts_references:
  assumes "table_ok s" "it_idle s" "ip < length (itable s)" "0 < i_ref (itable s ! ip)"
  shows "let k = (i_dev (itable s ! ip), i_inum (itable s ! ip));
      put = (\<lambda>t. table_ok t \<and> refs t = (refs s)(k := refs s k - 1)) in
    (if 0 < refs s (dv, n) \<or> (\<exists>x \<in> set (itable s). i_ref x = 0)
     then wp (iget dv n s) (\<lambda>(i, t). table_ok t \<and> it_idle t \<and> refs t = (refs s)((dv, n) := refs s (dv, n) + 1) \<and>
       i < length (itable s) \<and> i_dev (itable t ! i) = dv \<and> i_inum (itable t ! i) = n \<and> (\<forall>j. j \<noteq> i \<longrightarrow> itable t ! j = itable s ! j) \<and>
       (if 0 < refs s (dv, n) then itable t ! i = (itable s ! i)\<lparr>i_ref := i_ref (itable s ! i) + 1\<rparr>
        else i_ref (itable s ! i) = 0 \<and> i_valid (itable t ! i) = 0))
     else iget dv n s = Inl (Panic ''iget: no inodes'')) \<and>
    wp (idup ip s) (\<lambda>(i, t). i = ip \<and> table_ok t \<and> it_idle t \<and> refs t = (refs s)(k := refs s k + 1)) \<and>
    (if drops_inode ip s then pc (iput h p ip s) (\<lambda>t. put t \<and> i_valid (itable t ! ip) = 0) else wp (iput h p ip s) (\<lambda>t. put t \<and> it_idle t))"
proof -
  have "wp (iget dv n s) (\<lambda>(i, t). table_ok t \<and> it_idle t \<and> refs t = (refs s)((dv, n) := refs s (dv, n) + 1) \<and>
       i < length (itable s) \<and> i_dev (itable t ! i) = dv \<and> i_inum (itable t ! i) = n \<and> (\<forall>j. j \<noteq> i \<longrightarrow> itable t ! j = itable s ! j) \<and>
       (if 0 < refs s (dv, n) then itable t ! i = (itable s ! i)\<lparr>i_ref := i_ref (itable s ! i) + 1\<rparr>
        else i_ref (itable s ! i) = 0 \<and> i_valid (itable t ! i) = 0))"
    if "wp (iget dv n s) (\<lambda>(i, t). got dv n i s t)"
    using that by (rule wp_mono) (auto simp: got_def)
  moreover note idup_law [OF assms]
  moreover have "wp (iput h p ip s) (\<lambda>t. table_ok t \<and> refs t = (refs s)((i_dev (itable s ! ip), i_inum (itable s ! ip)) :=
      refs s (i_dev (itable s ! ip), i_inum (itable s ! ip)) - 1) \<and> it_idle t)" if d: "\<not> drops_inode ip s"
    using iput_law [OF assms(1,3,4), of h p] iput_returns [OF assms(2) d, of h p] by auto
  ultimately show ?thesis using iget_law [OF assms(1,2), of dv n] iput_law [OF assms(1,3,4), of h p] by (auto simp: Let_def)
qed

theorem inode_table_counts_references_witness:
  "wp (iget 1 3 ram_fs) (\<lambda>(i, t). i = 0 \<and> refs t (1, 3) = 2) \<and> iget 1 4 ram_fs = Inl (Panic ''iget: no inodes'')"
proof -
  have e: "entries ram_fs = [((1, 3), 1, 1)]" by (simp add: entries_def entry_of_def) (simp add: ram_inode_def)
  have "table_ok ram_fs" by (simp add: table_ok_def entries_ok_def e)
  moreover have "it_idle ram_fs" by (simp add: it_idle_def ram_fs_def ram_log_def ram_cache_def ram_driver_def fs_cpu_def cpu_ok_def)
  moreover have r: "refs ram_fs (1, 3) = 1" "refs ram_fs (1, 4) = 0" by (simp_all add: refs_def e count_def)
  moreover have i: "i_ref ram_inode = 1" by (simp add: ram_inode_def)
  ultimately show ?thesis
    using inode_table_counts_references [of ram_fs 0 1 3 ram_hw 7] inode_table_counts_references [of ram_fs 0 1 4 ram_hw 7]
    by (auto simp: Let_def elim!: wp_mono)
qed

end
