(* ===== verification/Uart.thy ===== *)
theory Uart
  imports Locks "HOL-Library.While_Combinator"
begin

text \<open>
  The driver of the 16550 UART (\<^verbatim>\<open>kernel/uart.c\<close>), over the registers of the device. The state is that of the
  console as a whole: the device, the ring of bytes to send, the lock of \<^verbatim>\<open>printf\<close> and the input line.
\<close>

section \<open>State\<close>

text \<open>The device: what reading and writing a register does to it.\<close>

record 'd uart_hw =
  readreg :: "nat \<Rightarrow> 'd \<Rightarrow> uchar \<times> 'd"
  writereg :: "nat \<Rightarrow> uchar \<Rightarrow> 'd \<Rightarrow> 'd"

datatype ureg = RHR | THR | IER | FCR | LCR | LSR

fun ureg_no :: "ureg \<Rightarrow> nat" where
  "ureg_no RHR = 0"
| "ureg_no THR = 0"
| "ureg_no IER = 1"
| "ureg_no FCR = 2"
| "ureg_no LCR = 3"
| "ureg_no LSR = 5"

definition UART_TX_BUF_SIZE :: nat where
  "UART_TX_BUF_SIZE = 32"

definition LSR_RX_READY :: uchar where
  "LSR_RX_READY = 1"

definition LSR_TX_IDLE :: uchar where
  "LSR_TX_IDLE = push_bit 5 1"

datatype conchan = TxR | ConsR

text \<open>\<open>con_hart\<close> and \<open>con_cpu\<close> are the calling hart; \<open>con_woken\<close> is a history of the calls of \<^verbatim>\<open>wakeup\<close>.\<close>

record 'd con =
  ud :: 'd
  tx_lock :: spinlock
  tx_buf :: "uchar list"
  tx_w :: uint64
  tx_r :: uint64
  panicked :: int
  pr_lock :: spinlock
  pr_locking :: int
  c_lock :: spinlock
  c_buf :: "uchar list"
  c_r :: uint32
  c_w :: uint32
  c_e :: uint32
  con_hart :: nat
  con_cpu :: cpu
  con_woken :: "conchan list"

definition ReadReg :: "'d uart_hw \<Rightarrow> ureg \<Rightarrow> 'd con \<Rightarrow> uchar \<times> 'd con" where
  "ReadReg h r s = (let (v, d) = readreg h (ureg_no r) (ud s) in (v, s\<lparr>ud := d\<rparr>))"

definition WriteReg :: "'d uart_hw \<Rightarrow> ureg \<Rightarrow> uchar \<Rightarrow> 'd con \<Rightarrow> 'd con" where
  "WriteReg h r v s = s\<lparr>ud := writereg h (ureg_no r) v (ud s)\<rparr>"

definition con_wakeup :: "conchan \<Rightarrow> 'd con \<Rightarrow> 'd con" where
  "con_wakeup c s = s\<lparr>con_woken := con_woken s @ [c]\<rparr>"

definition tx_acquire :: "'d con \<Rightarrow> 'd con res" where
  "tx_acquire s = kbind (acquire (con_hart s) (con_cpu s, tx_lock s)) (\<lambda>(c, l). Inr (s\<lparr>tx_lock := l, con_cpu := c\<rparr>))"

definition tx_release :: "'d con \<Rightarrow> 'd con res" where
  "tx_release s = kbind (release (con_hart s) (con_cpu s, tx_lock s)) (\<lambda>(c, l). Inr (s\<lparr>tx_lock := l, con_cpu := c\<rparr>))"

section \<open>Operations\<close>

text \<open>The registers 0 and 1 are the baud rate between the two writes of LCR.\<close>

definition uartinit :: "'d uart_hw \<Rightarrow> 'd con \<Rightarrow> 'd con" where
  "uartinit h s =
     (let s = WriteReg h IER 0 s;
          s = WriteReg h LCR (push_bit 7 1) s;
          s = WriteReg h THR 3 s;
          s = WriteReg h IER 0 s;
          s = WriteReg h LCR 3 s;
          s = WriteReg h FCR (1 OR push_bit 1 3) s;
          s = WriteReg h IER (push_bit 1 1 OR 1) s
      in s\<lparr>tx_lock := initlock ''uart''\<rparr>)"

text \<open>The wait for the device polls LSR, and may not end.\<close>

definition uart_wait :: "'d uart_hw \<Rightarrow> 'd con \<Rightarrow> (uchar \<times> 'd con) option" where
  "uart_wait h s = while_option (\<lambda>(v, s). v AND LSR_TX_IDLE = 0) (\<lambda>(v, s). ReadReg h LSR s) (ReadReg h LSR s)"

definition uartputc_sync :: "'d uart_hw \<Rightarrow> uchar \<Rightarrow> 'd con \<Rightarrow> 'd con res" where
  "uartputc_sync h c s =
     (let s = s\<lparr>con_cpu := push_off (con_cpu s)\<rparr> in
      if panicked s \<noteq> 0 then Inl Blocked
      else case uart_wait h s of None \<Rightarrow> Inl Blocked
           | Some (v, s) \<Rightarrow>
               let s = WriteReg h THR c s in
               kbind (pop_off (con_cpu s)) (\<lambda>c. Inr (s\<lparr>con_cpu := c\<rparr>)))"

function uartstart :: "'d uart_hw \<Rightarrow> 'd con \<Rightarrow> 'd con" where
  "uartstart h s =
     (if tx_w s = tx_r s then s
      else let (v, s1) = ReadReg h LSR s in
           if v AND LSR_TX_IDLE = 0 then s1
           else let c = tx_buf s ! (unat (tx_r s) mod UART_TX_BUF_SIZE);
                    s2 = con_wakeup TxR (s1\<lparr>tx_r := tx_r s + 1\<rparr>)
                in uartstart h (WriteReg h THR c s2))"
  by pat_completeness auto
termination
proof (relation "measure (\<lambda>(h, s). unat (tx_w s - tx_r s))", simp, goal_cases)
  case (1 h s x v s1)
  have s1: "tx_w s1 = tx_w s" using 1(2,3) by (auto simp: ReadReg_def split: prod.splits)
  have "tx_w s - tx_r s \<noteq> 0" using 1(1) by simp
  note z = unat_minus_one [OF this] this [folded unat_gt_0]
  then show ?case using s1 1 z by (simp add: WriteReg_def con_wakeup_def diff_diff_eq)
qed

declare uartstart.simps [simp del]

text \<open>
  The result is False when the ring is full and the caller has gone to sleep, which releases the lock. It then goes
  on with \<open>uartputc_again\<close>.
\<close>

definition uartputc_loop :: "'d uart_hw \<Rightarrow> uchar \<Rightarrow> 'd con \<Rightarrow> (bool \<times> 'd con) res" where
  "uartputc_loop h c s =
     (if tx_w s = tx_r s + of_nat UART_TX_BUF_SIZE then kbind (tx_release s) (\<lambda>s. Inr (False, s))
      else let s = s\<lparr>tx_buf := (tx_buf s)[unat (tx_w s) mod UART_TX_BUF_SIZE := c], tx_w := tx_w s + 1\<rparr>
           in kbind (tx_release (uartstart h s)) (\<lambda>s. Inr (True, s)))"

definition uartputc_again :: "'d uart_hw \<Rightarrow> uchar \<Rightarrow> 'd con \<Rightarrow> (bool \<times> 'd con) res" where
  "uartputc_again h c s = kbind (tx_acquire s) (uartputc_loop h c)"

definition uartputc :: "'d uart_hw \<Rightarrow> uchar \<Rightarrow> 'd con \<Rightarrow> (bool \<times> 'd con) res" where
  "uartputc h c s = kbind (tx_acquire s) (\<lambda>s. if panicked s \<noteq> 0 then Inl Blocked else uartputc_loop h c s)"

definition uartgetc :: "'d uart_hw \<Rightarrow> 'd con \<Rightarrow> int \<times> 'd con" where
  "uartgetc h s =
     (let (v, s) = ReadReg h LSR s in
      if v AND LSR_RX_READY \<noteq> 0 then let (c, s) = ReadReg h RHR s in (uint c, s)
      else (-1, s))"

text \<open>Reading a register changes the device only.\<close>

lemma ReadReg_frame: "snd (ReadReg h r s) = s\<lparr>ud := ud (snd (ReadReg h r s))\<rparr>"
  by (simp add: ReadReg_def split: prod.splits)

lemma uart_wait_frame:
  assumes "uart_wait h s = Some (v, t)"
  shows "t = s\<lparr>ud := ud t\<rparr>" "v AND LSR_TX_IDLE \<noteq> 0"
proof -
  have "\<exists>d. snd (v, t) = s\<lparr>ud := d\<rparr>"
    by (rule while_option_rule [OF _ assms [unfolded uart_wait_def], where P = "\<lambda>x. \<exists>d. snd x = s\<lparr>ud := d\<rparr>"])
      (auto simp: ReadReg_def split: prod.splits)
  then show "t = s\<lparr>ud := ud t\<rparr>" by auto
  show "v AND LSR_TX_IDLE \<noteq> 0" using while_option_stop [OF assms [unfolded uart_wait_def]] by simp
qed

end
