(* ===== verification/Printf.thy ===== *)
theory Printf
  imports Uart CString Proc
begin

text \<open>Printing on the console: \<^verbatim>\<open>kernel/printf.c\<close>, with \<^verbatim>\<open>consputc\<close> and \<^verbatim>\<open>procdump\<close>.\<close>

definition BACKSPACE :: int where
  "BACKSPACE = 0x100"

definition chars :: "string \<Rightarrow> uchar list" where
  "chars = map of_char"

definition consputc :: "'d uart_hw \<Rightarrow> int \<Rightarrow> 'd con \<Rightarrow> 'd con res" where
  "consputc h c s =
     (if c = BACKSPACE then kfold (uartputc_sync h) [8, 32, 8] s
      else uartputc_sync h (of_int c) s)"

text \<open>The digits of \<^verbatim>\<open>x\<close>, last one first, in the 16 bytes of \<^verbatim>\<open>buf\<close>.\<close>

function printint_digits :: "uint32 \<Rightarrow> uint32 \<Rightarrow> uchar list \<Rightarrow> uchar list res" where
  "printint_digits x base buf =
     (if length buf \<ge> 16 \<or> base = 0 \<or> unat (x mod base) \<ge> length digits then Inl BadAccess
      else let buf = buf @ [digits ! unat (x mod base)]; x = x div base in
           if x = 0 then Inr buf else printint_digits x base buf)"
  by pat_completeness auto
termination
  by (relation "measure (\<lambda>(x, base, buf). 16 - length buf)") auto

declare printint_digits.simps [simp del]

definition printint :: "'d uart_hw \<Rightarrow> int \<Rightarrow> int \<Rightarrow> int \<Rightarrow> 'd con \<Rightarrow> 'd con res" where
  "printint h xx base sign s =
     (let neg = (sign \<noteq> 0 \<and> xx < 0);
          x = (if neg then of_int (- xx) else of_int xx :: uint32) in
      kbind (printint_digits x (of_int base) []) (\<lambda>buf.
      if neg \<and> length buf \<ge> 16 then Inl BadAccess
      else let buf = (if neg then buf @ [45] else buf) in kfold (\<lambda>c. consputc h (uint c)) (rev buf) s))"

definition printptr :: "'d uart_hw \<Rightarrow> uint64 \<Rightarrow> 'd con \<Rightarrow> 'd con res" where
  "printptr h x s =
     kfold (\<lambda>c. consputc h (uint c)) ([48, 120] @ map (\<lambda>i. digits ! unat (drop_bit 60 (push_bit (4 * i) x))) [0..<16]) s"

text \<open>The arguments after the format; a missing one or one of another type is outside C.\<close>

datatype parg = AInt int | APtr uint64 | AStr "uchar list option"

definition put_str :: "'d uart_hw \<Rightarrow> uchar list \<Rightarrow> 'd con \<Rightarrow> 'd con res" where
  "put_str h cs s = kfold (\<lambda>c. consputc h (uint c)) (takeWhile (\<lambda>c. c \<noteq> 0) cs) s"

fun printf_loop :: "'d uart_hw \<Rightarrow> uchar list \<Rightarrow> parg list \<Rightarrow> 'd con \<Rightarrow> 'd con res" where
  "printf_loop h [] ap s = Inr s"
| "printf_loop h [c] ap s = (if c = 0 \<or> c = 37 then Inr s else consputc h (uint c) s)"
| "printf_loop h (c # d # fmt) ap s =
     (if c = 0 then Inr s
      else if c \<noteq> 37 then kbind (consputc h (uint c) s) (printf_loop h (d # fmt) ap)
      else if d = 0 then Inr s
      else if d = 100 then (case ap of AInt x # ap \<Rightarrow> kbind (printint h x 10 1 s) (printf_loop h fmt ap) | _ \<Rightarrow> Inl BadAccess)
      else if d = 120 then (case ap of AInt x # ap \<Rightarrow> kbind (printint h x 16 1 s) (printf_loop h fmt ap) | _ \<Rightarrow> Inl BadAccess)
      else if d = 112 then (case ap of APtr x # ap \<Rightarrow> kbind (printptr h x s) (printf_loop h fmt ap) | _ \<Rightarrow> Inl BadAccess)
      else if d = 115 then
        (case ap of AStr cs # ap \<Rightarrow> kbind (put_str h (case cs of None \<Rightarrow> chars ''(null)'' | Some cs \<Rightarrow> cs) s) (printf_loop h fmt ap)
         | _ \<Rightarrow> Inl BadAccess)
      else if d = 37 then kbind (consputc h 37 s) (printf_loop h fmt ap)
      else kbind (consputc h 37 s) (\<lambda>s. kbind (consputc h (uint d) s) (printf_loop h fmt ap)))"

definition pr_acquire :: "'d con \<Rightarrow> 'd con res" where
  "pr_acquire s = kbind (acquire (con_hart s) (con_cpu s, pr_lock s)) (\<lambda>(c, l). Inr (s\<lparr>pr_lock := l, con_cpu := c\<rparr>))"

definition pr_release :: "'d con \<Rightarrow> 'd con res" where
  "pr_release s = kbind (release (con_hart s) (con_cpu s, pr_lock s)) (\<lambda>(c, l). Inr (s\<lparr>pr_lock := l, con_cpu := c\<rparr>))"

text \<open>The format is a string, never null.\<close>

definition printf :: "'d uart_hw \<Rightarrow> uchar list \<Rightarrow> parg list \<Rightarrow> 'd con \<Rightarrow> 'd con res" where
  "printf h fmt ap s =
     (if pr_locking s \<noteq> 0
      then kbind (pr_acquire s) (\<lambda>s. kbind (printf_loop h fmt ap s) pr_release)
      else printf_loop h fmt ap s)"

text \<open>What \<^verbatim>\<open>panic_concat\<close> prints before it spins forever; \<^verbatim>\<open>panic\<close> is the case of one string. The strings are formats.\<close>

definition panic_concat :: "'d uart_hw \<Rightarrow> uchar list list \<Rightarrow> 'd con \<Rightarrow> 'd con res" where
  "panic_concat h ss s =
     kbind (printf h (chars ''panic: '') [] (s\<lparr>pr_locking := 0\<rparr>)) (\<lambda>s.
     kbind (kfold (\<lambda>f. printf h f []) ss s) (\<lambda>s.
     kbind (printf h [10] [] s) (\<lambda>s. Inr (s\<lparr>panicked := 1\<rparr>))))"

definition panic :: "'d uart_hw \<Rightarrow> uchar list \<Rightarrow> 'd con \<Rightarrow> 'd con res" where
  "panic h f s =
     kbind (printf h (chars ''panic: '') [] (s\<lparr>pr_locking := 0\<rparr>)) (\<lambda>s.
     kbind (printf h f [] s) (\<lambda>s.
     kbind (printf h [10] [] s) (\<lambda>s. Inr (s\<lparr>panicked := 1\<rparr>))))"

definition printfinit :: "'d con \<Rightarrow> 'd con" where
  "printfinit s = s\<lparr>pr_lock := initlock ''pr'', pr_locking := 1\<rparr>"

fun state_name :: "procstate \<Rightarrow> string" where
  "state_name UNUSED = ''unused''"
| "state_name USED = ''used''"
| "state_name SLEEPING = ''sleep ''"
| "state_name RUNNABLE = ''runble''"
| "state_name RUNNING = ''run   ''"
| "state_name ZOMBIE = ''zombie''"

definition procdump_line :: "'d uart_hw \<Rightarrow> proc \<Rightarrow> 'd con \<Rightarrow> 'd con res" where
  "procdump_line h p s =
     (if state p = UNUSED then Inr s
      else kbind (printf h (chars ''%d %s %s'') [AInt (pid p), AStr (Some (chars (state_name (state p)))), AStr (Some (chars (pname p)))] s)
             (printf h [10] []))"

definition procdump :: "'d uart_hw \<Rightarrow> proc list \<Rightarrow> 'd con \<Rightarrow> 'd con res" where
  "procdump h ps s = kbind (printf h [10] [] s) (kfold (procdump_line h) ps)"

section \<open>Frames\<close>

text \<open>Printing changes the device, the interrupt state and the lock of \<^verbatim>\<open>printf\<close> only.\<close>

definition prints :: "'d con \<Rightarrow> 'd con \<Rightarrow> bool" where
  "prints s t \<longleftrightarrow> t = s\<lparr>ud := ud t, con_cpu := con_cpu t, pr_lock := pr_lock t\<rparr>"

lemma prints_refl [simp]: "prints s s"
  by (simp add: prints_def)

lemma prints_trans: "prints s t \<Longrightarrow> prints t u \<Longrightarrow> prints s u"
  by (cases s; cases t; cases u) (simp add: prints_def)

lemma prints_fields:
  assumes "prints s t"
  shows "tx_lock t = tx_lock s" "tx_buf t = tx_buf s" "tx_w t = tx_w s" "tx_r t = tx_r s" "panicked t = panicked s" "pr_locking t = pr_locking s"
    "c_lock t = c_lock s" "c_buf t = c_buf s" "c_r t = c_r s" "c_w t = c_w s" "c_e t = c_e s" "con_hart t = con_hart s" "con_woken t = con_woken s"
  using assms by (cases s; cases t; simp add: prints_def)+

lemma prints_sync: "pc (uartputc_sync h c s) (prints s)"
proof (cases "uart_wait h (s\<lparr>con_cpu := push_off (con_cpu s)\<rparr>)")
  case (Some vt)
  obtain v t where vt: "vt = (v, t)" by (cases vt)
  note f = uart_wait_frame(1) [OF Some [unfolded vt]]
  have "prints s (WriteReg h THR c t\<lparr>con_cpu := k\<rparr>)" for k by (subst f) (simp add: WriteReg_def prints_def)
  then show ?thesis using Some vt by (simp add: uartputc_sync_def Let_def) (simp add: pc_def split: sum.splits)
qed (simp add: uartputc_sync_def Let_def)

lemma prints_fold: "(\<And>x s. pc (f x s) (prints s)) \<Longrightarrow> pc (kfold f xs s) (prints s)"
  by (rule pc_kfold, simp, rule pc_mono, assumption, erule prints_trans)

lemma prints_consputc: "pc (consputc h c s) (prints s)"
  by (simp add: consputc_def prints_sync prints_fold del: kfold.simps)

end
