(* ===== verification/Console.thy ===== *)
theory Console
  imports Printf
begin

text \<open>
  The console (\<^verbatim>\<open>kernel/console.c\<close>): input lines with erase and kill processing, and \<^verbatim>\<open>uartintr\<close>, which feeds them. As
  with pipes the operations are cut where the caller goes to sleep.
\<close>

definition INPUT_BUF_SIZE :: nat where
  "INPUT_BUF_SIZE = 128"

text \<open>\<^verbatim>\<open>C(x)\<close>, the control character of a letter.\<close>

definition ctl :: "char \<Rightarrow> int" where
  "ctl x = of_char x - 64"

definition c_acquire :: "'d con \<Rightarrow> 'd con res" where
  "c_acquire s = kbind (acquire (con_hart s) (con_cpu s, c_lock s)) (\<lambda>(c, l). Inr (s\<lparr>c_lock := l, con_cpu := c\<rparr>))"

definition c_release :: "'d con \<Rightarrow> 'd con res" where
  "c_release s = kbind (release (con_hart s) (con_cpu s, c_lock s)) (\<lambda>(c, l). Inr (s\<lparr>c_lock := l, con_cpu := c\<rparr>))"

section \<open>Output\<close>

text \<open>
  How a part of a call ends: with a result, or asleep. A writer that sleeps has fetched the byte \<open>c\<close> at \<open>i\<close>; a reader
  that sleeps has \<open>n\<close> bytes to go.
\<close>

datatype cout = CDone int | CWriting int uchar | CReading int

text \<open>\<open>get a\<close> is \<^verbatim>\<open>either_copyin\<close> of one byte at the address \<open>a\<close>: its result and the byte.\<close>

function consolewrite_loop :: "'d uart_hw \<Rightarrow> (uint64 \<Rightarrow> int \<times> uchar) \<Rightarrow> uint64 \<Rightarrow> int \<Rightarrow> int \<Rightarrow> 'd con \<Rightarrow> (cout \<times> 'd con) res" where
  "consolewrite_loop h get src n i s =
     (if i < n
      then let (r, c) = get (src + of_int i) in
           if r = -1 then Inr (CDone i, s)
           else kbind (uartputc h c s) (\<lambda>(done, s).
                if done then consolewrite_loop h get src n (i + 1) s else Inr (CWriting i c, s))
      else Inr (CDone i, s))"
  by pat_completeness auto
termination
  by (relation "measure (\<lambda>(h, get, src, n, i, s). nat (n - i))") auto

declare consolewrite_loop.simps [simp del]

definition consolewrite :: "'d uart_hw \<Rightarrow> (uint64 \<Rightarrow> int \<times> uchar) \<Rightarrow> uint64 \<Rightarrow> int \<Rightarrow> 'd con \<Rightarrow> (cout \<times> 'd con) res" where
  "consolewrite h get src n s = consolewrite_loop h get src n 0 s"

definition consolewrite_again :: "'d uart_hw \<Rightarrow> (uint64 \<Rightarrow> int \<times> uchar) \<Rightarrow> uint64 \<Rightarrow> int \<Rightarrow> int \<Rightarrow> uchar \<Rightarrow> 'd con \<Rightarrow> (cout \<times> 'd con) res" where
  "consolewrite_again h get src n i c s =
     kbind (uartputc_again h c s) (\<lambda>(done, s).
     if done then consolewrite_loop h get src n (i + 1) s else Inr (CWriting i c, s))"

section \<open>Input\<close>

text \<open>
  \<open>dead\<close> is \<^verbatim>\<open>killed(myproc())\<close>, \<open>put a c u\<close> is \<^verbatim>\<open>either_copyout\<close> of one byte to the memory \<open>u\<close>. A byte that cannot be
  copied out has been taken from the buffer all the same.
\<close>

function consoleread_loop :: "bool \<Rightarrow> (uint64 \<Rightarrow> uchar \<Rightarrow> 'u \<Rightarrow> int \<times> 'u) \<Rightarrow> uint32 \<Rightarrow> uint64 \<Rightarrow> int \<Rightarrow> 'u \<times> 'd con \<Rightarrow> (cout \<times> 'u \<times> 'd con) res" where
  "consoleread_loop dead put target dst n (u, s) =
     (let fin = (\<lambda>n u s. kbind (c_release s) (\<lambda>s. Inr (CDone (i32 (uint (target - of_int n))), u, s))) in
      if 0 < n
      then if c_r s = c_w s
           then kbind (c_release s) (\<lambda>s. Inr (if dead then CDone (-1) else CReading n, u, s))
           else let c = c_buf s ! (unat (c_r s) mod INPUT_BUF_SIZE);
                    s = s\<lparr>c_r := c_r s + 1\<rparr> in
                if uint c = ctl CHR ''D''
                then fin n u (if of_int n < target then s\<lparr>c_r := c_r s - 1\<rparr> else s)
                else let (r, u) = put dst c u in
                     if r = -1 then fin n u s
                     else if c = 10 then fin (n - 1) u s
                     else consoleread_loop dead put target (dst + 1) (n - 1) (u, s)
      else fin n u s)"
  by pat_completeness auto
termination
  by (relation "measure (\<lambda>(dead, put, target, dst, n, u, s). nat n)") auto

declare consoleread_loop.simps [simp del]

definition consoleread_again :: "bool \<Rightarrow> (uint64 \<Rightarrow> uchar \<Rightarrow> 'u \<Rightarrow> int \<times> 'u) \<Rightarrow> uint32 \<Rightarrow> uint64 \<Rightarrow> int \<Rightarrow> 'u \<times> 'd con \<Rightarrow> (cout \<times> 'u \<times> 'd con) res" where
  "consoleread_again dead put target dst n us =
     kbind (c_acquire (snd us)) (\<lambda>s. consoleread_loop dead put target dst n (fst us, s))"

definition consoleread :: "bool \<Rightarrow> (uint64 \<Rightarrow> uchar \<Rightarrow> 'u \<Rightarrow> int \<times> 'u) \<Rightarrow> uint64 \<Rightarrow> int \<Rightarrow> 'u \<times> 'd con \<Rightarrow> (cout \<times> 'u \<times> 'd con) res" where
  "consoleread dead put dst n us = consoleread_again dead put (of_int n) dst n us"

text \<open>The loop of the kill character: back to the last line end, at most to the committed input.\<close>

function kill_line :: "'d uart_hw \<Rightarrow> 'd con \<Rightarrow> 'd con res" where
  "kill_line h s =
     (if c_e s \<noteq> c_w s \<and> c_buf s ! (unat (c_e s - 1) mod INPUT_BUF_SIZE) \<noteq> 10
      then kbind (consputc h BACKSPACE (s\<lparr>c_e := c_e s - 1\<rparr>)) (kill_line h)
      else Inr s)"
  by pat_completeness auto
termination
proof (relation "measure (\<lambda>(h, s). unat (c_e s - c_w s))", simp, goal_cases)
  case (1 h s t)
  have "c_e s - c_w s \<noteq> 0" using 1(1) by simp
  note z = unat_minus_one [OF this] this [folded unat_gt_0]
  have "c_e s - 1 - c_w s = c_e s - c_w s - 1" "unat (c_e s - c_w s) - 1 < unat (c_e s - c_w s)" using z(2) by (simp_all add: diff_diff_eq add.commute)
  then have "unat (c_e s - 1 - c_w s) < unat (c_e s - c_w s)" using z by metis
  moreover have "prints (s\<lparr>c_e := c_e s - 1\<rparr>) t" using prints_consputc [of h BACKSPACE "s\<lparr>c_e := c_e s - 1\<rparr>"] 1(2) by simp
  ultimately show ?case by (simp add: prints_fields)
qed

declare kill_line.simps [simp del]

text \<open>\<open>ps\<close> is the process table, for \<^verbatim>\<open>procdump\<close>.\<close>

definition cons_switch :: "'d uart_hw \<Rightarrow> proc list \<Rightarrow> int \<Rightarrow> 'd con \<Rightarrow> 'd con res" where
  "cons_switch h ps c s =
     (if c = ctl CHR ''P'' then procdump h ps s
      else if c = ctl CHR ''U'' then kill_line h s
      else if c = ctl CHR ''H'' \<or> c = 127
      then if c_e s \<noteq> c_w s then consputc h BACKSPACE (s\<lparr>c_e := c_e s - 1\<rparr>) else Inr s
      else if c \<noteq> 0 \<and> c_e s - c_r s < of_nat INPUT_BUF_SIZE
      then let c = (if c = 13 then 10 else c) in
           kbind (consputc h c s) (\<lambda>s.
           let s = s\<lparr>c_buf := (c_buf s)[unat (c_e s) mod INPUT_BUF_SIZE := of_int c], c_e := c_e s + 1\<rparr> in
           if c = 10 \<or> c = ctl CHR ''D'' \<or> c_e s - c_r s = of_nat INPUT_BUF_SIZE
           then Inr (con_wakeup ConsR (s\<lparr>c_w := c_e s\<rparr>))
           else Inr s)
      else Inr s)"

definition consoleintr :: "'d uart_hw \<Rightarrow> proc list \<Rightarrow> int \<Rightarrow> 'd con \<Rightarrow> 'd con res" where
  "consoleintr h ps c s = kbind (c_acquire s) (\<lambda>s. kbind (cons_switch h ps c s) c_release)"

text \<open>The connection with \<^verbatim>\<open>devsw\<close> is left to the table the file layer is given.\<close>

definition consoleinit :: "'d uart_hw \<Rightarrow> 'd con \<Rightarrow> 'd con" where
  "consoleinit h s = uartinit h (s\<lparr>c_lock := initlock ''cons''\<rparr>)"

section \<open>Interrupts\<close>

text \<open>
  The loop over the bytes that have arrived ends when the device has no more; it may go on as long as bytes arrive, so
  the number of rounds \<open>k\<close> is a parameter, and a call that needs more has not returned.
\<close>

fun uartintr_loop :: "'d uart_hw \<Rightarrow> proc list \<Rightarrow> nat \<Rightarrow> 'd con \<Rightarrow> 'd con res" where
  "uartintr_loop h ps 0 s = Inl Blocked"
| "uartintr_loop h ps (Suc k) s =
     (let (c, s) = uartgetc h s in
      if c = -1 then Inr s else kbind (consoleintr h ps c s) (uartintr_loop h ps k))"

definition uartintr :: "'d uart_hw \<Rightarrow> proc list \<Rightarrow> nat \<Rightarrow> 'd con \<Rightarrow> 'd con res" where
  "uartintr h ps k s = kbind (uartintr_loop h ps k s) (\<lambda>s. kbind (tx_acquire s) (\<lambda>s. tx_release (uartstart h s)))"

end
