(* ===== verification/Printf_Spec.thy ===== *)
theory Printf_Spec
  imports Printf
begin

text \<open>What reaches the device: \<^verbatim>\<open>printf\<close> sends the text of its format.\<close>

section \<open>The device\<close>

text \<open>
  The relied-on behaviour of the transmitter of a 16550. \<open>snt d\<close> is the sequence of bytes it was given to send. Reading LSR
  leaves it, a byte written to THR when LSR was read as idle is added, and polling LSR sees it idle after some time.
\<close>

definition poll :: "'d uart_hw \<Rightarrow> 'd \<Rightarrow> 'd" where
  "poll h d = snd (readreg h 5 d)"

definition tx_idle :: "'d uart_hw \<Rightarrow> 'd \<Rightarrow> bool" where
  "tx_idle h d \<longleftrightarrow> fst (readreg h 5 d) AND LSR_TX_IDLE \<noteq> 0"

definition uart_sends :: "'d uart_hw \<Rightarrow> ('d \<Rightarrow> uchar list) \<Rightarrow> bool" where
  "uart_sends h snt \<longleftrightarrow> (\<forall>d. snt (poll h d) = snt d) \<and> (\<forall>d c. tx_idle h d \<longrightarrow> snt (writereg h 0 c (poll h d)) = snt d @ [c]) \<and>
     (\<forall>d. \<exists>k. tx_idle h ((poll h ^^ k) d))"

lemma uart_sendsD:
  assumes "uart_sends h snt"
  shows "snt (poll h d) = snt d" "tx_idle h d \<Longrightarrow> snt (writereg h 0 c (poll h d)) = snt d @ [c]" "\<exists>k. tx_idle h ((poll h ^^ k) d)"
  using assms by (auto simp: uart_sends_def)

text \<open>Between two states the bytes \<open>cs\<close> have been sent, and nothing else has changed.\<close>

definition echo :: "('d \<Rightarrow> uchar list) \<Rightarrow> uchar list \<Rightarrow> 'd con \<Rightarrow> 'd con \<Rightarrow> bool" where
  "echo snt cs s t \<longleftrightarrow> t = s\<lparr>ud := ud t\<rparr> \<and> snt (ud t) = snt (ud s) @ cs"

lemma echo_nil [simp]: "echo snt [] s s"
  by (simp add: echo_def)

lemma echo_trans: "echo snt cs s t \<Longrightarrow> echo snt ds t u \<Longrightarrow> echo snt (cs @ ds) s u"
  by (cases s; cases t; cases u) (simp add: echo_def)

lemma echo_fields:
  assumes "echo snt cs s t"
  shows "panicked t = panicked s" "con_cpu t = con_cpu s" "pr_lock t = pr_lock s" "pr_locking t = pr_locking s" "c_lock t = c_lock s" "c_buf t = c_buf s" "c_r t = c_r s"
    "c_w t = c_w s" "c_e t = c_e s" "con_hart t = con_hart s" "tx_lock t = tx_lock s" "tx_buf t = tx_buf s" "tx_w t = tx_w s" "tx_r t = tx_r s" "con_woken t = con_woken s"
  using assms by (cases s; cases t; simp add: echo_def)+

lemma ReadReg_LSR: "ReadReg h LSR s = (fst (readreg h 5 (ud s)), s\<lparr>ud := poll h (ud s)\<rparr>)"
  by (simp add: ReadReg_def poll_def split: prod.splits)

lemma uart_wait_step:
  "uart_wait h s = (if tx_idle h (ud s) then Some (fst (readreg h 5 (ud s)), s\<lparr>ud := poll h (ud s)\<rparr>) else uart_wait h (s\<lparr>ud := poll h (ud s)\<rparr>))"
  unfolding uart_wait_def by (subst while_option_unfold) (simp add: tx_idle_def ReadReg_LSR)

lemma uart_wait_ends:
  assumes "uart_sends h snt"
  shows "\<exists>v d. uart_wait h s = Some (v, s\<lparr>ud := d\<rparr>) \<and> snt (writereg h 0 c d) = snt (ud s) @ [c]"
proof -
  obtain k where "tx_idle h ((poll h ^^ k) (ud s))" using uart_sendsD(3) [OF assms] by blast
  then show ?thesis
  proof (induction k arbitrary: s)
    case 0
    then show ?case using uart_sendsD(2) [OF assms] by (subst uart_wait_step) (auto intro!: exI [of _ "poll h (ud s)"])
  next
    case (Suc k)
    have "tx_idle h ((poll h ^^ k) (poll h (ud s)))" using Suc.prems by (simp add: funpow_swap1)
    then show ?case using Suc.IH [of "s\<lparr>ud := poll h (ud s)\<rparr>"] uart_sendsD(1,2) [OF assms]
      by (subst uart_wait_step) (auto intro!: exI [of _ "poll h (ud s)"])
  qed
qed

text \<open>A hart that may print: nobody has panicked, and its interrupt state is the saved one.\<close>

definition may_print :: "'d con \<Rightarrow> bool" where
  "may_print s \<longleftrightarrow> panicked s = 0 \<and> cpu_calm (con_cpu s)"

lemma pop_push_calm: "cpu_calm c \<Longrightarrow> pop_off (push_off c) = Inr c"
  by (cases c) (auto simp: cpu_calm_def pop_push)

lemma wp_sync:
  assumes "uart_sends h snt" "may_print s"
  shows "wp (uartputc_sync h c s) (echo snt [c] s)"
proof -
  let ?s = "s\<lparr>con_cpu := push_off (con_cpu s)\<rparr>"
  obtain v d where "uart_wait h ?s = Some (v, ?s\<lparr>ud := d\<rparr>)" "snt (writereg h 0 c d) = snt (ud s) @ [c]"
    using uart_wait_ends [OF assms(1), of ?s c] by auto
  then show ?thesis using assms(2) pop_push_calm [of "con_cpu s"] by (cases s) (simp add: uartputc_sync_def Let_def may_print_def WriteReg_def echo_def)
qed

lemma echo_may_print: "echo snt cs s t \<Longrightarrow> may_print s \<Longrightarrow> may_print t"
  by (simp add: may_print_def echo_fields)

lemma wp_echo_fold:
  assumes "\<And>x s. may_print s \<Longrightarrow> wp (f x s) (echo snt (g x) s)" "may_print s"
  shows "wp (kfold f xs s) (echo snt (concat (map g xs)) s)"
proof (rule wp_kfold)
  fix pre x rest t
  assume t: "echo snt (concat (map g pre)) s t"
  show "wp (f x t) (echo snt (concat (map g (pre @ [x]))) s)"
    using assms(1) [OF echo_may_print [OF t assms(2)], of x] by (rule wp_mono) (use echo_trans [OF t] in simp)
qed simp

definition shown :: "int \<Rightarrow> uchar list" where
  "shown c = (if c = BACKSPACE then [8, 32, 8] else [of_int c])"

lemma wp_consputc:
  assumes "uart_sends h snt" "may_print s"
  shows "wp (consputc h c s) (echo snt (shown c) s)"
  using wp_sync [OF assms] wp_echo_fold [where f = "uartputc_sync h" and g = "\<lambda>c. [c]" and snt = snt, OF wp_sync [OF assms(1)] assms(2), of "[8, 32, 8]"]
  by (simp add: consputc_def shown_def del: kfold.simps)

lemma wp_chars:
  assumes "uart_sends h snt" "may_print s"
  shows "wp (kfold (\<lambda>c. consputc h (uint c)) cs s) (echo snt cs s)"
proof -
  have "shown (uint c) = [c]" for c :: uchar using uint_lt2p [of c] by (simp add: shown_def BACKSPACE_def)
  then have "may_print t \<Longrightarrow> wp (consputc h (uint c) t) (echo snt [c] t)" for c t using wp_consputc [OF assms(1), of t "uint c"] by simp
  then show ?thesis using wp_echo_fold [where f = "\<lambda>c. consputc h (uint c)" and g = "\<lambda>c. [c]", OF _ assms(2)] by fastforce
qed

section \<open>Numbers\<close>

text \<open>The digits of a number to the base \<open>b\<close>, first one first, and the text of an integer.\<close>

function radix :: "nat \<Rightarrow> nat \<Rightarrow> nat list" where
  "radix b n = (if b < 2 \<or> n < b then [n] else radix b (n div b) @ [n mod b])"
  by pat_completeness auto
termination
  by (relation "measure snd") auto

declare radix.simps [simp del]

definition int_text :: "nat \<Rightarrow> int \<Rightarrow> uchar list" where
  "int_text b x = (if x < 0 then [45] else []) @ map (\<lambda>d. digits ! d) (radix b (nat \<bar>x\<bar>))"

lemma radix_length: "2 \<le> b \<Longrightarrow> n < b ^ k \<Longrightarrow> 1 \<le> k \<Longrightarrow> length (radix b n) \<le> k"
proof (induction k arbitrary: n)
  case (Suc k)
  show ?case
  proof (cases "n < b")
    case False
    then have "1 \<le> k" using Suc.prems by (cases k) auto
    moreover have "n div b < b ^ k" using Suc.prems(1,2) by (simp add: less_mult_imp_div_less mult.commute)
    ultimately show ?thesis using Suc.IH [of "n div b"] False Suc.prems(1) by (subst radix.simps) simp
  qed (subst radix.simps, simp)
qed simp

lemma printint_digits_radix:
  assumes "base = 10 \<or> base = 16" "length buf + length (radix (unat base) (unat x)) \<le> 16"
  shows "printint_digits x base buf = Inr (buf @ map (\<lambda>d. digits ! d) (rev (radix (unat base) (unat x))))"
  using assms
proof (induction x base buf rule: printint_digits.induct)
  case (1 x base buf)
  have b: "2 \<le> unat base" "base \<noteq> 0" using "1.prems"(1) by auto
  have m: "unat (x mod base) = unat x mod unat base" "unat (x div base) = unat x div unat base" by (simp_all add: unat_mod unat_div)
  have l: "unat x mod unat base < length digits"
  proof -
    have "unat x mod unat base < unat base" using b by simp
    also have "unat base < length digits" using "1.prems"(1) by (auto simp: digits_def)
    finally show ?thesis .
  qed
  have z: "x div base = 0 \<longleftrightarrow> unat x < unat base" using m(2) b(1) by (metis div_eq_0_iff unat_eq_0 not_numeral_le_zero)
  have len: "length buf < 16" using "1.prems"(2) by (subst (asm) radix.simps) (auto split: if_splits)
  show ?case
  proof (cases "x div base = 0")
    case True
    then show ?thesis using z len b l m by (subst printint_digits.simps, subst radix.simps) simp
  next
    case False
    then have r: "radix (unat base) (unat x) = radix (unat base) (unat (x div base)) @ [unat x mod unat base]" using z b(1) m(2) by (subst radix.simps) simp
    then have "printint_digits (x div base) base (buf @ [digits ! unat (x mod base)]) =
      Inr (buf @ [digits ! unat (x mod base)] @ map (\<lambda>d. digits ! d) (rev (radix (unat base) (unat (x div base)))))"
      using "1.IH" [OF _ refl refl False] "1.prems" len b l m by simp
    then show ?thesis using False len b l m r by (subst printint_digits.simps) (simp add: Let_def)
  qed
qed

definition int_range :: "int \<Rightarrow> bool" where
  "int_range x \<longleftrightarrow> - (2 ^ 31) \<le> x \<and> x < 2 ^ 31"

lemma wp_printint:
  assumes "uart_sends h snt" "may_print s" "b = 10 \<or> b = 16" "int_range x"
  shows "wp (printint h x (int b) 1 s) (echo snt (int_text b x) s)"
proof -
  let ?x = "if x < 0 then of_int (- x) else of_int x :: uint32"
  have w: "unat (of_int y :: uint32) = nat y" if "0 \<le> y" "y < 2 ^ 32" for y
    using take_bit_int_eq_self [of y 32] that by (simp add: unat_eq_nat_uint uint_word_of_int_eq)
  have u: "unat ?x = nat \<bar>x\<bar>" using w [of "- x"] w [of x] assms(4) by (auto simp: int_range_def)
  have "nat \<bar>x\<bar> < b ^ 10" using assms(3,4) by (auto simp: int_range_def nat_less_iff)
  then have l: "length (radix b (nat \<bar>x\<bar>)) \<le> 10" using assms(3) by (intro radix_length) auto
  have ub: "unat (of_int (int b) :: uint32) = b" "of_int (int b) = (10 :: uint32) \<or> of_int (int b) = (16 :: uint32)" using assms(3) by auto
  have d: "printint_digits ?x (of_int (int b)) [] = Inr (map (\<lambda>d. digits ! d) (rev (radix b (nat \<bar>x\<bar>))))"
    using printint_digits_radix [OF ub(2), of "[]" ?x] l unfolding ub(1) u by simp
  have "rev (map (\<lambda>d. digits ! d) (rev (radix b (nat \<bar>x\<bar>))) @ (if x < 0 then [45] else [])) = int_text b x" by (simp add: int_text_def rev_map)
  then show ?thesis using wp_chars [OF assms(1,2), of "int_text b x"] d l by (cases "x < 0") (simp_all add: printint_def)
qed

section \<open>Formats\<close>

definition ptr_text :: "uint64 \<Rightarrow> uchar list" where
  "ptr_text x = [48, 120] @ map (\<lambda>i. digits ! unat (drop_bit (60 - 4 * i) x AND 15)) [0..<16]"

text \<open>The text of one conversion, with the arguments left; the text of a format.\<close>

definition field_text :: "uchar \<Rightarrow> parg list \<Rightarrow> (uchar list \<times> parg list) option" where
  "field_text d ap =
     (if d \<in> {100, 120}
      then case ap of AInt x # ap \<Rightarrow> if int_range x then Some (int_text (if d = 100 then 10 else 16) x, ap) else None | _ \<Rightarrow> None
      else if d = 112 then case ap of APtr x # ap \<Rightarrow> Some (ptr_text x, ap) | _ \<Rightarrow> None
      else if d = 115
      then case ap of AStr cs # ap \<Rightarrow> Some (case cs of None \<Rightarrow> chars ''(null)'' | Some cs \<Rightarrow> takeWhile (\<lambda>c. c \<noteq> 0) cs, ap) | _ \<Rightarrow> None
      else if d = 37 then Some ([37], ap) else Some ([37, d], ap))"

fun format_text :: "uchar list \<Rightarrow> parg list \<Rightarrow> uchar list option" where
  "format_text [] ap = Some []"
| "format_text [c] ap = (if c = 0 \<or> c = 37 then Some [] else Some [c])"
| "format_text (c # d # fmt) ap =
     (if c = 0 then Some []
      else if c \<noteq> 37 then map_option ((#) c) (format_text (d # fmt) ap)
      else if d = 0 then Some []
      else case field_text d ap of None \<Rightarrow> None | Some (cs, ap) \<Rightarrow> map_option ((@) cs) (format_text fmt ap))"

lemma shift_digit: "i < 16 \<Longrightarrow> drop_bit 60 (push_bit (4 * i) (x :: uint64)) = drop_bit (60 - 4 * i) x AND 15"
  using bit_mask_iff [where ?'a = "64 word", of 4] by (intro bit_word_eqI) (auto simp: bit_simps mask_numeral)

lemma wp_printptr: "uart_sends h snt \<Longrightarrow> may_print s \<Longrightarrow> wp (printptr h x s) (echo snt (ptr_text x) s)"
proof -
  assume a: "uart_sends h snt" "may_print s"
  have "map (\<lambda>i. digits ! unat (drop_bit 60 (push_bit (4 * i) x))) [0..<16] = map (\<lambda>i. digits ! unat (drop_bit (60 - 4 * i) x AND 15)) [0..<16]"
    by (rule map_cong [OF refl]) (simp add: shift_digit)
  then show ?thesis using wp_chars [OF a, of "ptr_text x"] unfolding printptr_def ptr_text_def by metis
qed

text \<open>One conversion in the loop.\<close>

lemma wp_field:
  assumes "uart_sends h snt" "may_print s" "field_text d ap = Some (cs, ap')" "d \<noteq> 0" "\<And>t. echo snt cs s t \<Longrightarrow> wp (printf_loop h fmt ap' t) Q"
  shows "wp (printf_loop h (37 # d # fmt) ap s) Q"
proof -
  have nn: "takeWhile (\<lambda>c. c \<noteq> 0) (chars ''(null)'') = chars ''(null)''" by (simp add: chars_def)
  consider "d = 100 \<or> d = 120" | "d = 112" | "d = 115" | "d = 37" | "d \<notin> {100, 120, 112, 115, 37}" by blast
  then show ?thesis
  proof cases
    case 1
    define b where "b = (if d = 100 then 10 else 16 :: nat)"
    from 1 assms(3) obtain x where x: "ap = AInt x # ap'" "int_range x" "cs = int_text b x"
      by (auto simp: field_text_def b_def split: list.splits parg.splits if_splits)
    have "wp (printint h x (int b) 1 s) (\<lambda>t. wp (printf_loop h fmt ap' t) Q)"
      by (rule wp_mono [OF wp_printint [OF assms(1,2) _ x(2)]]) (use assms(5) x(3) in \<open>auto simp: b_def\<close>)
    then show ?thesis using 1 x(1) by (auto simp: b_def)
  next
    case 2
    with assms(3) obtain x where x: "ap = APtr x # ap'" "cs = ptr_text x" by (auto simp: field_text_def split: list.splits parg.splits)
    show ?thesis using 2 x wp_mono [OF wp_printptr [OF assms(1,2), of x] assms(5)] by simp
  next
    case 3
    with assms(3) obtain x where x: "ap = AStr x # ap'" "cs = takeWhile (\<lambda>c. c \<noteq> 0) (case x of None \<Rightarrow> chars ''(null)'' | Some cs \<Rightarrow> cs)"
      by (auto simp: field_text_def nn split: list.splits parg.splits option.splits)
    show ?thesis using 3 x(1) wp_mono [OF wp_chars [OF assms(1,2), of cs] assms(5)] x(2) by (simp add: put_str_def)
  next
    case 4
    then show ?thesis using assms(3) wp_mono [OF wp_consputc [OF assms(1,2), of 37] assms(5)] by (simp add: field_text_def shown_def BACKSPACE_def)
  next
    case 5
    have u: "shown 37 = [37]" "shown (uint d) = [d]" using uint_lt2p [of d] by (simp_all add: shown_def BACKSPACE_def)
    have cs: "cs = [37] @ [d]" "ap' = ap" using 5 assms(3) by (auto simp: field_text_def)
    have "wp (consputc h 37 s) (\<lambda>t. wp (consputc h (uint d) t) (\<lambda>t. wp (printf_loop h fmt ap t) Q))"
      using wp_consputc [OF assms(1,2), of 37] unfolding u
    proof (rule wp_mono)
      fix t
      assume t: "echo snt [37] s t"
      show "wp (consputc h (uint d) t) (\<lambda>t. wp (printf_loop h fmt ap t) Q)"
        using wp_consputc [OF assms(1) echo_may_print [OF t assms(2)], of "uint d"] unfolding u
        by (rule wp_mono) (use assms(5) echo_trans [OF t] cs in auto)
    qed
    then show ?thesis using 5 assms(4) by simp
  qed
qed

lemma wp_printf_loop:
  assumes "uart_sends h snt" "may_print s" "format_text fmt ap = Some cs"
  shows "wp (printf_loop h fmt ap s) (echo snt cs s)"
  using assms(2,3)
proof (induction fmt ap arbitrary: s cs rule: format_text.induct)
  case (2 c ap)
  then show ?case using wp_chars [OF assms(1) 2(1), of "[c]"] by (auto split: if_splits)
next
  case (3 c d fmt ap)
  show ?case
  proof (cases "c = 37")
    case True
    show ?thesis
    proof (cases "d = 0")
      case False
      then obtain xs ap' ys where f: "field_text d ap = Some (xs, ap')" "format_text fmt ap' = Some ys" "cs = xs @ ys"
        using 3(4) True by (auto split: option.splits)
      have "wp (printf_loop h fmt ap' t) (echo snt cs s)" if t: "echo snt xs s t" for t
      proof -
        have "wp (printf_loop h fmt ap' t) (echo snt ys t)"
          by (rule 3(2) [OF _ _ False f(1) refl echo_may_print [OF t 3(3)] f(2)]) (simp_all add: True)
        then show ?thesis by (rule wp_mono) (use echo_trans [OF t] f(3) in simp)
      qed
      then show ?thesis unfolding True by (rule wp_field [OF assms(1) 3(3) f(1) False])
    qed (use 3(4) True in simp)
  next
    case False
    show ?thesis
    proof (cases "c = 0")
      case nz: False
      then obtain ys where f: "format_text (d # fmt) ap = Some ys" "cs = [c] @ ys" using 3(4) False by auto
      have "wp (kfold (\<lambda>c. consputc h (uint c)) [c] s) (\<lambda>t. wp (printf_loop h (d # fmt) ap t) (echo snt cs s))"
        using wp_chars [OF assms(1) 3(3), of "[c]"]
      proof (rule wp_mono)
        fix t
        assume t: "echo snt [c] s t"
        have "wp (printf_loop h (d # fmt) ap t) (echo snt ys t)" by (rule 3(1) [OF nz False echo_may_print [OF t 3(3)] f(1)])
        then show "wp (printf_loop h (d # fmt) ap t) (echo snt cs s)" by (rule wp_mono) (use echo_trans [OF t] f(2) in simp)
      qed
      then show ?thesis using nz False by simp
    qed (use 3(4) in simp)
  qed
qed simp

lemma wp_printf:
  assumes "uart_sends h snt" "may_print s" "lk_free (pr_lock s)" "format_text fmt ap = Some cs"
  shows "wp (printf h fmt ap s) (echo snt cs s)"
proof (cases "pr_locking s = 0")
  case False
  let ?l = "(pr_lock s)\<lparr>locked := 1, lkcpu := Some (con_hart s)\<rparr>"
  let ?s = "s\<lparr>pr_lock := ?l, con_cpu := push_off (con_cpu s)\<rparr>"
  have a: "pr_acquire s = Inr ?s" using acquire_free [OF assms(3)] by (simp add: pr_acquire_def)
  have m: "may_print ?s" using assms(2) by (simp add: may_print_def)
  have "wp (pr_release t) (echo snt cs s)" if t: "echo snt cs ?s t" for t
  proof -
    have "release (con_hart s) (push_off (con_cpu s), ?l) = Inr (con_cpu s, pr_lock s)"
      using assms(2,3) by (intro calm_release) (simp_all add: may_print_def)
    then have "pr_release t = Inr (t\<lparr>pr_lock := pr_lock s, con_cpu := con_cpu s\<rparr>)" using echo_fields [OF t] by (simp add: pr_release_def)
    then show ?thesis using t by (cases s; cases t) (simp add: echo_def)
  qed
  then show ?thesis using wp_mono [OF wp_printf_loop [OF assms(1) m assms(4)]] False by (simp add: printf_def a)
qed (use wp_printf_loop [OF assms(1,2,4)] in \<open>simp add: printf_def\<close>)

end
