(* ===== verification/Console_Spec.thy ===== *)
theory Console_Spec
  imports Console Printf_Spec Ring_Buffer
begin

text \<open>
  The console as two lists: the bytes of complete lines, ready to be read, and the line that is being typed. Keys edit
  the line, a line end adds it to the ready bytes, a read takes from them.
\<close>

section \<open>The process list\<close>

definition line_text :: "proc \<Rightarrow> uchar list" where
  "line_text p = (if state p = UNUSED then []
     else int_text 10 (pid p) @ [32] @ chars (state_name (state p)) @ [32] @ takeWhile (\<lambda>c. c \<noteq> 0) (chars (pname p)) @ [10])"

definition dump_text :: "proc list \<Rightarrow> uchar list" where
  "dump_text ps = [10] @ concat (map line_text ps)"

lemma state_name_text: "takeWhile (\<lambda>c. c \<noteq> 0) (chars (state_name x)) = chars (state_name x)"
  by (cases x) (simp_all add: chars_def)

lemma dump_format:
  "int_range x \<Longrightarrow> format_text (chars ''%d %s %s'') [AInt x, AStr (Some a), AStr (Some b)] =
     Some (int_text 10 x @ [32] @ takeWhile (\<lambda>c. c \<noteq> 0) a @ [32] @ takeWhile (\<lambda>c. c \<noteq> 0) b)"
  by (simp add: chars_def field_text_def)

lemma wp_procdump_line:
  assumes "uart_sends h snt" "may_print s" "lk_free (pr_lock s)" "int_range (pid p)"
  shows "wp (procdump_line h p s) (echo snt (line_text p) s)"
proof (cases "state p = UNUSED")
  case False
  show ?thesis using False unfolding procdump_line_def line_text_def if_not_P [OF False] wp_kbind
  proof (intro wp_mono [OF wp_printf [OF assms(1-3) dump_format [OF assms(4)]]])
    fix t
    assume t: "echo snt (int_text 10 (pid p) @ [32] @ takeWhile (\<lambda>c. c \<noteq> 0) (chars (state_name (state p))) @ [32] @ takeWhile (\<lambda>c. c \<noteq> 0) (chars (pname p))) s t"
    have nl: "format_text [10] [] = Some [10]" by simp
    have "wp (printf h [10] [] t) (echo snt [10] t)"
      by (rule wp_printf [OF assms(1) echo_may_print [OF t assms(2)] _ nl]) (use assms(3) echo_fields(3) [OF t] in simp)
    then show "wp (printf h [10] [] t) (echo snt (int_text 10 (pid p) @ [32] @ chars (state_name (state p)) @ [32] @ takeWhile (\<lambda>c. c \<noteq> 0) (chars (pname p)) @ [10]) s)"
      by (rule wp_mono) (use echo_trans [OF t] in \<open>auto simp: state_name_text\<close>)
  qed
qed (simp add: procdump_line_def line_text_def)

lemma wp_procdump:
  assumes "uart_sends h snt" "may_print s" "lk_free (pr_lock s)" "\<forall>p \<in> set ps. int_range (pid p)"
  shows "wp (procdump h ps s) (echo snt (dump_text ps) s)"
proof -
  have nl: "format_text [10] [] = Some [10]" by simp
  show ?thesis unfolding procdump_def wp_kbind
  proof (rule wp_mono [OF wp_printf [OF assms(1-3) nl]])
    fix t
    assume t: "echo snt [10] s t"
    show "wp (kfold (procdump_line h) ps t) (echo snt (dump_text ps) s)"
    proof (rule wp_mono [OF wp_kfold [where P = "\<lambda>pre. echo snt (concat (map line_text pre)) t"]])
      fix pre p rest u
      assume p: "ps = pre @ p # rest" and u: "echo snt (concat (map line_text pre)) t u"
      have "may_print u" "lk_free (pr_lock u)" using echo_may_print [OF t assms(2)] echo_may_print [OF u] echo_fields(3) [OF t] echo_fields(3) [OF u] assms(3) by simp_all
      then have "wp (procdump_line h p u) (echo snt (line_text p) u)" by (rule wp_procdump_line [OF assms(1)]) (use assms(4) p in simp)
      then show "wp (procdump_line h p u) (echo snt (concat (map line_text (pre @ [p]))) t)" by (rule wp_mono) (use echo_trans [OF u] in simp)
    qed (use echo_trans [OF t] in \<open>auto simp: dump_text_def\<close>)
  qed
qed

section \<open>Keys\<close>

definition ready :: "'d con \<Rightarrow> uchar list" where
  "ready s = ring_items INPUT_BUF_SIZE (c_r s) (c_w s) (c_buf s)"

definition typed :: "'d con \<Rightarrow> uchar list" where
  "typed s = ring_items INPUT_BUF_SIZE (c_w s) (c_e s) (c_buf s)"

text \<open>The three counters are in order, not more than the buffer apart, and the line being typed has no line end.\<close>

definition cons_ok :: "'d con \<Rightarrow> bool" where
  "cons_ok s \<longleftrightarrow> ring_fits INPUT_BUF_SIZE (c_r s) (c_e s) (c_buf s) \<and> unat (c_w s - c_r s) \<le> unat (c_e s - c_r s) \<and> 10 \<notin> set (typed s)"

definition key :: "int \<Rightarrow> uchar list \<times> uchar list \<Rightarrow> uchar list \<times> uchar list" where
  "key c = (\<lambda>(rd, ty).
     if c = 21 then (rd, [])
     else if c = 8 \<or> c = 127 then (rd, butlast ty)
     else if c = 16 \<or> c = 0 \<or> length rd + length ty \<ge> INPUT_BUF_SIZE then (rd, ty)
     else let b = (if c = 13 then 10 else of_int c) in
          if b = 10 \<or> b = 4 \<or> length rd + length ty + 1 = INPUT_BUF_SIZE then (rd @ ty @ [b], []) else (rd, ty @ [b]))"

definition key_echo :: "proc list \<Rightarrow> int \<Rightarrow> uchar list \<times> uchar list \<Rightarrow> uchar list" where
  "key_echo ps c = (\<lambda>(rd, ty).
     if c = 21 then concat (replicate (length ty) [8, 32, 8])
     else if c = 8 \<or> c = 127 then if ty = [] then [] else [8, 32, 8]
     else if c = 16 then dump_text ps
     else if c = 0 \<or> length rd + length ty \<ge> INPUT_BUF_SIZE then []
     else [if c = 13 then 10 else of_int c])"

lemma cons_dvd: "INPUT_BUF_SIZE dvd 2 ^ LENGTH(32)"
  by (simp add: INPUT_BUF_SIZE_def)

lemma cons_lengths:
  assumes "cons_ok s"
  shows "length (ready s) + length (typed s) = unat (c_e s - c_r s)" "length (ready s) + length (typed s) \<le> INPUT_BUF_SIZE"
proof -
  have "length (ring_items INPUT_BUF_SIZE (c_r s) (c_e s) (c_buf s)) = length (ready s) + length (typed s)"
    using assms ring_split [OF cons_dvd, of "c_w s" "c_r s" "c_e s" "c_buf s"] by (simp add: cons_ok_def ready_def typed_def)
  then show "length (ready s) + length (typed s) = unat (c_e s - c_r s)" by simp
  then show "length (ready s) + length (typed s) \<le> INPUT_BUF_SIZE" using assms by (simp add: cons_ok_def ring_fits_def)
qed

text \<open>The input part of the state; printing leaves it alone.\<close>

lemma echo_input:
  assumes "echo snt cs s t"
  shows "ready t = ready s" "typed t = typed s" "cons_ok t = cons_ok s"
  using echo_fields [OF assms] by (simp_all add: ready_def typed_def cons_ok_def)

lemma cons_lock_upd [simp]: "ready (s\<lparr>c_lock := l, con_cpu := c\<rparr>) = ready s" "typed (s\<lparr>c_lock := l, con_cpu := c\<rparr>) = typed s" "cons_ok (s\<lparr>c_lock := l, con_cpu := c\<rparr>) = cons_ok s"
  by (simp_all add: ready_def typed_def cons_ok_def)

lemma erase_one:
  assumes "cons_ok s" "c_e s \<noteq> c_w s"
  shows "cons_ok (s\<lparr>c_e := c_e s - 1\<rparr>)" "ready (s\<lparr>c_e := c_e s - 1\<rparr>) = ready s" "typed (s\<lparr>c_e := c_e s - 1\<rparr>) = butlast (typed s)" "typed s \<noteq> []"
    "c_buf s ! (unat (c_e s - 1) mod INPUT_BUF_SIZE) = last (typed s)"
proof -
  note u = ring_unpush(1) [OF assms(2), of INPUT_BUF_SIZE "c_buf s"] ring_unpush(2,3) [OF assms(2)]
  show t: "typed (s\<lparr>c_e := c_e s - 1\<rparr>) = butlast (typed s)" using u(1) by (simp add: typed_def)
  show "ready (s\<lparr>c_e := c_e s - 1\<rparr>) = ready s" by (simp add: ready_def)
  show "typed s \<noteq> []" using u(3) by (simp add: typed_def ring_items_def)
  show "c_buf s ! (unat (c_e s - 1) mod INPUT_BUF_SIZE) = last (typed s)" using ring_last [OF cons_dvd assms(2)] by (simp add: typed_def)
  have l: "length (ready s) + length (typed s) = unat (c_e s - c_r s)" by (rule cons_lengths(1) [OF assms(1)])
  then have ne: "c_e s \<noteq> c_r s" using u(3) by (auto simp: typed_def)
  have "unat (c_w s - c_r s) \<le> unat (c_e s - 1 - c_r s)" using l u(3) ring_unpush(2) [OF ne] by (simp add: ready_def typed_def)
  moreover have "ring_fits INPUT_BUF_SIZE (c_r s) (c_e s - 1) (c_buf s)" using assms(1) ring_unpush(2) [OF ne] by (auto simp: cons_ok_def ring_fits_def)
  ultimately show "cons_ok (s\<lparr>c_e := c_e s - 1\<rparr>)"
    using assms(1) t in_set_butlastD by (fastforce simp: cons_ok_def)
qed

lemma store_one:
  fixes s :: "'d con" and b :: uchar
  assumes "cons_ok s" "unat (c_e s - c_r s) < INPUT_BUF_SIZE"
  defines "t \<equiv> s\<lparr>c_buf := (c_buf s)[unat (c_e s) mod INPUT_BUF_SIZE := b], c_e := c_e s + 1\<rparr>"
  shows "ready t = ready s" "typed t = typed s @ [b]" "b \<noteq> 10 \<Longrightarrow> cons_ok t" "unat (c_e t - c_r t) = unat (c_e s - c_r s) + 1"
    "cons_ok (t\<lparr>c_w := c_e t\<rparr>)" "ready (t\<lparr>c_w := c_e t\<rparr>) = ready s @ typed s @ [b]" "typed (t\<lparr>c_w := c_e t\<rparr>) = []"
proof -
  have f: "ring_fits INPUT_BUF_SIZE (c_r s) (c_e s) (c_buf s)" and w: "unat (c_w s - c_r s) \<le> unat (c_e s - c_r s)" using assms(1) by (simp_all add: cons_ok_def)
  have nf: "c_e s \<noteq> c_r s + of_nat INPUT_BUF_SIZE" using assms(2) by (auto simp: INPUT_BUF_SIZE_def)
  note p = ring_push [OF f nf, of b] ring_not_full(2) [OF f nf]
  show u: "unat (c_e t - c_r t) = unat (c_e s - c_r s) + 1" using p(3) by (simp add: t_def)
  have "ready t @ typed t = ready s @ typed s @ [b]"
    using p(1) ring_split [OF cons_dvd w, of "c_buf s"] ring_split [OF cons_dvd, of "c_w t" "c_r t" "c_e t" "c_buf t"] u w
    by (simp add: ready_def typed_def t_def)
  moreover have "length (ready t) = length (ready s)" by (simp add: ready_def t_def)
  ultimately show r: "ready t = ready s" and ty: "typed t = typed s @ [b]" by simp_all
  show "cons_ok t" if "b \<noteq> 10"
  proof -
    have "ring_fits INPUT_BUF_SIZE (c_r t) (c_e t) (c_buf t)" using p(2) by (simp add: t_def)
    moreover have "unat (c_w t - c_r t) \<le> unat (c_e t - c_r t)" using u w by (simp add: t_def)
    moreover have "10 \<notin> set (typed t)" using ty that assms(1) by (simp add: cons_ok_def)
    ultimately show ?thesis by (simp add: cons_ok_def)
  qed
  show "typed (t\<lparr>c_w := c_e t\<rparr>) = []" by (simp add: typed_def ring_items_def)
  then show "cons_ok (t\<lparr>c_w := c_e t\<rparr>)" using p(2) by (simp add: cons_ok_def) (simp add: t_def)
  show "ready (t\<lparr>c_w := c_e t\<rparr>) = ready s @ typed s @ [b]"
    using p(1) ring_split [OF cons_dvd w, of "c_buf s"] by (simp add: ready_def typed_def t_def)
qed

lemma wp_kill_line:
  assumes "uart_sends h snt" "may_print s" "cons_ok s"
  shows "wp (kill_line h s) (\<lambda>t. cons_ok t \<and> ready t = ready s \<and> typed t = [] \<and> snt (ud t) = snt (ud s) @ concat (replicate (length (typed s)) [8, 32, 8]) \<and>
    t = s\<lparr>ud := ud t, c_e := c_e t\<rparr>)"
  using assms(2,3)
proof (induction "length (typed s)" arbitrary: s)
  case 0
  then have "c_e s = c_w s" by (auto simp: typed_def unat_eq_zero)
  then show ?case using 0 by (subst kill_line.simps) simp
next
  case (Suc n)
  have ne: "c_e s \<noteq> c_w s" using Suc(2) by (auto simp: typed_def)
  note er = erase_one [OF Suc(4) ne]
  have l: "last (typed s) \<noteq> 10" using Suc(4) last_in_set [OF er(4)] unfolding cons_ok_def by metis
  let ?s = "s\<lparr>c_e := c_e s - 1\<rparr>"
  have m: "may_print ?s" using Suc(3) by (simp add: may_print_def)
  have "wp (consputc h BACKSPACE ?s) (\<lambda>u. wp (kill_line h u) (\<lambda>t. cons_ok t \<and> ready t = ready s \<and> typed t = [] \<and>
      snt (ud t) = snt (ud s) @ concat (replicate (length (typed s)) [8, 32, 8]) \<and> t = s\<lparr>ud := ud t, c_e := c_e t\<rparr>))"
  proof (rule wp_mono [OF wp_consputc [OF assms(1) m]])
    fix u
    assume u: "echo snt (shown BACKSPACE) ?s u"
    have n: "n = length (typed u)" using Suc(2) er(3) echo_input(2) [OF u] by simp
    have e: "u = s\<lparr>c_e := c_e s - 1, ud := ud u\<rparr>" "snt (ud u) = snt (ud s) @ [8, 32, 8]" using u by (simp_all add: echo_def shown_def)
    have us: "u\<lparr>ud := a, c_e := b\<rparr> = s\<lparr>ud := a, c_e := b\<rparr>" for a b by (subst e(1)) simp
    have ok: "cons_ok u" "ready u = ready s" using er(1,2) echo_input [OF u] by simp_all
    have c: "snt (ud u) @ concat (replicate (length (typed u)) [8, 32, 8]) = snt (ud s) @ concat (replicate (length (typed s)) [8, 32, 8])"
      using e(2) n Suc(2) [symmetric] by simp
    show "wp (kill_line h u) (\<lambda>t. cons_ok t \<and> ready t = ready s \<and> typed t = [] \<and>
      snt (ud t) = snt (ud s) @ concat (replicate (length (typed s)) [8, 32, 8]) \<and> t = s\<lparr>ud := ud t, c_e := c_e t\<rparr>)"
      using Suc(1) [OF n echo_may_print [OF u m] ok(1)] unfolding ok(2) c us .
  qed
  then show ?case using ne l er(5) by (subst kill_line.simps) simp
qed

text \<open>
  What a key does: the lists change as \<open>key\<close> says, the echo is sent, and readers are woken when a line is complete. No
  other part of the state changes.
\<close>

definition key_post :: "('d \<Rightarrow> uchar list) \<Rightarrow> proc list \<Rightarrow> int \<Rightarrow> 'd con \<Rightarrow> 'd con \<Rightarrow> bool" where
  "key_post snt ps c s t \<longleftrightarrow> cons_ok t \<and> (ready t, typed t) = key c (ready s, typed s) \<and>
     snt (ud t) = snt (ud s) @ key_echo ps c (ready s, typed s) \<and> con_woken t = con_woken s @ (if ready t = ready s then [] else [ConsR]) \<and>
     t = s\<lparr>ud := ud t, c_buf := c_buf t, c_w := c_w t, c_e := c_e t, con_woken := con_woken t\<rparr>"

lemma ctl_codes: "ctl CHR ''P'' = 16" "ctl CHR ''U'' = 21" "ctl CHR ''H'' = 8" "ctl CHR ''D'' = 4"
  by (simp_all add: ctl_def)

lemma key_post_char:
  assumes "cons_ok s" "0 < c" "c < 256" "c \<notin> {8, 16, 21, 127}" "length (ready s) + length (typed s) < INPUT_BUF_SIZE"
    and "echo snt [of_int (if c = 13 then 10 else c)] s u"
  defines "t \<equiv> u\<lparr>c_buf := (c_buf u)[unat (c_e u) mod INPUT_BUF_SIZE := of_int (if c = 13 then 10 else c)], c_e := c_e u + 1\<rparr>"
  shows "key_post snt ps c s (if (if c = 13 then 10 else c) = 10 \<or> (if c = 13 then 10 else c) = 4 \<or> c_e t - c_r t = of_nat INPUT_BUF_SIZE
    then con_wakeup ConsR (t\<lparr>c_w := c_e t\<rparr>) else t)"
proof -
  define b where "b = (if c = 13 then 10 else c)"
  let ?b = "of_int b :: uchar"
  note eu = echo_input [OF assms(6)]
  have len: "unat (c_e u - c_r u) = length (ready s) + length (typed s)" using cons_lengths(1) [of u] eu assms(1) by simp
  have st: "ready t = ready s" "typed t = typed s @ [?b]" "?b \<noteq> 10 \<Longrightarrow> cons_ok t" "unat (c_e t - c_r t) = length (ready s) + length (typed s) + 1"
    "cons_ok (t\<lparr>c_w := c_e t\<rparr>)" "ready (t\<lparr>c_w := c_e t\<rparr>) = ready s @ typed s @ [?b]" "typed (t\<lparr>c_w := c_e t\<rparr>) = []"
    using store_one [of u ?b] eu assms(1,5) len by (simp_all add: t_def b_def [symmetric])
  have "uint ?b = b" using take_bit_int_eq_self [of b 8] assms(2,3) by (simp add: uint_word_of_int_eq b_def)
  then have e: "?b = 10 \<longleftrightarrow> b = 10" "?b = 4 \<longleftrightarrow> b = 4" by auto
  have f: "c_e t - c_r t = of_nat INPUT_BUF_SIZE \<longleftrightarrow> length (ready s) + length (typed s) + 1 = INPUT_BUF_SIZE"
    using st(4) by (auto simp: word_unat_eq_iff INPUT_BUF_SIZE_def)
  have k: "key c (ready s, typed s) = (if ?b = 10 \<or> ?b = 4 \<or> length (ready s) + length (typed s) + 1 = INPUT_BUF_SIZE then (ready s @ typed s @ [?b], []) else (ready s, typed s @ [?b]))"
    "key_echo ps c (ready s, typed s) = [?b]" using assms(2,4,5) by (auto simp: key_def key_echo_def b_def)
  have u: "u = s\<lparr>ud := ud u\<rparr>" "snt (ud u) = snt (ud s) @ [?b]" using assms(6) by (simp_all add: echo_def b_def)
  have t: "ud t = ud u" "con_woken t = con_woken s" "t = s\<lparr>ud := ud t, c_buf := c_buf t, c_e := c_e t\<rparr>" by (simp_all add: t_def, (subst u(1), simp)+)
  have w: "cons_ok (con_wakeup ConsR x) = cons_ok x" "ready (con_wakeup ConsR x) = ready x" "typed (con_wakeup ConsR x) = typed x" for x :: "'a con"
    by (simp_all add: con_wakeup_def cons_ok_def ready_def typed_def)
  show ?thesis
  proof (cases "b = 10 \<or> b = 4 \<or> c_e t - c_r t = of_nat INPUT_BUF_SIZE")
    case True
    then show ?thesis unfolding b_def [symmetric] key_post_def using st k e f u(2) t(1,2) w by (simp, subst t(3)) (simp add: con_wakeup_def)
  next
    case False
    have "c_w t = c_w s" by (subst t(3)) simp
    then have "t = s\<lparr>ud := ud t, c_buf := c_buf t, c_w := c_w t, c_e := c_e t, con_woken := con_woken t\<rparr>" using t(2,3) by simp
    moreover have "cons_ok t" "(ready t, typed t) = key c (ready s, typed s)" "snt (ud t) = snt (ud s) @ key_echo ps c (ready s, typed s)" "con_woken t = con_woken s @ (if ready t = ready s then [] else [ConsR])"
      using False st k e f u(2) t(1,2) by simp_all
    ultimately show ?thesis unfolding b_def [symmetric] if_not_P [OF False] key_post_def by blast
  qed
qed

lemma wp_cons_switch:
  assumes "uart_sends h snt" "may_print s" "cons_ok s" "lk_free (pr_lock s)" "\<forall>p \<in> set ps. int_range (pid p)" "0 \<le> c" "c < 256"
  shows "wp (cons_switch h ps c s) (key_post snt ps c s)"
proof -
  have full: "c_e s - c_r s < of_nat INPUT_BUF_SIZE \<longleftrightarrow> length (ready s) + length (typed s) < INPUT_BUF_SIZE"
    using cons_lengths(1) [OF assms(3)] by (simp add: word_less_nat_alt INPUT_BUF_SIZE_def)
  have id: "key_post snt ps c s t" if "echo snt cs s t" "key c (ready s, typed s) = (ready s, typed s)" "key_echo ps c (ready s, typed s) = cs" for cs t
    using that echo_input [OF that(1)] echo_fields [OF that(1)] assms(3) by (cases s; cases t) (simp add: key_post_def echo_def)
  consider "c = 16" | "c = 21" | "c = 8 \<or> c = 127" | "c \<notin> {16, 21, 8, 127}" "c = 0 \<or> \<not> length (ready s) + length (typed s) < INPUT_BUF_SIZE"
    | "c \<notin> {16, 21, 8, 127}" "c \<noteq> 0" "length (ready s) + length (typed s) < INPUT_BUF_SIZE" by blast
  then show ?thesis
  proof cases
    case 1
    then show ?thesis using wp_mono [OF wp_procdump [OF assms(1,2,4,5)] id] by (simp add: cons_switch_def ctl_codes key_def key_echo_def)
  next
    case 2
    have "wp (kill_line h s) (key_post snt ps c s)"
    proof (rule wp_mono [OF wp_kill_line [OF assms(1-3)]], elim conjE)
      fix t
      assume t: "cons_ok t" "ready t = ready s" "typed t = []" "snt (ud t) = snt (ud s) @ concat (replicate (length (typed s)) [8, 32, 8])"
        and e: "t = s\<lparr>ud := ud t, c_e := c_e t\<rparr>"
      have "con_woken t = con_woken s" "t = s\<lparr>ud := ud t, c_buf := c_buf t, c_w := c_w t, c_e := c_e t, con_woken := con_woken t\<rparr>"
        using e by (cases s; cases t; simp)+
      then show "key_post snt ps c s t" using 2 t by (simp add: key_post_def key_def key_echo_def)
    qed
    then show ?thesis using 2 by (simp add: cons_switch_def ctl_codes)
  next
    case 3
    show ?thesis
    proof (cases "c_e s = c_w s")
      case True
      then have "typed s = []" by (simp add: typed_def ring_items_def)
      then show ?thesis using 3 True id [of "[]" s] by (auto simp: cons_switch_def ctl_codes key_def key_echo_def)
    next
      case False
      note er = erase_one [OF assms(3) False]
      have m: "may_print (s\<lparr>c_e := c_e s - 1\<rparr>)" using assms(2) by (simp add: may_print_def)
      have "wp (consputc h BACKSPACE (s\<lparr>c_e := c_e s - 1\<rparr>)) (key_post snt ps c s)"
      proof (rule wp_mono [OF wp_consputc [OF assms(1) m]])
        fix t
        assume t: "echo snt (shown BACKSPACE) (s\<lparr>c_e := c_e s - 1\<rparr>) t"
        show "key_post snt ps c s t"
          using 3 er echo_input [OF t] echo_fields [OF t] t by (cases s; cases t) (auto simp: key_post_def key_def key_echo_def echo_def shown_def)
      qed
      then show ?thesis using 3 False by (auto simp: cons_switch_def ctl_codes)
    qed
  next
    case 4
    then show ?thesis using id [of "[]" s] full by (auto simp: cons_switch_def ctl_codes key_def key_echo_def)
  next
    case 5
    define b where "b = (if c = 13 then 10 else c)"
    have sh: "shown b = [of_int b]" using assms(7) by (simp add: shown_def BACKSPACE_def b_def)
    have "wp (consputc h b s) (\<lambda>u. let t = u\<lparr>c_buf := (c_buf u)[unat (c_e u) mod INPUT_BUF_SIZE := of_int b], c_e := c_e u + 1\<rparr> in
       key_post snt ps c s (if b = 10 \<or> b = 4 \<or> c_e t - c_r t = of_nat INPUT_BUF_SIZE then con_wakeup ConsR (t\<lparr>c_w := c_e t\<rparr>) else t))"
      using wp_consputc [OF assms(1,2), of b] unfolding sh
    proof (rule wp_mono)
      fix u
      assume "echo snt [of_int b] s u"
      then show "let t = u\<lparr>c_buf := (c_buf u)[unat (c_e u) mod INPUT_BUF_SIZE := of_int b], c_e := c_e u + 1\<rparr> in
         key_post snt ps c s (if b = 10 \<or> b = 4 \<or> c_e t - c_r t = of_nat INPUT_BUF_SIZE then con_wakeup ConsR (t\<lparr>c_w := c_e t\<rparr>) else t)"
        unfolding b_def Let_def by (intro key_post_char [OF assms(3) _ assms(7)]) (use 5 assms(6) in auto)
    qed
    moreover have "cons_switch h ps c s = kbind (consputc h b s) (\<lambda>u. let t = u\<lparr>c_buf := (c_buf u)[unat (c_e u) mod INPUT_BUF_SIZE := of_int b], c_e := c_e u + 1\<rparr> in
       Inr (if b = 10 \<or> b = 4 \<or> c_e t - c_r t = of_nat INPUT_BUF_SIZE then con_wakeup ConsR (t\<lparr>c_w := c_e t\<rparr>) else t))"
      using 5 full by (simp add: cons_switch_def ctl_codes b_def [symmetric] Let_def if_distrib [where f = Inr])
    ultimately show ?thesis by (simp add: Let_def)
  qed
qed

lemma wp_consoleintr:
  assumes "uart_sends h snt" "may_print s" "cons_ok s" "lk_free (c_lock s)" "lk_free (pr_lock s)" "\<forall>p \<in> set ps. int_range (pid p)" "0 \<le> c" "c < 256"
  shows "wp (consoleintr h ps c s) (key_post snt ps c s)"
proof -
  let ?l = "(c_lock s)\<lparr>locked := 1, lkcpu := Some (con_hart s)\<rparr>"
  let ?s = "s\<lparr>c_lock := ?l, con_cpu := push_off (con_cpu s)\<rparr>"
  have a: "c_acquire s = Inr ?s" using acquire_free [OF assms(4)] by (simp add: c_acquire_def)
  have r: "release (con_hart s) (push_off (con_cpu s), ?l) = Inr (con_cpu s, c_lock s)"
    using assms(2,4) by (intro calm_release) (simp_all add: may_print_def)
  have "wp (cons_switch h ps c ?s) (key_post snt ps c ?s)"
    by (rule wp_cons_switch [OF assms(1)]) (use assms in \<open>simp_all add: may_print_def\<close>)
  then have "wp (cons_switch h ps c ?s) (\<lambda>t. wp (c_release t) (key_post snt ps c s))"
  proof (rule wp_mono)
    fix t
    assume "key_post snt ps c ?s t"
    then have k0: "cons_ok t" "(ready t, typed t) = key c (ready ?s, typed ?s)" "snt (ud t) = snt (ud ?s) @ key_echo ps c (ready ?s, typed ?s)"
      "con_woken t = con_woken ?s @ (if ready t = ready ?s then [] else [ConsR])"
      and e: "t = ?s\<lparr>ud := ud t, c_buf := c_buf t, c_w := c_w t, c_e := c_e t, con_woken := con_woken t\<rparr>"
      unfolding key_post_def by blast+
    have k: "(ready t, typed t) = key c (ready s, typed s)" "snt (ud t) = snt (ud s) @ key_echo ps c (ready s, typed s)"
      "con_woken t = con_woken s @ (if ready t = ready s then [] else [ConsR])" using k0(2-4) by simp_all
    have f: "c_lock t = ?l" "con_cpu t = push_off (con_cpu s)" "con_hart t = con_hart s" by (subst e, simp)+
    let ?t = "t\<lparr>c_lock := c_lock s, con_cpu := con_cpu s\<rparr>"
    have "?t = s\<lparr>ud := ud ?t, c_buf := c_buf ?t, c_w := c_w ?t, c_e := c_e ?t, con_woken := con_woken ?t\<rparr>" using e by (cases s; cases t) simp
    moreover have "cons_ok ?t" "ready ?t = ready t" "typed ?t = typed t" "ud ?t = ud t" "con_woken ?t = con_woken t" using k0(1) by simp_all
    ultimately have "key_post snt ps c s ?t" unfolding key_post_def using k by metis
    then show "wp (c_release t) (key_post snt ps c s)" by (simp add: c_release_def f r)
  qed
  then show ?thesis by (simp add: consoleintr_def a)
qed

section \<open>Reads\<close>

text \<open>
  What a read of \<open>n\<close> bytes takes from the ready bytes, what is left of them, and whether it returns: up to \<open>n\<close> bytes, not past
  a line end, and not past \<^verbatim>\<open>^D\<close>, which is used up only when it comes first (\<open>st\<close> is False).
\<close>

fun cons_take :: "bool \<Rightarrow> nat \<Rightarrow> uchar list \<Rightarrow> uchar list \<times> uchar list \<times> bool" where
  "cons_take st 0 rd = ([], rd, True)"
| "cons_take st (Suc n) [] = ([], [], False)"
| "cons_take st (Suc n) (c # rd) =
     (if c = 4 then ([], if st then c # rd else rd, True)
      else if c = 10 then ([c], rd, True)
      else let (bs, rest, fin) = cons_take True n rd in (c # bs, rest, fin))"

text \<open>A caller that records the bytes with their addresses.\<close>

definition keep :: "uint64 \<Rightarrow> uchar \<Rightarrow> (uint64 \<times> uchar) list \<Rightarrow> int \<times> (uint64 \<times> uchar) list" where
  "keep a c u = (0, u @ [(a, c)])"

definition kept :: "uint64 \<Rightarrow> uchar list \<Rightarrow> (uint64 \<times> uchar) list" where
  "kept a bs = map (\<lambda>i. (a + of_nat i, bs ! i)) [0..<length bs]"

lemma kept_Cons: "kept a (c # bs) = (a, c) # kept (a + 1) bs"
  by (simp add: kept_def upt_conv_Cons map_Suc_upt [symmetric] add.assoc del: upt_Suc)

lemma take_one:
  assumes "cons_ok s" "c_r s \<noteq> c_w s"
  shows "ready s = c_buf s ! (unat (c_r s) mod INPUT_BUF_SIZE) # ready (s\<lparr>c_r := c_r s + 1\<rparr>)" "cons_ok (s\<lparr>c_r := c_r s + 1\<rparr>)" "typed (s\<lparr>c_r := c_r s + 1\<rparr>) = typed s"
proof -
  have f: "ring_fits INPUT_BUF_SIZE (c_r s) (c_e s) (c_buf s)" "ring_fits INPUT_BUF_SIZE (c_r s) (c_w s) (c_buf s)"
    using assms(1) by (auto simp: cons_ok_def ring_fits_def)
  have "0 < unat (c_w s - c_r s)" using assms(2) by (simp add: unat_gt_0)
  then have ne: "c_r s \<noteq> c_e s" using assms(1) by (auto simp: cons_ok_def)
  note p = ring_pop [OF f(2) assms(2)] and q = ring_pop [OF f(1) ne]
  show "ready s = c_buf s ! (unat (c_r s) mod INPUT_BUF_SIZE) # ready (s\<lparr>c_r := c_r s + 1\<rparr>)" using p(1) by (simp add: ready_def)
  show t: "typed (s\<lparr>c_r := c_r s + 1\<rparr>) = typed s" by (simp add: typed_def)
  have "unat (c_w s - (c_r s + 1)) = unat (c_w s - c_r s) - 1" "unat (c_e s - (c_r s + 1)) = unat (c_e s - c_r s) - 1"
    using arg_cong [OF p(1), of length] arg_cong [OF q(1), of length] by simp_all
  then show "cons_ok (s\<lparr>c_r := c_r s + 1\<rparr>)" using assms(1) q(2) t by (auto simp: cons_ok_def)
qed

text \<open>The reader holds the lock; releasing it gives back the state \<open>s0\<close> the lock was taken in.\<close>

definition c_held :: "spinlock \<Rightarrow> cpu \<Rightarrow> 'd con \<Rightarrow> bool" where
  "c_held l c s \<longleftrightarrow> lk_free l \<and> cpu_calm c \<and> c_lock s = l\<lparr>locked := 1, lkcpu := Some (con_hart s)\<rparr> \<and> con_cpu s = push_off c"

lemma c_release_held: "c_held l c s \<Longrightarrow> c_release s = Inr (s\<lparr>c_lock := l, con_cpu := c\<rparr>)"
  using calm_release [of c l "con_hart s"] by (simp add: c_held_def c_release_def)

definition read_post :: "bool \<Rightarrow> int \<Rightarrow> int \<Rightarrow> uint64 \<Rightarrow> (uint64 \<times> uchar) list \<Rightarrow> spinlock \<Rightarrow> cpu \<Rightarrow> 'd con \<Rightarrow> cout \<times> (uint64 \<times> uchar) list \<times> 'd con \<Rightarrow> bool" where
  "read_post dead N n dst u l c s = (\<lambda>(out, u', t). case cons_take (n < N) (nat n) (ready s) of (bs, rest, fin) \<Rightarrow>
     u' = u @ kept dst bs \<and> cons_ok t \<and> ready t = rest \<and> typed t = typed s \<and> t = s\<lparr>c_r := c_r t, c_lock := l, con_cpu := c\<rparr> \<and>
     out = (if fin then CDone (N - n + int (length bs)) else if dead then CDone (-1) else CReading (n - int (length bs))))"

lemma count_words:
  assumes "0 \<le> n" "n \<le> N" "N < 2 ^ 31"
  shows "i32 (uint (of_int N - of_int n :: uint32)) = N - n" "(of_int n :: uint32) < of_int N \<longleftrightarrow> n < N"
proof -
  have u: "uint (of_int m :: uint32) = m" if "0 \<le> m" "m < 2 ^ 31" for m using take_bit_int_eq_self [of m 32] that by (simp add: uint_word_of_int_eq)
  have "of_int N - of_int n = (of_int (N - n) :: uint32)" by simp
  then have "uint (of_int N - of_int n :: uint32) = N - n" using u [of "N - n"] assms by (metis diff_ge_0_iff_ge diff_left_mono diff_zero order_le_less_trans)
  then show "i32 (uint (of_int N - of_int n :: uint32)) = N - n" using assms by (simp add: i32_id)
  show "(of_int n :: uint32) < of_int N \<longleftrightarrow> n < N" using u [of n] u [of N] assms by (simp add: word_less_alt)
qed

lemma wp_consoleread_loop:
  assumes "c_held l c s" "cons_ok s" "0 \<le> n" "n \<le> N" "N < 2 ^ 31"
  shows "wp (consoleread_loop dead keep (of_int N) dst n (u, s)) (read_post dead N n dst u l c s)"
  using assms(1-4)
proof (induction "nat n" arbitrary: n dst u s)
  case 0
  then have "n = 0" by simp
  then show ?case using 0(3,5) count_words [of 0 N] assms(5) c_release_held [OF 0(2)]
    by (subst consoleread_loop.simps) (simp add: read_post_def kept_def)
next
  case (Suc k)
  have n: "0 < n" "nat n = Suc k" "nat (n - 1) = k" "n - 1 < N" using Suc(2,5,6) by auto
  note cw = count_words [OF Suc(5,6) assms(5)] count_words(1) [of "n - 1" N] and rel = c_release_held [OF Suc(3)]
  show ?case
  proof (cases "c_r s = c_w s")
    case True
    then have "ready s = []" by (simp add: ready_def ring_items_def)
    then show ?thesis using True n rel Suc(4) by (subst consoleread_loop.simps) (auto simp: read_post_def kept_def)
  next
    case False
    let ?c = "c_buf s ! (unat (c_r s) mod INPUT_BUF_SIZE)" and ?s = "s\<lparr>c_r := c_r s + 1\<rparr>"
    note tk = take_one [OF Suc(4) False]
    have h: "c_held l c ?s" using Suc(3) by (simp add: c_held_def)
    note rel' = c_release_held [OF h]
    have four: "uint ?c = 4 \<longleftrightarrow> ?c = 4" by (simp add: word_uint_eq_iff)
    show ?thesis
    proof (cases "?c = 4")
      case True
      then show ?thesis using False n rel rel' Suc(4) tk cw four by (subst consoleread_loop.simps) (auto simp: read_post_def kept_def ctl_codes Let_def)
    next
      case c4: False
      show ?thesis
      proof (cases "?c = 10")
        case True
        then show ?thesis using False n c4 rel' tk cw four assms(5) Suc(6) by (subst consoleread_loop.simps) (auto simp: read_post_def kept_def ctl_codes Let_def keep_def)
      next
        case c10: False
        have "wp (consoleread_loop dead keep (of_int N) (dst + 1) (n - 1) (u @ [(dst, ?c)], ?s)) (read_post dead N (n - 1) (dst + 1) (u @ [(dst, ?c)]) l c ?s)"
          by (rule Suc(1)) (use n h tk Suc(6) in auto)
        then have "wp (consoleread_loop dead keep (of_int N) (dst + 1) (n - 1) (u @ [(dst, ?c)], ?s)) (read_post dead N n dst u l c s)"
          by (rule wp_mono) (use n c4 c10 tk in \<open>auto simp: read_post_def kept_Cons split: prod.splits\<close>)
        then show ?thesis using False n c4 c10 four by (subst consoleread_loop.simps) (simp add: ctl_codes Let_def keep_def)
      qed
    qed
  qed
qed

section \<open>Output\<close>

definition tx_items :: "'d con \<Rightarrow> uchar list" where
  "tx_items s = ring_items UART_TX_BUF_SIZE (tx_r s) (tx_w s) (tx_buf s)"

definition tx_ok :: "'d con \<Rightarrow> bool" where
  "tx_ok s \<longleftrightarrow> ring_fits UART_TX_BUF_SIZE (tx_r s) (tx_w s) (tx_buf s)"

text \<open>The output so far: what the device was given, and what waits in the ring.\<close>

definition tx_out :: "('d \<Rightarrow> uchar list) \<Rightarrow> 'd con \<Rightarrow> uchar list" where
  "tx_out snt s = snt (ud s) @ tx_items s"

lemma uartstart_output:
  assumes "uart_sends h snt" "tx_ok s"
  shows "tx_ok (uartstart h s) \<and> tx_out snt (uartstart h s) = tx_out snt s \<and>
    (\<exists>d r w. uartstart h s = s\<lparr>ud := d, tx_r := r, con_woken := w\<rparr>)"
  using assms(2)
proof (induction "unat (tx_w s - tx_r s)" arbitrary: s)
  case 0
  then have "tx_w s = tx_r s" by (auto simp: unat_eq_zero)
  then show ?case using 0 by (subst (1 2 3) uartstart.simps) (auto intro!: exI [of _ "ud s"] exI [of _ "tx_r s"] exI [of _ "con_woken s"])
next
  case (Suc k)
  have ne: "tx_r s \<noteq> tx_w s" using Suc(2) by auto
  note p = ring_pop [OF Suc(3) [unfolded tx_ok_def] ne]
  let ?s = "s\<lparr>ud := poll h (ud s)\<rparr>" and ?c = "tx_buf s ! (unat (tx_r s) mod UART_TX_BUF_SIZE)"
  show ?case
  proof (cases "tx_idle h (ud s)")
    case True
    let ?t = "WriteReg h THR ?c (con_wakeup TxR (?s\<lparr>tx_r := tx_r s + 1\<rparr>))"
    have st: "uartstart h s = uartstart h ?t" using ne True by (subst uartstart.simps) (simp add: ReadReg_LSR tx_idle_def Let_def)
    have "tx_ok ?t" using p(2) by (simp add: tx_ok_def WriteReg_def con_wakeup_def)
    moreover have "k = unat (tx_w ?t - tx_r ?t)" using arg_cong [OF p(1), of length] Suc(2) by (simp add: WriteReg_def con_wakeup_def)
    moreover have "tx_out snt ?t = tx_out snt s"
      using p(1) uart_sendsD(2) [OF assms(1) True, of ?c] by (simp add: tx_out_def tx_items_def WriteReg_def con_wakeup_def)
    moreover have "\<exists>d r w. ?t\<lparr>ud := d', tx_r := r', con_woken := w'\<rparr> = s\<lparr>ud := d, tx_r := r, con_woken := w\<rparr>" for d' r' w'
      by (intro exI [of _ d'] exI [of _ r'] exI [of _ w']) (simp add: WriteReg_def con_wakeup_def)
    ultimately show ?thesis unfolding st using Suc(1) [of ?t] by metis
  next
    case False
    then have st: "uartstart h s = ?s" using ne by (subst uartstart.simps) (simp add: ReadReg_LSR tx_idle_def Let_def)
    show ?thesis unfolding st using Suc(3) uart_sendsD(1) [OF assms(1)]
      by (auto simp: tx_ok_def tx_out_def tx_items_def intro!: exI [of _ "poll h (ud s)"] exI [of _ "tx_r s"] exI [of _ "con_woken s"])
  qed
qed

definition tx_rest :: "'d con \<Rightarrow> bool" where
  "tx_rest s \<longleftrightarrow> tx_ok s \<and> lk_free (tx_lock s) \<and> cpu_calm (con_cpu s) \<and> panicked s = 0"

text \<open>One byte goes to the end of the output, or the ring is full and the caller sleeps.\<close>

definition put_post :: "('d \<Rightarrow> uchar list) \<Rightarrow> uchar \<Rightarrow> 'd con \<Rightarrow> bool \<times> 'd con \<Rightarrow> bool" where
  "put_post snt c s = (\<lambda>(done, t). tx_rest t \<and>
     (if done then tx_out snt t = tx_out snt s @ [c] else tx_out snt t = tx_out snt s \<and> length (tx_items t) = UART_TX_BUF_SIZE))"

lemma wp_uartputc:
  assumes "uart_sends h snt" "tx_rest s"
  shows "wp (uartputc h c s) (put_post snt c s)" "wp (uartputc_again h c s) (put_post snt c s)"
proof -
  note r = assms(2) [unfolded tx_rest_def]
  let ?l = "(tx_lock s)\<lparr>locked := 1, lkcpu := Some (con_hart s)\<rparr>"
  let ?s = "s\<lparr>tx_lock := ?l, con_cpu := push_off (con_cpu s)\<rparr>"
  have a: "tx_acquire s = Inr ?s" using acquire_free [of "tx_lock s"] r by (simp add: tx_acquire_def)
  have rel: "tx_release t = Inr (t\<lparr>tx_lock := tx_lock s, con_cpu := con_cpu s\<rparr>)"
    if "tx_lock t = ?l" "con_cpu t = push_off (con_cpu s)" "con_hart t = con_hart s" for t
    using calm_release [of "con_cpu s" "tx_lock s" "con_hart s"] r that by (simp add: tx_release_def)
  have out: "tx_out snt (t\<lparr>tx_lock := l, con_cpu := k\<rparr>) = tx_out snt t" "tx_items (t\<lparr>tx_lock := l, con_cpu := k\<rparr>) = tx_items t" "tx_ok (t\<lparr>tx_lock := l, con_cpu := k\<rparr>) = tx_ok t"
    for t :: "'a con" and l k by (simp_all add: tx_out_def tx_items_def tx_ok_def)
  have "wp (uartputc_loop h c ?s) (put_post snt c s)"
  proof (cases "tx_w s = tx_r s + of_nat UART_TX_BUF_SIZE")
    case True
    then have "length (tx_items s) = UART_TX_BUF_SIZE" by (simp add: tx_items_def UART_TX_BUF_SIZE_def)
    then show ?thesis using True rel [of ?s] r out [of _ _ s] by (simp add: uartputc_loop_def put_post_def tx_rest_def)
  next
    case False
    let ?t = "?s\<lparr>tx_buf := (tx_buf s)[unat (tx_w s) mod UART_TX_BUF_SIZE := c], tx_w := tx_w s + 1\<rparr>"
    note p = ring_push [OF conjunct1 [OF r, unfolded tx_ok_def] False, of c]
    have t: "tx_ok ?t" "tx_out snt ?t = tx_out snt s @ [c]" using p by (simp_all add: tx_ok_def tx_out_def tx_items_def)
    obtain d q w where e: "uartstart h ?t = ?t\<lparr>ud := d, tx_r := q, con_woken := w\<rparr>" using uartstart_output [OF assms(1) t(1)] by blast
    have u: "tx_ok (uartstart h ?t)" "tx_out snt (uartstart h ?t) = tx_out snt s @ [c]" using uartstart_output [OF assms(1) t(1)] t(2) by simp_all
    have "tx_release (uartstart h ?t) = Inr (uartstart h ?t\<lparr>tx_lock := tx_lock s, con_cpu := con_cpu s\<rparr>)" by (rule rel) (simp_all add: e)
    moreover have "panicked (uartstart h ?t) = panicked s" by (simp add: e)
    ultimately show ?thesis using False r u out [of _ _ "uartstart h ?t"] by (simp add: uartputc_loop_def Let_def put_post_def tx_rest_def)
  qed
  then show "wp (uartputc h c s) (put_post snt c s)" "wp (uartputc_again h c s) (put_post snt c s)"
    using r by (simp_all add: uartputc_def uartputc_again_def a)
qed

text \<open>
  A write: the bytes go to the output in order, all of them, those before the first that cannot be read, or those before the one
  it sleeps with.
\<close>

definition write_out :: "('d \<Rightarrow> uchar list) \<Rightarrow> (uint64 \<Rightarrow> int \<times> uchar) \<Rightarrow> uint64 \<Rightarrow> int \<Rightarrow> int \<Rightarrow> 'd con \<Rightarrow> cout \<times> 'd con \<Rightarrow> bool" where
  "write_out snt get src n i s = (\<lambda>(out, t). tx_rest t \<and> (\<exists>j. i \<le> j \<and> j \<le> n \<and>
     tx_out snt t = tx_out snt s @ map (\<lambda>k. snd (get (src + of_int k))) [i..j - 1] \<and> (\<forall>k. i \<le> k \<and> k < j \<longrightarrow> fst (get (src + of_int k)) \<noteq> -1) \<and>
     (case out of CDone r \<Rightarrow> r = j \<and> (j < n \<longrightarrow> fst (get (src + of_int j)) = -1)
      | CWriting k c \<Rightarrow> k = j \<and> j < n \<and> get (src + of_int j) = (fst (get (src + of_int j)), c) \<and> fst (get (src + of_int j)) \<noteq> -1 \<and>
          length (tx_items t) = UART_TX_BUF_SIZE
      | _ \<Rightarrow> False)))"

lemma write_out_step:
  assumes "write_out snt get src n (i + 1) t r" "tx_out snt t = tx_out snt s @ [snd (get (src + of_int i))]" "fst (get (src + of_int i)) \<noteq> -1"
  shows "write_out snt get src n i s r"
proof -
  have k: "(\<forall>k. i \<le> k \<and> k < j \<longrightarrow> fst (get (src + of_int k)) \<noteq> -1) \<longleftrightarrow> (\<forall>k. i + 1 \<le> k \<and> k < j \<longrightarrow> fst (get (src + of_int k)) \<noteq> -1)" for j
    using assms(3) by (metis add1_zle_eq less_le zle_add1_eq_le)
  show ?thesis using assms(1) unfolding write_out_def case_prod_unfold assms(2) k
    by (elim conjE exE) (rule conjI, assumption, rule_tac x = j in exI, simp add: upto.simps [of i])
qed

lemma wp_consolewrite_loop:
  assumes "uart_sends h snt" "tx_rest s" "i \<le> n"
  shows "wp (consolewrite_loop h get src n i s) (write_out snt get src n i s)"
  using assms(2,3)
proof (induction "nat (n - i)" arbitrary: i s)
  case 0
  then show ?case by (subst consolewrite_loop.simps) (auto simp: write_out_def intro!: exI [of _ n])
next
  case (Suc k)
  let ?c = "snd (get (src + of_int i))" and ?r = "fst (get (src + of_int i))"
  let ?rest = "\<lambda>(b, t). if b then consolewrite_loop h get src n (i + 1) t else Inr (CWriting i ?c, t)"
  have i: "i < n" using Suc(2) by simp
  show ?case
  proof (cases "?r = -1")
    case True
    then show ?thesis using i Suc(3) by (subst consolewrite_loop.simps) (auto simp: write_out_def case_prod_unfold Let_def intro!: exI [of _ i])
  next
    case False
    have "wp (?rest (b, t)) (write_out snt get src n i s)" if p: "put_post snt ?c s (b, t)" for b t
    proof (cases b)
      case True
      then have t: "tx_rest t" "tx_out snt t = tx_out snt s @ [?c]" using p by (simp_all add: put_post_def)
      have "wp (consolewrite_loop h get src n (i + 1) t) (write_out snt get src n (i + 1) t)" by (rule Suc(1)) (use Suc(2) i t in auto)
      then have "wp (consolewrite_loop h get src n (i + 1) t) (write_out snt get src n i s)" by (rule wp_mono) (erule write_out_step, use t(2) False in simp_all)
      then show ?thesis using True by simp
    next
      case b: False
      then show ?thesis using p i False by (auto simp: put_post_def write_out_def prod_eq_iff intro!: exI [of _ i])
    qed
    then have "wp (uartputc h ?c s) (\<lambda>x. wp (?rest x) (write_out snt get src n i s))" by (intro wp_mono [OF wp_uartputc(1) [OF assms(1) Suc(3)]]) auto
    moreover have "consolewrite_loop h get src n i s = kbind (uartputc h ?c s) ?rest"
      using i False by (subst consolewrite_loop.simps) (simp add: case_prod_unfold Let_def)
    ultimately show ?thesis by (simp only: wp_kbind)
  qed
qed

end
