(* ===== verification/Console_Theorems.thy ===== *)
theory Console_Theorems
  imports Console_Spec
begin

text \<open>Properties of the console, with an example device.\<close>

section \<open>An example device\<close>

text \<open>The bytes sent, and the number of polls for which the transmitter stays busy: three after each byte.\<close>

type_synonym toy_uart = "uchar list \<times> nat"

definition toy_hw :: "toy_uart uart_hw" where
  "toy_hw = \<lparr>readreg = (\<lambda>r (cs, b). if r = 5 then if b = 0 then (LSR_TX_IDLE, (cs, 0)) else (0, (cs, b - 1)) else (0, (cs, b))),
             writereg = (\<lambda>r c (cs, b). if r = 0 then (cs @ [c], 3) else (cs, b))\<rparr>"

lemma toy_sends: "uart_sends toy_hw fst"
proof -
  have p: "poll toy_hw d = (fst d, snd d - 1)" "tx_idle toy_hw d \<longleftrightarrow> snd d = 0" for d
    by (cases d; simp add: poll_def tx_idle_def toy_hw_def LSR_TX_IDLE_def)+
  have "(poll toy_hw ^^ k) d = (fst d, snd d - k)" for k d by (induction k) (simp_all add: p)
  then have "tx_idle toy_hw ((poll toy_hw ^^ snd d) d)" for d by (simp add: p)
  moreover have "writereg toy_hw 0 c d = (fst d @ [c], 3)" for c d by (cases d) (simp add: toy_hw_def)
  ultimately show ?thesis unfolding uart_sends_def by (auto simp: p)
qed

definition toy_con :: "toy_uart con" where
  "toy_con = \<lparr>ud = ([], 2), tx_lock = initlock ''uart'', tx_buf = replicate 32 0, tx_w = 0, tx_r = 0, panicked = 0, pr_lock = initlock ''pr'', pr_locking = 1,
     c_lock = initlock ''cons'', c_buf = replicate 128 0, c_r = 0, c_w = 0, c_e = 0, con_hart = 0, con_cpu = \<lparr>noff = 0, intena = True, intr = True\<rparr>, con_woken = []\<rparr>"

lemma toy_con_ok: "may_print toy_con" "cons_ok toy_con" "tx_rest toy_con" "lk_free (c_lock toy_con)" "lk_free (pr_lock toy_con)" "ready toy_con = []" "typed toy_con = []"
  "tx_out fst toy_con = []" "ud toy_con = ([], 2)"
  by (simp_all add: toy_con_def may_print_def cpu_calm_def cpu_ok_def cons_ok_def ring_fits_def INPUT_BUF_SIZE_def ready_def typed_def ring_items_def
      tx_rest_def tx_ok_def UART_TX_BUF_SIZE_def tx_out_def tx_items_def)

section \<open>Printing\<close>

text \<open>
  C38: \<^verbatim>\<open>printf\<close> sends to the UART, byte by byte and waiting for the transmitter, exactly the text of its format: plain characters
  as they are, \<^verbatim>\<open>%d\<close> and \<^verbatim>\<open>%x\<close> as the number with its sign in decimal and hexadecimal, for every \<^verbatim>\<open>int\<close> including the least
  one, \<^verbatim>\<open>%p\<close> as sixteen hexadecimal digits, \<^verbatim>\<open>%s\<close> as the string. Nothing else changes, and the lock of \<^verbatim>\<open>printf\<close> is free again.
\<close>

theorem printf_prints_text:
  assumes "uart_sends h snt" "may_print s" "lk_free (pr_lock s)" "format_text fmt ap = Some cs"
  shows "wp (printf h fmt ap s) (\<lambda>t. snt (ud t) = snt (ud s) @ cs \<and> t = s\<lparr>ud := ud t\<rparr>)"
  using wp_printf [OF assms] by (rule wp_mono) (simp add: echo_def)

lemma radix_least: "radix 10 2147483648 = [2, 1, 4, 7, 4, 8, 3, 6, 4, 8]"
  by (simp add: radix.simps)

theorem printf_prints_text_witness:
  "wp (printf toy_hw (chars ''n=%d'') [AInt (- 2147483648)] toy_con) (\<lambda>t. fst (ud t) = chars ''n=-2147483648'')"
proof -
  have "format_text (chars ''n=%d'') [AInt (- 2147483648)] = Some (chars ''n=-2147483648'')"
    by (simp add: chars_def field_text_def int_range_def int_text_def radix_least digits_def)
  from printf_prints_text [OF toy_sends toy_con_ok(1,5) this] show ?thesis by (rule wp_mono) (simp add: toy_con_ok(9))
qed

section \<open>Input\<close>

text \<open>
  C37: The console edits a line. The input is two lists, the complete lines that wait for a reader and the line being typed, never more
  than 128 bytes together. A key acts on them as \<open>key\<close> says: \<^verbatim>\<open>^H\<close> and delete remove the last byte of the line, \<^verbatim>\<open>^U\<close> all of it, any
  other byte is added unless the buffer is full, with return as newline; newline, \<^verbatim>\<open>^D\<close> or a full buffer complete the line and wake
  the readers. What is sent back is \<open>key_echo\<close>. Interrupt state and locks are as before.
\<close>

theorem console_edits_line:
  assumes "uart_sends h snt" "may_print s" "cons_ok s" "lk_free (c_lock s)" "lk_free (pr_lock s)" "\<forall>p \<in> set ps. int_range (pid p)" "0 \<le> c" "c < 256"
  shows "wp (consoleintr h ps c s) (\<lambda>t. cons_ok t \<and> (ready t, typed t) = key c (ready s, typed s) \<and>
    snt (ud t) = snt (ud s) @ key_echo ps c (ready s, typed s) \<and> con_woken t = con_woken s @ (if ready t = ready s then [] else [ConsR]) \<and>
    t = s\<lparr>ud := ud t, c_buf := c_buf t, c_w := c_w t, c_e := c_e t, con_woken := con_woken t\<rparr>)"
  using wp_consoleintr [OF assms] by (rule wp_mono) (unfold key_post_def, assumption)

theorem console_edits_line_witness:
  "wp (consoleintr toy_hw [] 97 toy_con) (\<lambda>t. ready t = [] \<and> typed t = [97] \<and> fst (ud t) = [97] \<and> con_woken t = [])"
  by (rule wp_mono [OF console_edits_line [OF toy_sends toy_con_ok(1,2,4,5), of "[]" 97]])
    (auto simp: toy_con_ok key_def key_echo_def INPUT_BUF_SIZE_def, simp add: toy_con_def)

lemma wp_keys:
  fixes h :: "'d uart_hw"
  assumes "uart_sends h snt" "may_print s" "cons_ok s" "lk_free (c_lock s)" "lk_free (pr_lock s)" "\<forall>p \<in> set ps. int_range (pid p)" "\<forall>c \<in> set cs. 0 \<le> c \<and> c < 256"
  shows "wp (kfold (consoleintr h ps) cs s) (\<lambda>t. may_print t \<and> cons_ok t \<and> lk_free (c_lock t) \<and> lk_free (pr_lock t) \<and>
    (ready t, typed t) = foldl (\<lambda>v c. key c v) (ready s, typed s) cs)"
proof (rule wp_kfold)
  fix pre c rest and t :: "'d con"
  assume c: "cs = pre @ c # rest" and t: "may_print t \<and> cons_ok t \<and> lk_free (c_lock t) \<and> lk_free (pr_lock t) \<and>
    (ready t, typed t) = foldl (\<lambda>v c. key c v) (ready s, typed s) pre"
  have r: "0 \<le> c" "c < 256" using assms(7) c by auto
  show "wp (consoleintr h ps c t) (\<lambda>u. may_print u \<and> cons_ok u \<and> lk_free (c_lock u) \<and> lk_free (pr_lock u) \<and>
      (ready u, typed u) = foldl (\<lambda>v c. key c v) (ready s, typed s) (pre @ [c]))"
  proof (rule wp_mono [OF wp_consoleintr [OF assms(1) _ _ _ _ assms(6) r]])
    fix u
    assume "key_post snt ps c t u"
    then have k: "cons_ok u" "(ready u, typed u) = key c (ready t, typed t)"
      and e: "u = t\<lparr>ud := ud u, c_buf := c_buf u, c_w := c_w u, c_e := c_e u, con_woken := con_woken u\<rparr>" unfolding key_post_def by blast+
    have "panicked u = panicked t" "con_cpu u = con_cpu t" "c_lock u = c_lock t" "pr_lock u = pr_lock t" by (subst e, simp)+
    then show "may_print u \<and> cons_ok u \<and> lk_free (c_lock u) \<and> lk_free (pr_lock u) \<and> (ready u, typed u) = foldl (\<lambda>v c. key c v) (ready s, typed s) (pre @ [c])"
      using k t by (simp add: may_print_def)
  qed (use t in simp_all)
qed (use assms in simp)

text \<open>
  C36: What is typed is what is read, line by line. After any sequence of keys a read of \<open>n\<close> bytes takes from the complete lines up to
  \<open>n\<close> bytes, not past a newline and not past \<^verbatim>\<open>^D\<close>, delivers them in order, and leaves the rest; a \<^verbatim>\<open>^D\<close> that comes first ends the read
  with 0 and is used up, a later one is kept. With too little input the reader sleeps, with what it has taken so far.
\<close>

theorem console_read_after_keys:
  fixes h :: "'d uart_hw"
  assumes "uart_sends h snt" "may_print s" "cons_ok s" "lk_free (c_lock s)" "lk_free (pr_lock s)" "\<forall>p \<in> set ps. int_range (pid p)" "\<forall>c \<in> set cs. 0 \<le> c \<and> c < 256"
    and "0 \<le> n" "n < 2 ^ 31"
  shows "wp (kfold (consoleintr h ps) cs s) (\<lambda>t. wp (consoleread False keep dst n ([], t)) (\<lambda>(out, u, v).
    case cons_take False (nat n) (fst (foldl (\<lambda>v c. key c v) (ready s, typed s) cs)) of (bs, rest, fin) \<Rightarrow>
      u = kept dst bs \<and> ready v = rest \<and> typed v = snd (foldl (\<lambda>v c. key c v) (ready s, typed s) cs) \<and>
      out = (if fin then CDone (int (length bs)) else CReading (n - int (length bs)))))"
proof (rule wp_mono [OF wp_keys [OF assms(1-7)]], elim conjE)
  fix t :: "'d con"
  let ?l = "(c_lock t)\<lparr>locked := 1, lkcpu := Some (con_hart t)\<rparr>"
  let ?t = "t\<lparr>c_lock := ?l, con_cpu := push_off (con_cpu t)\<rparr>"
  assume t: "may_print t" "cons_ok t" "lk_free (c_lock t)" "(ready t, typed t) = foldl (\<lambda>v c. key c v) (ready s, typed s) cs"
  have h: "c_held (c_lock t) (con_cpu t) ?t" using t(1,3) by (simp add: c_held_def may_print_def)
  have "wp (consoleread_loop False keep (of_int n) dst n ([], ?t)) (read_post False n n dst [] (c_lock t) (con_cpu t) ?t)"
    by (rule wp_consoleread_loop [OF h]) (use t(2) assms(8,9) in simp_all)
  then show "wp (consoleread False keep dst n ([], t)) (\<lambda>(out, u, v).
    case cons_take False (nat n) (fst (foldl (\<lambda>v c. key c v) (ready s, typed s) cs)) of (bs, rest, fin) \<Rightarrow>
      u = kept dst bs \<and> ready v = rest \<and> typed v = snd (foldl (\<lambda>v c. key c v) (ready s, typed s) cs) \<and>
      out = (if fin then CDone (int (length bs)) else CReading (n - int (length bs))))"
    unfolding t(4) [symmetric] using acquire_free [OF t(3)]
    by (simp add: consoleread_def consoleread_again_def c_acquire_def) (auto simp: read_post_def elim!: wp_mono split: prod.splits)
qed

theorem console_read_after_keys_witness:
  "wp (kfold (consoleintr toy_hw []) [104, 120, 127, 105, 13, 111] toy_con) (\<lambda>t. wp (consoleread False keep 4096 10 ([], t)) (\<lambda>(out, u, v).
     u = kept 4096 [104, 105, 10] \<and> out = CDone 3 \<and> ready v = [] \<and> typed v = [111]))"
proof -
  have k: "foldl (\<lambda>v c. key c v) ([], []) [104, 120, 127, 105, 13, 111] = ([104, 105, 10], [111])" by (simp add: key_def INPUT_BUF_SIZE_def)
  have n: "nat 10 = Suc (Suc (Suc 7))" by simp
  have t: "cons_take False (nat 10) [104, 105, 10] = ([104, 105, 10], [], True)" by (simp only: n cons_take.simps) simp
  show ?thesis
    using console_read_after_keys [OF toy_sends toy_con_ok(1,2,4,5), of "[]" "[104, 120, 127, 105, 13, 111]" 10 4096]
    unfolding toy_con_ok k fst_conv snd_conv t by (auto elim!: wp_mono simp del: kfold.simps)
qed

section \<open>Output\<close>

text \<open>
  C39: Bytes written to the console leave in order. With everything the UART was given and what waits in its ring as one sequence,
  \<^verbatim>\<open>consolewrite\<close> adds the bytes of the caller at the end one after the other, \<open>j\<close> of them. It returns \<open>j\<close>, which is below the number asked
  for only when the next byte cannot be read; or it sleeps with the ring full and the next byte in hand. The locks are free and the
  interrupt state is as before.
\<close>

theorem console_write_in_order:
  assumes "uart_sends h snt" "tx_rest s" "0 \<le> n"
  shows "wp (consolewrite h get src n s) (\<lambda>(out, t). tx_rest t \<and> (\<exists>j. 0 \<le> j \<and> j \<le> n \<and>
    tx_out snt t = tx_out snt s @ map (\<lambda>k. snd (get (src + of_int k))) [0..j - 1] \<and> (\<forall>k. 0 \<le> k \<and> k < j \<longrightarrow> fst (get (src + of_int k)) \<noteq> -1) \<and>
    (case out of CDone r \<Rightarrow> r = j \<and> (j < n \<longrightarrow> fst (get (src + of_int j)) = -1)
     | CWriting k c \<Rightarrow> k = j \<and> j < n \<and> get (src + of_int j) = (fst (get (src + of_int j)), c) \<and> fst (get (src + of_int j)) \<noteq> -1 \<and>
         length (tx_items t) = UART_TX_BUF_SIZE
     | _ \<Rightarrow> False)))"
  using wp_consolewrite_loop [OF assms] by (simp only: consolewrite_def write_out_def)

text \<open>Three bytes are asked for and the second cannot be read.\<close>

theorem console_write_in_order_witness:
  "wp (consolewrite toy_hw (\<lambda>a. (if a = 66 then -1 else 0, ucast a)) 65 3 toy_con) (\<lambda>(out, t). out = CDone 1 \<and> tx_out fst t = [65])"
proof (rule wp_mono [OF console_write_in_order [OF toy_sends toy_con_ok(3)]], simp, elim case_prodE conjE exE)
  fix x out j and t :: "(uchar list \<times> nat) con"
  let ?get = "\<lambda>a :: uint64. (if a = 66 then -1 else 0 :: int, ucast a :: uchar)"
  assume x: "x = (out, t)" and j: "0 \<le> j" "j \<le> 3" "\<forall>k. 0 \<le> k \<and> k < j \<longrightarrow> fst (?get (65 + of_int k)) \<noteq> -1"
    and t: "tx_out fst t = tx_out fst toy_con @ map (\<lambda>k. snd (?get (65 + of_int k))) [0..j - 1]"
    and out: "case out of CDone r \<Rightarrow> r = j \<and> (j < 3 \<longrightarrow> fst (?get (65 + of_int j)) = -1)
       | CWriting k c \<Rightarrow> k = j \<and> j < 3 \<and> ?get (65 + of_int j) = (fst (?get (65 + of_int j)), c) \<and> fst (?get (65 + of_int j)) \<noteq> -1 \<and>
           length (tx_items t) = UART_TX_BUF_SIZE
       | _ \<Rightarrow> False"
  have "\<not> 1 < j" using spec [OF j(3), of 1] by auto
  then have "j = 0 \<or> j = 1" using j(1) by linarith
  then have "j = 1"
  proof
    assume "j = 0"
    then have "tx_items t = []" using t by (simp add: toy_con_ok(8)) (simp add: tx_out_def)
    then show ?thesis using out \<open>j = 0\<close> by (auto simp: UART_TX_BUF_SIZE_def split: cout.splits)
  qed
  then show "case x of (out, t) \<Rightarrow> out = CDone 1 \<and> tx_out fst t = [65]"
    using x t out by (auto simp: toy_con_ok(8) split: cout.splits)
qed

end
