(* ===== verification/Spec2Isabelle.thy ===== *)
theory Spec2Isabelle
  imports Raid_Theorems Kernel_Theorems Syscall File_Theorems Fs_Theorems Console_Theorems
begin

text \<open>
  Verification of xv6 for RISC-V with RAID support: a small Unix kernel (\<^verbatim>\<open>src/kernel\<close>) that drives one program disk and
  a number of RAID disks through virtio, offers RAID 0, 1, 0+1, 4 and 5 to user programs as system calls, and keeps
  a logging file system on the program disk.

  \<^bold>\<open>The program and its parts.\<close> A user program enters the kernel with a system call (\<^verbatim>\<open>syscall.c\<close>, \<^verbatim>\<open>sysproc.c\<close>, \<^verbatim>\<open>sysfile.c\<close>). Calls
  on files go through open files (\<^verbatim>\<open>file.c\<close>), pipes (\<^verbatim>\<open>pipe.c\<close>), the console (\<^verbatim>\<open>console.c\<close>, \<^verbatim>\<open>uart.c\<close>) and inodes (\<^verbatim>\<open>fs.c\<close>), which read and
  change disk blocks inside a transaction of the log (\<^verbatim>\<open>log.c\<close>) over the buffer cache (\<^verbatim>\<open>bio.c\<close>). RAID calls go to \<^verbatim>\<open>raid.c\<close>,
  which keeps its metadata in block 0 of every RAID disk. Both end in the disk driver (\<^verbatim>\<open>virtio_disk.c\<close>). Data is copied between user
  and kernel memory through page tables (\<^verbatim>\<open>vm.c\<close>), whose pages come from \<^verbatim>\<open>kalloc.c\<close>. Processes (\<^verbatim>\<open>proc.c\<close>) sleep and are woken;
  spin locks and sleep locks (\<^verbatim>\<open>spinlock.c\<close>, \<^verbatim>\<open>sleeplock.c\<close>) protect all shared state.

  \<^bold>\<open>Form of the model.\<close> C functions are HOL functions on records that have the fields of the C structures, machine integers are
  words or integers with the wrap-around written out. A function that may stop returns \<open>halt + 'a\<close>: \<open>Panic\<close> with its message, \<open>BadAccess\<close>
  for an access outside C, \<open>Blocked\<close> for a thread that waits forever (theory \<open>Prelude\<close>). \<open>wp m Q\<close> says that \<open>m\<close> returns and
  its result satisfies \<open>Q\<close>; most laws are of this form and so include termination. Code that goes to sleep is cut there: the
  part up to the sleep is one definition, the part after it another (\<open>..._again\<close>, \<open>..._end\<close>), and interleavings are sequences of
  parts. Hardware is a parameter: the virtio device (\<open>virtio_blk_device\<close>, theory \<open>Virtio\<close>) and the UART (\<open>uart_sends\<close>, theory \<open>Printf_Spec\<close>)
  with the documented behaviour the drivers rely on as hypotheses, which the examples satisfy with concrete devices.

  \<^bold>\<open>Theories.\<close>
  \<^item> \<open>Prelude\<close>: outcomes, sequencing, loops, words as bytes. \<open>Locks\<close>: \<^verbatim>\<open>spinlock.c\<close>, \<^verbatim>\<open>sleeplock.c\<close>. \<open>Lock_Steps\<close>: any number of harts on one
    spin lock, as steps. \<open>Kalloc\<close>: \<^verbatim>\<open>kalloc.c\<close>.
  \<^item> \<open>Virtio\<close>: \<^verbatim>\<open>virtio_disk.c\<close>, from the descriptors of a request to the completion interrupt. \<open>Ram_Disk\<close>: an example device.
  \<^item> \<open>Raid_Base\<close>, \<open>Raid0\<close>, \<open>Raid1\<close>, \<open>Raid01\<close>, \<open>Raid4\<close>, \<open>Raid5\<close>, \<open>Raid_Api\<close>: \<^verbatim>\<open>raid.c\<close>, one theory per level. \<open>Raid_Volume\<close>: what a level
    promises, as locales (\<open>block_volume\<close>, and its extension for levels that survive the loss of a disk), interpreted for each level;
    \<open>Raid_Parity\<close>: the algebra shared by RAID 4 and 5. \<open>Raid_Theorems\<close>: the properties.
  \<^item> \<open>Vm\<close>, \<open>Vm_Copy\<close>, \<open>Vm_Map\<close>: \<^verbatim>\<open>vm.c\<close>, copies between address spaces, and the mapping a tree of page tables stands for.
  \<^item> \<open>Proc\<close>, \<open>Proc_Steps\<close>: \<^verbatim>\<open>proc.c\<close>, and scheduling as a step relation. \<open>CString\<close>: \<^verbatim>\<open>string.c\<close> and the string part of \<^verbatim>\<open>user/ulib.c\<close>.
    \<open>Syscall\<close>: \<^verbatim>\<open>syscall.c\<close>, \<^verbatim>\<open>sysproc.c\<close>. \<open>Kernel_Theorems\<close>: properties of these parts.
  \<^item> \<open>Bio\<close>, \<open>Bio_Ring\<close>, \<open>Bio_Spec\<close>: \<^verbatim>\<open>bio.c\<close>, its doubly linked ring, and what it promises (locale \<open>buffer_cache\<close>). \<open>Log\<close>, \<open>Log_Spec\<close>: \<^verbatim>\<open>log.c\<close>
    and the disk writes of a commit. \<open>Disk_Theorems\<close>: their properties.
  \<^item> \<open>Fs\<close>: \<^verbatim>\<open>fs.c\<close>. \<open>Fs_Blocks\<close>: what it relies on inside a transaction (locale \<open>logged_blocks\<close>), interpreted with the log. \<open>Fs_Alloc\<close>,
    \<open>Fs_File\<close>, \<open>Fs_Read\<close>, \<open>Fs_Write\<close>, \<open>Fs_Inode\<close>, \<open>Fs_Spec\<close>: laws of the allocator, of \<^verbatim>\<open>bmap\<close>, \<^verbatim>\<open>readi\<close>, \<^verbatim>\<open>iupdate\<close> and \<^verbatim>\<open>writei\<close>, with a file as
    a list of bytes. \<open>Inode_Table\<close>: the references the inode table counts. \<open>Fs_Theorems\<close>: the properties.
  \<^item> \<open>Ring_Buffer\<close>: rings with wrapping counters. \<open>Pipe\<close>, \<open>Pipe_Spec\<close>: \<^verbatim>\<open>pipe.c\<close>. \<open>File\<close>: \<^verbatim>\<open>file.c\<close>. \<open>Sysfile\<close>: \<^verbatim>\<open>sysfile.c\<close> and \<^verbatim>\<open>exec.c\<close>.
    \<open>Path_Spec\<close>: path names. \<open>File_Theorems\<close>: the properties.
  \<^item> \<open>Uart\<close>, \<open>Printf\<close>, \<open>Console\<close>: \<^verbatim>\<open>uart.c\<close>, \<^verbatim>\<open>printf.c\<close>, \<^verbatim>\<open>console.c\<close>. \<open>Printf_Spec\<close>, \<open>Console_Spec\<close>: the text of a format, and the console as
    two lists of bytes. \<open>Console_Theorems\<close>: the properties.

  \<^bold>\<open>What the properties show.\<close> RAID: every level is a block device behind the entry points; RAID 1, 0+1, 4 and 5 keep all data when one disk
  is lost, and repair restores the redundancy; what degraded writes do instead is stated exactly. Disk and log: a block read is
  the block last written, through the driver and through the cache; a commit is atomic under a crash between any two writes. Files: a
  write replaces bytes and is read back, other files and inodes stay, the allocator hands out free blocks only, and the
  inode table counts the references to every inode. Memory: copies to
  and from user memory move exactly the translated bytes; new memory is zeroed and disjoint. Processes and locks: mutual exclusion
  and progress of spin locks in every interleaving, the scheduling invariant, the ways out of a sleep. Strings, pipes, paths and
  console: equivalence with their list specifications. A property of kind error states what the code does on a path where it does
  not do what it means to; the findings of the manifest name them.

  \<^bold>\<open>Bounds and fuel.\<close> Sizes are those of the source: 1024-byte blocks, 30 log blocks, 30 buffers, 64 processes, 512-byte pipes.
  The number of RAID disks and their size are parameters, as they are settings of the Makefile. The laws of \<^verbatim>\<open>bmap\<close> and \<^verbatim>\<open>writei\<close> ask
  for room in the log: six blocks per block written and one for the inode, the worst case of the code. Loops have termination
  proofs or are partial functions; the only fuel is the number of rounds of \<open>uartintr_loop\<close>, since bytes may arrive as fast
  as the loop takes them, and no property is about it.

  \<^bold>\<open>Not modelled.\<close> \<^verbatim>\<open>trap.c\<close>, \<^verbatim>\<open>plic.c\<close>, \<^verbatim>\<open>start.c\<close>, \<^verbatim>\<open>main.c\<close> and the assembly files set up and switch between privilege modes, stacks and
  register files, for which the model has no instruction set; the dispatch in \<^verbatim>\<open>syscall.c\<close> joins calls on states the model keeps apart.
  \<^verbatim>\<open>virtio_disk_init\<close>, \<^verbatim>\<open>kvminit\<close> and \<^verbatim>\<open>kvminithart\<close> program device and satp registers once. \<^verbatim>\<open>ramdisk.c\<close> is not linked into the kernel. User
  programs (\<^verbatim>\<open>user/\<close>) and \<^verbatim>\<open>mkfs.c\<close> run outside the kernel, against its system calls or the host's; of \<^verbatim>\<open>user/ulib.c\<close> the string routines are
  modelled. Calls of \<^verbatim>\<open>wakeup\<close> are histories in the models of the log, pipes and the console and are left out of \<^verbatim>\<open>releasesleep\<close> and \<^verbatim>\<open>free_desc\<close>;
  the law of \<^verbatim>\<open>writei\<close> leaves out a copy from the caller that fails after it has stored a part of a block. Messages printed by \<^verbatim>\<open>fs.c\<close> and \<^verbatim>\<open>exec.c\<close> on failures are left out of those models.
\<close>

section \<open>User programs and the volume\<close>

text \<open>The registers of the current process that carry the first two arguments of a system call.\<close>

definition put_args :: "uint64 \<Rightarrow> uint64 \<Rightarrow> ('m, 'f) sys \<Rightarrow> ('m, 'f) sys" where
  "put_args x y s =
     (case cur (ps s) of None \<Rightarrow> s
      | Some i \<Rightarrow> let t = trapframe (proc_at (ps s) i); f = frames (ps s) in
          s\<lparr>ps := (ps s)\<lparr>frames := f(t := (f t)\<lparr>regs := (regs (f t))(10 := x, 11 := y)\<rparr>)\<rparr>\<rparr>)"

lemma put_args_simps [simp]:
  "kview (put_args x y s) = kview s" "cur (ps (put_args x y s)) = cur (ps s)" "procs (ps (put_args x y s)) = procs (ps s)"
  "pm (mem (ps (put_args x y s))) = pm (mem (ps s))"
  by (simp_all add: put_args_def kview_def Let_def split: option.splits)

lemma put_args_reg:
  assumes "cur (ps s) = Some i"
  shows "user_reg (put_args x y s) i 10 = x" "user_reg (put_args x y s) i 11 = y"
  using assms by (simp_all add: put_args_def Let_def)

text \<open>
  C8: A user program that writes a block of its memory to an array of any level and reads the block back
  to another place of its memory finds there the bytes it wrote: through the system calls, the page
  tables, the RAID code and the disk driver. Both calls return 0 and the array stays consistent.
\<close>

theorem user_data_round_trip:
  assumes "cur (ps s) = Some i" "array_ok h st ty (kview s)" "length (stack_junk h) = BSIZE"
    and "array_addr h ty (sint (ucast b :: uint32))"
    and "urange (user_pt s i) (pm (mem (ps s))) wa BSIZE = Some was"
    and "urange (user_pt s i) (pm (mem (ps s))) ra BSIZE = Some ras" "distinct ras"
  shows "wp (kbind (sys_write_raid h (put_args b wa s)) (\<lambda>(r, t).
      kbind (sys_read_raid h (put_args b ra t)) (\<lambda>(q, u). Inr (r, q, u))))
    (\<lambda>(r, q, u). r = 0 \<and> q = 0 \<and> map (ram (pm (mem (ps u)))) ras = map (ram (pm (mem (ps s)))) was \<and>
      array_ok h st ty (kview u))"
proof -
  let ?b = "sint (ucast b :: uint32)" and ?x = "map (ram (pm (mem (ps s)))) was"
  have len: "length ?x = BSIZE" "length ras = BSIZE" using assms(5,6) by (auto dest: urange_length)
  have "wp (sys_write_raid h (put_args b wa s)) (\<lambda>(r, t). r = 0 \<and> same_user (put_args b wa s) t \<and> array_ok h st ty (kview t) \<and>
      array_vol h st ty (kview t) ?b = ?x)"
    using sys_write_raid_ok [of "put_args b wa s" i h st ty ?b was] assms put_args_reg [OF assms(1), of b wa]
    by (auto elim!: wp_mono)
  then show ?thesis
  proof (unfold wp_kbind, rule wp_mono, clarify)
    fix t
    assume t: "same_user (put_args b wa s) t" "array_ok h st ty (kview t)" "array_vol h st ty (kview t) ?b = ?x"
    have u: "cur (ps t) = Some i" "procs (ps t) = procs (ps s)" "pm (mem (ps t)) = pm (mem (ps s))"
      using t(1) assms(1) by (simp_all add: same_user_def)
    have "map (store_at ras ?x (ram (pm (mem (ps s))))) ras = ?x"
      using store_at_nth [of ras ?x] len assms(7) by (intro nth_equalityI) simp_all
    then show "wp (kbind (sys_read_raid h (put_args b ra t)) (\<lambda>(q, u). Inr (0, q, u)))
      (\<lambda>(r, q, u). r = 0 \<and> q = 0 \<and> map (ram (pm (mem (ps u)))) ras = ?x \<and> array_ok h st ty (kview u))"
      using sys_read_raid_ok [of "put_args b ra t" i h st ty ?b ras] u t assms len put_args_reg [OF u(1), of b ra]
      by (auto elim!: wp_mono)
  qed
qed

definition user_machine :: "(ram, unit) sys" where
  "user_machine = \<lparr>rk = fresh RAID5,
     ps = two_procs\<lparr>procs := (procs two_procs)[0 := (proc_at two_procs 0)\<lparr>pagetable := 0x80022000\<rparr>],
       mem := \<lparr>km = kmem (fresh RAID5), pm = one_page\<rparr>\<rparr>\<rparr>"

lemma user_machine_view: "kview user_machine = fresh RAID5"
  by (simp add: kview_def user_machine_def ram_kernel_def ram_driver_def)

theorem user_data_round_trip_witness:
  "wp (kbind (sys_write_raid ram_hw (put_args 9 0 user_machine)) (\<lambda>(r, t).
      kbind (sys_read_raid ram_hw (put_args 9 2048 t)) (\<lambda>(q, u). Inr (r, q, u))))
    (\<lambda>(r, q, u). r = 0 \<and> q = 0 \<and> ram (pm (mem (ps u))) 0x80025805 = ram one_page 0x80025005)"
proof -
  have pt: "user_pt user_machine 0 = 0x80022000" "pm (mem (ps user_machine)) = one_page" "cur (ps user_machine) = Some 0"
    by (simp_all add: user_machine_def NPROC_def)
  let ?was = "map (\<lambda>i. 0x80025000 + i) [0..<BSIZE]" and ?ras = "map (\<lambda>i. 0x80025800 + i) [0..<BSIZE]"
  have r: "urange (user_pt user_machine 0) (pm (mem (ps user_machine))) 0 BSIZE = Some ?was"
    "urange (user_pt user_machine 0) (pm (mem (ps user_machine))) 2048 BSIZE = Some ?ras"
    unfolding pt using one_page_range [of 0 BSIZE] one_page_range [of 2048 BSIZE] by (simp_all add: BSIZE_def)
  have "f 0x80025805 = g 0x80025005" if e: "map f ?ras = map g ?was" for f g :: "nat \<Rightarrow> uchar"
    using arg_cong [OF e, of "\<lambda>l. l ! 5"] by (simp add: BSIZE_def)
  moreover have "array_ok ram_hw (\<lambda>m. m) RAID5 (kview user_machine)" "array_addr ram_hw RAID5 (sint (ucast (9 :: uint64) :: uint32))"
    "length (stack_junk ram_hw) = BSIZE"
    unfolding user_machine_view
    by (auto simp: array_ok_def array_addr_def raid5_addr_def raid5_slot_def)
  ultimately show ?thesis
    using user_data_round_trip [OF pt(3) _ _ _ r, of ram_hw "\<lambda>m. m" RAID5 9] unfolding pt(2)
    by (auto simp: distinct_map elim!: wp_mono simp del: wp_kbind)
qed

end
